(* ===== verification/Miner_Prelude.thy ===== *)
theory Miner_Prelude
  imports Main "HOL-Library.Word"
begin

text \<open>
  Shared material of the development: the names of Go's machine types, the error results of
  fallible functions, the byte order codecs of \<open>encoding/binary\<close>, the built-in \<open>copy\<close>, and
  positioned reads and writes on the contents of a file (\<open>ReadAt\<close>, \<open>WriteAt\<close>). Contents are
  plain byte lists; a write past the end fills the gap with zero bytes, as a sparse file does.
\<close>

section \<open>Types and collections\<close>

type_synonym byte = "8 word"
type_synonym bytes = "8 word list"
type_synonym u16 = "16 word"
type_synonym u32 = "32 word"
type_synonym u64 = "64 word"
type_synonym fpath = string

named_theorems codec_simps \<open>byte order codecs: lengths and round trips\<close>
named_theorems file_simps \<open>positioned reads and writes on byte lists\<close>

section \<open>Words as natural numbers\<close>

lemma unat_lt2p: "unat (w :: 'a::len word) < 2 ^ LENGTH('a)"
  by (rule unsigned_less)

lemma unat_add_bound:
  fixes a b :: "'a::len word"
  assumes "unat a + unat b < 2 ^ LENGTH('a)"
  shows "unat (a + b) = unat a + unat b"
  using assms unat_add_lem by blast

lemma unat_mult_bound:
  fixes a b :: "'a::len word"
  assumes "unat a * unat b < 2 ^ LENGTH('a)"
  shows "unat (a * b) = unat a * unat b"
  using assms unat_mult_lem by blast

lemma unat_of_nat_bound: "n < 2 ^ LENGTH('a) \<Longrightarrow> unat (of_nat n :: 'a::len word) = n"
  by (simp add: unat_of_nat take_bit_nat_eq_self)

lemma unat_sub_le: "b \<le> a \<Longrightarrow> unat (a - b) = unat a - unat b"
  for a b :: "'a::len word"
  by (rule unat_sub)

lemma unat_two_power: "n < LENGTH('a) \<Longrightarrow> unat (2 ^ n :: 'a::len word) = 2 ^ n"
  using unat_of_nat_bound [of "2 ^ n", where 'a = 'a] by (simp add: power_strict_increasing)

text \<open>Offsets computed in Go's 64-bit \<open>int\<close>, when they do not overflow.\<close>

lemma sint_of_nat_bound:
  assumes "n < 2 ^ 63"
  shows "sint (word_of_nat n :: u64) = int n"
proof -
  have "sint (word_of_int (int n) :: u64) = signed_take_bit 63 (int n)"
    by (subst sint_sbintrunc') simp
  also have "\<dots> = int n" using assms by (intro signed_take_bit_int_eq_self) simp_all
  finally show ?thesis by simp
qed

lemma sint_offset:
  fixes k :: u64
  assumes "off + unat k * r < 2 ^ 63"
  shows "sint (word_of_nat off + k * word_of_nat r) = int (off + unat k * r)"
  using sint_of_nat_bound [OF assms] by simp

section \<open>Byte order\<close>

text \<open>The \<open>n\<close> low bytes of a number, least significant first, and back.\<close>

fun le_put :: "nat \<Rightarrow> nat \<Rightarrow> bytes" where
  "le_put 0 v = []"
| "le_put (Suc n) v = word_of_nat v # le_put n (v div 256)"

fun le_get :: "bytes \<Rightarrow> nat" where
  "le_get [] = 0"
| "le_get (b # bs) = unat b + 256 * le_get bs"

lemma length_le_put [simp, codec_simps]: "length (le_put n v) = n"
  by (induction n arbitrary: v) auto

lemma unat_byte_lt [simp]: "unat (b :: byte) < 256"
  using unat_lt2p [of b] by simp

lemma le_get_put [codec_simps]: "le_get (le_put n v) = v mod 256 ^ n"
proof (induction n arbitrary: v)
  case 0
  then show ?case by simp
next
  case (Suc n)
  have "v mod 256 ^ Suc n = v mod 256 + 256 * (v div 256 mod 256 ^ n)"
    by (simp add: mod_mult2_eq)
  with Suc show ?case
    by (simp add: unat_of_nat take_bit_eq_mod)
qed

lemma le_get_bound: "le_get bs < 256 ^ length bs"
proof (induction bs)
  case (Cons b bs)
  have "unat b + 256 * le_get bs < 256 * Suc (le_get bs)" by simp
  also have "\<dots> \<le> 256 * 256 ^ length bs" using Cons by (simp del: mult_Suc_right)
  finally show ?case by simp
qed simp

lemma of_nat_256_byte [simp]: "256 * (b :: byte) = 0"
proof -
  have "(256 :: byte) = 0" by simp
  then show ?thesis by (simp only: mult_zero_left)
qed

lemma le_put_get [codec_simps]: "le_put (length bs) (le_get bs) = bs"
  by (induction bs) (auto simp: div_add1_eq)

lemma le_put_0 [codec_simps]: "le_put n 0 = replicate n 0"
  by (induction n) auto

lemma take_le_put [codec_simps]: "k \<le> n \<Longrightarrow> take k (le_put n v) = le_put k v"
proof (induction k arbitrary: n v)
  case (Suc k)
  then show ?case by (cases n) auto
qed simp

lemma le_put_inj: "le_put n v = le_put n w \<Longrightarrow> v < 256 ^ n \<Longrightarrow> w < 256 ^ n \<Longrightarrow> v = w"
  by (metis le_get_put mod_less)

lemma le_put_zero_iff: "v < 256 ^ n \<Longrightarrow> le_put n v = replicate n 0 \<longleftrightarrow> v = 0"
  using le_put_inj [of n v 0] by (auto simp: le_put_0)

text \<open>\<open>binary.LittleEndian.PutUint64\<close> and \<open>Uint64\<close>; \<open>binary.BigEndian.PutUint16\<close> and \<open>Uint16\<close>.\<close>

definition le_PutUint64 :: "u64 \<Rightarrow> bytes" where
  "le_PutUint64 v = le_put 8 (unat v)"

definition le_Uint64 :: "bytes \<Rightarrow> u64" where
  "le_Uint64 bs = word_of_nat (le_get (take 8 bs))"

definition be_PutUint16 :: "u16 \<Rightarrow> bytes" where
  "be_PutUint16 v = rev (le_put 2 (unat v))"

definition be_Uint16 :: "bytes \<Rightarrow> u16" where
  "be_Uint16 bs = word_of_nat (le_get (rev (take 2 bs)))"

lemma length_le_PutUint64 [simp, codec_simps]: "length (le_PutUint64 v) = 8"
  by (simp add: le_PutUint64_def)

lemma length_be_PutUint16 [simp, codec_simps]: "length (be_PutUint16 v) = 2"
  by (simp add: be_PutUint16_def)

lemma le_Uint64_PutUint64 [simp, codec_simps]: "le_Uint64 (le_PutUint64 v) = v"
  using unat_lt2p [of v]
  by (simp add: le_Uint64_def le_PutUint64_def le_get_put)

lemma be_Uint16_PutUint16 [simp, codec_simps]: "be_Uint16 (be_PutUint16 v @ r) = v"
  using unat_lt2p [of v]
  by (simp add: be_Uint16_def be_PutUint16_def le_get_put)

section \<open>Positioned reads and writes\<close>

lemma record_end: "k < n \<Longrightarrow> k * w + w \<le> n * (w :: nat)"
  using mult_le_mono1 [of "Suc k" n w] by simp

definition read_at :: "bytes \<Rightarrow> nat \<Rightarrow> nat \<Rightarrow> bytes" where
  "read_at f off n = take n (drop off f)"

definition write_at :: "bytes \<Rightarrow> nat \<Rightarrow> bytes \<Rightarrow> bytes" where
  "write_at f off bs =
     (if bs = [] then f
      else take off f @ replicate (off - length f) 0 @ bs @ drop (off + length bs) f)"

text \<open>Go's \<open>copy(dst[pos:], src)\<close> for \<open>pos \<le> len(dst)\<close>.\<close>

definition copy_at :: "bytes \<Rightarrow> nat \<Rightarrow> bytes \<Rightarrow> bytes" where
  "copy_at dst pos src =
     take pos dst @ take (length dst - pos) src @ drop (pos + length src) dst"

lemma length_write_at [simp, file_simps]:
  "length (write_at f off bs) = (if bs = [] then length f else max (length f) (off + length bs))"
  by (auto simp: write_at_def)

lemma le_length_write_at: "n \<le> length f \<Longrightarrow> n \<le> length (write_at f off bs)"
  by (auto simp: write_at_def)

lemma length_read_at [simp, file_simps]: "length (read_at f off n) = min n (length f - off)"
  by (simp add: read_at_def min.commute)

lemma length_copy_at [simp, file_simps]: "pos \<le> length dst \<Longrightarrow> length (copy_at dst pos src) = length dst"
  by (simp add: copy_at_def)

lemma copy_at_eq_write_at:
  "pos + length src \<le> length dst \<Longrightarrow> copy_at dst pos src = write_at dst pos src"
  by (simp add: copy_at_def write_at_def)

lemma nth_write_at:
  "i < length (write_at f off bs) \<Longrightarrow>
     write_at f off bs ! i =
       (if off \<le> i \<and> i < off + length bs then bs ! (i - off)
        else if i < length f then f ! i else 0)"
  by (auto simp: write_at_def nth_append min_def split: if_splits)

lemma read_at_write_same [file_simps]: "read_at (write_at f off bs) off (length bs) = bs"
  by (cases "bs = []") (simp_all add: read_at_def write_at_def)

lemma read_at_write_sub:
  assumes "off \<le> p" "p + n \<le> off + length bs"
  shows "read_at (write_at f off bs) p n = read_at bs (p - off) n"
proof (cases "bs = []")
  case True
  with assms have "n = 0" by simp
  then show ?thesis by (simp add: read_at_def)
next
  case False
  with assms show ?thesis
    by (intro nth_equalityI) (auto simp: read_at_def nth_write_at max_def)
qed

lemma read_at_write_before [file_simps]:
  assumes "p + n \<le> off" "p + n \<le> length f"
  shows "read_at (write_at f off bs) p n = read_at f p n"
  using assms by (intro nth_equalityI) (auto simp: read_at_def nth_write_at max_def)

lemma read_at_write_after [file_simps]:
  assumes "off + length bs \<le> p" "p + n \<le> length f"
  shows "read_at (write_at f off bs) p n = read_at f p n"
  using assms by (intro nth_equalityI) (auto simp: read_at_def nth_write_at max_def)

lemma read_at_read_at:
  "p + k \<le> n \<Longrightarrow> read_at (read_at f off n) p k = read_at f (off + p) k"
  by (simp add: read_at_def drop_take min_def add.commute)

lemma write_at_write_at_adjacent:
  "write_at (write_at f off xs) (off + length xs) ys = write_at f off (xs @ ys)"
proof (cases "xs = [] \<or> ys = []")
  case True
  then show ?thesis by (auto simp: write_at_def)
next
  case False
  let ?l = "write_at (write_at f off xs) (off + length xs) ys"
  let ?r = "write_at f off (xs @ ys)"
  have len: "length ?l = length ?r" using False by (simp add: max_def)
  moreover have "?l ! i = ?r ! i" if "i < length ?l" for i
    using that len False by (auto simp: nth_write_at nth_append max_def split: if_splits)
  ultimately show ?thesis by (rule nth_equalityI)
qed

text \<open>Fields of a fixed-size header, written with \<open>copy\<close>.\<close>

lemma read_at_copy_same [file_simps]:
  "pos + length src \<le> length dst \<Longrightarrow> n = length src \<Longrightarrow> read_at (copy_at dst pos src) pos n = src"
  by (simp add: copy_at_eq_write_at read_at_write_same)

lemma read_at_copy_other [file_simps]:
  assumes "pos + length src \<le> length dst" "p + n \<le> pos \<or> pos + length src \<le> p" "p + n \<le> length dst"
  shows "read_at (copy_at dst pos src) p n = read_at dst p n"
  using assms by (auto simp: copy_at_eq_write_at read_at_write_before read_at_write_after)

lemma nth_copy_at [file_simps]:
  assumes "pos + length src \<le> length dst" "i < length dst"
  shows "copy_at dst pos src ! i = (if pos \<le> i \<and> i < pos + length src then src ! (i - pos) else dst ! i)"
  using assms by (auto simp: copy_at_eq_write_at nth_write_at max_def)

section \<open>Fixed-width codecs\<close>

text \<open>
  The interface of a fixed-width encoder and its decoder. A value written at a position of a
  header or a file is read back from that position.
\<close>

locale field_codec =
  fixes enc :: "'v \<Rightarrow> bytes" and dec :: "bytes \<Rightarrow> 'v" and width :: nat
  assumes enc_width: "length (enc v) = width"
    and dec_enc: "dec (enc v) = v"
begin

lemma dec_copy: "pos + width \<le> length dst \<Longrightarrow> dec (read_at (copy_at dst pos (enc v)) pos width) = v"
  by (simp add: read_at_copy_same enc_width dec_enc)

lemma dec_write: "dec (read_at (write_at f pos (enc v)) pos width) = v"
  using read_at_write_same [of f pos "enc v"] by (simp add: enc_width dec_enc)

lemma enc_inj: "enc v = enc v' \<longleftrightarrow> v = v'"
  by (metis dec_enc)

end

interpretation le64: field_codec le_PutUint64 le_Uint64 8
  by unfold_locales simp_all

interpretation be16: field_codec be_PutUint16 be_Uint16 2
  using be_Uint16_PutUint16 [of _ "[]"] by unfold_locales simp_all

end
