(* ===== verification/Go_Text.thy ===== *)
theory Go_Text
  imports Miner_Prelude
begin

text \<open>
  The text functions of Go's standard library that the program uses: \<open>encoding/hex\<close>
  (lower-case encoding, case-insensitive decoding with its two errors), \<open>strconv.Itoa\<close> and
  \<open>strconv.Atoi\<close>, \<open>strings.Join\<close>, \<open>strings.Split\<close> on one character, and \<open>strings.ToUpper\<close>
  on ASCII text. Round trips are proved for each encoder and decoder pair.
\<close>

named_theorems text_simps \<open>round trips and lengths of the text functions\<close>

section \<open>Hexadecimal\<close>

datatype hex_error = InvalidByteError char | ErrLength

definition hextable :: string where
  "hextable = ''0123456789abcdef''"

fun hex_EncodeToString :: "bytes \<Rightarrow> string" where
  "hex_EncodeToString [] = []"
| "hex_EncodeToString (b # bs) =
     hextable ! (unat b div 16) # hextable ! (unat b mod 16) # hex_EncodeToString bs"

definition fromHexChar :: "char \<Rightarrow> nat option" where
  "fromHexChar c =
     (let n = of_char c :: nat in
      if 48 \<le> n \<and> n \<le> 57 then Some (n - 48)
      else if 97 \<le> n \<and> n \<le> 102 then Some (n - 97 + 10)
      else if 65 \<le> n \<and> n \<le> 70 then Some (n - 65 + 10)
      else None)"

fun hex_DecodeString :: "string \<Rightarrow> hex_error + bytes" where
  "hex_DecodeString [] = Inr []"
| "hex_DecodeString [c] =
     (case fromHexChar c of None \<Rightarrow> Inl (InvalidByteError c) | Some _ \<Rightarrow> Inl ErrLength)"
| "hex_DecodeString (c # d # cs) =
     (case fromHexChar c of None \<Rightarrow> Inl (InvalidByteError c)
      | Some a \<Rightarrow> (case fromHexChar d of None \<Rightarrow> Inl (InvalidByteError d)
          | Some b \<Rightarrow> (case hex_DecodeString cs of Inl e \<Rightarrow> Inl e
              | Inr bs \<Rightarrow> Inr (word_of_nat (16 * a + b) # bs))))"

lemma all_less_16: "(\<forall>n < 16. P n) \<longleftrightarrow> list_all P [0..<16]"
  by (auto simp: list_all_iff)

lemma fromHexChar_hextable: "n < 16 \<Longrightarrow> fromHexChar (hextable ! n) = Some n"
proof -
  have "\<forall>n < 16. fromHexChar (hextable ! n) = Some n"
    unfolding all_less_16 by code_simp
  then show "n < 16 \<Longrightarrow> ?thesis" by blast
qed

lemma hex_roundtrip [simp, text_simps]: "hex_DecodeString (hex_EncodeToString bs) = Inr bs"
proof (induction bs)
  case (Cons b bs)
  have "unat b div 16 < 16" using unat_byte_lt [of b] by linarith
  moreover have "16 * (unat b div 16) + unat b mod 16 = unat b" by simp
  ultimately show ?case
    using Cons by (simp add: fromHexChar_hextable)
qed simp

lemma length_hex_EncodeToString [simp, text_simps]:
  "length (hex_EncodeToString bs) = 2 * length bs"
  by (induction bs) auto

lemma hex_EncodeToString_inj: "hex_EncodeToString xs = hex_EncodeToString ys \<longleftrightarrow> xs = ys"
  by (metis hex_roundtrip sum.inject(2))

lemma set_hex_EncodeToString: "set (hex_EncodeToString bs) \<subseteq> set hextable"
proof (induction bs)
  case (Cons b bs)
  have "hextable ! n \<in> set hextable" if "n < 16" for n
    using that by (intro nth_mem) (simp add: hextable_def)
  moreover have "unat b div 16 < 16" using unat_byte_lt [of b] by linarith
  ultimately show ?case using Cons by simp
qed simp

section \<open>Decimal numbers\<close>

definition digit_char :: "nat \<Rightarrow> char" where
  "digit_char n = char_of (48 + n mod 10)"

fun nat_to_dec :: "nat \<Rightarrow> string" where
  "nat_to_dec n = (if n < 10 then [digit_char n] else nat_to_dec (n div 10) @ [digit_char n])"

declare nat_to_dec.simps [simp del]

definition Itoa :: "int \<Rightarrow> string" where
  "Itoa i = (if i < 0 then CHR ''-'' # nat_to_dec (nat (- i)) else nat_to_dec (nat i))"

definition is_digit :: "char \<Rightarrow> bool" where
  "is_digit c \<longleftrightarrow> 48 \<le> (of_char c :: nat) \<and> (of_char c :: nat) \<le> 57"

definition dec_to_nat :: "string \<Rightarrow> nat" where
  "dec_to_nat = foldl (\<lambda>n c. 10 * n + (of_char c - 48)) 0"

text \<open>
  \<open>strconv.Atoi\<close> for a 64-bit \<open>int\<close>: an optional sign, at least one digit, digits only, and the
  value in range. \<open>None\<close> stands for its error.
\<close>

definition Atoi :: "string \<Rightarrow> int option" where
  "Atoi s =
     (let (neg, ds) = (case s of [] \<Rightarrow> (False, [])
           | c # cs \<Rightarrow> (if c = CHR ''-'' then (True, cs)
                       else if c = CHR ''+'' then (False, cs) else (False, s)));
          v = (if neg then - int (dec_to_nat ds) else int (dec_to_nat ds)) in
      if ds \<noteq> [] \<and> list_all is_digit ds \<and> - (2 ^ 63) \<le> v \<and> v < 2 ^ 63 then Some v else None)"

lemma of_char_digit_char: "(of_char (digit_char n) :: nat) = 48 + n mod 10"
  by (simp add: digit_char_def)

lemma is_digit_digit_char [simp]: "is_digit (digit_char n)"
  using mod_less_divisor [of 10 n] by (simp add: is_digit_def of_char_digit_char)

lemma nat_to_dec_nonempty [simp]: "nat_to_dec n \<noteq> []"
  by (subst nat_to_dec.simps) simp

lemma nat_to_dec_digits [simp]: "list_all is_digit (nat_to_dec n)"
proof (induction n rule: nat_to_dec.induct)
  case (1 n)
  then show ?case by (subst nat_to_dec.simps) auto
qed

lemma dec_to_nat_snoc: "dec_to_nat (s @ [c]) = 10 * dec_to_nat s + (of_char c - 48)"
  by (simp add: dec_to_nat_def)

lemma dec_to_nat_to_dec [simp, text_simps]: "dec_to_nat (nat_to_dec n) = n"
proof (induction n rule: nat_to_dec.induct)
  case (1 n)
  show ?case
  proof (cases "n < 10")
    case True
    then show ?thesis
      by (subst nat_to_dec.simps) (simp add: dec_to_nat_def of_char_digit_char)
  next
    case False
    with "1" have "dec_to_nat (nat_to_dec (n div 10)) = n div 10" by blast
    with False show ?thesis
      by (subst nat_to_dec.simps) (simp add: dec_to_nat_snoc of_char_digit_char)
  qed
qed

lemma not_is_digit_sign [simp]: "\<not> is_digit CHR ''-''" "\<not> is_digit CHR ''+''"
  "\<not> is_digit CHR ''_''"
  by (simp_all add: is_digit_def)

lemma Atoi_Itoa [text_simps]:
  assumes "- (2 ^ 63) \<le> i" "i < 2 ^ 63"
  shows "Atoi (Itoa i) = Some i"
proof (cases "i < 0")
  case True
  with assms show ?thesis by (simp add: Atoi_def Itoa_def)
next
  case False
  obtain c cs where c: "nat_to_dec (nat i) = c # cs"
    by (cases "nat_to_dec (nat i)") simp_all
  have "is_digit c" using nat_to_dec_digits [of "nat i"] by (simp add: c)
  then have "c \<noteq> CHR ''-''" "c \<noteq> CHR ''+''" by auto
  moreover have "list_all is_digit (c # cs)" "dec_to_nat (c # cs) = nat i"
    using nat_to_dec_digits [of "nat i"] dec_to_nat_to_dec [of "nat i"] by (simp_all only: c)
  ultimately show ?thesis
    using False assms by (simp add: Atoi_def Itoa_def c)
qed

lemma Itoa_inj: "Itoa i = Itoa j \<longleftrightarrow> i = j"
proof
  assume eq: "Itoa i = Itoa j"
  have hd: "nat_to_dec n \<noteq> CHR ''-'' # s" for n s
    using nat_to_dec_digits [of n] by (metis list.pred_inject(2) not_is_digit_sign(1))
  have "nat_to_dec m = nat_to_dec n \<longleftrightarrow> m = n" for m n
    by (metis dec_to_nat_to_dec)
  with eq hd hd [symmetric] show "i = j"
    by (auto simp: Itoa_def split: if_splits)
qed simp

lemma set_Itoa: "set (Itoa i) \<subseteq> insert CHR ''-'' {c. is_digit c}"
  using nat_to_dec_digits [of "nat i"] nat_to_dec_digits [of "nat (- i)"]
  by (auto simp: Itoa_def list_all_iff)

section \<open>Joining and splitting\<close>

fun strings_Join :: "string list \<Rightarrow> string \<Rightarrow> string" where
  "strings_Join [] sep = []"
| "strings_Join [x] sep = x"
| "strings_Join (x # y # ys) sep = x @ sep @ strings_Join (y # ys) sep"

fun strings_Split :: "string \<Rightarrow> char \<Rightarrow> string list" where
  "strings_Split [] sep = [[]]"
| "strings_Split (c # cs) sep =
     (if c = sep then [] # strings_Split cs sep
      else (case strings_Split cs sep of [] \<Rightarrow> [[c]] | w # ws \<Rightarrow> (c # w) # ws))"

lemma strings_Split_nonempty [simp]: "strings_Split s sep \<noteq> []"
  by (cases s) (auto split: list.splits)

lemma strings_Split_append:
  "sep \<notin> set x \<Longrightarrow> strings_Split (x @ sep # ys) sep = x # strings_Split ys sep"
  by (induction x) auto

lemma strings_Split_no_sep: "sep \<notin> set x \<Longrightarrow> strings_Split x sep = [x]"
  by (induction x) auto

lemma strings_Split_Join [text_simps]:
  "xs \<noteq> [] \<Longrightarrow> (\<And>x. x \<in> set xs \<Longrightarrow> sep \<notin> set x) \<Longrightarrow>
     strings_Split (strings_Join xs [sep]) sep = xs"
proof (induction xs rule: induct_list012)
  case (3 x y ys)
  then show ?case by (simp add: strings_Split_append)
qed (simp_all add: strings_Split_no_sep)

definition char_upper :: "char \<Rightarrow> char" where
  "char_upper c =
     (let n = of_char c :: nat in if 97 \<le> n \<and> n \<le> 122 then char_of (n - 32) else c)"

definition strings_ToUpper :: "string \<Rightarrow> string" where
  "strings_ToUpper = map char_upper"

definition strings_HasSuffix :: "string \<Rightarrow> string \<Rightarrow> bool" where
  "strings_HasSuffix s suf \<longleftrightarrow> length suf \<le> length s \<and> drop (length s - length suf) s = suf"

lemma strings_ToUpper_append [simp]: "strings_ToUpper (x @ y) = strings_ToUpper x @ strings_ToUpper y"
  by (simp add: strings_ToUpper_def)

lemma length_strings_ToUpper [simp]: "length (strings_ToUpper s) = length s"
  by (simp add: strings_ToUpper_def)

lemma strings_HasSuffix_append [simp]: "strings_HasSuffix (x @ suf) suf"
  by (simp add: strings_HasSuffix_def)

lemma char_upper_digit [simp]: "is_digit c \<Longrightarrow> char_upper c = c"
  by (simp add: is_digit_def char_upper_def)

lemma strings_ToUpper_digits: "list_all is_digit s \<Longrightarrow> strings_ToUpper s = s"
  by (induction s) (auto simp: strings_ToUpper_def)

end
