(* ===== verification/MassDB_Base.thy ===== *)
theory MassDB_Base
  imports Go_Text
begin

text \<open>
  What every part of the \<open>massdb.v1\<close> plot database shares: the errors of
  \<open>poc/engine/massdb/massdb.go\<close> and \<open>massdb.v1/errors.go\<close>, the file code, the two map types, the
  layout constants, and the functions of the mass-core packages \<open>pocutil\<close>, \<open>pocec\<close> and \<open>poc\<close> that
  the code calls. Those packages are not part of the repository: they are the fields of a record
  of parameters, and \<open>pocutil_ok\<close> states what the layout comments of \<open>hashmap.go\<close> say of them.
\<close>

section \<open>Errors\<close>

datatype db_error =
    ErrInvalidDBType | ErrInvalidDBArgs | ErrDBDoesNotExist | ErrDBAlreadyExists | ErrDBCorrupted
  | ErrUnimplementedDB | ErrUnsupportedBitLength
  | ErrDBWrongFileSize | ErrDBWrongFileCode | ErrDBWrongVersion | ErrDBWrongType
  | ErrDBWrongPubKeyHash | ErrDBWrongMapType
  | ErrAlreadyPlotting | ErrStopPlotting | ErrMemoryNotEnough
  | IO_EOF | OSError string | PubKeyError string | ProofError string
  | RemoveErrorA db_error | RemoveErrorB db_error | RemoveErrorAB db_error db_error
  | PanicDivideByZero | PanicNilPointer | PanicSliceBounds

section \<open>Code outside the repository\<close>

text \<open>
  \<open>pocutil.PoCValue\<close> is a 64-bit unsigned integer: the code converts it from and to \<open>uint64\<close>.
  Public keys stay abstract (\<open>'pk\<close>); hashes are byte lists.
\<close>

record default_proof =
  dp_X :: bytes
  dp_XPrime :: bytes
  dp_BL :: nat

record 'pk pocutil =
  RecordSize :: "nat \<Rightarrow> nat"
  FlipValue :: "u64 \<Rightarrow> nat \<Rightarrow> u64"
  PFun :: "u64 \<Rightarrow> nat \<Rightarrow> bytes \<Rightarrow> u64"
  FBFun :: "bytes \<Rightarrow> bytes \<Rightarrow> nat \<Rightarrow> bytes \<Rightarrow> u64"
  Bytes2PoCValue :: "bytes \<Rightarrow> nat \<Rightarrow> u64"
  CutHash :: "bytes \<Rightarrow> nat \<Rightarrow> u64"
  PubKeyHash :: "'pk \<Rightarrow> bytes"
  SerializeCompressed :: "'pk \<Rightarrow> bytes"
  ParsePubKey :: "bytes \<Rightarrow> db_error + 'pk"
  VerifyProof :: "default_proof \<Rightarrow> bytes \<Rightarrow> bytes \<Rightarrow> bool \<Rightarrow> db_error option"

text \<open>
  The documented behaviour the theorems rely on, for one bit length: a record has
  \<open>(BitLength + 7) / 8\<close> bytes, \<open>FlipValue\<close> flips the \<open>BitLength\<close> low bits, and \<open>P\<close> yields
  \<open>BitLength\<close>-bit values. The bit length is one for which a volume and an offset fit a machine
  word with room to spare (the program uses 24 to 40).
\<close>

definition pocutil_ok :: "'pk pocutil \<Rightarrow> nat \<Rightarrow> bool" where
  "pocutil_ok U bl \<longleftrightarrow>
     1 \<le> bl \<and> bl \<le> 48 \<and>
     RecordSize U bl = (bl + 7) div 8 \<and>
     (\<forall>v. unat v < 2 ^ bl \<longrightarrow> unat (FlipValue U v bl) = 2 ^ bl - 1 - unat v) \<and>
     (\<forall>x h. unat (PFun U x bl h) < 2 ^ bl)"

text \<open>
  What the code relies on of public keys: a compressed key has 33 bytes and parses back, and its
  hash has 32 bytes.
\<close>

definition pubkey_ok :: "'pk pocutil \<Rightarrow> bool" where
  "pubkey_ok U \<longleftrightarrow>
     (\<forall>k. length (SerializeCompressed U k) = 33 \<and> length (PubKeyHash U k) = 32 \<and>
          ParsePubKey U (SerializeCompressed U k) = Inr k)"

lemma RecordSize_bounds:
  assumes "pocutil_ok U bl"
  shows "1 \<le> RecordSize U bl" "RecordSize U bl \<le> 6" "bl \<le> 8 * RecordSize U bl"
  using assms by (auto simp: pocutil_ok_def)

lemma two_pow_bl_bound: "pocutil_ok U bl \<Longrightarrow> (2::nat) ^ bl \<le> 2 ^ 48"
  by (rule power_increasing) (auto simp: pocutil_ok_def)

lemma value_fits_record:
  fixes x :: nat
  assumes "pocutil_ok U bl" "x < 2 ^ bl"
  shows "x < 256 ^ RecordSize U bl"
proof -
  have "(2::nat) ^ bl \<le> 2 ^ (8 * RecordSize U bl)"
    using RecordSize_bounds(3) [OF assms(1)] by (rule power_increasing) simp
  then show ?thesis using assms(2) by (simp add: power_mult)
qed

section \<open>Constants\<close>

definition DBFileCodeStr :: string where
  "DBFileCodeStr = ''52A7AD74C4929DEC7B5C8D46CC3BAFA81FC96129283B3A6923CD12F41A30B3AC''"

definition DBFileCode :: bytes where
  "DBFileCode = (case hex_DecodeString DBFileCodeStr of Inr bs \<Rightarrow> bs | Inl _ \<Rightarrow> [])"

lemma length_DBFileCode [simp]: "length DBFileCode = 32"
  by code_simp

text \<open>
  \<open>MapTypeHashMapA\<close> is declared with \<open>iota\<close> on the second line of its constant block, after the
  string constant \<open>TypeMassDBV1\<close>, so the two map types are 1 and 2.
\<close>

type_synonym map_type = byte

definition TypeMassDBV1 :: string where "TypeMassDBV1 = ''massdb.v1''"
definition MapTypeHashMapA :: map_type where "MapTypeHashMapA = 1"
definition MapTypeHashMapB :: map_type where "MapTypeHashMapB = 2"

definition dbVersion :: u64 where "dbVersion = 1"
definition PosFileCode :: nat where "PosFileCode = 0"
definition PosVersion :: nat where "PosVersion = 32"
definition PosBitLength :: nat where "PosBitLength = 40"
definition PosType :: nat where "PosType = 41"
definition PosCheckpoint :: nat where "PosCheckpoint = 42"
definition PosPubKeyHash :: nat where "PosPubKeyHash = 50"
definition PosPubKey :: nat where "PosPubKey = 82"
definition PosAlignHolder :: nat where "PosAlignHolder = 115"
definition PosProofData :: nat where "PosProofData = 4096"
definition LenCheckpoint :: nat where "LenCheckpoint = 8"
definition LenMetaInfo :: nat where "LenMetaInfo = 4096"

lemmas pos_defs = PosFileCode_def PosVersion_def PosBitLength_def PosType_def PosCheckpoint_def
  PosPubKeyHash_def PosPubKey_def LenCheckpoint_def LenMetaInfo_def

text \<open>
  The memory constants of \<open>plot.go\<close> and \<open>cache.go\<close>, in bytes: 4 GiB, 256 MiB and 64 MiB.
\<close>

definition maxPrePlotMem :: u64 where "maxPrePlotMem = 4294967296"
definition maxPlotMem :: u64 where "maxPlotMem = 4294967296"
definition minPrePlotMem :: u64 where "minPrePlotMem = 268435456"
definition minPlotMem :: u64 where "minPlotMem = 268435456"
definition minMapABufMem :: nat where "minMapABufMem = 67108864"
definition waitQuitPlotInterval :: nat where "waitQuitPlotInterval = 1048576"
definition memCacheWriteBlockSize :: nat where "memCacheWriteBlockSize = 268435456"

end
