(* ===== verification/Engine.thy ===== *)
theory Engine
  imports MassDB_Base
begin

text \<open>
  \<open>poc/engine/engine.go\<close>: the states and state flags of a work space, the actions on it, the proofs
  that travel from the space keeper to the miner, and \<open>ProofRW\<close>, the buffered pipe they travel
  through.
\<close>

unbundle bit_operations_syntax

section \<open>States and flags\<close>

type_synonym WorkSpaceState = u32
type_synonym WorkSpaceStateFlags = u32

definition Registered :: WorkSpaceState where "Registered = 0"
definition Plotting :: WorkSpaceState where "Plotting = 1"
definition Ready :: WorkSpaceState where "Ready = 2"
definition Mining :: WorkSpaceState where "Mining = 3"
definition FirstState :: WorkSpaceState where "FirstState = Registered"
definition LastState :: WorkSpaceState where "LastState = Mining"

lemmas state_defs = Registered_def Plotting_def Ready_def Mining_def FirstState_def LastState_def

definition SFRegistered :: WorkSpaceStateFlags where "SFRegistered = push_bit 0 1"
definition SFPlotting :: WorkSpaceStateFlags where "SFPlotting = push_bit 1 1"
definition SFReady :: WorkSpaceStateFlags where "SFReady = push_bit 2 1"
definition SFMining :: WorkSpaceStateFlags where "SFMining = push_bit 3 1"
definition SFAll :: WorkSpaceStateFlags where
  "SFAll = SFRegistered OR SFPlotting OR SFReady OR SFMining"

lemmas flag_defs = SFRegistered_def SFPlotting_def SFReady_def SFMining_def SFAll_def

definition State_IsValid :: "WorkSpaceState \<Rightarrow> bool" where
  "State_IsValid s \<longleftrightarrow> s \<ge> FirstState \<and> s \<le> LastState"

definition State_Flag :: "WorkSpaceState \<Rightarrow> WorkSpaceStateFlags" where
  "State_Flag s = push_bit (unat s) 1"

definition wsStateString :: "(WorkSpaceState \<times> string) list" where
  "wsStateString =
     [(Registered, ''registered''), (Plotting, ''plotting''), (Ready, ''ready''), (Mining, ''mining'')]"

definition wsStateFlagsString :: "(WorkSpaceStateFlags \<times> string) list" where
  "wsStateFlagsString =
     [(SFRegistered, ''SFRegistered''), (SFPlotting, ''SFPlotting''), (SFReady, ''SFReady''),
      (SFMining, ''SFMining'')]"

definition State_String :: "WorkSpaceState \<Rightarrow> string" where
  "State_String s =
     (case map_of wsStateString s of Some str \<Rightarrow> str
      | None \<Rightarrow> ''invalid('' @ Itoa (int (unat s)) @ '')'')"

definition Flags_IsNone :: "WorkSpaceStateFlags \<Rightarrow> bool" where
  "Flags_IsNone f \<longleftrightarrow> f AND SFAll = 0"

definition Flags_Contains :: "WorkSpaceStateFlags \<Rightarrow> WorkSpaceStateFlags \<Rightarrow> bool" where
  "Flags_Contains f flag \<longleftrightarrow> (f AND flag) = flag"

definition Flags_States :: "WorkSpaceStateFlags \<Rightarrow> WorkSpaceState list" where
  "Flags_States f =
     filter (\<lambda>s. Flags_Contains f (State_Flag s)) (map word_of_nat [unat FirstState..<unat LastState + 1])"

definition Flags_String :: "WorkSpaceStateFlags \<Rightarrow> string" where
  "Flags_String f =
     (if Flags_IsNone f then ''SFNone''
      else strings_Join (map (\<lambda>s. case map_of wsStateFlagsString (State_Flag s) of Some str \<Rightarrow> str | None \<Rightarrow> [])
             (Flags_States f)) ''|'')"

lemma all_states: "map word_of_nat [unat FirstState..<unat LastState + 1] = [Registered, Plotting, Ready, Mining]"
  by (simp add: state_defs upt_rec)

lemma word_eq_unat: "s = t \<longleftrightarrow> unat s = unat t" for s t :: "'a::len word"
  by (auto intro: unsigned_word_eqI)

lemma State_IsValid_iff: "State_IsValid s \<longleftrightarrow> s \<in> {Registered, Plotting, Ready, Mining}"
  by (auto simp: State_IsValid_def state_defs word_le_nat_alt word_eq_unat [of s])

lemma State_Flag_simps [simp]:
  "State_Flag Registered = 1" "State_Flag Plotting = 2" "State_Flag Ready = 4" "State_Flag Mining = 8"
  by (simp_all add: State_Flag_def state_defs)

lemma SFAll_eq: "SFAll = 15"
  by (simp add: flag_defs)

lemma and_push_bit_1:
  fixes f :: u32
  assumes "k < 32"
  shows "f AND push_bit k 1 = push_bit k 1 \<longleftrightarrow> bit f k"
proof
  assume "f AND push_bit k 1 = push_bit k 1"
  then have "bit (f AND push_bit k 1) k \<longleftrightarrow> bit (push_bit k 1 :: u32) k" by simp
  then show "bit f k" using assms by (simp add: bit_simps)
qed (auto intro!: bit_word_eqI simp: bit_simps)

lemma Contains_State_Flag: "State_IsValid s \<Longrightarrow> Flags_Contains f (State_Flag s) \<longleftrightarrow> bit f (unat s)"
  unfolding Flags_Contains_def State_Flag_def
  by (rule and_push_bit_1) (auto simp: State_IsValid_iff state_defs)

lemma set_Flags_States: "s \<in> set (Flags_States f) \<longleftrightarrow> State_IsValid s \<and> bit f (unat s)"
proof -
  have "s \<in> set (Flags_States f) \<longleftrightarrow> State_IsValid s \<and> Flags_Contains f (State_Flag s)"
    unfolding Flags_States_def all_states State_IsValid_iff by auto
  then show ?thesis using Contains_State_Flag by auto
qed

lemma Contains_SFAll: "Flags_Contains f SFAll \<longleftrightarrow> (\<forall>s. State_IsValid s \<longrightarrow> bit f (unat s))"
proof -
  have m: "SFAll = mask 4" by (simp add: SFAll_eq mask_eq_exp_minus_1)
  have "Flags_Contains f SFAll \<longleftrightarrow> (\<forall>n < 4. bit f n)"
  proof
    assume "Flags_Contains f SFAll"
    then have "f AND mask 4 = mask 4" by (simp only: Flags_Contains_def m)
    moreover have "bit (mask 4 :: u32) n" if "n < 4" for n using that by (simp add: bit_mask_iff)
    ultimately show "\<forall>n < 4. bit f n" by (metis bit_and_iff)
  next
    assume a: "\<forall>n < 4. bit f n"
    have "f AND mask 4 = mask 4" by (rule bit_word_eqI) (use a in \<open>auto simp: bit_and_iff bit_mask_iff\<close>)
    then show "Flags_Contains f SFAll" by (simp only: Flags_Contains_def m)
  qed
  also have "\<dots> \<longleftrightarrow> bit f 0 \<and> bit f 1 \<and> bit f 2 \<and> bit f 3"
  proof -
    have "n < 4 \<longleftrightarrow> n = 0 \<or> n = 1 \<or> n = 2 \<or> n = 3" for n :: nat by arith
    then show ?thesis by auto
  qed
  also have "\<dots> \<longleftrightarrow> (\<forall>s. State_IsValid s \<longrightarrow> bit f (unat s))"
    unfolding State_IsValid_iff by (auto simp: state_defs)
  finally show ?thesis .
qed

lemma States_SFAll: "Flags_Contains f SFAll \<Longrightarrow> Flags_States f = [Registered, Plotting, Ready, Mining]"
  unfolding Flags_States_def all_states using Contains_SFAll Contains_State_Flag State_IsValid_iff
  by (intro filter_True) auto

section \<open>Actions\<close>

type_synonym ActionType = byte

definition Plot :: ActionType where "Plot = 0"
definition Mine :: ActionType where "Mine = 1"
definition Stop :: ActionType where "Stop = 2"
definition Remove :: ActionType where "Remove = 3"
definition Delete :: ActionType where "Delete = 4"
definition FirstAction :: ActionType where "FirstAction = Plot"
definition LastAction :: ActionType where "LastAction = Delete"

lemmas action_defs = Plot_def Mine_def Stop_def Remove_def Delete_def FirstAction_def LastAction_def

definition actionTypeString :: "(ActionType \<times> string) list" where
  "actionTypeString =
     [(Plot, ''plot''), (Mine, ''mine''), (Stop, ''stop''), (Remove, ''remove''), (Delete, ''delete'')]"

definition Action_IsValid :: "ActionType \<Rightarrow> bool" where
  "Action_IsValid act \<longleftrightarrow> act \<ge> FirstAction \<and> act \<le> LastAction"

definition Action_String :: "ActionType \<Rightarrow> string" where
  "Action_String act =
     (case map_of actionTypeString act of Some str \<Rightarrow> str
      | None \<Rightarrow> ''invalid('' @ Itoa (int (unat act)) @ '')'')"

lemma Action_IsValid_iff: "Action_IsValid act \<longleftrightarrow> act \<in> {Plot, Mine, Stop, Remove, Delete}"
  by (auto simp: Action_IsValid_def action_defs word_le_nat_alt word_eq_unat [of act])

definition UnknownOrdinal :: int where "UnknownOrdinal = -1"

section \<open>Proofs and their pipe\<close>

record 'pk workspace_proof =
  wsp_SpaceID :: string
  wsp_Proof :: "default_proof option"
  wsp_PublicKey :: 'pk
  wsp_Ordinal :: int
  wsp_Error :: "db_error option"

record 'pk workspace_info =
  wsi_SpaceID :: string
  wsi_PublicKey :: 'pk
  wsi_Ordinal :: int
  wsi_BitLength :: nat
  wsi_Progress :: "u64 \<times> u64"
  wsi_State :: WorkSpaceState

definition PlotPublicKey :: "'pk pocutil \<Rightarrow> 'pk workspace_proof \<Rightarrow> bytes" where
  "PlotPublicKey U p = SerializeCompressed U (wsp_PublicKey p)"

definition ProofBitLength :: "'pk workspace_proof \<Rightarrow> db_error + nat" where
  "ProofBitLength p = (case wsp_Proof p of Some prf \<Rightarrow> Inr (dp_BL prf) | None \<Rightarrow> Inl PanicNilPointer)"

definition ChiaPoolPublicKey :: "'pk workspace_proof \<Rightarrow> bytes option" where
  "ChiaPoolPublicKey p = None"

definition ChiaPlotID :: "'pk workspace_proof \<Rightarrow> bytes" where
  "ChiaPlotID p = replicate 32 0"

text \<open>
  \<open>ProofRW\<close>: a channel of a fixed capacity and the closed flag its mutex protects. A write into a
  full channel and a read from an empty open channel block; a blocked call is \<open>None\<close>.
\<close>

datatype rw_error = ErrProofIOTimeout | RW_EOF

record 'a proof_rw =
  prw_cap :: nat
  prw_ch :: "'a list"
  prw_closed :: bool

definition NewProofRW :: "nat \<Rightarrow> 'a proof_rw" where
  "NewProofRW bufSize = \<lparr>prw_cap = bufSize, prw_ch = [], prw_closed = False\<rparr>"

definition ProofRW_Read :: "'a proof_rw \<Rightarrow> ('a proof_rw \<times> (rw_error + 'a)) option" where
  "ProofRW_Read prw =
     (case prw_ch prw of
        wsp # rest \<Rightarrow> Some (prw\<lparr>prw_ch := rest\<rparr>, Inr wsp)
      | [] \<Rightarrow> if prw_closed prw then Some (prw, Inl RW_EOF) else None)"

definition ProofRW_Write :: "'a proof_rw \<Rightarrow> 'a \<Rightarrow> ('a proof_rw \<times> rw_error option) option" where
  "ProofRW_Write prw wsp =
     (if prw_closed prw then Some (prw, Some ErrProofIOTimeout)
      else if length (prw_ch prw) < prw_cap prw then Some (prw\<lparr>prw_ch := prw_ch prw @ [wsp]\<rparr>, None)
      else None)"

definition ProofRW_Close :: "'a proof_rw \<Rightarrow> 'a proof_rw" where
  "ProofRW_Close prw = (if prw_closed prw then prw else prw\<lparr>prw_closed := True\<rparr>)"

text \<open>Writing a list of proofs until one fails, as \<open>GetProofsReader\<close> does.\<close>

fun write_proofs :: "'a proof_rw \<Rightarrow> 'a list \<Rightarrow> ('a proof_rw \<times> rw_error option) option" where
  "write_proofs prw [] = Some (prw, None)"
| "write_proofs prw (p # ps) =
     (case ProofRW_Write prw p of None \<Rightarrow> None
      | Some (prw', Some e) \<Rightarrow> Some (prw', Some e)
      | Some (prw', None) \<Rightarrow> write_proofs prw' ps)"

fun read_proofs :: "'a proof_rw \<Rightarrow> nat \<Rightarrow> 'a list option" where
  "read_proofs prw 0 = (case ProofRW_Read prw of Some (_, Inl RW_EOF) \<Rightarrow> Some [] | _ \<Rightarrow> None)"
| "read_proofs prw (Suc n) =
     (case ProofRW_Read prw of Some (prw', Inr p) \<Rightarrow> map_option ((#) p) (read_proofs prw' n) | _ \<Rightarrow> None)"

lemma write_proofs_fits:
  assumes "\<not> prw_closed prw" "length (prw_ch prw) + length ps \<le> prw_cap prw"
  shows "write_proofs prw ps = Some (prw\<lparr>prw_ch := prw_ch prw @ ps\<rparr>, None)"
  using assms by (induction ps arbitrary: prw) (simp_all add: ProofRW_Write_def)

lemma read_proofs_all:
  "prw_closed prw \<Longrightarrow> read_proofs prw (length (prw_ch prw)) = Some (prw_ch prw)"
proof (induction "prw_ch prw" arbitrary: prw)
  case Nil
  then show ?case by (simp add: ProofRW_Read_def)
next
  case (Cons p ps)
  have "read_proofs (prw\<lparr>prw_ch := ps\<rparr>) (length ps) = Some ps"
    using Cons.hyps(1) [of "prw\<lparr>prw_ch := ps\<rparr>"] Cons.prems by simp
  with Cons.hyps(2) show ?case by (auto simp: ProofRW_Read_def simp flip: Cons.hyps(2))
qed

lemma write_read_proofs:
  assumes "length ps \<le> n"
  shows "\<exists>prw. write_proofs (NewProofRW n) ps = Some (prw, None) \<and>
    read_proofs (ProofRW_Close prw) (length ps) = Some ps"
proof -
  let ?prw = "(NewProofRW n)\<lparr>prw_ch := ps\<rparr>"
  have "write_proofs (NewProofRW n) ps = Some (?prw, None)"
    using assms write_proofs_fits [of "NewProofRW n" ps] by (simp add: NewProofRW_def)
  moreover have "read_proofs (ProofRW_Close ?prw) (length ps) = Some ps"
    using read_proofs_all [of "ProofRW_Close ?prw"] by (simp add: ProofRW_Close_def NewProofRW_def)
  ultimately show ?thesis by blast
qed

lemma ProofRW_Close_idem: "ProofRW_Close (ProofRW_Close prw) = ProofRW_Close prw"
  by (simp add: ProofRW_Close_def)

end
