(* ===== verification/Mem_Cache.thy ===== *)
theory Mem_Cache
  imports MassDB_Base
begin

text \<open>
  \<open>poc/engine/massdb/massdb.v1/cache.go\<close>: the in-memory window of a plotting pass. Offsets are
  natural numbers, as every caller computes them from non-negative values. The writer of
  \<open>WriteToWriter\<close> is the contents of a file; \<open>quit\<close> says whether the quit channel is closed when
  the loop polls it at a given count (a nil channel is \<open>\<lambda>_. False\<close>), \<open>fault\<close> whether the block
  write at that count fails, after how many bytes and with what error.
\<close>

record memcache =
  mc_size :: nat
  mc_data :: bytes

definition NewMemCache :: "int \<Rightarrow> memcache" where
  "NewMemCache n =
     (if n > 0 then \<lparr>mc_size = nat n, mc_data = replicate (nat n) 0\<rparr>
      else \<lparr>mc_size = 0, mc_data = []\<rparr>)"

definition MemCache_Len :: "memcache \<Rightarrow> nat" where
  "MemCache_Len cache = mc_size cache"

definition MemCache_Update :: "memcache \<Rightarrow> u64 \<Rightarrow> memcache" where
  "MemCache_Update cache n =
     cache\<lparr>mc_size := unat n, mc_data := replicate (unat n) 0\<rparr>"

definition MemCache_Release :: "memcache \<Rightarrow> memcache" where
  "MemCache_Release cache = cache\<lparr>mc_size := 0, mc_data := []\<rparr>"

definition MemCache_WriteAt :: "memcache \<Rightarrow> bytes \<Rightarrow> nat \<Rightarrow> memcache \<times> nat \<times> db_error option" where
  "MemCache_WriteAt cache buf offset =
     (let err = (if offset + length buf > mc_size cache then Some IO_EOF else None) in
      if offset \<ge> mc_size cache then (cache, 0, err)
      else (cache\<lparr>mc_data := copy_at (mc_data cache) offset buf\<rparr>,
            min (length buf) (length (mc_data cache) - offset), err))"

definition MemCache_ReadAt :: "memcache \<Rightarrow> bytes \<Rightarrow> nat \<Rightarrow> bytes \<times> nat \<times> db_error option" where
  "MemCache_ReadAt cache buf offset =
     (let err = (if offset + length buf > mc_size cache then Some IO_EOF else None) in
      if offset \<ge> mc_size cache then (buf, 0, err)
      else (copy_at buf 0 (drop offset (mc_data cache)),
            min (length buf) (length (mc_data cache) - offset), err))"

function WriteToWriter_loop ::
  "(nat \<Rightarrow> bool) \<Rightarrow> (nat \<Rightarrow> (nat \<times> db_error) option) \<Rightarrow> bytes \<Rightarrow> nat \<Rightarrow> nat \<Rightarrow> nat \<Rightarrow> nat \<Rightarrow> bytes
     \<Rightarrow> bytes \<times> nat \<times> db_error option" where
  "WriteToWriter_loop quit fault dat srcStart dstStart len count w =
     (if count < len then
        if quit count then (w, count, Some ErrStopPlotting)
        else
          let remain = len - count;
              bufSize = (if remain > memCacheWriteBlockSize then memCacheWriteBlockSize else remain);
              block = read_at dat (srcStart + count) bufSize in
          case fault count of
            Some (n, e) \<Rightarrow>
              (write_at w (dstStart + count) (take n block), count + min n bufSize, Some e)
          | None \<Rightarrow>
              WriteToWriter_loop quit fault dat srcStart dstStart len (count + bufSize)
                (write_at w (dstStart + count) block)
      else (w, count, None))"
  by pat_completeness auto
termination
  by (relation "measure (\<lambda>(_, _, _, _, _, len, count, _). len - count)")
     (auto simp: memCacheWriteBlockSize_def)

declare WriteToWriter_loop.simps [simp del]

definition WriteToWriter ::
  "(nat \<Rightarrow> bool) \<Rightarrow> (nat \<Rightarrow> (nat \<times> db_error) option) \<Rightarrow> memcache \<Rightarrow> bytes \<Rightarrow> nat \<Rightarrow> nat \<Rightarrow> nat
     \<Rightarrow> bytes \<times> nat \<times> db_error option" where
  "WriteToWriter quit fault cache w srcStart dstStart len =
     (if srcStart + len > mc_size cache \<or> srcStart \<ge> mc_size cache then (w, 0, Some IO_EOF)
      else WriteToWriter_loop quit fault (mc_data cache) srcStart dstStart len 0 w)"

text \<open>
  \<open>ReadFromReader\<close> reads file contents into the cache. Go panics when the slice bounds exceed
  the cache, which the missing return after the first check lets happen: \<open>None\<close> is that panic.
\<close>

definition ReadFromReader ::
  "memcache \<Rightarrow> bytes \<Rightarrow> nat \<Rightarrow> nat \<Rightarrow> nat \<Rightarrow> (memcache \<times> nat \<times> db_error option) option" where
  "ReadFromReader cache r srcStart dstStart len =
     (if dstStart \<ge> mc_size cache then
        Some (cache, 0, if dstStart + len > mc_size cache then Some IO_EOF else None)
      else if dstStart + len > length (mc_data cache) then None
      else
        let got = read_at r srcStart len in
        Some (cache\<lparr>mc_data := copy_at (mc_data cache) dstStart got\<rparr>, length got,
              if length got < len then Some IO_EOF else None))"

section \<open>Invariant\<close>

definition cache_wf :: "memcache \<Rightarrow> bool" where
  "cache_wf cache \<longleftrightarrow> mc_size cache = length (mc_data cache)"

lemma cache_wf_New [simp]: "cache_wf (NewMemCache n)"
  by (simp add: cache_wf_def NewMemCache_def)

lemma cache_wf_Update [simp]: "cache_wf (MemCache_Update c n)"
  by (simp add: cache_wf_def MemCache_Update_def)

lemma cache_wf_Release [simp]: "cache_wf (MemCache_Release c)"
  by (simp add: cache_wf_def MemCache_Release_def)

lemma cache_wf_WriteAt: "cache_wf c \<Longrightarrow> cache_wf (fst (MemCache_WriteAt c buf off))"
  by (simp add: cache_wf_def MemCache_WriteAt_def Let_def)

lemma mc_size_WriteAt [simp]: "mc_size (fst (MemCache_WriteAt c buf off)) = mc_size c"
  by (simp add: MemCache_WriteAt_def Let_def)

lemma WriteAt_inside:
  assumes "cache_wf c" "off + length buf \<le> mc_size c"
  shows "mc_data (fst (MemCache_WriteAt c buf off)) = write_at (mc_data c) off buf"
proof (cases "buf = []")
  case True
  then show ?thesis by (simp add: MemCache_WriteAt_def Let_def write_at_def copy_at_def)
next
  case False
  then have "off < mc_size c" using assms(2) by (cases buf) auto
  with assms show ?thesis
    by (simp add: MemCache_WriteAt_def Let_def cache_wf_def copy_at_eq_write_at)
qed

text \<open>What is written inside the cache is read back, and the byte counts are full.\<close>

lemma ReadAt_WriteAt:
  assumes "cache_wf c" "off + length buf \<le> mc_size c" "buf \<noteq> []" "length tmp = length buf"
  shows "MemCache_ReadAt (fst (MemCache_WriteAt c buf off)) tmp off = (buf, length buf, None)"
proof -
  let ?d = "write_at (mc_data c) off buf"
  have len: "length ?d = mc_size c" using assms by (simp add: cache_wf_def)
  have "take (length buf) (drop off ?d) = buf"
    using read_at_write_same [of "mc_data c" off buf] by (simp add: read_at_def)
  moreover have "off < mc_size c" using assms by (cases buf) auto
  ultimately show ?thesis
    using assms len WriteAt_inside [OF assms(1,2)]
    by (simp add: MemCache_ReadAt_def copy_at_def)
qed

section \<open>Flushing a window to a file\<close>

text \<open>
  Whatever happens (a quit signal, a failing block), the file has received a prefix of the window
  at the right place and nothing else; without an error it has received all of it; and with no
  quit signal and no failing block there is no error.
\<close>

definition flushed :: "bytes \<Rightarrow> nat \<Rightarrow> bytes \<Rightarrow> bytes \<times> nat \<times> db_error option \<Rightarrow> bool" where
  "flushed w0 dst d r \<longleftrightarrow>
     (\<exists>k. fst r = write_at w0 dst (take k d) \<and>
          (snd (snd r) = None \<longrightarrow> k = length d \<and> fst (snd r) = length d))"

lemma flushed_stopped: "flushed w0 dst d (write_at w0 dst (take k d), n, Some e)"
  by (auto simp: flushed_def)

lemma flushed_done: "flushed w0 dst d (write_at w0 dst d, length d, None)"
  by (auto simp: flushed_def intro!: exI [of _ "length d"])

lemma flush_block:
  assumes "w = write_at w0 dst (take count d)" "d = read_at dat src len" "src + len \<le> length dat"
    "count + n \<le> len"
  shows "write_at w (dst + count) (take m (read_at dat (src + count) n)) =
         write_at w0 dst (take (count + min m n) d)"
proof -
  have "take m (read_at dat (src + count) n) = take (min m n) (drop count d)"
    using assms by (simp add: read_at_def drop_take min_def add.commute)
  moreover have "take (count + min m n) d = take count d @ take (min m n) (drop count d)"
    by (rule take_add)
  moreover have "length (take count d) = count" using assms by auto
  ultimately show ?thesis
    using write_at_write_at_adjacent [of w0 dst "take count d" "take (min m n) (drop count d)"]
    by (simp add: assms(1))
qed

lemma WriteToWriter_loop_flushed:
  assumes "w = write_at w0 dst (take count d)" "d = read_at dat src len" "src + len \<le> length dat"
    "count \<le> len"
  shows "flushed w0 dst d (WriteToWriter_loop quit fault dat src dst len count w) \<and>
         ((\<forall>c. \<not> quit c) \<and> (\<forall>c. fault c = None) \<longrightarrow>
           snd (snd (WriteToWriter_loop quit fault dat src dst len count w)) = None)"
  using assms
proof (induction quit fault dat src dst len count w rule: WriteToWriter_loop.induct)
  case (1 quit fault dat src dst len count w)
  let ?n = "if len - count > memCacheWriteBlockSize then memCacheWriteBlockSize else len - count"
  let ?next = "WriteToWriter_loop quit fault dat src dst len (count + ?n)
                 (write_at w (dst + count) (read_at dat (src + count) ?n))"
  have n: "count + ?n \<le> len" using "1.prems"(4) by auto
  have ld: "length d = len" using "1.prems"(2,3) by auto
  note block = flush_block [OF "1.prems"(1-3) n]
  show ?case
  proof (cases "count < len \<and> \<not> quit count")
    case False
    then show ?thesis
      using "1.prems" flushed_stopped [of w0 dst d count] flushed_done [of w0 dst d, unfolded ld] ld
      by (subst (1 2) WriteToWriter_loop.simps) (auto simp del: length_read_at)
  next
    case True
    note unfold = WriteToWriter_loop.simps [of quit fault dat src dst len count w]
    show ?thesis
    proof (cases "fault count")
      case (Some p)
      then obtain m e where p: "fault count = Some (m, e)" by (cases p) auto
      then show ?thesis
        using True block [of m] by (auto simp: unfold Let_def flushed_stopped)
    next
      case None
      then have eq: "WriteToWriter_loop quit fault dat src dst len count w = ?next"
        using True by (simp add: unfold Let_def)
      have "write_at w (dst + count) (read_at dat (src + count) ?n) =
            write_at w0 dst (take (count + ?n) d)"
        using block [of ?n] by (simp add: read_at_def)
      with True show ?thesis
        unfolding eq
        by (intro "1.IH" [OF _ _ refl refl refl None _ "1.prems"(2,3) n]) simp_all
    qed
  qed
qed

lemma WriteToWriter_flushed:
  assumes "cache_wf cache" "len = mc_size cache"
  shows "flushed w dst (mc_data cache) (WriteToWriter quit fault cache w 0 dst len) \<or>
         len = 0 \<and> WriteToWriter quit fault cache w 0 dst len = (w, 0, Some IO_EOF)"
proof (cases "len = 0")
  case False
  have d: "mc_data cache = read_at (mc_data cache) 0 len"
    using assms by (simp add: read_at_def cache_wf_def)
  have "w = write_at w dst (take 0 (mc_data cache))" by (simp add: write_at_def)
  from WriteToWriter_loop_flushed [OF this d, where quit = quit and fault = fault] False assms
  show ?thesis by (simp add: WriteToWriter_def cache_wf_def)
qed (use assms in \<open>simp add: WriteToWriter_def\<close>)

lemma WriteToWriter_complete:
  assumes "cache_wf cache" "len = mc_size cache" "0 < len" "\<And>c. \<not> quit c" "\<And>c. fault c = None"
  shows "WriteToWriter quit fault cache w 0 dst len = (write_at w dst (mc_data cache), len, None)"
proof -
  have d: "mc_data cache = read_at (mc_data cache) 0 len"
    using assms by (simp add: read_at_def cache_wf_def)
  have "w = write_at w dst (take 0 (mc_data cache))" by (simp add: write_at_def)
  from WriteToWriter_loop_flushed [OF this d, where quit = quit and fault = fault] assms
  show ?thesis
    by (cases "WriteToWriter_loop quit fault (mc_data cache) 0 dst len 0 w")
       (auto simp: WriteToWriter_def cache_wf_def flushed_def)
qed

end
