(* ===== verification/Hash_Map.thy ===== *)
theory Hash_Map
  imports Mem_Cache
begin

text \<open>
  \<open>poc/engine/massdb/massdb.v1/hashmap.go\<close>: the two on-disk record tables of a plot. A file
  system is a map from paths to contents; an open file is represented by its contents
  (\<open>hm_data\<close>), since each file has one owner. Failures of the operating system are parameters
  (\<open>os_faults\<close>). Get and Set compute their target offsets in 64-bit arithmetic, as Go's \<open>int\<close> does.
\<close>

type_synonym fs = "fpath \<Rightarrow> bytes option"

record os_faults =
  stat_fails :: "fpath \<Rightarrow> bool"
  mkdir_fails :: "fpath \<Rightarrow> db_error option"
  open_fails :: "fpath \<Rightarrow> db_error option"
  write_fails :: "fpath \<Rightarrow> db_error option"
  remove_fails :: "fpath \<Rightarrow> db_error option"

definition no_faults :: os_faults where
  "no_faults = \<lparr>stat_fails = (\<lambda>_. False), mkdir_fails = (\<lambda>_. None), open_fails = (\<lambda>_. None),
                write_fails = (\<lambda>_. None), remove_fails = (\<lambda>_. None)\<rparr>"

definition os_Stat_ok :: "os_faults \<Rightarrow> fs \<Rightarrow> fpath \<Rightarrow> bool" where
  "os_Stat_ok F fs p \<longleftrightarrow> \<not> stat_fails F p \<and> fs p \<noteq> None"

section \<open>The tables\<close>

record 'pk hashmap =
  hm_data :: bytes
  hm_bl :: nat
  hm_volume :: u64
  hm_checkpoint :: u64
  hm_offset :: nat
  hm_step :: nat
  hm_recordSize :: nat
  hm_pk :: 'pk
  hm_pkHash :: bytes

record 'pk hashmapA = "'pk hashmap" +
  hmA_half :: u64

text \<open>\<open>LoadHashMap\<close> returns an \<open>interface{}\<close> holding one of the two.\<close>

datatype 'pk loaded_map = LoadedA "'pk hashmapA" | LoadedB "'pk hashmap"

section \<open>Creating and loading a file\<close>

definition map_file_header :: "'pk pocutil \<Rightarrow> map_type \<Rightarrow> nat \<Rightarrow> 'pk \<Rightarrow> bytes" where
  "map_file_header U typ bl pubKey =
     (let h0 = replicate LenMetaInfo 0;
          h1 = copy_at h0 PosFileCode DBFileCode;
          h2 = copy_at h1 PosVersion (le_PutUint64 dbVersion);
          h3 = copy_at h2 PosBitLength [word_of_nat bl];
          h4 = copy_at h3 PosType [typ];
          h5 = copy_at h4 PosCheckpoint (le_PutUint64 0);
          h6 = copy_at h5 PosPubKeyHash (PubKeyHash U pubKey)
      in copy_at h6 PosPubKey (SerializeCompressed U pubKey))"

text \<open>\<open>expandMapFile\<close> (\<open>util.go\<close>, \<open>util_windows.go\<close>) leaves the file as it is: the file grows as the plot writes it.\<close>

definition expandMapFile :: "bytes \<Rightarrow> map_type \<Rightarrow> nat \<Rightarrow> bytes \<times> db_error option" where
  "expandMapFile f mt bl = (f, None)"

declare expandMapFile_def [simp]

definition createMapFile ::
  "'pk pocutil \<Rightarrow> os_faults \<Rightarrow> fs \<Rightarrow> fpath \<Rightarrow> map_type \<Rightarrow> nat \<Rightarrow> 'pk \<Rightarrow> fs \<times> (db_error + bytes)" where
  "createMapFile U F fs p typ bl pubKey =
     (if os_Stat_ok F fs p then (fs, Inl ErrDBAlreadyExists)
      else case mkdir_fails F p of Some e \<Rightarrow> (fs, Inl e)
      | None \<Rightarrow> (case open_fails F p of Some e \<Rightarrow> (fs, Inl e)
        | None \<Rightarrow>
          (let old = (case fs p of None \<Rightarrow> [] | Some d \<Rightarrow> d) in
           case expandMapFile old typ bl of (_, Some e) \<Rightarrow> (fs(p := None), Inl e)
           | (f, None) \<Rightarrow>
             (case write_fails F p of Some e \<Rightarrow> (fs(p := None), Inl e)
              | None \<Rightarrow>
                (let d = write_at f 0 (map_file_header U typ bl pubKey)
                 in (fs(p := Some d), Inr d))))))"

definition openMapFile :: "os_faults \<Rightarrow> fs \<Rightarrow> fpath \<Rightarrow> db_error + bytes" where
  "openMapFile F fs p =
     (if \<not> os_Stat_ok F fs p then Inl ErrDBDoesNotExist
      else case open_fails F p of Some e \<Rightarrow> Inl e
      | None \<Rightarrow> (case fs p of Some d \<Rightarrow> Inr d | None \<Rightarrow> Inl ErrDBDoesNotExist))"

definition calcSize :: "'pk pocutil \<Rightarrow> map_type \<Rightarrow> nat \<Rightarrow> int" where
  "calcSize U typeName bl =
     (let recordSize = word_of_nat (RecordSize U bl) :: u64 in
      if typeName = MapTypeHashMapA
      then sint (word_of_nat LenMetaInfo + recordSize * push_bit bl 1)
      else if typeName = MapTypeHashMapB
      then sint (word_of_nat LenMetaInfo + 2 * recordSize * push_bit bl 1)
      else 0)"

definition calcProofDataOffset :: "map_type \<Rightarrow> nat \<times> nat \<times> db_error option" where
  "calcProofDataOffset typeName =
     (if typeName = MapTypeHashMapA then (LenMetaInfo, 1, None)
      else if typeName = MapTypeHashMapB then (LenMetaInfo, 2, None)
      else (0, 0, Some ErrDBWrongMapType))"

definition loadHashMap ::
  "'pk pocutil \<Rightarrow> os_faults \<Rightarrow> fs \<Rightarrow> fpath \<Rightarrow> db_error + 'pk hashmap \<times> map_type" where
  "loadHashMap U F fs p =
     (case openMapFile F fs p of Inl e \<Rightarrow> Inl e
      | Inr f \<Rightarrow>
        (let fileHeaderBytes = read_at f 0 LenMetaInfo in
         if length fileHeaderBytes < LenMetaInfo then Inl ErrDBWrongFileSize
         else if read_at fileHeaderBytes PosFileCode 32 \<noteq> DBFileCode then Inl ErrDBWrongFileCode
         else if le_Uint64 (read_at fileHeaderBytes PosVersion 8) \<noteq> dbVersion
         then Inl ErrDBWrongVersion
         else
           let bl = unat (fileHeaderBytes ! PosBitLength);
               typ = fileHeaderBytes ! PosType;
               checkpoint = le_Uint64 (read_at fileHeaderBytes PosCheckpoint 8);
               pkHash = read_at fileHeaderBytes PosPubKeyHash 32 in
           case ParsePubKey U (read_at fileHeaderBytes PosPubKey 33) of Inl e \<Rightarrow> Inl e
           | Inr pk \<Rightarrow>
             if pkHash \<noteq> PubKeyHash U pk then Inl ErrDBWrongPubKeyHash
             else case calcProofDataOffset typ of
               (offset, step, Some e) \<Rightarrow> Inl e
             | (offset, step, None) \<Rightarrow>
               Inr (\<lparr>hm_data = f, hm_bl = bl, hm_volume = push_bit bl 1, hm_checkpoint = checkpoint,
                     hm_offset = offset, hm_step = step, hm_recordSize = RecordSize U bl,
                     hm_pk = pk, hm_pkHash = pkHash\<rparr>, typ)))"

definition CreateHashMap ::
  "'pk pocutil \<Rightarrow> os_faults \<Rightarrow> fs \<Rightarrow> fpath \<Rightarrow> map_type \<Rightarrow> nat \<Rightarrow> 'pk \<Rightarrow> fs \<times> db_error option" where
  "CreateHashMap U F fs p typ bl pubKey =
     (case createMapFile U F fs p typ bl pubKey of
        (fs', Inl e) \<Rightarrow> (fs', Some e)
      | (fs', Inr _) \<Rightarrow> (fs', None))"

definition toHashMapA :: "'pk hashmap \<Rightarrow> 'pk hashmapA" where
  "toHashMapA hm = hashmap.extend hm \<lparr>hmA_half = hm_volume hm div 2\<rparr>"

definition LoadHashMap ::
  "'pk pocutil \<Rightarrow> os_faults \<Rightarrow> fs \<Rightarrow> fpath \<Rightarrow> db_error + 'pk loaded_map" where
  "LoadHashMap U F fs p =
     (case loadHashMap U F fs p of Inl e \<Rightarrow> Inl e
      | Inr (hm, typ) \<Rightarrow>
        if typ = MapTypeHashMapA then Inr (LoadedA (toHashMapA hm))
        else if typ = MapTypeHashMapB then Inr (LoadedB hm)
        else Inl ErrDBWrongType)"

section \<open>Checkpoints and progress\<close>

definition UpdateCheckpoint :: "('pk, 'z) hashmap_scheme \<Rightarrow> ('pk, 'z) hashmap_scheme" where
  "UpdateCheckpoint hm =
     hm\<lparr>hm_data := write_at (hm_data hm) PosCheckpoint (le_PutUint64 (hm_checkpoint hm))\<rparr>"

definition ReadCheckpoint :: "('pk, 'z) hashmap_scheme \<Rightarrow> u64" where
  "ReadCheckpoint hm =
     (let got = read_at (hm_data hm) PosCheckpoint LenCheckpoint
      in le_Uint64 (got @ replicate (LenCheckpoint - length got) 0))"

definition HashMap_Checkpoint :: "('pk, 'z) hashmap_scheme \<Rightarrow> u64" where
  "HashMap_Checkpoint hm = hm_checkpoint hm"

definition HashMapA_Progress :: "'pk hashmapA \<Rightarrow> bool \<times> u64" where
  "HashMapA_Progress hm = (hm_checkpoint hm \<ge> hm_volume hm, hm_checkpoint hm)"

definition HashMapB_Progress :: "'pk hashmap \<Rightarrow> bool \<times> u64" where
  "HashMapB_Progress hm = (hm_checkpoint hm \<ge> hm_volume hm div 2, hm_checkpoint hm)"

section \<open>Get and Set\<close>

text \<open>
  The slot of a key in table A: \<open>Y\<close> and \<open>~Y\<close> are neighbours. The code has this computation three
  times (\<open>HashMapA.Get\<close>, \<open>HashMapA.Set\<close> and \<open>prePlotWork\<close>).
\<close>

definition slotA :: "'pk pocutil \<Rightarrow> u64 \<Rightarrow> nat \<Rightarrow> u64 \<Rightarrow> u64" where
  "slotA U half bl key = (if key < half then key * 2 else FlipValue U key bl * 2 + 1)"

definition file_ReadAt :: "bytes \<Rightarrow> nat \<Rightarrow> int \<Rightarrow> bytes" where
  "file_ReadAt f n off = (if off < 0 then [] else read_at f (nat off) n)"

definition HashMapA_Get :: "'pk pocutil \<Rightarrow> 'pk hashmapA \<Rightarrow> u64 \<Rightarrow> db_error + bytes" where
  "HashMapA_Get U hm key =
     (let key' = slotA U (hmA_half hm) (hm_bl hm) key;
          recordSize = hm_recordSize hm;
          target = sint (word_of_nat (hm_offset hm) + key' * word_of_nat recordSize) in
      if recordSize > 8 then Inl PanicSliceBounds
      else let got = file_ReadAt (hm_data hm) recordSize target in
        if length got < recordSize then Inl ErrDBCorrupted else Inr got)"

definition HashMapA_Set ::
  "'pk pocutil \<Rightarrow> 'pk hashmapA \<Rightarrow> u64 \<Rightarrow> bytes \<Rightarrow> 'pk hashmapA \<times> db_error option" where
  "HashMapA_Set U hm key val =
     (let key' = slotA U (hmA_half hm) (hm_bl hm) key;
          recordSize = hm_recordSize hm;
          target = sint (word_of_nat (hm_offset hm) + key' * word_of_nat recordSize) in
      if length val < recordSize then (hm, Some PanicSliceBounds)
      else if target < 0 then (hm, if 0 < recordSize then Some ErrDBCorrupted else None)
      else (hm\<lparr>hm_data := write_at (hm_data hm) (nat target) (take recordSize val)\<rparr>, None))"

definition HashMapB_Get :: "'pk hashmap \<Rightarrow> u64 \<Rightarrow> db_error + bytes \<times> bytes" where
  "HashMapB_Get hm key =
     (let recordSize = hm_recordSize hm;
          target = sint (word_of_nat (hm_offset hm) + key * word_of_nat recordSize * 2) in
      if recordSize * 2 > 16 then Inl PanicSliceBounds
      else let got = file_ReadAt (hm_data hm) (recordSize * 2) target in
        if length got < recordSize * 2 then Inl ErrDBCorrupted
        else Inr (take recordSize got, drop recordSize got))"

definition HashMapB_Set ::
  "'pk hashmap \<Rightarrow> u64 \<Rightarrow> bytes \<Rightarrow> bytes \<Rightarrow> 'pk hashmap \<times> db_error option" where
  "HashMapB_Set hm key x xp =
     (let recordSize = hm_recordSize hm;
          target = word_of_nat (hm_offset hm) + key * word_of_nat recordSize * 2;
          target2 = target + word_of_nat recordSize in
      if length x < recordSize then (hm, Some PanicSliceBounds)
      else if sint target < 0 \<and> 0 < recordSize then (hm, Some ErrDBCorrupted)
      else
        let d1 = write_at (hm_data hm) (nat (sint target)) (take recordSize x) in
        if length xp < recordSize then (hm\<lparr>hm_data := d1\<rparr>, Some PanicSliceBounds)
        else if sint target2 < 0 \<and> 0 < recordSize then (hm\<lparr>hm_data := d1\<rparr>, Some ErrDBCorrupted)
        else (hm\<lparr>hm_data := write_at d1 (nat (sint target2)) (take recordSize xp)\<rparr>, None))"

section \<open>Creating and loading\<close>

lemma length_map_file_header [simp]:
  "pubkey_ok U \<Longrightarrow> length (map_file_header U typ bl pk) = LenMetaInfo"
  by (simp add: map_file_header_def Let_def pos_defs)

text \<open>Every header field reads back what \<open>createMapFile\<close> wrote.\<close>

lemma map_file_header_fields:
  fixes pk :: 'pk and bl :: nat and mt :: map_type
  assumes "pubkey_ok U"
  defines "h \<equiv> map_file_header U mt bl pk"
  shows "read_at h PosFileCode 32 = DBFileCode"
    and "le_Uint64 (read_at h PosVersion 8) = dbVersion"
    and "h ! PosBitLength = word_of_nat bl"
    and "h ! PosType = mt"
    and "le_Uint64 (read_at h PosCheckpoint 8) = 0"
    and "read_at h PosPubKeyHash 32 = PubKeyHash U pk"
    and "read_at h PosPubKey 33 = SerializeCompressed U pk"
  using assms(1)
  by (simp_all add: h_def map_file_header_def Let_def pos_defs pubkey_ok_def file_simps)

lemma read_header_write:
  assumes "length h = LenMetaInfo"
  shows "read_at (write_at old 0 h) 0 LenMetaInfo = h"
  using read_at_write_same [of old 0 h] assms by simp

lemma loadHashMap_created:
  assumes "pubkey_ok U" "createMapFile U F fs p mt bl pk = (fs', Inr d)" "\<not> stat_fails F p"
    "bl < 256" "mt = MapTypeHashMapA \<or> mt = MapTypeHashMapB"
  shows "\<exists>hm. loadHashMap U F fs' p = Inr (hm, mt) \<and> hm_data hm = d \<and> hm_bl hm = bl \<and>
    hm_volume hm = push_bit bl 1 \<and> hm_checkpoint hm = 0 \<and> hm_offset hm = LenMetaInfo \<and>
    hm_recordSize hm = RecordSize U bl \<and> hm_pk hm = pk \<and> hm_pkHash hm = PubKeyHash U pk"
proof -
  define h where "h = map_file_header U mt bl pk"
  have h: "length h = LenMetaInfo" using assms(1) by (simp add: h_def)
  obtain old where d: "d = write_at old 0 h" and fs': "fs' = fs(p := Some d)"
    and op: "open_fails F p = None"
    using assms(2) by (auto simp: createMapFile_def Let_def h_def split: if_splits option.splits)
  have "openMapFile F fs' p = Inr d"
    using assms(3) op by (simp add: openMapFile_def os_Stat_ok_def fs')
  moreover have "read_at d 0 LenMetaInfo = h"
    using read_header_write [OF h] by (simp add: d)
  moreover have "unat (word_of_nat bl :: byte) = bl"
    using assms(4) by (simp add: unat_of_nat_bound)
  ultimately show ?thesis
    using assms(1,5) map_file_header_fields [OF assms(1), of mt bl pk, folded h_def] h
    by (auto simp: loadHashMap_def calcProofDataOffset_def pubkey_ok_def
        MapTypeHashMapA_def MapTypeHashMapB_def)
qed

text \<open>The header checks are made in order, and each failure has its own error.\<close>

lemma loadHashMap_errors:
  assumes "openMapFile F fs p = Inr f"
  shows "length f < LenMetaInfo \<Longrightarrow> loadHashMap U F fs p = Inl ErrDBWrongFileSize"
    and "LenMetaInfo \<le> length f \<Longrightarrow> read_at f PosFileCode 32 \<noteq> DBFileCode \<Longrightarrow>
      loadHashMap U F fs p = Inl ErrDBWrongFileCode"
    and "LenMetaInfo \<le> length f \<Longrightarrow> read_at f PosFileCode 32 = DBFileCode \<Longrightarrow>
      le_Uint64 (read_at f PosVersion 8) \<noteq> dbVersion \<Longrightarrow>
      loadHashMap U F fs p = Inl ErrDBWrongVersion"
  using assms by (simp_all add: loadHashMap_def read_at_read_at pos_defs)

lemma loadHashMap_volume:
  assumes "loadHashMap U F fs p = Inr (hm, typ)"
  shows "hm_volume hm = push_bit (hm_bl hm) 1" "hm_recordSize hm = RecordSize U (hm_bl hm)"
    "hm_offset hm = LenMetaInfo" "typ = MapTypeHashMapA \<or> typ = MapTypeHashMapB"
    "LenMetaInfo \<le> length (hm_data hm)" "hm_pkHash hm = PubKeyHash U (hm_pk hm)"
  using assms
  by (auto simp: loadHashMap_def Let_def calcProofDataOffset_def pos_defs
      split: sum.splits if_splits prod.splits option.splits)

section \<open>Well-formed tables\<close>

definition hm_wf :: "'pk pocutil \<Rightarrow> ('pk, 'z) hashmap_scheme \<Rightarrow> bool" where
  "hm_wf U hm \<longleftrightarrow>
     pocutil_ok U (hm_bl hm) \<and> hm_volume hm = push_bit (hm_bl hm) 1 \<and>
     hm_recordSize hm = RecordSize U (hm_bl hm) \<and> hm_offset hm = LenMetaInfo \<and>
     LenMetaInfo \<le> length (hm_data hm)"

definition hmA_wf :: "'pk pocutil \<Rightarrow> 'pk hashmapA \<Rightarrow> bool" where
  "hmA_wf U hm \<longleftrightarrow> hm_wf U hm \<and> hmA_half hm = hm_volume hm div 2"

abbreviation hm_V :: "('pk, 'z) hashmap_scheme \<Rightarrow> nat" where
  "hm_V hm \<equiv> 2 ^ hm_bl hm"

lemma hm_wf_data:
  "hm_wf U hm \<Longrightarrow> length (hm_data hm) \<le> length d \<Longrightarrow> hm_wf U (hm\<lparr>hm_data := d\<rparr>)"
  "hm_wf U hm \<Longrightarrow> hm_wf U (hm\<lparr>hm_checkpoint := c\<rparr>)"
  by (simp_all add: hm_wf_def)

lemma unat_volume:
  assumes "hm_wf U hm"
  shows "unat (hm_volume hm) = hm_V hm"
  using assms by (simp add: hm_wf_def pocutil_ok_def unat_two_power)

lemma hm_V_bounds:
  assumes "hm_wf U hm"
  shows "hm_V hm \<le> 2 ^ 48" "2 * (hm_V hm div 2) = hm_V hm" "0 < hm_V hm div 2"
proof -
  have bl: "1 \<le> hm_bl hm" "pocutil_ok U (hm_bl hm)" using assms by (auto simp: hm_wf_def pocutil_ok_def)
  show "hm_V hm \<le> 2 ^ 48" by (rule two_pow_bl_bound [OF bl(2)])
  show "2 * (hm_V hm div 2) = hm_V hm" "0 < hm_V hm div 2"
    using bl(1) by (cases "hm_bl hm"; simp)+
qed

lemma hm_rs_bounds:
  assumes "hm_wf U hm"
  shows "1 \<le> hm_recordSize hm" "hm_recordSize hm \<le> 6"
  using assms RecordSize_bounds by (metis hm_wf_def)+

lemma unat_half:
  assumes "hmA_wf U hm"
  shows "unat (hmA_half hm) = hm_V hm div 2"
  using assms unat_volume [of U hm] by (simp add: hmA_wf_def unat_div)

text \<open>The slots of table A are a permutation of the keys.\<close>

lemma unat_slotA:
  assumes ok: "pocutil_ok U bl" and half: "unat half = 2 ^ bl div 2" and key: "unat key < 2 ^ bl"
  shows "unat (slotA U half bl key) =
    (if unat key < 2 ^ bl div 2 then 2 * unat key else 2 * (2 ^ bl - 1 - unat key) + 1)"
proof -
  have b: "(2::nat) ^ bl \<le> 2 ^ 48" by (rule two_pow_bl_bound [OF ok])
  have flip: "unat (FlipValue U key bl) = 2 ^ bl - 1 - unat key"
    using ok key by (simp add: pocutil_ok_def)
  have "unat (key * 2) = unat key * 2"
    using b key by (intro unat_mult_bound [where b = "2 :: u64", simplified]) simp
  moreover have m: "unat (FlipValue U key bl * 2) = (2 ^ bl - 1 - unat key) * 2"
    using b flip by (subst unat_mult_bound) simp_all
  moreover have "unat (FlipValue U key bl * 2 + 1) = (2 ^ bl - 1 - unat key) * 2 + 1"
    using b m by (subst unat_add_bound) simp_all
  moreover have "key < half \<longleftrightarrow> unat key < 2 ^ bl div 2"
    by (simp add: word_less_nat_alt half)
  ultimately show ?thesis by (simp add: slotA_def)
qed

lemma slotA_bound:
  assumes "pocutil_ok U bl" "unat half = 2 ^ bl div 2" "unat key < 2 ^ bl"
  shows "unat (slotA U half bl key) < 2 ^ bl"
proof -
  have "2 * (2 ^ bl div 2) = (2 :: nat) ^ bl"
    using assms(1) by (cases bl) (auto simp: pocutil_ok_def)
  then show ?thesis using unat_slotA [OF assms] assms(3) by (auto split: if_splits)
qed

lemma slot_number_inj:
  fixes V :: nat
  assumes "(if j < V div 2 then 2 * j else 2 * (V - 1 - j) + 1) =
    (if k < V div 2 then 2 * k else 2 * (V - 1 - k) + 1)" "j < V" "k < V"
  shows "j = k"
  using assms by (cases "j < V div 2"; cases "k < V div 2"; simp) presburger+

lemma slotA_inj:
  assumes "pocutil_ok U bl" "unat half = 2 ^ bl div 2" "unat j < 2 ^ bl" "unat k < 2 ^ bl"
    "slotA U half bl j = slotA U half bl k"
  shows "j = k"
proof -
  have "unat (slotA U half bl j) = unat (slotA U half bl k)" using assms(5) by simp
  then have "unat j = unat k"
    unfolding unat_slotA [OF assms(1,2,3)] unat_slotA [OF assms(1,2,4)]
    using assms(3,4) by (rule slot_number_inj)
  then show ?thesis by (rule unsigned_word_eqI)
qed

section \<open>Records of a file\<close>

definition record_of :: "('pk, 'z) hashmap_scheme \<Rightarrow> nat \<Rightarrow> nat \<Rightarrow> bytes" where
  "record_of hm w k = read_at (hm_data hm) (LenMetaInfo + k * w) w"

text \<open>A table whose file holds every record of width \<open>w\<close>.\<close>

definition hm_full :: "nat \<Rightarrow> ('pk, 'z) hashmap_scheme \<Rightarrow> bool" where
  "hm_full w hm \<longleftrightarrow> LenMetaInfo + hm_V hm * w \<le> length (hm_data hm)"

lemma length_record_of: "hm_full w hm \<Longrightarrow> k < hm_V hm \<Longrightarrow> length (record_of hm w k) = w"
proof -
  assume "hm_full w hm" "k < hm_V hm"
  with record_end [of k "hm_V hm" w] show ?thesis by (simp add: record_of_def hm_full_def)
qed

lemma record_of_write:
  assumes "k < hm_V hm" "j < hm_V hm" "hm_full w hm" "length b = w"
  shows "record_of (hm\<lparr>hm_data := write_at (hm_data hm) (LenMetaInfo + k * w) b\<rparr>) w j =
    (if j = k then b else record_of hm w j)"
proof -
  have end_j: "j * w + w \<le> hm_V hm * w"
    using assms(2) by (rule record_end)
  consider "j = k" | "j < k" | "k < j" by linarith
  then show ?thesis
  proof cases
    case 1
    then show ?thesis using read_at_write_same [of _ _ b] assms(4) by (simp add: record_of_def)
  next
    case 2
    then have "j * w + w \<le> k * w" by (rule record_end)
    with 2 end_j assms(3,4) show ?thesis
      by (simp add: record_of_def hm_full_def read_at_write_before)
  next
    case 3
    then have "k * w + w \<le> j * w" by (rule record_end)
    with 3 end_j assms(3,4) show ?thesis
      by (simp add: record_of_def hm_full_def read_at_write_after)
  qed
qed

lemma offset_bound:
  assumes "hm_wf U hm" "k < hm_V hm"
  shows "LenMetaInfo + k * (2 * hm_recordSize hm) < 2 ^ 62"
proof -
  have "k * (2 * hm_recordSize hm) \<le> 2 ^ 48 * 12"
    using hm_V_bounds(1) [OF assms(1)] hm_rs_bounds(2) [OF assms(1)] assms(2)
    by (intro mult_le_mono) auto
  then show ?thesis by (simp add: LenMetaInfo_def)
qed

section \<open>Get and Set as record access\<close>

lemma HashMapA_Get_eq:
  assumes "hmA_wf U hm" "hm_full (hm_recordSize hm) hm" "unat key < hm_V hm"
  shows "HashMapA_Get U hm key =
    Inr (record_of hm (hm_recordSize hm) (unat (slotA U (hmA_half hm) (hm_bl hm) key)))"
proof -
  let ?k = "slotA U (hmA_half hm) (hm_bl hm) key"
  have wf: "hm_wf U hm" using assms(1) by (simp add: hmA_wf_def)
  then have k: "unat ?k < hm_V hm"
    using slotA_bound unat_half [OF assms(1)] assms(3) by (auto simp: hm_wf_def)
  have "LenMetaInfo + unat ?k * hm_recordSize hm < 2 ^ 63"
    using offset_bound [OF wf k] by simp
  then have t: "sint (word_of_nat LenMetaInfo + ?k * word_of_nat (hm_recordSize hm)) =
      int (LenMetaInfo + unat ?k * hm_recordSize hm)" by (rule sint_offset)
  define T where "T = LenMetaInfo + unat ?k * hm_recordSize hm"
  have r: "record_of hm (hm_recordSize hm) (unat ?k) = read_at (hm_data hm) T (hm_recordSize hm)"
    by (simp add: record_of_def T_def)
  have "length (read_at (hm_data hm) T (hm_recordSize hm)) = hm_recordSize hm"
    using length_record_of [OF assms(2) k] by (simp only: r)
  moreover have "hm_offset hm = LenMetaInfo" using wf by (simp add: hm_wf_def)
  ultimately show ?thesis
    using t [folded T_def] hm_rs_bounds [OF wf] r
    by (simp add: HashMapA_Get_def Let_def file_ReadAt_def del: length_read_at)
qed

lemma HashMapA_Set_eq:
  assumes "hmA_wf U hm" "unat key < hm_V hm" "length v = hm_recordSize hm"
  shows "HashMapA_Set U hm key v =
    (hm\<lparr>hm_data := write_at (hm_data hm)
        (LenMetaInfo + unat (slotA U (hmA_half hm) (hm_bl hm) key) * hm_recordSize hm) v\<rparr>, None)"
proof -
  let ?k = "slotA U (hmA_half hm) (hm_bl hm) key"
  have wf: "hm_wf U hm" using assms(1) by (simp add: hmA_wf_def)
  then have k: "unat ?k < hm_V hm"
    using slotA_bound unat_half [OF assms(1)] assms(2) by (auto simp: hm_wf_def)
  have "LenMetaInfo + unat ?k * hm_recordSize hm < 2 ^ 63"
    using offset_bound [OF wf k] by simp
  then have t: "sint (word_of_nat LenMetaInfo + ?k * word_of_nat (hm_recordSize hm)) =
      int (LenMetaInfo + unat ?k * hm_recordSize hm)" by (rule sint_offset)
  define T where "T = LenMetaInfo + unat ?k * hm_recordSize hm"
  have "hm_offset hm = LenMetaInfo" using wf by (simp add: hm_wf_def)
  with t [folded T_def] assms(3) show ?thesis
    by (simp add: HashMapA_Set_def Let_def T_def [symmetric])
qed

lemma two_62: "(2::nat) ^ 62 + 6 < 2 ^ 63"
  by simp

lemma sint_offsetB:
  fixes key :: u64
  assumes "hm_wf U hm" "unat key < hm_V hm" "e \<le> hm_recordSize hm"
  shows "sint (word_of_nat LenMetaInfo + key * word_of_nat (hm_recordSize hm) * 2 + word_of_nat e) =
    int (LenMetaInfo + unat key * (2 * hm_recordSize hm) + e)"
proof -
  have b: "LenMetaInfo + e + unat key * (2 * hm_recordSize hm) < 2 ^ 63"
    using offset_bound [OF assms(1,2)] hm_rs_bounds(2) [OF assms(1)] assms(3) two_62 by linarith
  have "word_of_nat LenMetaInfo + key * word_of_nat (hm_recordSize hm) * 2 + word_of_nat e =
      word_of_nat (LenMetaInfo + e) + key * word_of_nat (2 * hm_recordSize hm)"
    by (simp add: algebra_simps)
  moreover have "LenMetaInfo + unat key * (2 * hm_recordSize hm) + e =
      LenMetaInfo + e + unat key * (2 * hm_recordSize hm)" by simp
  ultimately show ?thesis using sint_offset [OF b] by (simp only:)
qed

lemma HashMapB_Get_eq:
  assumes "hm_wf U hm" "hm_full (2 * hm_recordSize hm) hm" "unat key < hm_V hm"
  shows "HashMapB_Get hm key =
    (let r = record_of hm (2 * hm_recordSize hm) (unat key)
     in Inr (take (hm_recordSize hm) r, drop (hm_recordSize hm) r))"
proof -
  define T where "T = LenMetaInfo + unat key * (2 * hm_recordSize hm)"
  have r: "record_of hm (2 * hm_recordSize hm) (unat key) = read_at (hm_data hm) T (hm_recordSize hm * 2)"
    by (simp add: record_of_def T_def mult.commute)
  have "length (read_at (hm_data hm) T (hm_recordSize hm * 2)) = hm_recordSize hm * 2"
    using length_record_of [OF assms(2,3)] unfolding r by simp
  moreover have "sint (word_of_nat LenMetaInfo + key * word_of_nat (hm_recordSize hm) * 2) = int T"
    using sint_offsetB [OF assms(1,3), of 0] by (simp add: T_def)
  moreover have "hm_offset hm = LenMetaInfo" using assms(1) by (simp add: hm_wf_def)
  ultimately show ?thesis
    using hm_rs_bounds [OF assms(1)] r
    by (simp add: HashMapB_Get_def Let_def file_ReadAt_def del: length_read_at)
qed

lemma HashMapB_Set_eq:
  assumes "hm_wf U hm" "unat key < hm_V hm" "length x = hm_recordSize hm" "length xp = hm_recordSize hm"
  shows "HashMapB_Set hm key x xp =
    (hm\<lparr>hm_data := write_at (hm_data hm)
        (LenMetaInfo + unat key * (2 * hm_recordSize hm)) (x @ xp)\<rparr>, None)"
proof -
  define T where "T = LenMetaInfo + unat key * (2 * hm_recordSize hm)"
  let ?t = "word_of_nat LenMetaInfo + key * word_of_nat (hm_recordSize hm) * 2 :: u64"
  have "write_at (write_at (hm_data hm) T x) (T + hm_recordSize hm) xp = write_at (hm_data hm) T (x @ xp)"
    using write_at_write_at_adjacent [of "hm_data hm" T x xp] assms(3) by simp
  moreover have "sint ?t = int T"
    using sint_offsetB [OF assms(1,2), of 0] by (simp add: T_def)
  moreover have "sint (?t + word_of_nat (hm_recordSize hm)) = int (T + hm_recordSize hm)"
    using sint_offsetB [OF assms(1,2) le_refl] by (simp add: T_def)
  moreover have "hm_offset hm = LenMetaInfo" using assms(1) by (simp add: hm_wf_def)
  ultimately show ?thesis
    using assms(3,4)
    by (simp add: HashMapB_Set_def Let_def T_def [symmetric] nat_int_add)
qed

section \<open>Record stores\<close>

text \<open>
  The contract both tables offer to their users: setting a key in the domain succeeds, changes
  that key only and keeps the table valid. A sequence of settings leaves at every key the last
  value set there.
\<close>

locale record_store =
  fixes valid :: "'s \<Rightarrow> bool" and keys :: "'s \<Rightarrow> u64 \<Rightarrow> bool" and okval :: "'s \<Rightarrow> 'v \<Rightarrow> bool"
    and setv :: "'s \<Rightarrow> u64 \<Rightarrow> 'v \<Rightarrow> 's \<times> db_error option"
    and getv :: "'s \<Rightarrow> u64 \<Rightarrow> db_error + 'v"
  assumes set_ok: "valid s \<Longrightarrow> keys s k \<Longrightarrow> okval s v \<Longrightarrow>
      snd (setv s k v) = None \<and> valid (fst (setv s k v)) \<and>
      keys (fst (setv s k v)) = keys s \<and> okval (fst (setv s k v)) = okval s"
    and get_ok: "valid s \<Longrightarrow> keys s k \<Longrightarrow> \<exists>v. getv s k = Inr v \<and> okval s v"
    and get_set: "valid s \<Longrightarrow> keys s k \<Longrightarrow> okval s v \<Longrightarrow> keys s j \<Longrightarrow>
      getv (fst (setv s k v)) j = (if j = k then Inr v else getv s j)"
begin

primrec set_all :: "'s \<Rightarrow> (u64 \<times> 'v) list \<Rightarrow> 's" where
  "set_all s [] = s"
| "set_all s (kv # kvs) = set_all (fst (setv s (fst kv) (snd kv))) kvs"

lemma set_all_get:
  assumes "valid s" "\<And>k v. (k, v) \<in> set kvs \<Longrightarrow> keys s k \<and> okval s v" "keys s j"
  shows "valid (set_all s kvs) \<and>
    getv (set_all s kvs) j = (case map_of (rev kvs) j of Some v \<Rightarrow> Inr v | None \<Rightarrow> getv s j)"
  using assms
proof (induction kvs arbitrary: s)
  case (Cons kv kvs)
  obtain k v where kv: "kv = (k, v)" by (cases kv)
  with Cons.prems have kv_ok: "keys s k" "okval s v" by auto
  note s' = set_ok [OF Cons.prems(1) kv_ok]
  have "valid (set_all (fst (setv s k v)) kvs) \<and>
    getv (set_all (fst (setv s k v)) kvs) j =
      (case map_of (rev kvs) j of Some v \<Rightarrow> Inr v | None \<Rightarrow> getv (fst (setv s k v)) j)"
    using s' Cons.prems(2,3) by (intro Cons.IH) auto
  with get_set [OF Cons.prems(1) kv_ok Cons.prems(3)] show ?case
    by (auto simp: kv map_add_def split: option.splits)
qed simp

end

text \<open>The state of a store is the table together with the external functions it was loaded with.\<close>

definition storeA_valid :: "'pk pocutil \<times> 'pk hashmapA \<Rightarrow> bool" where
  "storeA_valid s \<longleftrightarrow> hmA_wf (fst s) (snd s) \<and> hm_full (hm_recordSize (snd s)) (snd s)"

definition storeB_valid :: "'pk pocutil \<times> 'pk hashmap \<Rightarrow> bool" where
  "storeB_valid s \<longleftrightarrow> hm_wf (fst s) (snd s) \<and> hm_full (2 * hm_recordSize (snd s)) (snd s)"

interpretation storeA: record_store storeA_valid
  "\<lambda>s k. unat k < hm_V (snd s)" "\<lambda>s v. length v = hm_recordSize (snd s)"
  "\<lambda>s k v. (case HashMapA_Set (fst s) (snd s) k v of (hm, e) \<Rightarrow> ((fst s, hm), e))"
  "\<lambda>s k. HashMapA_Get (fst s) (snd s) k"
proof (unfold_locales, goal_cases)
  case (1 s k v)
  then show ?case
    by (auto simp: storeA_valid_def HashMapA_Set_eq hmA_wf_def hm_wf_def hm_full_def)
next
  case (2 s k)
  then have wf: "hmA_wf (fst s) (snd s)" by (simp add: storeA_valid_def)
  then have "pocutil_ok (fst s) (hm_bl (snd s))" by (simp add: hmA_wf_def hm_wf_def)
  then have "unat (slotA (fst s) (hmA_half (snd s)) (hm_bl (snd s)) k) < hm_V (snd s)"
    using slotA_bound unat_half [OF wf] 2 by blast
  with 2 show ?case
    by (auto simp: storeA_valid_def HashMapA_Get_eq length_record_of)
next
  case (3 s k v j)
  let ?U = "fst s" and ?hm = "snd s"
  let ?slot = "slotA ?U (hmA_half ?hm) (hm_bl ?hm)"
  have wf: "hmA_wf ?U ?hm" "hm_full (hm_recordSize ?hm) ?hm" using 3 by (auto simp: storeA_valid_def)
  have ok: "pocutil_ok ?U (hm_bl ?hm)" using wf by (simp add: hmA_wf_def hm_wf_def)
  have b: "unat (?slot k) < hm_V ?hm" "unat (?slot j) < hm_V ?hm"
    using slotA_bound [OF ok unat_half [OF wf(1)]] 3 by auto
  let ?hm' = "?hm\<lparr>hm_data := write_at (hm_data ?hm) (LenMetaInfo + unat (?slot k) * hm_recordSize ?hm) v\<rparr>"
  have wf': "hmA_wf ?U ?hm'" "hm_full (hm_recordSize ?hm') ?hm'"
    using wf by (auto simp: hmA_wf_def hm_wf_def hm_full_def)
  have "unat (?slot j) = unat (?slot k) \<longleftrightarrow> j = k"
    using slotA_inj [OF ok unat_half [OF wf(1)]] 3 by (metis unsigned_word_eqI)
  with record_of_write [OF b wf(2)] HashMapA_Get_eq [OF wf'] HashMapA_Get_eq [OF wf] 3 show ?case
    by (simp add: HashMapA_Set_eq [OF wf(1)])
qed

interpretation storeB: record_store storeB_valid
  "\<lambda>s k. unat k < hm_V (snd s)"
  "\<lambda>s v. length (fst v) = hm_recordSize (snd s) \<and> length (snd v) = hm_recordSize (snd s)"
  "\<lambda>s k v. (case HashMapB_Set (snd s) k (fst v) (snd v) of (hm, e) \<Rightarrow> ((fst s, hm), e))"
  "\<lambda>s k. HashMapB_Get (snd s) k"
proof (unfold_locales, goal_cases)
  case (1 s k v)
  then show ?case
    by (auto simp: storeB_valid_def HashMapB_Set_eq [where U = "fst s"] hm_wf_def hm_full_def)
next
  case (2 s k)
  then show ?case
    by (auto simp: storeB_valid_def HashMapB_Get_eq [where U = "fst s"] length_record_of Let_def)
next
  case (3 s k v j)
  let ?U = "fst s" and ?hm = "snd s"
  have wf: "hm_wf ?U ?hm" "hm_full (2 * hm_recordSize ?hm) ?hm" using 3 by (auto simp: storeB_valid_def)
  let ?hm' = "?hm\<lparr>hm_data := write_at (hm_data ?hm) (LenMetaInfo + unat k * (2 * hm_recordSize ?hm)) (fst v @ snd v)\<rparr>"
  have wf': "hm_wf ?U ?hm'" "hm_full (2 * hm_recordSize ?hm') ?hm'"
    using wf by (auto simp: hm_wf_def hm_full_def)
  have "unat j = unat k \<longleftrightarrow> j = k" by (metis unsigned_word_eqI)
  with record_of_write [OF _ _ wf(2), of "unat k" "unat j" "fst v @ snd v"] 3
    HashMapB_Get_eq [OF wf'] HashMapB_Get_eq [OF wf] show ?case
    by (auto simp: HashMapB_Set_eq [OF wf(1)] Let_def)
qed

end
