(* ===== verification/Plot_Windows.thy ===== *)
theory Plot_Windows
  imports Hash_Map
begin

text \<open>
  What the two plotting passes of \<open>plot.go\<close> share. Both slide a window over a table: they fill
  the memory cache with the records that fall into the window, flush the cache to the file, and
  only then advance the checkpoint in the file's header. This theory has the outer loop
  \<open>run_windows\<close> (with fuel, since a pass may never end), what a sequence of record writes leaves in
  a cache and in a file, and two locales that lift properties of one window to a whole pass.
\<close>

section \<open>The outer loop\<close>

text \<open>
  \<open>for startPoint := checkpoint; startPoint < limit; { ... startPoint = endPoint }\<close>. The body of
  window number \<open>i\<close> returns the new state and either the error it returns with or the end point.
  \<open>None\<close> means that the fuel ran out.
\<close>

fun run_windows ::
  "nat \<Rightarrow> (nat \<Rightarrow> 's \<Rightarrow> u64 \<Rightarrow> 's \<times> (db_error + u64)) \<Rightarrow> u64 \<Rightarrow> nat \<Rightarrow> 's \<Rightarrow> u64
     \<Rightarrow> ('s \<times> db_error option) option" where
  "run_windows 0 body limit i s p = None"
| "run_windows (Suc fuel) body limit i s p =
     (if p < limit then
        (case body i s p of
           (s', Inl e) \<Rightarrow> Some (s', Some e)
         | (s', Inr p') \<Rightarrow> run_windows fuel body limit (Suc i) s' p')
      else Some (s, None))"

text \<open>
  A pass with an invariant on its state and start point, and a weaker property that holds at
  every exit, early returns included.
\<close>

locale window_pass =
  fixes body :: "'e \<Rightarrow> nat \<Rightarrow> 's \<Rightarrow> u64 \<Rightarrow> 's \<times> (db_error + u64)"
    and limit :: "'e \<Rightarrow> u64"
    and inv :: "'e \<Rightarrow> 's \<Rightarrow> u64 \<Rightarrow> bool"
    and safe :: "'e \<Rightarrow> 's \<Rightarrow> bool"
  assumes inv_step: "inv e s p \<Longrightarrow> p < limit e \<Longrightarrow> body e i s p = (s', Inr p') \<Longrightarrow> inv e s' p'"
    and inv_fail: "inv e s p \<Longrightarrow> p < limit e \<Longrightarrow> body e i s p = (s', Inl err) \<Longrightarrow> safe e s'"
    and inv_safe: "inv e s p \<Longrightarrow> safe e s"
begin

lemma run_safe:
  assumes "inv e s p" "run_windows fuel (body e) (limit e) i s p = Some (s', r)"
  shows "safe e s' \<and> (r = None \<longrightarrow> (\<exists>p'. inv e s' p' \<and> limit e \<le> p'))"
  using assms
proof (induction fuel arbitrary: i s p)
  case (Suc fuel)
  show ?case
  proof (cases "p < limit e")
    case False
    with Suc.prems show ?thesis by (auto intro: inv_safe)
  next
    case True
    obtain s1 q where b: "body e i s p = (s1, q)" by (cases "body e i s p")
    show ?thesis
    proof (cases q)
      case (Inl err)
      with True b Suc.prems show ?thesis by (auto dest: inv_fail)
    next
      case (Inr p1)
      with b have "inv e s1 p1" using inv_step [OF Suc.prems(1) True] by simp
      moreover have "run_windows fuel (body e) (limit e) (Suc i) s1 p1 = Some (s', r)"
        using Suc.prems(2) True b Inr by simp
      ultimately show ?thesis by (rule Suc.IH)
    qed
  qed
qed simp

end

text \<open>A pass whose windows succeed and advance ends, within as many windows as there are points.\<close>

locale progressing_pass = window_pass +
  fixes live :: "'e \<Rightarrow> 's \<Rightarrow> u64 \<Rightarrow> bool"
  assumes progress: "live e s p \<Longrightarrow> p < limit e \<Longrightarrow>
      \<exists>s' p'. body e i s p = (s', Inr p') \<and> p < p' \<and> live e s' p'"
    and live_inv: "live e s p \<Longrightarrow> inv e s p"
begin

lemma run_ends:
  assumes "live e s p" "unat (limit e) - unat p < fuel"
  shows "\<exists>s' p'. run_windows fuel (body e) (limit e) i s p = Some (s', None) \<and>
    live e s' p' \<and> limit e \<le> p'"
  using assms
proof (induction fuel arbitrary: i s p)
  case (Suc fuel)
  show ?case
  proof (cases "p < limit e")
    case False
    with Suc.prems show ?thesis by auto
  next
    case True
    then obtain s1 p1 where b: "body e i s p = (s1, Inr p1)" "p < p1" "live e s1 p1"
      using progress [OF Suc.prems(1)] by blast
    have "unat (limit e) - unat p1 < fuel"
      using Suc.prems(2) True b(2) by (simp add: word_less_nat_alt)
    with Suc.IH [OF b(3)] b True show ?thesis by simp
  qed
qed simp

end

section \<open>Record writes\<close>

text \<open>
  A pass computes a sequence of writes, a record number and its bytes each. Later writes win; a
  record that is never written stays zero.
\<close>

definition content_of :: "nat \<Rightarrow> (nat \<times> bytes) list \<Rightarrow> nat \<Rightarrow> bytes" where
  "content_of w evs k = (case map_of (rev evs) k of Some b \<Rightarrow> b | None \<Rightarrow> replicate w 0)"

definition write_event :: "nat \<Rightarrow> nat \<Rightarrow> nat \<Rightarrow> nat \<times> bytes \<Rightarrow> memcache \<Rightarrow> memcache" where
  "write_event w start endp ev cache =
     (if start \<le> fst ev \<and> fst ev < endp
      then fst (MemCache_WriteAt cache (snd ev) ((fst ev - start) * w)) else cache)"

definition window_filled :: "nat \<Rightarrow> nat \<Rightarrow> nat \<Rightarrow> (nat \<times> bytes) list \<Rightarrow> memcache \<Rightarrow> bool" where
  "window_filled w start endp evs cache \<longleftrightarrow>
     cache_wf cache \<and> (endp - start) * w \<le> mc_size cache \<and>
     (\<forall>j < endp - start. read_at (mc_data cache) (j * w) w = content_of w evs (start + j))"

lemma content_of_snoc:
  "content_of w (evs @ [(k, b)]) j = (if j = k then b else content_of w evs j)"
  by (simp add: content_of_def)

lemma content_of_cases:
  assumes "\<And>k b. (k, b) \<in> set evs \<Longrightarrow> P k b" "\<And>k. P k (replicate w 0)"
  shows "P k (content_of w evs k)"
  using assms by (auto simp: content_of_def split: option.splits dest!: map_of_SomeD)

lemma content_of_last:
  assumes "(k, b) \<in> set evs"
  shows "\<exists>b'. (k, b') \<in> set evs \<and> content_of w evs k = b'"
proof -
  have "map_of (rev evs) k \<noteq> None"
    unfolding map_of_eq_None_iff using assms by (metis fst_conv imageI set_rev)
  then obtain b' where b': "map_of (rev evs) k = Some b'" by blast
  then have "(k, b') \<in> set evs" by (auto dest: map_of_SomeD)
  with b' show ?thesis by (auto simp: content_of_def)
qed

lemma window_filled_zero:
  assumes "(endp - start) * w \<le> n"
  shows "window_filled w start endp [] \<lparr>mc_size = n, mc_data = replicate n 0\<rparr>"
proof -
  have "j * w + w \<le> n" if "j < endp - start" for j
    using record_end [of j "endp - start" w] that assms by simp
  then have "w \<le> n - j * w" if "j < endp - start" for j
    using that by (metis add.commute add_leD1 le_diff_conv2)
  then show ?thesis
    using assms by (auto simp: window_filled_def cache_wf_def content_of_def read_at_def min_def)
qed

lemma window_filled_write:
  assumes "window_filled w start endp evs cache" "length b = w"
  shows "window_filled w start endp (evs @ [(k, b)]) (write_event w start endp (k, b) cache) \<and>
    mc_size (write_event w start endp (k, b) cache) = mc_size cache"
proof (cases "start \<le> k \<and> k < endp")
  case False
  with assms show ?thesis
    by (auto simp: window_filled_def write_event_def content_of_snoc)
next
  case True
  let ?i = "k - start"
  have fit: "j * w + w \<le> mc_size cache" if "j < endp - start" for j
    using record_end [of j "endp - start" w] that assms by (simp add: window_filled_def)
  have wf: "cache_wf cache" using assms by (simp add: window_filled_def)
  let ?c = "fst (MemCache_WriteAt cache b (?i * w))"
  have c: "mc_data ?c = write_at (mc_data cache) (?i * w) b"
    using fit [of ?i] True assms(2) by (intro WriteAt_inside [OF wf]) auto
  have "read_at (mc_data ?c) (j * w) w = content_of w (evs @ [(k, b)]) (start + j)"
    if j: "j < endp - start" for j
  proof -
    have old: "read_at (mc_data cache) (j * w) w = content_of w evs (start + j)"
      using assms(1) j by (simp add: window_filled_def)
    have len: "j * w + w \<le> length (mc_data cache)" using fit [OF j] wf by (simp add: cache_wf_def)
    consider "j = ?i" | "j < ?i" | "?i < j" by linarith
    then show ?thesis
    proof cases
      case 1
      with True assms(2) show ?thesis
        using read_at_write_same [of _ _ b] by (auto simp: c content_of_snoc)
    next
      case 2
      then have "j * w + w \<le> ?i * w" by (rule record_end)
      with 2 len old show ?thesis by (auto simp: c content_of_snoc read_at_write_before)
    next
      case 3
      then have "?i * w + w \<le> j * w" by (rule record_end)
      with 3 len old assms(2) show ?thesis by (auto simp: c content_of_snoc read_at_write_after)
    qed
  qed
  with True assms(1) wf show ?thesis
    by (simp add: window_filled_def write_event_def cache_wf_WriteAt)
qed

lemma window_filled_writes:
  assumes "\<And>k b. (k, b) \<in> set evs \<Longrightarrow> length b = w" "(endp - start) * w \<le> n"
  shows "window_filled w start endp evs
      (fold (write_event w start endp) evs \<lparr>mc_size = n, mc_data = replicate n 0\<rparr>) \<and>
    mc_size (fold (write_event w start endp) evs \<lparr>mc_size = n, mc_data = replicate n 0\<rparr>) = n"
  using assms(1)
proof (induction evs rule: rev_induct)
  case Nil
  then show ?case using window_filled_zero [OF assms(2)] by simp
next
  case (snoc ev evs)
  obtain k b where ev: "ev = (k, b)" by (cases ev)
  let ?c = "fold (write_event w start endp) evs \<lparr>mc_size = n, mc_data = replicate n 0\<rparr>"
  have "window_filled w start endp evs ?c \<and> mc_size ?c = n"
    using snoc.prems by (intro snoc.IH) auto
  moreover have "length b = w" using snoc.prems ev by auto
  ultimately show ?case
    using window_filled_write [of w start endp evs ?c b k] by (simp add: ev)
qed

section \<open>Tables written up to a record\<close>

definition table_upto :: "nat \<Rightarrow> (nat \<times> bytes) list \<Rightarrow> ('pk, 'z) hashmap_scheme \<Rightarrow> nat \<Rightarrow> bool" where
  "table_upto w evs hm n \<longleftrightarrow>
     LenMetaInfo + n * w \<le> length (hm_data hm) \<and> (\<forall>k < n. record_of hm w k = content_of w evs k)"

lemma table_upto_mono: "table_upto w evs hm n \<Longrightarrow> m \<le> n \<Longrightarrow> table_upto w evs hm m"
  unfolding table_upto_def by (meson add_left_mono le_trans mult_le_mono1 order_less_le_trans)

lemma table_upto_checkpoint [simp]:
  "table_upto w evs (hm\<lparr>hm_checkpoint := c\<rparr>) n \<longleftrightarrow> table_upto w evs hm n"
  by (simp add: table_upto_def record_of_def)

lemma table_upto_UpdateCheckpoint [simp]:
  assumes "table_upto w evs hm n"
  shows "table_upto w evs (UpdateCheckpoint hm) n"
proof -
  have "record_of (UpdateCheckpoint hm) w k = record_of hm w k" if "k < n" for k
  proof -
    have "k * w + w \<le> n * w" using that by (rule record_end)
    with assms show ?thesis
      by (simp add: record_of_def UpdateCheckpoint_def table_upto_def pos_defs read_at_write_after)
  qed
  with assms show ?thesis by (auto simp: table_upto_def UpdateCheckpoint_def max_def)
qed

text \<open>Whatever part of a window is flushed, the records before it stay.\<close>

lemma table_upto_flush_part:
  assumes "table_upto w evs hm n"
  shows "table_upto w evs (hm\<lparr>hm_data := write_at (hm_data hm) (LenMetaInfo + n * w) d\<rparr>) n"
proof -
  have "record_of (hm\<lparr>hm_data := write_at (hm_data hm) (LenMetaInfo + n * w) d\<rparr>) w k = record_of hm w k"
    if "k < n" for k
  proof -
    have "k * w + w \<le> n * w" using that by (rule record_end)
    with assms show ?thesis
      by (simp add: record_of_def table_upto_def read_at_write_before)
  qed
  with assms show ?thesis by (auto simp: table_upto_def max_def)
qed

lemma table_upto_flush:
  assumes "table_upto w evs hm n" "window_filled w n m evs cache" "n \<le> m"
  shows "table_upto w evs (hm\<lparr>hm_data := write_at (hm_data hm) (LenMetaInfo + n * w) (mc_data cache)\<rparr>) m"
    (is "table_upto w evs ?hm m")
proof -
  have size: "(m - n) * w \<le> length (mc_data cache)"
    using assms(2) by (simp add: window_filled_def cache_wf_def)
  have "n * w + (m - n) * w = m * w" using assms(3) by (simp flip: add_mult_distrib)
  with size assms(1) have "LenMetaInfo + m * w \<le> length (hm_data ?hm)"
    by (cases "mc_data cache = []") (auto simp: table_upto_def)
  moreover have "record_of ?hm w k = content_of w evs k" if k: "k < m" for k
  proof (cases "k < n")
    case True
    then show ?thesis
      using table_upto_flush_part [OF assms(1), of "mc_data cache"] by (simp add: table_upto_def)
  next
    case False
    let ?j = "k - n"
    have j: "?j < m - n" using k False by simp
    have "?j * w + w \<le> length (mc_data cache)"
      using record_end [OF j, of w] size by simp
    moreover have "n * w + ?j * w = k * w" using False by (simp flip: add_mult_distrib)
    ultimately have "record_of ?hm w k = read_at (mc_data cache) (?j * w) w"
      by (simp add: record_of_def read_at_write_sub add.assoc flip: \<open>n * w + ?j * w = k * w\<close>)
    also have "\<dots> = content_of w evs (n + ?j)" using assms(2) j by (simp add: window_filled_def)
    finally show ?thesis using False by simp
  qed
  ultimately show ?thesis by (simp add: table_upto_def)
qed

section \<open>Checkpoints in the header\<close>

lemma ReadCheckpoint_eq:
  "LenMetaInfo \<le> length (hm_data hm) \<Longrightarrow>
     ReadCheckpoint hm = le_Uint64 (read_at (hm_data hm) PosCheckpoint LenCheckpoint)"
  by (simp add: ReadCheckpoint_def pos_defs min_def)

lemma ReadCheckpoint_UpdateCheckpoint:
  assumes "LenMetaInfo \<le> length (hm_data hm)"
  shows "ReadCheckpoint (UpdateCheckpoint hm) = hm_checkpoint hm"
  using assms le64.dec_write [of "hm_data hm" PosCheckpoint "hm_checkpoint hm"]
  by (subst ReadCheckpoint_eq)
     (simp_all add: UpdateCheckpoint_def LenCheckpoint_def le_length_write_at del: length_write_at)

lemma ReadCheckpoint_data_write [simp]:
  assumes "LenMetaInfo \<le> length (hm_data hm)"
  shows "ReadCheckpoint (hm\<lparr>hm_data := write_at (hm_data hm) (LenMetaInfo + n) d\<rparr>) = ReadCheckpoint hm"
  using assms
  by (subst (1 2) ReadCheckpoint_eq)
     (simp_all add: pos_defs read_at_write_before le_length_write_at del: length_write_at)

lemma UpdateCheckpoint_simps [simp]:
  "hm_bl (UpdateCheckpoint hm) = hm_bl hm" "hm_volume (UpdateCheckpoint hm) = hm_volume hm"
  "hm_recordSize (UpdateCheckpoint hm) = hm_recordSize hm"
  "hm_pkHash (UpdateCheckpoint hm) = hm_pkHash hm" "hm_offset (UpdateCheckpoint hm) = hm_offset hm"
  "hm_checkpoint (UpdateCheckpoint hm) = hm_checkpoint hm" "hm_pk (UpdateCheckpoint hm) = hm_pk hm"
  by (simp_all add: UpdateCheckpoint_def)

lemma hm_wf_UpdateCheckpoint [simp]: "hm_wf U hm \<Longrightarrow> hm_wf U (UpdateCheckpoint hm)"
  by (simp add: hm_wf_def UpdateCheckpoint_def le_length_write_at del: length_write_at)

section \<open>The header\<close>

text \<open>Two files whose headers differ at most in the checkpoint.\<close>

definition same_header :: "bytes \<Rightarrow> bytes \<Rightarrow> bool" where
  "same_header d d0 \<longleftrightarrow>
     LenMetaInfo \<le> length d \<and> LenMetaInfo \<le> length d0 \<and>
     (\<forall>i < LenMetaInfo. i < PosCheckpoint \<or> PosCheckpoint + LenCheckpoint \<le> i \<longrightarrow> d ! i = d0 ! i)"

lemma same_header_refl: "LenMetaInfo \<le> length d \<Longrightarrow> same_header d d"
  by (simp add: same_header_def)

lemma same_header_trans: "same_header a b \<Longrightarrow> same_header b c \<Longrightarrow> same_header a c"
  by (simp add: same_header_def)

lemma nth_write_outside:
  assumes "i < length f" "i < off \<or> off + length bs \<le> i"
  shows "write_at f off bs ! i = f ! i"
proof -
  have "i < length (write_at f off bs)"
    using assms(1) le_length_write_at [of "Suc i" f off bs] by linarith
  from nth_write_at [OF this] assms show ?thesis by auto
qed

lemma same_header_data_write:
  "same_header d d0 \<Longrightarrow> same_header (write_at d (LenMetaInfo + n) b) d0"
  by (auto simp: same_header_def nth_write_outside le_length_write_at simp del: length_write_at)

lemma same_header_UpdateCheckpoint:
  "same_header (hm_data hm) d0 \<Longrightarrow> same_header (hm_data (UpdateCheckpoint hm)) d0"
  by (auto simp: same_header_def UpdateCheckpoint_def nth_write_outside le_length_write_at pos_defs
      simp del: length_write_at)

lemma read_at_same_header:
  assumes "same_header d d0" "n + off \<le> LenMetaInfo" "n + off \<le> PosCheckpoint \<or> PosCheckpoint + LenCheckpoint \<le> off"
  shows "read_at d off n = read_at d0 off n"
proof (rule nth_equalityI)
  show "length (read_at d off n) = length (read_at d0 off n)"
    using assms(1,2) by (auto simp: same_header_def min_def)
  fix i assume "i < length (read_at d off n)"
  then show "read_at d off n ! i = read_at d0 off n ! i"
    using assms by (auto simp: same_header_def read_at_def)
qed

lemma nth_same_header:
  "same_header d d0 \<Longrightarrow> i < PosCheckpoint \<Longrightarrow> d ! i = d0 ! i"
  by (simp add: same_header_def pos_defs)

lemma loadHashMap_same_header:
  assumes l: "loadHashMap U F fs p = Inr (hm, mt)" and d: "fs' p = Some d" "same_header d (hm_data hm)"
  shows "loadHashMap U F fs' p = Inr (hm\<lparr>hm_data := d,
    hm_checkpoint := le_Uint64 (read_at d PosCheckpoint LenCheckpoint)\<rparr>, mt)"
proof -
  obtain f where f: "openMapFile F fs p = Inr f"
    using l by (auto simp: loadHashMap_def split: sum.splits)
  have f': "hm_data hm = f" "LenMetaInfo \<le> length f"
    using l by (auto simp: loadHashMap_def f Let_def split: sum.splits if_splits prod.splits option.splits)
  have op: "openMapFile F fs' p = Inr d"
    using f d(1) by (auto simp: openMapFile_def os_Stat_ok_def split: if_splits option.splits)
  have len: "LenMetaInfo \<le> length d" using d(2) by (simp add: same_header_def)
  note sh = d(2) [unfolded f'(1)]
  let ?h = "\<lambda>x. read_at x 0 LenMetaInfo"
  have hdr: "read_at (?h d) PosFileCode 32 = read_at (?h f) PosFileCode 32"
    "read_at (?h d) PosVersion 8 = read_at (?h f) PosVersion 8"
    "?h d ! PosBitLength = ?h f ! PosBitLength" "?h d ! PosType = ?h f ! PosType"
    "read_at (?h d) PosPubKeyHash 32 = read_at (?h f) PosPubKeyHash 32"
    "read_at (?h d) PosPubKey 33 = read_at (?h f) PosPubKey 33"
    "read_at (?h d) PosCheckpoint 8 = read_at d PosCheckpoint LenCheckpoint"
    using nth_same_header [OF sh] by (simp_all add: read_at_read_at read_at_same_header [OF sh] pos_defs)
      (simp_all add: read_at_def)
  have len': "length (?h d) = LenMetaInfo" "length (?h f) = LenMetaInfo" using len f'(2) by simp_all
  show ?thesis
    using l f'(1) unfolding loadHashMap_def f op sum.case hdr len' Let_def
    by (cases hm) (auto split: sum.splits if_splits prod.splits option.splits)
qed

end
