(* ===== verification/Pre_Plot.thy ===== *)
theory Pre_Plot
  imports Plot_Windows
begin

text \<open>
  The first pass of plotting, \<open>MassDBV1.prePlotWork\<close> of
  \<open>poc/engine/massdb/massdb.v1/plot.go\<close>: it fills table A, which maps every \<open>Y\<close> to an \<open>X\<close> with
  \<open>P(X) = Y\<close>. What the pass observes of its surroundings is a parameter: the available memory
  reported before each window, whether the stop channel is closed when it is polled, and write
  failures. Logging is left out, but not the division by the log interval, which panics for tiny
  volumes.
\<close>

record plot_env =
  vmem :: "nat \<Rightarrow> db_error + u64"
  fill_quit :: "nat \<Rightarrow> nat \<Rightarrow> bool"
  flush_quit :: "nat \<Rightarrow> nat \<Rightarrow> bool"
  flush_fault :: "nat \<Rightarrow> nat \<Rightarrow> (nat \<times> db_error) option"
  seek_fault :: "nat \<Rightarrow> db_error option"

definition makeAvailableMemory ::
  "db_error + u64 \<Rightarrow> memcache \<Rightarrow> u64 \<Rightarrow> u64 \<Rightarrow> u64 \<Rightarrow> db_error + memcache" where
  "makeAvailableMemory stat cache requiredMem maxMem minMem =
     (let required = (if requiredMem > maxMem then maxMem else requiredMem) in
      case stat of Inl e \<Rightarrow> Inl e
      | Inr available \<Rightarrow>
        if required > available then
          if available < minMem then Inl ErrMemoryNotEnough
          else Inr (MemCache_Update cache ((available div minMem) * minMem))
        else Inr (MemCache_Update cache required))"

definition HashMapA_makeAvailableMemory ::
  "db_error + u64 \<Rightarrow> memcache \<Rightarrow> u64 \<Rightarrow> db_error + memcache" where
  "HashMapA_makeAvailableMemory stat cache requiredMem =
     makeAvailableMemory stat cache requiredMem maxPrePlotMem minPrePlotMem"

definition HashMapB_makeAvailableMemory ::
  "db_error + u64 \<Rightarrow> memcache \<Rightarrow> u64 \<Rightarrow> db_error + memcache" where
  "HashMapB_makeAvailableMemory stat cache requiredMem =
     makeAvailableMemory stat cache requiredMem maxPlotMem minPlotMem"

text \<open>
  The inner loop over all \<open>x\<close>. \<open>None\<close> is the return with \<open>ErrStopPlotting\<close>, which abandons the
  cache; the stop channel is polled every \<open>waitQuitPlotInterval\<close> values.
\<close>

fun prePlot_fill ::
  "'pk pocutil \<Rightarrow> nat \<Rightarrow> bytes \<Rightarrow> u64 \<Rightarrow> nat \<Rightarrow> (nat \<Rightarrow> bool) \<Rightarrow> u64 \<Rightarrow> u64 \<Rightarrow> nat list \<Rightarrow> memcache
     \<Rightarrow> memcache option" where
  "prePlot_fill U bl pkHash half recordSize quit startPoint endPoint [] cache = Some cache"
| "prePlot_fill U bl pkHash half recordSize quit startPoint endPoint (x # xs) cache =
     (let y = slotA U half bl (PFun U (word_of_nat x) bl pkHash);
          cache' = (if startPoint \<le> y \<and> y < endPoint
                    then fst (MemCache_WriteAt cache (take recordSize (le_PutUint64 (word_of_nat x)))
                                (unat (y - startPoint) * recordSize))
                    else cache) in
      if x mod waitQuitPlotInterval = 0 \<and> quit x then None
      else prePlot_fill U bl pkHash half recordSize quit startPoint endPoint xs cache')"

definition calcWindowSizeA :: "memcache \<Rightarrow> nat \<Rightarrow> u64" where
  "calcWindowSizeA cache recordSize =
     (let rem = (MemCache_Len cache div recordSize) mod 2
      in word_of_nat (MemCache_Len cache div recordSize - rem))"

definition prePlot_window ::
  "'pk pocutil \<times> plot_env \<Rightarrow> nat \<Rightarrow> 'pk hashmapA \<times> memcache \<Rightarrow> u64
     \<Rightarrow> ('pk hashmapA \<times> memcache) \<times> (db_error + u64)" where
  "prePlot_window e i s startPoint =
     (let U = fst e; E = snd e; hmA = fst s; cache = snd s;
          recordSize = hm_recordSize hmA;
          half = hm_volume hmA div 2 in
      case HashMapA_makeAvailableMemory (vmem E i) cache
             ((hm_volume hmA - startPoint) * word_of_nat recordSize) of
        Inl err \<Rightarrow> ((hmA, cache), Inl err)
      | Inr cache1 \<Rightarrow>
        (let endPoint = startPoint + calcWindowSizeA cache1 recordSize in
         case prePlot_fill U (hm_bl hmA) (hm_pkHash hmA) half recordSize (fill_quit E i)
                startPoint endPoint [0..<unat (hm_volume hmA)] cache1 of
           None \<Rightarrow> ((hmA, cache1), Inl ErrStopPlotting)
         | Some cache2 \<Rightarrow>
           (case WriteToWriter (flush_quit E i) (flush_fault E i) cache2 (hm_data hmA) 0
                   (hm_offset hmA + unat startPoint * recordSize) (MemCache_Len cache2) of
              (d, n, Some err) \<Rightarrow> ((hmA\<lparr>hm_data := d\<rparr>, cache2), Inl err)
            | (d, n, None) \<Rightarrow>
              ((UpdateCheckpoint (hmA\<lparr>hm_data := d, hm_checkpoint := startPoint + 1\<rparr>), cache2),
               Inr endPoint))))"

definition prePlotWork ::
  "'pk pocutil \<Rightarrow> plot_env \<Rightarrow> nat \<Rightarrow> 'pk hashmapA \<Rightarrow> memcache
     \<Rightarrow> (('pk hashmapA \<times> memcache) \<times> db_error option) option" where
  "prePlotWork U E fuel hmA cache =
     (let logCheckpointInterval = hm_volume hmA div 50;
          checkpoint = ReadCheckpoint hmA in
      if logCheckpointInterval = 0 then Some ((hmA, cache), Some PanicDivideByZero)
      else case run_windows fuel (prePlot_window (U, E)) (hm_volume hmA) 0 (hmA, cache) checkpoint of
        None \<Rightarrow> None
      | Some (s, Some err) \<Rightarrow> Some (s, Some err)
      | Some ((hmA', cache'), None) \<Rightarrow>
          Some ((UpdateCheckpoint (hmA'\<lparr>hm_checkpoint := hm_volume hmA'\<rparr>), cache'), None))"

section \<open>What the pass should leave in table A\<close>

definition eventsA :: "'pk pocutil \<Rightarrow> 'pk hashmapA \<Rightarrow> (nat \<times> bytes) list" where
  "eventsA U hm =
     map (\<lambda>x. (unat (slotA U (hmA_half hm) (hm_bl hm) (PFun U (word_of_nat x) (hm_bl hm) (hm_pkHash hm))),
               le_put (hm_recordSize hm) x))
         [0..<hm_V hm]"

abbreviation tableA_upto :: "'pk pocutil \<Rightarrow> 'pk hashmapA \<Rightarrow> nat \<Rightarrow> bool" where
  "tableA_upto U hm n \<equiv> table_upto (hm_recordSize hm) (eventsA U hm) hm n"

lemma eventsA_update [simp]:
  "eventsA U (hm\<lparr>hm_data := d\<rparr>) = eventsA U hm"
  "eventsA U (hm\<lparr>hm_checkpoint := c\<rparr>) = eventsA U hm"
  "eventsA U (UpdateCheckpoint hm) = eventsA U hm"
  by (simp_all add: eventsA_def UpdateCheckpoint_def)

lemma hmA_wf_update:
  "hmA_wf U hm \<Longrightarrow> length (hm_data hm) \<le> length d \<Longrightarrow> hmA_wf U (hm\<lparr>hm_data := d\<rparr>)"
  "hmA_wf U hm \<Longrightarrow> hmA_wf U (hm\<lparr>hm_checkpoint := c\<rparr>)"
  "hmA_wf U hm \<Longrightarrow> hmA_wf U (UpdateCheckpoint hm)"
  by (simp_all add: hmA_wf_def hm_wf_data)
     (simp_all add: hm_wf_def UpdateCheckpoint_def le_length_write_at del: length_write_at)

lemma eventsA_length: "(k, b) \<in> set (eventsA U hm) \<Longrightarrow> length b = hm_recordSize hm"
  by (auto simp: eventsA_def)

section \<open>One window\<close>

lemma prePlot_fill_Some:
  assumes "unat startPoint \<le> unat endPoint"
    "\<And>x. x \<in> set xs \<Longrightarrow> take rs (le_PutUint64 (word_of_nat x)) = le_put rs x"
    "prePlot_fill U bl pkHash half rs quit startPoint endPoint xs cache = Some cache'"
  shows "cache' = fold (write_event rs (unat startPoint) (unat endPoint))
    (map (\<lambda>x. (unat (slotA U half bl (PFun U (word_of_nat x) bl pkHash)), le_put rs x)) xs) cache"
  using assms(2,3)
proof (induction xs arbitrary: cache)
  case (Cons x xs)
  let ?y = "slotA U half bl (PFun U (word_of_nat x) bl pkHash)"
  have "(if startPoint \<le> ?y \<and> ?y < endPoint
      then fst (MemCache_WriteAt cache (take rs (le_PutUint64 (word_of_nat x)))
                  (unat (?y - startPoint) * rs)) else cache) =
    write_event rs (unat startPoint) (unat endPoint) (unat ?y, le_put rs x) cache"
    using Cons.prems(1) [of x]
    by (auto simp: write_event_def word_le_nat_alt word_less_nat_alt unat_sub)
  with Cons show ?case by (simp add: Let_def split: if_splits)
qed simp

lemma prePlot_fill_no_quit:
  "(\<And>x. \<not> quit x) \<Longrightarrow>
     \<exists>c. prePlot_fill U bl pkHash half rs quit startPoint endPoint xs cache = Some c"
  by (induction xs arbitrary: cache) (auto simp: Let_def)

text \<open>
  The memory of a window: never more than the rest of the table needs, so the window ends inside
  the table, and an even number of records.
\<close>

lemma unat_div_mult: "unat (a div m * m) = unat a div unat m * unat m"
  for a m :: "'a::len word"
proof -
  have "unat (a div m) * unat m \<le> unat a"
    by (simp add: unat_div div_times_less_eq_dividend)
  then have "unat (a div m) * unat m < 2 ^ LENGTH('a)"
    using unat_lt2p [of a] by linarith
  from unat_mult_bound [OF this] show ?thesis by (simp add: unat_div)
qed

lemma makeAvailableMemory_size:
  assumes "makeAvailableMemory stat cache req maxMem minMem = Inr cache'"
  shows "\<exists>n. cache' = cache\<lparr>mc_size := n, mc_data := replicate n 0\<rparr> \<and> n \<le> unat req \<and>
    (n = unat req \<or> n = unat maxMem \<or>
     (\<exists>a. stat = Inr a \<and> minMem \<le> a \<and> n = unat (a div minMem * minMem)))"
proof -
  let ?r = "if req > maxMem then maxMem else req"
  from assms obtain a where a: "stat = Inr a"
    by (auto simp: makeAvailableMemory_def Let_def split: sum.splits)
  have r: "unat ?r \<le> unat req" by (simp add: word_less_nat_alt)
  show ?thesis
  proof (cases "?r > a")
    case False
    with assms a r show ?thesis
      by (intro exI [of _ "unat ?r"])
         (auto simp: makeAvailableMemory_def MemCache_Update_def Let_def)
  next
    case True
    have "unat (a div minMem * minMem) \<le> unat a"
      by (simp add: unat_div_mult div_times_less_eq_dividend)
    then have "unat (a div minMem * minMem) \<le> unat req" using True r by (simp add: word_less_nat_alt)
    with assms a True show ?thesis
      by (intro exI [of _ "unat (a div minMem * minMem)"])
         (auto simp: makeAvailableMemory_def MemCache_Update_def Let_def split: if_splits)
  qed
qed

lemma makeAvailableMemory_big:
  assumes "makeAvailableMemory stat cache req 4294967296 268435456 = Inr cache'"
  shows "\<exists>n. cache' = cache\<lparr>mc_size := n, mc_data := replicate n 0\<rparr> \<and> n \<le> unat req \<and>
    (n = unat req \<or> 268435456 \<le> n)"
proof -
  obtain n where n: "cache' = cache\<lparr>mc_size := n, mc_data := replicate n 0\<rparr>" "n \<le> unat req"
    and c: "n = unat req \<or> n = unat (4294967296 :: u64) \<or>
      (\<exists>a. stat = Inr a \<and> 268435456 \<le> a \<and> n = unat (a div 268435456 * 268435456))"
    using makeAvailableMemory_size [OF assms] by blast
  have "268435456 \<le> unat (a div 268435456 * 268435456)" if "268435456 \<le> a" for a :: u64
  proof -
    have "268435456 \<le> unat a" using that by (simp add: word_le_nat_alt)
    then have "1 \<le> unat a div 268435456" by (simp add: less_eq_div_iff_mult_less_eq)
    then show ?thesis by (simp add: unat_div_mult)
  qed
  with c have "n = unat req \<or> 268435456 \<le> n" by auto
  with n show ?thesis by blast
qed

lemma requiredMem_unat:
  assumes "hm_wf U hm" "unat p \<le> hm_V hm" "r \<le> 24"
  shows "unat ((hm_volume hm - p) * word_of_nat r) = (hm_V hm - unat p) * r"
proof -
  have le: "p \<le> hm_volume hm" using assms(2) unat_volume [OF assms(1)] by (simp add: word_le_nat_alt)
  have r: "unat (word_of_nat r :: u64) = r" using assms(3) by (simp add: unat_of_nat_bound)
  have d: "unat (hm_volume hm - p) = hm_V hm - unat p"
    using unat_sub [OF le] unat_volume [OF assms(1)] by simp
  have "(hm_V hm - unat p) * r \<le> 2 ^ 48 * 24"
    using hm_V_bounds(1) [OF assms(1)] assms(3) by (intro mult_le_mono) auto
  then have "unat (hm_volume hm - p) * unat (word_of_nat r :: u64) < 2 ^ LENGTH(64)"
    unfolding d r by (rule le_less_trans) simp
  from unat_mult_bound [OF this] show ?thesis by (simp add: d r)
qed

lemma calcWindowSizeA_unat:
  assumes "mc_size cache \<le> n * rs" "0 < rs" "n \<le> 2 ^ 48"
  shows "unat (calcWindowSizeA cache rs) = 2 * (mc_size cache div rs div 2)"
    and "unat (calcWindowSizeA cache rs) \<le> n" and "unat (calcWindowSizeA cache rs) * rs \<le> mc_size cache"
proof -
  let ?q = "mc_size cache div rs"
  have q: "?q \<le> n" using assms div_le_mono [OF assms(1), of rs] by simp
  have "?q - ?q mod 2 \<le> 2 ^ 48" using q assms(3) by linarith
  also have "(2::nat) ^ 48 < 2 ^ LENGTH(64)" by simp
  finally have "?q - ?q mod 2 < 2 ^ LENGTH(64)" .
  from unat_of_nat_bound [OF this] show w: "unat (calcWindowSizeA cache rs) = 2 * (?q div 2)"
    unfolding calcWindowSizeA_def MemCache_Len_def Let_def by (simp only: minus_mod_eq_mult_div)
  have "2 * (?q div 2) \<le> ?q" by simp
  with w q show "unat (calcWindowSizeA cache rs) \<le> n" by linarith
  have "2 * (?q div 2) * rs \<le> ?q * rs" by (rule mult_le_mono1) simp
  then show "unat (calcWindowSizeA cache rs) * rs \<le> mc_size cache"
    unfolding w using div_times_less_eq_dividend [of "mc_size cache" rs] by linarith
qed

text \<open>
  What a window does: an early return has flushed at most a part of the window, and a completed
  window has flushed all of it and advanced by an even number of records inside the table.
\<close>

definition same_table :: "('pk, 'z) hashmap_scheme \<Rightarrow> ('pk, 'z) hashmap_scheme \<Rightarrow> bool" where
  "same_table hm hm0 \<longleftrightarrow>
     hm\<lparr>hm_data := [], hm_checkpoint := 0\<rparr> = hm0\<lparr>hm_data := [], hm_checkpoint := 0\<rparr>"

lemma same_table_simps:
  fixes hm :: "'pk hashmapA"
  assumes "same_table hm hm0"
  shows "hm_bl hm = hm_bl hm0" "hm_volume hm = hm_volume hm0" "hm_recordSize hm = hm_recordSize hm0"
    "hm_pkHash hm = hm_pkHash hm0" "hmA_half hm = hmA_half hm0" "eventsA U hm = eventsA U hm0"
  using assms by (cases hm; cases hm0; simp add: same_table_def eventsA_def)+

lemma same_table_update [simp]:
  "same_table (hm\<lparr>hm_data := d\<rparr>) hm0 \<longleftrightarrow> same_table hm hm0"
  "same_table (hm\<lparr>hm_checkpoint := c\<rparr>) hm0 \<longleftrightarrow> same_table hm hm0"
  "same_table (UpdateCheckpoint hm) hm0 \<longleftrightarrow> same_table hm hm0"
  "same_table hm hm"
  by (simp_all add: same_table_def UpdateCheckpoint_def)

lemma take_record_le_put:
  assumes "hm_wf U hm" "x < hm_V hm"
  shows "take (hm_recordSize hm) (le_PutUint64 (word_of_nat x)) = le_put (hm_recordSize hm) x"
proof -
  have "x < 2 ^ LENGTH(64)" using assms hm_V_bounds(1) [OF assms(1)] by simp
  then have "unat (word_of_nat x :: u64) = x" by (rule unat_of_nat_bound)
  then show ?thesis
    using hm_rs_bounds(2) [OF assms(1)] by (simp add: le_PutUint64_def take_le_put)
qed

lemma prePlot_window_open:
  assumes wf: "hmA_wf U hm" and p: "unat p < hm_V hm"
    and mem: "HashMapA_makeAvailableMemory (vmem E i) cache
      ((hm_volume hm - p) * word_of_nat (hm_recordSize hm)) = Inr cache1"
  defines "q \<equiv> p + calcWindowSizeA cache1 (hm_recordSize hm)"
  shows "cache1 = \<lparr>mc_size = mc_size cache1, mc_data = replicate (mc_size cache1) 0\<rparr>"
    "unat p \<le> unat q" "unat q \<le> hm_V hm" "even (unat q - unat p)"
    "(unat q - unat p) * hm_recordSize hm \<le> mc_size cache1" "0 < mc_size cache1"
    "even (unat p) \<Longrightarrow> unat p < unat q"
proof -
  have hw: "hm_wf U hm" using wf by (simp add: hmA_wf_def)
  note rs = hm_rs_bounds [OF hw] and V = hm_V_bounds [OF hw]
  have req: "unat ((hm_volume hm - p) * word_of_nat (hm_recordSize hm)) = (hm_V hm - unat p) * hm_recordSize hm"
    using p rs(2) by (intro requiredMem_unat [OF hw]) simp_all
  have "makeAvailableMemory (vmem E i) cache ((hm_volume hm - p) * word_of_nat (hm_recordSize hm))
      4294967296 268435456 = Inr cache1"
    using mem by (simp add: HashMapA_makeAvailableMemory_def maxPrePlotMem_def minPrePlotMem_def)
  from makeAvailableMemory_big [OF this] obtain n where
    n: "cache1 = cache\<lparr>mc_size := n, mc_data := replicate n 0\<rparr>"
    "n \<le> (hm_V hm - unat p) * hm_recordSize hm"
    "n = (hm_V hm - unat p) * hm_recordSize hm \<or> 268435456 \<le> n"
    unfolding req by blast
  show "cache1 = \<lparr>mc_size = mc_size cache1, mc_data = replicate (mc_size cache1) 0\<rparr>"
    by (cases cache) (simp add: n(1))
  have "hm_V hm - unat p \<le> 2 ^ 48" using V(1) by linarith
  moreover have "mc_size cache1 \<le> (hm_V hm - unat p) * hm_recordSize hm" using n(1,2) by simp
  ultimately have w: "unat (calcWindowSizeA cache1 (hm_recordSize hm)) = 2 * (n div hm_recordSize hm div 2)"
    "unat (calcWindowSizeA cache1 (hm_recordSize hm)) \<le> hm_V hm - unat p"
    "unat (calcWindowSizeA cache1 (hm_recordSize hm)) * hm_recordSize hm \<le> n"
    using calcWindowSizeA_unat [of cache1 "hm_V hm - unat p" "hm_recordSize hm"] rs(1) n(1) by auto
  have "unat p + unat (calcWindowSizeA cache1 (hm_recordSize hm)) < 2 ^ LENGTH(64)"
    using w(2) p V(1) by simp
  then have q: "unat q = unat p + unat (calcWindowSizeA cache1 (hm_recordSize hm))"
    unfolding q_def by (rule unat_add_bound)
  show "unat p \<le> unat q" "unat q \<le> hm_V hm" "even (unat q - unat p)"
    "(unat q - unat p) * hm_recordSize hm \<le> mc_size cache1"
    using q w p n(1) by simp_all
  have "0 < (hm_V hm - unat p) * hm_recordSize hm" using p rs(1) by simp
  with n(1,3) show "0 < mc_size cache1" by auto
  show "unat p < unat q" if ev: "even (unat p)"
  proof -
    have "even (hm_V hm)" using V(2) by (metis dvd_triv_left)
    with ev p have "2 \<le> hm_V hm - unat p" by (metis diff_is_0_eq dvd_diff_nat even_numeral
        linorder_not_le nat_dvd_not_less zero_less_diff)
    then have "2 * hm_recordSize hm \<le> (hm_V hm - unat p) * hm_recordSize hm" by (rule mult_le_mono1)
    with n(3) rs(2) have "2 * hm_recordSize hm \<le> n" by auto
    then have "2 \<le> n div hm_recordSize hm" using rs(1) by (simp add: less_eq_div_iff_mult_less_eq)
    then show ?thesis using q w(1) by simp
  qed
qed

lemma prePlot_window_cases:
  assumes wf: "hmA_wf U hm" and p: "unat p < hm_V hm"
    and w: "prePlot_window (U, E) i (hm, cache) p = ((hm', cache'), r)"
  shows "case r of
      Inl err \<Rightarrow> \<exists>d. hm' = hm\<lparr>hm_data := write_at (hm_data hm) (LenMetaInfo + unat p * hm_recordSize hm) d\<rparr>
    | Inr q \<Rightarrow> unat p \<le> unat q \<and> unat q \<le> hm_V hm \<and> even (unat q - unat p) \<and>
        (even (unat p) \<longrightarrow> unat p < unat q) \<and>
        window_filled (hm_recordSize hm) (unat p) (unat q) (eventsA U hm) cache' \<and>
        hm' = UpdateCheckpoint (hm\<lparr>hm_data := write_at (hm_data hm)
                (LenMetaInfo + unat p * hm_recordSize hm) (mc_data cache'), hm_checkpoint := p + 1\<rparr>)"
proof -
  have hw: "hm_wf U hm" and half: "hmA_half hm = hm_volume hm div 2"
    using wf by (auto simp: hmA_wf_def)
  then have off: "hm_offset hm = LenMetaInfo" by (simp add: hm_wf_def)
  have unchanged: "\<exists>d. hm = hm\<lparr>hm_data := write_at (hm_data hm) off d\<rparr>" for off
    by (intro exI [of _ "[]"]) (simp add: write_at_def)
  show ?thesis
  proof (cases "HashMapA_makeAvailableMemory (vmem E i) cache
      ((hm_volume hm - p) * word_of_nat (hm_recordSize hm))")
    case (Inl err)
    with w unchanged show ?thesis by (auto simp: prePlot_window_def)
  next
    case (Inr cache1)
    let ?q = "p + calcWindowSizeA cache1 (hm_recordSize hm)"
    note op = prePlot_window_open [OF wf p Inr]
    let ?fill = "prePlot_fill U (hm_bl hm) (hm_pkHash hm) (hm_volume hm div 2) (hm_recordSize hm)
      (fill_quit E i) p ?q [0..<unat (hm_volume hm)] cache1"
    show ?thesis
    proof (cases ?fill)
      case None
      with w Inr unchanged show ?thesis by (auto simp: prePlot_window_def)
    next
      case (Some cache2)
      have "cache2 = fold (write_event (hm_recordSize hm) (unat p) (unat ?q)) (eventsA U hm) cache1"
        using prePlot_fill_Some [OF op(2) _ Some] take_record_le_put [OF hw] unat_volume [OF hw]
        by (simp add: eventsA_def half)
      then have fill: "window_filled (hm_recordSize hm) (unat p) (unat ?q) (eventsA U hm) cache2"
        and size: "mc_size cache2 = mc_size cache1"
        using window_filled_writes [of "eventsA U hm", OF eventsA_length op(5)] op(1) by auto
      have cwf: "cache_wf cache2" using fill by (simp add: window_filled_def)
      obtain d n e where wr: "WriteToWriter (flush_quit E i) (flush_fault E i) cache2 (hm_data hm) 0
          (LenMetaInfo + unat p * hm_recordSize hm) (MemCache_Len cache2) = (d, n, e)"
        by (metis prod_cases3)
      have fl: "flushed (hm_data hm) (LenMetaInfo + unat p * hm_recordSize hm) (mc_data cache2) (d, n, e)"
        using WriteToWriter_flushed [OF cwf refl, of "hm_data hm" "LenMetaInfo + unat p * hm_recordSize hm"
            "flush_quit E i" "flush_fault E i"] wr op(6) size
        by (simp add: MemCache_Len_def)
      show ?thesis
      proof (cases e)
        case None
        with fl have "d = write_at (hm_data hm) (LenMetaInfo + unat p * hm_recordSize hm) (mc_data cache2)"
          by (auto simp: flushed_def)
        with w Inr Some wr None op fill show ?thesis by (auto simp: prePlot_window_def off Let_def)
      next
        case (Some err)
        with fl w Inr \<open>?fill = Some cache2\<close> wr show ?thesis
          by (auto simp: prePlot_window_def off Let_def flushed_def)
      qed
    qed
  qed
qed

section \<open>The whole pass\<close>

text \<open>
  The invariant at the head of the outer loop: every record before the start point is final, and
  the checkpoint stored in the header is not beyond the start point. The parameter of the pass is
  the environment and the table it was started on.
\<close>

definition preA_inv ::
  "('pk pocutil \<times> plot_env) \<times> 'pk hashmapA \<Rightarrow> 'pk hashmapA \<times> memcache \<Rightarrow> u64 \<Rightarrow> bool" where
  "preA_inv e s p \<longleftrightarrow>
     hmA_wf (fst (fst e)) (fst s) \<and> same_table (fst s) (snd e) \<and>
     tableA_upto (fst (fst e)) (fst s) (unat p) \<and> unat p \<le> hm_V (fst s) \<and> even (unat p) \<and>
     unat (ReadCheckpoint (fst s)) \<le> unat p"

definition preA_safe ::
  "('pk pocutil \<times> plot_env) \<times> 'pk hashmapA \<Rightarrow> 'pk hashmapA \<times> memcache \<Rightarrow> bool" where
  "preA_safe e s \<longleftrightarrow>
     hmA_wf (fst (fst e)) (fst s) \<and> same_table (fst s) (snd e) \<and>
     tableA_upto (fst (fst e)) (fst s) (unat (ReadCheckpoint (fst s))) \<and>
     unat (ReadCheckpoint (fst s)) \<le> hm_V (fst s)"

definition plot_env_ok :: "plot_env \<Rightarrow> bool" where
  "plot_env_ok E \<longleftrightarrow>
     (\<forall>i. \<exists>a. vmem E i = Inr a \<and> 268435456 \<le> a) \<and> (\<forall>i x. \<not> fill_quit E i x) \<and>
     (\<forall>i c. \<not> flush_quit E i c) \<and> (\<forall>i c. flush_fault E i c = None) \<and> (\<forall>i. seek_fault E i = None)"

lemma plot_env_ok_memory:
  assumes "plot_env_ok E"
  shows "\<exists>cache'. makeAvailableMemory (vmem E i) cache req 4294967296 268435456 = Inr cache'"
proof -
  obtain a where "vmem E i = Inr a" "268435456 \<le> a" using assms unfolding plot_env_ok_def by blast
  then show ?thesis by (auto simp: makeAvailableMemory_def Let_def)
qed

lemma hmA_wf_hdr: "hmA_wf U hm \<Longrightarrow> LenMetaInfo \<le> length (hm_data hm)"
  by (simp add: hmA_wf_def hm_wf_def)

lemma preA_window_step:
  assumes inv: "preA_inv ((U, E), hm0) (hm, cache) p" and p: "unat p < hm_V hm"
    and w: "prePlot_window (U, E) i (hm, cache) p = ((hm', cache'), Inr q)"
  shows "preA_inv ((U, E), hm0) (hm', cache') q"
proof -
  have wf: "hmA_wf U hm" and same: "same_table hm hm0" and t: "tableA_upto U hm (unat p)"
    and ev: "even (unat p)"
    using inv by (auto simp: preA_inv_def)
  let ?hm1 = "hm\<lparr>hm_data := write_at (hm_data hm) (LenMetaInfo + unat p * hm_recordSize hm) (mc_data cache')\<rparr>"
  have c: "unat p < unat q" "unat q \<le> hm_V hm" "even (unat q - unat p)"
    "window_filled (hm_recordSize hm) (unat p) (unat q) (eventsA U hm) cache'"
    "hm' = UpdateCheckpoint (?hm1\<lparr>hm_checkpoint := p + 1\<rparr>)"
    using prePlot_window_cases [OF wf p w] ev by auto
  have t1: "tableA_upto U ?hm1 (unat q)"
    using table_upto_flush [OF t c(4)] c(1) by simp
  have wf1: "hmA_wf U ?hm1"
    using wf by (intro hmA_wf_update(1)) (simp_all add: le_length_write_at del: length_write_at)
  have "ReadCheckpoint hm' = p + 1"
    using hmA_wf_hdr [OF wf1] by (simp add: c(5) ReadCheckpoint_UpdateCheckpoint)
  moreover have "unat (p + 1) = unat p + 1"
    using c(1,2) hm_V_bounds(1) [of U hm] wf unat_add_bound [of p 1] by (simp add: hmA_wf_def)
  moreover have "even (unat q)" using ev c(1,3) by (metis dvd_diffD less_imp_le_nat)
  moreover have "hmA_wf U hm'" unfolding c(5) by (intro hmA_wf_update wf1)
  moreover have "tableA_upto U hm' (unat q)" using t1 by (simp add: c(5))
  ultimately show ?thesis
    using c(1,2) same by (simp add: preA_inv_def c(5))
qed

lemma preA_window_fail:
  assumes inv: "preA_inv ((U, E), hm0) (hm, cache) p" and p: "unat p < hm_V hm"
    and w: "prePlot_window (U, E) i (hm, cache) p = ((hm', cache'), Inl err)"
  shows "preA_safe ((U, E), hm0) (hm', cache')"
proof -
  have wf: "hmA_wf U hm" and same: "same_table hm hm0" and t: "tableA_upto U hm (unat p)"
    and c: "unat (ReadCheckpoint hm) \<le> unat p" and le: "unat p \<le> hm_V hm"
    using inv by (auto simp: preA_inv_def)
  obtain d where d: "hm' = hm\<lparr>hm_data := write_at (hm_data hm) (LenMetaInfo + unat p * hm_recordSize hm) d\<rparr>"
    using prePlot_window_cases [OF wf p w] by auto
  have "hmA_wf U hm'"
    unfolding d using wf by (intro hmA_wf_update(1)) (simp_all add: le_length_write_at del: length_write_at)
  moreover have "tableA_upto U hm' (unat (ReadCheckpoint hm))"
    using table_upto_mono [OF table_upto_flush_part [OF t] c] by (simp add: d)
  moreover have "ReadCheckpoint hm' = ReadCheckpoint hm"
    using hmA_wf_hdr [OF wf] by (simp add: d)
  ultimately show ?thesis using same c le by (simp add: preA_safe_def d)
qed

lemma prePlot_window_returns:
  assumes wf: "hmA_wf U hm" and p: "unat p < hm_V hm" and E: "plot_env_ok E"
  shows "\<exists>s' q. prePlot_window (U, E) i (hm, cache) p = (s', Inr q)"
proof -
  from wf have hw: "hm_wf U hm" and off: "hm_offset hm = LenMetaInfo" by (auto simp: hmA_wf_def hm_wf_def)
  let ?rs = "hm_recordSize hm"
  obtain cache1 where m: "HashMapA_makeAvailableMemory (vmem E i) cache
      ((hm_volume hm - p) * word_of_nat ?rs) = Inr cache1"
    using plot_env_ok_memory [OF E]
    unfolding HashMapA_makeAvailableMemory_def maxPrePlotMem_def minPrePlotMem_def by blast
  let ?q = "p + calcWindowSizeA cache1 ?rs"
  note op = prePlot_window_open [OF wf p m]
  have nq: "\<not> fill_quit E i x" for x using E by (simp add: plot_env_ok_def)
  obtain cache2 where f: "prePlot_fill U (hm_bl hm) (hm_pkHash hm) (hm_volume hm div 2) ?rs
      (fill_quit E i) p ?q [0..<unat (hm_volume hm)] cache1 = Some cache2"
    using prePlot_fill_no_quit [of "fill_quit E i", OF nq] by blast
  have "cache2 = fold (write_event ?rs (unat p) (unat ?q)) (eventsA U hm) cache1"
    using prePlot_fill_Some [OF op(2) _ f] take_record_le_put [OF hw] unat_volume [OF hw] wf
    by (simp add: eventsA_def hmA_wf_def)
  then have "cache_wf cache2" "mc_size cache2 = mc_size cache1"
    using window_filled_writes [of "eventsA U hm", OF eventsA_length op(5)] op(1)
    by (auto simp: window_filled_def)
  then have "WriteToWriter (flush_quit E i) (flush_fault E i) cache2 (hm_data hm) 0 dst (MemCache_Len cache2)
      = (write_at (hm_data hm) dst (mc_data cache2), mc_size cache2, None)" for dst
    using op(6) E by (auto simp: MemCache_Len_def plot_env_ok_def intro!: WriteToWriter_complete)
  with m f show ?thesis by (auto simp: prePlot_window_def off Let_def)
qed

definition preA_live ::
  "('pk pocutil \<times> plot_env) \<times> 'pk hashmapA \<Rightarrow> 'pk hashmapA \<times> memcache \<Rightarrow> u64 \<Rightarrow> bool" where
  "preA_live e s p \<longleftrightarrow> preA_inv e s p \<and> plot_env_ok (snd (fst e))"

lemma preA_start:
  assumes "preA_inv e s p" "p < hm_volume (snd e)"
  shows "unat p < hm_V (fst s)"
  using assms unat_volume [of "fst (fst e)" "fst s"] same_table_simps(2) [of "fst s" "snd e"]
  by (auto simp: preA_inv_def hmA_wf_def word_less_nat_alt)

interpretation preA: progressing_pass
  "\<lambda>e. prePlot_window (fst e)" "\<lambda>e. hm_volume (snd e)" preA_inv preA_safe preA_live
proof (unfold_locales, goal_cases)
  case (1 e s p i s' p')
  then show ?case
    using preA_window_step [of "fst (fst e)" "snd (fst e)" "snd e" "fst s" "snd s" p i "fst s'" "snd s'" p']
      preA_start [OF 1(1,2)] by simp
next
  case (2 e s p i s' err)
  then show ?case
    using preA_window_fail [of "fst (fst e)" "snd (fst e)" "snd e" "fst s" "snd s" p i "fst s'" "snd s'" err]
      preA_start [OF 2(1,2)] by simp
next
  case (3 e s p)
  then show ?case by (auto simp: preA_inv_def preA_safe_def intro: table_upto_mono)
next
  case (4 e s p i)
  have inv: "preA_inv ((fst (fst e), snd (fst e)), snd e) (fst s, snd s) p"
    using 4 by (simp add: preA_live_def)
  have p: "unat p < hm_V (fst s)" using preA_start [OF inv] 4 by simp
  have wf: "hmA_wf (fst (fst e)) (fst s)" and ev: "even (unat p)" using inv by (auto simp: preA_inv_def)
  obtain s' q where w: "prePlot_window (fst (fst e), snd (fst e)) i (fst s, snd s) p = (s', Inr q)"
    using prePlot_window_returns [OF wf p] 4 unfolding preA_live_def by blast
  then have w': "prePlot_window (fst (fst e), snd (fst e)) i (fst s, snd s) p = ((fst s', snd s'), Inr q)"
    by simp
  have "p < q" using prePlot_window_cases [OF wf p w'] ev by (simp add: word_less_nat_alt)
  moreover have "preA_inv ((fst (fst e), snd (fst e)), snd e) (fst s', snd s') q"
    by (rule preA_window_step [OF inv p w'])
  ultimately show ?case using w 4 by (auto simp: preA_live_def)
next
  case (5 e s p)
  then show ?case by (simp add: preA_live_def)
qed

text \<open>The pass changes nothing of the header but the checkpoint.\<close>

interpretation preA_hdr: window_pass
  "\<lambda>e. prePlot_window (fst e)" "\<lambda>e. hm_volume (snd e)"
  "\<lambda>e s p. preA_inv e s p \<and> same_header (hm_data (fst s)) (hm_data (snd e))"
  "\<lambda>e s. same_header (hm_data (fst s)) (hm_data (snd e))"
proof (unfold_locales, goal_cases)
  case (1 e s p i s' p')
  then have inv: "preA_inv e s p" by simp
  have wf: "hmA_wf (fst (fst e)) (fst s)" using inv by (simp add: preA_inv_def)
  have "prePlot_window (fst (fst e), snd (fst e)) i (fst s, snd s) p = ((fst s', snd s'), Inr p')"
    using 1 by simp
  from prePlot_window_cases [OF wf preA_start [OF inv 1(2)] this] 1 preA.inv_step [OF inv 1(2,3)]
  show ?case by (auto intro!: same_header_UpdateCheckpoint same_header_data_write)
next
  case (2 e s p i s' err)
  then have inv: "preA_inv e s p" by simp
  have wf: "hmA_wf (fst (fst e)) (fst s)" using inv by (simp add: preA_inv_def)
  have "prePlot_window (fst (fst e), snd (fst e)) i (fst s, snd s) p = ((fst s', snd s'), Inl err)"
    using 2 by simp
  from prePlot_window_cases [OF wf preA_start [OF inv 2(2)] this] 2 show ?case
    by (auto intro!: same_header_data_write)
qed simp

text \<open>What an exit of \<open>prePlotWork\<close> leaves, and that it ends.\<close>

lemma prePlotWork_safe:
  assumes wf: "hmA_wf U hm" and t: "tableA_upto U hm (unat (ReadCheckpoint hm))"
    and ev: "even (unat (ReadCheckpoint hm))" and le: "unat (ReadCheckpoint hm) \<le> hm_V hm"
    and r: "prePlotWork U E fuel hm cache = Some ((hm', cache'), r)"
  shows "hmA_wf U hm' \<and> same_table hm' hm \<and> tableA_upto U hm' (unat (ReadCheckpoint hm')) \<and>
    unat (ReadCheckpoint hm') \<le> hm_V hm \<and>
    (r = None \<longrightarrow> ReadCheckpoint hm' = hm_volume hm)"
proof (cases "hm_volume hm div 50 = 0")
  case True
  with r wf t le show ?thesis by (auto simp: prePlotWork_def Let_def)
next
  case False
  have inv: "preA_inv ((U, E), hm) (hm, cache) (ReadCheckpoint hm)"
    using assms(1-4) by (simp add: preA_inv_def)
  from r False obtain hm1 c1 r1 where
    run: "run_windows fuel (prePlot_window (fst ((U, E), hm))) (hm_volume (snd ((U, E), hm))) 0
        (hm, cache) (ReadCheckpoint hm) = Some ((hm1, c1), r1)"
    and r1: "r1 = r" "if r = None then hm' = UpdateCheckpoint (hm1\<lparr>hm_checkpoint := hm_volume hm1\<rparr>) else hm' = hm1"
    by (auto simp: prePlotWork_def Let_def split: option.splits)
  from preA.run_safe [OF inv run] have s: "preA_safe ((U, E), hm) (hm1, c1)"
    and n: "r = None \<Longrightarrow> \<exists>p'. preA_inv ((U, E), hm) (hm1, c1) p' \<and> hm_volume hm \<le> p'"
    using r1 by auto
  show ?thesis
  proof (cases "r = None")
    case False
    with s r1 show ?thesis using same_table_simps(1) [of hm1 hm] by (auto simp: preA_safe_def)
  next
    case True
    from n [OF True] obtain p where p: "preA_inv ((U, E), hm) (hm1, c1) p" "hm_volume hm \<le> p" by blast
    have wf1: "hmA_wf U hm1" and same: "same_table hm1 hm" and t1: "tableA_upto U hm1 (unat p)"
      using p by (auto simp: preA_inv_def)
    have "unat (hm_volume hm) \<le> unat p" using p(2) by (simp add: word_le_nat_alt)
    then have "tableA_upto U hm1 (unat (hm_volume hm))" by (rule table_upto_mono [OF t1])
    moreover have "unat (hm_volume hm) = hm_V hm" using wf unat_volume [of U hm] by (simp add: hmA_wf_def)
    ultimately show ?thesis
      using True r1(2) wf1 same hmA_wf_hdr [OF wf1] same_table_simps(2) [OF same]
      by (simp add: ReadCheckpoint_UpdateCheckpoint hmA_wf_update)
  qed
qed

lemma prePlotWork_header:
  assumes wf: "hmA_wf U hm" and t: "tableA_upto U hm (unat (ReadCheckpoint hm))"
    and ev: "even (unat (ReadCheckpoint hm))" and le: "unat (ReadCheckpoint hm) \<le> hm_V hm"
    and r: "prePlotWork U E fuel hm cache = Some ((hm', cache'), r)"
  shows "same_header (hm_data hm') (hm_data hm)"
proof (cases "hm_volume hm div 50 = 0")
  case True
  with r hmA_wf_hdr [OF wf] show ?thesis by (auto simp: prePlotWork_def Let_def intro: same_header_refl)
next
  case False
  have inv: "preA_inv ((U, E), hm) (hm, cache) (ReadCheckpoint hm) \<and>
      same_header (hm_data (fst (hm, cache))) (hm_data (snd ((U, E), hm)))"
    using assms(1-4) hmA_wf_hdr [OF wf] by (simp add: preA_inv_def same_header_refl)
  from r False obtain hm1 c1 where
    run: "run_windows fuel (prePlot_window (fst ((U, E), hm))) (hm_volume (snd ((U, E), hm))) 0
        (hm, cache) (ReadCheckpoint hm) = Some ((hm1, c1), r)"
    and r1: "hm' = UpdateCheckpoint (hm1\<lparr>hm_checkpoint := hm_volume hm1\<rparr>) \<or> hm' = hm1"
    by (auto simp: prePlotWork_def Let_def split: option.splits)
  from preA_hdr.run_safe [OF inv run] r1 show ?thesis
    by (auto intro!: same_header_UpdateCheckpoint)
qed

lemma prePlotWork_ends:
  assumes wf: "hmA_wf U hm" and t: "tableA_upto U hm (unat (ReadCheckpoint hm))"
    and ev: "even (unat (ReadCheckpoint hm))" and le: "unat (ReadCheckpoint hm) \<le> hm_V hm"
    and E: "plot_env_ok E" and V: "50 \<le> hm_V hm" and fuel: "hm_V hm < fuel"
  shows "\<exists>hm' cache'. prePlotWork U E fuel hm cache = Some ((hm', cache'), None)"
proof -
  have inv: "preA_live ((U, E), hm) (hm, cache) (ReadCheckpoint hm)"
    using assms by (simp add: preA_live_def preA_inv_def)
  have v: "unat (hm_volume hm) = hm_V hm" using unat_volume [of U hm] wf by (simp add: hmA_wf_def)
  then have "unat (hm_volume (snd ((U, E), hm))) - unat (ReadCheckpoint hm) < fuel" using fuel by simp
  from preA.run_ends [OF inv this, of 0] obtain s' where
    "run_windows fuel (prePlot_window (U, E)) (hm_volume hm) 0 (hm, cache) (ReadCheckpoint hm) = Some (s', None)"
    by auto
  moreover have "hm_volume hm div 50 \<noteq> 0"
  proof
    assume "hm_volume hm div 50 = 0"
    then have "unat (hm_volume hm div 50) = 0" by simp
    then show False using V v by (simp add: unat_div)
  qed
  ultimately show ?thesis by (cases s') (simp add: prePlotWork_def Let_def)
qed

text \<open>
  A window moves by an even number of records, so a pass that starts at an odd record never reaches
  the end of the table, whose size is even: its last window is empty and is repeated for ever.
\<close>

lemma prePlot_windows_odd:
  assumes "hmA_wf U hm" "same_table hm hm0" "unat p < hm_V hm" "odd (unat p)" "plot_env_ok E"
  shows "run_windows fuel (prePlot_window (U, E)) (hm_volume hm0) i (hm, cache) p = None"
  using assms
proof (induction fuel arbitrary: i hm cache p)
  case (Suc fuel)
  note wf = Suc.prems(1)
  have hw: "hm_wf U hm" using wf by (simp add: hmA_wf_def)
  obtain hm' cache' q where w: "prePlot_window (U, E) i (hm, cache) p = ((hm', cache'), Inr q)"
    using prePlot_window_returns [OF wf Suc.prems(3,5), of i cache] by auto
  from prePlot_window_cases [OF wf Suc.prems(3) w] have q: "unat p \<le> unat q" "unat q \<le> hm_V hm"
    "even (unat q - unat p)"
    "hm' = UpdateCheckpoint (hm\<lparr>hm_data := write_at (hm_data hm)
        (LenMetaInfo + unat p * hm_recordSize hm) (mc_data cache'), hm_checkpoint := p + 1\<rparr>)"
    by auto
  have odd: "odd (unat q)" using q(1,3) Suc.prems(4) by simp
  have "even (hm_V hm)" using hm_V_bounds(2) [OF hw] by (metis dvd_triv_left)
  with q(2) odd have "unat q < hm_V hm" by (metis le_neq_implies_less)
  moreover have wf': "hmA_wf U hm'" unfolding q(4)
    using wf by (intro hmA_wf_update) (simp_all add: le_length_write_at del: length_write_at)
  moreover have same: "same_table hm' hm0" using Suc.prems(2) by (simp add: q(4))
  moreover have "hm_V hm' = hm_V hm" by (simp add: q(4))
  ultimately have "run_windows fuel (prePlot_window (U, E)) (hm_volume hm0) (Suc i) (hm', cache') q = None"
    using odd Suc.prems(5) by (intro Suc.IH) auto
  with w show ?case
    using Suc.prems(2,3) unat_volume [OF hw] by (auto simp: same_table_simps(2) word_less_nat_alt)
qed simp

lemma prePlotWork_odd:
  assumes "hmA_wf U hm" "unat (ReadCheckpoint hm) < hm_V hm" "odd (unat (ReadCheckpoint hm))"
    "plot_env_ok E" "50 \<le> hm_V hm"
  shows "prePlotWork U E fuel hm cache = None"
proof -
  have "hm_volume hm div 50 \<noteq> 0"
  proof
    assume "hm_volume hm div 50 = 0"
    then have "unat (hm_volume hm div 50) = 0" by simp
    then show False using assms(1,5) unat_volume [of U hm] by (simp add: unat_div hmA_wf_def)
  qed
  then show ?thesis
    using prePlot_windows_odd [OF assms(1) _ assms(2-4)] by (simp add: prePlotWork_def Let_def)
qed

section \<open>What a complete table A says\<close>

text \<open>
  \<open>preimages\<close> are the \<open>x\<close> with \<open>P(x) = y\<close>. A record of the table is zero or a preimage of its key,
  and every key with a preimage has one.
\<close>

definition preimages :: "'pk pocutil \<Rightarrow> nat \<Rightarrow> bytes \<Rightarrow> u64 \<Rightarrow> nat set" where
  "preimages U bl h y = {x. x < 2 ^ bl \<and> PFun U (word_of_nat x) bl h = y}"

lemma eventsA_iff:
  assumes wf: "hmA_wf U hm" and y: "unat y < hm_V hm"
  shows "(unat (slotA U (hmA_half hm) (hm_bl hm) y), b) \<in> set (eventsA U hm) \<longleftrightarrow>
    (\<exists>x \<in> preimages U (hm_bl hm) (hm_pkHash hm) y. b = le_put (hm_recordSize hm) x)"
proof -
  have ok: "pocutil_ok U (hm_bl hm)" using wf by (simp add: hmA_wf_def hm_wf_def)
  have eq: "unat (slotA U (hmA_half hm) (hm_bl hm) y) =
      unat (slotA U (hmA_half hm) (hm_bl hm) (PFun U x (hm_bl hm) h)) \<longleftrightarrow> PFun U x (hm_bl hm) h = y" for x h
  proof -
    have "unat (PFun U x (hm_bl hm) h) < hm_V hm" using ok by (simp add: pocutil_ok_def)
    from slotA_inj [OF ok unat_half [OF wf] y this] show ?thesis by (metis unsigned_word_eqI)
  qed
  show ?thesis by (auto simp: eventsA_def preimages_def eq)
qed

lemma tableA_meaning:
  assumes wf: "hmA_wf U hm" and t: "tableA_upto U hm (hm_V hm)" and y: "unat y < hm_V hm"
  defines "pre \<equiv> preimages U (hm_bl hm) (hm_pkHash hm) y"
  shows "\<exists>v. HashMapA_Get U hm y = Inr v \<and>
    (if pre = {} then v = replicate (hm_recordSize hm) 0
     else \<exists>x \<in> pre. v = le_put (hm_recordSize hm) x)"
proof -
  let ?rs = "hm_recordSize hm" and ?k = "unat (slotA U (hmA_half hm) (hm_bl hm) y)"
  have ok: "pocutil_ok U (hm_bl hm)" using wf by (simp add: hmA_wf_def hm_wf_def)
  have k: "?k < hm_V hm" by (rule slotA_bound [OF ok unat_half [OF wf] y])
  have "hm_full ?rs hm" using t by (simp add: table_upto_def hm_full_def)
  then have get: "HashMapA_Get U hm y = Inr (content_of ?rs (eventsA U hm) ?k)"
    using HashMapA_Get_eq [OF wf _ y] t k by (simp add: table_upto_def)
  note ev = eventsA_iff [OF wf y, folded pre_def]
  show ?thesis
  proof (cases "pre = {}")
    case True
    then have "?k \<notin> fst ` set (eventsA U hm)" using ev by auto
    then have "map_of (rev (eventsA U hm)) ?k = None" by (simp add: map_of_eq_None_iff)
    with get True show ?thesis by (simp add: content_of_def)
  next
    case False
    then obtain b where "(?k, b) \<in> set (eventsA U hm)" using ev by blast
    from content_of_last [OF this] get ev False show ?thesis by auto
  qed
qed

end
