(* ===== verification/Plot_Work.thy ===== *)
theory Plot_Work
  imports Pre_Plot
begin

text \<open>
  The second pass of plotting, \<open>MassDBV1.plotWork\<close> of
  \<open>poc/engine/massdb/massdb.v1/plot.go\<close>: it reads table A from its file through a buffered reader,
  two neighbouring records at a time, and fills table B, which maps \<open>Z\<close> to a pair \<open>(X, X')\<close> with
  \<open>FB(X, X') = Z\<close>.
\<close>

section \<open>The buffered reader\<close>

text \<open>
  \<open>bufio.Reader\<close> of the standard library: the bytes it has buffered and the rest of the file.
  \<open>Read\<close> takes its bytes from the buffer alone, and refills the buffer only when it is empty, so
  it may return fewer bytes than asked for.
\<close>

record bufrd =
  rd_buf :: bytes
  rd_rest :: bytes

definition bufio_Read :: "nat \<Rightarrow> bufrd \<Rightarrow> nat \<Rightarrow> bytes \<times> bufrd" where
  "bufio_Read sz rd n =
     (let rd1 = (if rd_buf rd = [] then \<lparr>rd_buf = take sz (rd_rest rd), rd_rest = drop sz (rd_rest rd)\<rparr>
                 else rd)
      in (take n (rd_buf rd1), rd1\<lparr>rd_buf := drop n (rd_buf rd1)\<rparr>))"

text \<open>\<open>bufRdA.Read(bs)\<close>: a short read leaves the tail of \<open>bs\<close> as it was.\<close>

definition read_into :: "nat \<Rightarrow> bufrd \<Rightarrow> bytes \<Rightarrow> bytes \<times> bufrd" where
  "read_into sz rd bs =
     (case bufio_Read sz rd (length bs) of (got, rd') \<Rightarrow> (got @ drop (length got) bs, rd'))"

section \<open>The pass\<close>

definition bytesEqualZero :: "nat \<Rightarrow> bytes \<Rightarrow> bool" where
  "bytesEqualZero recordSize bs = list_all (\<lambda>i. bs ! i = 0) [0..<recordSize]"

definition cache_pair ::
  "nat \<Rightarrow> u64 \<Rightarrow> u64 \<Rightarrow> u64 \<Rightarrow> bytes \<Rightarrow> bytes \<Rightarrow> memcache \<Rightarrow> memcache" where
  "cache_pair recordSize doubleStartPoint doubleEndPoint z x xp cache =
     (if doubleStartPoint \<le> z \<and> z < doubleEndPoint then
        (let target = unat (z - doubleStartPoint) * recordSize * 2 in
         fst (MemCache_WriteAt (fst (MemCache_WriteAt cache x target)) xp (target + recordSize)))
      else cache)"

fun plot_fill ::
  "'pk pocutil \<Rightarrow> nat \<Rightarrow> bytes \<Rightarrow> nat \<Rightarrow> (nat \<Rightarrow> bool) \<Rightarrow> u64 \<Rightarrow> u64 \<Rightarrow> nat list \<Rightarrow> bytes \<Rightarrow> bufrd
     \<Rightarrow> memcache \<Rightarrow> (memcache \<times> bytes) option" where
  "plot_fill U bl pkHash recordSize quit dstart dend [] bs rd cache = Some (cache, bs)"
| "plot_fill U bl pkHash recordSize quit dstart dend (y # ys) bs rd cache =
     (let (bs', rd') = read_into minMapABufMem rd bs;
          x = take recordSize bs'; xp = drop recordSize bs';
          cache' = (if \<not> bytesEqualZero recordSize x \<and> \<not> bytesEqualZero recordSize xp
                    then cache_pair recordSize dstart dend (FBFun U xp x bl pkHash) xp x
                           (cache_pair recordSize dstart dend (FBFun U x xp bl pkHash) x xp cache)
                    else cache) in
      if y mod waitQuitPlotInterval = 0 \<and> quit y then None
      else plot_fill U bl pkHash recordSize quit dstart dend ys bs' rd' cache')"

definition calcWindowSizeB :: "memcache \<Rightarrow> nat \<Rightarrow> u64" where
  "calcWindowSizeB cache recordSize = word_of_nat (MemCache_Len cache div recordSize div 4)"

text \<open>
  One window. The state is table B, the cache and the record buffer \<open>bs\<close>, which the source allocates
  once for all windows.
\<close>

definition plot_window ::
  "('pk pocutil \<times> plot_env) \<times> 'pk hashmapA \<Rightarrow> nat \<Rightarrow> 'pk hashmap \<times> memcache \<times> bytes \<Rightarrow> u64
     \<Rightarrow> ('pk hashmap \<times> memcache \<times> bytes) \<times> (db_error + u64)" where
  "plot_window e i s startPoint =
     (let ((U, E), hmA) = e; (hmB, cache, bs) = s;
          recordSize = RecordSize U (hm_bl hmA);
          half = hm_volume hmB div 2 in
      case HashMapB_makeAvailableMemory (vmem E i) cache
             (push_bit 2 ((half - startPoint) * word_of_nat recordSize)) of
        Inl err \<Rightarrow> ((hmB, cache, bs), Inl err)
      | Inr cache1 \<Rightarrow>
        (let endPoint = startPoint + calcWindowSizeB cache1 recordSize;
             doubleStartPoint = push_bit 1 startPoint;
             doubleEndPoint = push_bit 1 endPoint in
         case seek_fault E i of
           Some err \<Rightarrow> ((hmB, cache1, bs), Inl err)
         | None \<Rightarrow>
           (case plot_fill U (hm_bl hmA) (hm_pkHash hmA) recordSize (fill_quit E i)
                   doubleStartPoint doubleEndPoint [0..<unat half] bs
                   \<lparr>rd_buf = [], rd_rest = drop (hm_offset hmA) (hm_data hmA)\<rparr> cache1 of
              None \<Rightarrow> ((hmB, cache1, bs), Inl ErrStopPlotting)
            | Some (cache2, bs2) \<Rightarrow>
              (case WriteToWriter (flush_quit E i) (flush_fault E i) cache2 (hm_data hmB) 0
                      (hm_offset hmB + unat startPoint * recordSize * 4) (MemCache_Len cache2) of
                 (d, n, Some err) \<Rightarrow> ((hmB\<lparr>hm_data := d\<rparr>, cache2, bs2), Inl err)
               | (d, n, None) \<Rightarrow>
                 ((UpdateCheckpoint (hmB\<lparr>hm_data := d, hm_checkpoint := startPoint + 1\<rparr>), cache2, bs2),
                  Inr endPoint)))))"

definition plotWork ::
  "'pk pocutil \<Rightarrow> plot_env \<Rightarrow> nat \<Rightarrow> 'pk hashmapA \<Rightarrow> 'pk hashmap \<Rightarrow> memcache
     \<Rightarrow> (('pk hashmap \<times> memcache) \<times> db_error option) option" where
  "plotWork U E fuel hmA hmB cache =
     (let half = hm_volume hmB div 2;
          bs = replicate (RecordSize U (hm_bl hmA) * 2) 0;
          logCheckpointInterval = hm_volume hmB div (50 * 2);
          checkpoint = ReadCheckpoint hmB in
      if logCheckpointInterval = 0 then Some ((hmB, cache), Some PanicDivideByZero)
      else case run_windows fuel (plot_window ((U, E), hmA)) half 0 (hmB, cache, bs) checkpoint of
        None \<Rightarrow> None
      | Some ((hmB', cache', bs'), Some err) \<Rightarrow> Some ((hmB', cache'), Some err)
      | Some ((hmB', cache', bs'), None) \<Rightarrow>
          Some ((UpdateCheckpoint (hmB'\<lparr>hm_checkpoint := half\<rparr>), cache'), None))"

section \<open>Reading records through the buffer\<close>

text \<open>
  A reader that still has \<open>n\<close> records of width \<open>w\<close> to deliver, none of which crosses the end of a
  buffer: the buffer size is a multiple of the width, or all of them fit one buffer.
\<close>

definition reader_ok :: "nat \<Rightarrow> nat \<Rightarrow> bufrd \<Rightarrow> nat \<Rightarrow> bool" where
  "reader_ok sz w rd n \<longleftrightarrow>
     n * w \<le> length (rd_buf rd @ rd_rest rd) \<and>
     (n * w \<le> length (rd_buf rd) \<or> rd_buf rd = [] \<and> n * w \<le> sz \<or>
      w dvd sz \<and> w dvd length (rd_buf rd))"

lemma reader_ok_start:
  assumes "n * w \<le> length dat" "w dvd sz \<or> n * w \<le> sz"
  shows "reader_ok sz w \<lparr>rd_buf = [], rd_rest = dat\<rparr> n"
  using assms by (auto simp: reader_ok_def)

lemma reader_ok_read:
  assumes ok: "reader_ok sz w rd (Suc n)" and w: "0 < w" "0 < sz" and bs: "length bs = w"
  obtains rd' where "read_into sz rd bs = (take w (rd_buf rd @ rd_rest rd), rd')"
    "rd_buf rd' @ rd_rest rd' = drop w (rd_buf rd @ rd_rest rd)" "reader_ok sz w rd' n"
proof -
  define b where "b = (if rd_buf rd = [] then take sz (rd_rest rd) else rd_buf rd)"
  define r where "r = (if rd_buf rd = [] then drop sz (rd_rest rd) else rd_rest rd)"
  have br: "b @ r = rd_buf rd @ rd_rest rd" by (simp add: b_def r_def)
  have stream: "Suc n * w \<le> length b + length r"
    using ok br by (metis length_append reader_ok_def)
  have b: "Suc n * w \<le> length b \<or> w dvd sz \<and> w dvd length b \<and> w \<le> length b"
  proof (cases "rd_buf rd = []")
    case True
    with ok w have "Suc n * w \<le> sz \<or> w dvd sz" by (auto simp: reader_ok_def)
    then show ?thesis
    proof
      assume "Suc n * w \<le> sz"
      with True ok show ?thesis by (auto simp: b_def reader_ok_def)
    next
      assume "w dvd sz"
      with w have "w \<le> sz" by (simp add: dvd_imp_le)
      show ?thesis
      proof (cases "sz \<le> length (rd_rest rd)")
        case sz: True
        then have "length b = sz" using True by (simp add: b_def)
        with \<open>w dvd sz\<close> \<open>w \<le> sz\<close> show ?thesis by simp
      next
        case False
        with True ok show ?thesis by (simp add: b_def reader_ok_def)
      qed
    qed
  next
    case False
    then have "b = rd_buf rd" "0 < length b" by (auto simp: b_def)
    with ok False show ?thesis by (auto simp: reader_ok_def dest: dvd_imp_le)
  qed
  then have wb: "w \<le> length b" by auto
  let ?rd' = "\<lparr>rd_buf = drop w b, rd_rest = r\<rparr>"
  have "bufio_Read sz rd (length bs) = (take w b, ?rd')"
    by (cases rd) (simp add: bufio_Read_def b_def r_def bs)
  then have "read_into sz rd bs = (take w (rd_buf rd @ rd_rest rd), ?rd')"
    using wb bs by (simp add: read_into_def flip: br)
  moreover have "rd_buf ?rd' @ rd_rest ?rd' = drop w (rd_buf rd @ rd_rest rd)"
    using wb by (simp flip: br)
  moreover have "reader_ok sz w ?rd' n"
    using b stream wb by (auto simp: reader_ok_def dvd_diff_nat)
  ultimately show ?thesis by (rule that)
qed

fun records :: "nat \<Rightarrow> nat \<Rightarrow> bytes \<Rightarrow> bytes list" where
  "records w 0 dat = []"
| "records w (Suc n) dat = take w dat # records w n (drop w dat)"

lemma records_eq: "records w n dat = map (\<lambda>k. read_at dat (k * w) w) [0..<n]"
proof (induction n arbitrary: dat)
  case (Suc n)
  have "[0..<Suc n] = 0 # map Suc [0..<n]" by (metis map_Suc_upt upt_conv_Cons zero_less_Suc)
  then show ?case
    by (simp add: Suc.IH read_at_def add.commute del: upt_Suc)
qed simp

section \<open>What the pass should leave in table B\<close>

definition pair_events :: "'pk pocutil \<Rightarrow> nat \<Rightarrow> bytes \<Rightarrow> nat \<Rightarrow> bytes \<Rightarrow> (nat \<times> bytes) list" where
  "pair_events U bl h rs r =
     (let x = take rs r; xp = drop rs r in
      if \<not> bytesEqualZero rs x \<and> \<not> bytesEqualZero rs xp
      then [(unat (FBFun U x xp bl h), x @ xp), (unat (FBFun U xp x bl h), xp @ x)] else [])"

definition eventsB :: "'pk pocutil \<Rightarrow> 'pk hashmapA \<Rightarrow> (nat \<times> bytes) list" where
  "eventsB U hmA =
     concat (map (\<lambda>y. pair_events U (hm_bl hmA) (hm_pkHash hmA) (hm_recordSize hmA)
                       (record_of hmA (2 * hm_recordSize hmA) y)) [0..<hm_V hmA div 2])"

abbreviation tableB_upto :: "'pk pocutil \<Rightarrow> 'pk hashmapA \<Rightarrow> 'pk hashmap \<Rightarrow> nat \<Rightarrow> bool" where
  "tableB_upto U hmA hmB n \<equiv> table_upto (2 * hm_recordSize hmA) (eventsB U hmA) hmB n"

lemma pair_events_length:
  assumes "(k, b) \<in> set (pair_events U bl h rs r)" "length r = 2 * rs"
  shows "length b = 2 * rs"
  using assms by (auto simp: pair_events_def Let_def split: if_splits)

lemma cache_pair_event:
  assumes wf: "cache_wf c" and fit: "(unat de - unat ds) * (2 * rs) \<le> mc_size c"
    and len: "length x = rs" "length xp = rs"
  shows "cache_pair rs ds de z x xp c = write_event (2 * rs) (unat ds) (unat de) (unat z, x @ xp) c"
proof (cases "ds \<le> z \<and> z < de")
  case False
  then show ?thesis by (auto simp: cache_pair_def write_event_def word_le_nat_alt word_less_nat_alt)
next
  case True
  then have le: "unat ds \<le> unat z" "unat z < unat de" by (simp_all add: word_le_nat_alt word_less_nat_alt)
  define t where "t = (unat z - unat ds) * (2 * rs)"
  have "unat (z - ds) * rs * 2 = t" using True by (simp add: unat_sub t_def)
  moreover have t: "t + 2 * rs \<le> mc_size c"
    unfolding t_def using record_end [of "unat z - unat ds" "unat de - unat ds" "2 * rs"] le fit by linarith
  have "mc_data (fst (MemCache_WriteAt (fst (MemCache_WriteAt c x t)) xp (t + rs))) =
      mc_data (fst (MemCache_WriteAt c (x @ xp) t))"
    using wf t len write_at_write_at_adjacent [of "mc_data c" t x xp]
    by (simp add: WriteAt_inside cache_wf_WriteAt)
  then have "fst (MemCache_WriteAt (fst (MemCache_WriteAt c x t)) xp (t + rs)) =
      fst (MemCache_WriteAt c (x @ xp) t)"
    by (simp add: memcache.equality)
  ultimately have "cache_pair rs ds de z x xp c = fst (MemCache_WriteAt c (x @ xp) t)"
    using True by (simp add: cache_pair_def)
  then show ?thesis using le by (simp add: write_event_def t_def)
qed

lemma write_event_keeps:
  "cache_wf c \<Longrightarrow> cache_wf (write_event w s e ev c)" "mc_size (write_event w s e ev c) = mc_size c"
  by (simp_all add: write_event_def cache_wf_WriteAt)

lemma plot_fill_Some:
  assumes "cache_wf cache" "(unat de - unat ds) * (2 * rs) \<le> mc_size cache" "0 < rs"
    "reader_ok minMapABufMem (2 * rs) rd (length ys)" "length bs = 2 * rs"
    "plot_fill U bl h rs quit ds de ys bs rd cache = Some (cache', bs')"
  shows "cache' = fold (write_event (2 * rs) (unat ds) (unat de))
      (concat (map (pair_events U bl h rs) (records (2 * rs) (length ys) (rd_buf rd @ rd_rest rd)))) cache \<and>
    length bs' = 2 * rs"
  using assms
proof (induction ys arbitrary: bs rd cache)
  case (Cons y ys)
  let ?w = "2 * rs" and ?S = "rd_buf rd @ rd_rest rd"
  let ?r = "take ?w ?S"
  obtain rd' where rd': "read_into minMapABufMem rd bs = (?r, rd')"
    "rd_buf rd' @ rd_rest rd' = drop ?w ?S" "reader_ok minMapABufMem ?w rd' (length ys)"
    using reader_ok_read [of minMapABufMem ?w rd "length ys" bs] Cons.prems(3,4,5)
    by (auto simp: minMapABufMem_def)
  have "Suc (length ys) * ?w \<le> length ?S" using Cons.prems(4) unfolding reader_ok_def by simp
  then have lr: "length ?r = ?w" by (simp only: length_take mult_Suc min_absorb2 add_leD1)
  let ?c = "fold (write_event ?w (unat ds) (unat de)) (pair_events U bl h rs ?r) cache"
  have c: "cache_wf ?c" "(unat de - unat ds) * ?w \<le> mc_size ?c"
    using Cons.prems(1,2) by (simp_all add: pair_events_def Let_def write_event_keeps)
  have step: "(if \<not> bytesEqualZero rs (take rs ?r) \<and> \<not> bytesEqualZero rs (drop rs ?r)
      then cache_pair rs ds de (FBFun U (drop rs ?r) (take rs ?r) bl h) (drop rs ?r) (take rs ?r)
             (cache_pair rs ds de (FBFun U (take rs ?r) (drop rs ?r) bl h) (take rs ?r) (drop rs ?r) cache)
      else cache) = ?c"
    using Cons.prems(1,2) lr by (simp add: pair_events_def Let_def cache_pair_event write_event_keeps)
  have "plot_fill U bl h rs quit ds de ys ?r rd' ?c = Some (cache', bs')"
    using Cons.prems(6) unfolding plot_fill.simps rd'(1) Let_def prod.case step by (simp split: if_splits)
  from Cons.IH [OF c Cons.prems(3) rd'(3) lr this] show ?case
    unfolding rd'(2) by (simp del: take_append drop_append)
qed simp

lemma plot_fill_no_quit:
  "(\<And>y. \<not> quit y) \<Longrightarrow> \<exists>c. plot_fill U bl h rs quit ds de ys bs rd cache = Some c"
  by (induction ys arbitrary: bs rd cache) (simp_all add: Let_def split: prod.split)

section \<open>One window\<close>

text \<open>
  The two tables of a plot, with table A complete in its file. The last condition is on the size of
  the read buffer: it holds a whole number of record pairs, or all of table A.
\<close>

definition buffer_aligned :: "nat \<Rightarrow> nat \<Rightarrow> bool" where
  "buffer_aligned rs V \<longleftrightarrow> 2 * rs dvd minMapABufMem \<or> V * rs \<le> minMapABufMem"

definition plotB_ok :: "'pk pocutil \<Rightarrow> 'pk hashmapA \<Rightarrow> 'pk hashmap \<Rightarrow> bool" where
  "plotB_ok U hmA hmB \<longleftrightarrow>
     hmA_wf U hmA \<and> hm_full (hm_recordSize hmA) hmA \<and> hm_wf U hmB \<and> hm_bl hmB = hm_bl hmA \<and>
     buffer_aligned (hm_recordSize hmA) (hm_V hmA)"

lemma plotB_ok_simps:
  assumes "plotB_ok U hmA hmB"
  shows "hm_wf U hmA" "hm_offset hmA = LenMetaInfo" "hm_offset hmB = LenMetaInfo"
    "RecordSize U (hm_bl hmA) = hm_recordSize hmA" "hm_recordSize hmB = hm_recordSize hmA"
    "unat (hm_volume hmB div 2) = hm_V hmA div 2" "1 \<le> hm_recordSize hmA" "hm_recordSize hmA \<le> 6"
    "hm_V hmA \<le> 2 ^ 48" "2 * (hm_V hmA div 2) = hm_V hmA"
proof -
  have wf: "hm_wf U hmA" "hm_wf U hmB" "hm_bl hmB = hm_bl hmA"
    using assms by (auto simp: plotB_ok_def hmA_wf_def)
  then show "hm_wf U hmA" "hm_offset hmA = LenMetaInfo" "hm_offset hmB = LenMetaInfo"
    "RecordSize U (hm_bl hmA) = hm_recordSize hmA" "hm_recordSize hmB = hm_recordSize hmA"
    by (simp_all add: hm_wf_def)
  show "unat (hm_volume hmB div 2) = hm_V hmA div 2"
    using unat_volume [OF wf(2)] wf(3) by (simp add: unat_div)
  show "1 \<le> hm_recordSize hmA" "hm_recordSize hmA \<le> 6" using hm_rs_bounds [OF wf(1)] by auto
  show "hm_V hmA \<le> 2 ^ 48" "2 * (hm_V hmA div 2) = hm_V hmA" using hm_V_bounds [OF wf(1)] by auto
qed

lemma plotB_ok_update:
  "plotB_ok U hmA hmB \<Longrightarrow> length (hm_data hmB) \<le> length d \<Longrightarrow> plotB_ok U hmA (hmB\<lparr>hm_data := d\<rparr>)"
  "plotB_ok U hmA hmB \<Longrightarrow> plotB_ok U hmA (hmB\<lparr>hm_checkpoint := c\<rparr>)"
  "plotB_ok U hmA hmB \<Longrightarrow> plotB_ok U hmA (UpdateCheckpoint hmB)"
  by (auto simp: plotB_ok_def hm_wf_data)

lemma recordsA:
  assumes "plotB_ok U hmA hmB"
  shows "records (2 * hm_recordSize hmA) (hm_V hmA div 2) (drop LenMetaInfo (hm_data hmA)) =
      map (record_of hmA (2 * hm_recordSize hmA)) [0..<hm_V hmA div 2]"
    and "reader_ok minMapABufMem (2 * hm_recordSize hmA)
      \<lparr>rd_buf = [], rd_rest = drop LenMetaInfo (hm_data hmA)\<rparr> (hm_V hmA div 2)"
    and "(k, b) \<in> set (eventsB U hmA) \<Longrightarrow> length b = 2 * hm_recordSize hmA"
proof -
  let ?rs = "hm_recordSize hmA" and ?h = "hm_V hmA div 2"
  show "records (2 * ?rs) ?h (drop LenMetaInfo (hm_data hmA)) = map (record_of hmA (2 * ?rs)) [0..<?h]"
    by (simp add: records_eq record_of_def read_at_def add.commute)
  have n: "?h * (2 * ?rs) = hm_V hmA * ?rs"
    using plotB_ok_simps(10) [OF assms] by (metis mult.assoc mult.commute)
  have full: "?h * (2 * ?rs) \<le> length (hm_data hmA) - LenMetaInfo"
    using assms unfolding n plotB_ok_def hm_full_def by linarith
  moreover have "2 * ?rs dvd minMapABufMem \<or> ?h * (2 * ?rs) \<le> minMapABufMem"
    using assms unfolding plotB_ok_def buffer_aligned_def n by blast
  ultimately show "reader_ok minMapABufMem (2 * ?rs) \<lparr>rd_buf = [], rd_rest = drop LenMetaInfo (hm_data hmA)\<rparr> ?h"
    by (intro reader_ok_start) simp_all
  have "length (record_of hmA (2 * ?rs) y) = 2 * ?rs" if "y < ?h" for y
    using record_end [OF that, of "2 * ?rs"] full by (simp add: record_of_def)
  then show "length b = 2 * ?rs" if "(k, b) \<in> set (eventsB U hmA)"
    using that by (auto simp: eventsB_def intro: pair_events_length)
qed

lemma requiredB_unat:
  assumes ok: "plotB_ok U hmA hmB" and p: "unat p \<le> hm_V hmA div 2"
  shows "unat (push_bit 2 ((hm_volume hmB div 2 - p) * word_of_nat (hm_recordSize hmA))) =
    (hm_V hmA div 2 - unat p) * (4 * hm_recordSize hmA)"
proof -
  let ?rs = "hm_recordSize hmA" and ?n = "hm_V hmA div 2 - unat p"
  note s = plotB_ok_simps [OF ok]
  have "p \<le> hm_volume hmB div 2" using p s(6) by (simp add: word_le_nat_alt)
  then have d: "unat (hm_volume hmB div 2 - p) = ?n" using s(6) by (simp add: unat_sub)
  have r: "unat (word_of_nat (4 * ?rs) :: u64) = 4 * ?rs" using s(8) by (subst unat_of_nat_bound) simp_all
  have "?n * (4 * ?rs) \<le> 2 ^ 48 * 24" using s(8,9) by (intro mult_le_mono) auto
  then have "unat (hm_volume hmB div 2 - p) * unat (word_of_nat (4 * ?rs) :: u64) < 2 ^ LENGTH(64)"
    unfolding d r by (rule le_less_trans) simp
  from unat_mult_bound [OF this] show ?thesis
    unfolding d r by (simp add: push_bit_eq_mult algebra_simps)
qed

lemma plot_window_open:
  assumes ok: "plotB_ok U hmA hmB" and p: "unat p < hm_V hmA div 2"
    and mem: "HashMapB_makeAvailableMemory (vmem E i) cache
      (push_bit 2 ((hm_volume hmB div 2 - p) * word_of_nat (hm_recordSize hmA))) = Inr cache1"
  defines "q \<equiv> p + calcWindowSizeB cache1 (hm_recordSize hmA)"
  shows "cache1 = \<lparr>mc_size = mc_size cache1, mc_data = replicate (mc_size cache1) 0\<rparr>"
    "unat p < unat q" "unat q \<le> hm_V hmA div 2" "0 < mc_size cache1"
    "unat (push_bit 1 p) = 2 * unat p" "unat (push_bit 1 q) = 2 * unat q"
    "(2 * unat q - 2 * unat p) * (2 * hm_recordSize hmA) \<le> mc_size cache1"
proof -
  let ?rs = "hm_recordSize hmA" and ?h = "hm_V hmA div 2"
  note s = plotB_ok_simps [OF ok]
  have req: "unat (push_bit 2 ((hm_volume hmB div 2 - p) * word_of_nat ?rs)) = (?h - unat p) * (4 * ?rs)"
    using p by (intro requiredB_unat [OF ok]) simp
  have "makeAvailableMemory (vmem E i) cache (push_bit 2 ((hm_volume hmB div 2 - p) * word_of_nat ?rs))
      4294967296 268435456 = Inr cache1"
    using mem by (simp add: HashMapB_makeAvailableMemory_def maxPlotMem_def minPlotMem_def)
  from makeAvailableMemory_big [OF this] obtain n where
    n: "cache1 = cache\<lparr>mc_size := n, mc_data := replicate n 0\<rparr>" "n \<le> (?h - unat p) * (4 * ?rs)"
    "n = (?h - unat p) * (4 * ?rs) \<or> 268435456 \<le> n"
    unfolding req by blast
  show "cache1 = \<lparr>mc_size = mc_size cache1, mc_data = replicate (mc_size cache1) 0\<rparr>"
    by (cases cache) (simp add: n(1))
  let ?d = "n div (4 * ?rs)"
  have d_eq: "n div ?rs div 4 = ?d" by (simp add: div_mult2_eq mult.commute)
  have d_le: "?d \<le> ?h - unat p" using n(2) s(7) div_le_mono [OF n(2), of "4 * ?rs"] by simp
  then have "?d < 2 ^ LENGTH(64)" using s(9) by (auto intro: le_less_trans)
  then have w: "unat (calcWindowSizeB cache1 ?rs) = ?d"
    by (simp add: calcWindowSizeB_def MemCache_Len_def n(1) d_eq unat_of_nat_bound)
  have "unat p + unat (calcWindowSizeB cache1 ?rs) < 2 ^ LENGTH(64)"
    using d_le w p s(9) by simp
  then have q: "unat q = unat p + ?d" unfolding q_def by (metis unat_add_bound w)
  show qh: "unat q \<le> ?h" using q d_le p by simp
  have "1 \<le> ?h - unat p" using p by linarith
  from mult_le_mono1 [OF this, of "4 * ?rs"] have "4 * ?rs \<le> (?h - unat p) * (4 * ?rs)" by simp
  with n(3) s(8) have big: "4 * ?rs \<le> n" by auto
  then have "1 \<le> ?d" using s(7) by (simp add: less_eq_div_iff_mult_less_eq)
  with q show "unat p < unat q" by simp
  show "0 < mc_size cache1" using big s(7) n(1) by simp
  have dbl: "unat (push_bit 1 a) = 2 * unat a" if "unat a \<le> ?h" for a :: u64
    using that s(9) unat_mult_bound [of a 2] by (simp add: push_bit_eq_mult)
  show "unat (push_bit 1 p) = 2 * unat p" "unat (push_bit 1 q) = 2 * unat q" using p qh dbl by auto
  have "?d * (4 * ?rs) \<le> n" by simp
  then show "(2 * unat q - 2 * unat p) * (2 * ?rs) \<le> mc_size cache1" using n(1) q by (simp add: algebra_simps)
qed

lemma plot_window_filled:
  assumes ok: "plotB_ok U hmA hmB" and p: "unat p < hm_V hmA div 2"
    and mem: "HashMapB_makeAvailableMemory (vmem E i) cache
      (push_bit 2 ((hm_volume hmB div 2 - p) * word_of_nat (hm_recordSize hmA))) = Inr cache1"
    and bs: "length bs = 2 * hm_recordSize hmA"
  defines "q \<equiv> p + calcWindowSizeB cache1 (hm_recordSize hmA)"
  assumes fill: "plot_fill U (hm_bl hmA) (hm_pkHash hmA) (hm_recordSize hmA) quit
      (push_bit 1 p) (push_bit 1 q) [0..<hm_V hmA div 2] bs
      \<lparr>rd_buf = [], rd_rest = drop LenMetaInfo (hm_data hmA)\<rparr> cache1 = Some (cache2, bs2)"
  shows "window_filled (2 * hm_recordSize hmA) (2 * unat p) (2 * unat q) (eventsB U hmA) cache2"
    "mc_size cache2 = mc_size cache1" "length bs2 = 2 * hm_recordSize hmA"
proof -
  let ?rs = "hm_recordSize hmA"
  note op = plot_window_open [OF ok p mem, folded q_def]
  have wf1: "cache_wf cache1" unfolding cache_wf_def by (subst op(1)) simp
  have "(unat (push_bit 1 q) - unat (push_bit 1 p)) * (2 * ?rs) \<le> mc_size cache1"
    unfolding op(5,6) by (rule op(7))
  moreover have "reader_ok minMapABufMem (2 * ?rs) \<lparr>rd_buf = [], rd_rest = drop LenMetaInfo (hm_data hmA)\<rparr>
      (length [0..<hm_V hmA div 2])"
    using recordsA(2) [OF ok] by simp
  moreover have "0 < ?rs" using plotB_ok_simps(7) [OF ok] by simp
  ultimately have "cache2 = fold (write_event (2 * ?rs) (2 * unat p) (2 * unat q)) (eventsB U hmA) cache1 \<and>
      length bs2 = 2 * ?rs"
    using plot_fill_Some [OF wf1 _ _ _ bs fill]
    by (simp add: recordsA(1) [OF ok] eventsB_def op(5,6) [simplified] comp_def)
  moreover note window_filled_writes [of "eventsB U hmA", OF recordsA(3) [OF ok] op(7)]
  ultimately show "window_filled (2 * ?rs) (2 * unat p) (2 * unat q) (eventsB U hmA) cache2"
    "mc_size cache2 = mc_size cache1" "length bs2 = 2 * ?rs"
    using op(1) by auto
qed

lemma plot_window_cases:
  assumes ok: "plotB_ok U hmA hmB" and p: "unat p < hm_V hmA div 2" and bs: "length bs = 2 * hm_recordSize hmA"
    and w: "plot_window ((U, E), hmA) i (hmB, cache, bs) p = ((hmB', cache', bs'), r)"
  shows "case r of
      Inl err \<Rightarrow> \<exists>d. hmB' = hmB\<lparr>hm_data := write_at (hm_data hmB)
                  (LenMetaInfo + 2 * unat p * (2 * hm_recordSize hmA)) d\<rparr>
    | Inr q \<Rightarrow> unat p < unat q \<and> unat q \<le> hm_V hmA div 2 \<and> length bs' = 2 * hm_recordSize hmA \<and>
        window_filled (2 * hm_recordSize hmA) (2 * unat p) (2 * unat q) (eventsB U hmA) cache' \<and>
        hmB' = UpdateCheckpoint (hmB\<lparr>hm_data := write_at (hm_data hmB)
                (LenMetaInfo + 2 * unat p * (2 * hm_recordSize hmA)) (mc_data cache'), hm_checkpoint := p + 1\<rparr>)"
proof -
  let ?rs = "hm_recordSize hmA" and ?dst = "LenMetaInfo + 2 * unat p * (2 * hm_recordSize hmA)"
  note s = plotB_ok_simps [OF ok]
  have dst: "hm_offset hmB + unat p * ?rs * 4 = ?dst" by (simp add: s(3))
  have unchanged: "\<exists>d. hmB = hmB\<lparr>hm_data := write_at (hm_data hmB) off d\<rparr>" for off
    by (intro exI [of _ "[]"]) (simp add: write_at_def)
  show ?thesis
  proof (cases "HashMapB_makeAvailableMemory (vmem E i) cache
      (push_bit 2 ((hm_volume hmB div 2 - p) * word_of_nat ?rs))")
    case (Inl err)
    with w unchanged show ?thesis by (auto simp: plot_window_def s(4))
  next
    case (Inr cache1)
    note op = plot_window_open [OF ok p Inr]
    let ?q = "p + calcWindowSizeB cache1 ?rs"
    let ?fill = "plot_fill U (hm_bl hmA) (hm_pkHash hmA) ?rs (fill_quit E i) (push_bit 1 p) (push_bit 1 ?q)
      [0..<hm_V hmA div 2] bs \<lparr>rd_buf = [], rd_rest = drop LenMetaInfo (hm_data hmA)\<rparr> cache1"
    show ?thesis
    proof (cases "seek_fault E i = None \<and> ?fill \<noteq> None")
      case False
      then have "plot_window ((U, E), hmA) i (hmB, cache, bs) p = ((hmB, cache1, bs),
          Inl (case seek_fault E i of Some err \<Rightarrow> err | None \<Rightarrow> ErrStopPlotting))"
        using Inr by (cases ?fill; cases "seek_fault E i") (simp_all add: plot_window_def s(2,4,6) Let_def)
      with w unchanged show ?thesis by auto
    next
      case True
      then obtain cache2 bs2 where f: "?fill = Some (cache2, bs2)" by auto
      note fill = plot_window_filled [OF ok p Inr bs f]
      have cwf: "cache_wf cache2" using fill(1) by (simp add: window_filled_def)
      obtain d n e where wr: "WriteToWriter (flush_quit E i) (flush_fault E i) cache2 (hm_data hmB) 0
          ?dst (MemCache_Len cache2) = (d, n, e)" by (metis prod_cases3)
      have fl: "flushed (hm_data hmB) ?dst (mc_data cache2) (d, n, e)"
        using WriteToWriter_flushed [OF cwf refl, of "hm_data hmB" ?dst "flush_quit E i" "flush_fault E i"]
          wr op(4) fill(2) by (simp add: MemCache_Len_def)
      have win: "plot_window ((U, E), hmA) i (hmB, cache, bs) p =
          (case e of Some err \<Rightarrow> ((hmB\<lparr>hm_data := d\<rparr>, cache2, bs2), Inl err)
           | None \<Rightarrow> ((UpdateCheckpoint (hmB\<lparr>hm_data := d, hm_checkpoint := p + 1\<rparr>), cache2, bs2), Inr ?q))"
        using Inr True f wr [folded dst] by (simp add: plot_window_def Let_def s(2,4,6))
      show ?thesis
      proof (cases e)
        case None
        with fl have "d = write_at (hm_data hmB) ?dst (mc_data cache2)" by (auto simp: flushed_def)
        with w win None op fill show ?thesis by auto
      next
        case (Some err)
        with fl w win show ?thesis by (auto simp: flushed_def)
      qed
    qed
  qed
qed

lemma plot_window_returns:
  assumes ok: "plotB_ok U hmA hmB" and p: "unat p < hm_V hmA div 2" and bs: "length bs = 2 * hm_recordSize hmA"
    and E: "plot_env_ok E"
  shows "\<exists>s' q. plot_window ((U, E), hmA) i (hmB, cache, bs) p = (s', Inr q)"
proof -
  let ?rs = "hm_recordSize hmA"
  note s = plotB_ok_simps [OF ok]
  have dst: "hm_offset hmB + unat p * ?rs * 4 = LenMetaInfo + 2 * unat p * (2 * ?rs)" by (simp add: s(3))
  have nq: "\<not> fill_quit E i x" for x using E by (simp add: plot_env_ok_def)
  obtain cache1 where m: "HashMapB_makeAvailableMemory (vmem E i) cache
      (push_bit 2 ((hm_volume hmB div 2 - p) * word_of_nat ?rs)) = Inr cache1"
    using plot_env_ok_memory [OF E]
    unfolding HashMapB_makeAvailableMemory_def maxPlotMem_def minPlotMem_def by blast
  note op = plot_window_open [OF ok p m]
  let ?q = "p + calcWindowSizeB cache1 ?rs"
  obtain cache2 bs2 where f: "plot_fill U (hm_bl hmA) (hm_pkHash hmA) ?rs (fill_quit E i) (push_bit 1 p)
      (push_bit 1 ?q) [0..<hm_V hmA div 2] bs
      \<lparr>rd_buf = [], rd_rest = drop LenMetaInfo (hm_data hmA)\<rparr> cache1 = Some (cache2, bs2)"
    using plot_fill_no_quit [of "fill_quit E i", OF nq] by (metis surj_pair)
  note fill = plot_window_filled [OF ok p m bs f]
  have "cache_wf cache2" using fill(1) by (simp add: window_filled_def)
  then have "WriteToWriter (flush_quit E i) (flush_fault E i) cache2 (hm_data hmB) 0 dst (MemCache_Len cache2)
      = (write_at (hm_data hmB) dst (mc_data cache2), mc_size cache2, None)" for dst
    using op(4) E fill(2) by (auto simp: MemCache_Len_def plot_env_ok_def intro!: WriteToWriter_complete)
  with m f E show ?thesis by (auto simp: plot_window_def Let_def s(2,4,6) plot_env_ok_def)
qed

section \<open>The whole pass\<close>

definition plotB_inv ::
  "('pk pocutil \<times> plot_env) \<times> 'pk hashmapA \<Rightarrow> 'pk hashmap \<times> memcache \<times> bytes \<Rightarrow> u64 \<Rightarrow> bool" where
  "plotB_inv e s p \<longleftrightarrow>
     plotB_ok (fst (fst e)) (snd e) (fst s) \<and> length (snd (snd s)) = 2 * hm_recordSize (snd e) \<and>
     tableB_upto (fst (fst e)) (snd e) (fst s) (2 * unat p) \<and> unat p \<le> hm_V (snd e) div 2 \<and>
     unat (ReadCheckpoint (fst s)) \<le> unat p"

definition plotB_safe ::
  "('pk pocutil \<times> plot_env) \<times> 'pk hashmapA \<Rightarrow> 'pk hashmap \<times> memcache \<times> bytes \<Rightarrow> bool" where
  "plotB_safe e s \<longleftrightarrow>
     plotB_ok (fst (fst e)) (snd e) (fst s) \<and>
     tableB_upto (fst (fst e)) (snd e) (fst s) (2 * unat (ReadCheckpoint (fst s))) \<and>
     unat (ReadCheckpoint (fst s)) \<le> hm_V (snd e) div 2"

lemma plotB_ok_hdr: "plotB_ok U hmA hmB \<Longrightarrow> LenMetaInfo \<le> length (hm_data hmB)"
  by (simp add: plotB_ok_def hm_wf_def)

lemma plotB_window_step:
  assumes inv: "plotB_inv ((U, E), hmA) (hmB, cache, bs) p" and p: "unat p < hm_V hmA div 2"
    and w: "plot_window ((U, E), hmA) i (hmB, cache, bs) p = ((hmB', cache', bs'), Inr q)"
  shows "plotB_inv ((U, E), hmA) (hmB', cache', bs') q"
proof -
  have ok: "plotB_ok U hmA hmB" and bs: "length bs = 2 * hm_recordSize hmA"
    and t: "tableB_upto U hmA hmB (2 * unat p)"
    using inv by (auto simp: plotB_inv_def)
  let ?hm1 = "hmB\<lparr>hm_data := write_at (hm_data hmB) (LenMetaInfo + 2 * unat p * (2 * hm_recordSize hmA))
    (mc_data cache')\<rparr>"
  have c: "unat p < unat q" "unat q \<le> hm_V hmA div 2" "length bs' = 2 * hm_recordSize hmA"
    "window_filled (2 * hm_recordSize hmA) (2 * unat p) (2 * unat q) (eventsB U hmA) cache'"
    "hmB' = UpdateCheckpoint (?hm1\<lparr>hm_checkpoint := p + 1\<rparr>)"
    using plot_window_cases [OF ok p bs w] by auto
  have t1: "tableB_upto U hmA ?hm1 (2 * unat q)"
    using table_upto_flush [OF t c(4)] c(1) by simp
  have ok1: "plotB_ok U hmA ?hm1"
    using ok by (intro plotB_ok_update(1)) (simp_all add: le_length_write_at del: length_write_at)
  have "ReadCheckpoint hmB' = p + 1"
    using plotB_ok_hdr [OF ok1] by (simp add: c(5) ReadCheckpoint_UpdateCheckpoint)
  moreover have "unat (p + 1) = unat p + 1"
    using c(1,2) plotB_ok_simps(9) [OF ok] unat_add_bound [of p 1] by simp
  moreover have "plotB_ok U hmA hmB'" unfolding c(5) by (intro plotB_ok_update ok1)
  moreover have "tableB_upto U hmA hmB' (2 * unat q)" using t1 by (simp add: c(5))
  ultimately show ?thesis using c(1-3) by (simp add: plotB_inv_def)
qed

lemma plotB_window_fail:
  assumes inv: "plotB_inv ((U, E), hmA) (hmB, cache, bs) p" and p: "unat p < hm_V hmA div 2"
    and w: "plot_window ((U, E), hmA) i (hmB, cache, bs) p = ((hmB', cache', bs'), Inl err)"
  shows "plotB_safe ((U, E), hmA) (hmB', cache', bs')"
proof -
  have ok: "plotB_ok U hmA hmB" and bs: "length bs = 2 * hm_recordSize hmA"
    and t: "tableB_upto U hmA hmB (2 * unat p)" and c: "unat (ReadCheckpoint hmB) \<le> unat p"
    using inv by (auto simp: plotB_inv_def)
  obtain d where d: "hmB' = hmB\<lparr>hm_data := write_at (hm_data hmB)
      (LenMetaInfo + 2 * unat p * (2 * hm_recordSize hmA)) d\<rparr>"
    using plot_window_cases [OF ok p bs w] by auto
  have "plotB_ok U hmA hmB'"
    unfolding d using ok by (intro plotB_ok_update(1)) (simp_all add: le_length_write_at del: length_write_at)
  moreover have "tableB_upto U hmA hmB' (2 * unat (ReadCheckpoint hmB))"
    unfolding d using c by (intro table_upto_mono [OF table_upto_flush_part [OF t]]) simp
  moreover have "ReadCheckpoint hmB' = ReadCheckpoint hmB"
    using plotB_ok_hdr [OF ok] by (simp add: d)
  ultimately show ?thesis using c p by (simp add: plotB_safe_def)
qed

definition plotB_limit :: "('pk pocutil \<times> plot_env) \<times> 'pk hashmapA \<Rightarrow> u64" where
  "plotB_limit e = hm_volume (snd e) div 2"

definition plotB_live ::
  "('pk pocutil \<times> plot_env) \<times> 'pk hashmapA \<Rightarrow> 'pk hashmap \<times> memcache \<times> bytes \<Rightarrow> u64 \<Rightarrow> bool" where
  "plotB_live e s p \<longleftrightarrow> plotB_inv e s p \<and> plot_env_ok (snd (fst e))"

lemma plotB_limit_half: "plotB_ok U hmA hmB \<Longrightarrow> unat (plotB_limit ((U, E), hmA)) = hm_V hmA div 2"
  using unat_volume [of U hmA] by (simp add: plotB_limit_def plotB_ok_simps(1) unat_div)

lemma plotB_start:
  assumes "plotB_inv e s p" "p < plotB_limit e"
  shows "unat p < hm_V (snd e) div 2"
  using assms plotB_limit_half [of "fst (fst e)" "snd e" "fst s" "snd (fst e)"]
  by (simp add: plotB_inv_def word_less_nat_alt)

interpretation plotB: progressing_pass plot_window plotB_limit plotB_inv plotB_safe plotB_live
proof (unfold_locales, goal_cases)
  case (1 e s p i s' p')
  then show ?case
    using plotB_window_step [of "fst (fst e)" "snd (fst e)" "snd e" "fst s" "fst (snd s)" "snd (snd s)" p i
        "fst s'" "fst (snd s')" "snd (snd s')" p'] plotB_start [OF 1(1,2)] by simp
next
  case (2 e s p i s' err)
  then show ?case
    using plotB_window_fail [of "fst (fst e)" "snd (fst e)" "snd e" "fst s" "fst (snd s)" "snd (snd s)" p i
        "fst s'" "fst (snd s')" "snd (snd s')" err] plotB_start [OF 2(1,2)] by simp
next
  case (3 e s p)
  then show ?case by (auto simp: plotB_inv_def plotB_safe_def elim!: table_upto_mono)
next
  case (4 e s p i)
  then have inv: "plotB_inv e s p" and E: "plot_env_ok (snd (fst e))" by (auto simp: plotB_live_def)
  note p = plotB_start [OF inv 4(2)]
  have ok: "plotB_ok (fst (fst e)) (snd e) (fst s)" "length (snd (snd s)) = 2 * hm_recordSize (snd e)"
    using inv by (auto simp: plotB_inv_def)
  have "\<exists>s' q. plot_window e i s p = (s', Inr q)"
    using plot_window_returns [OF ok(1) p ok(2) E, of i "fst (snd s)"] by simp
  then obtain s' q where w: "plot_window e i s p = (s', Inr q)" by blast
  then have w': "plot_window ((fst (fst e), snd (fst e)), snd e) i (fst s, fst (snd s), snd (snd s)) p =
      ((fst s', fst (snd s'), snd (snd s')), Inr q)" by simp
  have "p < q" using plot_window_cases [OF ok(1) p ok(2) w'] by (simp add: word_less_nat_alt)
  moreover have "plotB_inv e s' q"
    using plotB_window_step [OF _ p w'] inv by simp
  ultimately show ?case using w E by (auto simp: plotB_live_def)
next
  case (5 e s p)
  then show ?case by (simp add: plotB_live_def)
qed

lemma plotB_limit_eq: "plotB_ok U hmA hmB \<Longrightarrow> hm_volume hmB div 2 = plotB_limit ((U, E), hmA)"
  by (simp add: plotB_limit_def plotB_ok_def hmA_wf_def hm_wf_def)

lemma plotWork_safe:
  assumes ok: "plotB_ok U hmA hmB" and t: "tableB_upto U hmA hmB (2 * unat (ReadCheckpoint hmB))"
    and le: "unat (ReadCheckpoint hmB) \<le> hm_V hmA div 2"
    and r: "plotWork U E fuel hmA hmB cache = Some ((hmB', cache'), r)"
  shows "plotB_ok U hmA hmB' \<and> tableB_upto U hmA hmB' (2 * unat (ReadCheckpoint hmB')) \<and>
    unat (ReadCheckpoint hmB') \<le> hm_V hmA div 2 \<and>
    (r = None \<longrightarrow> unat (ReadCheckpoint hmB') = hm_V hmA div 2 \<and> fst (HashMapB_Progress hmB') \<and>
       hm_checkpoint hmB' = ReadCheckpoint hmB')"
proof (cases "hm_volume hmB div 100 = 0")
  case True
  with r ok t le show ?thesis by (auto simp: plotWork_def Let_def)
next
  case False
  let ?bs = "replicate (RecordSize U (hm_bl hmA) * 2) 0" and ?e = "((U, E), hmA)"
  have inv: "plotB_inv ?e (hmB, cache, ?bs) (ReadCheckpoint hmB)"
    using ok t le by (simp add: plotB_inv_def plotB_ok_simps(4) [OF ok])
  from r False obtain hm1 c1 b1 where
    run: "run_windows fuel (plot_window ?e) (plotB_limit ?e) 0 (hmB, cache, ?bs) (ReadCheckpoint hmB) =
      Some ((hm1, c1, b1), r)"
    and r1: "if r = None then hmB' = UpdateCheckpoint (hm1\<lparr>hm_checkpoint := plotB_limit ?e\<rparr>) else hmB' = hm1"
    unfolding plotWork_def plotB_limit_eq [OF ok, of E] Let_def
    by (auto split: option.splits)
  from plotB.run_safe [OF inv run] have s: "plotB_safe ?e (hm1, c1, b1)"
    and n: "r = None \<Longrightarrow> \<exists>p. plotB_inv ?e (hm1, c1, b1) p \<and> plotB_limit ?e \<le> p" by auto
  show ?thesis
  proof (cases "r = None")
    case False
    with s r1 show ?thesis by (auto simp: plotB_safe_def)
  next
    case True
    from n [OF True] obtain p where p: "plotB_inv ?e (hm1, c1, b1) p" "plotB_limit ?e \<le> p" by blast
    have ok1: "plotB_ok U hmA hm1" and t1: "tableB_upto U hmA hm1 (2 * unat p)"
      using p by (auto simp: plotB_inv_def)
    have le: "2 * unat (plotB_limit ?e) \<le> 2 * unat p" using p(2) by (simp add: word_le_nat_alt)
    have "ReadCheckpoint hmB' = plotB_limit ?e"
      using True r1 plotB_ok_hdr [OF ok1] by (simp add: ReadCheckpoint_UpdateCheckpoint)
    moreover have "fst (HashMapB_Progress hmB')" "hm_checkpoint hmB' = plotB_limit ?e"
      using True r1 plotB_limit_eq [OF ok1, of E] by (simp_all add: HashMapB_Progress_def)
    ultimately show ?thesis
      using True r1 table_upto_mono [OF t1 le] ok1 plotB_limit_half [OF ok] by (simp add: plotB_ok_update)
  qed
qed

interpretation plotB_hdr: window_pass plot_window plotB_limit
  "\<lambda>e s p. plotB_inv e s p \<and> same_header (hm_data (fst s)) (hm_data hm0) \<and> same_table (fst s) hm0"
  "\<lambda>e s. same_header (hm_data (fst s)) (hm_data hm0) \<and> same_table (fst s) hm0" for hm0
proof (unfold_locales, goal_cases)
  case (1 e s p i s' p')
  then have inv: "plotB_inv e s p" by simp
  then have ok: "plotB_ok (fst (fst e)) (snd e) (fst s)" "length (snd (snd s)) = 2 * hm_recordSize (snd e)"
    by (auto simp: plotB_inv_def)
  have "plot_window ((fst (fst e), snd (fst e)), snd e) i (fst s, fst (snd s), snd (snd s)) p =
      ((fst s', fst (snd s'), snd (snd s')), Inr p')" using 1 by simp
  from plot_window_cases [OF ok(1) plotB_start [OF inv 1(2)] ok(2) this] 1 plotB.inv_step [OF inv 1(2,3)]
  show ?case by (auto intro!: same_header_UpdateCheckpoint same_header_data_write)
next
  case (2 e s p i s' err)
  then have inv: "plotB_inv e s p" by simp
  then have ok: "plotB_ok (fst (fst e)) (snd e) (fst s)" "length (snd (snd s)) = 2 * hm_recordSize (snd e)"
    by (auto simp: plotB_inv_def)
  have "plot_window ((fst (fst e), snd (fst e)), snd e) i (fst s, fst (snd s), snd (snd s)) p =
      ((fst s', fst (snd s'), snd (snd s')), Inl err)" using 2 by simp
  from plot_window_cases [OF ok(1) plotB_start [OF inv 2(2)] ok(2) this] 2 show ?case
    by (auto intro!: same_header_data_write)
qed simp

lemma plotWork_header:
  assumes ok: "plotB_ok U hmA hmB" and t: "tableB_upto U hmA hmB (2 * unat (ReadCheckpoint hmB))"
    and le: "unat (ReadCheckpoint hmB) \<le> hm_V hmA div 2"
    and r: "plotWork U E fuel hmA hmB cache = Some ((hmB', cache'), r)"
  shows "same_header (hm_data hmB') (hm_data hmB) \<and> same_table hmB' hmB"
proof (cases "hm_volume hmB div 100 = 0")
  case True
  with r plotB_ok_hdr [OF ok] show ?thesis by (auto simp: plotWork_def Let_def intro: same_header_refl)
next
  case False
  let ?bs = "replicate (RecordSize U (hm_bl hmA) * 2) 0" and ?e = "((U, E), hmA)"
  have inv: "plotB_inv ?e (hmB, cache, ?bs) (ReadCheckpoint hmB) \<and>
      same_header (hm_data (fst (hmB, cache, ?bs))) (hm_data hmB) \<and> same_table (fst (hmB, cache, ?bs)) hmB"
    using ok t le plotB_ok_hdr [OF ok] by (simp add: plotB_inv_def plotB_ok_simps(4) [OF ok] same_header_refl)
  from r False obtain hm1 c1 b1 where
    run: "run_windows fuel (plot_window ?e) (plotB_limit ?e) 0 (hmB, cache, ?bs) (ReadCheckpoint hmB) =
      Some ((hm1, c1, b1), r)"
    and r1: "hmB' = UpdateCheckpoint (hm1\<lparr>hm_checkpoint := plotB_limit ?e\<rparr>) \<or> hmB' = hm1"
    unfolding plotWork_def plotB_limit_eq [OF ok, of E] Let_def
    by (auto split: option.splits)
  from plotB_hdr.run_safe [OF inv run] r1 show ?thesis
    by (auto intro!: same_header_UpdateCheckpoint)
qed

lemma plotWork_ends:
  assumes ok: "plotB_ok U hmA hmB" and t: "tableB_upto U hmA hmB (2 * unat (ReadCheckpoint hmB))"
    and le: "unat (ReadCheckpoint hmB) \<le> hm_V hmA div 2"
    and E: "plot_env_ok E" and V: "100 \<le> hm_V hmA" and fuel: "hm_V hmA < fuel"
  shows "\<exists>hmB' cache'. plotWork U E fuel hmA hmB cache = Some ((hmB', cache'), None)"
proof -
  let ?bs = "replicate (RecordSize U (hm_bl hmA) * 2) 0" and ?e = "((U, E), hmA)"
  have live: "plotB_live ?e (hmB, cache, ?bs) (ReadCheckpoint hmB)"
    using ok t le E by (simp add: plotB_live_def plotB_inv_def plotB_ok_simps(4) [OF ok])
  have "unat (plotB_limit ?e) - unat (ReadCheckpoint hmB) < fuel"
    using fuel plotB_limit_half [OF ok] by simp
  from plotB.run_ends [OF live this, of 0] obtain s' where
    run: "run_windows fuel (plot_window ?e) (plotB_limit ?e) 0 (hmB, cache, ?bs) (ReadCheckpoint hmB) = Some (s', None)"
    by auto
  have v: "unat (hm_volume hmB) = hm_V hmA"
    using ok unat_volume [of U hmB] by (simp add: plotB_ok_def)
  have "hm_volume hmB div 100 \<noteq> 0"
  proof
    assume "hm_volume hmB div 100 = 0"
    then have "unat (hm_volume hmB div 100) = 0" by simp
    then show False using V v by (simp add: unat_div)
  qed
  with run show ?thesis
    by (cases s') (simp add: plotWork_def plotB_limit_eq [OF ok, of E] Let_def)
qed

section \<open>What a complete table B says\<close>

text \<open>
  A pair of records is a space proof for \<open>z\<close> when both are nonzero encodings of some \<open>u\<close> and \<open>v\<close>
  whose \<open>P\<close> values flip into each other and \<open>FB\<close> of the pair is \<open>z\<close>.
\<close>

definition space_proof :: "'pk pocutil \<Rightarrow> nat \<Rightarrow> bytes \<Rightarrow> bytes \<Rightarrow> bytes \<Rightarrow> u64 \<Rightarrow> bool" where
  "space_proof U bl h x xp z \<longleftrightarrow>
     FBFun U x xp bl h = z \<and>
     (\<exists>u v. u \<noteq> 0 \<and> v \<noteq> 0 \<and> u < 2 ^ bl \<and> v < 2 ^ bl \<and>
        x = le_put (RecordSize U bl) u \<and> xp = le_put (RecordSize U bl) v \<and>
        unat (PFun U (word_of_nat u) bl h) + unat (PFun U (word_of_nat v) bl h) = 2 ^ bl - 1)"

lemma bytesEqualZero_iff: "length x = rs \<Longrightarrow> bytesEqualZero rs x \<longleftrightarrow> x = replicate rs 0"
  unfolding bytesEqualZero_def list_all_iff list_eq_iff_nth_eq by auto

lemma read_at_append: "read_at d off (a + b) = read_at d off a @ read_at d (off + a) b"
proof -
  have "drop a (drop off d) = drop (off + a) d" by (metis add.commute drop_drop)
  then show ?thesis unfolding read_at_def by (metis take_add)
qed

lemma tableA_record:
  assumes wf: "hmA_wf U hm" and t: "tableA_upto U hm (hm_V hm)" and y: "y < hm_V hm"
    and nz: "\<not> bytesEqualZero (hm_recordSize hm) (record_of hm (hm_recordSize hm)
      (if y < hm_V hm div 2 then 2 * y else 2 * (hm_V hm - 1 - y) + 1))"
  shows "\<exists>u. u \<noteq> 0 \<and> u < hm_V hm \<and> unat (PFun U (word_of_nat u) (hm_bl hm) (hm_pkHash hm)) = y \<and>
    record_of hm (hm_recordSize hm) (if y < hm_V hm div 2 then 2 * y else 2 * (hm_V hm - 1 - y) + 1) =
      le_put (hm_recordSize hm) u"
proof -
  let ?rs = "hm_recordSize hm" and ?y = "word_of_nat y :: u64"
  let ?k = "if y < hm_V hm div 2 then 2 * y else 2 * (hm_V hm - 1 - y) + 1"
  have hw: "hm_wf U hm" and ok: "pocutil_ok U (hm_bl hm)" using wf by (simp_all add: hmA_wf_def hm_wf_def)
  have y': "unat ?y = y" using y hm_V_bounds(1) [OF hw] by (intro unat_of_nat_bound) simp
  have "unat (slotA U (hmA_half hm) (hm_bl hm) ?y) = ?k"
    using unat_slotA [OF ok unat_half [OF wf], of ?y] y by (simp add: y')
  moreover have full: "hm_full ?rs hm" using t by (simp add: table_upto_def hm_full_def)
  ultimately have get: "HashMapA_Get U hm ?y = Inr (record_of hm ?rs ?k)"
    using HashMapA_Get_eq [OF wf full, of ?y] y y' by simp
  have len: "length (replicate ?rs (0::byte)) = ?rs" by simp
  from tableA_meaning [OF wf t, of ?y] y y' get nz bytesEqualZero_iff [OF len]
  obtain u where u: "u \<in> preimages U (hm_bl hm) (hm_pkHash hm) ?y" "record_of hm ?rs ?k = le_put ?rs u"
    by (auto split: if_splits)
  have "u \<noteq> 0"
    using nz u(2) by (cases "u = 0") (auto simp: bytesEqualZero_iff le_put_0)
  with u y' show ?thesis by (auto simp: preimages_def)
qed

lemma pairA:
  assumes ok: "plotB_ok U hmA hmB" and t: "tableA_upto U hmA (hm_V hmA)" and y: "y < hm_V hmA div 2"
    and ev: "(k, b) \<in> set (pair_events U (hm_bl hmA) (hm_pkHash hmA) (hm_recordSize hmA)
      (record_of hmA (2 * hm_recordSize hmA) y))"
  shows "space_proof U (hm_bl hmA) (hm_pkHash hmA) (take (hm_recordSize hmA) b) (drop (hm_recordSize hmA) b)
    (word_of_nat k)"
proof -
  let ?rs = "hm_recordSize hmA" and ?V = "hm_V hmA"
  have wf: "hmA_wf U hmA" and full: "hm_full ?rs hmA" using ok by (auto simp: plotB_ok_def)
  note s = plotB_ok_simps [OF ok]
  let ?x = "record_of hmA ?rs (2 * y)" and ?xp = "record_of hmA ?rs (2 * y + 1)"
  have "record_of hmA (?rs + ?rs) y = ?x @ ?xp"
    unfolding record_of_def read_at_append
    by (simp add: add_mult_distrib add_mult_distrib2 mult_2 mult_2_right add_ac)
  then have r: "record_of hmA (2 * ?rs) y = ?x @ ?xp" by (simp add: mult_2)
  have len: "length ?x = ?rs" "length ?xp = ?rs"
    using y s(10) by (auto intro!: length_record_of [OF full])
  have nz: "\<not> bytesEqualZero ?rs ?x" "\<not> bytesEqualZero ?rs ?xp"
    using ev len unfolding r by (auto simp: pair_events_def split: if_splits)
  let ?y' = "?V - 1 - y"
  have y': "y < ?V" "?y' < ?V" "\<not> ?y' < ?V div 2" "?V - 1 - ?y' = y" using y s(10) by linarith+
  obtain u where
    u: "u \<noteq> 0" "u < ?V" "unat (PFun U (word_of_nat u) (hm_bl hmA) (hm_pkHash hmA)) = y" "?x = le_put ?rs u"
    using tableA_record [OF wf t y'(1)] y nz(1) by auto
  obtain v where
    v: "v \<noteq> 0" "v < ?V" "unat (PFun U (word_of_nat v) (hm_bl hmA) (hm_pkHash hmA)) = ?y'" "?xp = le_put ?rs v"
    using tableA_record [OF wf t y'(2)] nz(2) unfolding y'(4) if_not_P [OF y'(3)] by auto
  have sum: "y + ?y' = ?V - 1" "?y' + y = ?V - 1" using y s(10) by linarith+
  have "space_proof U (hm_bl hmA) (hm_pkHash hmA) ?x ?xp (FBFun U ?x ?xp (hm_bl hmA) (hm_pkHash hmA))"
    unfolding space_proof_def s(4)
    by (intro conjI refl exI [of _ u] exI [of _ v] u(1,2,4) v(1,2,4)) (simp only: u(3) v(3) sum)
  moreover have "space_proof U (hm_bl hmA) (hm_pkHash hmA) ?xp ?x (FBFun U ?xp ?x (hm_bl hmA) (hm_pkHash hmA))"
    unfolding space_proof_def s(4)
    by (intro conjI refl exI [of _ v] exI [of _ u] u(1,2,4) v(1,2,4)) (simp only: u(3) v(3) sum)
  ultimately show ?thesis
    using ev len unfolding r by (auto simp: pair_events_def Let_def split: if_splits)
qed

lemma tableB_get:
  assumes ok: "plotB_ok U hmA hmB" and tB: "tableB_upto U hmA hmB (hm_V hmA)" and z: "unat z < hm_V hmA"
  shows "HashMapB_Get hmB z =
    (let r = content_of (2 * hm_recordSize hmA) (eventsB U hmA) (unat z)
     in Inr (take (hm_recordSize hmA) r, drop (hm_recordSize hmA) r))"
proof -
  have wf: "hm_wf U hmB" and V: "hm_V hmB = hm_V hmA" using ok by (auto simp: plotB_ok_def)
  have full: "hm_full (2 * hm_recordSize hmB) hmB"
    using tB by (simp add: table_upto_def hm_full_def V plotB_ok_simps(5) [OF ok])
  show ?thesis
    using HashMapB_Get_eq [OF wf full] z tB
    by (simp add: V plotB_ok_simps(5) [OF ok] table_upto_def Let_def)
qed

lemma tableB_sound:
  assumes ok: "plotB_ok U hmA hmB" and tA: "tableA_upto U hmA (hm_V hmA)"
    and tB: "tableB_upto U hmA hmB (hm_V hmA)" and z: "unat z < hm_V hmA"
  shows "\<exists>x xp. HashMapB_Get hmB z = Inr (x, xp) \<and>
    (x = replicate (hm_recordSize hmA) 0 \<and> xp = replicate (hm_recordSize hmA) 0 \<or>
     space_proof U (hm_bl hmA) (hm_pkHash hmA) x xp z)"
proof -
  let ?rs = "hm_recordSize hmA"
  let ?P = "\<lambda>k b. b = replicate (2 * ?rs) 0 \<or>
    space_proof U (hm_bl hmA) (hm_pkHash hmA) (take ?rs b) (drop ?rs b) (word_of_nat k)"
  have "?P (unat z) (content_of (2 * ?rs) (eventsB U hmA) (unat z))"
    by (rule content_of_cases) (auto simp: eventsB_def dest: pairA [OF ok tA])
  then show ?thesis
    using tableB_get [OF ok tB z] by (auto simp: Let_def)
qed

lemma tableB_complete:
  assumes ok: "plotB_ok U hmA hmB" and tA: "tableA_upto U hmA (hm_V hmA)"
    and tB: "tableB_upto U hmA hmB (hm_V hmA)" and z: "unat z < hm_V hmA"
    and ev: "(unat z, b) \<in> set (eventsB U hmA)"
  shows "\<exists>x xp. HashMapB_Get hmB z = Inr (x, xp) \<and> space_proof U (hm_bl hmA) (hm_pkHash hmA) x xp z"
proof -
  from content_of_last [OF ev] obtain b' where b': "(unat z, b') \<in> set (eventsB U hmA)"
    "content_of (2 * hm_recordSize hmA) (eventsB U hmA) (unat z) = b'" by blast
  then obtain y where "y < hm_V hmA div 2" "(unat z, b') \<in> set (pair_events U (hm_bl hmA) (hm_pkHash hmA)
      (hm_recordSize hmA) (record_of hmA (2 * hm_recordSize hmA) y))"
    by (auto simp: eventsB_def)
  from pairA [OF ok tA this] have "space_proof U (hm_bl hmA) (hm_pkHash hmA) (take (hm_recordSize hmA) b')
      (drop (hm_recordSize hmA) b') z" by simp
  with tableB_get [OF ok tB z] b'(2) show ?thesis by (simp add: Let_def)
qed

section \<open>When the buffer is not aligned\<close>

text \<open>
  The reads of \<open>k\<close> rounds of the inner loop. When the buffer size is no multiple of the width, the
  read that meets the end of the buffer is short, and the next one starts at the end of the buffer
  rather than at the next record.
\<close>

fun read_rounds :: "nat \<Rightarrow> bufrd \<Rightarrow> bytes \<Rightarrow> nat \<Rightarrow> bytes \<times> bufrd" where
  "read_rounds sz rd bs 0 = (bs, rd)"
| "read_rounds sz rd bs (Suc k) =
     (case read_into sz rd bs of (bs', rd') \<Rightarrow> read_rounds sz rd' bs' k)"

lemma read_rounds_add:
  "read_rounds sz rd bs (j + k) = (case read_rounds sz rd bs j of (bs', rd') \<Rightarrow> read_rounds sz rd' bs' k)"
  by (induction j arbitrary: rd bs) (auto split: prod.splits)

lemma read_rounds_buffered:
  assumes "k * w \<le> length b" "length bs = w" "0 < w"
  shows "\<exists>bs'. length bs' = w \<and> read_rounds sz \<lparr>rd_buf = b, rd_rest = r\<rparr> bs k =
    (bs', \<lparr>rd_buf = drop (k * w) b, rd_rest = r\<rparr>)"
  using assms(1,2)
proof (induction k arbitrary: b bs)
  case (Suc k)
  then have "b \<noteq> []" "w \<le> length b" using assms(3) by auto
  then have r: "read_into sz \<lparr>rd_buf = b, rd_rest = r\<rparr> bs = (take w b, \<lparr>rd_buf = drop w b, rd_rest = r\<rparr>)"
    using Suc.prems(2) by (simp add: read_into_def bufio_Read_def)
  have "k * w \<le> length (drop w b)" "length (take w b) = w" using Suc.prems(1) \<open>w \<le> length b\<close> by simp_all
  from Suc.IH [OF this] r show ?case by (auto simp: add.commute)
qed simp

lemma read_rounds_misaligned:
  assumes w: "0 < w" "w \<le> sz" "sz mod w \<noteq> 0" and d: "sz + w \<le> length dat" and bs: "length bs = w"
  shows "fst (read_rounds sz \<lparr>rd_buf = [], rd_rest = dat\<rparr> bs (sz div w + 2)) = read_at dat sz w"
proof -
  let ?q = "sz div w"
  let ?b = "take sz dat" and ?r = "drop sz dat"
  have q: "?q * w \<le> length ?b" using d by simp
  have "read_rounds sz \<lparr>rd_buf = [], rd_rest = dat\<rparr> bs ?q = read_rounds sz \<lparr>rd_buf = ?b, rd_rest = ?r\<rparr> bs ?q"
  proof (cases ?q)
    case 0
    then show ?thesis using w by (simp add: div_eq_0_iff)
  next
    case (Suc k)
    have "?b \<noteq> []" using w d by auto
    then show ?thesis by (simp add: Suc read_into_def bufio_Read_def)
  qed
  with read_rounds_buffered [OF q bs w(1)] obtain bs' where
    first: "length bs' = w" "read_rounds sz \<lparr>rd_buf = [], rd_rest = dat\<rparr> bs ?q =
      (bs', \<lparr>rd_buf = drop (?q * w) ?b, rd_rest = ?r\<rparr>)" by auto
  have tail: "length (drop (?q * w) ?b) = sz mod w" using d by (simp add: minus_div_mult_eq_mod)
  then have "drop (?q * w) ?b \<noteq> []" using w(3) by (metis length_0_conv)
  moreover have "length (drop (?q * w) ?b) < w" using tail w(1) by simp
  ultimately obtain bs2 where second: "length bs2 = w"
    "read_into sz \<lparr>rd_buf = drop (?q * w) ?b, rd_rest = ?r\<rparr> bs' = (bs2, \<lparr>rd_buf = [], rd_rest = ?r\<rparr>)"
    using first(1) by (auto simp: read_into_def bufio_Read_def Let_def simp del: drop_take)
  have "take sz ?r \<noteq> []" using w d by auto
  then have "fst (read_into sz \<lparr>rd_buf = [], rd_rest = ?r\<rparr> bs2) = read_at dat sz w"
    using second(1) w(2) d by (auto simp: read_into_def bufio_Read_def Let_def read_at_def min_def)
  moreover have "read_rounds sz \<lparr>rd_buf = drop (?q * w) ?b, rd_rest = ?r\<rparr> bs' 2 =
      read_into sz \<lparr>rd_buf = [], rd_rest = ?r\<rparr> bs2"
    unfolding numeral_2_eq_2 read_rounds.simps second(2) prod.case by (simp add: case_prod_beta)
  ultimately show ?thesis unfolding read_rounds_add first(2) by simp
qed

end
