(* ===== verification/MassDB_V1.thy ===== *)
theory MassDB_V1
  imports Plot_Work
begin

text \<open>
  The plot database: \<open>MassDBV1\<close> of \<open>poc/engine/massdb/massdb.v1/massdb.v1.go\<close> and
  \<open>executePlot\<close>/\<open>NewMassDBV1\<close> of \<open>plot.go\<close>, and the registry of database backends of
  \<open>poc/engine/massdb/massdb.go\<close>. A goroutine's body is a function of its own, and how the
  goroutines interleave is the step relation \<open>mdb_step\<close> at the end.
\<close>

section \<open>The backend registry\<close>

text \<open>The \<open>interface{}\<close> arguments of \<open>OpenDB\<close> and \<open>CreateDB\<close>.\<close>

datatype 'pk go_arg = ArgString string | ArgInt64 int | ArgPubKey 'pk | ArgInt nat | ArgOther

record ('a, 'w, 'db) db_backend =
  Typ :: string
  backend_OpenDB :: "'a list \<Rightarrow> 'w \<Rightarrow> 'w \<times> (db_error + 'db)"
  backend_CreateDB :: "'a list \<Rightarrow> 'w \<Rightarrow> 'w \<times> (db_error + 'db)"

definition AddDBBackend ::
  "('a, 'w, 'db) db_backend list \<Rightarrow> ('a, 'w, 'db) db_backend \<Rightarrow> ('a, 'w, 'db) db_backend list" where
  "AddDBBackend DBBackendList ins =
     (if list_ex (\<lambda>dbb. Typ dbb = Typ ins) DBBackendList then DBBackendList
      else DBBackendList @ [ins])"

definition massdb_OpenDB ::
  "('a, 'w, 'db) db_backend list \<Rightarrow> string \<Rightarrow> 'a list \<Rightarrow> 'w \<Rightarrow> 'w \<times> (db_error + 'db)" where
  "massdb_OpenDB DBBackendList dbType args w =
     (case find (\<lambda>dbb. Typ dbb = dbType) DBBackendList of
        Some dbb \<Rightarrow> backend_OpenDB dbb args w
      | None \<Rightarrow> (w, Inl ErrInvalidDBType))"

definition massdb_CreateDB ::
  "('a, 'w, 'db) db_backend list \<Rightarrow> string \<Rightarrow> 'a list \<Rightarrow> 'w \<Rightarrow> 'w \<times> (db_error + 'db)" where
  "massdb_CreateDB DBBackendList dbType args w =
     (case find (\<lambda>dbb. Typ dbb = dbType) DBBackendList of
        Some dbb \<Rightarrow> backend_CreateDB dbb args w
      | None \<Rightarrow> (w, Inl ErrInvalidDBType))"

section \<open>The database\<close>

text \<open>The channel \<open>stopPlotCh\<close> is nil until the first plot, then made anew by each plot.\<close>

datatype chan = ChNil | ChOpen | ChClosed

record 'pk massdbv1 =
  HashMapA :: "'pk hashmapA option"
  HashMapB :: "'pk hashmap"
  filePathA :: fpath
  filePathB :: fpath
  mdb_bl :: nat
  mdb_pubKey :: 'pk
  mdb_pubKeyHash :: bytes
  plotting :: int
  stopPlotCh :: chan
  mdb_wg :: nat

definition MassDBV1_Type :: "'pk massdbv1 \<Rightarrow> string" where
  "MassDBV1_Type mdb = TypeMassDBV1"

text \<open>\<open>filepath.Join\<close> of a directory in canonical form and a file name.\<close>

definition filepath_Join :: "string \<Rightarrow> string \<Rightarrow> fpath" where
  "filepath_Join dir name =
     (if dir = [] then name
      else if last dir = CHR ''/'' then dir @ name else dir @ ''/'' @ name)"

definition getPath :: "'pk pocutil \<Rightarrow> string \<Rightarrow> int \<Rightarrow> 'pk \<Rightarrow> nat \<Rightarrow> fpath \<times> fpath" where
  "getPath U rootPath ordinal pubKey bitLength =
     (let pubKeyString = hex_EncodeToString (SerializeCompressed U pubKey);
          pathA = strings_Join [Itoa ordinal, pubKeyString, Itoa (int bitLength), ''a''] ''_'' @ ''.massdb'';
          pathB = strings_Join [Itoa ordinal, pubKeyString, Itoa (int bitLength)] ''_'' @ ''.massdb''
      in (filepath_Join rootPath pathA, filepath_Join rootPath pathB))"

fun parseArgs :: "'pk go_arg list \<Rightarrow> db_error + string \<times> int \<times> 'pk \<times> nat" where
  "parseArgs [ArgString dbPath, ArgInt64 ordinal, ArgPubKey pubKey, ArgInt bitLength] =
     Inr (dbPath, ordinal, pubKey, bitLength)"
| "parseArgs _ = Inl ErrInvalidDBArgs"

definition new_mdb ::
  "'pk pocutil \<Rightarrow> 'pk hashmapA option \<Rightarrow> 'pk hashmap \<Rightarrow> fpath \<Rightarrow> fpath \<Rightarrow> nat \<Rightarrow> 'pk \<Rightarrow> 'pk massdbv1" where
  "new_mdb U hmA hmB pathA pathB bitLength pubKey =
     \<lparr>HashMapA = hmA, HashMapB = hmB, filePathA = pathA, filePathB = pathB, mdb_bl = bitLength,
      mdb_pubKey = pubKey, mdb_pubKeyHash = PubKeyHash U pubKey, plotting = 0, stopPlotCh = ChNil,
      mdb_wg = 0\<rparr>"

definition OpenDB :: "'pk pocutil \<Rightarrow> os_faults \<Rightarrow> fs \<Rightarrow> 'pk go_arg list \<Rightarrow> db_error + 'pk massdbv1" where
  "OpenDB U F fs args =
     (case parseArgs args of Inl e \<Rightarrow> Inl e
      | Inr (dbPath, ordinal, pubKey, bitLength) \<Rightarrow>
        (let (pathA, pathB) = getPath U dbPath ordinal pubKey bitLength in
         case LoadHashMap U F fs pathB of Inl e \<Rightarrow> Inl e
         | Inr (LoadedA _) \<Rightarrow> Inl ErrDBWrongType
         | Inr (LoadedB hmB) \<Rightarrow>
           if fst (HashMapB_Progress hmB) then Inr (new_mdb U None hmB pathA pathB bitLength pubKey)
           else case LoadHashMap U F fs pathA of Inl e \<Rightarrow> Inl e
             | Inr (LoadedB _) \<Rightarrow> Inl ErrDBWrongType
             | Inr (LoadedA hmA) \<Rightarrow> Inr (new_mdb U (Some hmA) hmB pathA pathB bitLength pubKey)))"

definition CreateDB ::
  "'pk pocutil \<Rightarrow> os_faults \<Rightarrow> fs \<Rightarrow> 'pk go_arg list \<Rightarrow> fs \<times> (db_error + 'pk massdbv1)" where
  "CreateDB U F fs args =
     (case parseArgs args of Inl e \<Rightarrow> (fs, Inl e)
      | Inr (dbPath, ordinal, pubKey, bitLength) \<Rightarrow>
        (let (pathA, pathB) = getPath U dbPath ordinal pubKey bitLength;
             (fs1, e1) = CreateHashMap U F fs pathA MapTypeHashMapA bitLength pubKey in
         if e1 \<noteq> None \<and> e1 \<noteq> Some ErrDBAlreadyExists then (fs1, Inl (the e1))
         else
           let (fs2, e2) = CreateHashMap U F fs1 pathB MapTypeHashMapB bitLength pubKey in
           if e2 \<noteq> None \<and> e2 \<noteq> Some ErrDBAlreadyExists then (fs2, Inl (the e2))
           else
             (fs2,
              case LoadHashMap U F fs2 pathA of Inl e \<Rightarrow> Inl e
              | Inr hmAi \<Rightarrow>
                (case LoadHashMap U F fs2 pathB of Inl e \<Rightarrow> Inl e
                 | Inr hmBi \<Rightarrow>
                   (case (hmAi, hmBi) of
                      (LoadedA hmA, LoadedB hmB) \<Rightarrow>
                        Inr (new_mdb U (Some hmA) hmB pathA pathB bitLength pubKey)
                    | _ \<Rightarrow> Inl ErrDBWrongType)))))"

definition NewMassDBV1 ::
  "'pk pocutil \<Rightarrow> os_faults \<Rightarrow> fs \<Rightarrow> string \<Rightarrow> int \<Rightarrow> 'pk \<Rightarrow> nat \<Rightarrow> fs \<times> (db_error + 'pk massdbv1)" where
  "NewMassDBV1 U F fs rootPath ordinal pubKey bitLength =
     (let args = [ArgString rootPath, ArgInt64 ordinal, ArgPubKey pubKey, ArgInt bitLength] in
      case OpenDB U F fs args of
        Inr mdb \<Rightarrow> (fs, Inr mdb)
      | Inl err \<Rightarrow> if err \<noteq> ErrDBDoesNotExist then (fs, Inl err) else CreateDB U F fs args)"

section \<open>Queries\<close>

definition MassDBV1_Ready :: "'pk massdbv1 \<Rightarrow> bool" where
  "MassDBV1_Ready mdb = fst (HashMapB_Progress (HashMapB mdb))"

definition MassDBV1_Get :: "'pk pocutil \<Rightarrow> 'pk massdbv1 \<Rightarrow> u64 \<Rightarrow> db_error + u64 \<times> u64" where
  "MassDBV1_Get U mdb z =
     (case HashMapB_Get (HashMapB mdb) z of Inl e \<Rightarrow> Inl e
      | Inr (xb, xpb) \<Rightarrow> Inr (Bytes2PoCValue U xb (mdb_bl mdb), Bytes2PoCValue U xpb (mdb_bl mdb)))"

definition MassDBV1_GetProof ::
  "'pk pocutil \<Rightarrow> 'pk massdbv1 \<Rightarrow> bytes \<Rightarrow> bool \<Rightarrow> db_error + default_proof" where
  "MassDBV1_GetProof U mdb challenge filt =
     (case HashMapB_Get (HashMapB mdb) (CutHash U challenge (mdb_bl mdb)) of Inl e \<Rightarrow> Inl e
      | Inr (x, xp) \<Rightarrow>
        (let prf = \<lparr>dp_X = x, dp_XPrime = xp, dp_BL = mdb_bl mdb\<rparr> in
         case VerifyProof U prf (mdb_pubKeyHash mdb) challenge filt of
           Some err \<Rightarrow> Inl err
         | None \<Rightarrow> Inr prf))"

text \<open>
  The progress in percent is the quotient of the two numbers returned last. \<open>currentRecord*100\<close> is
  computed in 64 bits.
\<close>

definition MassDBV1_Progress :: "'pk massdbv1 \<Rightarrow> bool \<times> bool \<times> u64 \<times> u64" where
  "MassDBV1_Progress mdb =
     (case HashMapA mdb of
        Some hmA \<Rightarrow>
          (let (prePlotted, progA) = HashMapA_Progress hmA;
               (plotted, progB) = HashMapB_Progress (HashMapB mdb);
               totalRecord = hm_volume hmA + hm_volume (HashMapB mdb);
               currentRecord = progA + progB * 2
           in (prePlotted, plotted, currentRecord * 100, totalRecord))
      | None \<Rightarrow> (True, True, 100, 1))"

section \<open>Plotting, stopping, deleting\<close>

datatype plot_started = PlotResult "db_error option" | PlotSpawned

definition MassDBV1_Plot :: "'pk massdbv1 \<Rightarrow> 'pk massdbv1 \<times> plot_started" where
  "MassDBV1_Plot mdb =
     (if plotting mdb \<noteq> 0 then (mdb, PlotResult (Some ErrAlreadyPlotting))
      else
        let mdb1 = mdb\<lparr>plotting := 1\<rparr> in
        case HashMapA mdb1 of
          None \<Rightarrow> (mdb1, PlotResult None)
        | Some _ \<Rightarrow> (mdb1\<lparr>stopPlotCh := ChOpen, mdb_wg := mdb_wg mdb1 + 1\<rparr>, PlotSpawned))"

text \<open>
  The body of the plotting goroutine. The two passes write through to the two files; a stopped plot
  is no error. The deferred function clears \<open>plotting\<close> on every exit.
\<close>

definition plot_exit :: "'pk massdbv1 \<Rightarrow> 'pk massdbv1" where
  "plot_exit mdb = mdb\<lparr>plotting := 0, mdb_wg := mdb_wg mdb - 1\<rparr>"

definition plot_err :: "db_error \<Rightarrow> db_error option" where
  "plot_err e = (if e = ErrStopPlotting then None else Some e)"

definition executePlot ::
  "'pk pocutil \<Rightarrow> os_faults \<Rightarrow> plot_env \<Rightarrow> plot_env \<Rightarrow> nat \<Rightarrow> fs \<Rightarrow> 'pk massdbv1
     \<Rightarrow> ((fs \<times> 'pk massdbv1) \<times> db_error option) option" where
  "executePlot U F E1 E2 fuel fs mdb =
     (case HashMapA mdb of
        None \<Rightarrow> Some ((fs, plot_exit mdb), Some PanicNilPointer)
      | Some hmA \<Rightarrow>
        (case prePlotWork U E1 fuel hmA (NewMemCache 0) of
           None \<Rightarrow> None
         | Some ((hmA', cache), r1) \<Rightarrow>
           (let fs1 = fs(filePathA mdb \<mapsto> hm_data hmA');
                mdb1 = mdb\<lparr>HashMapA := Some hmA'\<rparr> in
            case r1 of
              Some err \<Rightarrow> Some ((fs1, plot_exit mdb1), plot_err err)
            | None \<Rightarrow>
              (case plotWork U E2 fuel hmA' (HashMapB mdb) cache of
                 None \<Rightarrow> None
               | Some ((hmB', cache'), r2) \<Rightarrow>
                 (let fs2 = fs1(filePathB mdb \<mapsto> hm_data hmB');
                      mdb2 = mdb1\<lparr>HashMapB := hmB'\<rparr> in
                  case r2 of
                    Some err \<Rightarrow> Some ((fs2, plot_exit mdb2), plot_err err)
                  | None \<Rightarrow>
                    (let fs3 = (if remove_fails F (filePathA mdb) = None
                                then fs2(filePathA mdb := None) else fs2)
                     in Some ((fs3, plot_exit (mdb2\<lparr>HashMapA := None\<rparr>)), None)))))))"

text \<open>
  \<open>StopPlot\<close> returns at once when nothing is plotted. Otherwise it starts a goroutine that closes
  the channel and waits; closing a nil or closed channel panics (\<open>None\<close>).
\<close>

definition MassDBV1_StopPlot :: "'pk massdbv1 \<Rightarrow> bool" where
  "MassDBV1_StopPlot mdb \<longleftrightarrow> plotting mdb \<noteq> 0"

definition StopPlot_close :: "'pk massdbv1 \<Rightarrow> 'pk massdbv1 option" where
  "StopPlot_close mdb = (if stopPlotCh mdb = ChOpen then Some (mdb\<lparr>stopPlotCh := ChClosed\<rparr>) else None)"

definition MassDBV1_Delete :: "os_faults \<Rightarrow> fs \<Rightarrow> 'pk massdbv1 \<Rightarrow> fs \<times> db_error option" where
  "MassDBV1_Delete F fs mdb =
     (if plotting mdb \<noteq> 0 then (fs, Some ErrAlreadyPlotting)
      else
        let rm = (\<lambda>fs p. case remove_fails F p of Some e \<Rightarrow> (fs, Some e)
                   | None \<Rightarrow> if fs p = None then (fs, Some (OSError ''not exist'')) else (fs(p := None), None));
            (fs1, errA) = (if HashMapA mdb \<noteq> None then rm fs (filePathA mdb) else (fs, None));
            (fs2, errB) = rm fs1 (filePathB mdb) in
        (fs2, case (errA, errB) of
                (None, None) \<Rightarrow> None
              | (Some a, None) \<Rightarrow> Some (RemoveErrorA a)
              | (None, Some b) \<Rightarrow> Some (RemoveErrorB b)
              | (Some a, Some b) \<Rightarrow> Some (RemoveErrorAB a b)))"

text \<open>
  \<open>Close\<close> stops a running plot and waits for its goroutine, whose run is the argument \<open>run\<close>; an open
  file is its contents, so closing the two files changes nothing more. \<open>None\<close> is a panic.
\<close>

type_synonym 'pk plot_run = "fs \<Rightarrow> 'pk massdbv1 \<Rightarrow> (fs \<times> 'pk massdbv1) \<times> db_error option"

definition StopPlot_wait :: "'pk plot_run \<Rightarrow> fs \<Rightarrow> 'pk massdbv1 \<Rightarrow> (fs \<times> 'pk massdbv1) option" where
  "StopPlot_wait run fs mdb =
     (if MassDBV1_StopPlot mdb then map_option (\<lambda>mdb1. fst (run fs mdb1)) (StopPlot_close mdb)
      else Some (fs, mdb))"

definition MassDBV1_Close :: "'pk plot_run \<Rightarrow> fs \<Rightarrow> 'pk massdbv1 \<Rightarrow> (fs \<times> 'pk massdbv1) option" where
  "MassDBV1_Close run fs mdb = StopPlot_wait run fs mdb"

definition MassDBV1_BitLength :: "'pk massdbv1 \<Rightarrow> nat" where
  "MassDBV1_BitLength mdb = mdb_bl mdb"

definition MassDBV1_PubKeyHash :: "'pk massdbv1 \<Rightarrow> bytes" where
  "MassDBV1_PubKeyHash mdb = mdb_pubKeyHash mdb"

definition MassDBV1_PubKey :: "'pk massdbv1 \<Rightarrow> 'pk" where
  "MassDBV1_PubKey mdb = mdb_pubKey mdb"

definition massdb_v1_backend ::
  "'pk pocutil \<Rightarrow> os_faults \<Rightarrow> ('pk go_arg, fs, 'pk massdbv1) db_backend" where
  "massdb_v1_backend U F =
     \<lparr>Typ = TypeMassDBV1, backend_OpenDB = (\<lambda>args fs. (fs, OpenDB U F fs args)),
      backend_CreateDB = (\<lambda>args fs. CreateDB U F fs args)\<rparr>"

definition DBBackendList ::
  "'pk pocutil \<Rightarrow> os_faults \<Rightarrow> ('pk go_arg, fs, 'pk massdbv1) db_backend list" where
  "DBBackendList U F = AddDBBackend [] (massdb_v1_backend U F)"

definition NewMassDBV1ForTest :: "'pk pocutil \<Rightarrow> os_faults \<Rightarrow> fs \<Rightarrow> fpath \<Rightarrow> db_error + 'pk massdbv1" where
  "NewMassDBV1ForTest U F fs filePath =
     (case LoadHashMap U F fs filePath of Inl e \<Rightarrow> Inl e
      | Inr (LoadedA _) \<Rightarrow> Inl ErrDBWrongType
      | Inr (LoadedB hmB) \<Rightarrow>
          Inr \<lparr>HashMapA = None, HashMapB = hmB, filePathA = [], filePathB = filePath, mdb_bl = hm_bl hmB,
               mdb_pubKey = hm_pk hmB, mdb_pubKeyHash = hm_pkHash hmB, plotting = 0, stopPlotCh = ChNil,
               mdb_wg = 0\<rparr>)"

definition NewMassDBV1MapA :: "'pk pocutil \<Rightarrow> os_faults \<Rightarrow> fs \<Rightarrow> fpath \<Rightarrow> db_error + 'pk hashmapA" where
  "NewMassDBV1MapA U F fs filePath =
     (case LoadHashMap U F fs filePath of Inl e \<Rightarrow> Inl e
      | Inr (LoadedB _) \<Rightarrow> Inl ErrDBWrongType
      | Inr (LoadedA hmA) \<Rightarrow> Inr hmA)"

definition HashMapA_BitLength :: "'pk hashmapA \<Rightarrow> nat" where
  "HashMapA_BitLength hm = hm_bl hm"

definition HashMapA_PubKey :: "'pk hashmapA \<Rightarrow> 'pk" where
  "HashMapA_PubKey hm = hm_pk hm"

definition HashMapA_PubKeyHash :: "'pk hashmapA \<Rightarrow> bytes" where
  "HashMapA_PubKeyHash hm = hm_pkHash hm"

section \<open>The registry keeps one backend per type\<close>

lemma AddDBBackend_distinct:
  "distinct (map Typ bs) \<Longrightarrow> distinct (map Typ (AddDBBackend bs b))"
  by (auto simp: AddDBBackend_def list_ex_iff)

lemma find_append:
  "find P (xs @ ys) = (case find P xs of Some x \<Rightarrow> Some x | None \<Rightarrow> find P ys)"
  by (induction xs) auto

lemma find_AddDBBackend:
  "find (\<lambda>dbb. Typ dbb = t) (AddDBBackend bs b) =
     (case find (\<lambda>dbb. Typ dbb = t) bs of Some dbb \<Rightarrow> Some dbb
      | None \<Rightarrow> if Typ b = t then Some b else None)"
proof (cases "list_ex (\<lambda>dbb. Typ dbb = Typ b) bs")
  case True
  then have "find (\<lambda>dbb. Typ dbb = t) bs \<noteq> None" if "Typ b = t"
    using that by (auto simp: find_None_iff list_ex_iff)
  with True show ?thesis by (auto simp: AddDBBackend_def split: option.splits)
next
  case False
  then show ?thesis
    by (auto simp: AddDBBackend_def find_append split: option.splits)
qed

section \<open>Paths\<close>

lemma filepath_Join_inj: "filepath_Join d x = filepath_Join d y \<longleftrightarrow> x = y"
  by (simp add: filepath_Join_def)

lemma no_underscore [simp]:
  "CHR ''_'' \<notin> set (Itoa i)" "CHR ''_'' \<notin> set (hex_EncodeToString bs)"
  using set_Itoa [of i] set_hex_EncodeToString [of bs] by (auto simp: hextable_def)

lemma SerializeCompressed_inj:
  "pubkey_ok U \<Longrightarrow> SerializeCompressed U k = SerializeCompressed U k' \<longleftrightarrow> k = k'"
  by (metis pubkey_ok_def sum.inject(2))

definition nameB :: "'pk pocutil \<Rightarrow> int \<Rightarrow> 'pk \<Rightarrow> nat \<Rightarrow> string list" where
  "nameB U ordinal pk bl = [Itoa ordinal, hex_EncodeToString (SerializeCompressed U pk), Itoa (int bl)]"

lemma getPath_names:
  "getPath U root ordinal pk bl =
    (filepath_Join root (strings_Join (nameB U ordinal pk bl @ [''a'']) ''_'' @ ''.massdb''),
     filepath_Join root (strings_Join (nameB U ordinal pk bl) ''_'' @ ''.massdb''))"
  by (simp add: getPath_def nameB_def Let_def)

lemma split_nameB:
  "strings_Split (strings_Join (nameB U ordinal pk bl) ''_'') CHR ''_'' = nameB U ordinal pk bl"
  "strings_Split (strings_Join (nameB U ordinal pk bl @ [''a'']) ''_'') CHR ''_'' = nameB U ordinal pk bl @ [''a'']"
  by (rule strings_Split_Join; auto simp: nameB_def)+

lemma getPath_inj:
  assumes "pubkey_ok U" "snd (getPath U root ordinal pk bl) = snd (getPath U root ordinal' pk' bl')"
  shows "ordinal = ordinal' \<and> pk = pk' \<and> bl = bl'"
proof -
  have "strings_Join (nameB U ordinal pk bl) ''_'' = strings_Join (nameB U ordinal' pk' bl') ''_''"
    using assms(2) by (simp add: getPath_names filepath_Join_inj)
  then have "nameB U ordinal pk bl = nameB U ordinal' pk' bl'" by (metis split_nameB(1))
  then show ?thesis
    using SerializeCompressed_inj [OF assms(1)] by (simp add: nameB_def Itoa_inj hex_EncodeToString_inj)
qed

lemma getPath_AB: "fst (getPath U root ordinal pk bl) \<noteq> snd (getPath U root ordinal' pk' bl')"
proof
  assume "fst (getPath U root ordinal pk bl) = snd (getPath U root ordinal' pk' bl')"
  then have "strings_Join (nameB U ordinal pk bl @ [''a'']) ''_'' = strings_Join (nameB U ordinal' pk' bl') ''_''"
    by (simp add: getPath_names filepath_Join_inj)
  then have "nameB U ordinal pk bl @ [''a''] = nameB U ordinal' pk' bl'" by (metis split_nameB)
  then show False by (simp add: nameB_def)
qed

section \<open>A plot from start to end\<close>

text \<open>
  The consistent states of an unfinished plot: the records below each stored checkpoint are final,
  and table B is begun only when table A is complete.
\<close>

definition db_consistent :: "'pk pocutil \<Rightarrow> 'pk massdbv1 \<Rightarrow> bool" where
  "db_consistent U mdb \<longleftrightarrow>
     (case HashMapA mdb of None \<Rightarrow> False
      | Some hmA \<Rightarrow>
        let hmB = HashMapB mdb in
        hmA_wf U hmA \<and> hm_wf U hmB \<and> hm_bl hmB = hm_bl hmA \<and> hm_pkHash hmA = mdb_pubKeyHash mdb \<and>
        buffer_aligned (hm_recordSize hmA) (hm_V hmA) \<and>
        unat (ReadCheckpoint hmA) \<le> hm_V hmA \<and> unat (ReadCheckpoint hmB) \<le> hm_V hmA div 2 \<and>
        tableA_upto U hmA (unat (ReadCheckpoint hmA)) \<and>
        (ReadCheckpoint hmB = 0 \<or>
         ReadCheckpoint hmA = hm_volume hmA \<and> tableB_upto U hmA hmB (2 * unat (ReadCheckpoint hmB))))"

text \<open>
  A finished plot: it is ready, its checkpoint is stored, and every answer of table B is empty or a
  space proof.
\<close>

definition db_plotted :: "'pk pocutil \<Rightarrow> 'pk massdbv1 \<Rightarrow> bool" where
  "db_plotted U mdb \<longleftrightarrow>
     MassDBV1_Ready mdb \<and> HashMapA mdb = None \<and>
     hm_checkpoint (HashMapB mdb) = ReadCheckpoint (HashMapB mdb) \<and>
     (let hmB = HashMapB mdb; rs = hm_recordSize hmB in
      \<forall>z. unat z < hm_V hmB \<longrightarrow>
        (\<exists>x xp. HashMapB_Get hmB z = Inr (x, xp) \<and>
          (x = replicate rs 0 \<and> xp = replicate rs 0 \<or>
           space_proof U (hm_bl hmB) (mdb_pubKeyHash mdb) x xp z)))"

lemma eventsB_checkpoint:
  assumes "LenMetaInfo + hm_V hmA * hm_recordSize hmA \<le> length (hm_data hmA)"
    "2 * (hm_V hmA div 2) = hm_V hmA"
  shows "eventsB U (UpdateCheckpoint (hmA\<lparr>hm_checkpoint := c\<rparr>)) = eventsB U hmA"
proof -
  let ?rs = "hm_recordSize hmA"
  have "record_of (UpdateCheckpoint (hmA\<lparr>hm_checkpoint := c\<rparr>)) (2 * ?rs) y = record_of hmA (2 * ?rs) y"
    if "y < hm_V hmA div 2" for y
  proof -
    have "y * (2 * ?rs) + 2 * ?rs \<le> hm_V hmA div 2 * (2 * ?rs)" using that by (rule record_end)
    also have "\<dots> = hm_V hmA * ?rs" using assms(2) by (metis mult.assoc mult.commute)
    finally have "LenMetaInfo + y * (2 * ?rs) + 2 * ?rs \<le> length (hm_data hmA)" using assms(1) by linarith
    then show ?thesis
      by (simp add: record_of_def UpdateCheckpoint_def pos_defs read_at_write_after)
  qed
  then show ?thesis by (auto simp: eventsB_def intro!: arg_cong [where f = concat])
qed

lemma prePlotWork_again:
  assumes "ReadCheckpoint hmA = hm_volume hmA" "prePlotWork U E fuel hmA cache = Some ((hmA', cache'), r)"
  shows "hmA' = hmA \<or> hmA' = UpdateCheckpoint (hmA\<lparr>hm_checkpoint := hm_volume hmA\<rparr>)"
  using assms by (cases fuel) (auto simp: prePlotWork_def Let_def split: if_splits)

lemma tableB_upto_0: "hm_wf U hmB \<Longrightarrow> tableB_upto U hmA hmB 0"
  by (simp add: table_upto_def hm_wf_def)

lemma db_consistent_prePlot:
  assumes c: "db_consistent U mdb" and A: "HashMapA mdb = Some hmA" and ev: "even (unat (ReadCheckpoint hmA))"
    and r: "prePlotWork U E fuel hmA cache = Some ((hmA', cache'), r)"
  shows "db_consistent U (mdb\<lparr>HashMapA := Some hmA'\<rparr>)" "same_table hmA' hmA"
    "r = None \<Longrightarrow> ReadCheckpoint hmA' = hm_volume hmA'"
proof -
  let ?hmB = "HashMapB mdb"
  have wfA: "hmA_wf U hmA" and wfB: "hm_wf U ?hmB" and bl: "hm_bl ?hmB = hm_bl hmA"
    and h: "hm_pkHash hmA = mdb_pubKeyHash mdb" and al: "buffer_aligned (hm_recordSize hmA) (hm_V hmA)"
    and le: "unat (ReadCheckpoint hmA) \<le> hm_V hmA" "unat (ReadCheckpoint ?hmB) \<le> hm_V hmA div 2"
    and t: "tableA_upto U hmA (unat (ReadCheckpoint hmA))"
    and B: "ReadCheckpoint ?hmB = 0 \<or>
      ReadCheckpoint hmA = hm_volume hmA \<and> tableB_upto U hmA ?hmB (2 * unat (ReadCheckpoint ?hmB))"
    using c A by (auto simp: db_consistent_def Let_def)
  have safe: "hmA_wf U hmA'" "same_table hmA' hmA" "tableA_upto U hmA' (unat (ReadCheckpoint hmA'))"
    "unat (ReadCheckpoint hmA') \<le> hm_V hmA" "r = None \<Longrightarrow> ReadCheckpoint hmA' = hm_volume hmA"
    using prePlotWork_safe [OF wfA t ev le(1) r] by auto
  note same = same_table_simps [OF safe(2)]
  show "same_table hmA' hmA" by (rule safe(2))
  show "r = None \<Longrightarrow> ReadCheckpoint hmA' = hm_volume hmA'" using safe(5) same(2) by simp
  have "ReadCheckpoint ?hmB = 0 \<or>
      ReadCheckpoint hmA' = hm_volume hmA' \<and> tableB_upto U hmA' ?hmB (2 * unat (ReadCheckpoint ?hmB))"
  proof (cases "ReadCheckpoint ?hmB = 0")
    case False
    with B have cA: "ReadCheckpoint hmA = hm_volume hmA" and tB: "tableB_upto U hmA ?hmB (2 * unat (ReadCheckpoint ?hmB))"
      by auto
    have hw: "hm_wf U hmA" using wfA by (simp add: hmA_wf_def)
    have "LenMetaInfo + hm_V hmA * hm_recordSize hmA \<le> length (hm_data hmA)"
      using t unfolding cA unat_volume [OF hw] by (simp add: table_upto_def)
    note ev = eventsB_checkpoint [OF this hm_V_bounds(2) [OF hw]]
    from prePlotWork_again [OF cA r] show ?thesis
    proof
      assume "hmA' = UpdateCheckpoint (hmA\<lparr>hm_checkpoint := hm_volume hmA\<rparr>)"
      then show ?thesis
        using tB ev hmA_wf_hdr [OF wfA] by (simp add: ReadCheckpoint_UpdateCheckpoint)
    qed (use cA tB in simp)
  qed simp
  with safe wfB bl h al le(2) same show "db_consistent U (mdb\<lparr>HashMapA := Some hmA'\<rparr>)"
    by (simp add: db_consistent_def Let_def)
qed

lemma db_consistent_plotB:
  assumes c: "db_consistent U mdb" and A: "HashMapA mdb = Some hmA" and cA: "ReadCheckpoint hmA = hm_volume hmA"
  shows "plotB_ok U hmA (HashMapB mdb)" "tableA_upto U hmA (hm_V hmA)"
    "tableB_upto U hmA (HashMapB mdb) (2 * unat (ReadCheckpoint (HashMapB mdb)))"
    "unat (ReadCheckpoint (HashMapB mdb)) \<le> hm_V hmA div 2"
proof -
  have wfA: "hmA_wf U hmA" and wfB: "hm_wf U (HashMapB mdb)"
    using c A by (auto simp: db_consistent_def Let_def)
  have hw: "hm_wf U hmA" using wfA by (simp add: hmA_wf_def)
  have "tableA_upto U hmA (unat (hm_volume hmA))" using c A cA by (auto simp: db_consistent_def Let_def)
  then show tA: "tableA_upto U hmA (hm_V hmA)" by (simp add: unat_volume [OF hw])
  then have "hm_full (hm_recordSize hmA) hmA" by (simp add: hm_full_def table_upto_def)
  with c A show "plotB_ok U hmA (HashMapB mdb)" by (auto simp: db_consistent_def Let_def plotB_ok_def)
  show "tableB_upto U hmA (HashMapB mdb) (2 * unat (ReadCheckpoint (HashMapB mdb)))"
    "unat (ReadCheckpoint (HashMapB mdb)) \<le> hm_V hmA div 2"
    using c A tableB_upto_0 [OF wfB, of hmA] by (auto simp: db_consistent_def Let_def)
qed

lemma db_consistent_plot:
  assumes c: "db_consistent U mdb" and A: "HashMapA mdb = Some hmA" and cA: "ReadCheckpoint hmA = hm_volume hmA"
    and r: "plotWork U E fuel hmA (HashMapB mdb) cache = Some ((hmB', cache'), r)"
  shows "db_consistent U (mdb\<lparr>HashMapB := hmB'\<rparr>)"
    "r = None \<Longrightarrow> db_plotted U (plot_exit (mdb\<lparr>HashMapB := hmB', HashMapA := None\<rparr>))"
proof -
  note ok = db_consistent_plotB [OF c A cA]
  have safe: "plotB_ok U hmA hmB'" "tableB_upto U hmA hmB' (2 * unat (ReadCheckpoint hmB'))"
    "unat (ReadCheckpoint hmB') \<le> hm_V hmA div 2"
    "r = None \<Longrightarrow> unat (ReadCheckpoint hmB') = hm_V hmA div 2 \<and> fst (HashMapB_Progress hmB') \<and>
      hm_checkpoint hmB' = ReadCheckpoint hmB'"
    using plotWork_safe [OF ok(1,3,4) r] by auto
  have h: "hm_pkHash hmA = mdb_pubKeyHash mdb" using c A by (auto simp: db_consistent_def Let_def)
  show "db_consistent U (mdb\<lparr>HashMapB := hmB'\<rparr>)"
    using c A cA safe(1-3) by (auto simp: db_consistent_def Let_def plotB_ok_def)
  show "db_plotted U (plot_exit (mdb\<lparr>HashMapB := hmB', HashMapA := None\<rparr>))" if "r = None"
  proof -
    have tB: "tableB_upto U hmA hmB' (hm_V hmA)"
      using safe(2,4) that plotB_ok_simps(10) [OF ok(1)] by simp
    have "hm_bl hmB' = hm_bl hmA" "hm_recordSize hmB' = hm_recordSize hmA"
      using safe(1) plotB_ok_simps(5) [OF safe(1)] by (auto simp: plotB_ok_def)
    with tableB_sound [OF safe(1) ok(2) tB] safe(4) [OF that] h show ?thesis
      by (auto simp: db_plotted_def plot_exit_def MassDBV1_Ready_def Let_def)
  qed
qed

lemma db_consistent_exit [simp]: "db_consistent U (plot_exit mdb) \<longleftrightarrow> db_consistent U mdb"
  by (cases "HashMapA mdb") (simp_all add: db_consistent_def plot_exit_def)

lemma executePlot_safe:
  assumes c: "db_consistent U mdb"
    and ev: "\<And>hmA. HashMapA mdb = Some hmA \<Longrightarrow> even (unat (ReadCheckpoint hmA))"
    and r: "executePlot U F E1 E2 fuel fs mdb = Some ((fs', mdb'), r)"
  shows "plotting mdb' = 0 \<and> (db_consistent U mdb' \<or> r = None \<and> db_plotted U mdb')"
proof -
  obtain hmA where A: "HashMapA mdb = Some hmA" using c by (auto simp: db_consistent_def split: option.splits)
  from r A obtain hmA' cache' r1 where
    p: "prePlotWork U E1 fuel hmA (NewMemCache 0) = Some ((hmA', cache'), r1)"
    by (auto simp: executePlot_def split: option.splits)
  note pre = db_consistent_prePlot [OF c A ev [OF A] p]
  show ?thesis
  proof (cases r1)
    case (Some err)
    with r A p pre(1) show ?thesis by (auto simp: executePlot_def plot_exit_def db_consistent_def)
  next
    case None
    let ?mdb1 = "mdb\<lparr>HashMapA := Some hmA'\<rparr>"
    from r A p None obtain hmB' cache2 r2 where
      q: "plotWork U E2 fuel hmA' (HashMapB ?mdb1) cache' = Some ((hmB', cache2), r2)"
      by (auto simp: executePlot_def Let_def split: option.splits)
    note plot = db_consistent_plot [OF pre(1) _ pre(3) [OF None] q]
    show ?thesis
    proof (cases r2)
      case (Some err)
      with r A p None q plot(1) show ?thesis
        by (auto simp: executePlot_def plot_exit_def db_consistent_def)
    next
      case r2: None
      with r A p None q plot(2) show ?thesis
        by (auto simp: executePlot_def Let_def plot_exit_def)
    qed
  qed
qed

lemma executePlot_ends:
  assumes c: "db_consistent U mdb" and A: "HashMapA mdb = Some hmA" and ev: "even (unat (ReadCheckpoint hmA))"
    and E: "plot_env_ok E1" "plot_env_ok E2" and V: "100 \<le> hm_V hmA" and fuel: "hm_V hmA < fuel"
  shows "\<exists>fs' mdb'. executePlot U F E1 E2 fuel fs mdb = Some ((fs', mdb'), None) \<and> db_plotted U mdb'"
proof -
  have pA: "hmA_wf U hmA" "tableA_upto U hmA (unat (ReadCheckpoint hmA))" "unat (ReadCheckpoint hmA) \<le> hm_V hmA"
    using c A by (auto simp: db_consistent_def Let_def)
  obtain hmA' cache' where
    p: "prePlotWork U E1 fuel hmA (NewMemCache 0) = Some ((hmA', cache'), None)"
    using prePlotWork_ends [OF pA(1,2) ev pA(3) E(1) _ fuel] V by fastforce
  note pre = db_consistent_prePlot [OF c A ev p]
  let ?mdb1 = "mdb\<lparr>HashMapA := Some hmA'\<rparr>"
  have A1: "HashMapA ?mdb1 = Some hmA'" by simp
  note ok = db_consistent_plotB [OF pre(1) A1 pre(3) [OF refl]]
  have V': "hm_V hmA' = hm_V hmA" using same_table_simps(1) [OF pre(2)] by simp
  obtain hmB' cache2 where
    q: "plotWork U E2 fuel hmA' (HashMapB ?mdb1) cache' = Some ((hmB', cache2), None)"
    using plotWork_ends [OF ok(1,3,4) E(2)] V fuel unfolding V' by blast
  have "db_plotted U (plot_exit (?mdb1\<lparr>HashMapB := hmB', HashMapA := None\<rparr>))"
    by (rule db_consistent_plot(2) [OF pre(1) A1 pre(3) [OF refl] q refl])
  with A p q show ?thesis by (simp add: executePlot_def Let_def)
qed

section \<open>Creating and reopening\<close>

abbreviation db_args :: "string \<Rightarrow> int \<Rightarrow> 'pk \<Rightarrow> nat \<Rightarrow> 'pk go_arg list" where
  "db_args root ordinal pk bl \<equiv> [ArgString root, ArgInt64 ordinal, ArgPubKey pk, ArgInt bl]"

lemma loadHashMap_cong:
  assumes "fs p = fs' p"
  shows "loadHashMap U F fs p = loadHashMap U F fs' p"
proof -
  have "openMapFile F fs p = openMapFile F fs' p" unfolding openMapFile_def os_Stat_ok_def assms ..
  then show ?thesis by (simp only: loadHashMap_def)
qed

lemma loadHashMap_checkpoint:
  assumes "loadHashMap U F fs p = Inr (hm, mt)"
  shows "ReadCheckpoint hm = hm_checkpoint hm" "fs p = Some (hm_data hm)"
proof -
  have "LenMetaInfo \<le> length (hm_data hm)" by (rule loadHashMap_volume(5) [OF assms])
  then show "ReadCheckpoint hm = hm_checkpoint hm"
    using assms by (auto simp: ReadCheckpoint_eq loadHashMap_def Let_def read_at_read_at pos_defs
        split: sum.splits if_splits prod.splits option.splits)
  show "fs p = Some (hm_data hm)"
    using assms by (auto simp: loadHashMap_def openMapFile_def Let_def
        split: sum.splits if_splits prod.splits option.splits)
qed

lemma loadHashMap_wf:
  assumes "loadHashMap U F fs p = Inr (hm, mt)" "pocutil_ok U (hm_bl hm)"
  shows "hm_wf U hm"
  using loadHashMap_volume [OF assms(1)] assms(2) by (simp add: hm_wf_def)

lemma toHashMapA_simps [simp]:
  "hm_data (toHashMapA hm) = hm_data hm" "hm_bl (toHashMapA hm) = hm_bl hm"
  "hm_volume (toHashMapA hm) = hm_volume hm" "hm_checkpoint (toHashMapA hm) = hm_checkpoint hm"
  "hm_offset (toHashMapA hm) = hm_offset hm" "hm_recordSize (toHashMapA hm) = hm_recordSize hm"
  "hm_pkHash (toHashMapA hm) = hm_pkHash hm" "hmA_half (toHashMapA hm) = hm_volume hm div 2"
  "ReadCheckpoint (toHashMapA hm) = ReadCheckpoint hm" "hmA_wf U (toHashMapA hm) \<longleftrightarrow> hm_wf U hm"
  by (simp_all add: toHashMapA_def hashmap.defs ReadCheckpoint_def hmA_wf_def hm_wf_def)

lemma createMapFile_fresh:
  assumes "fs p = None"
  shows "\<exists>d. createMapFile U no_faults fs p mt bl pk = (fs(p \<mapsto> d), Inr d)"
  using assms by (simp add: createMapFile_def no_faults_def os_Stat_ok_def Let_def)

text \<open>What \<open>CreateDB\<close> leaves in the two files, and what it returns.\<close>

lemma CreateDB_fresh:
  assumes pk: "pubkey_ok U" and bl: "bl < 256"
    and P: "getPath U root ordinal pk bl = (pathA, pathB)" "fs pathA = None" "fs pathB = None"
  shows "\<exists>fs' hmA hmB.
    CreateDB U no_faults fs (db_args root ordinal pk bl) =
      (fs', Inr (new_mdb U (Some (toHashMapA hmA)) hmB pathA pathB bl pk)) \<and>
    loadHashMap U no_faults fs' pathA = Inr (hmA, MapTypeHashMapA) \<and>
    loadHashMap U no_faults fs' pathB = Inr (hmB, MapTypeHashMapB) \<and>
    hm_bl hmA = bl \<and> hm_bl hmB = bl \<and> hm_checkpoint hmA = 0 \<and> hm_checkpoint hmB = 0 \<and>
    hm_pkHash hmA = PubKeyHash U pk \<and> hm_pkHash hmB = PubKeyHash U pk \<and>
    (\<forall>p. p \<noteq> pathA \<and> p \<noteq> pathB \<longrightarrow> fs' p = fs p)"
proof -
  have AB: "pathA \<noteq> pathB" using getPath_AB [of U root ordinal pk bl ordinal pk bl] P(1) by simp
  obtain dA where a: "createMapFile U no_faults fs pathA MapTypeHashMapA bl pk = (fs(pathA \<mapsto> dA), Inr dA)"
    using createMapFile_fresh [of fs pathA U MapTypeHashMapA bl pk] P(2) by blast
  let ?fs1 = "fs(pathA \<mapsto> dA)"
  have "?fs1 pathB = None" using P(3) AB by simp
  then obtain dB where
    b: "createMapFile U no_faults ?fs1 pathB MapTypeHashMapB bl pk = (?fs1(pathB \<mapsto> dB), Inr dB)"
    using createMapFile_fresh [of ?fs1 pathB U MapTypeHashMapB bl pk] by blast
  let ?fs2 = "?fs1(pathB \<mapsto> dB)"
  have nf: "\<not> stat_fails no_faults p" for p by (simp add: no_faults_def)
  obtain hmA where A: "loadHashMap U no_faults ?fs1 pathA = Inr (hmA, MapTypeHashMapA)" "hm_bl hmA = bl"
    "hm_checkpoint hmA = 0" "hm_pkHash hmA = PubKeyHash U pk"
    using loadHashMap_created [OF pk a nf bl] by auto
  obtain hmB where B: "loadHashMap U no_faults ?fs2 pathB = Inr (hmB, MapTypeHashMapB)" "hm_bl hmB = bl"
    "hm_checkpoint hmB = 0" "hm_pkHash hmB = PubKeyHash U pk"
    using loadHashMap_created [OF pk b nf bl] by auto
  have "?fs1 pathA = ?fs2 pathA" using AB by simp
  then have "loadHashMap U no_faults ?fs1 pathA = loadHashMap U no_faults ?fs2 pathA"
    by (rule loadHashMap_cong)
  with A(1) have A2: "loadHashMap U no_faults ?fs2 pathA = Inr (hmA, MapTypeHashMapA)" by simp
  have "MapTypeHashMapB \<noteq> MapTypeHashMapA" by (simp add: MapTypeHashMapA_def MapTypeHashMapB_def)
  then have "CreateDB U no_faults fs (db_args root ordinal pk bl) =
      (?fs2, Inr (new_mdb U (Some (toHashMapA hmA)) hmB pathA pathB bl pk))"
    by (simp add: CreateDB_def P(1) CreateHashMap_def a b LoadHashMap_def A2 B(1))
  with A2 A(2-4) B show ?thesis by (intro exI [of _ ?fs2] exI [of _ hmA] exI [of _ hmB]) simp
qed

lemma new_mdb_consistent:
  assumes "pocutil_ok U bl" "buffer_aligned (RecordSize U bl) (2 ^ bl)"
    "loadHashMap U F fs pathA = Inr (hmA, mtA)" "loadHashMap U F fs' pathB = Inr (hmB, mtB)"
    "hm_bl hmA = bl" "hm_bl hmB = bl" "hm_checkpoint hmA = 0" "hm_checkpoint hmB = 0"
    "hm_pkHash hmA = PubKeyHash U pk"
  shows "db_consistent U (new_mdb U (Some (toHashMapA hmA)) hmB pA pB bl pk)"
proof -
  have wf: "hm_wf U hmA" "hm_wf U hmB"
    using loadHashMap_wf [OF assms(3)] loadHashMap_wf [OF assms(4)] assms(1,5,6) by auto
  moreover have "ReadCheckpoint hmA = 0" "ReadCheckpoint hmB = 0"
    using loadHashMap_checkpoint(1) [OF assms(3)] loadHashMap_checkpoint(1) [OF assms(4)] assms(7,8) by auto
  moreover have "hm_recordSize hmA = RecordSize U bl" "LenMetaInfo \<le> length (hm_data hmA)"
    using wf(1) assms(5) by (auto simp: hm_wf_def)
  ultimately show ?thesis
    using assms by (simp add: db_consistent_def new_mdb_def Let_def table_upto_def)
qed

text \<open>
  A database whose files would load to its present state. Reopening such a database reads the
  checkpoints from the headers.
\<close>

definition on_disk :: "'pk pocutil \<Rightarrow> os_faults \<Rightarrow> fs \<Rightarrow> 'pk massdbv1 \<Rightarrow> bool" where
  "on_disk U F fs mdb \<longleftrightarrow>
     loadHashMap U F fs (filePathB mdb) =
       Inr ((HashMapB mdb)\<lparr>hm_checkpoint := ReadCheckpoint (HashMapB mdb)\<rparr>, MapTypeHashMapB) \<and>
     (case HashMapA mdb of None \<Rightarrow> True
      | Some hmA \<Rightarrow> \<exists>h. loadHashMap U F fs (filePathA mdb) = Inr (h, MapTypeHashMapA) \<and>
          toHashMapA h = hmA\<lparr>hm_checkpoint := ReadCheckpoint hmA\<rparr>)"

lemma same_table_reload:
  assumes "same_table hm' hm"
  shows "hm\<lparr>hm_data := hm_data hm', hm_checkpoint := c\<rparr> = hm'\<lparr>hm_checkpoint := c\<rparr>"
  using assms by (cases hm; cases hm'; simp add: same_table_def)

lemma load_written:
  assumes l: "loadHashMap U F fs p = Inr (hm\<lparr>hm_checkpoint := c\<rparr>, mt)" and s: "same_header (hm_data hm') (hm_data hm)"
    and t: "same_table hm' hm" and p: "fs' p = Some (hm_data hm')"
  shows "loadHashMap U F fs' p = Inr (hm'\<lparr>hm_checkpoint := ReadCheckpoint hm'\<rparr>, mt)"
proof -
  have "LenMetaInfo \<le> length (hm_data hm')" using s by (simp add: same_header_def)
  then have "ReadCheckpoint hm' = le_Uint64 (read_at (hm_data hm') PosCheckpoint LenCheckpoint)"
    by (rule ReadCheckpoint_eq)
  with loadHashMap_same_header [where fs' = fs', OF l p] s same_table_reload [OF t] show ?thesis by simp
qed

lemma toHashMapA_update:
  "toHashMapA (h\<lparr>hm_data := d, hm_checkpoint := c\<rparr>) = (toHashMapA h)\<lparr>hm_data := d, hm_checkpoint := c\<rparr>"
  by (simp add: toHashMapA_def hashmap.defs)

lemma load_writtenA:
  assumes l: "loadHashMap U F fs p = Inr (h, mt)" "toHashMapA h = hm\<lparr>hm_checkpoint := c\<rparr>"
    and s: "same_header (hm_data hm') (hm_data hm)" and t: "same_table hm' hm" and p: "fs' p = Some (hm_data hm')"
  shows "\<exists>h'. loadHashMap U F fs' p = Inr (h', mt) \<and> toHashMapA h' = hm'\<lparr>hm_checkpoint := ReadCheckpoint hm'\<rparr>"
proof -
  have "hm_data h = hm_data hm"
    by (metis hashmap.select_convs(1) l(2) toHashMapA_simps(1) hashmap.surjective hashmap.update_convs(4))
  then have "loadHashMap U F fs' p = Inr (h\<lparr>hm_data := hm_data hm',
      hm_checkpoint := le_Uint64 (read_at (hm_data hm') PosCheckpoint LenCheckpoint)\<rparr>, mt)"
    using loadHashMap_same_header [where fs' = fs', OF l(1) p] s by simp
  moreover have "LenMetaInfo \<le> length (hm_data hm')" using s by (simp add: same_header_def)
  then have "ReadCheckpoint hm' = le_Uint64 (read_at (hm_data hm') PosCheckpoint LenCheckpoint)"
    by (rule ReadCheckpoint_eq)
  ultimately show ?thesis
    using same_table_reload [OF t] by (simp add: toHashMapA_update l(2))
qed

lemma executePlot_on_disk:
  assumes c: "db_consistent U mdb"
    and ev: "\<And>hmA. HashMapA mdb = Some hmA \<Longrightarrow> even (unat (ReadCheckpoint hmA))"
    and d: "on_disk U F fs mdb" and AB: "filePathA mdb \<noteq> filePathB mdb"
    and r: "executePlot U F E1 E2 fuel fs mdb = Some ((fs', mdb'), r)"
  shows "on_disk U F fs' mdb' \<and> filePathA mdb' = filePathA mdb \<and> filePathB mdb' = filePathB mdb \<and>
    mdb_pubKeyHash mdb' = mdb_pubKeyHash mdb"
proof -
  obtain hmA where A: "HashMapA mdb = Some hmA" using c by (auto simp: db_consistent_def split: option.splits)
  let ?pA = "filePathA mdb" and ?pB = "filePathB mdb" and ?hmB = "HashMapB mdb"
  obtain h where lA: "loadHashMap U F fs ?pA = Inr (h, MapTypeHashMapA)"
      "toHashMapA h = hmA\<lparr>hm_checkpoint := ReadCheckpoint hmA\<rparr>"
    and lB: "loadHashMap U F fs ?pB = Inr (?hmB\<lparr>hm_checkpoint := ReadCheckpoint ?hmB\<rparr>, MapTypeHashMapB)"
    using d A by (auto simp: on_disk_def)
  from r A obtain hmA' cache' r1 where
    p: "prePlotWork U E1 fuel hmA (NewMemCache 0) = Some ((hmA', cache'), r1)"
    by (auto simp: executePlot_def split: option.splits)
  have pA: "hmA_wf U hmA" "tableA_upto U hmA (unat (ReadCheckpoint hmA))" "unat (ReadCheckpoint hmA) \<le> hm_V hmA"
    using c A by (auto simp: db_consistent_def Let_def)
  note pre = db_consistent_prePlot [OF c A ev [OF A] p]
  note hdrA = prePlotWork_header [OF pA(1,2) ev [OF A] pA(3) p]
  have nA: "\<exists>h'. loadHashMap U F fs1 ?pA = Inr (h', MapTypeHashMapA) \<and>
      toHashMapA h' = hmA'\<lparr>hm_checkpoint := ReadCheckpoint hmA'\<rparr>" if "fs1 ?pA = Some (hm_data hmA')" for fs1
    by (rule load_writtenA [where fs' = fs1, OF lA hdrA pre(2) that])
  let ?fs1 = "fs(?pA \<mapsto> hm_data hmA')"
  have nB: "loadHashMap U F ?fs1 ?pB = Inr (?hmB\<lparr>hm_checkpoint := ReadCheckpoint ?hmB\<rparr>, MapTypeHashMapB)"
    using lB loadHashMap_cong [of ?fs1 ?pB fs U F] AB by simp
  show ?thesis
  proof (cases r1)
    case (Some err)
    with r A p nA [of ?fs1] nB show ?thesis by (auto simp: executePlot_def plot_exit_def on_disk_def)
  next
    case None
    let ?mdb1 = "mdb\<lparr>HashMapA := Some hmA'\<rparr>"
    from r A p None obtain hmB' cache2 r2 where
      q: "plotWork U E2 fuel hmA' (HashMapB ?mdb1) cache' = Some ((hmB', cache2), r2)"
      by (auto simp: executePlot_def Let_def split: option.splits)
    have A1: "HashMapA ?mdb1 = Some hmA'" by simp
    note ok = db_consistent_plotB [OF pre(1) A1 pre(3) [OF None]]
    have hdrB: "same_header (hm_data hmB') (hm_data ?hmB)" "same_table hmB' ?hmB"
      using plotWork_header [OF ok(1,3,4) q] by auto
    have nB': "loadHashMap U F fs2 ?pB = Inr (hmB'\<lparr>hm_checkpoint := ReadCheckpoint hmB'\<rparr>, MapTypeHashMapB)"
      if "fs2 ?pB = Some (hm_data hmB')" for fs2
      by (rule load_written [where fs' = fs2, OF lB hdrB that])
    show ?thesis
    proof (cases r2)
      case (Some err)
      with r A p None q nA [of "?fs1(?pB \<mapsto> hm_data hmB')"] nB' [of "?fs1(?pB \<mapsto> hm_data hmB')"] AB show ?thesis
        by (auto simp: executePlot_def plot_exit_def on_disk_def)
    next
      case r2: None
      with r A p None q AB nB' [of fs'] show ?thesis
        by (auto simp: executePlot_def Let_def plot_exit_def on_disk_def split: if_splits)
    qed
  qed
qed

text \<open>Reopening: the state that \<open>OpenDB\<close> builds is the one that was left, with idle workers.\<close>

lemma OpenDB_on_disk:
  assumes d: "on_disk U F fs mdb" and P: "getPath U root ordinal pk bl = (filePathA mdb, filePathB mdb)"
    and h: "mdb_pubKeyHash mdb = PubKeyHash U pk" and c: "db_consistent U mdb"
    and np: "unat (ReadCheckpoint (HashMapB mdb)) < hm_V (HashMapB mdb) div 2"
  shows "\<exists>mdb2. OpenDB U F fs (db_args root ordinal pk bl) = Inr mdb2 \<and> db_consistent U mdb2 \<and> on_disk U F fs mdb2"
proof -
  obtain hmA where A: "HashMapA mdb = Some hmA" using c by (auto simp: db_consistent_def split: option.splits)
  let ?hmB = "HashMapB mdb"
  let ?hmB' = "?hmB\<lparr>hm_checkpoint := ReadCheckpoint ?hmB\<rparr>" and ?hmA' = "hmA\<lparr>hm_checkpoint := ReadCheckpoint hmA\<rparr>"
  obtain hA where lA: "loadHashMap U F fs (filePathA mdb) = Inr (hA, MapTypeHashMapA)" "toHashMapA hA = ?hmA'"
    and lB: "loadHashMap U F fs (filePathB mdb) = Inr (?hmB', MapTypeHashMapB)"
    using d A by (auto simp: on_disk_def)
  have wfB: "hm_wf U ?hmB" using c A by (auto simp: db_consistent_def Let_def)
  have "unat (hm_volume ?hmB div 2) = hm_V ?hmB div 2" using unat_volume [OF wfB] by (simp add: unat_div)
  with np have "\<not> fst (HashMapB_Progress ?hmB')" by (simp add: HashMapB_Progress_def word_le_nat_alt)
  moreover have "MapTypeHashMapB \<noteq> MapTypeHashMapA" by (simp add: MapTypeHashMapA_def MapTypeHashMapB_def)
  ultimately have "OpenDB U F fs (db_args root ordinal pk bl) =
      Inr (new_mdb U (Some ?hmA') ?hmB' (filePathA mdb) (filePathB mdb) bl pk)"
    using lA lB by (simp add: OpenDB_def P LoadHashMap_def)
  moreover have rc: "ReadCheckpoint ?hmA' = ReadCheckpoint hmA" "ReadCheckpoint ?hmB' = ReadCheckpoint ?hmB"
    by (simp_all add: ReadCheckpoint_def)
  have "eventsB U ?hmA' = eventsB U hmA" by (simp add: eventsB_def record_of_def)
  then have "db_consistent U (new_mdb U (Some ?hmA') ?hmB' (filePathA mdb) (filePathB mdb) bl pk)"
    using c A h rc by (auto simp: db_consistent_def Let_def new_mdb_def hmA_wf_update hm_wf_data)
  moreover have "on_disk U F fs (new_mdb U (Some ?hmA') ?hmB' (filePathA mdb) (filePathB mdb) bl pk)"
    using lA lB rc by (simp add: on_disk_def new_mdb_def)
  ultimately show ?thesis by blast
qed

lemma OpenDB_plotted:
  assumes d: "on_disk U F fs mdb" and P: "getPath U root ordinal pk bl = (filePathA mdb, filePathB mdb)"
    and h: "mdb_pubKeyHash mdb = PubKeyHash U pk" and c: "db_plotted U mdb"
  shows "\<exists>mdb2. OpenDB U F fs (db_args root ordinal pk bl) = Inr mdb2 \<and> db_plotted U mdb2"
proof -
  have lB: "loadHashMap U F fs (filePathB mdb) = Inr (HashMapB mdb, MapTypeHashMapB)"
    using d c by (cases "HashMapB mdb") (simp add: on_disk_def db_plotted_def)
  moreover have "MapTypeHashMapB \<noteq> MapTypeHashMapA" by (simp add: MapTypeHashMapA_def MapTypeHashMapB_def)
  moreover have "fst (HashMapB_Progress (HashMapB mdb))" using c by (simp add: db_plotted_def MassDBV1_Ready_def)
  ultimately have "OpenDB U F fs (db_args root ordinal pk bl) =
      Inr (new_mdb U None (HashMapB mdb) (filePathA mdb) (filePathB mdb) bl pk)"
    by (simp add: OpenDB_def P LoadHashMap_def)
  moreover have "db_plotted U (new_mdb U None (HashMapB mdb) (filePathA mdb) (filePathB mdb) bl pk)"
    using c h by (simp add: db_plotted_def new_mdb_def MassDBV1_Ready_def)
  ultimately show ?thesis by blast
qed

text \<open>A database that was just created is consistent and on disk.\<close>

lemma CreateDB_ready:
  assumes pk: "pubkey_ok U" and ok: "pocutil_ok U bl" "buffer_aligned (RecordSize U bl) (2 ^ bl)"
    and fs: "fs (fst (getPath U root ordinal pk bl)) = None" "fs (snd (getPath U root ordinal pk bl)) = None"
  shows "\<exists>fs1 mdb hmA. CreateDB U no_faults fs (db_args root ordinal pk bl) = (fs1, Inr mdb) \<and>
    db_consistent U mdb \<and> on_disk U no_faults fs1 mdb \<and>
    HashMapA mdb = Some hmA \<and> ReadCheckpoint hmA = 0 \<and> hm_bl hmA = bl \<and>
    plotting mdb = 0 \<and> mdb_wg mdb = 0 \<and> mdb_pubKeyHash mdb = PubKeyHash U pk \<and>
    getPath U root ordinal pk bl = (filePathA mdb, filePathB mdb) \<and> filePathA mdb \<noteq> filePathB mdb"
proof -
  obtain pathA pathB where P: "getPath U root ordinal pk bl = (pathA, pathB)" by fastforce
  have bl: "bl < 256" using ok(1) by (simp add: pocutil_ok_def)
  obtain fs1 hmA hmB where cr:
    "CreateDB U no_faults fs (db_args root ordinal pk bl) =
      (fs1, Inr (new_mdb U (Some (toHashMapA hmA)) hmB pathA pathB bl pk))"
    and l: "loadHashMap U no_faults fs1 pathA = Inr (hmA, MapTypeHashMapA)"
      "loadHashMap U no_faults fs1 pathB = Inr (hmB, MapTypeHashMapB)"
      "hm_bl hmA = bl" "hm_bl hmB = bl" "hm_checkpoint hmA = 0" "hm_checkpoint hmB = 0"
      "hm_pkHash hmA = PubKeyHash U pk"
    using CreateDB_fresh [where fs = fs, OF pk bl P] fs unfolding P fst_conv snd_conv by blast
  define mdb where "mdb = new_mdb U (Some (toHashMapA hmA)) hmB pathA pathB bl pk"
  have c: "db_consistent U mdb" unfolding mdb_def by (rule new_mdb_consistent [OF ok l])
  have ck: "ReadCheckpoint hmA = 0" "ReadCheckpoint hmB = 0"
    using loadHashMap_checkpoint(1) [OF l(1)] loadHashMap_checkpoint(1) [OF l(2)] l by auto
  have "hmB\<lparr>hm_checkpoint := 0\<rparr> = hmB" using l(6) by (cases hmB) simp
  moreover have "(toHashMapA hmA)\<lparr>hm_checkpoint := 0\<rparr> = toHashMapA hmA"
    using l(5) by (cases hmA) (simp add: toHashMapA_def hashmap.defs)
  ultimately have d: "on_disk U no_faults fs1 mdb"
    using l(1,2) ck by (simp add: on_disk_def mdb_def new_mdb_def)
  have "pathA \<noteq> pathB" using getPath_AB [of U root ordinal pk bl ordinal pk bl] P by simp
  with cr c d ck l(3) P show ?thesis
    by (intro exI [of _ fs1] exI [of _ mdb] exI [of _ "toHashMapA hmA"]) (simp add: mdb_def new_mdb_def)
qed

lemma flag_updates [simp]:
  "db_consistent U (mdb\<lparr>plotting := a, stopPlotCh := b, mdb_wg := c\<rparr>) \<longleftrightarrow> db_consistent U mdb"
  "on_disk U F fs (mdb\<lparr>plotting := a, stopPlotCh := b, mdb_wg := c\<rparr>) \<longleftrightarrow> on_disk U F fs mdb"
  by (cases "HashMapA mdb"; simp add: db_consistent_def on_disk_def)+

section \<open>Interleaving of the goroutines\<close>

text \<open>
  A database with the goroutines of \<open>StopPlot\<close> that have not closed the channel yet, and whether the
  process has panicked. \<open>mdb_wg\<close> is the number of running \<open>executePlot\<close> goroutines. They touch the
  tables, which \<open>Plot\<close> and \<open>StopPlot\<close> do not, so a run of \<open>executePlot\<close> is one step, taken when it
  returns.
\<close>

record 'pk plot_sys =
  ps_db :: "'pk massdbv1"
  ps_stops :: nat
  ps_panicked :: bool

inductive mdb_step :: "'pk pocutil \<Rightarrow> os_faults \<Rightarrow> 'pk plot_sys \<Rightarrow> 'pk plot_sys \<Rightarrow> bool" for U F where
  step_plot: "\<not> ps_panicked s \<Longrightarrow> MassDBV1_Plot (ps_db s) = (db, res) \<Longrightarrow> mdb_step U F s (s\<lparr>ps_db := db\<rparr>)"
| step_work: "\<not> ps_panicked s \<Longrightarrow> 0 < mdb_wg (ps_db s) \<Longrightarrow>
    executePlot U F E1 E2 fuel fs (ps_db s) = Some ((fs', db), r) \<Longrightarrow> mdb_step U F s (s\<lparr>ps_db := db\<rparr>)"
| step_stop: "\<not> ps_panicked s \<Longrightarrow> MassDBV1_StopPlot (ps_db s) \<Longrightarrow>
    mdb_step U F s (s\<lparr>ps_stops := ps_stops s + 1\<rparr>)"
| step_close: "\<not> ps_panicked s \<Longrightarrow> 0 < ps_stops s \<Longrightarrow> StopPlot_close (ps_db s) = Some db \<Longrightarrow>
    mdb_step U F s (s\<lparr>ps_db := db, ps_stops := ps_stops s - 1\<rparr>)"
| step_panic: "\<not> ps_panicked s \<Longrightarrow> 0 < ps_stops s \<Longrightarrow> StopPlot_close (ps_db s) = None \<Longrightarrow>
    mdb_step U F s (s\<lparr>ps_panicked := True\<rparr>)"

inductive_cases mdb_stepE: "mdb_step U F s s'"

definition sys_of :: "'pk massdbv1 \<Rightarrow> 'pk plot_sys" where
  "sys_of db = \<lparr>ps_db = db, ps_stops = 0, ps_panicked = False\<rparr>"

text \<open>At most one goroutine plots, and \<open>plotting\<close> is set while it does.\<close>

definition one_plotter :: "'pk plot_sys \<Rightarrow> bool" where
  "one_plotter s \<longleftrightarrow>
     mdb_wg (ps_db s) \<le> 1 \<and> (plotting (ps_db s) = 0 \<or> plotting (ps_db s) = 1) \<and>
     (mdb_wg (ps_db s) = 1 \<longrightarrow> plotting (ps_db s) = 1 \<and> stopPlotCh (ps_db s) \<noteq> ChNil)"

lemma executePlot_flags:
  assumes "executePlot U F E1 E2 fuel fs db = Some ((fs', db'), r)"
  shows "plotting db' = 0 \<and> mdb_wg db' = mdb_wg db - 1 \<and> stopPlotCh db' = stopPlotCh db"
  using assms by (auto simp: executePlot_def Let_def plot_exit_def split: option.splits)

lemma one_plotter_step:
  assumes "mdb_step U F s s'" "one_plotter s"
  shows "one_plotter s'"
  using assms
proof (induction rule: mdb_step.induct)
  case (step_plot s db res)
  then show ?case
    by (auto simp: one_plotter_def MassDBV1_Plot_def Let_def split: if_splits option.splits)
next
  case (step_work s E1 E2 fuel fs fs' db r)
  then show ?case using executePlot_flags [OF step_work(3)] by (auto simp: one_plotter_def)
next
  case (step_close s db)
  then show ?case by (auto simp: one_plotter_def StopPlot_close_def split: if_splits)
qed (auto simp: one_plotter_def)

lemma one_plotter_steps: "(mdb_step U F)\<^sup>*\<^sup>* s s' \<Longrightarrow> one_plotter s \<Longrightarrow> one_plotter s'"
  by (induction rule: rtranclp_induct) (auto intro: one_plotter_step)

text \<open>A plot started on a finished database: nothing plots, and \<open>plotting\<close> stays set.\<close>

definition plot_stuck :: "'pk plot_sys \<Rightarrow> bool" where
  "plot_stuck s \<longleftrightarrow> plotting (ps_db s) = 1 \<and> mdb_wg (ps_db s) = 0"

lemma plot_stuck_step: "mdb_step U F s s' \<Longrightarrow> plot_stuck s \<Longrightarrow> plot_stuck s'"
  by (induction rule: mdb_step.induct)
     (auto simp: plot_stuck_def MassDBV1_Plot_def StopPlot_close_def split: if_splits)

lemma plot_stuck_steps: "(mdb_step U F)\<^sup>*\<^sup>* s s' \<Longrightarrow> plot_stuck s \<Longrightarrow> plot_stuck s'"
  by (induction rule: rtranclp_induct) (auto intro: plot_stuck_step)

text \<open>
  A client that calls \<open>StopPlot\<close> only when no earlier call is still to close the channel and the
  channel is open never makes the process panic.
\<close>

definition stop_allowed :: "'pk plot_sys \<Rightarrow> 'pk plot_sys \<Rightarrow> bool" where
  "stop_allowed s s' \<longleftrightarrow> ps_stops s' \<le> ps_stops s \<or> ps_stops s = 0 \<and> stopPlotCh (ps_db s) = ChOpen"

definition stops_safe :: "'pk plot_sys \<Rightarrow> bool" where
  "stops_safe s \<longleftrightarrow> \<not> ps_panicked s \<and> ps_stops s \<le> 1 \<and> (ps_stops s = 1 \<longrightarrow> stopPlotCh (ps_db s) = ChOpen)"

lemma stops_safe_step:
  assumes "mdb_step U F s s'" "stop_allowed s s'" "stops_safe s"
  shows "stops_safe s'"
  using assms
proof (induction rule: mdb_step.induct)
  case (step_plot s db res)
  then show ?case
    by (auto simp: stops_safe_def MassDBV1_Plot_def Let_def split: if_splits option.splits)
next
  case (step_work s E1 E2 fuel fs fs' db r)
  then show ?case using executePlot_flags [OF step_work(3)] by (auto simp: stops_safe_def)
qed (auto simp: stops_safe_def stop_allowed_def StopPlot_close_def split: if_splits)

lemma stops_safe_steps:
  "(\<lambda>s s'. mdb_step U F s s' \<and> stop_allowed s s')\<^sup>*\<^sup>* s s' \<Longrightarrow> stops_safe s \<Longrightarrow> stops_safe s'"
  by (induction rule: rtranclp_induct) (auto intro: stops_safe_step)

end
