(* ===== verification/Space_Queue.thy ===== *)
theory Space_Queue
  imports Engine MassDB_V1 "HOL-Library.Multiset" "HOL-Library.AList" "HOL-Library.Log_Nat"
begin

text \<open>
  The small parts of the space keeper in \<open>poc/engine/spacekeeper/capacity\<close>: space identifiers
  (\<open>spaceid.go\<close>), the priority of a work space and the queue of the plotter (\<open>space_plotter.go\<close>), the
  maps and directory lists of work spaces (\<open>workspace.go\<close>). A pointer to a \<open>WorkSpace\<close> is a number, as
  several containers share the object it points to. The priority queue library is a parameter.
\<close>

section \<open>Space identifiers\<close>

record 'pk spaceid =
  sid_pubKey :: 'pk
  sid_pubKeyHash :: bytes
  sid_bitLength :: nat
  sid_ordinal :: int

definition NewSpaceID :: "'pk pocutil \<Rightarrow> int \<Rightarrow> 'pk \<Rightarrow> nat \<Rightarrow> 'pk spaceid" where
  "NewSpaceID U ordinal pk bl =
     \<lparr>sid_pubKey = pk, sid_pubKeyHash = PubKeyHash U pk, sid_bitLength = bl, sid_ordinal = ordinal\<rparr>"

definition SpaceID_String :: "'pk pocutil \<Rightarrow> 'pk spaceid \<Rightarrow> string" where
  "SpaceID_String U sid =
     strings_Join [hex_EncodeToString (SerializeCompressed U (sid_pubKey sid)), ''-'',
                   Itoa (int (sid_bitLength sid))] ''''"

lemma SpaceID_String_inj:
  assumes "pubkey_ok U" "SpaceID_String U s = SpaceID_String U t"
  shows "sid_pubKey s = sid_pubKey t \<and> sid_bitLength s = sid_bitLength t"
proof -
  have "hex_EncodeToString (SerializeCompressed U (sid_pubKey s)) = hex_EncodeToString (SerializeCompressed U (sid_pubKey t)) \<and>
      CHR ''-'' # Itoa (int (sid_bitLength s)) = CHR ''-'' # Itoa (int (sid_bitLength t))"
    using assms by (intro append_eq_append_conv [THEN iffD1])
      (auto simp: SpaceID_String_def pubkey_ok_def)
  then show ?thesis
    using SerializeCompressed_inj [OF assms(1)] by (simp add: Itoa_inj hex_EncodeToString_inj)
qed

section \<open>The priority of a work space\<close>

text \<open>
  Priorities are \<open>float32\<close> numbers. They are kept here in units of \<open>2 ^ -32\<close>, in which they are
  integers: \<open>float32(math.MaxUint32)\<close> is \<open>2 ^ 32\<close>, so the quotient only scales. \<open>round24\<close> is rounding
  to a significand of 24 bits, to nearest with ties to even.
\<close>

definition round_at :: "nat \<Rightarrow> nat \<Rightarrow> nat" where
  "round_at e n =
     (let q = n div 2 ^ e; r = n mod 2 ^ e in
      (if 2 * r > 2 ^ e \<or> 2 * r = 2 ^ e \<and> odd q then q + 1 else q) * 2 ^ e)"

definition round24 :: "int \<Rightarrow> int" where
  "round24 i = sgn i * int (round_at (floorlog 2 (nat \<bar>i\<bar>) - 24) (nat \<bar>i\<bar>))"

definition priority_of :: "'pk spaceid \<Rightarrow> int" where
  "priority_of sid =
     (let diff = round24 (int (le_get (take 4 (sid_pubKeyHash sid)) div 2))
      in round24 (- (round24 (sid_ordinal sid) * 2 ^ 32) + diff))"

lemma round_at_between:
  assumes "a * 2 ^ e \<le> n" "n \<le> b * 2 ^ e"
  shows "a * 2 ^ e \<le> round_at e n" "round_at e n \<le> b * 2 ^ e"
proof -
  let ?q = "n div 2 ^ e" and ?r = "n mod 2 ^ e"
  have n: "?q * 2 ^ e + ?r = n" by (rule div_mult_mod_eq)
  have aq: "a \<le> ?q" using assms(1) by (simp add: less_eq_div_iff_mult_less_eq)
  then show "a * 2 ^ e \<le> round_at e n" by (simp add: round_at_def Let_def)
  have qb: "?q \<le> b" using assms(2) div_le_mono [OF assms(2), of "2 ^ e"] by simp
  have "?q + 1 \<le> b" if "0 < ?r"
  proof (rule ccontr)
    assume "\<not> ?q + 1 \<le> b"
    with qb have "?q = b" by simp
    with n that assms(2) show False by simp
  qed
  then have "?q + 1 \<le> b" if "2 ^ e \<le> 2 * ?r"
    using that by (metis gr_zeroI mult_0_right not_le zero_less_numeral zero_less_power)
  with qb show "round_at e n \<le> b * 2 ^ e"
    unfolding round_at_def Let_def by (intro mult_le_mono1) auto
qed

lemma round_at_exact: "round_at e (a * 2 ^ e) = a * 2 ^ e"
  by (simp add: round_at_def)

lemma round_at_0: "round_at 0 n = n" "round_at e 0 = 0"
  by (simp_all add: round_at_def)

text \<open>A number between two multiples of \<open>2 ^ k\<close> below \<open>2 ^ (24 + k)\<close> is rounded to one between them.\<close>

lemma round24_between:
  fixes a b n k :: nat
  assumes "a * 2 ^ k \<le> n" "n \<le> b * 2 ^ k" "n < 2 ^ (24 + k)"
  shows "int (a * 2 ^ k) \<le> round24 (int n)" "round24 (int n) \<le> int (b * 2 ^ k)"
proof -
  let ?e = "floorlog 2 n - 24"
  have "floorlog 2 n \<le> 24 + k" using assms(3) by (intro floorlog_leI) auto
  then have e: "?e \<le> k" by linarith
  have m: "c * 2 ^ k = c * 2 ^ (k - ?e) * 2 ^ ?e" for c :: nat
    using e by (simp add: power_add [symmetric] mult.assoc)
  have "a * 2 ^ k \<le> round_at ?e n \<and> round_at ?e n \<le> b * 2 ^ k"
    using round_at_between [of "a * 2 ^ (k - ?e)" ?e n "b * 2 ^ (k - ?e)"] assms(1,2) unfolding m [of a] m [of b] by simp
  moreover have "round24 (int n) = int (round_at ?e n)"
    by (cases "n = 0") (simp_all add: round24_def round_at_0)
  ultimately show "int (a * 2 ^ k) \<le> round24 (int n)" "round24 (int n) \<le> int (b * 2 ^ k)" by (metis of_nat_le_iff)+
qed

lemma round24_minus: "round24 (- i) = - round24 i"
  by (simp add: round24_def sgn_minus)

lemma round24_small: "n < 2 ^ 24 \<Longrightarrow> round24 (int n) = int n"
  using round24_between [of n 0 n n] by simp

lemma priority_bounds:
  assumes "0 \<le> sid_ordinal sid" "sid_ordinal sid \<le> 2 ^ 22"
  shows "- sid_ordinal sid * 2 ^ 32 \<le> priority_of sid"
    "priority_of sid \<le> - sid_ordinal sid * 2 ^ 32 + 2 ^ 31"
proof -
  define n where "n = nat (sid_ordinal sid)"
  have o: "sid_ordinal sid = int n" "n \<le> 2 ^ 22" using assms by (simp_all add: n_def nat_le_iff)
  define h where "h = le_get (take 4 (sid_pubKeyHash sid)) div 2"
  have "le_get (take 4 (sid_pubKeyHash sid)) < 256 ^ length (take 4 (sid_pubKeyHash sid))"
    by (rule le_get_bound)
  also have "(256 :: nat) ^ length (take 4 (sid_pubKeyHash sid)) \<le> 256 ^ 4"
    by (intro power_increasing) simp_all
  finally have h: "h \<le> 1 * 2 ^ 31" by (simp add: h_def)
  define d where "d = nat (round24 (int h))"
  have "0 \<le> round24 (int h)" "round24 (int h) \<le> 2 ^ 31"
    using round24_between [of 0 31 h 1] h by simp_all
  then have d: "round24 (int h) = int d" "d \<le> 2 ^ 31" by (simp_all add: d_def nat_le_iff)
  have p: "priority_of sid = round24 (- (int n * 2 ^ 32) + int d)"
    using o(2) d(1) by (simp add: priority_of_def Let_def o(1) round24_small h_def [symmetric] flip: h_def)
  have "- int n * 2 ^ 32 \<le> priority_of sid \<and> priority_of sid \<le> - int n * 2 ^ 32 + 2 ^ 31"
  proof (cases n)
    case 0
    have "0 \<le> round24 (int d)" "round24 (int d) \<le> 2 ^ 31"
      using round24_between [of 0 31 d 1] d(2) by simp_all
    with 0 show ?thesis by (simp add: p)
  next
    case (Suc k)
    define N where "N = n * 2 ^ 32 - d"
    have N: "(2 * n - 1) * 2 ^ 31 \<le> N" "N \<le> 2 * n * 2 ^ 31" "N < 2 ^ (24 + 31)"
      using d(2) o(2) Suc by (simp_all add: N_def algebra_simps)
    have "- (int n * 2 ^ 32) + int d = - int N" using d(2) Suc by (simp add: N_def of_nat_diff)
    then have "priority_of sid = - round24 (int N)" by (simp add: p round24_minus)
    moreover have "int ((2 * n - 1) * 2 ^ 31) = int n * 2 ^ 32 - 2 ^ 31" using Suc by (simp add: of_nat_diff algebra_simps)
    moreover have "int (2 * n * 2 ^ 31) = int n * 2 ^ 32" by simp
    ultimately show ?thesis using round24_between [OF N] by simp
  qed
  then show "- sid_ordinal sid * 2 ^ 32 \<le> priority_of sid"
    "priority_of sid \<le> - sid_ordinal sid * 2 ^ 32 + 2 ^ 31"
    by (simp_all add: o(1))
qed

lemma priority_decreasing:
  assumes "0 \<le> sid_ordinal s" "sid_ordinal s < sid_ordinal t" "sid_ordinal t \<le> 2 ^ 22"
  shows "priority_of t < priority_of s"
  using priority_bounds [of s] priority_bounds [of t] assms by simp

section \<open>The priority queue library\<close>

text \<open>
  The operations of the \<open>prque\<close> package the code calls; \<open>None\<close> is the panic of a pop from an empty
  queue. \<open>prque_ok\<close> is its documentation: \<open>items\<close> is the multiset of values and priorities in a
  queue, and a pop takes out a value of the greatest priority.
\<close>

record ('q, 'a) prque =
  prq_New :: 'q
  prq_Push :: "'q \<Rightarrow> 'a \<Rightarrow> int \<Rightarrow> 'q"
  prq_Pop :: "'q \<Rightarrow> ('q \<times> 'a \<times> int) option"
  prq_PopItem :: "'q \<Rightarrow> ('q \<times> 'a) option"
  prq_Empty :: "'q \<Rightarrow> bool"
  prq_Size :: "'q \<Rightarrow> nat"
  prq_Reset :: "'q \<Rightarrow> 'q"

definition prque_ok :: "('q, 'a) prque \<Rightarrow> ('q \<Rightarrow> ('a \<times> int) multiset) \<Rightarrow> bool" where
  "prque_ok Q items \<longleftrightarrow>
     items (prq_New Q) = {#} \<and>
     (\<forall>q. items (prq_Reset Q q) = {#}) \<and>
     (\<forall>q x p. items (prq_Push Q q x p) = add_mset (x, p) (items q)) \<and>
     (\<forall>q. prq_Empty Q q \<longleftrightarrow> items q = {#}) \<and>
     (\<forall>q. prq_Size Q q = size (items q)) \<and>
     (\<forall>q. items q \<noteq> {#} \<longrightarrow> prq_Pop Q q \<noteq> None) \<and>
     (\<forall>q q' x p. prq_Pop Q q = Some (q', x, p) \<longrightarrow>
        items q = add_mset (x, p) (items q') \<and> (\<forall>i\<in>#items q. snd i \<le> p)) \<and>
     (\<forall>q. prq_PopItem Q q = map_option (\<lambda>(q', x, p). (q', x)) (prq_Pop Q q))"

lemma prque_okD:
  assumes "prque_ok Q items"
  shows "items (prq_New Q) = {#}" "items (prq_Reset Q q) = {#}"
    "items (prq_Push Q q x p) = add_mset (x, p) (items q)"
    "prq_Empty Q q \<longleftrightarrow> items q = {#}" "prq_Size Q q = size (items q)"
    "prq_PopItem Q q = map_option (\<lambda>(q', x, p). (q', x)) (prq_Pop Q q)"
  using assms by (auto simp: prque_ok_def)

lemma prque_ok_Pop:
  assumes "prque_ok Q items" "items q \<noteq> {#}"
  obtains q' x p where "prq_Pop Q q = Some (q', x, p)" "items q = add_mset (x, p) (items q')"
    "\<forall>i\<in>#items q. snd i \<le> p"
  using assms unfolding prque_ok_def by (metis not_None_eq surj_pair)

section \<open>The queue of the plotter\<close>

text \<open>
  A \<open>queuedWorkSpace\<close> is at any time in the channel, in the queue, or the popped item, so that its
  flag can be kept by value.
\<close>

record qws =
  qws_ws :: nat
  wouldMining :: bool

definition newQueuedWorkSpace :: "nat \<Rightarrow> bool \<Rightarrow> qws" where
  "newQueuedWorkSpace ws mining = \<lparr>qws_ws = ws, wouldMining = mining\<rparr>"

record 'q plotter_queue =
  pq_Prque :: 'q
  poppedItem :: "qws option"

definition newPlotterQueue :: "('q, qws) prque \<Rightarrow> 'q plotter_queue" where
  "newPlotterQueue Q = \<lparr>pq_Prque = prq_New Q, poppedItem = None\<rparr>"

definition plotterQueue_Push :: "('q, qws) prque \<Rightarrow> 'q plotter_queue \<Rightarrow> qws \<Rightarrow> int \<Rightarrow> 'q plotter_queue" where
  "plotterQueue_Push Q pq x p = pq\<lparr>pq_Prque := prq_Push Q (pq_Prque pq) x p\<rparr>"

definition plotterQueue_Pop ::
  "('q, qws) prque \<Rightarrow> 'q plotter_queue \<Rightarrow> ('q plotter_queue \<times> qws \<times> int) option" where
  "plotterQueue_Pop Q pq =
     (case prq_Pop Q (pq_Prque pq) of None \<Rightarrow> None
      | Some (q, x, p) \<Rightarrow> Some (pq\<lparr>pq_Prque := q, poppedItem := Some x\<rparr>, x, p))"

definition plotterQueue_PopItem ::
  "('q, qws) prque \<Rightarrow> 'q plotter_queue \<Rightarrow> ('q plotter_queue \<times> qws) option" where
  "plotterQueue_PopItem Q pq =
     (case prq_PopItem Q (pq_Prque pq) of None \<Rightarrow> None
      | Some (q, x) \<Rightarrow> Some (pq\<lparr>pq_Prque := q, poppedItem := Some x\<rparr>, x))"

text \<open>\<open>Delete\<close> moves the other elements to a new queue; the fuel is the number of elements.\<close>

fun delete_loop ::
  "('q, qws) prque \<Rightarrow> (nat \<Rightarrow> string) \<Rightarrow> string \<Rightarrow> nat \<Rightarrow> 'q \<Rightarrow> 'q \<Rightarrow> 'q option" where
  "delete_loop Q sid_of sid fuel q newQueue =
     (if prq_Empty Q q then Some newQueue
      else case fuel of 0 \<Rightarrow> None
      | Suc fuel' \<Rightarrow>
        (case prq_Pop Q q of None \<Rightarrow> None
         | Some (q', x, p) \<Rightarrow>
           if sid_of (qws_ws x) = sid then delete_loop Q sid_of sid fuel' q' newQueue
           else delete_loop Q sid_of sid fuel' q' (prq_Push Q newQueue x p)))"

declare delete_loop.simps [simp del]

definition plotterQueue_Delete ::
  "('q, qws) prque \<Rightarrow> (nat \<Rightarrow> string) \<Rightarrow> 'q plotter_queue \<Rightarrow> string \<Rightarrow> 'q plotter_queue option" where
  "plotterQueue_Delete Q sid_of pq sid =
     map_option (\<lambda>q. pq\<lparr>pq_Prque := q\<rparr>)
       (delete_loop Q sid_of sid (prq_Size Q (pq_Prque pq)) (pq_Prque pq) (prq_New Q))"

definition plotterQueue_PoppedItem :: "'q plotter_queue \<Rightarrow> qws option" where
  "plotterQueue_PoppedItem pq = poppedItem pq"

definition plotterQueue_Reset :: "('q, qws) prque \<Rightarrow> 'q plotter_queue \<Rightarrow> 'q plotter_queue" where
  "plotterQueue_Reset Q pq = \<lparr>pq_Prque = prq_Reset Q (pq_Prque pq), poppedItem = None\<rparr>"

text \<open>\<open>Delete\<close> returns, and removes exactly the elements of the given identifier.\<close>

lemma delete_loop_items:
  assumes Q: "prque_ok Q items" and "size (items q) \<le> fuel"
  shows "\<exists>q'. delete_loop Q sid_of sid fuel q nq = Some q' \<and>
    items q' = items nq + {#x \<in># items q. sid_of (qws_ws (fst x)) \<noteq> sid#}"
  using assms(2)
proof (induction fuel arbitrary: q nq)
  case 0
  with Q show ?case by (simp add: delete_loop.simps prque_okD)
next
  case (Suc fuel)
  show ?case
  proof (cases "items q = {#}")
    case True
    with Q show ?thesis by (simp add: delete_loop.simps prque_okD)
  next
    case False
    then obtain q' x p where P: "prq_Pop Q q = Some (q', x, p)" "items q = add_mset (x, p) (items q')"
      using prque_ok_Pop [OF Q] by metis
    let ?nq = "if sid_of (qws_ws x) = sid then nq else prq_Push Q nq x p"
    have "size (items q') \<le> fuel" using Suc.prems P(2) by simp
    from Suc.IH [OF this, of ?nq] obtain q2 where
      "delete_loop Q sid_of sid fuel q' ?nq = Some q2"
      "items q2 = items ?nq + {#x \<in># items q'. sid_of (qws_ws (fst x)) \<noteq> sid#}" by blast
    with Q False P show ?thesis
      by (simp add: delete_loop.simps [of _ _ _ "Suc fuel"] prque_okD split: if_splits)
  qed
qed

lemma plotterQueue_Delete_items:
  assumes "prque_ok Q items"
  shows "\<exists>pq'. plotterQueue_Delete Q sid_of pq sid = Some pq' \<and> poppedItem pq' = poppedItem pq \<and>
    items (pq_Prque pq') = {#x \<in># items (pq_Prque pq). sid_of (qws_ws (fst x)) \<noteq> sid#}"
  using delete_loop_items [OF assms, where q = "pq_Prque pq" and fuel = "size (items (pq_Prque pq))"
      and nq = "prq_New Q" and sid_of = sid_of and sid = sid]
  by (auto simp: plotterQueue_Delete_def prque_okD [OF assms])

text \<open>Popping \<open>n\<close> elements in a row, as \<open>getIndexedWorkSpaces\<close> and \<open>applyConfiguredWorkSpaces\<close> do.\<close>

fun pop_items ::
  "('q, qws) prque \<Rightarrow> nat \<Rightarrow> 'q plotter_queue \<Rightarrow> ('q plotter_queue \<times> qws list) option" where
  "pop_items Q 0 pq = Some (pq, [])"
| "pop_items Q (Suc n) pq =
     (case plotterQueue_PopItem Q pq of None \<Rightarrow> None
      | Some (pq1, x) \<Rightarrow>
        (case pop_items Q n pq1 of None \<Rightarrow> None
         | Some (pq2, xs) \<Rightarrow> Some (pq2, x # xs)))"

fun push_items ::
  "('q, qws) prque \<Rightarrow> (qws \<Rightarrow> int) \<Rightarrow> qws list \<Rightarrow> 'q plotter_queue \<Rightarrow> 'q plotter_queue" where
  "push_items Q pri [] pq = pq"
| "push_items Q pri (x # xs) pq = push_items Q pri xs (plotterQueue_Push Q pq x (pri x))"

lemma push_items_items:
  assumes "prque_ok Q items"
  shows "items (pq_Prque (push_items Q pri xs pq)) = mset (map (\<lambda>x. (x, pri x)) xs) + items (pq_Prque pq)"
  by (induction xs arbitrary: pq) (simp_all add: plotterQueue_Push_def prque_okD [OF assms])

text \<open>
  The pops yield the elements in decreasing priority: the queue refines sorting.
\<close>

lemma pop_items_sorted:
  assumes Q: "prque_ok Q items" and "size (items (pq_Prque pq)) = n"
    and pri: "\<forall>i\<in>#items (pq_Prque pq). snd i = pri (fst i)"
  shows "\<exists>pq' xs. pop_items Q n pq = Some (pq', xs) \<and> items (pq_Prque pq') = {#} \<and>
    mset xs = image_mset fst (items (pq_Prque pq)) \<and> sorted (rev (map pri xs))"
  using assms(2,3)
proof (induction n arbitrary: pq)
  case 0
  then show ?case by simp
next
  case (Suc n)
  then have "items (pq_Prque pq) \<noteq> {#}" by auto
  then obtain q' x p where P: "prq_Pop Q (pq_Prque pq) = Some (q', x, p)"
    "items (pq_Prque pq) = add_mset (x, p) (items q')" "\<forall>i\<in>#items (pq_Prque pq). snd i \<le> p"
    using prque_ok_Pop [OF Q] by metis
  let ?pq = "pq\<lparr>pq_Prque := q', poppedItem := Some x\<rparr>"
  have "size (items (pq_Prque ?pq)) = n" "\<forall>i\<in>#items (pq_Prque ?pq). snd i = pri (fst i)"
    using Suc.prems P(2) by auto
  from Suc.IH [OF this] obtain pq' xs where R: "pop_items Q n ?pq = Some (pq', xs)"
    "items (pq_Prque pq') = {#}" "mset xs = image_mset fst (items q')" "sorted (rev (map pri xs))" by auto
  have "pri y \<le> pri x" if "y \<in> set xs" for y
  proof -
    have "y \<in># image_mset fst (items q')" using that R(3) by (metis set_mset_mset)
    then obtain i where "i \<in># items q'" "fst i = y" by auto
    with P Suc.prems(2) show ?thesis by force
  qed
  with R P Q show ?case
    by (simp add: plotterQueue_PopItem_def prque_okD sorted_append)
qed

end
