(* ===== verification/Work_Space.thy ===== *)
theory Work_Space
  imports Space_Queue
begin

text \<open>
  Work spaces and their containers: \<open>workspace.go\<close> of \<open>poc/engine/spacekeeper/capacity\<close>, with the errors
  of \<open>errors.go\<close>. A work space is a database and the state the space keeper gives it. Containers hold
  references, the positions of the work spaces in the list of all work spaces made so far (the heap).
\<close>

section \<open>Errors\<close>

datatype sk_error =
    ErrWorkSpaceDoesNotExist | ErrWorkSpaceIsNotRegistered | ErrWorkSpaceIsNotPlotting
  | ErrWorkSpaceIsNotReady | ErrWorkSpaceIsNotMining | ErrWorkSpaceIsNotStill | ErrWorkSpaceCannotGenerate
  | ErrMassDBWrongFileName | ErrMassDBDuplicate | ErrMassDBDoesNotMatchWithName
  | ErrWalletDoesNotContainPubKey | ErrWalletIsLocked
  | ErrSpaceKeeperIsRunning | ErrSpaceKeeperIsNotRunning | ErrSpaceKeeperIsConfiguring
  | ErrSpaceKeeperConfiguredNothing | ErrSpaceKeeperChangeDBDirs
  | ErrConfigUnderSizeTarget | ErrOSDiskSizeNotEnough | ErrInvalidRequiredBytes
  | ErrConfigInvalidPathSize | ErrInvalidDir
  | ErrInvalidAction | ErrUnImplementedAction | ErrInvalidSKType | ErrInvalidSKArgs
  | DBError db_error | OtherError string | SKPanic

section \<open>Work spaces\<close>

record 'pk workspace =
  ws_id :: "'pk spaceid"
  ws_db :: "'pk massdbv1"
  ws_state :: WorkSpaceState
  ws_using :: bool
  ws_rootDir :: string

type_synonym 'pk ws_heap = "'pk workspace list"

text \<open>
  The two numbers are the numerator and the denominator of the progress in percent.
  \<open>progress_below_100\<close> is the test \<open>ws.Progress() < 100\<close>.
\<close>

definition ws_Progress :: "'pk workspace \<Rightarrow> u64 \<times> u64" where
  "ws_Progress ws = (case MassDBV1_Progress (ws_db ws) of (_, _, progress) \<Rightarrow> progress)"

definition progress_below_100 :: "u64 \<times> u64 \<Rightarrow> bool" where
  "progress_below_100 progress \<longleftrightarrow> unat (fst progress) < 100 * unat (snd progress)"

definition NewWorkSpace ::
  "'pk pocutil \<Rightarrow> os_faults \<Rightarrow> fs \<Rightarrow> string \<Rightarrow> string \<Rightarrow> int \<Rightarrow> 'pk \<Rightarrow> nat \<Rightarrow> fs \<times> (sk_error + 'pk workspace)" where
  "NewWorkSpace U F fs dbType rootDir ordinal pubKey bitLength =
     (let args = [ArgString rootDir, ArgInt64 ordinal, ArgPubKey pubKey, ArgInt bitLength];
          (fs1, r) =
            (case massdb_OpenDB (DBBackendList U F) dbType args fs of
               (fs1, Inr mdb) \<Rightarrow> (fs1, Inr mdb)
             | (fs1, Inl err) \<Rightarrow>
                 if err \<noteq> ErrDBDoesNotExist then (fs1, Inl err)
                 else massdb_CreateDB (DBBackendList U F) dbType args fs1) in
      case r of Inl err \<Rightarrow> (fs1, Inl (DBError err))
      | Inr mdb \<Rightarrow>
        if SerializeCompressed U pubKey \<noteq> SerializeCompressed U (MassDBV1_PubKey mdb) \<or>
           bitLength \<noteq> MassDBV1_BitLength mdb
        then (fs1, Inl ErrMassDBDoesNotMatchWithName)
        else
          let ws = \<lparr>ws_id = NewSpaceID U ordinal (MassDBV1_PubKey mdb) (MassDBV1_BitLength mdb),
                    ws_db = mdb, ws_state = Registered, ws_using = False, ws_rootDir = rootDir\<rparr>;
              (_, plotted, _) = MassDBV1_Progress mdb
          in (fs1, Inr (if plotted then ws\<lparr>ws_state := Ready\<rparr> else ws)))"

definition ws_Info :: "'pk pocutil \<Rightarrow> 'pk workspace \<Rightarrow> 'pk workspace_info" where
  "ws_Info U ws =
     \<lparr>wsi_SpaceID = SpaceID_String U (ws_id ws), wsi_PublicKey = sid_pubKey (ws_id ws),
      wsi_Ordinal = sid_ordinal (ws_id ws), wsi_BitLength = sid_bitLength (ws_id ws),
      wsi_Progress = ws_Progress ws, wsi_State = ws_state ws\<rparr>"

definition ws_PubKey :: "'pk workspace \<Rightarrow> 'pk" where
  "ws_PubKey ws = MassDBV1_PubKey (ws_db ws)"

definition ws_PubKeyHash :: "'pk workspace \<Rightarrow> bytes" where
  "ws_PubKeyHash ws = MassDBV1_PubKeyHash (ws_db ws)"

definition ws_BitLength :: "'pk workspace \<Rightarrow> nat" where
  "ws_BitLength ws = MassDBV1_BitLength (ws_db ws)"

definition ws_Delete :: "os_faults \<Rightarrow> fs \<Rightarrow> 'pk workspace \<Rightarrow> fs \<times> sk_error option" where
  "ws_Delete F fs ws = (case MassDBV1_Delete F fs (ws_db ws) of (fs', err) \<Rightarrow> (fs', map_option DBError err))"

text \<open>
  \<open>Plot\<close> and \<open>StopPlot\<close> wait for the answer of the database; \<open>run\<close> is what the plotting goroutine
  does until then. \<open>None\<close> is the panic of a second close of the channel.
\<close>

definition ws_Plot ::
  "'pk plot_run \<Rightarrow> fs \<Rightarrow> 'pk workspace \<Rightarrow> (fs \<times> 'pk workspace) \<times> sk_error option" where
  "ws_Plot run fs ws =
     (case MassDBV1_Plot (ws_db ws) of
        (mdb, PlotResult err) \<Rightarrow> ((fs, ws\<lparr>ws_db := mdb\<rparr>), map_option DBError err)
      | (mdb, PlotSpawned) \<Rightarrow>
          (case run fs mdb of ((fs', mdb'), err) \<Rightarrow> ((fs', ws\<lparr>ws_db := mdb'\<rparr>), map_option DBError err)))"

definition ws_StopPlot :: "'pk plot_run \<Rightarrow> fs \<Rightarrow> 'pk workspace \<Rightarrow> (fs \<times> 'pk workspace) option" where
  "ws_StopPlot run fs ws =
     map_option (\<lambda>(fs', mdb). (fs', ws\<lparr>ws_db := mdb\<rparr>)) (StopPlot_wait run fs (ws_db ws))"

definition ws_Close :: "'pk plot_run \<Rightarrow> fs \<Rightarrow> 'pk workspace \<Rightarrow> (fs \<times> 'pk workspace) option" where
  "ws_Close run fs ws =
     (case ws_StopPlot run fs ws of None \<Rightarrow> None
      | Some (fs1, ws1) \<Rightarrow>
          map_option (\<lambda>(fs2, mdb). (fs2, ws1\<lparr>ws_db := mdb\<rparr>)) (MassDBV1_Close run fs1 (ws_db ws1)))"

section \<open>Maps of work spaces\<close>

text \<open>
  A map is an association list with distinct keys. The order in which Go ranges over it is a parameter
  of the code that does so, a reordering of the keys.
\<close>

definition go_range :: "(string list \<Rightarrow> string list) \<Rightarrow> (string \<times> 'a) list \<Rightarrow> (string \<times> 'a) list" where
  "go_range ord m = map (\<lambda>k. (k, the (map_of m k))) (ord (map fst m))"

type_synonym WorkSpaceMap = "(string \<times> nat) list"

definition NewWorkSpaceMap :: WorkSpaceMap where
  "NewWorkSpaceMap = []"

definition WorkSpaceMap_Get :: "WorkSpaceMap \<Rightarrow> string \<Rightarrow> nat option" where
  "WorkSpaceMap_Get m sid = map_of m sid"

definition WorkSpaceMap_Set :: "WorkSpaceMap \<Rightarrow> string \<Rightarrow> nat \<Rightarrow> WorkSpaceMap" where
  "WorkSpaceMap_Set m sid ws = AList.update sid ws m"

definition WorkSpaceMap_Has :: "WorkSpaceMap \<Rightarrow> string \<Rightarrow> bool" where
  "WorkSpaceMap_Has m sid \<longleftrightarrow> map_of m sid \<noteq> None"

definition WorkSpaceMap_Delete :: "WorkSpaceMap \<Rightarrow> string \<Rightarrow> WorkSpaceMap" where
  "WorkSpaceMap_Delete m sid = AList.delete sid m"

definition WorkSpaceMap_Items :: "WorkSpaceMap \<Rightarrow> WorkSpaceMap" where
  "WorkSpaceMap_Items m = fold (\<lambda>(sid, ws) mws. AList.update sid ws mws) m []"

definition WorkSpaceMap_Count :: "WorkSpaceMap \<Rightarrow> nat" where
  "WorkSpaceMap_Count m = length m"

lemma Get_Set [simp]: "WorkSpaceMap_Get (WorkSpaceMap_Set m k v) k' = (if k' = k then Some v else WorkSpaceMap_Get m k')"
  by (simp add: WorkSpaceMap_Get_def WorkSpaceMap_Set_def update_conv')

lemma Get_Delete [simp]: "WorkSpaceMap_Get (WorkSpaceMap_Delete m k) k' = (if k' = k then None else WorkSpaceMap_Get m k')"
  by (simp add: WorkSpaceMap_Get_def WorkSpaceMap_Delete_def delete_conv')

lemma Get_New [simp]: "WorkSpaceMap_Get NewWorkSpaceMap k = None"
  by (simp add: WorkSpaceMap_Get_def NewWorkSpaceMap_def)

lemma distinct_map_ops [simp]:
  "distinct (map fst NewWorkSpaceMap)"
  "distinct (map fst m) \<Longrightarrow> distinct (map fst (WorkSpaceMap_Set m k v))"
  "distinct (map fst m) \<Longrightarrow> distinct (map fst (WorkSpaceMap_Delete m k))"
  by (simp_all add: NewWorkSpaceMap_def WorkSpaceMap_Set_def WorkSpaceMap_Delete_def distinct_update distinct_delete)

lemma fold_update:
  assumes "distinct (map fst m)" "fst ` set m \<inter> fst ` set acc = {}"
  shows "fold (\<lambda>(k, v) a. AList.update k v a) m acc = acc @ m"
  using assms
proof (induction m arbitrary: acc)
  case (Cons kv m)
  obtain k v where kv: "kv = (k, v)" by (cases kv)
  have "AList.update k v acc = acc @ [(k, v)]" if "k \<notin> fst ` set acc" for acc :: "('a \<times> 'b) list"
    using that by (induction acc) auto
  with Cons kv show ?case by (auto simp: Cons.IH)
qed simp

lemma Items_eq: "distinct (map fst m) \<Longrightarrow> WorkSpaceMap_Items m = m"
  by (simp add: WorkSpaceMap_Items_def fold_update)

lemma mset_go_range:
  assumes "distinct (map fst m)" "\<And>ks. mset (ord ks) = mset ks"
  shows "mset (go_range ord m) = mset m"
proof -
  have "mset (go_range ord m) = mset (map (\<lambda>k. (k, the (map_of m k))) (map fst m))"
    unfolding go_range_def mset_map assms(2) ..
  also have "map (\<lambda>k. (k, the (map_of m k))) (map fst m) = m"
    using assms(1) by (auto intro!: map_idI simp: comp_def)
  finally show ?thesis .
qed

section \<open>The work spaces of a directory\<close>

record workspace_path =
  wp_directory :: string
  wp_spaces :: "nat list"
  wp_exists :: "(string \<times> nat) list"

definition NewWorkSpacePath :: "string \<Rightarrow> workspace_path" where
  "NewWorkSpacePath dir = \<lparr>wp_directory = dir, wp_spaces = [], wp_exists = []\<rparr>"

text \<open>\<open>copy(xs[d:], xs[s:])\<close>: Go copies overlapping parts as if through a buffer.\<close>

definition slice_copy :: "'a list \<Rightarrow> nat \<Rightarrow> nat \<Rightarrow> 'a list" where
  "slice_copy xs d s =
     (let buf = take (length xs - d) (drop s xs) in take d xs @ buf @ drop (d + length buf) xs)"

definition WorkSpacePath_insert :: "workspace_path \<Rightarrow> nat \<Rightarrow> nat \<Rightarrow> workspace_path" where
  "WorkSpacePath_insert p i ws =
     (let spaces = wp_spaces p @ [ws];
          spaces1 = slice_copy spaces (i + 1) i
      in p\<lparr>wp_spaces := spaces1[i := ws]\<rparr>)"

definition ws_priority :: "'pk ws_heap \<Rightarrow> nat \<Rightarrow> int" where
  "ws_priority h r = priority_of (ws_id (h ! r))"

fun find_below :: "(nat \<Rightarrow> int) \<Rightarrow> int \<Rightarrow> nat list \<Rightarrow> nat \<Rightarrow> nat option" where
  "find_below pri priority [] i = None"
| "find_below pri priority (x # xs) i =
     (if priority > pri x then Some i else find_below pri priority xs (i + 1))"

definition WorkSpacePath_Add :: "'pk pocutil \<Rightarrow> 'pk ws_heap \<Rightarrow> workspace_path \<Rightarrow> nat \<Rightarrow> workspace_path" where
  "WorkSpacePath_Add U h p ws =
     (let sid = SpaceID_String U (ws_id (h ! ws)) in
      if map_of (wp_exists p) sid \<noteq> None then p
      else
        let p1 = p\<lparr>wp_exists := AList.update sid ws (wp_exists p)\<rparr> in
        if wp_spaces p1 = [] then WorkSpacePath_insert p1 0 ws
        else
          case find_below (ws_priority h) (ws_priority h ws) (wp_spaces p1) 0 of
            Some i \<Rightarrow> WorkSpacePath_insert p1 i ws
          | None \<Rightarrow> WorkSpacePath_insert p1 (length (wp_spaces p1)) ws)"

definition WorkSpacePath_WorkSpaces :: "workspace_path \<Rightarrow> nat list" where
  "WorkSpacePath_WorkSpaces p = wp_spaces p"

section \<open>Insertion into a directory\<close>

lemma slice_copy_shift:
  assumes "i \<le> length xs"
  shows "(slice_copy (xs @ [y]) (i + 1) i)[i := y] = take i xs @ y # drop i xs"
proof -
  have "take (i + 1) (xs @ [y]) = take i xs @ [(xs @ [y]) ! i]"
    using assms by (subst Suc_eq_plus1 [symmetric], subst take_Suc_conv_app_nth) auto
  moreover have "take (length (xs @ [y]) - (i + 1)) (drop i (xs @ [y])) = drop i xs" using assms by simp
  ultimately have "slice_copy (xs @ [y]) (i + 1) i = take i xs @ (xs @ [y]) ! i # drop i xs"
    using assms by (simp add: slice_copy_def Let_def)
  then show ?thesis using assms by (simp add: list_update_append min_def)
qed

lemma insert_spaces:
  "i \<le> length (wp_spaces p) \<Longrightarrow>
     WorkSpacePath_insert p i ws = p\<lparr>wp_spaces := take i (wp_spaces p) @ ws # drop i (wp_spaces p)\<rparr>"
  by (simp add: WorkSpacePath_insert_def Let_def slice_copy_shift [simplified])

text \<open>The position found is behind every element of at least the new priority.\<close>

fun insert_desc :: "(nat \<Rightarrow> int) \<Rightarrow> nat \<Rightarrow> nat list \<Rightarrow> nat list" where
  "insert_desc pri y [] = [y]"
| "insert_desc pri y (x # xs) = (if pri y > pri x then y # x # xs else x # insert_desc pri y xs)"

lemma find_below_insert:
  "(case find_below pri (pri y) xs k of
      Some i \<Rightarrow> k \<le> i \<and> i - k \<le> length xs \<and> take (i - k) xs @ y # drop (i - k) xs = insert_desc pri y xs
    | None \<Rightarrow> xs @ [y] = insert_desc pri y xs)"
proof (induction xs arbitrary: k)
  case (Cons x xs)
  from Cons.IH [of "k + 1"] show ?case by (auto split: option.splits simp: Suc_diff_le take_Cons' drop_Cons')
qed simp

lemma Add_spaces:
  assumes "map_of (wp_exists p) (SpaceID_String U (ws_id (h ! ws))) = None"
  shows "wp_spaces (WorkSpacePath_Add U h p ws) = insert_desc (ws_priority h) ws (wp_spaces p)"
  using find_below_insert [where pri = "ws_priority h" and y = ws and xs = "wp_spaces p" and k = 0] assms
  by (auto simp: WorkSpacePath_Add_def Let_def insert_spaces split: option.splits)

lemma mset_insert_desc: "mset (insert_desc pri y xs) = add_mset y (mset xs)"
  by (induction xs) auto

lemma set_insert_desc [simp]: "set (insert_desc pri y xs) = insert y (set xs)"
  by (induction xs) auto

lemma sorted_insert_desc: "sorted_wrt (\<lambda>x y. pri x \<ge> pri y) xs \<Longrightarrow> sorted_wrt (\<lambda>x y. pri x \<ge> pri y) (insert_desc pri y xs)"
  by (induction xs) auto

section \<open>What a new work space is\<close>

lemma massdb_dispatch:
  "massdb_OpenDB (DBBackendList U F) t args fs =
     (if t = TypeMassDBV1 then (fs, OpenDB U F fs args) else (fs, Inl ErrInvalidDBType))"
  "massdb_CreateDB (DBBackendList U F) t args fs =
     (if t = TypeMassDBV1 then CreateDB U F fs args else (fs, Inl ErrInvalidDBType))"
  by (simp_all add: massdb_OpenDB_def massdb_CreateDB_def DBBackendList_def AddDBBackend_def massdb_v1_backend_def)

lemma OpenDB_args:
  assumes "OpenDB U F fs [ArgString dir, ArgInt64 ordinal, ArgPubKey pk, ArgInt bl] = Inr mdb"
  shows "mdb_pubKey mdb = pk \<and> mdb_bl mdb = bl \<and> mdb_pubKeyHash mdb = PubKeyHash U pk \<and> plotting mdb = 0 \<and> mdb_wg mdb = 0"
  using assms by (auto simp: OpenDB_def new_mdb_def Let_def split: sum.splits loaded_map.splits prod.splits if_splits)

lemma CreateDB_args:
  assumes "CreateDB U F fs [ArgString dir, ArgInt64 ordinal, ArgPubKey pk, ArgInt bl] = (fs', Inr mdb)"
  shows "mdb_pubKey mdb = pk \<and> mdb_bl mdb = bl \<and> mdb_pubKeyHash mdb = PubKeyHash U pk \<and> plotting mdb = 0 \<and> mdb_wg mdb = 0"
  using assms by (auto simp: CreateDB_def new_mdb_def Let_def split: sum.splits loaded_map.splits prod.splits if_splits)

text \<open>An opened or created database has a table A unless it is plotted.\<close>

lemma OpenDB_HashMapA:
  assumes "OpenDB U F fs [ArgString dir, ArgInt64 ordinal, ArgPubKey pk, ArgInt bl] = Inr mdb"
  shows "HashMapA mdb = None \<longleftrightarrow> MassDBV1_Ready mdb"
  using assms
  by (auto simp: OpenDB_def new_mdb_def Let_def MassDBV1_Ready_def
      split: sum.splits loaded_map.splits prod.splits if_splits)

lemma CreateDB_HashMapA:
  assumes "CreateDB U F fs [ArgString dir, ArgInt64 ordinal, ArgPubKey pk, ArgInt bl] = (fs', Inr mdb)"
  shows "HashMapA mdb \<noteq> None"
  using assms by (auto simp: CreateDB_def new_mdb_def Let_def split: sum.splits loaded_map.splits prod.splits if_splits)

text \<open>
  The databases the code makes carry the key and the bit length they were asked for, so the check
  of \<open>NewWorkSpace\<close> against them always succeeds.
\<close>

lemma NewWorkSpace_args:
  assumes "NewWorkSpace U F fs t dir ordinal pk bl = (fs', r)"
  shows "r \<noteq> Inl ErrMassDBDoesNotMatchWithName"
    "r = Inr ws \<Longrightarrow> ws_id ws = NewSpaceID U ordinal pk bl \<and> ws_using ws = False \<and> ws_rootDir ws = dir \<and>
       plotting (ws_db ws) = 0 \<and> mdb_wg (ws_db ws) = 0 \<and> mdb_pubKeyHash (ws_db ws) = PubKeyHash U pk \<and> mdb_bl (ws_db ws) = bl \<and>
       (ws_state ws = Registered \<and> HashMapA (ws_db ws) \<noteq> None \<or> ws_state ws = Ready)"
  using assms
  by (auto simp: NewWorkSpace_def massdb_dispatch Let_def MassDBV1_PubKey_def MassDBV1_BitLength_def MassDBV1_Progress_def
      dest!: OpenDB_args CreateDB_args split: sum.splits if_splits option.splits prod.splits)

end
