(* ===== verification/Space_Keeper.thy ===== *)
theory Space_Keeper
  imports Work_Space
begin

text \<open>
  The space keeper of \<open>poc/engine/spacekeeper/capacity\<close> at work: its state, the actions on work spaces
  and the queries of \<open>capacity.go\<close>, and the steps of the plotter of \<open>space_plotter.go\<close>. How the space
  keeper is configured is the theory \<open>Space_Config\<close>.

  Every action runs under \<open>stateLock\<close> and is one function on the state. A call returns, blocks on the
  channel of the plotter while it holds the lock, or panics.
\<close>

section \<open>The environment\<close>

text \<open>
  What the space keeper calls outside the package: the wallet (an interface), the disk, the order of
  Go's map ranges, the pool of workers (\<open>pool_Submit\<close> tells which submissions fail), and the run of a
  plotting goroutine that is told to stop (\<open>plot_goroutine\<close>).
\<close>

record ('pk, 'q, 'w, 'sig) sk_env =
  env_U :: "'pk pocutil"
  env_F :: os_faults
  env_Q :: "('q, qws) prque"
  PlotSize :: "nat \<Rightarrow> u64"
  EnsureBitLength :: "int \<Rightarrow> bool"
  MinValidDefaultBitLength :: nat
  disk_Usage :: "string \<Rightarrow> string + u64"
  GenerateNewPublicKey :: "'w \<Rightarrow> 'w \<times> (string + 'pk \<times> u32)"
  GetPublicKeyOrdinal :: "'w \<Rightarrow> 'pk \<Rightarrow> u32 option"
  SignMessage :: "'w \<Rightarrow> 'pk \<Rightarrow> bytes \<Rightarrow> string + 'sig"
  wallet_Unlock :: "'w \<Rightarrow> string \<Rightarrow> 'w \<times> string option"
  wallet_IsLocked :: "'w \<Rightarrow> bool"
  range_order :: "string list \<Rightarrow> string list"
  pool_Submit :: "string \<Rightarrow> bool"
  plot_goroutine :: "'pk plot_run"

text \<open>What is relied on: a range visits each key once, and a goroutine runs \<open>executePlot\<close>.\<close>

definition range_ok :: "('pk, 'q, 'w, 'sig) sk_env \<Rightarrow> bool" where
  "range_ok E \<longleftrightarrow> (\<forall>ks. mset (range_order E ks) = mset ks)"

definition goroutine_ok :: "('pk, 'q, 'w, 'sig) sk_env \<Rightarrow> bool" where
  "goroutine_ok E \<longleftrightarrow>
     (\<forall>fs mdb. \<exists>E1 E2 fuel. executePlot (env_U E) (env_F E) E1 E2 fuel fs mdb = Some (plot_goroutine E fs mdb))"

section \<open>The state\<close>

definition plotterMaxChanSize :: nat where "plotterMaxChanSize = 1024"
definition allState :: WorkSpaceState where "allState = LastState + 1"

record ('pk, 'q, 'w) spacekeeper =
  sk_started :: bool
  configuring :: bool
  configured :: bool
  allowGenerateNewSpace :: bool
  dbDirs :: "string list"
  sk_dbType :: string
  sk_wallet :: 'w
  workSpaceIndex :: "WorkSpaceMap list"
  workSpacePaths :: "(string \<times> workspace_path) list"
  workSpaceList :: "nat list"
  sk_queue :: "'q plotter_queue"
  newQueuedWorkSpaceCh :: "qws list"
  sk_heap :: "'pk ws_heap"
  sk_fs :: fs

text \<open>
  \<open>workSpaceIndex\<close> holds a map for each of the four states and the map of all work spaces, from the
  constructor on.
\<close>

definition index_Get :: "('pk, 'q, 'w) spacekeeper \<Rightarrow> WorkSpaceState \<Rightarrow> string \<Rightarrow> nat option" where
  "index_Get sk s sid = WorkSpaceMap_Get (workSpaceIndex sk ! unat s) sid"

definition index_Set ::
  "WorkSpaceState \<Rightarrow> string \<Rightarrow> nat \<Rightarrow> ('pk, 'q, 'w) spacekeeper \<Rightarrow> ('pk, 'q, 'w) spacekeeper" where
  "index_Set s sid ws sk =
     sk\<lparr>workSpaceIndex := (workSpaceIndex sk)[unat s := WorkSpaceMap_Set (workSpaceIndex sk ! unat s) sid ws]\<rparr>"

definition index_Delete ::
  "WorkSpaceState \<Rightarrow> string \<Rightarrow> ('pk, 'q, 'w) spacekeeper \<Rightarrow> ('pk, 'q, 'w) spacekeeper" where
  "index_Delete s sid sk =
     sk\<lparr>workSpaceIndex := (workSpaceIndex sk)[unat s := WorkSpaceMap_Delete (workSpaceIndex sk ! unat s) sid]\<rparr>"

abbreviation the_ws :: "('pk, 'q, 'w) spacekeeper \<Rightarrow> nat \<Rightarrow> 'pk workspace" where
  "the_ws sk r \<equiv> sk_heap sk ! r"

definition sid_of :: "'pk pocutil \<Rightarrow> ('pk, 'q, 'w) spacekeeper \<Rightarrow> nat \<Rightarrow> string" where
  "sid_of U sk r = SpaceID_String U (ws_id (the_ws sk r))"

definition update_ws ::
  "nat \<Rightarrow> ('pk workspace \<Rightarrow> 'pk workspace) \<Rightarrow> ('pk, 'q, 'w) spacekeeper \<Rightarrow> ('pk, 'q, 'w) spacekeeper" where
  "update_ws r f sk = sk\<lparr>sk_heap := (sk_heap sk)[r := f (the_ws sk r)]\<rparr>"

section \<open>Lists of work spaces\<close>

fun find_sid :: "(nat \<Rightarrow> string) \<Rightarrow> string \<Rightarrow> nat list \<Rightarrow> nat \<Rightarrow> nat option" where
  "find_sid sids sid [] i = None"
| "find_sid sids sid (w # ws) i = (if sids w = sid then Some i else find_sid sids sid ws (i + 1))"

definition deleteFromSlice :: "(nat \<Rightarrow> string) \<Rightarrow> nat list \<Rightarrow> string \<Rightarrow> nat list" where
  "deleteFromSlice sids src sid =
     (if length src = 0 then src
      else case find_sid sids sid src 0 of
        None \<Rightarrow> src
      | Some idx \<Rightarrow> take idx src @ drop (idx + 1) src)"

fun getWsByID :: "(nat \<Rightarrow> string) \<Rightarrow> nat list \<Rightarrow> string \<Rightarrow> nat option" where
  "getWsByID sids [] sid = None"
| "getWsByID sids (w # ws) sid = (if sids w = sid then Some w else getWsByID sids ws sid)"

definition getWsByFlags :: "(nat \<Rightarrow> WorkSpaceState) \<Rightarrow> nat list \<Rightarrow> WorkSpaceStateFlags \<Rightarrow> nat list" where
  "getWsByFlags state_of src flags =
     (let states = Flags_States flags in filter (\<lambda>w. state_of w \<in> set states) src)"

definition useWorkSpace ::
  "'pk pocutil \<Rightarrow> nat \<Rightarrow> ('pk, 'q, 'w) spacekeeper \<Rightarrow> ('pk, 'q, 'w) spacekeeper" where
  "useWorkSpace U r sk =
     (if list_ex (\<lambda>e. sid_of U sk e = sid_of U sk r) (workSpaceList sk) then sk
      else update_ws r (ws_using_update (\<lambda>_. True)) (sk\<lparr>workSpaceList := workSpaceList sk @ [r]\<rparr>))"

definition disuseWorkSpace ::
  "'pk pocutil \<Rightarrow> nat \<Rightarrow> ('pk, 'q, 'w) spacekeeper \<Rightarrow> ('pk, 'q, 'w) spacekeeper" where
  "disuseWorkSpace U r sk =
     (let sk1 = update_ws r (ws_using_update (\<lambda>_. False)) sk
      in sk1\<lparr>workSpaceList := deleteFromSlice (sid_of U sk1) (workSpaceList sk1) (sid_of U sk1 r)\<rparr>)"

definition addWorkSpaceToIndex ::
  "'pk pocutil \<Rightarrow> nat \<Rightarrow> ('pk, 'q, 'w) spacekeeper \<Rightarrow> ('pk, 'q, 'w) spacekeeper" where
  "addWorkSpaceToIndex U r sk =
     (let sid = sid_of U sk r; dir = ws_rootDir (the_ws sk r) in
      if index_Get sk allState sid \<noteq> None then sk
      else
        let p = (case map_of (workSpacePaths sk) dir of Some p \<Rightarrow> p | None \<Rightarrow> NewWorkSpacePath dir);
            sk1 = sk\<lparr>workSpacePaths := AList.update dir (WorkSpacePath_Add U (sk_heap sk) p r) (workSpacePaths sk)\<rparr>
        in index_Set (ws_state (the_ws sk r)) sid r (index_Set allState sid r sk1))"

section \<open>Actions\<close>

datatype ('s, 'r) call = Returns 's 'r | Blocks 's | Panics

definition send_queued ::
  "('pk, 'q, 'w) spacekeeper \<Rightarrow> qws \<Rightarrow> (('pk, 'q, 'w) spacekeeper, sk_error option) call" where
  "send_queued sk x =
     (if length (newQueuedWorkSpaceCh sk) < plotterMaxChanSize
      then Returns (sk\<lparr>newQueuedWorkSpaceCh := newQueuedWorkSpaceCh sk @ [x]\<rparr>) None
      else Blocks sk)"

definition set_popped_mining :: "bool \<Rightarrow> ('pk, 'q, 'w) spacekeeper \<Rightarrow> ('pk, 'q, 'w) spacekeeper" where
  "set_popped_mining b sk =
     sk\<lparr>sk_queue := (sk_queue sk)\<lparr>poppedItem := map_option (wouldMining_update (\<lambda>_. b)) (poppedItem (sk_queue sk))\<rparr>\<rparr>"

definition PlotWS ::
  "('pk, 'q, 'w, 'sig) sk_env \<Rightarrow> ('pk, 'q, 'w) spacekeeper \<Rightarrow> string
     \<Rightarrow> (('pk, 'q, 'w) spacekeeper, sk_error option) call" where
  "PlotWS E sk sid =
     (case index_Get sk allState sid of None \<Rightarrow> Returns sk (Some ErrWorkSpaceDoesNotExist)
      | Some w \<Rightarrow>
        if \<not> ws_using (the_ws sk w) then Returns sk (Some ErrWorkSpaceDoesNotExist)
        else case index_Get sk Registered sid of
          Some ws \<Rightarrow> send_queued sk (newQueuedWorkSpace ws False)
        | None \<Rightarrow>
          if index_Get sk Plotting sid \<noteq> None
          then case plotterQueue_PoppedItem (sk_queue sk) of
              None \<Rightarrow> Panics
            | Some x \<Rightarrow>
              if sid_of (env_U E) sk (qws_ws x) \<noteq> sid then Returns sk (Some ErrWorkSpaceIsNotPlotting)
              else Returns (set_popped_mining False sk) None
          else Returns sk None)"

definition MineWS ::
  "('pk, 'q, 'w, 'sig) sk_env \<Rightarrow> ('pk, 'q, 'w) spacekeeper \<Rightarrow> string
     \<Rightarrow> (('pk, 'q, 'w) spacekeeper, sk_error option) call" where
  "MineWS E sk sid =
     (case index_Get sk allState sid of None \<Rightarrow> Returns sk (Some ErrWorkSpaceDoesNotExist)
      | Some w \<Rightarrow>
        if \<not> ws_using (the_ws sk w) then Returns sk (Some ErrWorkSpaceDoesNotExist)
        else case index_Get sk Registered sid of
          Some ws \<Rightarrow> send_queued sk (newQueuedWorkSpace ws True)
        | None \<Rightarrow>
          if index_Get sk Plotting sid \<noteq> None
          then case plotterQueue_PoppedItem (sk_queue sk) of
              None \<Rightarrow> Panics
            | Some x \<Rightarrow>
              if sid_of (env_U E) sk (qws_ws x) \<noteq> sid then Returns sk (Some ErrWorkSpaceIsNotPlotting)
              else Returns (set_popped_mining True sk) None
          else case index_Get sk Ready sid of
            Some ws \<Rightarrow>
              Returns (update_ws ws (ws_state_update (\<lambda>_. Mining))
                (index_Set Mining sid ws (index_Delete Ready sid sk))) None
          | None \<Rightarrow> Returns sk None)"

definition StopWS ::
  "('pk, 'q, 'w, 'sig) sk_env \<Rightarrow> ('pk, 'q, 'w) spacekeeper \<Rightarrow> string
     \<Rightarrow> (('pk, 'q, 'w) spacekeeper, sk_error option) call" where
  "StopWS E sk sid =
     (case index_Get sk allState sid of None \<Rightarrow> Returns sk (Some ErrWorkSpaceDoesNotExist)
      | Some w \<Rightarrow>
        if \<not> ws_using (the_ws sk w) then Returns sk (Some ErrWorkSpaceDoesNotExist)
        else case plotterQueue_Delete (env_Q E) (sid_of (env_U E) sk) (sk_queue sk) sid of
          None \<Rightarrow> Panics
        | Some q \<Rightarrow>
          (let sk1 = sk\<lparr>sk_queue := q\<rparr> in
           case index_Get sk1 Plotting sid of
             Some ws \<Rightarrow>
               (case plotterQueue_PoppedItem q of
                  None \<Rightarrow> Panics
                | Some x \<Rightarrow>
                  if sid_of (env_U E) sk1 (qws_ws x) \<noteq> sid then Returns sk1 (Some ErrWorkSpaceIsNotPlotting)
                  else case ws_StopPlot (plot_goroutine E) (sk_fs sk1) (the_ws sk1 ws) of
                    None \<Rightarrow> Panics
                  | Some (fs', ws') \<Rightarrow>
                      Returns (update_ws ws (\<lambda>_. ws') ((set_popped_mining False sk1)\<lparr>sk_fs := fs'\<rparr>)) None)
           | None \<Rightarrow>
             (case index_Get sk1 Mining sid of
                Some ws \<Rightarrow>
                  Returns (update_ws ws (ws_state_update (\<lambda>_. Ready))
                    (index_Set Ready sid ws (index_Delete Mining sid sk1))) None
              | None \<Rightarrow> Returns sk1 None)))"

definition RemoveWS ::
  "('pk, 'q, 'w, 'sig) sk_env \<Rightarrow> ('pk, 'q, 'w) spacekeeper \<Rightarrow> string
     \<Rightarrow> (('pk, 'q, 'w) spacekeeper, sk_error option) call" where
  "RemoveWS E sk sid =
     (case index_Get sk allState sid of None \<Rightarrow> Returns sk (Some ErrWorkSpaceDoesNotExist)
      | Some w \<Rightarrow>
        if \<not> ws_using (the_ws sk w) then Returns sk (Some ErrWorkSpaceDoesNotExist)
        else case plotterQueue_Delete (env_Q E) (sid_of (env_U E) sk) (sk_queue sk) sid of
          None \<Rightarrow> Panics
        | Some q \<Rightarrow>
          (let sk1 = sk\<lparr>sk_queue := q\<rparr> in
           case index_Get sk1 Registered sid of
             Some ws \<Rightarrow> Returns (disuseWorkSpace (env_U E) ws sk1) None
           | None \<Rightarrow>
             (case index_Get sk1 Ready sid of
                Some ws \<Rightarrow> Returns (disuseWorkSpace (env_U E) ws sk1) None
              | None \<Rightarrow> Returns sk1 (Some ErrWorkSpaceIsNotStill))))"

definition delete_ws ::
  "('pk, 'q, 'w, 'sig) sk_env \<Rightarrow> string \<Rightarrow> nat \<Rightarrow> ('pk, 'q, 'w) spacekeeper
     \<Rightarrow> (('pk, 'q, 'w) spacekeeper, sk_error option) call" where
  "delete_ws E sid ws sk =
     (let sk1 = disuseWorkSpace (env_U E) ws
            (index_Delete allState sid (index_Delete (ws_state (the_ws sk ws)) sid sk));
          (fs', err) = ws_Delete (env_F E) (sk_fs sk1) (the_ws sk1 ws)
      in Returns (sk1\<lparr>sk_fs := fs'\<rparr>) err)"

definition DeleteWS ::
  "('pk, 'q, 'w, 'sig) sk_env \<Rightarrow> ('pk, 'q, 'w) spacekeeper \<Rightarrow> string
     \<Rightarrow> (('pk, 'q, 'w) spacekeeper, sk_error option) call" where
  "DeleteWS E sk sid =
     (case index_Get sk allState sid of None \<Rightarrow> Returns sk (Some ErrWorkSpaceDoesNotExist)
      | Some w \<Rightarrow>
        if \<not> ws_using (the_ws sk w) then Returns sk (Some ErrWorkSpaceDoesNotExist)
        else case plotterQueue_Delete (env_Q E) (sid_of (env_U E) sk) (sk_queue sk) sid of
          None \<Rightarrow> Panics
        | Some q \<Rightarrow>
          (let sk1 = sk\<lparr>sk_queue := q\<rparr> in
           case index_Get sk1 Registered sid of
             Some ws \<Rightarrow> delete_ws E sid ws sk1
           | None \<Rightarrow>
             (case index_Get sk1 Ready sid of
                Some ws \<Rightarrow> delete_ws E sid ws sk1
              | None \<Rightarrow> Returns sk1 (Some ErrWorkSpaceIsNotStill))))"

definition ActOnWorkSpace ::
  "('pk, 'q, 'w, 'sig) sk_env \<Rightarrow> ('pk, 'q, 'w) spacekeeper \<Rightarrow> string \<Rightarrow> ActionType
     \<Rightarrow> (('pk, 'q, 'w) spacekeeper, sk_error option) call" where
  "ActOnWorkSpace E sk sid act =
     (if \<not> Action_IsValid act then Returns sk (Some ErrInvalidAction)
      else if act = Plot then PlotWS E sk sid
      else if act = Mine then MineWS E sk sid
      else if act = Stop then StopWS E sk sid
      else if act = Remove then RemoveWS E sk sid
      else if act = Delete then DeleteWS E sk sid
      else Returns sk (Some ErrUnImplementedAction))"

section \<open>Actions on all work spaces of some states\<close>

text \<open>The five functions differ only in the action they apply.\<close>

fun act_each ::
  "(('pk, 'q, 'w) spacekeeper \<Rightarrow> string \<Rightarrow> (('pk, 'q, 'w) spacekeeper, sk_error option) call) \<Rightarrow> string list
     \<Rightarrow> (string \<times> sk_error option) list \<Rightarrow> ('pk, 'q, 'w) spacekeeper
     \<Rightarrow> (('pk, 'q, 'w) spacekeeper, (string \<times> sk_error option) list) call" where
  "act_each act [] errs sk = Returns sk errs"
| "act_each act (sid # sids) errs sk =
     (case act sk sid of
        Returns sk' err \<Rightarrow> act_each act sids (AList.update sid err errs) sk'
      | Blocks sk' \<Rightarrow> Blocks sk'
      | Panics \<Rightarrow> Panics)"

definition sids_by_flags :: "'pk pocutil \<Rightarrow> ('pk, 'q, 'w) spacekeeper \<Rightarrow> WorkSpaceStateFlags \<Rightarrow> string list" where
  "sids_by_flags U sk flags =
     map (sid_of U sk) (getWsByFlags (\<lambda>w. ws_state (the_ws sk w)) (workSpaceList sk) flags)"

definition PlotMultiWS ::
  "('pk, 'q, 'w, 'sig) sk_env \<Rightarrow> ('pk, 'q, 'w) spacekeeper \<Rightarrow> WorkSpaceStateFlags
     \<Rightarrow> (('pk, 'q, 'w) spacekeeper, (string \<times> sk_error option) list) call" where
  "PlotMultiWS E sk flags = act_each (PlotWS E) (sids_by_flags (env_U E) sk flags) [] sk"

definition MineMultiWS ::
  "('pk, 'q, 'w, 'sig) sk_env \<Rightarrow> ('pk, 'q, 'w) spacekeeper \<Rightarrow> WorkSpaceStateFlags
     \<Rightarrow> (('pk, 'q, 'w) spacekeeper, (string \<times> sk_error option) list) call" where
  "MineMultiWS E sk flags = act_each (MineWS E) (sids_by_flags (env_U E) sk flags) [] sk"

definition StopMultiWS ::
  "('pk, 'q, 'w, 'sig) sk_env \<Rightarrow> ('pk, 'q, 'w) spacekeeper \<Rightarrow> WorkSpaceStateFlags
     \<Rightarrow> (('pk, 'q, 'w) spacekeeper, (string \<times> sk_error option) list) call" where
  "StopMultiWS E sk flags = act_each (StopWS E) (sids_by_flags (env_U E) sk flags) [] sk"

definition RemoveMultiWS ::
  "('pk, 'q, 'w, 'sig) sk_env \<Rightarrow> ('pk, 'q, 'w) spacekeeper \<Rightarrow> WorkSpaceStateFlags
     \<Rightarrow> (('pk, 'q, 'w) spacekeeper, (string \<times> sk_error option) list) call" where
  "RemoveMultiWS E sk flags = act_each (RemoveWS E) (sids_by_flags (env_U E) sk flags) [] sk"

definition DeleteMultiWS ::
  "('pk, 'q, 'w, 'sig) sk_env \<Rightarrow> ('pk, 'q, 'w) spacekeeper \<Rightarrow> WorkSpaceStateFlags
     \<Rightarrow> (('pk, 'q, 'w) spacekeeper, (string \<times> sk_error option) list) call" where
  "DeleteMultiWS E sk flags = act_each (DeleteWS E) (sids_by_flags (env_U E) sk flags) [] sk"

definition call_ok :: "('s, 'r) call \<Rightarrow> ('s, 'e + 'r) call" where
  "call_ok c = (case c of Returns s r \<Rightarrow> Returns s (Inr r) | Blocks s \<Rightarrow> Blocks s | Panics \<Rightarrow> Panics)"

definition ActOnWorkSpaces ::
  "('pk, 'q, 'w, 'sig) sk_env \<Rightarrow> ('pk, 'q, 'w) spacekeeper \<Rightarrow> WorkSpaceStateFlags \<Rightarrow> ActionType
     \<Rightarrow> (('pk, 'q, 'w) spacekeeper, sk_error + (string \<times> sk_error option) list) call" where
  "ActOnWorkSpaces E sk flags act =
     (if \<not> Action_IsValid act then Returns sk (Inl ErrInvalidAction)
      else if act = Plot then call_ok (PlotMultiWS E sk flags)
      else if act = Mine then call_ok (MineMultiWS E sk flags)
      else if act = Stop then call_ok (StopMultiWS E sk flags)
      else if act = Remove then call_ok (RemoveMultiWS E sk flags)
      else if act = Delete then call_ok (DeleteMultiWS E sk flags)
      else Returns sk (Inl ErrUnImplementedAction))"

section \<open>Queries\<close>

definition WorkSpaceIDs :: "'pk pocutil \<Rightarrow> ('pk, 'q, 'w) spacekeeper \<Rightarrow> WorkSpaceStateFlags \<Rightarrow> string list" where
  "WorkSpaceIDs U sk flags =
     (if Flags_Contains flags SFAll then map (sid_of U sk) (workSpaceList sk)
      else map (sid_of U sk) (getWsByFlags (\<lambda>w. ws_state (the_ws sk w)) (workSpaceList sk) flags))"

definition WorkSpaceInfos ::
  "'pk pocutil \<Rightarrow> ('pk, 'q, 'w) spacekeeper \<Rightarrow> WorkSpaceStateFlags \<Rightarrow> 'pk workspace_info list" where
  "WorkSpaceInfos U sk flags =
     (if Flags_Contains flags SFAll then map (\<lambda>w. ws_Info U (the_ws sk w)) (workSpaceList sk)
      else map (\<lambda>w. ws_Info U (the_ws sk w))
             (getWsByFlags (\<lambda>w. ws_state (the_ws sk w)) (workSpaceList sk) flags))"

definition sk_getProof :: "'pk pocutil \<Rightarrow> 'pk workspace \<Rightarrow> bytes \<Rightarrow> bool \<Rightarrow> 'pk workspace_proof" where
  "sk_getProof U ws challenge filt =
     (let r = MassDBV1_GetProof U (ws_db ws) challenge filt in
      \<lparr>wsp_SpaceID = SpaceID_String U (ws_id ws),
       wsp_Proof = (case r of Inr p \<Rightarrow> Some p | Inl _ \<Rightarrow> None),
       wsp_PublicKey = sid_pubKey (ws_id ws), wsp_Ordinal = sid_ordinal (ws_id ws),
       wsp_Error = (case r of Inr _ \<Rightarrow> None | Inl e \<Rightarrow> Some e)\<rparr>)"

definition SpaceKeeper_GetProof ::
  "('pk, 'q, 'w, 'sig) sk_env \<Rightarrow> ('pk, 'q, 'w) spacekeeper \<Rightarrow> string \<Rightarrow> bytes \<Rightarrow> bool
     \<Rightarrow> sk_error + 'pk workspace_proof" where
  "SpaceKeeper_GetProof E sk sid challenge filt =
     (if \<not> sk_started sk then Inl ErrSpaceKeeperIsNotRunning
      else case map_of (WorkSpaceMap_Items (workSpaceIndex sk ! unat allState)) sid of
        Some w \<Rightarrow> if ws_using (the_ws sk w) then Inr (sk_getProof (env_U E) (the_ws sk w) challenge filt)
                  else Inl ErrWorkSpaceDoesNotExist
      | None \<Rightarrow> Inl ErrWorkSpaceDoesNotExist)"

text \<open>
  The workers send their proofs in any order into a map; a space whose submission fails has none.
\<close>

definition sk_getProofs ::
  "('pk, 'q, 'w, 'sig) sk_env \<Rightarrow> ('pk, 'q, 'w) spacekeeper \<Rightarrow> WorkSpaceMap \<Rightarrow> bytes \<Rightarrow> bool
     \<Rightarrow> (string \<times> 'pk workspace_proof) list" where
  "sk_getProofs E sk wsMap challenge filt =
     fold (\<lambda>(sid, w) result.
             if pool_Submit E sid
             then let wsp = sk_getProof (env_U E) (the_ws sk w) challenge filt
                  in AList.update (wsp_SpaceID wsp) wsp result
             else result)
       (go_range (range_order E) wsMap) []"

definition ws_items ::
  "'pk pocutil \<Rightarrow> ('pk, 'q, 'w) spacekeeper \<Rightarrow> WorkSpaceStateFlags \<Rightarrow> WorkSpaceMap" where
  "ws_items U sk flags =
     fold (\<lambda>w items. AList.update (sid_of U sk w) w items)
       (getWsByFlags (\<lambda>w. ws_state (the_ws sk w)) (workSpaceList sk) flags) []"

definition SpaceKeeper_GetProofs ::
  "('pk, 'q, 'w, 'sig) sk_env \<Rightarrow> ('pk, 'q, 'w) spacekeeper \<Rightarrow> WorkSpaceStateFlags \<Rightarrow> bytes \<Rightarrow> bool
     \<Rightarrow> sk_error + 'pk workspace_proof list" where
  "SpaceKeeper_GetProofs E sk flags challenge filt =
     (if \<not> sk_started sk then Inl ErrSpaceKeeperIsNotRunning
      else Inr (map snd (go_range (range_order E)
                 (sk_getProofs E sk (ws_items (env_U E) sk flags) challenge filt))))"

text \<open>
  The readers return a pipe into which a goroutine writes the proofs before it closes it. The pipe
  has room for all of them; \<open>None\<close> stands for a goroutine that would block.
\<close>

definition SpaceKeeper_GetProofReader ::
  "('pk, 'q, 'w, 'sig) sk_env \<Rightarrow> ('pk, 'q, 'w) spacekeeper \<Rightarrow> string \<Rightarrow> bytes \<Rightarrow> bool
     \<Rightarrow> sk_error + 'pk workspace_proof proof_rw option" where
  "SpaceKeeper_GetProofReader E sk sid challenge filt =
     (if \<not> sk_started sk then Inl ErrSpaceKeeperIsNotRunning
      else case map_of (WorkSpaceMap_Items (workSpaceIndex sk ! unat allState)) sid of
        Some w \<Rightarrow>
          if ws_using (the_ws sk w)
          then Inr (map_option (\<lambda>(prw, err). ProofRW_Close prw)
                 (ProofRW_Write (NewProofRW 1) (sk_getProof (env_U E) (the_ws sk w) challenge filt)))
          else Inl ErrWorkSpaceDoesNotExist
      | None \<Rightarrow> Inl ErrWorkSpaceDoesNotExist)"

definition SpaceKeeper_GetProofsReader ::
  "('pk, 'q, 'w, 'sig) sk_env \<Rightarrow> ('pk, 'q, 'w) spacekeeper \<Rightarrow> WorkSpaceStateFlags \<Rightarrow> bytes \<Rightarrow> bool
     \<Rightarrow> sk_error + 'pk workspace_proof proof_rw option" where
  "SpaceKeeper_GetProofsReader E sk flags challenge filt =
     (if \<not> sk_started sk then Inl ErrSpaceKeeperIsNotRunning
      else
        let items = ws_items (env_U E) sk flags;
            proofs = map snd (go_range (range_order E) (sk_getProofs E sk items challenge filt))
        in Inr (map_option (\<lambda>(prw, err). ProofRW_Close prw) (write_proofs (NewProofRW (length items)) proofs)))"

definition SignHash ::
  "('pk, 'q, 'w, 'sig) sk_env \<Rightarrow> ('pk, 'q, 'w) spacekeeper \<Rightarrow> string \<Rightarrow> bytes \<Rightarrow> sk_error + 'sig" where
  "SignHash E sk sid hash =
     (case map_of (WorkSpaceMap_Items (workSpaceIndex sk ! unat allState)) sid of
        Some w \<Rightarrow> (case SignMessage E (sk_wallet sk) (sid_pubKey (ws_id (the_ws sk w))) hash of
                     Inl e \<Rightarrow> Inl (OtherError e) | Inr sig \<Rightarrow> Inr sig)
      | None \<Rightarrow> Inl ErrWorkSpaceDoesNotExist)"

definition Configured :: "('pk, 'q, 'w) spacekeeper \<Rightarrow> bool" where
  "Configured sk = configured sk"

section \<open>The plotter\<close>

definition changeState ::
  "nat \<Rightarrow> string \<Rightarrow> WorkSpaceState \<Rightarrow> WorkSpaceState \<Rightarrow> ('pk, 'q, 'w) spacekeeper \<Rightarrow> ('pk, 'q, 'w) spacekeeper" where
  "changeState ws sid old new sk =
     update_ws ws (ws_state_update (\<lambda>_. new)) (index_Set new sid ws (index_Delete old sid sk))"

text \<open>Step 1 of \<open>plotSpace\<close>: the flag tells whether the space is to be plotted.\<close>

definition plotSpace_begin ::
  "'pk pocutil \<Rightarrow> qws \<Rightarrow> ('pk, 'q, 'w) spacekeeper \<Rightarrow> ('pk, 'q, 'w) spacekeeper \<times> bool" where
  "plotSpace_begin U x sk =
     (let ws = qws_ws x; sid = sid_of U sk ws in
      if index_Get sk Registered sid \<noteq> None then (changeState ws sid Registered Plotting sk, True)
      else
        (if index_Get sk Ready sid \<noteq> None \<and> wouldMining x then changeState ws sid Ready Mining sk else sk, False))"

text \<open>Step 3, after the plot.\<close>

definition plotSpace_end :: "'pk pocutil \<Rightarrow> qws \<Rightarrow> ('pk, 'q, 'w) spacekeeper \<Rightarrow> ('pk, 'q, 'w) spacekeeper" where
  "plotSpace_end U x sk =
     (let ws = qws_ws x; sid = sid_of U sk ws in
      if progress_below_100 (ws_Progress (the_ws sk ws)) then changeState ws sid Plotting Registered sk
      else if wouldMining x then changeState ws sid Plotting Mining sk
      else changeState ws sid Plotting Ready sk)"

definition queue_Push ::
  "('pk, 'q, 'w, 'sig) sk_env \<Rightarrow> qws \<Rightarrow> ('pk, 'q, 'w) spacekeeper \<Rightarrow> ('pk, 'q, 'w) spacekeeper" where
  "queue_Push E x sk =
     sk\<lparr>sk_queue := plotterQueue_Push (env_Q E) (sk_queue sk) x (ws_priority (sk_heap sk) (qws_ws x))\<rparr>"

definition addSpaces ::
  "('pk, 'q, 'w, 'sig) sk_env \<Rightarrow> qws \<Rightarrow> ('pk, 'q, 'w) spacekeeper \<Rightarrow> ('pk, 'q, 'w) spacekeeper" where
  "addSpaces E x sk =
     fold (queue_Push E) (newQueuedWorkSpaceCh sk) ((queue_Push E x sk)\<lparr>newQueuedWorkSpaceCh := []\<rparr>)"

end
