(* ===== verification/Keeper_Inv.thy ===== *)
theory Keeper_Inv
  imports Space_Keeper
begin

text \<open>
  The index of the space keeper is consistent: the map of all work spaces, the maps of the four
  states, the states and the \<open>using\<close> flags stored in the work spaces and the list of used work
  spaces agree. Every action keeps it so, alone or applied to all spaces of some states (the locale
  \<open>keeper_action\<close>), and moves states only along the transitions the comments of \<open>capacity.go\<close> list.
\<close>

section \<open>States and maps\<close>

lemma state_neqs [simp]:
  "Registered \<noteq> Plotting" "Registered \<noteq> Ready" "Registered \<noteq> Mining" "Registered \<noteq> allState"
  "Plotting \<noteq> Registered" "Plotting \<noteq> Ready" "Plotting \<noteq> Mining" "Plotting \<noteq> allState"
  "Ready \<noteq> Registered" "Ready \<noteq> Plotting" "Ready \<noteq> Mining" "Ready \<noteq> allState"
  "Mining \<noteq> Registered" "Mining \<noteq> Plotting" "Mining \<noteq> Ready" "Mining \<noteq> allState"
  "allState \<noteq> Registered" "allState \<noteq> Plotting" "allState \<noteq> Ready" "allState \<noteq> Mining"
  by (simp_all add: state_defs allState_def)

lemma unat_states [simp]:
  "unat Registered = 0" "unat Plotting = 1" "unat Ready = 2" "unat Mining = 3" "unat allState = 4"
  by (simp_all add: state_defs allState_def)

lemma valid_states [simp]:
  "State_IsValid Registered" "State_IsValid Plotting" "State_IsValid Ready" "State_IsValid Mining"
  "\<not> State_IsValid allState"
  by (simp_all add: State_IsValid_def state_defs allState_def)

lemma State_IsValid_cases: "State_IsValid s \<longleftrightarrow> s = Registered \<or> s = Plotting \<or> s = Ready \<or> s = Mining"
  by (simp add: State_IsValid_iff)

lemma valid_not_all: "State_IsValid s \<Longrightarrow> s \<noteq> allState"
  by auto

lemma unat_state: "State_IsValid s \<or> s = allState \<Longrightarrow> unat s < 5"
  by (auto simp: State_IsValid_cases)

lemma index_Get_Set:
  assumes "unat s < length (workSpaceIndex sk)"
  shows "index_Get (index_Set s sid r sk) s' sid' = (if s' = s \<and> sid' = sid then Some r else index_Get sk s' sid')"
  using assms by (auto simp: index_Get_def index_Set_def nth_list_update dest: word_unat_eq_iff [THEN iffD2])

lemma index_Get_Delete:
  assumes "unat s < length (workSpaceIndex sk)"
  shows "index_Get (index_Delete s sid sk) s' sid' = (if s' = s \<and> sid' = sid then None else index_Get sk s' sid')"
  using assms by (auto simp: index_Get_def index_Delete_def nth_list_update dest: word_unat_eq_iff [THEN iffD2])

lemma index_ops_simps [simp]:
  "sk_heap (index_Set s sid r sk) = sk_heap sk" "workSpaceList (index_Set s sid r sk) = workSpaceList sk"
  "length (workSpaceIndex (index_Set s sid r sk)) = length (workSpaceIndex sk)"
  "sk_queue (index_Set s sid r sk) = sk_queue sk" "sk_fs (index_Set s sid r sk) = sk_fs sk"
  "newQueuedWorkSpaceCh (index_Set s sid r sk) = newQueuedWorkSpaceCh sk"
  "sk_heap (index_Delete s sid sk) = sk_heap sk" "workSpaceList (index_Delete s sid sk) = workSpaceList sk"
  "length (workSpaceIndex (index_Delete s sid sk)) = length (workSpaceIndex sk)"
  "sk_queue (index_Delete s sid sk) = sk_queue sk" "sk_fs (index_Delete s sid sk) = sk_fs sk"
  "newQueuedWorkSpaceCh (index_Delete s sid sk) = newQueuedWorkSpaceCh sk"
  by (simp_all add: index_Set_def index_Delete_def)

lemma update_ws_simps [simp]:
  "workSpaceIndex (update_ws r f sk) = workSpaceIndex sk" "workSpaceList (update_ws r f sk) = workSpaceList sk"
  "length (sk_heap (update_ws r f sk)) = length (sk_heap sk)"
  "sk_queue (update_ws r f sk) = sk_queue sk" "sk_fs (update_ws r f sk) = sk_fs sk"
  "newQueuedWorkSpaceCh (update_ws r f sk) = newQueuedWorkSpaceCh sk"
  "index_Get (update_ws r f sk) = index_Get sk"
  by (auto simp: update_ws_def index_Get_def fun_eq_iff)

lemma the_ws_update_ws:
  "the_ws (update_ws r f sk) r' = (if r' = r \<and> r < length (sk_heap sk) then f (the_ws sk r) else the_ws sk r')"
  by (cases "r < length (sk_heap sk)") (auto simp: update_ws_def nth_list_update list_update_beyond)

section \<open>Consistency of the index\<close>

definition index_ok :: "'pk pocutil \<Rightarrow> ('pk, 'q, 'w) spacekeeper \<Rightarrow> bool" where
  "index_ok U sk \<longleftrightarrow>
     5 \<le> length (workSpaceIndex sk) \<and>
     (\<forall>i<5. distinct (map fst (workSpaceIndex sk ! i))) \<and>
     (\<forall>sid r. index_Get sk allState sid = Some r \<longrightarrow>
        r < length (sk_heap sk) \<and> sid_of U sk r = sid \<and> State_IsValid (ws_state (the_ws sk r))) \<and>
     (\<forall>s sid r. State_IsValid s \<longrightarrow>
        (index_Get sk s sid = Some r \<longleftrightarrow> index_Get sk allState sid = Some r \<and> ws_state (the_ws sk r) = s)) \<and>
     distinct (map (sid_of U sk) (workSpaceList sk)) \<and>
     (\<forall>r\<in>set (workSpaceList sk). index_Get sk allState (sid_of U sk r) = Some r) \<and>
     (\<forall>sid r. index_Get sk allState sid = Some r \<longrightarrow>
        (ws_using (the_ws sk r) \<longleftrightarrow> r \<in> set (workSpaceList sk)))"

lemma index_okD:
  assumes "index_ok U sk"
  shows "5 \<le> length (workSpaceIndex sk)"
    "index_Get sk allState sid = Some r \<Longrightarrow> r < length (sk_heap sk)"
    "index_Get sk allState sid = Some r \<Longrightarrow> sid_of U sk r = sid"
    "index_Get sk allState sid = Some r \<Longrightarrow> State_IsValid (ws_state (the_ws sk r))"
    "State_IsValid s \<Longrightarrow> index_Get sk s sid = Some r \<Longrightarrow>
       index_Get sk allState sid = Some r \<and> ws_state (the_ws sk r) = s"
    "index_Get sk allState sid = Some r \<Longrightarrow> index_Get sk (ws_state (the_ws sk r)) sid = Some r"
    "index_Get sk allState sid = Some r \<Longrightarrow> ws_using (the_ws sk r) \<longleftrightarrow> r \<in> set (workSpaceList sk)"
    "r \<in> set (workSpaceList sk) \<Longrightarrow> index_Get sk allState (sid_of U sk r) = Some r"
    "distinct (map (sid_of U sk) (workSpaceList sk))"
  using assms by (auto simp: index_ok_def)

lemma index_ok_None:
  assumes "index_ok U sk" "index_Get sk allState sid = Some r" "State_IsValid s"
  shows "index_Get sk s sid = (if ws_state (the_ws sk r) = s then Some r else None)"
  using index_okD(5) [OF assms(1,3), of sid] index_okD(6) [OF assms(1,2)] assms(2)
  by (cases "index_Get sk s sid") auto

text \<open>Only the index, the list and three fields of the work spaces matter.\<close>

lemma index_ok_cong:
  assumes "workSpaceIndex sk' = workSpaceIndex sk" "workSpaceList sk' = workSpaceList sk"
    "length (sk_heap sk') = length (sk_heap sk)"
    "\<And>r. r < length (sk_heap sk) \<Longrightarrow> ws_id (the_ws sk' r) = ws_id (the_ws sk r) \<and>
       ws_state (the_ws sk' r) = ws_state (the_ws sk r) \<and> ws_using (the_ws sk' r) = ws_using (the_ws sk r)"
    and ok: "index_ok U sk"
  shows "index_ok U sk'"
proof -
  have G: "index_Get sk' = index_Get sk" using assms(1) by (simp add: index_Get_def fun_eq_iff)
  have A: "sid_of U sk' r = sid_of U sk r" "ws_state (the_ws sk' r) = ws_state (the_ws sk r)"
    "ws_using (the_ws sk' r) = ws_using (the_ws sk r)" if "index_Get sk allState sid = Some r" for sid r
    using assms(4) index_okD(2) [OF ok that] by (simp_all add: sid_of_def)
  have L: "sid_of U sk' r = sid_of U sk r" if "r \<in> set (workSpaceList sk)" for r
    using A(1) [OF index_okD(8) [OF ok that]] .
  then have M: "map (sid_of U sk') (workSpaceList sk) = map (sid_of U sk) (workSpaceList sk)" by simp
  show ?thesis
    unfolding index_ok_def G assms(1-3) M
    using ok A L unfolding index_ok_def by (simp cong: conj_cong) metis
qed

lemma index_ok_update_db:
  "index_ok U sk \<Longrightarrow> index_ok U (update_ws r (\<lambda>_. the_ws sk r\<lparr>ws_db := mdb\<rparr>) sk)"
  by (rule index_ok_cong [where sk = sk]) (auto simp: the_ws_update_ws)

lemma record_updates [simp]:
  "index_Get (sk\<lparr>sk_queue := q\<rparr>) = index_Get sk" "index_Get (sk\<lparr>newQueuedWorkSpaceCh := ch\<rparr>) = index_Get sk"
  "index_Get (sk\<lparr>sk_fs := fs\<rparr>) = index_Get sk" "index_Get (sk\<lparr>workSpaceList := l\<rparr>) = index_Get sk"
  "index_Get (set_popped_mining b sk) = index_Get sk"
  "sid_of U (sk\<lparr>sk_queue := q\<rparr>) = sid_of U sk" "sid_of U (sk\<lparr>newQueuedWorkSpaceCh := ch\<rparr>) = sid_of U sk"
  "sid_of U (sk\<lparr>sk_fs := fs\<rparr>) = sid_of U sk" "sid_of U (sk\<lparr>workSpaceList := l\<rparr>) = sid_of U sk"
  "sid_of U (set_popped_mining b sk) = sid_of U sk"
  "sid_of U (index_Set s sid r sk) = sid_of U sk" "sid_of U (index_Delete s sid sk) = sid_of U sk"
  "sk_heap (set_popped_mining b sk) = sk_heap sk" "sk_fs (set_popped_mining b sk) = sk_fs sk"
  "workSpaceList (set_popped_mining b sk) = workSpaceList sk"
  "newQueuedWorkSpaceCh (set_popped_mining b sk) = newQueuedWorkSpaceCh sk"
  by (simp_all add: fun_eq_iff index_Get_def sid_of_def set_popped_mining_def)

lemma index_ok_updates [simp]:
  "index_ok U (sk\<lparr>sk_queue := q\<rparr>) \<longleftrightarrow> index_ok U sk"
  "index_ok U (sk\<lparr>newQueuedWorkSpaceCh := ch\<rparr>) \<longleftrightarrow> index_ok U sk"
  "index_ok U (sk\<lparr>sk_fs := fs\<rparr>) \<longleftrightarrow> index_ok U sk"
  "index_ok U (set_popped_mining b sk) \<longleftrightarrow> index_ok U sk"
  unfolding index_ok_def record_updates by (simp_all add: set_popped_mining_def)

lemma sid_of_update_ws:
  "(\<And>w. ws_id (f w) = ws_id w) \<Longrightarrow> sid_of U (update_ws r f sk) = sid_of U sk"
  by (auto simp: fun_eq_iff sid_of_def the_ws_update_ws)

section \<open>Changing the state of a work space\<close>

lemma changeState_simps [simp]:
  "workSpaceList (changeState r sid s s' sk) = workSpaceList sk" "sk_queue (changeState r sid s s' sk) = sk_queue sk"
  "newQueuedWorkSpaceCh (changeState r sid s s' sk) = newQueuedWorkSpaceCh sk"
  "sk_fs (changeState r sid s s' sk) = sk_fs sk" "length (sk_heap (changeState r sid s s' sk)) = length (sk_heap sk)"
  "length (workSpaceIndex (changeState r sid s s' sk)) = length (workSpaceIndex sk)"
  "sid_of U (changeState r sid s s' sk) = sid_of U sk"
  by (simp_all add: changeState_def sid_of_update_ws)

lemma index_Get_changeState:
  assumes "5 \<le> length (workSpaceIndex sk)" "State_IsValid s" "State_IsValid s'"
  shows "index_Get (changeState r sid s s' sk) t sid' =
    (if t = s' \<and> sid' = sid then Some r else if t = s \<and> sid' = sid then None else index_Get sk t sid')"
  using assms unat_state [of s] unat_state [of s']
  by (simp add: changeState_def index_Get_Set index_Get_Delete)

lemma the_ws_changeState:
  "the_ws (changeState r sid s s' sk) r' =
     (if r' = r \<and> r < length (sk_heap sk) then the_ws sk r\<lparr>ws_state := s'\<rparr> else the_ws sk r')"
  by (simp add: changeState_def the_ws_update_ws)

lemma distinct_index_ops:
  assumes "\<forall>i<5. distinct (map fst (workSpaceIndex sk ! i))" "5 \<le> length (workSpaceIndex sk)"
  shows "\<forall>i<5. distinct (map fst (workSpaceIndex (index_Set s sid r sk) ! i))"
    "\<forall>i<5. distinct (map fst (workSpaceIndex (index_Delete s sid sk) ! i))"
  using assms
  by (cases "unat s < length (workSpaceIndex sk)";
      auto simp: index_Set_def index_Delete_def nth_list_update list_update_beyond)+

lemma changeState_ok:
  assumes ok: "index_ok U sk" and g: "index_Get sk s sid = Some r"
    and v: "State_IsValid s" "State_IsValid s'" "s \<noteq> s'"
  shows "index_ok U (changeState r sid s s' sk)"
proof -
  note D = index_okD [OF ok]
  have a: "index_Get sk allState sid = Some r" and st: "ws_state (the_ws sk r) = s" using D(5) [OF v(1) g] by auto
  have r: "r < length (sk_heap sk)" and sid: "sid_of U sk r = sid" using D(2,3) [OF a] by auto
  note G = index_Get_changeState [OF D(1) v(1,2)] and W = the_ws_changeState [of r sid s s' sk]
  have uniq: "sid' = sid" if "index_Get sk allState sid' = Some r" for sid' using D(3) [OF that] sid by simp
  have dist: "\<forall>i<5. distinct (map fst (workSpaceIndex (changeState r sid s s' sk) ! i))"
    using ok D(1) unfolding changeState_def by (simp add: index_ok_def distinct_index_ops)
  have all: "index_Get (changeState r sid s s' sk) allState = index_Get sk allState"
    using a v valid_not_all by (auto simp: G fun_eq_iff)
  have maps: "index_Get (changeState r sid s s' sk) t x = Some q \<longleftrightarrow>
      index_Get (changeState r sid s s' sk) allState x = Some q \<and> ws_state (the_ws (changeState r sid s s' sk) q) = t"
    if t: "State_IsValid t" for t x q
  proof -
    have M: "index_Get sk t x = Some q \<longleftrightarrow> index_Get sk allState x = Some q \<and> ws_state (the_ws sk q) = t"
      using ok t by (simp add: index_ok_def)
    show ?thesis
    proof (cases "x = sid")
      case True
      show ?thesis unfolding all using M a st v r unfolding True by (auto simp: G W)
    next
      case False
      then have "index_Get sk allState x \<noteq> Some r" using uniq by blast
      then show ?thesis unfolding all using M False by (auto simp: G W)
    qed
  qed
  show ?thesis
    unfolding index_ok_def changeState_simps
  proof (intro conjI allI impI ballI)
    fix x q assume "index_Get (changeState r sid s s' sk) allState x = Some q"
    then have q: "index_Get sk allState x = Some q" unfolding all .
    show "q < length (sk_heap sk)" "sid_of U sk q = x" using D(2,3) [OF q] by auto
    show "State_IsValid (ws_state (the_ws (changeState r sid s s' sk) q))" using D(4) [OF q] v by (simp add: W)
    show "ws_using (the_ws (changeState r sid s s' sk) q) \<longleftrightarrow> q \<in> set (workSpaceList sk)"
      using D(7) [OF q] by (auto simp: W)
  qed (use D(1,8,9) dist maps all in auto)
qed

section \<open>Taking a work space out of use\<close>

lemma find_sid_filter:
  assumes "distinct (map f xs)"
  shows "(case find_sid f sid xs k of None \<Rightarrow> xs
          | Some i \<Rightarrow> take (i - k) xs @ drop (i - k + 1) xs) = filter (\<lambda>w. f w \<noteq> sid) xs \<and>
    (\<forall>i. find_sid f sid xs k = Some i \<longrightarrow> k \<le> i)"
  using assms
proof (induction xs arbitrary: k)
  case (Cons x xs)
  show ?case
  proof (cases "f x = sid")
    case True
    with Cons.prems have "filter (\<lambda>w. f w \<noteq> sid) xs = xs" by (intro filter_True) (force simp: image_iff)
    with True show ?thesis by simp
  next
    case False
    with Cons.IH [of "k + 1"] Cons.prems show ?thesis
      by (cases "find_sid f sid xs (Suc k)") (auto dest!: le_Suc_ex)
  qed
qed simp

lemma deleteFromSlice_filter:
  assumes "distinct (map f xs)"
  shows "deleteFromSlice f xs sid = filter (\<lambda>w. f w \<noteq> sid) xs"
  using find_sid_filter [OF assms, where sid = sid and k = 0] by (auto simp: deleteFromSlice_def split: option.splits)

lemma disuse_simps [simp]:
  "workSpaceIndex (disuseWorkSpace U r sk) = workSpaceIndex sk" "sk_queue (disuseWorkSpace U r sk) = sk_queue sk"
  "newQueuedWorkSpaceCh (disuseWorkSpace U r sk) = newQueuedWorkSpaceCh sk" "sk_fs (disuseWorkSpace U r sk) = sk_fs sk"
  "length (sk_heap (disuseWorkSpace U r sk)) = length (sk_heap sk)"
  "index_Get (disuseWorkSpace U r sk) = index_Get sk" "sid_of U' (disuseWorkSpace U r sk) = sid_of U' sk"
  by (simp_all add: disuseWorkSpace_def Let_def sid_of_update_ws)

lemma the_ws_disuse:
  "the_ws (disuseWorkSpace U r sk) r' =
     (if r' = r \<and> r < length (sk_heap sk) then the_ws sk r\<lparr>ws_using := False\<rparr> else the_ws sk r')"
  by (simp add: disuseWorkSpace_def Let_def the_ws_update_ws)

lemma list_disuse:
  "distinct (map (sid_of U sk) (workSpaceList sk)) \<Longrightarrow>
     workSpaceList (disuseWorkSpace U r sk) = filter (\<lambda>w. sid_of U sk w \<noteq> sid_of U sk r) (workSpaceList sk)"
  by (simp add: disuseWorkSpace_def Let_def sid_of_update_ws deleteFromSlice_filter)

lemma disuse_ok:
  assumes ok: "index_ok U sk" and g: "index_Get sk allState sid = Some r"
  shows "index_ok U (disuseWorkSpace U r sk)"
proof -
  note D = index_okD [OF ok]
  have r: "r < length (sk_heap sk)" and sid: "sid_of U sk r = sid" using D(2,3) [OF g] by auto
  note L = list_disuse [OF D(9), of r, unfolded sid] and W = the_ws_disuse [of U r sk]
  have q: "q = r \<longleftrightarrow> x = sid" if "index_Get sk allState x = Some q" for x q
    using that g D(3) [OF that] sid by (metis option.inject)
  show ?thesis
    unfolding index_ok_def disuse_simps L
  proof (intro conjI allI impI ballI)
    fix x q assume a: "index_Get sk allState x = Some q"
    show "q < length (sk_heap sk)" "sid_of U sk q = x" using D(2,3) [OF a] by auto
    show "State_IsValid (ws_state (the_ws (disuseWorkSpace U r sk) q))" using D(4) [OF a] by (auto simp: W)
    show "ws_using (the_ws (disuseWorkSpace U r sk) q) \<longleftrightarrow> q \<in> set (filter (\<lambda>w. sid_of U sk w \<noteq> sid) (workSpaceList sk))"
      using D(7) [OF a] D(3) [OF a] q [OF a] r by (auto simp: W)
  next
    fix s x p assume "State_IsValid s"
    then show "index_Get sk s x = Some p \<longleftrightarrow>
      index_Get sk allState x = Some p \<and> ws_state (the_ws (disuseWorkSpace U r sk) p) = s"
      using ok by (simp add: W index_ok_def)
  next
    show "distinct (map (sid_of U sk) (filter (\<lambda>w. sid_of U sk w \<noteq> sid) (workSpaceList sk)))"
      using D(9) by (rule distinct_map_filter)
  next
    fix i :: nat assume "i < 5"
    then show "distinct (map fst (workSpaceIndex sk ! i))" using ok by (simp add: index_ok_def)
  qed (use D(1,8) in simp_all)
qed

text \<open>\<open>DeleteWS\<close> also takes it out of the index.\<close>

definition unindex :: "'pk pocutil \<Rightarrow> string \<Rightarrow> nat \<Rightarrow> ('pk, 'q, 'w) spacekeeper \<Rightarrow> ('pk, 'q, 'w) spacekeeper" where
  "unindex U sid r sk =
     disuseWorkSpace U r (index_Delete allState sid (index_Delete (ws_state (the_ws sk r)) sid sk))"

lemma index_Get_unindex:
  assumes ok: "index_ok U sk" and g: "index_Get sk allState sid = Some r" and s: "State_IsValid s \<or> s = allState"
  shows "index_Get (unindex U sid r sk) s x = (if x = sid then None else index_Get sk s x)"
proof -
  have "unat (ws_state (the_ws sk r)) < length (workSpaceIndex sk)"
    using index_okD(1,4) [OF ok] g unat_state [of "ws_state (the_ws sk r)"] by force
  moreover have "index_Get sk s sid = None" if "State_IsValid s" "s \<noteq> ws_state (the_ws sk r)"
    using that index_ok_None [OF ok g that(1)] by simp
  ultimately show ?thesis
    using s index_okD(1) [OF ok] by (auto simp: unindex_def index_Get_Delete)
qed

lemma unindex_ok:
  assumes ok: "index_ok U sk" and g: "index_Get sk allState sid = Some r"
  shows "index_ok U (unindex U sid r sk)"
proof -
  note D = index_okD [OF ok]
  let ?sk1 = "index_Delete allState sid (index_Delete (ws_state (the_ws sk r)) sid sk)"
  have sid: "sid_of U sk r = sid" using D(3) [OF g] .
  have L: "workSpaceList (unindex U sid r sk) = filter (\<lambda>w. sid_of U sk w \<noteq> sid) (workSpaceList sk)"
    using list_disuse [of U ?sk1 r] D(9) by (simp add: unindex_def sid)
  have W: "the_ws (unindex U sid r sk) q = the_ws sk q" if "q \<noteq> r" for q
    using that by (simp add: unindex_def the_ws_disuse)
  have S: "sid_of U (unindex U sid r sk) = sid_of U sk" "length (sk_heap (unindex U sid r sk)) = length (sk_heap sk)"
    "length (workSpaceIndex (unindex U sid r sk)) = length (workSpaceIndex sk)"
    by (simp_all add: unindex_def)
  have q: "q = r \<longleftrightarrow> x = sid" if "index_Get sk allState x = Some q" for x q
    using that g D(3) [OF that] sid by (metis option.inject)
  note G = index_Get_unindex [OF ok g]
  have dist: "\<forall>i<5. distinct (map fst (workSpaceIndex (unindex U sid r sk) ! i))"
    using ok D(1) unfolding unindex_def by (simp add: index_ok_def distinct_index_ops)
  show ?thesis
    unfolding index_ok_def S L
  proof (intro conjI allI impI ballI)
    fix x p assume "index_Get (unindex U sid r sk) allState x = Some p"
    then have a: "index_Get sk allState x = Some p" "x \<noteq> sid" by (auto simp: G split: if_splits)
    with q have "p \<noteq> r" by blast
    note w = W [OF this]
    show "p < length (sk_heap sk)" "sid_of U sk p = x" using D(2,3) [OF a(1)] by auto
    show "State_IsValid (ws_state (the_ws (unindex U sid r sk) p))" using D(4) [OF a(1)] w by simp
    show "ws_using (the_ws (unindex U sid r sk) p) \<longleftrightarrow> p \<in> set (filter (\<lambda>w. sid_of U sk w \<noteq> sid) (workSpaceList sk))"
      using D(7) [OF a(1)] D(3) [OF a(1)] a(2) w by auto
  next
    fix s x p assume s: "State_IsValid s"
    show "index_Get (unindex U sid r sk) s x = Some p \<longleftrightarrow>
      index_Get (unindex U sid r sk) allState x = Some p \<and> ws_state (the_ws (unindex U sid r sk) p) = s"
    proof -
      have "index_Get sk s x = Some p \<longleftrightarrow> index_Get sk allState x = Some p \<and> ws_state (the_ws sk p) = s"
        using s ok by (simp add: index_ok_def)
      with s q [of x p] W [of p] show ?thesis by (auto simp: G)
    qed
  next
    fix p assume "p \<in> set (filter (\<lambda>w. sid_of U sk w \<noteq> sid) (workSpaceList sk))"
    then show "index_Get (unindex U sid r sk) allState (sid_of U sk p) = Some p" using D(8) by (simp add: G)
  next
    show "distinct (map (sid_of U sk) (filter (\<lambda>w. sid_of U sk w \<noteq> sid) (workSpaceList sk)))"
      using D(9) by (rule distinct_map_filter)
  qed (use D(1) dist in simp_all)
qed

section \<open>The actions\<close>

text \<open>
  What an action on one work space may do: keep the index consistent, leave every other work space
  as it is, and change the state of its own along the listed transitions.
\<close>

definition state_moves :: "ActionType \<Rightarrow> WorkSpaceState \<Rightarrow> WorkSpaceState \<Rightarrow> bool" where
  "state_moves act s s' \<longleftrightarrow>
     s' = s \<or> act = Mine \<and> s = Ready \<and> s' = Mining \<or> act = Stop \<and> s = Mining \<and> s' = Ready"

definition only_touches :: "'pk pocutil \<Rightarrow> ActionType \<Rightarrow> string \<Rightarrow> ('pk, 'q, 'w) spacekeeper \<Rightarrow> ('pk, 'q, 'w) spacekeeper \<Rightarrow> bool" where
  "only_touches U act sid sk sk' \<longleftrightarrow>
     index_ok U sk' \<and> length (sk_heap sk') = length (sk_heap sk) \<and> sid_of U sk' = sid_of U sk \<and>
     (\<forall>r. sid_of U sk r \<noteq> sid \<longrightarrow> the_ws sk' r = the_ws sk r) \<and>
     (\<forall>r. state_moves act (ws_state (the_ws sk r)) (ws_state (the_ws sk' r))) \<and>
     (\<forall>sid'. sid' \<noteq> sid \<longrightarrow> index_Get sk' allState sid' = index_Get sk allState sid')"

lemma only_touches_refl: "index_ok U sk \<Longrightarrow> only_touches U act sid sk sk"
  by (simp add: only_touches_def state_moves_def)

lemma only_touches_queue:
  "only_touches U act sid (sk\<lparr>sk_queue := q\<rparr>) sk' \<longleftrightarrow> only_touches U act sid sk sk'"
  "only_touches U act sid sk (sk'\<lparr>newQueuedWorkSpaceCh := ch\<rparr>) \<longleftrightarrow> only_touches U act sid sk sk'"
  "only_touches U act sid sk (sk'\<lparr>sk_fs := fs\<rparr>) \<longleftrightarrow> only_touches U act sid sk sk'"
  "only_touches U act sid sk (set_popped_mining b sk') \<longleftrightarrow> only_touches U act sid sk sk'"
  by (simp_all add: only_touches_def)

lemma only_touches_changeState:
  assumes ok: "index_ok U sk" and g: "index_Get sk s sid = Some r"
    and v: "State_IsValid s" "State_IsValid s'" "s \<noteq> s'" and m: "state_moves act s s'"
  shows "only_touches U act sid sk (changeState r sid s s' sk)"
proof -
  have a: "index_Get sk allState sid = Some r" "ws_state (the_ws sk r) = s"
    using index_okD(5) [OF ok v(1) g] by auto
  have r: "sid_of U sk r = sid" using index_okD(3) [OF ok a(1)] .
  show ?thesis
    using changeState_ok [OF ok g v] a(2) m r
    by (auto simp: only_touches_def the_ws_changeState index_Get_changeState [OF index_okD(1) [OF ok] v(1,2)] state_moves_def)
qed

lemma only_touches_disuse:
  assumes ok: "index_ok U sk" and g: "index_Get sk allState sid = Some r"
  shows "only_touches U act sid sk (disuseWorkSpace U r sk)"
  using disuse_ok [OF ok g] index_okD(3) [OF ok g]
  by (auto simp: only_touches_def the_ws_disuse state_moves_def)

lemma only_touches_unindex:
  assumes ok: "index_ok U sk" and g: "index_Get sk allState sid = Some r"
  shows "only_touches U act sid sk (unindex U sid r sk)"
  using unindex_ok [OF ok g] index_okD(3) [OF ok g] index_Get_unindex [OF ok g]
  by (auto simp: only_touches_def the_ws_disuse state_moves_def unindex_def)

lemma only_touches_db:
  assumes ok: "index_ok U sk" and r: "sid_of U sk r = sid"
  shows "only_touches U act sid sk (update_ws r (\<lambda>_. the_ws sk r\<lparr>ws_db := mdb\<rparr>) sk)"
proof -
  have "sid_of U (update_ws r (\<lambda>_. the_ws sk r\<lparr>ws_db := mdb\<rparr>) sk) = sid_of U sk"
    by (auto simp: fun_eq_iff sid_of_def the_ws_update_ws)
  then show ?thesis
    using index_ok_update_db [OF ok, of r mdb] r by (auto simp: only_touches_def the_ws_update_ws state_moves_def)
qed

lemma PlotWS_touches:
  assumes "index_ok (env_U E) sk" "PlotWS E sk sid = Returns sk' err"
  shows "only_touches (env_U E) act sid sk sk'"
  using assms only_touches_refl [OF assms(1)]
  by (auto simp: PlotWS_def send_queued_def only_touches_queue split: option.splits if_splits)

lemma MineWS_touches:
  assumes "index_ok (env_U E) sk" "MineWS E sk sid = Returns sk' err"
  shows "only_touches (env_U E) Mine sid sk sk'"
  using assms only_touches_refl [OF assms(1)] only_touches_changeState [OF assms(1), where s = Ready and s' = Mining]
  by (auto simp: MineWS_def send_queued_def only_touches_queue state_moves_def changeState_def [symmetric]
      split: option.splits if_splits)

lemma StopWS_touches:
  assumes ok: "index_ok (env_U E) sk" and r: "StopWS E sk sid = Returns sk' err"
  shows "only_touches (env_U E) Stop sid sk sk'"
proof -
  have sid: "sid_of (env_U E) sk ws = sid" if "index_Get sk Plotting sid = Some ws" for ws
    using index_okD(5) [OF ok _ that] index_okD(3) [OF ok] by simp
  have db: "only_touches (env_U E) Stop sid sk (update_ws ws (\<lambda>_. the_ws sk ws\<lparr>ws_db := mdb\<rparr>) ((set_popped_mining False (sk\<lparr>sk_queue := q\<rparr>))\<lparr>sk_fs := fs\<rparr>))"
    if g: "index_Get sk Plotting sid = Some ws" for ws mdb q fs
  proof -
    let ?sk = "(set_popped_mining False (sk\<lparr>sk_queue := q\<rparr>))\<lparr>sk_fs := fs\<rparr>"
    have "only_touches (env_U E) Stop sid ?sk (update_ws ws (\<lambda>_. the_ws ?sk ws\<lparr>ws_db := mdb\<rparr>) ?sk)"
      using ok sid [OF g] by (intro only_touches_db) simp_all
    then show ?thesis by (simp add: only_touches_def)
  qed
  have mv: "only_touches (env_U E) Stop sid sk (changeState ws sid Mining Ready (sk\<lparr>sk_queue := q\<rparr>))"
    if "index_Get sk Mining sid = Some ws" for ws q
    using only_touches_changeState [of "env_U E" "sk\<lparr>sk_queue := q\<rparr>" Mining sid ws Ready Stop] ok that
    by (simp add: only_touches_queue state_moves_def)
  have q: "only_touches (env_U E) Stop sid sk (sk\<lparr>sk_queue := q\<rparr>)" for q
    using only_touches_refl [of "env_U E" "sk\<lparr>sk_queue := q\<rparr>" Stop sid] ok by (simp add: only_touches_queue)
  from r show ?thesis
    using only_touches_refl [OF ok] db mv q
    by (auto simp: StopWS_def ws_StopPlot_def changeState_def [symmetric] Let_def split: option.splits if_splits)
qed

lemma RemoveWS_touches:
  assumes ok: "index_ok (env_U E) sk" and r: "RemoveWS E sk sid = Returns sk' err"
  shows "only_touches (env_U E) act sid sk sk'"
proof -
  have d: "only_touches (env_U E) act sid sk (disuseWorkSpace (env_U E) ws (sk\<lparr>sk_queue := q\<rparr>))"
    if "State_IsValid s" "index_Get sk s sid = Some ws" for s ws q
    using only_touches_disuse [of "env_U E" "sk\<lparr>sk_queue := q\<rparr>" sid ws act] ok index_okD(5) [OF ok that]
    by (simp add: only_touches_queue)
  have q: "only_touches (env_U E) act sid sk (sk\<lparr>sk_queue := q\<rparr>)" for q
    using only_touches_refl [of "env_U E" "sk\<lparr>sk_queue := q\<rparr>" act sid] ok by (simp add: only_touches_queue)
  from r show ?thesis
    using only_touches_refl [OF ok] d [of Registered] d [of Ready] q
    by (auto simp: RemoveWS_def Let_def split: option.splits if_splits)
qed

lemma delete_ws_unindex:
  "delete_ws E sid ws sk =
     (case ws_Delete (env_F E) (sk_fs sk) (the_ws (unindex (env_U E) sid ws sk) ws) of
        (fs', err) \<Rightarrow> Returns ((unindex (env_U E) sid ws sk)\<lparr>sk_fs := fs'\<rparr>) err)"
  by (simp add: delete_ws_def unindex_def Let_def split: prod.splits)

lemma DeleteWS_touches:
  assumes ok: "index_ok (env_U E) sk" and r: "DeleteWS E sk sid = Returns sk' err"
  shows "only_touches (env_U E) act sid sk sk'"
proof -
  have d: "only_touches (env_U E) act sid sk (unindex (env_U E) sid ws (sk\<lparr>sk_queue := q\<rparr>))"
    if "State_IsValid s" "index_Get sk s sid = Some ws" for s ws q
    using only_touches_unindex [of "env_U E" "sk\<lparr>sk_queue := q\<rparr>" sid ws act] ok index_okD(5) [OF ok that]
    by (simp add: only_touches_queue)
  have q: "only_touches (env_U E) act sid sk (sk\<lparr>sk_queue := q\<rparr>)" for q
    using only_touches_refl [of "env_U E" "sk\<lparr>sk_queue := q\<rparr>" act sid] ok by (simp add: only_touches_queue)
  from r show ?thesis
    using only_touches_refl [OF ok] d [of Registered] d [of Ready] q
    by (auto simp: DeleteWS_def delete_ws_unindex only_touches_queue Let_def split: option.splits if_splits prod.splits)
qed

section \<open>An action on many work spaces\<close>

text \<open>
  The contract of an action and what it gives for its application to a list of identifiers: the
  index stays consistent, work spaces not listed are not touched, and every identifier gets an answer.
\<close>

locale keeper_action =
  fixes U :: "'pk pocutil" and code :: ActionType
    and act :: "('pk, 'q, 'w) spacekeeper \<Rightarrow> string \<Rightarrow> (('pk, 'q, 'w) spacekeeper, sk_error option) call"
  assumes touches: "index_ok U sk \<Longrightarrow> act sk sid = Returns sk' err \<Longrightarrow> only_touches U code sid sk sk'"
begin

lemma each_ok:
  "index_ok U sk \<Longrightarrow> act_each act sids errs sk = Returns sk' errs' \<Longrightarrow>
     index_ok U sk' \<and> sid_of U sk' = sid_of U sk \<and> length (sk_heap sk') = length (sk_heap sk)"
proof (induction sids arbitrary: sk errs)
  case (Cons sid sids)
  from Cons.prems(2) obtain sk1 err where a: "act sk sid = Returns sk1 err"
    and e: "act_each act sids (AList.update sid err errs) sk1 = Returns sk' errs'"
    by (auto split: call.splits)
  from touches [OF Cons.prems(1) a] have "index_ok U sk1" "sid_of U sk1 = sid_of U sk" "length (sk_heap sk1) = length (sk_heap sk)"
    by (auto simp: only_touches_def)
  with Cons.IH [OF _ e] show ?case by simp
qed simp

lemma each_frame:
  "index_ok U sk \<Longrightarrow> act_each act sids errs sk = Returns sk' errs' \<Longrightarrow> sid_of U sk r \<notin> set sids \<Longrightarrow>
     the_ws sk' r = the_ws sk r"
proof (induction sids arbitrary: sk errs)
  case (Cons sid sids)
  from Cons.prems(2) obtain sk1 err where a: "act sk sid = Returns sk1 err"
    and e: "act_each act sids (AList.update sid err errs) sk1 = Returns sk' errs'"
    by (auto split: call.splits)
  from touches [OF Cons.prems(1) a] Cons.prems(3) have "index_ok U sk1" "sid_of U sk1 = sid_of U sk" "the_ws sk1 r = the_ws sk r"
    by (auto simp: only_touches_def)
  with Cons.IH [OF _ e] Cons.prems(3) show ?case by simp
qed simp

lemma each_answers:
  "act_each act sids errs sk = Returns sk' errs' \<Longrightarrow> set (map fst errs') = set sids \<union> set (map fst errs)"
proof (induction sids arbitrary: sk errs)
  case (Cons sid sids)
  then obtain sk1 err where "act_each act sids (AList.update sid err errs) sk1 = Returns sk' errs'"
    by (auto split: call.splits)
  from Cons.IH [OF this] show ?case by (auto simp: dom_update)
qed simp

end

interpretation plot: keeper_action "env_U E" Plot "PlotWS E" for E
  by unfold_locales (rule PlotWS_touches)

interpretation mine: keeper_action "env_U E" Mine "MineWS E" for E
  by unfold_locales (rule MineWS_touches)

interpretation stop: keeper_action "env_U E" Stop "StopWS E" for E
  by unfold_locales (rule StopWS_touches)

interpretation remove: keeper_action "env_U E" Remove "RemoveWS E" for E
  by unfold_locales (rule RemoveWS_touches)

interpretation delete: keeper_action "env_U E" Delete "DeleteWS E" for E
  by unfold_locales (rule DeleteWS_touches)

end
