(* ===== verification/Space_Index.thy ===== *)
theory Space_Index
  imports Keeper_Inv
begin

text \<open>
  How the space keeper finds its databases on disk: \<open>strategy.go\<close> of
  \<open>poc/engine/spacekeeper/capacity\<close>. File names are ASCII strings. What the operating system says about
  directories is a parameter (\<open>dir_env\<close>); the contents of files are the file system of the databases.
\<close>

section \<open>Paths and directories\<close>

datatype stat_result = IsDirectory | IsFile | NotExist | StatError

record dir_env =
  os_Getwd :: "string + string"
  os_Stat :: "string \<Rightarrow> stat_result"
  os_MkdirAll :: "string \<Rightarrow> string option"
  ioutil_ReadDir :: "fs \<Rightarrow> string \<Rightarrow> string + string list"
  rename_fails :: "string \<Rightarrow> bool"

text \<open>\<open>filepath.Clean\<close> drops empty and dot elements and resolves double dots lexically.\<close>

fun clean_elements :: "bool \<Rightarrow> string list \<Rightarrow> string list \<Rightarrow> string list" where
  "clean_elements rooted out [] = rev out"
| "clean_elements rooted out (e # es) =
     (if e = [] \<or> e = ''.'' then clean_elements rooted out es
      else if e = ''..'' then
        (if out \<noteq> [] \<and> hd out \<noteq> ''..'' then clean_elements rooted (tl out) es
         else if rooted then clean_elements rooted out es
         else clean_elements rooted (e # out) es)
      else clean_elements rooted (e # out) es)"

definition filepath_Clean :: "string \<Rightarrow> string" where
  "filepath_Clean p =
     (let rooted = (p \<noteq> [] \<and> hd p = CHR ''/'');
          body = strings_Join (clean_elements rooted [] (strings_Split p CHR ''/'')) ''/''
      in if rooted then CHR ''/'' # body else if body = [] then ''.'' else body)"

definition filepath_Abs :: "dir_env \<Rightarrow> string \<Rightarrow> string + string" where
  "filepath_Abs D p =
     (if p \<noteq> [] \<and> hd p = CHR ''/'' then Inr (filepath_Clean p)
      else case os_Getwd D of Inl e \<Rightarrow> Inl e
      | Inr wd \<Rightarrow> Inr (filepath_Clean (wd @ ''/'' @ p)))"

fun prepareDirs :: "dir_env \<Rightarrow> fs \<Rightarrow> string list \<Rightarrow> (string \<times> string list) list" where
  "prepareDirs D fs [] = []"
| "prepareDirs D fs (dir # dirs) =
     (case filepath_Abs D dir of Inl _ \<Rightarrow> prepareDirs D fs dirs
      | Inr absDir \<Rightarrow>
        (let usable = (case os_Stat D absDir of
                         IsDirectory \<Rightarrow> True
                       | IsFile \<Rightarrow> False
                       | StatError \<Rightarrow> False
                       | NotExist \<Rightarrow> os_MkdirAll D absDir = None) in
         if \<not> usable then prepareDirs D fs dirs
         else case ioutil_ReadDir D fs absDir of
           Inl _ \<Rightarrow> prepareDirs D fs dirs
         | Inr fis \<Rightarrow> (absDir, fis) # prepareDirs D fs dirs))"

section \<open>File names\<close>

text \<open>The fragment of regular expressions the patterns use, anchored at both ends.\<close>

datatype re_item = Lit string | Rep nat "char \<Rightarrow> bool" | Plus "char \<Rightarrow> bool"

fun re_match :: "re_item list \<Rightarrow> string \<Rightarrow> bool" where
  "re_match [] s \<longleftrightarrow> s = []"
| "re_match (Lit l # rs) s \<longleftrightarrow> take (length l) s = l \<and> re_match rs (drop (length l) s)"
| "re_match (Rep n P # rs) s \<longleftrightarrow> n \<le> length s \<and> list_all P (take n s) \<and> re_match rs (drop n s)"
| "re_match (Plus P # rs) s \<longleftrightarrow>
     list_ex (\<lambda>k. re_match rs (drop k s)) [1..<Suc (length (takeWhile P s))]"

definition is_HEX :: "char \<Rightarrow> bool" where
  "is_HEX c \<longleftrightarrow> is_digit c \<or> 65 \<le> (of_char c :: nat) \<and> (of_char c :: nat) \<le> 70"

definition regMassDBV1 :: "re_item list" where
  "regMassDBV1 = [Plus is_digit, Lit ''_'', Rep 66 is_HEX, Lit ''_'', Rep 2 is_digit, Lit ''.MASSDB'']"

definition suffixMassDBV1 :: string where "suffixMassDBV1 = ''.MASSDB''"
definition TypeSpaceKeeperV1 :: string where "TypeSpaceKeeperV1 = ''spacekeeper.v1''"

definition oldRegStrB :: "re_item list" where
  "oldRegStrB = [Rep 66 is_HEX, Lit ''-'', Rep 2 is_digit, Lit ''-B.MASSDB'']"

definition oldRegStrA :: "re_item list" where
  "oldRegStrA = [Rep 66 is_HEX, Lit ''-'', Rep 2 is_digit, Lit ''-A.MASSDB'']"

definition parseMassDBArgsFromString ::
  "('pk, 'q, 'w, 'sig) sk_env \<Rightarrow> string \<Rightarrow> string \<Rightarrow> string \<Rightarrow> sk_error + int \<times> 'pk \<times> nat" where
  "parseMassDBArgsFromString E ordinalStr pkStr blStr =
     (case Atoi ordinalStr of None \<Rightarrow> Inl (OtherError ''strconv'')
      | Some ordinal \<Rightarrow>
        (case hex_DecodeString pkStr of Inl _ \<Rightarrow> Inl (OtherError ''hex'')
         | Inr pubKeyBytes \<Rightarrow>
           (case ParsePubKey (env_U E) pubKeyBytes of Inl e \<Rightarrow> Inl (DBError e)
            | Inr pubKey \<Rightarrow>
              (case Atoi blStr of None \<Rightarrow> Inl (OtherError ''strconv'')
               | Some bitLength \<Rightarrow>
                 if \<not> EnsureBitLength E bitLength then Inl (OtherError ''invalid bit length'')
                 else Inr (ordinal, pubKey, nat bitLength)))))"

definition name_matches :: "string \<Rightarrow> bool" where
  "name_matches fileName \<longleftrightarrow>
     strings_HasSuffix (strings_ToUpper fileName) suffixMassDBV1 \<and> re_match regMassDBV1 (strings_ToUpper fileName)"

definition name_args ::
  "('pk, 'q, 'w, 'sig) sk_env \<Rightarrow> string \<Rightarrow> sk_error + int \<times> 'pk \<times> nat" where
  "name_args E fileName =
     (let args = strings_Split (take (length fileName - length suffixMassDBV1) fileName) CHR ''_''
      in parseMassDBArgsFromString E (args ! 0) (args ! 1) (args ! 2))"

section \<open>Building the index\<close>

definition alloc_ws :: "'pk workspace \<Rightarrow> ('pk, 'q, 'w) spacekeeper \<Rightarrow> ('pk, 'q, 'w) spacekeeper \<times> nat" where
  "alloc_ws ws sk = (sk\<lparr>sk_heap := sk_heap sk @ [ws]\<rparr>, length (sk_heap sk))"

definition sk_NewWorkSpace ::
  "('pk, 'q, 'w, 'sig) sk_env \<Rightarrow> string \<Rightarrow> int \<Rightarrow> 'pk \<Rightarrow> nat \<Rightarrow> ('pk, 'q, 'w) spacekeeper
     \<Rightarrow> ('pk, 'q, 'w) spacekeeper \<times> (sk_error + nat)" where
  "sk_NewWorkSpace E rootDir ordinal pubKey bitLength sk =
     (case NewWorkSpace (env_U E) (env_F E) (sk_fs sk) (sk_dbType sk) rootDir ordinal pubKey bitLength of
        (fs', Inl err) \<Rightarrow> (sk\<lparr>sk_fs := fs'\<rparr>, Inl err)
      | (fs', Inr ws) \<Rightarrow> (case alloc_ws ws (sk\<lparr>sk_fs := fs'\<rparr>) of (sk', r) \<Rightarrow> (sk', Inr r)))"

definition index_file ::
  "('pk, 'q, 'w, 'sig) sk_env \<Rightarrow> string \<Rightarrow> string \<Rightarrow> ('pk, 'q, 'w) spacekeeper \<Rightarrow> ('pk, 'q, 'w) spacekeeper" where
  "index_file E dbDir fileName sk =
     (if \<not> name_matches fileName then sk
      else case name_args E fileName of Inl _ \<Rightarrow> sk
      | Inr (dbIndex, pubKey, bitLength) \<Rightarrow>
        (case GetPublicKeyOrdinal E (sk_wallet sk) pubKey of None \<Rightarrow> sk
         | Some ordinal \<Rightarrow>
           if dbIndex \<noteq> int (unat ordinal) then sk
           else
             let sid = SpaceID_String (env_U E) (NewSpaceID (env_U E) (int (unat ordinal)) pubKey bitLength) in
             if index_Get sk allState sid \<noteq> None then sk
             else case sk_NewWorkSpace E dbDir (int (unat ordinal)) pubKey bitLength sk of
               (sk', Inl _) \<Rightarrow> sk'
             | (sk', Inr ws) \<Rightarrow> addWorkSpaceToIndex (env_U E) ws sk'))"

definition generateInitialIndex ::
  "('pk, 'q, 'w, 'sig) sk_env \<Rightarrow> dir_env \<Rightarrow> ('pk, 'q, 'w) spacekeeper
     \<Rightarrow> ('pk, 'q, 'w) spacekeeper \<times> sk_error option" where
  "generateInitialIndex E D sk =
     (let sk1 = sk\<lparr>workSpaceIndex := workSpaceIndex sk @ replicate 5 NewWorkSpaceMap\<rparr>;
          dirs = prepareDirs D (sk_fs sk1) (dbDirs sk1);
          sk2 = sk1\<lparr>dbDirs := map fst dirs\<rparr> in
      if length (dbDirs sk2) = 0
      then (sk2, Some (OtherError (TypeSpaceKeeperV1 @ '' generateInitialIndex require at least one db_dir'')))
      else (fold (\<lambda>(dbDir, fis) sk. fold (index_file E dbDir) fis sk) dirs sk2, None))"

text \<open>
  Renaming files of the old naming scheme. \<open>os.Rename\<close> replaces an existing file.
\<close>

definition os_Rename :: "dir_env \<Rightarrow> fpath \<Rightarrow> fpath \<Rightarrow> fs \<Rightarrow> fs" where
  "os_Rename D old new fs =
     (if rename_fails D old then fs
      else case fs old of None \<Rightarrow> fs
      | Some d \<Rightarrow> if old = new then fs else fs(new := Some d, old := None))"

definition rename_massdb ::
  "('pk, 'q, 'w, 'sig) sk_env \<Rightarrow> dir_env \<Rightarrow> string \<Rightarrow> string \<Rightarrow> string \<Rightarrow> ('pk, 'q, 'w) spacekeeper
     \<Rightarrow> ('pk, 'q, 'w) spacekeeper" where
  "rename_massdb E D dir filename tagA sk =
     (let args = strings_Split (take (length filename - length suffixMassDBV1) filename) CHR ''-'' in
      case parseMassDBArgsFromString E ''0'' (args ! 0) (args ! 1) of Inl _ \<Rightarrow> sk
      | Inr (_, pubKey, bitLength) \<Rightarrow>
        (case GetPublicKeyOrdinal E (sk_wallet sk) pubKey of None \<Rightarrow> sk
         | Some ordinal \<Rightarrow>
           (let newFilename = Itoa (int (unat ordinal)) @ ''_'' @ (args ! 0) @ ''_'' @ Itoa (int bitLength) @ tagA @ ''.massdb''
            in sk\<lparr>sk_fs := os_Rename D (filepath_Join dir filename) (filepath_Join dir newFilename) (sk_fs sk)\<rparr>)))"

definition upgrade_file ::
  "('pk, 'q, 'w, 'sig) sk_env \<Rightarrow> dir_env \<Rightarrow> string \<Rightarrow> string \<Rightarrow> ('pk, 'q, 'w) spacekeeper \<Rightarrow> ('pk, 'q, 'w) spacekeeper" where
  "upgrade_file E D dbDir filename sk =
     (if \<not> strings_HasSuffix (strings_ToUpper filename) ''.MASSDB'' then sk
      else
        let sk1 = (if re_match oldRegStrB (strings_ToUpper filename) then rename_massdb E D dbDir filename '''' sk else sk)
        in if re_match oldRegStrA (strings_ToUpper filename) then rename_massdb E D dbDir filename ''_a'' sk1 else sk1)"

definition upgradeMassDBFile ::
  "('pk, 'q, 'w, 'sig) sk_env \<Rightarrow> dir_env \<Rightarrow> ('pk, 'q, 'w) spacekeeper \<Rightarrow> ('pk, 'q, 'w) spacekeeper" where
  "upgradeMassDBFile E D sk =
     (let dirs = prepareDirs D (sk_fs sk) (dbDirs sk)
      in fold (\<lambda>(dbDir, fis) sk. fold (upgrade_file E D dbDir) fis sk) dirs (sk\<lparr>dbDirs := map fst dirs\<rparr>))"

text \<open>
  Infos of the databases of a directory that is not indexed. The databases are opened, which creates
  missing files, and closed again; none is plotting. The database type is the only one there is.
\<close>

fun peek_files ::
  "('pk, 'q, 'w, 'sig) sk_env \<Rightarrow> string \<Rightarrow> string list \<Rightarrow> fs \<Rightarrow> fs \<times> 'pk workspace_info list" where
  "peek_files E dbDir [] fs = (fs, [])"
| "peek_files E dbDir (fileName # names) fs =
     (if \<not> name_matches fileName then peek_files E dbDir names fs
      else case name_args E fileName of Inl _ \<Rightarrow> peek_files E dbDir names fs
      | Inr (dbIndex, pubKey, bitLength) \<Rightarrow>
        (case NewWorkSpace (env_U E) (env_F E) fs TypeMassDBV1 dbDir dbIndex pubKey bitLength of
           (fs1, Inl _) \<Rightarrow> peek_files E dbDir names fs1
         | (fs1, Inr ws) \<Rightarrow>
             (let (fs2, infos) = peek_files E dbDir names fs1 in (fs2, ws_Info (env_U E) ws # infos))))"

definition peekMassDBInfosByDir ::
  "('pk, 'q, 'w, 'sig) sk_env \<Rightarrow> dir_env \<Rightarrow> string \<Rightarrow> fs \<Rightarrow> fs \<times> (sk_error + 'pk workspace_info list)" where
  "peekMassDBInfosByDir E D dbDir fs =
     (case ioutil_ReadDir D fs dbDir of Inl e \<Rightarrow> (fs, Inl (OtherError e))
      | Inr dirFileInfos \<Rightarrow> (case peek_files E dbDir dirFileInfos fs of (fs', infos) \<Rightarrow> (fs', Inr infos)))"

section \<open>Names are parsed back\<close>

definition massdb_name :: "'pk pocutil \<Rightarrow> int \<Rightarrow> 'pk \<Rightarrow> nat \<Rightarrow> string" where
  "massdb_name U ordinal pk bl = strings_Join (nameB U ordinal pk bl) ''_'' @ ''.massdb''"

lemma getPath_massdb_name: "snd (getPath U dir ordinal pk bl) = filepath_Join dir (massdb_name U ordinal pk bl)"
  by (simp add: getPath_names massdb_name_def)

lemma upper_hextable: "c \<in> set hextable \<Longrightarrow> is_HEX (char_upper c)"
proof -
  have "list_all (\<lambda>c. is_HEX (char_upper c)) hextable"
    by (simp add: hextable_def is_HEX_def char_upper_def is_digit_def)
  then show "c \<in> set hextable \<Longrightarrow> ?thesis" by (simp add: list_all_iff)
qed

lemma upper_hex: "list_all is_HEX (strings_ToUpper (hex_EncodeToString bs))"
  using set_hex_EncodeToString [of bs] upper_hextable by (auto simp: list_all_iff strings_ToUpper_def)

lemma Itoa_nat: "0 \<le> i \<Longrightarrow> Itoa i = nat_to_dec (nat i)"
  by (simp add: Itoa_def)

lemma length_two_digits: "10 \<le> n \<Longrightarrow> n \<le> 99 \<Longrightarrow> length (nat_to_dec n) = 2"
  by (subst nat_to_dec.simps) (simp add: nat_to_dec.simps [of "n div 10"])

lemma upper_name:
  assumes "0 \<le> ordinal"
  shows "strings_ToUpper (massdb_name U ordinal pk bl) =
    nat_to_dec (nat ordinal) @ ''_'' @ strings_ToUpper (hex_EncodeToString (SerializeCompressed U pk)) @ ''_'' @
    nat_to_dec bl @ ''.MASSDB''"
proof -
  have s: "strings_ToUpper ''.massdb'' = ''.MASSDB''" by code_simp
  have u: "strings_ToUpper (CHR ''_'' # w) = CHR ''_'' # strings_ToUpper w" for w
    by (simp add: strings_ToUpper_def char_upper_def)
  show ?thesis
    using assms by (simp add: massdb_name_def nameB_def Itoa_nat strings_ToUpper_digits s u)
qed

lemma massdb_name_matches:
  assumes "0 \<le> ordinal" "pubkey_ok U" "10 \<le> bl" "bl \<le> 99"
  shows "name_matches (massdb_name U ordinal pk bl)"
proof -
  let ?o = "nat_to_dec (nat ordinal)" and ?h = "strings_ToUpper (hex_EncodeToString (SerializeCompressed U pk))"
  let ?rest = "''_'' @ ?h @ ''_'' @ nat_to_dec bl @ ''.MASSDB''"
  have len: "length ?h = 66" "length (nat_to_dec bl) = 2"
    using assms by (simp_all add: pubkey_ok_def length_two_digits)
  have rest: "re_match [Lit ''_'', Rep 66 is_HEX, Lit ''_'', Rep 2 is_digit, Lit ''.MASSDB''] ?rest"
    using len upper_hex [of "SerializeCompressed U pk"] nat_to_dec_digits [of bl] by simp
  have tw: "takeWhile is_digit (?o @ ?rest) = ?o"
    using nat_to_dec_digits [of "nat ordinal"] by (subst takeWhile_append2) (auto simp: list_all_iff)
  have "re_match regMassDBV1 (?o @ ?rest)"
    unfolding regMassDBV1_def re_match.simps(4) tw list_ex_iff
    using rest by (intro bexI [of _ "length ?o"]) (simp_all add: Suc_le_eq)
  moreover have "strings_HasSuffix (?o @ ?rest) suffixMassDBV1"
    using strings_HasSuffix_append [of "?o @ ''_'' @ ?h @ ''_'' @ nat_to_dec bl" suffixMassDBV1]
    by (simp add: suffixMassDBV1_def)
  ultimately show ?thesis
    unfolding name_matches_def upper_name [OF assms(1)] by simp
qed

lemma massdb_name_args:
  assumes "0 \<le> ordinal" "ordinal < 2 ^ 63" "pubkey_ok (env_U E)" "bl < 2 ^ 63" "EnsureBitLength E (int bl)"
  shows "name_args E (massdb_name (env_U E) ordinal pk bl) = Inr (ordinal, pk, bl)"
proof -
  have "take (length (massdb_name (env_U E) ordinal pk bl) - length suffixMassDBV1) (massdb_name (env_U E) ordinal pk bl) =
      strings_Join (nameB (env_U E) ordinal pk bl) ''_''"
    by (simp add: massdb_name_def suffixMassDBV1_def)
  then have "name_args E (massdb_name (env_U E) ordinal pk bl) =
      parseMassDBArgsFromString E (nameB (env_U E) ordinal pk bl ! 0) (nameB (env_U E) ordinal pk bl ! 1)
        (nameB (env_U E) ordinal pk bl ! 2)"
    by (simp add: name_args_def split_nameB Let_def)
  also have "\<dots> = Inr (ordinal, pk, bl)"
    using assms by (simp add: nameB_def parseMassDBArgsFromString_def Atoi_Itoa pubkey_ok_def)
  finally show ?thesis .
qed

section \<open>The index stays consistent\<close>

lemma the_ws_alloc [simp]:
  "r < length (sk_heap sk) \<Longrightarrow> the_ws (fst (alloc_ws ws sk)) r = the_ws sk r"
  "the_ws (fst (alloc_ws ws sk)) (length (sk_heap sk)) = ws"
  "length (sk_heap (fst (alloc_ws ws sk))) = Suc (length (sk_heap sk))"
  "index_Get (fst (alloc_ws ws sk)) = index_Get sk" "workSpaceList (fst (alloc_ws ws sk)) = workSpaceList sk"
  "workSpaceIndex (fst (alloc_ws ws sk)) = workSpaceIndex sk" "snd (alloc_ws ws sk) = length (sk_heap sk)"
  by (simp_all add: alloc_ws_def nth_append fun_eq_iff index_Get_def)

lemma alloc_ok:
  assumes ok: "index_ok U sk"
  shows "index_ok U (fst (alloc_ws ws sk))"
proof -
  let ?sk' = "fst (alloc_ws ws sk)"
  note D = index_okD [OF ok]
  have A: "sid_of U ?sk' r = sid_of U sk r" "the_ws ?sk' r = the_ws sk r" "r < length (sk_heap sk)"
    if "index_Get sk allState sid = Some r" for sid r
    using D(2) [OF that] by (simp_all add: sid_of_def)
  have L: "sid_of U ?sk' r = sid_of U sk r" if "r \<in> set (workSpaceList sk)" for r
    using A(1) [OF D(8) [OF that]] .
  then have M: "map (sid_of U ?sk') (workSpaceList sk) = map (sid_of U sk) (workSpaceList sk)" by simp
  show ?thesis
    unfolding index_ok_def the_ws_alloc M
  proof (intro conjI allI impI ballI)
    fix sid r assume a: "index_Get sk allState sid = Some r"
    show "r < Suc (length (sk_heap sk))" "sid_of U ?sk' r = sid" "State_IsValid (ws_state (the_ws ?sk' r))"
      "ws_using (the_ws ?sk' r) \<longleftrightarrow> r \<in> set (workSpaceList sk)"
      using D(3,4,7) [OF a] A [OF a] by simp_all
  next
    fix s sid r assume s: "State_IsValid s"
    then show "index_Get sk s sid = Some r \<longleftrightarrow> index_Get sk allState sid = Some r \<and> ws_state (the_ws ?sk' r) = s"
      using ok A(2) [of sid r] by (auto simp: index_ok_def)
  next
    fix i :: nat assume "i < 5"
    then show "distinct (map fst (workSpaceIndex sk ! i))" using ok by (simp add: index_ok_def)
  qed (use D(1,8,9) L in simp_all)
qed

lemma field_updates [simp]:
  "index_Get (sk\<lparr>workSpacePaths := p\<rparr>) = index_Get sk" "sid_of U (sk\<lparr>workSpacePaths := p\<rparr>) = sid_of U sk"
  "index_Get (sk\<lparr>dbDirs := d\<rparr>) = index_Get sk" "sid_of U (sk\<lparr>dbDirs := d\<rparr>) = sid_of U sk"
  "index_Get (sk\<lparr>configuring := b\<rparr>) = index_Get sk" "sid_of U (sk\<lparr>configuring := b\<rparr>) = sid_of U sk"
  "index_Get (sk\<lparr>configured := b\<rparr>) = index_Get sk" "sid_of U (sk\<lparr>configured := b\<rparr>) = sid_of U sk"
  "index_Get (sk\<lparr>sk_wallet := w\<rparr>) = index_Get sk" "sid_of U (sk\<lparr>sk_wallet := w\<rparr>) = sid_of U sk"
  by (simp_all add: fun_eq_iff index_Get_def sid_of_def)

lemma index_ok_fields [simp]:
  "index_ok U (sk\<lparr>workSpacePaths := p\<rparr>) \<longleftrightarrow> index_ok U sk"
  "index_ok U (sk\<lparr>dbDirs := d\<rparr>) \<longleftrightarrow> index_ok U sk"
  "index_ok U (sk\<lparr>configuring := b\<rparr>) \<longleftrightarrow> index_ok U sk"
  "index_ok U (sk\<lparr>configured := b\<rparr>) \<longleftrightarrow> index_ok U sk"
  "index_ok U (sk\<lparr>sk_wallet := w\<rparr>) \<longleftrightarrow> index_ok U sk"
  unfolding index_ok_def field_updates by simp_all

text \<open>The part of \<open>addWorkSpaceToIndex\<close> that concerns the index.\<close>

lemma add_index_ok:
  assumes ok: "index_ok U sk" and r: "r < length (sk_heap sk)" and st: "State_IsValid (ws_state (the_ws sk r))"
    and new: "index_Get sk allState (sid_of U sk r) = None" and u: "\<not> ws_using (the_ws sk r)"
  shows "index_ok U (index_Set (ws_state (the_ws sk r)) (sid_of U sk r) r (index_Set allState (sid_of U sk r) r sk))"
    (is "index_ok U ?sk'")
proof -
  let ?sid = "sid_of U sk r" and ?s = "ws_state (the_ws sk r)"
  note D = index_okD [OF ok]
  have G: "index_Get ?sk' t x = (if (t = ?s \<or> t = allState) \<and> x = ?sid then Some r else index_Get sk t x)" for t x
    using D(1) unat_state [of ?s] st by (auto simp: index_Get_Set)
  have none: "index_Get sk t ?sid = None" if "State_IsValid t" for t
    using D(5) [OF that, of ?sid] new by (cases "index_Get sk t ?sid") auto
  have r': "index_Get sk allState x \<noteq> Some r" for x using new D(3) [of x r] by auto
  have nl: "r \<notin> set (workSpaceList sk)" using D(8) [of r] r' by blast
  have dist: "\<forall>i<5. distinct (map fst (workSpaceIndex ?sk' ! i))"
    using ok D(1) by (simp add: index_ok_def distinct_index_ops)
  have maps: "index_Get ?sk' t x = Some q \<longleftrightarrow> index_Get ?sk' allState x = Some q \<and> ws_state (the_ws ?sk' q) = t"
    if t: "State_IsValid t" for t x q
  proof -
    have M: "index_Get sk t x = Some q \<longleftrightarrow> index_Get sk allState x = Some q \<and> ws_state (the_ws sk q) = t"
      using ok t by (simp add: index_ok_def)
    show ?thesis using none [OF t] M t by (cases "x = ?sid") (auto simp: G dest: valid_not_all)
  qed
  have all: "index_Get ?sk' allState x = (if x = ?sid then Some r else index_Get sk allState x)" for x by (simp add: G)
  have S: "sid_of U ?sk' = sid_of U sk" "workSpaceList ?sk' = workSpaceList sk" "sk_heap ?sk' = sk_heap sk"
    "length (workSpaceIndex ?sk') = length (workSpaceIndex sk)" by simp_all
  show ?thesis
    unfolding index_ok_def S
  proof (intro conjI allI impI ballI)
    fix x q assume a: "index_Get ?sk' allState x = Some q"
    show "q < length (sk_heap sk)" "sid_of U sk q = x" "State_IsValid (ws_state (the_ws sk q))"
      "ws_using (the_ws sk q) \<longleftrightarrow> q \<in> set (workSpaceList sk)"
      using a r st u nl D(2,3,4,7) [of x q] unfolding all by (auto split: if_splits)
  next
    fix q assume q: "q \<in> set (workSpaceList sk)"
    with D(8) [OF q] new show "index_Get ?sk' allState (sid_of U sk q) = Some q" unfolding all by auto
  qed (use D(1,9) dist maps in simp_all)
qed

lemma addWorkSpaceToIndex_ok:
  assumes "index_ok U sk" "r < length (sk_heap sk)" "State_IsValid (ws_state (the_ws sk r))" "\<not> ws_using (the_ws sk r)"
  shows "index_ok U (addWorkSpaceToIndex U r sk)"
proof (cases "index_Get sk allState (sid_of U sk r)")
  case None
  let ?p = "AList.update (ws_rootDir (the_ws sk r))
    (WorkSpacePath_Add U (sk_heap sk) (case map_of (workSpacePaths sk) (ws_rootDir (the_ws sk r)) of Some p \<Rightarrow> p
       | None \<Rightarrow> NewWorkSpacePath (ws_rootDir (the_ws sk r))) r) (workSpacePaths sk)"
  from add_index_ok [of U "sk\<lparr>workSpacePaths := ?p\<rparr>" r] assms None show ?thesis
    by (simp add: addWorkSpaceToIndex_def Let_def)
qed (use assms in \<open>simp add: addWorkSpaceToIndex_def\<close>)

lemma sk_NewWorkSpace_ok:
  assumes "index_ok U sk" "sk_NewWorkSpace E dir ordinal pk bl sk = (sk', res)" "env_U E = U"
  shows "index_ok U sk'"
    "res = Inr r \<Longrightarrow> r < length (sk_heap sk') \<and> State_IsValid (ws_state (the_ws sk' r)) \<and> \<not> ws_using (the_ws sk' r) \<and>
       r = length (sk_heap sk)"
proof -
  obtain fs' res' where N: "NewWorkSpace U (env_F E) (sk_fs sk) (sk_dbType sk) dir ordinal pk bl = (fs', res')" by fastforce
  note A = NewWorkSpace_args [OF N]
  have "index_ok U sk' \<and> (res = Inr r \<longrightarrow> r < length (sk_heap sk') \<and> State_IsValid (ws_state (the_ws sk' r)) \<and>
      \<not> ws_using (the_ws sk' r) \<and> r = length (sk_heap sk))"
  proof (cases res')
    case (Inr ws)
    from assms(2) have sk': "sk' = fst (alloc_ws ws (sk\<lparr>sk_fs := fs'\<rparr>))" "res = Inr (length (sk_heap sk))"
      by (auto simp: sk_NewWorkSpace_def assms(3) N Inr alloc_ws_def)
    have "State_IsValid (ws_state ws)" "\<not> ws_using ws" using A(2) [OF Inr] by auto
    moreover have "the_ws sk' (length (sk_heap sk)) = ws" "length (sk_heap sk') = Suc (length (sk_heap sk))"
      unfolding sk' using the_ws_alloc(2,3) [of ws "sk\<lparr>sk_fs := fs'\<rparr>"] by simp_all
    ultimately show ?thesis using assms(1) alloc_ok [of U "sk\<lparr>sk_fs := fs'\<rparr>" ws] by (auto simp: sk')
  qed (use assms N in \<open>auto simp: sk_NewWorkSpace_def\<close>)
  then show "index_ok U sk'"
    "res = Inr r \<Longrightarrow> r < length (sk_heap sk') \<and> State_IsValid (ws_state (the_ws sk' r)) \<and> \<not> ws_using (the_ws sk' r) \<and>
       r = length (sk_heap sk)" by auto
qed

lemma index_file_ok:
  assumes "index_ok (env_U E) sk"
  shows "index_ok (env_U E) (index_file E dbDir fileName sk)"
  using assms sk_NewWorkSpace_ok [OF assms _ refl]
  by (auto simp: index_file_def Let_def intro!: addWorkSpaceToIndex_ok split: sum.splits option.splits prod.splits)

lemma fold_ok: "(\<And>x a. P a \<Longrightarrow> P (f x a)) \<Longrightarrow> P a \<Longrightarrow> P (fold f xs a)"
  by (induction xs arbitrary: a) auto

lemma more_maps_ok:
  assumes "index_ok U sk \<or> workSpaceIndex sk = [] \<and> workSpaceList sk = []"
  shows "index_ok U (sk\<lparr>workSpaceIndex := workSpaceIndex sk @ replicate 5 NewWorkSpaceMap\<rparr>)" (is "index_ok U ?sk'")
  using assms
proof
  assume ok: "index_ok U sk"
  note D = index_okD [OF ok]
  have G: "index_Get ?sk' s x = index_Get sk s x" if "State_IsValid s \<or> s = allState" for s x
    using unat_state [OF that] D(1) by (simp add: index_Get_def nth_append)
  have S: "sid_of U ?sk' = sid_of U sk" by (simp add: sid_of_def fun_eq_iff)
  have "\<forall>i<5. distinct (map fst (workSpaceIndex ?sk' ! i))"
    using ok D(1) by (simp add: index_ok_def nth_append)
  with ok show ?thesis unfolding index_ok_def S by (simp add: G)
next
  assume e: "workSpaceIndex sk = [] \<and> workSpaceList sk = []"
  have "index_Get ?sk' s x = None" if "State_IsValid s \<or> s = allState" for s x
    using unat_state [OF that] e by (simp add: index_Get_def)
  with e show ?thesis unfolding index_ok_def by simp
qed

lemma generateInitialIndex_ok:
  assumes "index_ok (env_U E) sk \<or> workSpaceIndex sk = [] \<and> workSpaceList sk = []"
    "generateInitialIndex E D sk = (sk', err)"
  shows "index_ok (env_U E) sk'"
  using more_maps_ok [OF assms(1)] assms(2) index_file_ok
  by (auto simp: generateInitialIndex_def Let_def case_prod_unfold intro!: fold_ok [where P = "index_ok (env_U E)"]
      split: if_splits)

end
