(* ===== verification/Space_Config.thy ===== *)
theory Space_Config
  imports Space_Index
begin

text \<open>
  Configuring the space keeper: the part of \<open>capacity.go\<close> that chooses which work spaces are used, by
  bit length, size, key, state or path, generating new ones where those on disk do not suffice.

  Go's \<open>int\<close> is a 64-bit integer: \<open>go_int\<close> wraps a result around. \<open>SKPanic\<close> is an index out of range.
  Loops that generate work spaces take fuel, and \<open>None\<close> is running out of it.
\<close>

definition go_int :: "int \<Rightarrow> int" where
  "go_int i = sint (word_of_int i :: 64 word)"

text \<open>The orders in which the loops range over the maps given as arguments; the loops are numbered.\<close>

record 'pk cfg_orders =
  bl_order :: "nat \<Rightarrow> nat list \<Rightarrow> nat list"
  pk_order :: "nat \<Rightarrow> 'pk list \<Rightarrow> 'pk list"

definition range_by :: "('k list \<Rightarrow> 'k list) \<Rightarrow> ('k \<times> 'a) list \<Rightarrow> ('k \<times> 'a) list" where
  "range_by ord m = map (\<lambda>k. (k, the (map_of m k))) (ord (map fst m))"

section \<open>Disk space\<close>

definition AvailableDiskSize :: "('pk, 'q, 'w, 'sig) sk_env \<Rightarrow> ('pk, 'q, 'w) spacekeeper \<Rightarrow> sk_error + u64" where
  "AvailableDiskSize E sk =
     (case dbDirs sk of [] \<Rightarrow> Inl SKPanic
      | d # _ \<Rightarrow> (case disk_Usage E d of Inl _ \<Rightarrow> Inr 0 | Inr free \<Rightarrow> Inr free))"

definition checkOSDiskSizeByPath :: "('pk, 'q, 'w, 'sig) sk_env \<Rightarrow> string \<Rightarrow> int \<Rightarrow> sk_error option" where
  "checkOSDiskSizeByPath E path requiredBytes =
     (if requiredBytes < 0 then Some ErrInvalidRequiredBytes
      else case disk_Usage E path of Inl e \<Rightarrow> Some (OtherError e)
      | Inr free \<Rightarrow> if (word_of_int requiredBytes :: u64) \<ge> free then Some ErrOSDiskSizeNotEnough else None)"

definition checkOSDiskSize ::
  "('pk, 'q, 'w, 'sig) sk_env \<Rightarrow> ('pk, 'q, 'w) spacekeeper \<Rightarrow> int \<Rightarrow> sk_error option" where
  "checkOSDiskSize E sk requiredBytes =
     (case dbDirs sk of [] \<Rightarrow> Some SKPanic | d # _ \<Rightarrow> checkOSDiskSizeByPath E d requiredBytes)"

definition plottedBytes :: "('pk, 'q, 'w, 'sig) sk_env \<Rightarrow> 'pk workspace_info list \<Rightarrow> u64" where
  "plottedBytes E wsiList =
     foldl (\<lambda>n wsi. if wsi_State wsi = Ready \<or> wsi_State wsi = Mining then n + PlotSize E (wsi_BitLength wsi) else n)
       0 wsiList"

definition IsCapacityAvailable ::
  "('pk, 'q, 'w, 'sig) sk_env \<Rightarrow> dir_env \<Rightarrow> ('pk, 'q, 'w) spacekeeper \<Rightarrow> string \<Rightarrow> u64
     \<Rightarrow> ('pk, 'q, 'w) spacekeeper \<times> sk_error option" where
  "IsCapacityAvailable E D sk path capacityBytes =
     (if path = [] \<and> dbDirs sk = [] then (sk, Some SKPanic)
      else case filepath_Abs D (if path = [] then hd (dbDirs sk) else path) of Inl e \<Rightarrow> (sk, Some (OtherError e))
      | Inr absPath \<Rightarrow>
        (case disk_Usage E absPath of Inl e \<Rightarrow> (sk, Some (OtherError e))
         | Inr freeBytes \<Rightarrow>
           (let (sk1, r) =
              (case map_of (workSpacePaths sk) absPath of
                 Some p \<Rightarrow> (sk, Inr (map (\<lambda>w. ws_Info (env_U E) (the_ws sk w)) (wp_spaces p)))
               | None \<Rightarrow> (case peekMassDBInfosByDir E D absPath (sk_fs sk) of (fs', r) \<Rightarrow> (sk\<lparr>sk_fs := fs'\<rparr>, r)))
            in case r of Inl e \<Rightarrow> (sk1, Some e)
            | Inr wsiList \<Rightarrow>
              if freeBytes + plottedBytes E wsiList < capacityBytes then (sk1, Some ErrOSDiskSizeNotEnough)
              else (sk1, None))))"

section \<open>The indexed work spaces in order of priority\<close>

definition usableBitLength :: "nat list" where
  "usableBitLength = [24, 26, 28]"

text \<open>Reversal by swapping, as the loops over \<open>allowedBL\<close> do it.\<close>

fun swap_ends :: "nat \<Rightarrow> 'a list \<Rightarrow> 'a list" where
  "swap_ends 0 xs = xs"
| "swap_ends (Suc i) xs =
     (let ys = swap_ends i xs; j = length xs - 1 - i in ys[i := ys ! j, j := ys ! i])"

definition allowedBL :: "nat list" where
  "allowedBL = swap_ends (length usableBitLength div 2) usableBitLength"

definition ws_bl :: "('pk, 'q, 'w) spacekeeper \<Rightarrow> nat \<Rightarrow> nat" where
  "ws_bl sk w = sid_bitLength (ws_id (the_ws sk w))"

definition group_add ::
  "('pk, 'q, 'w, 'sig) sk_env \<Rightarrow> ('pk, 'q, 'w) spacekeeper \<Rightarrow> nat
     \<Rightarrow> (nat \<times> 'q plotter_queue) list \<Rightarrow> (nat \<times> 'q plotter_queue) list" where
  "group_add E sk w queueMap =
     (let bl = ws_bl sk w;
          x = newQueuedWorkSpace w False;
          queue = (case map_of queueMap bl of Some q \<Rightarrow> q | None \<Rightarrow> newPlotterQueue (env_Q E))
      in AList.update bl (plotterQueue_Push (env_Q E) queue x (ws_priority (sk_heap sk) w)) queueMap)"

fun drain_queues ::
  "('q, qws) prque \<Rightarrow> (nat \<times> 'q plotter_queue) list \<Rightarrow> (nat \<times> nat list) list option" where
  "drain_queues Q [] = Some []"
| "drain_queues Q ((bl, queue) # qs) =
     (case pop_items Q (prq_Size Q (pq_Prque queue)) queue of None \<Rightarrow> None
      | Some (_, xs) \<Rightarrow> map_option (\<lambda>m. (bl, map qws_ws xs) # m) (drain_queues Q qs))"

definition getIndexedWorkSpaces ::
  "('pk, 'q, 'w, 'sig) sk_env \<Rightarrow> ('pk, 'q, 'w) spacekeeper \<Rightarrow> (nat \<times> nat list) list option" where
  "getIndexedWorkSpaces E sk =
     drain_queues (env_Q E)
       (fold (group_add E sk) (map snd (go_range (range_order E) (WorkSpaceMap_Items (workSpaceIndex sk ! unat allState)))) [])"

section \<open>New work spaces\<close>

definition generateNewWorkSpaceByPath ::
  "('pk, 'q, 'w, 'sig) sk_env \<Rightarrow> string \<Rightarrow> nat \<Rightarrow> ('pk, 'q, 'w) spacekeeper
     \<Rightarrow> ('pk, 'q, 'w) spacekeeper \<times> (sk_error + nat)" where
  "generateNewWorkSpaceByPath E rootDir bitLength sk =
     (case GenerateNewPublicKey E (sk_wallet sk) of
        (w', Inl e) \<Rightarrow> (sk\<lparr>sk_wallet := w'\<rparr>, Inl (OtherError e))
      | (w', Inr (pubKey, ordinal)) \<Rightarrow>
          sk_NewWorkSpace E rootDir (int (unat ordinal)) pubKey bitLength (sk\<lparr>sk_wallet := w'\<rparr>))"

definition generateNewWorkSpace ::
  "('pk, 'q, 'w, 'sig) sk_env \<Rightarrow> nat \<Rightarrow> ('pk, 'q, 'w) spacekeeper
     \<Rightarrow> ('pk, 'q, 'w) spacekeeper \<times> (sk_error + nat)" where
  "generateNewWorkSpace E bitLength sk =
     (case dbDirs sk of [] \<Rightarrow> (sk, Inl SKPanic) | d # _ \<Rightarrow> generateNewWorkSpaceByPath E d bitLength sk)"

definition generateNewWorkSpaceByPubKey ::
  "('pk, 'q, 'w, 'sig) sk_env \<Rightarrow> int \<Rightarrow> 'pk \<Rightarrow> nat \<Rightarrow> ('pk, 'q, 'w) spacekeeper
     \<Rightarrow> ('pk, 'q, 'w) spacekeeper \<times> (sk_error + nat)" where
  "generateNewWorkSpaceByPubKey E ordinal pubKey bitLength sk =
     (case dbDirs sk of [] \<Rightarrow> (sk, Inl SKPanic) | d # _ \<Rightarrow> sk_NewWorkSpace E d ordinal pubKey bitLength sk)"

section \<open>Applying a configuration\<close>

definition applyConfiguredWorkSpaces ::
  "('pk, 'q, 'w, 'sig) sk_env \<Rightarrow> nat list \<Rightarrow> bool \<Rightarrow> bool \<Rightarrow> ('pk, 'q, 'w) spacekeeper
     \<Rightarrow> ('pk, 'q, 'w) spacekeeper \<times> (sk_error + 'pk workspace_info list)" where
  "applyConfiguredWorkSpaces E wsList execPlot execMine sk =
     (if length wsList = 0 then (sk, Inl ErrSpaceKeeperConfiguredNothing)
      else
        let Q = env_Q E;
            pri = (\<lambda>x. ws_priority (sk_heap sk) (qws_ws x));
            sk1 = (fold (\<lambda>w. update_ws w (ws_using_update (\<lambda>_. False))) (workSpaceList sk) sk)
                    \<lparr>workSpaceList := [], sk_queue := plotterQueue_Reset Q (sk_queue sk)\<rparr>;
            tmp = push_items Q pri (map (\<lambda>w. newQueuedWorkSpace w execMine) wsList) (newPlotterQueue Q) in
        case pop_items Q (prq_Size Q (pq_Prque tmp)) tmp of None \<Rightarrow> (sk1, Inl SKPanic)
        | Some (_, xs) \<Rightarrow>
          (let sk2 = fold (\<lambda>x s. useWorkSpace (env_U E) (qws_ws x) (queue_Push E x s)) xs sk1;
               sk3 = (if \<not> (execMine \<or> execPlot) then sk2\<lparr>sk_queue := plotterQueue_Reset Q (sk_queue sk2)\<rparr> else sk2)
           in (sk3, Inr (map (\<lambda>w. ws_Info (env_U E) (the_ws sk3 w)) wsList))))"

text \<open>What all configuration functions do before and after.\<close>

definition begin_configure ::
  "('pk, 'q, 'w, 'sig) sk_env \<Rightarrow> ('pk, 'q, 'w) spacekeeper \<Rightarrow> sk_error + ('pk, 'q, 'w) spacekeeper" where
  "begin_configure E sk =
     (if sk_started sk then Inl ErrSpaceKeeperIsRunning
      else if wallet_IsLocked E (sk_wallet sk) then Inl ErrWalletIsLocked
      else if configuring sk then Inl ErrSpaceKeeperIsConfiguring
      else Inr (sk\<lparr>configuring := True, configured := False\<rparr>))"

definition successfullyReturn ::
  "('pk, 'q, 'w, 'sig) sk_env \<Rightarrow> bool \<Rightarrow> bool \<Rightarrow> nat list \<Rightarrow> ('pk, 'q, 'w) spacekeeper
     \<Rightarrow> ('pk, 'q, 'w) spacekeeper \<times> (sk_error + 'pk workspace_info list)" where
  "successfullyReturn E execPlot execMine resultList sk =
     (case applyConfiguredWorkSpaces E resultList execPlot execMine sk of
        (sk', Inl err) \<Rightarrow> (sk', Inl err)
      | (sk', Inr wsiList) \<Rightarrow> (sk'\<lparr>configured := True\<rparr>, Inr wsiList))"

definition configure ::
  "('pk, 'q, 'w, 'sig) sk_env \<Rightarrow> ('pk, 'q, 'w) spacekeeper
     \<Rightarrow> (('pk, 'q, 'w) spacekeeper \<Rightarrow> (('pk, 'q, 'w) spacekeeper \<times> (sk_error + 'pk workspace_info list)) option)
     \<Rightarrow> (('pk, 'q, 'w) spacekeeper \<times> (sk_error + 'pk workspace_info list)) option" where
  "configure E sk body =
     (case begin_configure E sk of Inl err \<Rightarrow> Some (sk, Inl err)
      | Inr sk1 \<Rightarrow> map_option (\<lambda>(sk2, r). (sk2\<lparr>configuring := False\<rparr>, r)) (body sk1))"

section \<open>By bit length\<close>

definition count_of :: "(nat \<times> int) list \<Rightarrow> nat \<Rightarrow> int" where
  "count_of m bl = (case map_of m bl of Some n \<Rightarrow> n | None \<Rightarrow> 0)"

fun fill_bl :: "int \<Rightarrow> nat list \<Rightarrow> nat list \<Rightarrow> int \<Rightarrow> nat list \<times> int" where
  "fill_bl cnt [] dstList cur = (dstList, cur)"
| "fill_bl cnt (space # spaces) dstList cur =
     (if cur = cnt then (dstList, cur) else fill_bl cnt spaces (dstList @ [space]) (go_int (cur + 1)))"

fun fillSpaceListByBitLength ::
  "(nat \<times> nat list) list \<Rightarrow> (nat \<times> int) list \<Rightarrow> nat list \<Rightarrow> (nat \<times> int) list \<Rightarrow> bool
     \<Rightarrow> nat list \<times> (nat \<times> int) list \<times> bool" where
  "fillSpaceListByBitLength srcMap [] dstList currentCount finished = (dstList, currentCount, finished)"
| "fillSpaceListByBitLength srcMap ((bl, cnt) # target) dstList currentCount finished =
     (case map_of srcMap bl of
        None \<Rightarrow> fillSpaceListByBitLength srcMap target dstList currentCount False
      | Some spaces \<Rightarrow>
        (let (dst', cur) = fill_bl cnt spaces dstList (count_of currentCount bl)
         in fillSpaceListByBitLength srcMap target dst' (AList.update bl cur currentCount) (finished \<and> cur = cnt)))"

definition required_by_bl ::
  "('pk, 'q, 'w, 'sig) sk_env \<Rightarrow> (nat \<times> int) list \<Rightarrow> (nat \<times> int) list \<Rightarrow> int" where
  "required_by_bl E currentCount targetCount =
     foldl (\<lambda>n (bl, target). go_int (n + go_int (go_int (target - count_of currentCount bl) * sint (PlotSize E bl))))
       0 targetCount"

fun gen_bl ::
  "('pk, 'q, 'w, 'sig) sk_env \<Rightarrow> nat \<Rightarrow> nat \<Rightarrow> int \<Rightarrow> nat list \<Rightarrow> int \<Rightarrow> ('pk, 'q, 'w) spacekeeper
     \<Rightarrow> (('pk, 'q, 'w) spacekeeper \<times> (sk_error + nat list)) option" where
  "gen_bl E 0 bl cnt dstList cur sk = None"
| "gen_bl E (Suc fuel) bl cnt dstList cur sk =
     (if cur = cnt then Some (sk, Inr dstList)
      else case generateNewWorkSpace E bl sk of
        (sk', Inl err) \<Rightarrow> Some (sk', Inl err)
      | (sk', Inr newWS) \<Rightarrow>
          gen_bl E fuel bl cnt (dstList @ [newWS]) (go_int (cur + 1)) (addWorkSpaceToIndex (env_U E) newWS sk'))"

fun gen_bls ::
  "('pk, 'q, 'w, 'sig) sk_env \<Rightarrow> nat \<Rightarrow> (nat \<times> int) list \<Rightarrow> (nat \<times> int) list \<Rightarrow> nat list \<Rightarrow> ('pk, 'q, 'w) spacekeeper
     \<Rightarrow> (('pk, 'q, 'w) spacekeeper \<times> (sk_error + nat list)) option" where
  "gen_bls E fuel currentCount [] dstList sk = Some (sk, Inr dstList)"
| "gen_bls E fuel currentCount ((bl, cnt) # target) dstList sk =
     (case gen_bl E fuel bl cnt dstList (count_of currentCount bl) sk of
        None \<Rightarrow> None
      | Some (sk', Inl err) \<Rightarrow> Some (sk', Inl err)
      | Some (sk', Inr dst') \<Rightarrow> gen_bls E fuel currentCount target dst' sk')"

definition generateFillSpaceListByBitLength ::
  "('pk, 'q, 'w, 'sig) sk_env \<Rightarrow> 'pk cfg_orders \<Rightarrow> nat \<Rightarrow> nat list \<Rightarrow> (nat \<times> int) list \<Rightarrow> (nat \<times> int) list
     \<Rightarrow> ('pk, 'q, 'w) spacekeeper \<Rightarrow> (('pk, 'q, 'w) spacekeeper \<times> (sk_error + nat list)) option" where
  "generateFillSpaceListByBitLength E R fuel dstList currentCount targetCount sk =
     (if \<not> allowGenerateNewSpace sk then Some (sk, Inl ErrWorkSpaceCannotGenerate)
      else case checkOSDiskSize E sk (required_by_bl E currentCount (range_by (bl_order R 1) targetCount)) of
        Some err \<Rightarrow> Some (sk, Inl err)
      | None \<Rightarrow> gen_bls E fuel currentCount (range_by (bl_order R 2) targetCount) dstList sk)"

definition ConfigureByBitLength ::
  "('pk, 'q, 'w, 'sig) sk_env \<Rightarrow> 'pk cfg_orders \<Rightarrow> nat \<Rightarrow> ('pk, 'q, 'w) spacekeeper \<Rightarrow> (nat \<times> int) list \<Rightarrow> bool \<Rightarrow> bool
     \<Rightarrow> (('pk, 'q, 'w) spacekeeper \<times> (sk_error + 'pk workspace_info list)) option" where
  "ConfigureByBitLength E R fuel sk BlCount execPlot execMine =
     configure E sk (\<lambda>sk1.
       case getIndexedWorkSpaces E sk1 of None \<Rightarrow> Some (sk1, Inl SKPanic)
       | Some srcMap \<Rightarrow>
         (let (resultList, currentCount, finished) =
            fillSpaceListByBitLength srcMap (range_by (bl_order R 0) BlCount) [] [] True in
          if finished then Some (successfullyReturn E execPlot execMine resultList sk1)
          else case generateFillSpaceListByBitLength E R fuel resultList currentCount BlCount sk1 of
            None \<Rightarrow> None
          | Some (sk2, Inl err) \<Rightarrow> Some (sk2, Inl err)
          | Some (sk2, Inr resultList2) \<Rightarrow> Some (successfullyReturn E execPlot execMine resultList2 sk2)))"

section \<open>By size, and by path and size\<close>

text \<open>
  \<open>fillSpaceListBySize\<close> and \<open>fillSpaceListByPathSize\<close> differ in the test of the directory, which is the
  argument \<open>ok\<close>; the two generating functions differ in the directory.
\<close>

fun fill_sized :: "(nat \<Rightarrow> bool) \<Rightarrow> int \<Rightarrow> int \<Rightarrow> nat list \<Rightarrow> nat list \<Rightarrow> int \<Rightarrow> nat list \<times> int" where
  "fill_sized ok sz target [] dstList cur = (dstList, cur)"
| "fill_sized ok sz target (space # spaces) dstList cur =
     (if \<not> ok space then fill_sized ok sz target spaces dstList cur
      else
        let cur1 = go_int (cur + sz) in
        if cur1 > target then fill_sized ok sz target spaces dstList (go_int (cur1 - sz))
        else fill_sized ok sz target spaces (dstList @ [space]) cur1)"

fun fill_sizes ::
  "(nat \<Rightarrow> bool) \<Rightarrow> (nat \<Rightarrow> int) \<Rightarrow> (nat \<times> nat list) list \<Rightarrow> int \<Rightarrow> nat list \<Rightarrow> nat list \<Rightarrow> int \<Rightarrow> nat list \<times> int" where
  "fill_sizes ok sz srcMap target [] dstList cur = (dstList, cur)"
| "fill_sizes ok sz srcMap target (bl # bls) dstList cur =
     (case map_of srcMap bl of
        None \<Rightarrow> fill_sizes ok sz srcMap target bls dstList cur
      | Some spaces \<Rightarrow>
        (let (dst', cur') = fill_sized ok (sz bl) target spaces dstList cur
         in fill_sizes ok sz srcMap target bls dst' cur'))"

definition plot_int :: "('pk, 'q, 'w, 'sig) sk_env \<Rightarrow> nat \<Rightarrow> int" where
  "plot_int E bl = sint (PlotSize E bl)"

definition fill_done :: "('pk, 'q, 'w, 'sig) sk_env \<Rightarrow> int \<Rightarrow> int \<Rightarrow> bool" where
  "fill_done E cur target \<longleftrightarrow> cur = target \<or> go_int (target - cur) < plot_int E (MinValidDefaultBitLength E)"

definition fillSpaceListBySize ::
  "('pk, 'q, 'w, 'sig) sk_env \<Rightarrow> nat list \<Rightarrow> (nat \<times> nat list) list \<Rightarrow> int \<Rightarrow> int \<Rightarrow> nat list \<times> int \<times> bool" where
  "fillSpaceListBySize E dstList srcMap currentSize targetSize =
     (let (dst', cur) = fill_sizes (\<lambda>_. True) (plot_int E) srcMap targetSize allowedBL dstList currentSize
      in (dst', cur, fill_done E cur targetSize))"

definition fillSpaceListByPathSize ::
  "('pk, 'q, 'w, 'sig) sk_env \<Rightarrow> ('pk, 'q, 'w) spacekeeper \<Rightarrow> string \<Rightarrow> nat list \<Rightarrow> (nat \<times> nat list) list \<Rightarrow> int \<Rightarrow> int
     \<Rightarrow> nat list \<times> int \<times> bool" where
  "fillSpaceListByPathSize E sk path dstList srcMap currentSize targetSize =
     (let (dst', cur) = fill_sizes (\<lambda>w. ws_rootDir (the_ws sk w) = path) (plot_int E) srcMap targetSize allowedBL
            dstList currentSize
      in (dst', cur, fill_done E cur targetSize))"

fun gen_sized ::
  "('pk, 'q, 'w, 'sig) sk_env \<Rightarrow> string \<Rightarrow> nat \<Rightarrow> nat \<Rightarrow> int \<Rightarrow> nat list \<Rightarrow> int \<Rightarrow> ('pk, 'q, 'w) spacekeeper
     \<Rightarrow> (('pk, 'q, 'w) spacekeeper \<times> int \<times> (sk_error + nat list)) option" where
  "gen_sized E path 0 bl target dstList cur sk = None"
| "gen_sized E path (Suc fuel) bl target dstList cur sk =
     (if go_int (target - cur) < plot_int E bl then Some (sk, cur, Inr dstList)
      else
        let cur1 = go_int (cur + plot_int E bl) in
        case generateNewWorkSpaceByPath E path bl sk of
          (sk', Inl err) \<Rightarrow> Some (sk', cur1, Inl err)
        | (sk', Inr newWS) \<Rightarrow>
            gen_sized E path fuel bl target (dstList @ [newWS]) cur1 (addWorkSpaceToIndex (env_U E) newWS sk'))"

fun gen_sizes ::
  "('pk, 'q, 'w, 'sig) sk_env \<Rightarrow> string \<Rightarrow> nat \<Rightarrow> nat list \<Rightarrow> int \<Rightarrow> nat list \<Rightarrow> int \<Rightarrow> ('pk, 'q, 'w) spacekeeper
     \<Rightarrow> (('pk, 'q, 'w) spacekeeper \<times> int \<times> (sk_error + nat list)) option" where
  "gen_sizes E path fuel [] target dstList cur sk = Some (sk, cur, Inr dstList)"
| "gen_sizes E path fuel (bl # bls) target dstList cur sk =
     (case gen_sized E path fuel bl target dstList cur sk of
        None \<Rightarrow> None
      | Some (sk', cur', Inl err) \<Rightarrow> Some (sk', cur', Inl err)
      | Some (sk', cur', Inr dst') \<Rightarrow> gen_sizes E path fuel bls target dst' cur' sk')"

definition generateFillSpaceListByPathSize ::
  "('pk, 'q, 'w, 'sig) sk_env \<Rightarrow> nat \<Rightarrow> string \<Rightarrow> nat list \<Rightarrow> int \<Rightarrow> int \<Rightarrow> ('pk, 'q, 'w) spacekeeper
     \<Rightarrow> (('pk, 'q, 'w) spacekeeper \<times> int \<times> (sk_error + nat list)) option" where
  "generateFillSpaceListByPathSize E fuel path dstList currentSize targetSize sk =
     (if \<not> allowGenerateNewSpace sk then Some (sk, currentSize, Inl ErrWorkSpaceCannotGenerate)
      else case checkOSDiskSizeByPath E path (go_int (targetSize - currentSize)) of
        Some err \<Rightarrow> Some (sk, currentSize, Inl err)
      | None \<Rightarrow> gen_sizes E path fuel allowedBL targetSize dstList currentSize sk)"

definition generateFillSpaceListBySize ::
  "('pk, 'q, 'w, 'sig) sk_env \<Rightarrow> nat \<Rightarrow> nat list \<Rightarrow> int \<Rightarrow> int \<Rightarrow> ('pk, 'q, 'w) spacekeeper
     \<Rightarrow> (('pk, 'q, 'w) spacekeeper \<times> int \<times> (sk_error + nat list)) option" where
  "generateFillSpaceListBySize E fuel dstList currentSize targetSize sk =
     (if \<not> allowGenerateNewSpace sk then Some (sk, currentSize, Inl ErrWorkSpaceCannotGenerate)
      else case checkOSDiskSize E sk (go_int (targetSize - currentSize)) of
        Some err \<Rightarrow> Some (sk, currentSize, Inl err)
      | None \<Rightarrow> gen_sizes E (hd (dbDirs sk)) fuel allowedBL targetSize dstList currentSize sk)"

definition ConfigureBySize ::
  "('pk, 'q, 'w, 'sig) sk_env \<Rightarrow> nat \<Rightarrow> ('pk, 'q, 'w) spacekeeper \<Rightarrow> u64 \<Rightarrow> bool \<Rightarrow> bool
     \<Rightarrow> (('pk, 'q, 'w) spacekeeper \<times> (sk_error + 'pk workspace_info list)) option" where
  "ConfigureBySize E fuel sk targetSize execPlot execMine =
     configure E sk (\<lambda>sk1.
       if targetSize < PlotSize E (usableBitLength ! 0) then Some (sk1, Inl ErrConfigUnderSizeTarget)
       else case getIndexedWorkSpaces E sk1 of None \<Rightarrow> Some (sk1, Inl SKPanic)
       | Some srcMap \<Rightarrow>
         (let (resultList, currentSize, finished) = fillSpaceListBySize E [] srcMap 0 (sint targetSize) in
          if finished then Some (successfullyReturn E execPlot execMine resultList sk1)
          else case generateFillSpaceListBySize E fuel resultList currentSize (sint targetSize) sk1 of
            None \<Rightarrow> None
          | Some (sk2, _, Inl err) \<Rightarrow> Some (sk2, Inl err)
          | Some (sk2, _, Inr resultList2) \<Rightarrow> Some (successfullyReturn E execPlot execMine resultList2 sk2)))"

fun check_paths :: "dir_env \<Rightarrow> string list \<Rightarrow> sk_error + string list" where
  "check_paths D [] = Inr []"
| "check_paths D (dir # dirs) =
     (case filepath_Abs D dir of Inl _ \<Rightarrow> Inl ErrInvalidDir
      | Inr absDir \<Rightarrow>
        (case os_Stat D absDir of
           StatError \<Rightarrow> Inl ErrInvalidDir
         | IsFile \<Rightarrow> Inl ErrInvalidDir
         | NotExist \<Rightarrow>
             (case os_MkdirAll D absDir of Some _ \<Rightarrow> Inl ErrInvalidDir
              | None \<Rightarrow> (case check_paths D dirs of Inl e \<Rightarrow> Inl e | Inr ds \<Rightarrow> Inr (absDir # ds)))
         | IsDirectory \<Rightarrow> (case check_paths D dirs of Inl e \<Rightarrow> Inl e | Inr ds \<Rightarrow> Inr (absDir # ds))))"

fun fill_paths ::
  "('pk, 'q, 'w, 'sig) sk_env \<Rightarrow> nat \<Rightarrow> (string \<times> int) list \<Rightarrow> nat list \<Rightarrow> ('pk, 'q, 'w) spacekeeper
     \<Rightarrow> (('pk, 'q, 'w) spacekeeper \<times> (sk_error + nat list)) option" where
  "fill_paths E fuel [] resultList sk = Some (sk, Inr resultList)"
| "fill_paths E fuel ((dir, targetSize) # rest) resultList sk =
     (case getIndexedWorkSpaces E sk of None \<Rightarrow> Some (sk, Inl SKPanic)
      | Some srcMap \<Rightarrow>
        (let (pathResultList, currentSize, finished) = fillSpaceListByPathSize E sk dir [] srcMap 0 targetSize in
         if finished then fill_paths E fuel rest (resultList @ pathResultList) sk
         else case generateFillSpaceListByPathSize E fuel dir pathResultList currentSize targetSize sk of
           None \<Rightarrow> None
         | Some (sk', _, Inl err) \<Rightarrow> Some (sk', Inl err)
         | Some (sk', _, Inr pathResultList2) \<Rightarrow> fill_paths E fuel rest (resultList @ pathResultList2) sk'))"

definition ConfigureByPath ::
  "('pk, 'q, 'w, 'sig) sk_env \<Rightarrow> dir_env \<Rightarrow> nat \<Rightarrow> ('pk, 'q, 'w) spacekeeper \<Rightarrow> string list \<Rightarrow> int list \<Rightarrow> bool \<Rightarrow> bool
     \<Rightarrow> (('pk, 'q, 'w) spacekeeper \<times> (sk_error + 'pk workspace_info list)) option" where
  "ConfigureByPath E D fuel sk paths sizes execPlot execMine =
     configure E sk (\<lambda>sk1.
       if length paths = 0 \<or> length paths \<noteq> length sizes then Some (sk1, Inl ErrConfigInvalidPathSize)
       else case check_paths D paths of Inl err \<Rightarrow> Some (sk1, Inl err)
       | Inr absDirs \<Rightarrow>
         (case generateInitialIndex E D (sk1\<lparr>dbDirs := absDirs\<rparr>) of
            (sk2, Some err) \<Rightarrow> Some (sk2, Inl err)
          | (sk2, None) \<Rightarrow>
            (case fill_paths E fuel (zip absDirs sizes) [] sk2 of
               None \<Rightarrow> None
             | Some (sk3, Inl err) \<Rightarrow> Some (sk3, Inl err)
             | Some (sk3, Inr resultList) \<Rightarrow> Some (successfullyReturn E execPlot execMine resultList sk3))))"

section \<open>By key and by state\<close>

definition pk_sid :: "('pk, 'q, 'w, 'sig) sk_env \<Rightarrow> ('pk \<times> int) list \<Rightarrow> 'pk \<Rightarrow> nat \<Rightarrow> int \<times> string" where
  "pk_sid E pubKeyOrdinal pubKey bl =
     (let ordinal = (case map_of pubKeyOrdinal pubKey of Some i \<Rightarrow> i | None \<Rightarrow> 0)
      in (ordinal, SpaceID_String (env_U E) (NewSpaceID (env_U E) ordinal pubKey bl)))"

definition required_by_pk ::
  "('pk, 'q, 'w, 'sig) sk_env \<Rightarrow> ('pk, 'q, 'w) spacekeeper \<Rightarrow> ('pk \<times> int) list \<Rightarrow> ('pk \<times> nat) list \<Rightarrow> int" where
  "required_by_pk E sk pubKeyOrdinal targets =
     foldl (\<lambda>n (pubKey, bl).
              if index_Get sk allState (snd (pk_sid E pubKeyOrdinal pubKey bl)) = None then go_int (n + plot_int E bl) else n)
       0 targets"

fun gen_pks ::
  "('pk, 'q, 'w, 'sig) sk_env \<Rightarrow> ('pk \<times> int) list \<Rightarrow> ('pk \<times> nat) list \<Rightarrow> nat list \<Rightarrow> ('pk, 'q, 'w) spacekeeper
     \<Rightarrow> ('pk, 'q, 'w) spacekeeper \<times> (sk_error + nat list)" where
  "gen_pks E pubKeyOrdinal [] dstList sk = (sk, Inr dstList)"
| "gen_pks E pubKeyOrdinal ((pubKey, bl) # targets) dstList sk =
     (case pk_sid E pubKeyOrdinal pubKey bl of (ordinal, sid) \<Rightarrow>
        (case index_Get sk allState sid of
           Some ws \<Rightarrow> gen_pks E pubKeyOrdinal targets (dstList @ [ws]) sk
         | None \<Rightarrow>
           (case generateNewWorkSpaceByPubKey E ordinal pubKey bl sk of
              (sk', Inl err) \<Rightarrow> (sk', Inl err)
            | (sk', Inr newWS) \<Rightarrow>
                gen_pks E pubKeyOrdinal targets (dstList @ [newWS]) (addWorkSpaceToIndex (env_U E) newWS sk'))))"

definition generateFillSpaceListByPubKey ::
  "('pk, 'q, 'w, 'sig) sk_env \<Rightarrow> 'pk cfg_orders \<Rightarrow> ('pk \<times> nat) list \<Rightarrow> ('pk \<times> int) list \<Rightarrow> ('pk, 'q, 'w) spacekeeper
     \<Rightarrow> ('pk, 'q, 'w) spacekeeper \<times> (sk_error + nat list)" where
  "generateFillSpaceListByPubKey E R targetPubKeyBL pubKeyOrdinal sk =
     (if \<not> allowGenerateNewSpace sk then (sk, Inl ErrWorkSpaceCannotGenerate)
      else case checkOSDiskSize E sk (required_by_pk E sk pubKeyOrdinal (range_by (pk_order R 0) targetPubKeyBL)) of
        Some err \<Rightarrow> (sk, Inl err)
      | None \<Rightarrow> gen_pks E pubKeyOrdinal (range_by (pk_order R 1) targetPubKeyBL) [] sk)"

definition ConfigureByPubKey ::
  "('pk, 'q, 'w, 'sig) sk_env \<Rightarrow> 'pk cfg_orders \<Rightarrow> ('pk, 'q, 'w) spacekeeper \<Rightarrow> ('pk \<times> nat) list \<Rightarrow> ('pk \<times> int) list \<Rightarrow> bool \<Rightarrow> bool
     \<Rightarrow> (('pk, 'q, 'w) spacekeeper \<times> (sk_error + 'pk workspace_info list)) option" where
  "ConfigureByPubKey E R sk PubKeyBL PubKeyOrdinal execPlot execMine =
     configure E sk (\<lambda>sk1.
       case generateFillSpaceListByPubKey E R PubKeyBL PubKeyOrdinal sk1 of
         (sk2, Inl err) \<Rightarrow> Some (sk2, Inl err)
       | (sk2, Inr resultList) \<Rightarrow>
           if length resultList \<noteq> length PubKeyBL then Some (sk2, Inl ErrSpaceKeeperConfiguredNothing)
           else Some (successfullyReturn E execPlot execMine resultList sk2))"

definition ConfigureByFlags ::
  "('pk, 'q, 'w, 'sig) sk_env \<Rightarrow> ('pk, 'q, 'w) spacekeeper \<Rightarrow> WorkSpaceStateFlags \<Rightarrow> bool \<Rightarrow> bool
     \<Rightarrow> (('pk, 'q, 'w) spacekeeper \<times> (sk_error + 'pk workspace_info list)) option" where
  "ConfigureByFlags E sk flags execPlot execMine =
     configure E sk (\<lambda>sk1.
       let resultList = concat (map (\<lambda>state. map snd (go_range (range_order E)
             (WorkSpaceMap_Items (workSpaceIndex sk1 ! unat state)))) (Flags_States flags))
       in Some (successfullyReturn E execPlot execMine resultList sk1))"

section \<open>Directories\<close>

definition WorkSpaceInfosByDirs ::
  "'pk pocutil \<Rightarrow> ('pk, 'q, 'w) spacekeeper \<Rightarrow> (string \<times> 'pk workspace_info list) list" where
  "WorkSpaceInfosByDirs U sk =
     concat (map (\<lambda>dir. case map_of (workSpacePaths sk) dir of None \<Rightarrow> []
         | Some p \<Rightarrow> [(dir, map (\<lambda>w. ws_Info U (the_ws sk w))
                              (filter (\<lambda>w. ws_using (the_ws sk w)) (WorkSpacePath_WorkSpaces p)))])
       (dbDirs sk))"

fun abs_dirs :: "dir_env \<Rightarrow> string list \<Rightarrow> sk_error + string list" where
  "abs_dirs D [] = Inr []"
| "abs_dirs D (dir # dirs) =
     (case filepath_Abs D dir of Inl _ \<Rightarrow> Inl ErrInvalidDir
      | Inr a \<Rightarrow> (case abs_dirs D dirs of Inl e \<Rightarrow> Inl e | Inr as \<Rightarrow> Inr (a # as)))"

definition strSliceEqual :: "string list \<Rightarrow> string list \<Rightarrow> bool" where
  "strSliceEqual absDirs dirs \<longleftrightarrow> length absDirs = length dirs \<and> list_all (\<lambda>dir. dir \<in> set dirs) absDirs"

definition ResetDBDirs ::
  "('pk, 'q, 'w, 'sig) sk_env \<Rightarrow> dir_env \<Rightarrow> ('pk, 'q, 'w) spacekeeper \<Rightarrow> string list
     \<Rightarrow> ('pk, 'q, 'w) spacekeeper \<times> sk_error option" where
  "ResetDBDirs E D sk dirs =
     (if sk_started sk then (sk, Some ErrSpaceKeeperIsRunning)
      else case abs_dirs D dirs of Inl e \<Rightarrow> (sk, Some e)
      | Inr absDirs \<Rightarrow>
        if length (dbDirs sk) = 0 then generateInitialIndex E D (sk\<lparr>dbDirs := absDirs\<rparr>)
        else if \<not> strSliceEqual absDirs (dbDirs sk) then (sk, Some ErrSpaceKeeperChangeDBDirs)
        else (sk, None))"

end
