(* ===== verification/Config_Fill.thy ===== *)
theory Config_Fill
  imports Space_Config
begin

text \<open>
  What the filling functions of the configuration compute: the indexed work spaces grouped by bit
  length come in decreasing priority; filling by bit length takes as many of each group as wanted,
  and filling by size is greedy and never exceeds the target.
\<close>

section \<open>Machine integers\<close>

lemma go_int_small: "- (2 ^ 63) \<le> i \<Longrightarrow> i < 2 ^ 63 \<Longrightarrow> go_int i = i"
  by (simp add: go_int_def signed_of_int signed_take_bit_int_eq_self)

lemma allowedBL_eq: "allowedBL = [28, 26, 24]"
  by code_simp

section \<open>The indexed work spaces by priority\<close>

definition group_items ::
  "('q \<Rightarrow> (qws \<times> int) multiset) \<Rightarrow> (nat \<times> 'q plotter_queue) list \<Rightarrow> nat \<Rightarrow> (qws \<times> int) multiset" where
  "group_items items qm bl = (case map_of qm bl of None \<Rightarrow> {#} | Some q \<Rightarrow> items (pq_Prque q))"

definition entry :: "('pk, 'q, 'w) spacekeeper \<Rightarrow> nat \<Rightarrow> qws \<times> int" where
  "entry sk w = (newQueuedWorkSpace w False, ws_priority (sk_heap sk) w)"

lemma group_add_items:
  assumes Q: "prque_ok (env_Q E) items"
  shows "group_items items (group_add E sk w qm) bl =
    (if ws_bl sk w = bl then add_mset (entry sk w) (group_items items qm bl) else group_items items qm bl)"
  by (auto simp: group_items_def group_add_def Let_def update_conv' entry_def plotterQueue_Push_def newPlotterQueue_def
      prque_okD [OF Q] split: option.splits)

lemma group_fold_items:
  assumes Q: "prque_ok (env_Q E) items"
  shows "group_items items (fold (group_add E sk) ws qm) bl =
    mset (map (entry sk) (filter (\<lambda>w. ws_bl sk w = bl) ws)) + group_items items qm bl"
  by (induction ws arbitrary: qm) (auto simp: group_add_items [OF Q])

lemma dom_group_fold:
  "dom (map_of (fold (group_add E sk) ws qm)) = ws_bl sk ` set ws \<union> dom (map_of qm)"
  by (induction ws arbitrary: qm) (auto simp: group_add_def Let_def update_conv' split: if_splits)

lemma drain_queues_sorted:
  assumes Q: "prque_ok Q items" and pri: "\<forall>bl q i. (bl, q) \<in> set qm \<longrightarrow> i \<in># items (pq_Prque q) \<longrightarrow> snd i = pri (fst i)"
  shows "\<exists>m. drain_queues Q qm = Some m \<and> map fst m = map fst qm \<and>
    (\<forall>bl. map_of qm bl = None \<longrightarrow> map_of m bl = None) \<and>
    (\<forall>bl q. map_of qm bl = Some q \<longrightarrow>
      (\<exists>xs. map_of m bl = Some (map qws_ws xs) \<and> mset xs = image_mset fst (items (pq_Prque q)) \<and> sorted (rev (map pri xs))))"
  using pri
proof (induction qm)
  case (Cons bq qm)
  obtain bl q where bq: "bq = (bl, q)" by (cases bq)
  have "\<forall>bl q i. (bl, q) \<in> set qm \<longrightarrow> i \<in># items (pq_Prque q) \<longrightarrow> snd i = pri (fst i)"
    using Cons.prems by simp
  from Cons.IH [OF this] obtain m where m: "drain_queues Q qm = Some m" "map fst m = map fst qm"
    "\<forall>bl. map_of qm bl = None \<longrightarrow> map_of m bl = None"
    "\<forall>bl q. map_of qm bl = Some q \<longrightarrow>
      (\<exists>xs. map_of m bl = Some (map qws_ws xs) \<and> mset xs = image_mset fst (items (pq_Prque q)) \<and> sorted (rev (map pri xs)))"
    by blast
  have "\<forall>i\<in>#items (pq_Prque q). snd i = pri (fst i)" using Cons.prems bq by auto
  from pop_items_sorted [OF Q refl this] obtain pq' xs where
    xs: "pop_items Q (size (items (pq_Prque q))) q = Some (pq', xs)"
      "mset xs = image_mset fst (items (pq_Prque q))" "sorted (rev (map pri xs))" by blast
  with m show ?case by (auto simp: bq prque_okD [OF Q])
qed simp

definition indexed_refs :: "('pk, 'q, 'w) spacekeeper \<Rightarrow> nat list" where
  "indexed_refs sk = map snd (workSpaceIndex sk ! unat allState)"

lemma getIndexedWorkSpaces_sorted:
  assumes Q: "prque_ok (env_Q E) items" and R: "range_ok E" and ok: "index_ok (env_U E) sk"
  shows "\<exists>m. getIndexedWorkSpaces E sk = Some m \<and>
    (\<forall>bl. case map_of m bl of
        None \<Rightarrow> bl \<notin> ws_bl sk ` set (indexed_refs sk)
      | Some l \<Rightarrow> mset l = mset (filter (\<lambda>w. ws_bl sk w = bl) (indexed_refs sk)) \<and>
          sorted_wrt (\<lambda>w w'. ws_priority (sk_heap sk) w \<ge> ws_priority (sk_heap sk) w') l)"
proof -
  let ?Q = "env_Q E" and ?idx = "workSpaceIndex sk ! unat allState"
  let ?ws = "map snd (go_range (range_order E) (WorkSpaceMap_Items ?idx))"
  let ?qm = "fold (group_add E sk) ?ws []" and ?pri = "\<lambda>x. ws_priority (sk_heap sk) (qws_ws x)"
  have d: "distinct (map fst ?idx)" using ok by (simp add: index_ok_def)
  have "mset (go_range (range_order E) ?idx) = mset ?idx"
    using mset_go_range [OF d] R by (simp add: range_ok_def)
  then have ws: "mset ?ws = mset (indexed_refs sk)"
    by (simp only: Items_eq [OF d] indexed_refs_def mset_map)
  have keys: "distinct (map fst ?qm)"
    by (rule fold_ok [where P = "\<lambda>qm. distinct (map fst qm)"]) (auto simp: group_add_def Let_def distinct_update)
  have gi: "group_items items ?qm bl = mset (map (entry sk) (filter (\<lambda>w. ws_bl sk w = bl) ?ws))" for bl
    using group_fold_items [OF Q, where sk = sk and ws = ?ws and qm = "[]" and bl = bl] by (simp add: group_items_def)
  have it: "items (pq_Prque q) = mset (map (entry sk) (filter (\<lambda>w. ws_bl sk w = bl) ?ws))" if "map_of ?qm bl = Some q" for bl q
    using gi [of bl] that by (simp add: group_items_def)
  have "\<forall>bl q i. (bl, q) \<in> set ?qm \<longrightarrow> i \<in># items (pq_Prque q) \<longrightarrow> snd i = ?pri (fst i)"
  proof (intro allI impI)
    fix bl q i assume "(bl, q) \<in> set ?qm" and i: "i \<in># items (pq_Prque q)"
    then have "map_of ?qm bl = Some q" using keys by simp
    from it [OF this] i show "snd i = ?pri (fst i)" by (auto simp: entry_def newQueuedWorkSpace_def)
  qed
  from drain_queues_sorted [OF Q this] obtain m where m: "drain_queues ?Q ?qm = Some m"
    "\<forall>bl. map_of ?qm bl = None \<longrightarrow> map_of m bl = None"
    "\<forall>bl q. map_of ?qm bl = Some q \<longrightarrow>
      (\<exists>xs. map_of m bl = Some (map qws_ws xs) \<and> mset xs = image_mset fst (items (pq_Prque q)) \<and> sorted (rev (map ?pri xs)))"
    by blast
  have "case map_of m bl of None \<Rightarrow> bl \<notin> ws_bl sk ` set (indexed_refs sk)
      | Some l \<Rightarrow> mset l = mset (filter (\<lambda>w. ws_bl sk w = bl) (indexed_refs sk)) \<and>
          sorted_wrt (\<lambda>w w'. ws_priority (sk_heap sk) w \<ge> ws_priority (sk_heap sk) w') l" for bl
  proof (cases "map_of ?qm bl")
    case None
    then have "bl \<notin> dom (map_of ?qm)" by (simp only: domIff not_not)
    then have "bl \<notin> ws_bl sk ` set ?ws" unfolding dom_group_fold by blast
    moreover have "set ?ws = set (indexed_refs sk)" using ws by (metis set_mset_mset)
    ultimately have "bl \<notin> ws_bl sk ` set (indexed_refs sk)" by simp
    moreover have "map_of m bl = None" using m(2) None by blast
    ultimately show ?thesis by simp
  next
    case (Some q)
    with m(3) obtain xs where xs: "map_of m bl = Some (map qws_ws xs)"
      "mset xs = image_mset fst (items (pq_Prque q))" "sorted (rev (map ?pri xs))" by blast
    have "mset (map qws_ws xs) = image_mset (\<lambda>w. qws_ws (fst (entry sk w))) (mset (filter (\<lambda>w. ws_bl sk w = bl) ?ws))"
      by (simp add: xs(2) it [OF Some] multiset.map_comp comp_def)
    also have "\<dots> = mset (filter (\<lambda>w. ws_bl sk w = bl) ?ws)" by (simp add: entry_def newQueuedWorkSpace_def)
    also have "\<dots> = mset (filter (\<lambda>w. ws_bl sk w = bl) (indexed_refs sk))" by (simp only: mset_filter ws)
    finally have "mset (map qws_ws xs) = mset (filter (\<lambda>w. ws_bl sk w = bl) (indexed_refs sk))" .
    moreover have "sorted_wrt (\<lambda>w w'. ws_priority (sk_heap sk) w \<ge> ws_priority (sk_heap sk) w') (map qws_ws xs)"
      using xs(3) by (simp add: sorted_wrt_rev sorted_wrt_map rev_map sorted_map)
    ultimately show ?thesis by (simp add: xs(1))
  qed
  then show ?thesis using m(1) by (auto simp: getIndexedWorkSpaces_def)
qed

section \<open>Filling by bit length\<close>

lemma fill_bl_take:
  assumes "0 \<le> cur" "cur \<le> cnt" "cnt < 2 ^ 62" "length spaces < 2 ^ 62"
  shows "fill_bl cnt spaces dst cur = (dst @ take (nat (cnt - cur)) spaces, cur + int (min (nat (cnt - cur)) (length spaces)))"
  using assms
proof (induction spaces arbitrary: dst cur)
  case (Cons s spaces)
  show ?case
  proof (cases "cur = cnt")
    case False
    then have g: "go_int (cur + 1) = cur + 1" using Cons.prems by (intro go_int_small) auto
    have n: "nat (cnt - cur) = Suc (nat (cnt - (cur + 1)))" using False Cons.prems by auto
    show ?thesis using Cons.IH [of "cur + 1" "dst @ [s]"] Cons.prems False by (simp add: g n)
  qed simp
qed simp

lemma count_of_update [simp]: "count_of (AList.update k v m) bl = (if bl = k then v else count_of m bl)"
  by (simp add: count_of_def update_conv')

text \<open>The reference: from each group as many as wanted, in the order of the range.\<close>

definition chosen :: "(nat \<times> nat list) list \<Rightarrow> (nat \<times> int) list \<Rightarrow> nat list" where
  "chosen srcMap target =
     concat (map (\<lambda>(bl, cnt). case map_of srcMap bl of None \<Rightarrow> [] | Some spaces \<Rightarrow> take (nat cnt) spaces) target)"

definition enough :: "(nat \<times> nat list) list \<Rightarrow> (nat \<times> int) list \<Rightarrow> bool" where
  "enough srcMap target \<longleftrightarrow>
     list_all (\<lambda>(bl, cnt). case map_of srcMap bl of None \<Rightarrow> False | Some spaces \<Rightarrow> nat cnt \<le> length spaces) target"

lemma fillSpaceListByBitLength_chosen:
  assumes "distinct (map fst target)" "\<And>bl cnt. (bl, cnt) \<in> set target \<Longrightarrow> 0 \<le> cnt \<and> cnt < 2 ^ 62"
    "\<And>bl spaces. map_of srcMap bl = Some spaces \<Longrightarrow> length spaces < 2 ^ 62"
    "\<And>bl. bl \<in> fst ` set target \<Longrightarrow> count_of cc bl = 0"
  shows "\<exists>cc'. fillSpaceListByBitLength srcMap target dst cc fin = (dst @ chosen srcMap target, cc', fin \<and> enough srcMap target) \<and>
    (\<forall>bl. count_of cc' bl = (case map_of target bl of None \<Rightarrow> count_of cc bl
       | Some cnt \<Rightarrow> (case map_of srcMap bl of None \<Rightarrow> count_of cc bl | Some spaces \<Rightarrow> int (min (nat cnt) (length spaces)))))"
  using assms(1,2,4)
proof (induction target arbitrary: dst cc fin)
  case (Cons bc target)
  obtain bl cnt where bc: "bc = (bl, cnt)" by (cases bc)
  have c0: "0 \<le> cnt" "cnt < 2 ^ 62" and z: "count_of cc bl = 0" using Cons.prems bc by auto
  have nd: "bl \<notin> fst ` set target" and d: "distinct (map fst target)" using Cons.prems(1) bc by auto
  have mo: "map_of target bl = None" using nd by (simp add: map_of_eq_None_iff)
  show ?case
  proof (cases "map_of srcMap bl")
    case None
    have "count_of cc bl' = 0" if "bl' \<in> fst ` set target" for bl' using Cons.prems(3) that by auto
    from Cons.IH [OF d _ this, of dst False] Cons.prems(2) obtain cc' where
      "fillSpaceListByBitLength srcMap target dst cc False = (dst @ chosen srcMap target, cc', False)"
      "\<forall>bl. count_of cc' bl = (case map_of target bl of None \<Rightarrow> count_of cc bl
       | Some cnt \<Rightarrow> (case map_of srcMap bl of None \<Rightarrow> count_of cc bl | Some spaces \<Rightarrow> int (min (nat cnt) (length spaces))))"
      by auto
    then show ?thesis using None mo by (auto simp: bc chosen_def enough_def)
  next
    case (Some spaces)
    let ?n = "int (min (nat cnt) (length spaces))"
    have f: "fill_bl cnt spaces dst 0 = (dst @ take (nat cnt) spaces, ?n)"
      using fill_bl_take [of 0 cnt spaces dst] c0 assms(3) [OF Some] by simp
    let ?cc = "AList.update bl ?n cc"
    have "count_of ?cc bl' = 0" if "bl' \<in> fst ` set target" for bl' using Cons.prems(3) that nd by auto
    from Cons.IH [OF d _ this, of "dst @ take (nat cnt) spaces" "fin \<and> ?n = cnt"] Cons.prems(2) obtain cc' where
      "fillSpaceListByBitLength srcMap target (dst @ take (nat cnt) spaces) ?cc (fin \<and> ?n = cnt) =
        ((dst @ take (nat cnt) spaces) @ chosen srcMap target, cc', (fin \<and> ?n = cnt) \<and> enough srcMap target)"
      "\<forall>bl. count_of cc' bl = (case map_of target bl of None \<Rightarrow> count_of ?cc bl
       | Some cnt \<Rightarrow> (case map_of srcMap bl of None \<Rightarrow> count_of ?cc bl | Some spaces \<Rightarrow> int (min (nat cnt) (length spaces))))"
      by auto
    moreover have "?n = cnt \<longleftrightarrow> nat cnt \<le> length spaces" using c0 by auto
    ultimately show ?thesis using Some f z mo by (auto simp: bc chosen_def enough_def split: option.splits)
  qed
qed (auto simp: chosen_def enough_def)

section \<open>Filling by size\<close>

definition total :: "(nat \<Rightarrow> int) \<Rightarrow> nat list \<Rightarrow> int" where
  "total sz ws = sum_list (map sz ws)"

lemma fill_sized_greedy:
  assumes "0 \<le> sz" "sz < 2 ^ 62" "0 \<le> cur" "cur \<le> target" "target < 2 ^ 62"
  shows "\<exists>new. fill_sized ok sz target spaces dst cur = (dst @ new, cur + int (length new) * sz) \<and>
    cur + int (length new) * sz \<le> target \<and> set new \<subseteq> {w \<in> set spaces. ok w} \<and>
    (length new = length (filter ok spaces) \<or> cur + int (length new) * sz + sz > target)"
  using assms
proof (induction spaces arbitrary: dst cur)
  case (Cons s spaces)
  show ?case
  proof (cases "ok s")
    case False
    from Cons.IH [OF Cons.prems, of dst] False show ?thesis by auto
  next
    case True
    have g: "go_int (cur + sz) = cur + sz" "go_int (cur + sz - sz) = cur"
      using Cons.prems by (simp_all add: go_int_small)
    show ?thesis
    proof (cases "cur + sz > target")
      case True
      obtain new where "fill_sized ok sz target spaces dst cur = (dst @ new, cur + int (length new) * sz)"
        "cur + int (length new) * sz \<le> target" "set new \<subseteq> {w \<in> set spaces. ok w}"
        using Cons.IH [OF Cons.prems, of dst] by blast
      moreover have "0 \<le> int (length new) * sz" using Cons.prems(1) by simp
      ultimately show ?thesis using True \<open>ok s\<close> g by (auto simp: Let_def)
    next
      case False
      then have "0 \<le> cur + sz" "cur + sz \<le> target" using Cons.prems by auto
      from Cons.IH [OF Cons.prems(1,2) this Cons.prems(5), of "dst @ [s]"] obtain new where
        "fill_sized ok sz target spaces (dst @ [s]) (cur + sz) = ((dst @ [s]) @ new, cur + sz + int (length new) * sz)"
        "cur + sz + int (length new) * sz \<le> target" "set new \<subseteq> {w \<in> set spaces. ok w}"
        "length new = length (filter ok spaces) \<or> cur + sz + int (length new) * sz + sz > target" by blast
      then show ?thesis using False \<open>ok s\<close> g
        by (intro exI [of _ "s # new"]) (auto simp: Let_def algebra_simps)
    qed
  qed
qed simp

lemma fill_sizes_bound:
  assumes "\<And>bl. 0 \<le> sz bl \<and> sz bl < 2 ^ 62" "0 \<le> cur" "cur \<le> target" "target < 2 ^ 62"
    "\<And>bl spaces w. map_of srcMap bl = Some spaces \<Longrightarrow> w \<in> set spaces \<Longrightarrow> f w = bl"
  shows "\<exists>new. fst (fill_sizes ok sz srcMap target bls dst cur) = dst @ new \<and>
    snd (fill_sizes ok sz srcMap target bls dst cur) = cur + total (\<lambda>w. sz (f w)) new \<and>
    cur + total (\<lambda>w. sz (f w)) new \<le> target \<and> 0 \<le> total (\<lambda>w. sz (f w)) new \<and>
    (\<forall>w\<in>set new. ok w \<and> f w \<in> set bls \<and> (\<exists>spaces. map_of srcMap (f w) = Some spaces \<and> w \<in> set spaces))"
  using assms(2,3)
proof (induction bls arbitrary: dst cur)
  case (Cons bl bls)
  show ?case
  proof (cases "map_of srcMap bl")
    case None
    then show ?thesis using Cons.IH [OF Cons.prems, of dst] by auto
  next
    case (Some spaces)
    obtain new1 where n1: "fill_sized ok (sz bl) target spaces dst cur = (dst @ new1, cur + int (length new1) * sz bl)"
      "cur + int (length new1) * sz bl \<le> target" "set new1 \<subseteq> {w \<in> set spaces. ok w}"
      using fill_sized_greedy [of "sz bl" cur target ok spaces dst] assms(1) [of bl] Cons.prems assms(4) by blast
    have f1: "\<forall>w\<in>set new1. f w = bl" using n1(3) assms(5) [OF Some] by auto
    then have t1: "total (\<lambda>w. sz (f w)) new1 = int (length new1) * sz bl"
      by (induction new1) (auto simp: total_def algebra_simps)
    have nn: "0 \<le> int (length new1) * sz bl" using assms(1) [of bl] by simp
    then have "0 \<le> cur + int (length new1) * sz bl" using Cons.prems(1) by linarith
    from Cons.IH [OF this n1(2), of "dst @ new1"] obtain new2 where
      n2: "fst (fill_sizes ok sz srcMap target bls (dst @ new1) (cur + int (length new1) * sz bl)) = (dst @ new1) @ new2"
      "snd (fill_sizes ok sz srcMap target bls (dst @ new1) (cur + int (length new1) * sz bl)) =
        cur + int (length new1) * sz bl + total (\<lambda>w. sz (f w)) new2"
      "cur + int (length new1) * sz bl + total (\<lambda>w. sz (f w)) new2 \<le> target" "0 \<le> total (\<lambda>w. sz (f w)) new2"
      "\<forall>w\<in>set new2. ok w \<and> f w \<in> set bls \<and> (\<exists>spaces. map_of srcMap (f w) = Some spaces \<and> w \<in> set spaces)" by blast
    have tt: "total (\<lambda>w. sz (f w)) (new1 @ new2) = int (length new1) * sz bl + total (\<lambda>w. sz (f w)) new2"
      using t1 by (simp add: total_def)
    have "\<forall>w\<in>set new1. ok w \<and> f w \<in> set (bl # bls) \<and> (\<exists>spaces. map_of srcMap (f w) = Some spaces \<and> w \<in> set spaces)"
      using n1(3) f1 Some by auto
    with n2 tt nn show ?thesis
      by (intro exI [of _ "new1 @ new2"]) (auto simp: Some n1(1))
  qed
qed (simp add: total_def)

end
