(* ===== verification/Keeper_Sys.thy ===== *)
theory Keeper_Sys
  imports Keeper_Inv
begin

text \<open>
  The space keeper and its plotter goroutine together: calls of the actions interleave with the steps
  of \<open>spacePlotter\<close> in any order that the lock, the queue's mutex and the channel allow.
\<close>

section \<open>The step relation\<close>

text \<open>
  The plotter waits for work (\<open>PLoop\<close>), moves new work spaces from the channel into the queue (\<open>PAdd\<close>),
  has popped one (\<open>PPopped\<close>), or waits for the end of a plot (\<open>PWorking\<close>). Its work space is the popped
  item. \<open>ks_pending\<close> are the sends of calls that hold \<open>stateLock\<close> and wait for room in the channel.
\<close>

datatype plotter_pc = PLoop | PAdd | PPopped | PWorking

record ('pk, 'q, 'w) keeper_sys =
  ks_sk :: "('pk, 'q, 'w) spacekeeper"
  ks_pc :: plotter_pc
  ks_pending :: "qws list"

text \<open>\<open>PlotWS\<close> takes the lock for reading, the other actions for writing.\<close>

definition lock_free :: "('pk, 'q, 'w) keeper_sys \<Rightarrow> ActionType \<Rightarrow> bool" where
  "lock_free s act \<longleftrightarrow> ks_pending s = [] \<or> act = Plot \<and> list_all (\<lambda>x. \<not> wouldMining x) (ks_pending s)"

definition ch_append :: "qws \<Rightarrow> ('pk, 'q, 'w) spacekeeper \<Rightarrow> ('pk, 'q, 'w) spacekeeper" where
  "ch_append x sk = sk\<lparr>newQueuedWorkSpaceCh := newQueuedWorkSpaceCh sk @ [x]\<rparr>"

definition set_db :: "nat \<Rightarrow> 'pk massdbv1 \<Rightarrow> ('pk, 'q, 'w) spacekeeper \<Rightarrow> ('pk, 'q, 'w) spacekeeper" where
  "set_db r mdb sk = update_ws r (\<lambda>_. the_ws sk r\<lparr>ws_db := mdb\<rparr>) sk"

inductive plotter_step ::
  "('pk, 'q, 'w, 'sig) sk_env \<Rightarrow> ('pk, 'q, 'w) keeper_sys \<Rightarrow> ('pk, 'q, 'w) keeper_sys \<Rightarrow> bool" for E where
  step_pop: "ks_pc s = PLoop \<Longrightarrow> \<not> prq_Empty (env_Q E) (pq_Prque (sk_queue (ks_sk s))) \<Longrightarrow>
    plotterQueue_PopItem (env_Q E) (sk_queue (ks_sk s)) = Some (q, x) \<Longrightarrow>
    plotter_step E s (s\<lparr>ks_pc := PPopped, ks_sk := (ks_sk s)\<lparr>sk_queue := q\<rparr>\<rparr>)"
| step_begin: "ks_pc s = PPopped \<Longrightarrow> ks_pending s = [] \<Longrightarrow> poppedItem (sk_queue (ks_sk s)) = Some x \<Longrightarrow>
    plotSpace_begin (env_U E) x (ks_sk s) = (sk', True) \<Longrightarrow>
    MassDBV1_Plot (ws_db (the_ws sk' (qws_ws x))) = (mdb, res) \<Longrightarrow>
    plotter_step E s (s\<lparr>ks_pc := PWorking, ks_sk := set_db (qws_ws x) mdb sk'\<rparr>)"
| step_skip: "ks_pc s = PPopped \<Longrightarrow> ks_pending s = [] \<Longrightarrow> poppedItem (sk_queue (ks_sk s)) = Some x \<Longrightarrow>
    plotSpace_begin (env_U E) x (ks_sk s) = (sk', False) \<Longrightarrow>
    plotter_step E s (s\<lparr>ks_pc := PLoop, ks_sk := sk'\<rparr>)"
| step_run: "ks_pc s = PWorking \<Longrightarrow> poppedItem (sk_queue (ks_sk s)) = Some x \<Longrightarrow>
    0 < mdb_wg (ws_db (the_ws (ks_sk s) (qws_ws x))) \<Longrightarrow>
    executePlot (env_U E) (env_F E) E1 E2 fuel (sk_fs (ks_sk s)) (ws_db (the_ws (ks_sk s) (qws_ws x))) =
      Some ((fs', mdb), err) \<Longrightarrow>
    plotter_step E s (s\<lparr>ks_sk := (set_db (qws_ws x) mdb (ks_sk s))\<lparr>sk_fs := fs'\<rparr>\<rparr>)"
| step_end: "ks_pc s = PWorking \<Longrightarrow> ks_pending s = [] \<Longrightarrow> poppedItem (sk_queue (ks_sk s)) = Some x \<Longrightarrow>
    mdb_wg (ws_db (the_ws (ks_sk s) (qws_ws x))) = 0 \<Longrightarrow>
    plotter_step E s (s\<lparr>ks_pc := PLoop, ks_sk := plotSpace_end (env_U E) x (ks_sk s)\<rparr>)"
| step_recv: "ks_pc s = PLoop \<Longrightarrow> prq_Empty (env_Q E) (pq_Prque (sk_queue (ks_sk s))) \<Longrightarrow>
    newQueuedWorkSpaceCh (ks_sk s) = x # xs \<Longrightarrow>
    plotter_step E s (s\<lparr>ks_pc := PAdd, ks_sk := queue_Push E x ((ks_sk s)\<lparr>newQueuedWorkSpaceCh := xs\<rparr>)\<rparr>)"
| step_drain: "ks_pc s = PAdd \<Longrightarrow> newQueuedWorkSpaceCh (ks_sk s) = x # xs \<Longrightarrow>
    plotter_step E s (s\<lparr>ks_sk := queue_Push E x ((ks_sk s)\<lparr>newQueuedWorkSpaceCh := xs\<rparr>)\<rparr>)"
| step_drained: "ks_pc s = PAdd \<Longrightarrow> newQueuedWorkSpaceCh (ks_sk s) = [] \<Longrightarrow>
    plotter_step E s (s\<lparr>ks_pc := PLoop\<rparr>)"

inductive keeper_step ::
  "('pk, 'q, 'w, 'sig) sk_env \<Rightarrow> ('pk, 'q, 'w) keeper_sys \<Rightarrow> ('pk, 'q, 'w) keeper_sys \<Rightarrow> bool" for E where
  step_act: "lock_free s act \<Longrightarrow> ActOnWorkSpace E (ks_sk s) sid act = Returns sk' err \<Longrightarrow>
    keeper_step E s (s\<lparr>ks_sk := sk'\<rparr>)"
| step_block: "lock_free s act \<Longrightarrow> ActOnWorkSpace E (ks_sk s) sid act = Blocks sk' \<Longrightarrow>
    index_Get (ks_sk s) Registered sid = Some r \<Longrightarrow>
    keeper_step E s (s\<lparr>ks_pending := ks_pending s @ [newQueuedWorkSpace r (act = Mine)]\<rparr>)"
| step_unblock: "ks_pending s = x # xs \<Longrightarrow> length (newQueuedWorkSpaceCh (ks_sk s)) < plotterMaxChanSize \<Longrightarrow>
    keeper_step E s (s\<lparr>ks_pending := xs, ks_sk := ch_append x (ks_sk s)\<rparr>)"
| step_plotter: "plotter_step E s s' \<Longrightarrow> keeper_step E s s'"

inductive_cases keeper_stepE: "keeper_step E s s'"

section \<open>What an action changes\<close>

definition stopped_db :: "('pk, 'q, 'w, 'sig) sk_env \<Rightarrow> 'pk massdbv1 \<Rightarrow> 'pk massdbv1 \<Rightarrow> bool" where
  "stopped_db E mdb mdb' \<longleftrightarrow>
     mdb' = mdb \<or> plotting mdb \<noteq> 0 \<and> (\<exists>fs mdb1. StopPlot_close mdb = Some mdb1 \<and> mdb' = snd (fst (plot_goroutine E fs mdb1)))"

definition popped_ws :: "('pk, 'q, 'w) spacekeeper \<Rightarrow> nat option" where
  "popped_ws sk = map_option qws_ws (poppedItem (sk_queue sk))"

definition act_effects ::
  "('pk, 'q, 'w, 'sig) sk_env \<Rightarrow> ('q \<Rightarrow> (qws \<times> int) multiset) \<Rightarrow> ('pk, 'q, 'w) spacekeeper
     \<Rightarrow> ('pk, 'q, 'w) spacekeeper \<Rightarrow> bool" where
  "act_effects E items sk sk' \<longleftrightarrow>
     popped_ws sk' = popped_ws sk \<and>
     items (pq_Prque (sk_queue sk')) \<subseteq># items (pq_Prque (sk_queue sk)) \<and>
     (newQueuedWorkSpaceCh sk' = newQueuedWorkSpaceCh sk \<or>
      (\<exists>sid r b. index_Get sk allState sid = Some r \<and>
         newQueuedWorkSpaceCh sk' = newQueuedWorkSpaceCh sk @ [newQueuedWorkSpace r b])) \<and>
     (\<forall>sid. index_Get sk' Plotting sid = index_Get sk Plotting sid) \<and>
     (\<forall>sid. index_Get sk' allState sid = None \<or> index_Get sk' allState sid = index_Get sk allState sid) \<and>
     (\<forall>r. stopped_db E (ws_db (the_ws sk r)) (ws_db (the_ws sk' r)))"

lemma act_effects_refl: "act_effects E items sk sk"
  by (simp add: act_effects_def stopped_db_def)

lemma popped_ws_simps [simp]:
  "popped_ws (set_popped_mining b sk) = popped_ws sk" "popped_ws (update_ws r f sk) = popped_ws sk"
  "popped_ws (sk\<lparr>sk_fs := fs\<rparr>) = popped_ws sk" "popped_ws (sk\<lparr>newQueuedWorkSpaceCh := ch\<rparr>) = popped_ws sk"
  "popped_ws (changeState r sid s s' sk) = popped_ws sk" "popped_ws (disuseWorkSpace U r sk) = popped_ws sk"
  "popped_ws (index_Delete st sid sk) = popped_ws sk"
  by (cases "poppedItem (sk_queue sk)"; simp add: popped_ws_def set_popped_mining_def)+

lemma set_popped_Prque [simp]: "pq_Prque (sk_queue (set_popped_mining b sk)) = pq_Prque (sk_queue sk)"
  by (simp add: set_popped_mining_def)

lemma queue_Delete_effects:
  assumes "prque_ok (env_Q E) items" "plotterQueue_Delete (env_Q E) f (sk_queue sk) sid = Some q"
  shows "popped_ws (sk\<lparr>sk_queue := q\<rparr>) = popped_ws sk" "items (pq_Prque q) \<subseteq># items (pq_Prque (sk_queue sk))"
    "poppedItem q = poppedItem (sk_queue sk)"
  using plotterQueue_Delete_items [OF assms(1), of f "sk_queue sk" sid] assms(2) by (auto simp: popped_ws_def)

lemma PlotWS_effects:
  assumes "index_ok (env_U E) sk" "PlotWS E sk sid = Returns sk' err"
  shows "act_effects E items sk sk'"
  using assms(2) index_okD(5) [OF assms(1), of Registered]
  by (force simp: PlotWS_def send_queued_def act_effects_def stopped_db_def split: option.splits if_splits)

lemma MineWS_effects:
  assumes ok: "index_ok (env_U E) sk" and r: "MineWS E sk sid = Returns sk' err"
  shows "act_effects E items sk sk'"
proof -
  have "act_effects E items sk (changeState ws sid Ready Mining sk)" for ws
    using index_okD(1) [OF ok]
    by (auto simp: act_effects_def index_Get_changeState the_ws_changeState stopped_db_def)
  with r index_okD(5) [OF ok, of Registered] show ?thesis
    by (force simp: MineWS_def send_queued_def act_effects_def stopped_db_def changeState_def [symmetric]
        split: option.splits if_splits)
qed

lemma act_effects_queue:
  assumes "prque_ok (env_Q E) items" "plotterQueue_Delete (env_Q E) f (sk_queue sk) sid = Some q"
    "act_effects E items (sk\<lparr>sk_queue := q\<rparr>) sk'"
  shows "act_effects E items sk sk'"
  using queue_Delete_effects [OF assms(1,2)] assms(3) subset_mset.order_trans
  by (auto simp: act_effects_def)

lemma StopPlot_wait_stopped:
  assumes "StopPlot_wait (plot_goroutine E) fs mdb = Some (fs', mdb')"
  shows "stopped_db E mdb mdb'"
  using assms by (auto simp: StopPlot_wait_def stopped_db_def MassDBV1_StopPlot_def split: if_splits) (metis snd_conv)

lemma StopWS_effects:
  assumes ok: "index_ok (env_U E) sk" and Q: "prque_ok (env_Q E) items" and r: "StopWS E sk sid = Returns sk' err"
  shows "act_effects E items sk sk'"
proof -
  have mv: "act_effects E items sk1 (changeState ws sid Mining Ready sk1)" if "index_ok (env_U E) sk1" for ws sk1
    using index_okD(1) [OF that]
    by (auto simp: act_effects_def index_Get_changeState the_ws_changeState stopped_db_def)
  have db: "act_effects E items sk1 (update_ws ws (\<lambda>_. the_ws sk1 ws\<lparr>ws_db := mdb\<rparr>) ((set_popped_mining False sk1)\<lparr>sk_fs := fs'\<rparr>))"
    if "StopPlot_wait (plot_goroutine E) (sk_fs sk1) (ws_db (the_ws sk1 ws)) = Some (fs', mdb)" for sk1 ws fs' mdb
    using StopPlot_wait_stopped [OF that]
    by (auto simp: act_effects_def the_ws_update_ws stopped_db_def)
  note db1 = db [where ?sk1.0 = "sk\<lparr>sk_queue := q\<rparr>" for q, simplified]
  from r show ?thesis
    using ok
    by (auto simp: StopWS_def ws_StopPlot_def changeState_def [symmetric] Let_def
        intro: act_effects_refl act_effects_queue [OF Q _ act_effects_refl] act_effects_queue [OF Q _ db1]
          act_effects_queue [OF Q _ mv]
        split: option.splits if_splits)
qed

lemma RemoveWS_effects:
  assumes ok: "index_ok (env_U E) sk" and Q: "prque_ok (env_Q E) items" and r: "RemoveWS E sk sid = Returns sk' err"
  shows "act_effects E items sk sk'"
proof -
  have d: "act_effects E items sk1 (disuseWorkSpace (env_U E) ws sk1)" for ws sk1
    by (auto simp: act_effects_def the_ws_disuse stopped_db_def)
  from r show ?thesis
    by (auto simp: RemoveWS_def Let_def
        intro: act_effects_refl act_effects_queue [OF Q _ act_effects_refl] act_effects_queue [OF Q _ d]
        split: option.splits if_splits)
qed

lemma unindex_effects:
  assumes ok: "index_ok (env_U E) sk" and g: "index_Get sk s sid = Some ws" "State_IsValid s" "s \<noteq> Plotting"
  shows "act_effects E items sk (unindex (env_U E) sid ws sk)"
proof -
  have a: "index_Get sk allState sid = Some ws" "ws_state (the_ws sk ws) = s"
    using index_okD(5) [OF ok g(2,1)] by auto
  have "index_Get sk Plotting sid = None" using index_ok_None [OF ok a(1), of Plotting] a(2) g(3) by simp
  then have "index_Get (unindex (env_U E) sid ws sk) Plotting x = index_Get sk Plotting x" for x
    by (simp add: index_Get_unindex [OF ok a(1)])
  then show ?thesis
    unfolding act_effects_def using index_Get_unindex [OF ok a(1)]
    by (auto simp: unindex_def the_ws_disuse stopped_db_def)
qed

lemma DeleteWS_effects:
  assumes ok: "index_ok (env_U E) sk" and Q: "prque_ok (env_Q E) items" and r: "DeleteWS E sk sid = Returns sk' err"
  shows "act_effects E items sk sk'"
proof -
  have fs: "act_effects E items sk1 (sk2\<lparr>sk_fs := fs\<rparr>) \<longleftrightarrow> act_effects E items sk1 sk2" for sk1 sk2 fs
    by (simp add: act_effects_def)
  have d: "act_effects E items (sk\<lparr>sk_queue := q\<rparr>) (unindex (env_U E) sid ws (sk\<lparr>sk_queue := q\<rparr>))"
    if "index_Get sk s sid = Some ws" "State_IsValid s" "s \<noteq> Plotting" for q s ws
    using unindex_effects [of E "sk\<lparr>sk_queue := q\<rparr>"] ok that by simp
  from r show ?thesis
    by (auto simp: DeleteWS_def delete_ws_unindex fs Let_def
        intro: act_effects_refl act_effects_queue [OF Q _ act_effects_refl]
          act_effects_queue [OF Q _ d [where s = Registered, simplified]]
          act_effects_queue [OF Q _ d [where s = Ready, simplified]]
        split: option.splits if_splits prod.splits)
qed

lemma ActOnWorkSpace_effects:
  assumes ok: "index_ok (env_U E) sk" and Q: "prque_ok (env_Q E) items"
    and r: "ActOnWorkSpace E sk sid act = Returns sk' err"
  shows "act_effects E items sk sk'" "only_touches (env_U E) act sid sk sk'"
proof -
  show "act_effects E items sk sk'"
    using r PlotWS_effects [OF ok] MineWS_effects [OF ok] StopWS_effects [OF ok Q] RemoveWS_effects [OF ok Q]
      DeleteWS_effects [OF ok Q] act_effects_refl
    by (auto simp: ActOnWorkSpace_def split: if_splits)
  show "only_touches (env_U E) act sid sk sk'"
    using r plot.touches [OF ok] mine.touches [OF ok] stop.touches [OF ok] remove.touches [OF ok]
      delete.touches [OF ok] only_touches_refl [OF ok]
    by (auto simp: ActOnWorkSpace_def split: if_splits)
qed

section \<open>The invariant of the system\<close>

text \<open>A reference the plotter may meet: its identifier is not indexed, or indexed with it.\<close>

definition known :: "'pk pocutil \<Rightarrow> ('pk, 'q, 'w) spacekeeper \<Rightarrow> nat \<Rightarrow> bool" where
  "known U sk r \<longleftrightarrow>
     r < length (sk_heap sk) \<and> (index_Get sk allState (sid_of U sk r) = None \<or> index_Get sk allState (sid_of U sk r) = Some r)"

text \<open>A database at rest, and one with a goroutine that plots it.\<close>

definition db_idle :: "'pk massdbv1 \<Rightarrow> bool" where
  "db_idle mdb \<longleftrightarrow> plotting mdb = 0 \<and> mdb_wg mdb = 0"

definition db_running :: "'pk massdbv1 \<Rightarrow> bool" where
  "db_running mdb \<longleftrightarrow> plotting mdb = 1 \<and> mdb_wg mdb = 1 \<and> stopPlotCh mdb = ChOpen"

definition sys_inv ::
  "('pk, 'q, 'w, 'sig) sk_env \<Rightarrow> ('q \<Rightarrow> (qws \<times> int) multiset) \<Rightarrow> ('pk, 'q, 'w) keeper_sys \<Rightarrow> bool" where
  "sys_inv E items s \<longleftrightarrow>
     (let sk = ks_sk s; U = env_U E in
      index_ok U sk \<and>
      (\<forall>x \<in> set (newQueuedWorkSpaceCh sk) \<union> set (ks_pending s) \<union> fst ` set_mset (items (pq_Prque (sk_queue sk))).
         known U sk (qws_ws x)) \<and>
      (\<forall>r. popped_ws sk = Some r \<longrightarrow> known U sk r) \<and>
      (ks_pc s = PPopped \<or> ks_pc s = PWorking \<longrightarrow> popped_ws sk \<noteq> None) \<and>
      (\<forall>sid r. index_Get sk Plotting sid = Some r \<longleftrightarrow>
         ks_pc s = PWorking \<and> popped_ws sk = Some r \<and> sid = sid_of U sk r) \<and>
      (\<forall>r < length (sk_heap sk).
         db_idle (ws_db (the_ws sk r)) \<or> db_running (ws_db (the_ws sk r)) \<and> ks_pc s = PWorking \<and> popped_ws sk = Some r) \<and>
      (\<forall>sid r. index_Get sk Registered sid = Some r \<longrightarrow> HashMapA (ws_db (the_ws sk r)) \<noteq> None))"

lemma sys_invD:
  assumes "sys_inv E items s"
  shows "index_ok (env_U E) (ks_sk s)"
    "x \<in> set (newQueuedWorkSpaceCh (ks_sk s)) \<Longrightarrow> known (env_U E) (ks_sk s) (qws_ws x)"
    "x \<in> set (ks_pending s) \<Longrightarrow> known (env_U E) (ks_sk s) (qws_ws x)"
    "(x, p) \<in># items (pq_Prque (sk_queue (ks_sk s))) \<Longrightarrow> known (env_U E) (ks_sk s) (qws_ws x)"
    "popped_ws (ks_sk s) = Some r \<Longrightarrow> known (env_U E) (ks_sk s) r"
    "ks_pc s = PPopped \<or> ks_pc s = PWorking \<Longrightarrow> popped_ws (ks_sk s) \<noteq> None"
    "index_Get (ks_sk s) Plotting sid = Some r \<longleftrightarrow>
       ks_pc s = PWorking \<and> popped_ws (ks_sk s) = Some r \<and> sid = sid_of (env_U E) (ks_sk s) r"
    "r < length (sk_heap (ks_sk s)) \<Longrightarrow> db_idle (ws_db (the_ws (ks_sk s) r)) \<or>
       db_running (ws_db (the_ws (ks_sk s) r)) \<and> ks_pc s = PWorking \<and> popped_ws (ks_sk s) = Some r"
    "index_Get (ks_sk s) Registered sid = Some r \<Longrightarrow> HashMapA (ws_db (the_ws (ks_sk s) r)) \<noteq> None"
  using assms by (auto simp add: sys_inv_def Let_def ball_Un)

lemma executePlot_idle:
  assumes "executePlot U F E1 E2 fuel fs mdb = Some ((fs', mdb'), r)" "mdb_wg mdb \<le> 1"
  shows "db_idle mdb'"
  using executePlot_flags [OF assms(1)] assms(2) by (simp add: db_idle_def)

lemma goroutine_idle:
  assumes "goroutine_ok E" "StopPlot_close mdb = Some mdb1" "mdb_wg mdb \<le> 1"
  shows "db_idle (snd (fst (plot_goroutine E fs mdb1)))"
proof -
  obtain E1 E2 fuel where "executePlot (env_U E) (env_F E) E1 E2 fuel fs mdb1 = Some (plot_goroutine E fs mdb1)"
    using assms(1) unfolding goroutine_ok_def by blast
  moreover have "mdb_wg mdb1 \<le> 1" using assms(2,3) by (auto simp: StopPlot_close_def split: if_splits)
  ultimately show ?thesis by (metis executePlot_idle prod.collapse)
qed

lemma known_mono:
  assumes "known U sk r" "length (sk_heap sk') = length (sk_heap sk)" "sid_of U sk' = sid_of U sk"
    "\<And>sid. index_Get sk' allState sid = None \<or> index_Get sk' allState sid = index_Get sk allState sid"
  shows "known U sk' r"
  using assms unfolding known_def by metis

lemma known_indexed:
  "index_ok U sk \<Longrightarrow> State_IsValid st \<Longrightarrow> index_Get sk st sid = Some r \<Longrightarrow> known U sk r"
  using index_okD(2,3,5) by (metis known_def)

lemma inv_act:
  assumes I: "sys_inv E items s" and g: "goroutine_ok E"
    and t: "only_touches (env_U E) act sid (ks_sk s) sk'" and e: "act_effects E items (ks_sk s) sk'"
  shows "sys_inv E items (s\<lparr>ks_sk := sk'\<rparr>)"
proof -
  let ?sk = "ks_sk s" and ?U = "env_U E"
  note D = sys_invD [OF I]
  have t': "index_ok ?U sk'" "length (sk_heap sk') = length (sk_heap ?sk)" "sid_of ?U sk' = sid_of ?U ?sk"
    "\<And>r. state_moves act (ws_state (the_ws ?sk r)) (ws_state (the_ws sk' r))"
    using t by (auto simp: only_touches_def)
  have e': "popped_ws sk' = popped_ws ?sk" "items (pq_Prque (sk_queue sk')) \<subseteq># items (pq_Prque (sk_queue ?sk))"
    "\<And>sid. index_Get sk' Plotting sid = index_Get ?sk Plotting sid"
    "\<And>sid. index_Get sk' allState sid = None \<or> index_Get sk' allState sid = index_Get ?sk allState sid"
    "\<And>r. stopped_db E (ws_db (the_ws ?sk r)) (ws_db (the_ws sk' r))"
    using e by (auto simp: act_effects_def)
  have k: "known ?U sk' r" if "known ?U ?sk r" for r
    by (rule known_mono [OF that t'(2,3) e'(4)])
  have ch: "known ?U ?sk (qws_ws x)" if x: "x \<in> set (newQueuedWorkSpaceCh sk')" for x
  proof -
    have "x \<in> set (newQueuedWorkSpaceCh ?sk) \<or> (\<exists>sid r b. index_Get ?sk allState sid = Some r \<and> x = newQueuedWorkSpace r b)"
      using x e by (auto simp: act_effects_def)
    then show ?thesis
      using D(2) index_okD(2,3) [OF D(1)] by (auto simp: newQueuedWorkSpace_def known_def)
  qed
  have q: "known ?U ?sk (qws_ws x)" if "(x, p) \<in># items (pq_Prque (sk_queue sk'))" for x p
    using D(4) mset_subset_eqD [OF e'(2) that] by blast
  have db: "db_idle (ws_db (the_ws sk' r)) \<or> db_running (ws_db (the_ws sk' r)) \<and> ks_pc s = PWorking \<and> popped_ws ?sk = Some r"
    if r: "r < length (sk_heap ?sk)" for r
  proof -
    have "mdb_wg (ws_db (the_ws ?sk r)) \<le> 1" using D(8) [OF r] by (auto simp: db_idle_def db_running_def)
    then show ?thesis
      using D(8) [OF r] e'(5) [of r] goroutine_idle [OF g] by (auto simp: stopped_db_def)
  qed
  have reg: "HashMapA (ws_db (the_ws sk' r)) \<noteq> None" if a: "index_Get sk' Registered x = Some r" for x r
  proof -
    have "index_Get sk' allState x = Some r" "ws_state (the_ws sk' r) = Registered"
      using index_okD(5) [OF t'(1) _ a] by auto
    then have a': "index_Get ?sk allState x = Some r" "ws_state (the_ws ?sk r) = Registered"
      using e'(4) [of x] t'(4) [of r] by (auto simp: state_moves_def)
    then have "index_Get ?sk Registered x = Some r" using index_okD(6) [OF D(1) a'(1)] by simp
    moreover have "\<not> (popped_ws ?sk = Some r \<and> ks_pc s = PWorking)"
      using D(7) [of "sid_of ?U ?sk r" r] index_okD(5) [OF D(1), of Plotting] a'(2) by auto
    then have "db_idle (ws_db (the_ws ?sk r))" using D(8) [OF index_okD(2) [OF D(1) a'(1)]] by blast
    then have "ws_db (the_ws sk' r) = ws_db (the_ws ?sk r)" using e'(5) [of r] by (auto simp: stopped_db_def db_idle_def)
    ultimately show ?thesis using D(9) by simp
  qed
  show ?thesis
    unfolding sys_inv_def Let_def
    using t'(1,2) e'(1,3) D(3,5,6,7) t'(3) k ch q db reg by auto
qed

lemma inv_pending:
  assumes I: "sys_inv E items s" and r: "index_Get (ks_sk s) Registered sid = Some r"
  shows "sys_inv E items (s\<lparr>ks_pending := ks_pending s @ [newQueuedWorkSpace r b]\<rparr>)"
proof -
  have "known (env_U E) (ks_sk s) r" by (rule known_indexed [OF sys_invD(1) [OF I] _ r]) simp
  with I show ?thesis by (simp add: sys_inv_def Let_def newQueuedWorkSpace_def)
qed

lemma ch_append_simps [simp]:
  "index_ok U (ch_append x sk) \<longleftrightarrow> index_ok U sk" "index_Get (ch_append x sk) = index_Get sk"
  "sid_of U (ch_append x sk) = sid_of U sk" "popped_ws (ch_append x sk) = popped_ws sk"
  "sk_heap (ch_append x sk) = sk_heap sk" "sk_queue (ch_append x sk) = sk_queue sk" "known U (ch_append x sk) = known U sk"
  "newQueuedWorkSpaceCh (ch_append x sk) = newQueuedWorkSpaceCh sk @ [x]"
  by (simp_all add: ch_append_def fun_eq_iff known_def)

lemma inv_unblock:
  assumes I: "sys_inv E items s" and x: "ks_pending s = x # xs"
  shows "sys_inv E items (s\<lparr>ks_pending := xs, ks_sk := ch_append x (ks_sk s)\<rparr>)"
  using I x unfolding sys_inv_def Let_def by simp

lemma queue_updates [simp]:
  "known U (sk\<lparr>sk_queue := q\<rparr>) = known U sk" "known U (sk\<lparr>newQueuedWorkSpaceCh := ch\<rparr>) = known U sk"
  by (simp_all add: fun_eq_iff known_def)

lemma inv_pop:
  assumes I: "sys_inv E items s" and Q: "prque_ok (env_Q E) items" and pc: "ks_pc s = PLoop"
    and p: "plotterQueue_PopItem (env_Q E) (sk_queue (ks_sk s)) = Some (q, x)"
  shows "sys_inv E items (s\<lparr>ks_pc := PPopped, ks_sk := (ks_sk s)\<lparr>sk_queue := q\<rparr>\<rparr>)"
proof -
  obtain q' pr where P: "prq_Pop (env_Q E) (pq_Prque (sk_queue (ks_sk s))) = Some (q', x, pr)"
    "q = (sk_queue (ks_sk s))\<lparr>pq_Prque := q', poppedItem := Some x\<rparr>"
    using p by (auto simp: plotterQueue_PopItem_def prque_okD(6) [OF Q] split: option.splits)
  then have it: "items (pq_Prque (sk_queue (ks_sk s))) = add_mset (x, pr) (items q')"
    using Q unfolding prque_ok_def by blast
  have pw: "popped_ws ((ks_sk s)\<lparr>sk_queue := q\<rparr>) = Some (qws_ws x)" by (simp add: popped_ws_def P)
  show ?thesis
    using I pc unfolding sys_inv_def Let_def by (simp add: pw) (simp add: P it)
qed

lemma queue_Push_simps [simp]:
  "index_ok U (queue_Push E x sk) \<longleftrightarrow> index_ok U sk" "index_Get (queue_Push E x sk) = index_Get sk"
  "sid_of U (queue_Push E x sk) = sid_of U sk" "popped_ws (queue_Push E x sk) = popped_ws sk"
  "sk_heap (queue_Push E x sk) = sk_heap sk" "newQueuedWorkSpaceCh (queue_Push E x sk) = newQueuedWorkSpaceCh sk"
  "known U (queue_Push E x sk) = known U sk"
  by (simp_all add: queue_Push_def popped_ws_def plotterQueue_Push_def)

lemma inv_push:
  assumes I: "sys_inv E items s" and Q: "prque_ok (env_Q E) items" and x: "newQueuedWorkSpaceCh (ks_sk s) = x # xs"
    and pc: "ks_pc s = PLoop \<or> ks_pc s = PAdd"
  shows "sys_inv E items (s\<lparr>ks_pc := PAdd, ks_sk := queue_Push E x ((ks_sk s)\<lparr>newQueuedWorkSpaceCh := xs\<rparr>)\<rparr>)"
proof -
  have "items (pq_Prque (sk_queue (queue_Push E x ((ks_sk s)\<lparr>newQueuedWorkSpaceCh := xs\<rparr>)))) =
      add_mset (x, ws_priority (sk_heap (ks_sk s)) (qws_ws x)) (items (pq_Prque (sk_queue (ks_sk s))))"
    by (simp add: queue_Push_def plotterQueue_Push_def prque_okD [OF Q])
  with I pc x show ?thesis unfolding sys_inv_def Let_def by auto
qed

lemma set_db_simps [simp]:
  "index_Get (set_db r mdb sk) = index_Get sk" "popped_ws (set_db r mdb sk) = popped_ws sk"
  "length (sk_heap (set_db r mdb sk)) = length (sk_heap sk)" "sk_queue (set_db r mdb sk) = sk_queue sk"
  "newQueuedWorkSpaceCh (set_db r mdb sk) = newQueuedWorkSpaceCh sk" "sid_of U (set_db r mdb sk) = sid_of U sk"
  "known U (set_db r mdb sk) = known U sk" "index_ok U sk \<Longrightarrow> index_ok U (set_db r mdb sk)"
  "known U (sk\<lparr>sk_fs := fs\<rparr>) = known U sk"
  by (auto simp: set_db_def fun_eq_iff known_def sid_of_def the_ws_update_ws index_ok_update_db)

lemma the_ws_set_db:
  "the_ws (set_db r mdb sk) q = (if q = r \<and> r < length (sk_heap sk) then the_ws sk r\<lparr>ws_db := mdb\<rparr> else the_ws sk q)"
  by (simp add: set_db_def the_ws_update_ws)

text \<open>Step 1 finds its own work space in the index.\<close>

lemma known_index:
  assumes "index_ok U sk" "known U sk r" "State_IsValid st" "index_Get sk st (sid_of U sk r) \<noteq> None"
  shows "index_Get sk st (sid_of U sk r) = Some r"
  using assms index_okD(5) [OF assms(1,3), of "sid_of U sk r"] by (auto simp: known_def)

lemma known_changeState [simp]:
  assumes "index_ok U sk" "State_IsValid st" "State_IsValid st'"
  shows "known U (changeState r sid st st' sk) = known U sk"
proof -
  have "index_Get (changeState r sid st st' sk) allState = index_Get sk allState"
    using assms(2,3) valid_not_all by (auto simp: fun_eq_iff index_Get_changeState [OF index_okD(1) [OF assms(1)] assms(2,3)])
  then show ?thesis by (simp add: fun_eq_iff known_def)
qed

lemma inv_begin:
  assumes I: "sys_inv E items s" and pc: "ks_pc s = PPopped" and x: "poppedItem (sk_queue (ks_sk s)) = Some x"
    and b: "plotSpace_begin (env_U E) x (ks_sk s) = (sk', True)"
    and m: "MassDBV1_Plot (ws_db (the_ws sk' (qws_ws x))) = (mdb, res)"
  shows "sys_inv E items (s\<lparr>ks_pc := PWorking, ks_sk := set_db (qws_ws x) mdb sk'\<rparr>)"
proof -
  let ?sk = "ks_sk s" and ?U = "env_U E" and ?r = "qws_ws x"
  let ?sid = "sid_of ?U ?sk ?r"
  note D = sys_invD [OF I]
  have p: "popped_ws ?sk = Some ?r" by (simp add: popped_ws_def x)
  have r: "?r < length (sk_heap ?sk)" using D(5) [OF p] by (simp add: known_def)
  have g: "index_Get ?sk Registered ?sid = Some ?r" and sk': "sk' = changeState ?r ?sid Registered Plotting ?sk"
    using b known_index [OF D(1) D(5) [OF p], of Registered] by (auto simp: plotSpace_begin_def Let_def split: if_splits)
  have idle: "db_idle (ws_db (the_ws ?sk q))" if "q < length (sk_heap ?sk)" for q using D(8) [OF that] pc by simp
  have "MassDBV1_Plot (ws_db (the_ws ?sk ?r)) = (mdb, res)" using m r by (simp add: sk' the_ws_changeState)
  then have run: "db_running mdb"
    using D(9) [OF g] idle [OF r] by (auto simp: MassDBV1_Plot_def db_idle_def db_running_def split: option.splits)
  have G: "index_Get sk' t y = (if t = Plotting \<and> y = ?sid then Some ?r else if t = Registered \<and> y = ?sid then None else index_Get ?sk t y)" for t y
    unfolding sk' by (rule index_Get_changeState [OF index_okD(1) [OF D(1)]]) simp_all
  have noplot: "index_Get ?sk Plotting y = None" for y using D(7) [of y] pc by (cases "index_Get ?sk Plotting y") auto
  have ok: "index_ok ?U sk'" unfolding sk' by (rule changeState_ok [OF D(1) g]) simp_all
  have db: "ws_db (the_ws (set_db ?r mdb sk') q) = (if q = ?r then mdb else ws_db (the_ws ?sk q))" for q
    using r by (simp add: the_ws_set_db sk' the_ws_changeState)
  have reg: "HashMapA (ws_db (the_ws (set_db ?r mdb sk') q)) \<noteq> None" if a: "index_Get sk' Registered y = Some q" for y q
  proof -
    from a have a': "index_Get ?sk Registered y = Some q" and y: "y \<noteq> ?sid" by (auto simp: G split: if_splits)
    with index_okD(3,5) [OF D(1)] have "q \<noteq> ?r" by (metis valid_states(1))
    with D(9) [OF a'] show ?thesis by (simp add: db)
  qed
  have simps: "popped_ws sk' = Some ?r" "sid_of ?U sk' = sid_of ?U ?sk" "length (sk_heap sk') = length (sk_heap ?sk)"
    "known ?U sk' = known ?U ?sk" "newQueuedWorkSpaceCh sk' = newQueuedWorkSpaceCh ?sk" "sk_queue sk' = sk_queue ?sk"
    using p D(1) by (simp_all add: sk')
  have "db_idle (ws_db (the_ws (set_db ?r mdb sk') q)) \<or> db_running (ws_db (the_ws (set_db ?r mdb sk') q)) \<and> Some ?r = Some q"
    if "q < length (sk_heap ?sk)" for q using run idle [OF that] by (auto simp: db)
  then show ?thesis
    unfolding sys_inv_def Let_def
    using ok D(2-5) p noplot reg by (auto simp: simps G)
qed

lemma inv_skip:
  assumes I: "sys_inv E items s" and pc: "ks_pc s = PPopped" and x: "poppedItem (sk_queue (ks_sk s)) = Some x"
    and b: "plotSpace_begin (env_U E) x (ks_sk s) = (sk', False)"
  shows "sys_inv E items (s\<lparr>ks_pc := PLoop, ks_sk := sk'\<rparr>)"
proof -
  let ?sk = "ks_sk s" and ?U = "env_U E" and ?r = "qws_ws x"
  let ?sid = "sid_of ?U ?sk ?r"
  note D = sys_invD [OF I]
  have p: "popped_ws ?sk = Some ?r" by (simp add: popped_ws_def x)
  have r: "?r < length (sk_heap ?sk)" using D(5) [OF p] by (simp add: known_def)
  have idle: "db_idle (ws_db (the_ws ?sk q))" if "q < length (sk_heap ?sk)" for q using D(8) [OF that] pc by simp
  have noplot: "index_Get ?sk Plotting y = None" for y using D(7) [of y] pc by (cases "index_Get ?sk Plotting y") auto
  from b have "sk' = ?sk \<or> sk' = changeState ?r ?sid Ready Mining ?sk \<and> index_Get ?sk Ready ?sid = Some ?r"
    using known_index [OF D(1) D(5) [OF p], of Ready] by (auto simp: plotSpace_begin_def Let_def split: if_splits)
  then show ?thesis
  proof
    assume "sk' = ?sk"
    with I pc noplot idle show ?thesis unfolding sys_inv_def Let_def by auto
  next
    assume "sk' = changeState ?r ?sid Ready Mining ?sk \<and> index_Get ?sk Ready ?sid = Some ?r"
    then have sk': "sk' = changeState ?r ?sid Ready Mining ?sk" and g: "index_Get ?sk Ready ?sid = Some ?r" by auto
    have G: "index_Get sk' t y = (if t = Mining \<and> y = ?sid then Some ?r else if t = Ready \<and> y = ?sid then None else index_Get ?sk t y)" for t y
      unfolding sk' by (rule index_Get_changeState [OF index_okD(1) [OF D(1)]]) simp_all
    have ok: "index_ok ?U sk'" unfolding sk' by (rule changeState_ok [OF D(1) g]) simp_all
    have db: "ws_db (the_ws sk' q) = ws_db (the_ws ?sk q)" for q by (simp add: sk' the_ws_changeState)
    have simps: "popped_ws sk' = Some ?r" "sid_of ?U sk' = sid_of ?U ?sk" "length (sk_heap sk') = length (sk_heap ?sk)"
      "known ?U sk' = known ?U ?sk" "newQueuedWorkSpaceCh sk' = newQueuedWorkSpaceCh ?sk" "sk_queue sk' = sk_queue ?sk"
      using p D(1) by (simp_all add: sk')
    show ?thesis
      unfolding sys_inv_def Let_def using ok D(2-5,9) p noplot idle by (auto simp: simps G db)
  qed
qed

lemma inv_run:
  assumes I: "sys_inv E items s" and pc: "ks_pc s = PWorking" and x: "poppedItem (sk_queue (ks_sk s)) = Some x"
    and r: "executePlot (env_U E) (env_F E) E1 E2 fuel (sk_fs (ks_sk s)) (ws_db (the_ws (ks_sk s) (qws_ws x))) =
      Some ((fs', mdb), err)"
  shows "sys_inv E items (s\<lparr>ks_sk := (set_db (qws_ws x) mdb (ks_sk s))\<lparr>sk_fs := fs'\<rparr>\<rparr>)"
proof -
  let ?sk = "ks_sk s" and ?U = "env_U E" and ?r = "qws_ws x"
  note D = sys_invD [OF I]
  have p: "popped_ws ?sk = Some ?r" by (simp add: popped_ws_def x)
  have rl: "?r < length (sk_heap ?sk)" using D(5) [OF p] by (simp add: known_def)
  have idle: "db_idle mdb"
    using D(8) [OF rl] by (intro executePlot_idle [OF r]) (auto simp: db_idle_def db_running_def)
  have plot: "index_Get ?sk Plotting (sid_of ?U ?sk ?r) = Some ?r" using D(7) pc p by simp
  have db: "ws_db (the_ws (set_db ?r mdb ?sk) q) = (if q = ?r then mdb else ws_db (the_ws ?sk q))" for q
    using rl by (simp add: the_ws_set_db)
  have reg: "q \<noteq> ?r" if "index_Get ?sk Registered y = Some q" for y q
    using index_okD(5) [OF D(1) _ that] index_okD(5) [OF D(1) _ plot] by auto
  show ?thesis
    using I idle reg unfolding sys_inv_def Let_def by (auto simp: db)
qed

lemma below_100_HashMapA: "progress_below_100 (ws_Progress ws) \<Longrightarrow> HashMapA (ws_db ws) \<noteq> None"
  by (cases "HashMapA (ws_db ws)") (simp_all add: ws_Progress_def MassDBV1_Progress_def progress_below_100_def)

lemma inv_end:
  assumes I: "sys_inv E items s" and pc: "ks_pc s = PWorking" and x: "poppedItem (sk_queue (ks_sk s)) = Some x"
    and w: "mdb_wg (ws_db (the_ws (ks_sk s) (qws_ws x))) = 0"
  shows "sys_inv E items (s\<lparr>ks_pc := PLoop, ks_sk := plotSpace_end (env_U E) x (ks_sk s)\<rparr>)"
proof -
  let ?sk = "ks_sk s" and ?U = "env_U E" and ?r = "qws_ws x"
  let ?sid = "sid_of ?U ?sk ?r"
  note D = sys_invD [OF I]
  have p: "popped_ws ?sk = Some ?r" by (simp add: popped_ws_def x)
  have rl: "?r < length (sk_heap ?sk)" using D(5) [OF p] by (simp add: known_def)
  have g: "index_Get ?sk Plotting ?sid = Some ?r" using D(7) pc p by simp
  have idle: "db_idle (ws_db (the_ws ?sk q))" if "q < length (sk_heap ?sk)" for q
    using D(8) [OF that] w p by (auto simp: db_running_def)
  define st where "st = (if progress_below_100 (ws_Progress (the_ws ?sk ?r)) then Registered else if wouldMining x then Mining else Ready)"
  have sk': "plotSpace_end ?U x ?sk = changeState ?r ?sid Plotting st ?sk" and st: "State_IsValid st" "st \<noteq> Plotting"
    and A: "st = Registered \<longrightarrow> HashMapA (ws_db (the_ws ?sk ?r)) \<noteq> None"
    using below_100_HashMapA [of "the_ws ?sk ?r"] by (auto simp: plotSpace_end_def Let_def st_def)
  have G: "index_Get (changeState ?r ?sid Plotting st ?sk) t y = (if t = st \<and> y = ?sid then Some ?r else if t = Plotting \<and> y = ?sid then None else index_Get ?sk t y)" for t y
    by (rule index_Get_changeState [OF index_okD(1) [OF D(1)]]) (simp_all add: st)
  have ok: "index_ok ?U (changeState ?r ?sid Plotting st ?sk)" using st by (intro changeState_ok [OF D(1) g]) auto
  have "index_Get ?sk Plotting y = None" if "y \<noteq> ?sid" for y
    using that D(7) p by (metis not_None_eq option.inject)
  then have noplot: "index_Get (changeState ?r ?sid Plotting st ?sk) Plotting y = None" for y
    using st(2) by (simp add: G)
  have db: "ws_db (the_ws (changeState ?r ?sid Plotting st ?sk) q) = ws_db (the_ws ?sk q)" for q by (simp add: the_ws_changeState)
  have reg: "HashMapA (ws_db (the_ws ?sk q)) \<noteq> None"
    if "index_Get (changeState ?r ?sid Plotting st ?sk) Registered y = Some q" for y q
    using that A D(9) [of y q] by (auto simp: G split: if_splits)
  have k: "known ?U (changeState ?r ?sid Plotting st ?sk) = known ?U ?sk" using D(1) st(1) by simp
  show ?thesis
    unfolding sys_inv_def Let_def sk' using ok D(2-5) p noplot idle reg by (auto simp: k db)
qed

lemma sys_inv_plotter:
  assumes Q: "prque_ok (env_Q E) items"
  shows "plotter_step E s s' \<Longrightarrow> sys_inv E items s \<Longrightarrow> sys_inv E items s'"
proof (induction rule: plotter_step.induct)
  case (step_drain s x xs)
  then show ?case using inv_push [OF step_drain(3) Q step_drain(2)] by (cases s) simp
next
  case (step_drained s)
  then show ?case by (auto simp: sys_inv_def Let_def)
qed (auto intro: inv_pop [OF _ Q] inv_begin inv_skip inv_run inv_end inv_push [OF _ Q])

lemma sys_inv_step:
  assumes Q: "prque_ok (env_Q E) items" and g: "goroutine_ok E"
  shows "keeper_step E s s' \<Longrightarrow> sys_inv E items s \<Longrightarrow> sys_inv E items s'"
proof (induction rule: keeper_step.induct)
  case (step_act s act sid sk' err)
  then show ?case using ActOnWorkSpace_effects [OF sys_invD(1) Q] inv_act [OF _ g] by blast
qed (auto intro: inv_pending inv_unblock sys_inv_plotter [OF Q])

lemma sys_inv_steps:
  "(keeper_step E)\<^sup>*\<^sup>* s s' \<Longrightarrow> prque_ok (env_Q E) items \<Longrightarrow> goroutine_ok E \<Longrightarrow> sys_inv E items s \<Longrightarrow> sys_inv E items s'"
  by (induction rule: rtranclp_induct) (auto intro: sys_inv_step)

section \<open>What the invariant gives\<close>

lemma action_valid: "Action_IsValid act \<longleftrightarrow> act = Plot \<or> act = Mine \<or> act = Stop \<or> act = Remove \<or> act = Delete"
  using Action_IsValid_iff by auto

text \<open>
  While a space is in state plotting, the popped item of the queue is that space.
\<close>

lemma inv_popped:
  assumes "sys_inv E items s" "index_Get (ks_sk s) Plotting sid \<noteq> None"
  obtains x where "poppedItem (sk_queue (ks_sk s)) = Some x" "index_Get (ks_sk s) Plotting sid = Some (qws_ws x)"
    "sid_of (env_U E) (ks_sk s) (qws_ws x) = sid" "ks_pc s = PWorking"
proof -
  obtain r where r: "index_Get (ks_sk s) Plotting sid = Some r" using assms(2) by auto
  with sys_invD(7) [OF assms(1)] have "ks_pc s = PWorking" "popped_ws (ks_sk s) = Some r" "sid = sid_of (env_U E) (ks_sk s) r"
    by auto
  with r that show thesis by (auto simp: popped_ws_def)
qed

lemma inv_StopPlot:
  assumes I: "sys_inv E items s" and r: "r < length (sk_heap (ks_sk s))"
  shows "StopPlot_wait (plot_goroutine E) fs (ws_db (the_ws (ks_sk s) r)) \<noteq> None"
  using sys_invD(8) [OF I r]
  by (auto simp: StopPlot_wait_def MassDBV1_StopPlot_def StopPlot_close_def db_idle_def db_running_def)

lemma no_spurious_errors:
  assumes I: "sys_inv E items s" and Q: "prque_ok (env_Q E) items"
  shows "ActOnWorkSpace E (ks_sk s) sid act \<noteq> Panics \<and>
    (\<forall>sk'. ActOnWorkSpace E (ks_sk s) sid act \<noteq> Returns sk' (Some ErrWorkSpaceIsNotPlotting))"
proof -
  let ?sk = "ks_sk s" and ?U = "env_U E"
  obtain q where q: "plotterQueue_Delete (env_Q E) (sid_of ?U ?sk) (sk_queue ?sk) sid = Some q"
    "poppedItem q = poppedItem (sk_queue ?sk)"
    using plotterQueue_Delete_items [OF Q] by blast
  have del: "delete_ws E sid ws sk1 \<noteq> Panics" "delete_ws E sid ws sk1 \<noteq> Returns sk' (Some ErrWorkSpaceIsNotPlotting)" for ws sk1 sk'
    by (auto simp: delete_ws_def ws_Delete_def Let_def split: prod.splits)
  show ?thesis
  proof (cases "index_Get ?sk Plotting sid")
    case None
    then show ?thesis
      using q del
      by (auto simp: ActOnWorkSpace_def PlotWS_def MineWS_def StopWS_def RemoveWS_def DeleteWS_def send_queued_def Let_def
          split: option.splits if_splits)
  next
    case (Some r)
    obtain x where x: "poppedItem (sk_queue ?sk) = Some x" "r = qws_ws x" "sid_of ?U ?sk (qws_ws x) = sid"
      using inv_popped [OF I] Some by (metis option.distinct(1) option.inject)
    have "r < length (sk_heap ?sk)"
      using index_okD(2,5) [OF sys_invD(1) [OF I]] Some by (metis valid_states(2))
    from inv_StopPlot [OF I this] have "StopPlot_wait (plot_goroutine E) (sk_fs ?sk) (ws_db (the_ws ?sk r)) \<noteq> None" .
    with Some x q del show ?thesis
      by (auto simp: ActOnWorkSpace_def PlotWS_def MineWS_def StopWS_def RemoveWS_def DeleteWS_def send_queued_def Let_def
          plotterQueue_PoppedItem_def ws_StopPlot_def split: option.splits if_splits)
  qed
qed

section \<open>A full channel\<close>

text \<open>
  A call blocked on the full channel holds the lock that the plotter needs to finish its plot, and
  only the plotter empties the channel.
\<close>

definition deadlocked :: "('pk, 'q, 'w) keeper_sys \<Rightarrow> bool" where
  "deadlocked s \<longleftrightarrow>
     ks_pending s \<noteq> [] \<and> plotterMaxChanSize \<le> length (newQueuedWorkSpaceCh (ks_sk s)) \<and> ks_pc s = PWorking \<and>
     poppedItem (sk_queue (ks_sk s)) \<noteq> None"

lemma PlotWS_channel:
  "PlotWS E sk sid = Returns sk' err \<Longrightarrow>
     length (newQueuedWorkSpaceCh sk) \<le> length (newQueuedWorkSpaceCh sk') \<and>
     (poppedItem (sk_queue sk) \<noteq> None \<longrightarrow> poppedItem (sk_queue sk') \<noteq> None)"
  by (auto simp: PlotWS_def send_queued_def set_popped_mining_def split: option.splits if_splits)

lemma deadlocked_plotter: "plotter_step E s s' \<Longrightarrow> deadlocked s \<Longrightarrow> deadlocked s'"
  by (induction rule: plotter_step.induct) (auto simp: deadlocked_def)

lemma deadlocked_step: "keeper_step E s s' \<Longrightarrow> deadlocked s \<Longrightarrow> deadlocked s'"
proof (induction rule: keeper_step.induct)
  case (step_act s act sid sk' err)
  then have "PlotWS E (ks_sk s) sid = Returns sk' err"
    by (auto simp: lock_free_def deadlocked_def ActOnWorkSpace_def action_valid)
  from PlotWS_channel [OF this] step_act show ?case by (auto simp: deadlocked_def)
next
  case (step_plotter s s')
  then show ?case by (rule deadlocked_plotter)
qed (auto simp: deadlocked_def)

lemma deadlocked_steps: "(keeper_step E)\<^sup>*\<^sup>* s s' \<Longrightarrow> deadlocked s \<Longrightarrow> deadlocked s'"
  by (induction rule: rtranclp_induct) (auto intro: deadlocked_step)

lemma PlotWS_blocks:
  assumes "index_ok (env_U E) (ks_sk s)" "ks_pc s = PWorking" "ks_pending s = []"
    "poppedItem (sk_queue (ks_sk s)) \<noteq> None"
    "length (newQueuedWorkSpaceCh (ks_sk s)) = plotterMaxChanSize"
    "index_Get (ks_sk s) Registered sid = Some r" "ws_using (the_ws (ks_sk s) r)"
  shows "\<exists>s1. keeper_step E s s1 \<and> deadlocked s1"
proof -
  have "index_Get (ks_sk s) allState sid = Some r" using index_okD(5) [OF assms(1) _ assms(6)] by simp
  with assms have "ActOnWorkSpace E (ks_sk s) sid Plot = Blocks (ks_sk s)"
    by (simp add: ActOnWorkSpace_def action_valid PlotWS_def send_queued_def)
  from step_block [OF _ this assms(6)] assms show ?thesis
    by (auto simp: lock_free_def deadlocked_def)
qed

section \<open>Stopping a queued work space\<close>

text \<open>
  The plotter receives from the channel only when its queue is empty, and \<open>Delete\<close> looks only into
  the queue. What is still in the channel is plotted later.
\<close>

lemma PlotWS_Registered:
  assumes "index_ok (env_U E) sk" "index_Get sk Registered sid = Some r" "ws_using (the_ws sk r)"
    "length (newQueuedWorkSpaceCh sk) < plotterMaxChanSize"
  shows "PlotWS E sk sid = Returns (ch_append (newQueuedWorkSpace r False) sk) None"
  using assms index_okD(5) [OF assms(1) _ assms(2)] by (simp add: PlotWS_def send_queued_def ch_append_def)

lemma StopWS_Registered:
  assumes ok: "index_ok (env_U E) sk" and g: "index_Get sk Registered sid = Some r" and u: "ws_using (the_ws sk r)"
    and q: "plotterQueue_Delete (env_Q E) (sid_of (env_U E) sk) (sk_queue sk) sid = Some q"
  shows "StopWS E sk sid = Returns (sk\<lparr>sk_queue := q\<rparr>) None"
proof -
  have a: "index_Get sk allState sid = Some r" "ws_state (the_ws sk r) = Registered"
    using index_okD(5) [OF ok _ g] by auto
  then show ?thesis
    using u q index_ok_None [OF ok a(1), of Plotting] index_ok_None [OF ok a(1), of Mining]
    by (simp add: StopWS_def)
qed

text \<open>The plotter on its own takes the only element of the channel and begins to plot it.\<close>

lemma plotter_takes:
  assumes I: "sys_inv E items s" and Q: "prque_ok (env_Q E) items"
    and s: "ks_pc s = PLoop" "ks_pending s = []" "newQueuedWorkSpaceCh (ks_sk s) = [x]"
      "items (pq_Prque (sk_queue (ks_sk s))) = {#}"
    and g: "index_Get (ks_sk s) Registered sid = Some (qws_ws x)"
  shows "\<exists>s'. (plotter_step E)\<^sup>*\<^sup>* s s' \<and> index_Get (ks_sk s') Plotting sid = Some (qws_ws x)"
proof -
  let ?sk = "ks_sk s" and ?U = "env_U E" and ?r = "qws_ws x"
  let ?sk1 = "queue_Push E x (?sk\<lparr>newQueuedWorkSpaceCh := []\<rparr>)"
  let ?s1 = "s\<lparr>ks_pc := PAdd, ks_sk := ?sk1\<rparr>"
  let ?s2 = "?s1\<lparr>ks_pc := PLoop\<rparr>"
  have ok: "index_ok ?U ?sk" by (rule sys_invD(1) [OF I])
  have sid: "sid_of ?U ?sk ?r = sid" using index_okD(3,5) [OF ok] g by (metis valid_states(1))
  have it: "items (pq_Prque (sk_queue ?sk1)) = {#(x, ws_priority (sk_heap ?sk) ?r)#}"
    by (simp add: queue_Push_def plotterQueue_Push_def prque_okD [OF Q] s(4))
  have s1: "plotter_step E s ?s1" using s(4) by (intro step_recv [OF s(1) _ s(3)]) (simp add: prque_okD [OF Q])
  have s2: "plotter_step E ?s1 ?s2" by (rule step_drained) simp_all
  obtain q' y p where pop: "prq_Pop (env_Q E) (pq_Prque (sk_queue ?sk1)) = Some (q', y, p)"
    "items (pq_Prque (sk_queue ?sk1)) = add_mset (y, p) (items q')"
    using prque_ok_Pop [OF Q] it by (metis add_mset_not_empty)
  then have y: "y = x" using it by simp
  let ?q = "(sk_queue ?sk1)\<lparr>pq_Prque := q', poppedItem := Some x\<rparr>"
  let ?s3 = "?s2\<lparr>ks_pc := PPopped, ks_sk := ?sk1\<lparr>sk_queue := ?q\<rparr>\<rparr>"
  have s3: "plotter_step E ?s2 ?s3"
    using step_pop [of ?s2 E ?q x] pop y it by (simp add: plotterQueue_PopItem_def prque_okD [OF Q])
  let ?sk3 = "?sk1\<lparr>sk_queue := ?q\<rparr>"
  have b: "plotSpace_begin ?U x (ks_sk ?s3) = (changeState ?r sid Registered Plotting ?sk3, True)"
    using g by (simp add: plotSpace_begin_def sid)
  obtain mdb res where m: "MassDBV1_Plot (ws_db (the_ws (changeState ?r sid Registered Plotting ?sk3) ?r)) = (mdb, res)"
    by fastforce
  let ?s4 = "?s3\<lparr>ks_pc := PWorking, ks_sk := set_db ?r mdb (changeState ?r sid Registered Plotting ?sk3)\<rparr>"
  have s4: "plotter_step E ?s3 ?s4" using step_begin [OF _ _ _ b m] s(2) by simp
  have "index_Get (ks_sk ?s4) Plotting sid = Some ?r"
    using index_okD(1) [OF ok] by (simp add: index_Get_changeState queue_Push_def)
  moreover have "(plotter_step E)\<^sup>*\<^sup>* s ?s4" 
    by (rule converse_rtranclp_into_rtranclp [OF s1 converse_rtranclp_into_rtranclp [OF s2
          converse_rtranclp_into_rtranclp [OF s3 r_into_rtranclp [of "plotter_step E", OF s4]]]])
  ultimately show ?thesis by blast
qed

section \<open>The end of a plot\<close>

lemma plot_end_state:
  assumes ok: "index_ok (env_U E) sk" and g: "index_Get sk Plotting (sid_of (env_U E) sk (qws_ws x)) = Some (qws_ws x)"
  shows "ws_state (the_ws (plotSpace_end (env_U E) x sk) (qws_ws x)) =
    (if progress_below_100 (ws_Progress (the_ws sk (qws_ws x))) then Registered
     else if wouldMining x then Mining else Ready)"
proof -
  have "qws_ws x < length (sk_heap sk)" using index_okD(2,5) [OF ok] g by (metis valid_states(2))
  then show ?thesis by (simp add: plotSpace_end_def Let_def the_ws_changeState)
qed

lemma finished_not_below: "HashMapA (ws_db ws) = None \<Longrightarrow> \<not> progress_below_100 (ws_Progress ws)"
  using below_100_HashMapA by blast

end
