(* ===== verification/Config_Keep.thy ===== *)
theory Config_Keep
  imports Config_Fill Keeper_Sys
begin

text \<open>
  Configuration keeps the index consistent. Each configuration function is a filler, which collects
  indexed work spaces and may add new ones to the index, followed by the same conclusion; the locale
  \<open>filler\<close> is that contract.
\<close>

section \<open>The keys of the wallet\<close>

text \<open>
  What is relied on of the wallet: a generated key is new, and a key with an ordinal is one of its own.
  \<open>keys\<close> are the keys it has handed out; every indexed work space has one of them.
\<close>

definition wallet_ok :: "('pk, 'q, 'w, 'sig) sk_env \<Rightarrow> ('w \<Rightarrow> 'pk set) \<Rightarrow> bool" where
  "wallet_ok E keys \<longleftrightarrow>
     (\<forall>w w' res. GenerateNewPublicKey E w = (w', res) \<longrightarrow>
        keys w \<subseteq> keys w' \<and> (\<forall>pk ordinal. res = Inr (pk, ordinal) \<longrightarrow> pk \<notin> keys w \<and> pk \<in> keys w')) \<and>
     (\<forall>w pk. GetPublicKeyOrdinal E w pk \<noteq> None \<longrightarrow> pk \<in> keys w)"

definition cfg_inv :: "('pk, 'q, 'w, 'sig) sk_env \<Rightarrow> ('w \<Rightarrow> 'pk set) \<Rightarrow> ('pk, 'q, 'w) spacekeeper \<Rightarrow> bool" where
  "cfg_inv E keys sk \<longleftrightarrow>
     index_ok (env_U E) sk \<and>
     (\<forall>sid r. index_Get sk allState sid = Some r \<longrightarrow> sid_pubKey (ws_id (the_ws sk r)) \<in> keys (sk_wallet sk))"

definition indexed :: "'pk pocutil \<Rightarrow> ('pk, 'q, 'w) spacekeeper \<Rightarrow> nat \<Rightarrow> bool" where
  "indexed U sk r \<longleftrightarrow> index_Get sk allState (sid_of U sk r) = Some r"

text \<open>What generating work spaces does to those that exist: nothing.\<close>

definition extends :: "('pk, 'q, 'w) spacekeeper \<Rightarrow> ('pk, 'q, 'w) spacekeeper \<Rightarrow> bool" where
  "extends sk sk' \<longleftrightarrow>
     length (sk_heap sk) \<le> length (sk_heap sk') \<and> (\<forall>q < length (sk_heap sk). the_ws sk' q = the_ws sk q) \<and>
     (\<forall>sid q. index_Get sk allState sid = Some q \<longrightarrow> index_Get sk' allState sid = Some q) \<and>
     workSpaceList sk' = workSpaceList sk"

lemma extends_refl: "extends sk sk"
  by (simp add: extends_def)

lemma extends_trans: "extends sk sk1 \<Longrightarrow> extends sk1 sk2 \<Longrightarrow> extends sk sk2"
  by (auto simp: extends_def)

lemma indexed_extends:
  assumes "index_ok U sk" "extends sk sk'" "indexed U sk r"
  shows "indexed U sk' r" "ws_bl sk' r = ws_bl sk r"
proof -
  have "r < length (sk_heap sk)" using index_okD(2) [OF assms(1)] assms(3) by (auto simp: indexed_def)
  with assms(2) have "the_ws sk' r = the_ws sk r" by (simp add: extends_def)
  with assms(2,3) show "indexed U sk' r" "ws_bl sk' r = ws_bl sk r"
    by (auto simp: extends_def indexed_def sid_of_def ws_bl_def)
qed

section \<open>Generating a work space\<close>

lemma add_extends:
  assumes "index_ok U sk"
  shows "extends sk (addWorkSpaceToIndex U r sk)" "sk_wallet (addWorkSpaceToIndex U r sk) = sk_wallet sk"
    "sk_heap (addWorkSpaceToIndex U r sk) = sk_heap sk" "sid_of U (addWorkSpaceToIndex U r sk) = sid_of U sk"
    "State_IsValid (ws_state (the_ws sk r)) \<Longrightarrow>
       index_Get (addWorkSpaceToIndex U r sk) allState x =
         (if x = sid_of U sk r \<and> index_Get sk allState x = None then Some r else index_Get sk allState x)"
proof -
  have l: "4 < length (workSpaceIndex sk)" using index_okD(1) [OF assms] by simp
  have g: "index_Get (index_Set s sid q sk1) allState x =
      (if s = allState \<and> x = sid then Some q else index_Get sk1 allState x)"
    if "4 < length (workSpaceIndex sk1)" "workSpaceIndex sk1 = workSpaceIndex sk2" for s sid q x and sk1 sk2 :: "('a, 'b, 'c) spacekeeper"
    using that by (cases "unat s < length (workSpaceIndex sk1)") (auto simp: index_Get_Set, auto simp: index_Set_def index_Get_def)
  have w: "sk_wallet (index_Set s sid q sk1) = sk_wallet sk1" for s sid q and sk1 :: "('a, 'b, 'c) spacekeeper"
    by (simp add: index_Set_def)
  show "sk_wallet (addWorkSpaceToIndex U r sk) = sk_wallet sk"
    "sk_heap (addWorkSpaceToIndex U r sk) = sk_heap sk" "sid_of U (addWorkSpaceToIndex U r sk) = sid_of U sk"
    by (simp_all add: addWorkSpaceToIndex_def Let_def w)
  show "extends sk (addWorkSpaceToIndex U r sk)"
    using l by (auto simp: extends_def addWorkSpaceToIndex_def Let_def g [OF _ refl])
  show "State_IsValid (ws_state (the_ws sk r)) \<Longrightarrow> index_Get (addWorkSpaceToIndex U r sk) allState x =
      (if x = sid_of U sk r \<and> index_Get sk allState x = None then Some r else index_Get sk allState x)"
    using l by (auto simp: addWorkSpaceToIndex_def Let_def g [OF _ refl] dest: valid_not_all)
qed

lemma sk_NewWorkSpace_extends:
  assumes "sk_NewWorkSpace E dir ordinal pk bl sk = (sk', res)"
  shows "extends sk sk'" "sk_wallet sk' = sk_wallet sk" "index_Get sk' = index_Get sk"
    "res = Inr r \<Longrightarrow> ws_id (the_ws sk' r) = NewSpaceID (env_U E) ordinal pk bl \<and> length (sk_heap sk') = Suc r"
proof -
  obtain fs' res' where N: "NewWorkSpace (env_U E) (env_F E) (sk_fs sk) (sk_dbType sk) dir ordinal pk bl = (fs', res')" by fastforce
  note A = NewWorkSpace_args [OF N]
  have "extends sk sk' \<and> sk_wallet sk' = sk_wallet sk \<and> index_Get sk' = index_Get sk \<and>
    (res = Inr r \<longrightarrow> ws_id (the_ws sk' r) = NewSpaceID (env_U E) ordinal pk bl \<and> length (sk_heap sk') = Suc r)"
  proof (cases res')
    case (Inr ws)
    from assms have sk': "sk' = fst (alloc_ws ws (sk\<lparr>sk_fs := fs'\<rparr>))" "res = Inr (length (sk_heap sk))"
      by (auto simp: sk_NewWorkSpace_def N Inr alloc_ws_def)
    show ?thesis using A(2) [OF Inr] unfolding sk'
      by (auto simp: extends_def) (auto simp: alloc_ws_def nth_append)
  qed (use assms N in \<open>auto simp: sk_NewWorkSpace_def extends_def\<close>)
  then show "extends sk sk'" "sk_wallet sk' = sk_wallet sk" "index_Get sk' = index_Get sk"
    "res = Inr r \<Longrightarrow> ws_id (the_ws sk' r) = NewSpaceID (env_U E) ordinal pk bl \<and> length (sk_heap sk') = Suc r" by auto
qed

text \<open>A new work space for a key that is not indexed with this bit length becomes indexed.\<close>

lemma new_indexed:
  assumes ok: "index_ok (env_U E) sk" and N: "sk_NewWorkSpace E dir ordinal pk bl sk = (sk1, Inr r)"
    and new: "index_Get sk allState (SpaceID_String (env_U E) (NewSpaceID (env_U E) ordinal pk bl)) = None"
  shows "index_ok (env_U E) (addWorkSpaceToIndex (env_U E) r sk1)" "extends sk (addWorkSpaceToIndex (env_U E) r sk1)"
    "indexed (env_U E) (addWorkSpaceToIndex (env_U E) r sk1) r" "ws_bl (addWorkSpaceToIndex (env_U E) r sk1) r = bl"
    "index_Get (addWorkSpaceToIndex (env_U E) r sk1) allState x = Some q \<Longrightarrow> q = r \<or> index_Get sk allState x = Some q"
    "sid_pubKey (ws_id (the_ws (addWorkSpaceToIndex (env_U E) r sk1) r)) = pk"
proof -
  let ?U = "env_U E"
  let ?sk2 = "addWorkSpaceToIndex ?U r sk1"
  note e = sk_NewWorkSpace_extends [OF N] and o = sk_NewWorkSpace_ok [OF ok N refl]
  have r: "r < length (sk_heap sk1)" "State_IsValid (ws_state (the_ws sk1 r))" "\<not> ws_using (the_ws sk1 r)" using o(2) by auto
  have id: "ws_id (the_ws sk1 r) = NewSpaceID ?U ordinal pk bl" using e(4) by simp
  then have none: "index_Get sk1 allState (sid_of ?U sk1 r) = None" using new e(3) by (simp add: sid_of_def)
  note a = add_extends [OF o(1), of r]
  show "index_ok ?U ?sk2" by (rule addWorkSpaceToIndex_ok [OF o(1) r])
  show "extends sk ?sk2" by (rule extends_trans [OF e(1) a(1)])
  show "indexed ?U ?sk2 r" using none by (simp add: indexed_def a(4) a(5) [OF r(2)])
  show "ws_bl ?sk2 r = bl" "sid_pubKey (ws_id (the_ws ?sk2 r)) = pk"
    using id by (simp_all add: ws_bl_def a(3) NewSpaceID_def)
  show "index_Get ?sk2 allState x = Some q \<Longrightarrow> q = r \<or> index_Get sk allState x = Some q"
    using e(3) by (auto simp: a(5) [OF r(2)] split: if_splits)
qed

lemma generate_keeps:
  assumes I: "cfg_inv E keys sk" and W: "wallet_ok E keys" and P: "pubkey_ok (env_U E)"
    and g: "generateNewWorkSpaceByPath E dir bl sk = (sk1, res)"
  shows "res = Inl err \<Longrightarrow> cfg_inv E keys sk1 \<and> extends sk sk1"
    "res = Inr r \<Longrightarrow> cfg_inv E keys (addWorkSpaceToIndex (env_U E) r sk1) \<and> extends sk (addWorkSpaceToIndex (env_U E) r sk1) \<and>
       indexed (env_U E) (addWorkSpaceToIndex (env_U E) r sk1) r \<and> ws_bl (addWorkSpaceToIndex (env_U E) r sk1) r = bl"
proof -
  let ?U = "env_U E"
  obtain w' res' where G: "GenerateNewPublicKey E (sk_wallet sk) = (w', res')" by fastforce
  let ?sk0 = "sk\<lparr>sk_wallet := w'\<rparr>"
  have ok: "index_ok ?U sk" and k: "\<And>sid r. index_Get sk allState sid = Some r \<Longrightarrow> sid_pubKey (ws_id (the_ws sk r)) \<in> keys (sk_wallet sk)"
    using I by (auto simp: cfg_inv_def)
  have kw: "keys (sk_wallet sk) \<subseteq> keys w'" using W G unfolding wallet_ok_def by blast
  have e0: "extends sk ?sk0" by (simp add: extends_def)
  show "res = Inl err \<Longrightarrow> cfg_inv E keys sk1 \<and> extends sk sk1"
  proof -
    assume err: "res = Inl err"
    show ?thesis
    proof (cases res')
      case (Inl e)
      with g G err ok e0 show ?thesis
        by (auto simp: generateNewWorkSpaceByPath_def cfg_inv_def intro: subsetD [OF kw k])
    next
      case (Inr po)
      obtain pk ordinal where po: "po = (pk, ordinal)" by (cases po)
      have N: "sk_NewWorkSpace E dir (int (unat ordinal)) pk bl ?sk0 = (sk1, res)"
        using g G Inr po by (simp add: generateNewWorkSpaceByPath_def)
      note e = sk_NewWorkSpace_extends [OF N]
      have "index_ok ?U sk1" using sk_NewWorkSpace_ok(1) [OF _ N refl] ok by simp
      moreover have "sid_pubKey (ws_id (the_ws sk1 q)) \<in> keys (sk_wallet sk1)" if "index_Get sk1 allState sid = Some q" for sid q
        using that e(1,2,3) k [of sid q] kw index_okD(2) [OF ok, of sid q] by (auto simp: extends_def)
      ultimately show ?thesis using extends_trans [OF e0 e(1)] by (simp add: cfg_inv_def)
    qed
  qed
  show "res = Inr r \<Longrightarrow> cfg_inv E keys (addWorkSpaceToIndex ?U r sk1) \<and> extends sk (addWorkSpaceToIndex ?U r sk1) \<and>
       indexed ?U (addWorkSpaceToIndex ?U r sk1) r \<and> ws_bl (addWorkSpaceToIndex ?U r sk1) r = bl"
  proof -
    assume res: "res = Inr r"
    then obtain pk ordinal where po: "res' = Inr (pk, ordinal)"
      using g G by (cases res') (auto simp: generateNewWorkSpaceByPath_def)
    have N: "sk_NewWorkSpace E dir (int (unat ordinal)) pk bl ?sk0 = (sk1, Inr r)"
      using g G po res by (simp add: generateNewWorkSpaceByPath_def)
    have pk: "pk \<notin> keys (sk_wallet sk)" "pk \<in> keys w'" using W G po unfolding wallet_ok_def by blast+
    let ?sid = "SpaceID_String ?U (NewSpaceID ?U (int (unat ordinal)) pk bl)"
    have "index_Get sk allState ?sid = None"
    proof (rule ccontr)
      assume "index_Get sk allState ?sid \<noteq> None"
      then obtain q where q: "index_Get sk allState ?sid = Some q" by blast
      then have "SpaceID_String ?U (ws_id (the_ws sk q)) = ?sid" using index_okD(3) [OF ok q] by (simp add: sid_of_def)
      then have "sid_pubKey (ws_id (the_ws sk q)) = pk" using SpaceID_String_inj [OF P] by (fastforce simp: NewSpaceID_def)
      with k [OF q] pk(1) show False by simp
    qed
    then have none: "index_Get ?sk0 allState ?sid = None" and ok0: "index_ok ?U ?sk0" using ok by (simp_all only: field_updates index_ok_fields)
    note n = new_indexed [OF ok0 N none]
    let ?sk2 = "addWorkSpaceToIndex ?U r sk1"
    have w: "sk_wallet ?sk2 = w'"
      using add_extends(2) [of ?U sk1 r] sk_NewWorkSpace_ok(1) [OF _ N refl] ok sk_NewWorkSpace_extends(2) [OF N] by simp
    have "sid_pubKey (ws_id (the_ws ?sk2 q)) \<in> keys w'" if "index_Get ?sk2 allState sid = Some q" for sid q
    proof (cases "q = r")
      case False
      with n(5) [OF that] have q: "index_Get sk allState sid = Some q" by simp
      then have "the_ws ?sk2 q = the_ws sk q"
        using extends_trans [OF e0 n(2)] index_okD(2) [OF ok q] by (simp add: extends_def)
      with k [OF q] kw show ?thesis by auto
    qed (use n(6) pk(2) in simp)
    with n w extends_trans [OF e0 n(2)] show ?thesis by (auto simp: cfg_inv_def)
  qed
qed

section \<open>Generating many\<close>

text \<open>
  The state after a loop that generates, and the list it extends: every element is indexed, and the
  new ones have the wanted bit lengths.
\<close>

definition gen_ok ::
  "('pk, 'q, 'w, 'sig) sk_env \<Rightarrow> ('w \<Rightarrow> 'pk set) \<Rightarrow> ('pk, 'q, 'w) spacekeeper \<Rightarrow> nat list
     \<Rightarrow> ('pk, 'q, 'w) spacekeeper \<times> (sk_error + nat list) \<Rightarrow> bool" where
  "gen_ok E keys sk dst r \<longleftrightarrow>
     (case r of (sk', res) \<Rightarrow>
        cfg_inv E keys sk' \<and> extends sk sk' \<and>
        (\<forall>dst'. res = Inr dst' \<longrightarrow> take (length dst) dst' = dst \<and> (\<forall>w\<in>set dst'. indexed (env_U E) sk' w)))"

lemma gen_ok_here:
  "cfg_inv E keys sk \<Longrightarrow> (\<And>w. w \<in> set dst \<Longrightarrow> indexed (env_U E) sk w) \<Longrightarrow> gen_ok E keys sk dst (sk, Inr dst)"
  "cfg_inv E keys sk' \<Longrightarrow> extends sk sk' \<Longrightarrow> gen_ok E keys sk dst (sk', Inl err)"
  by (simp_all add: gen_ok_def extends_refl)

lemma gen_ok_trans:
  assumes "extends sk sk1" "gen_ok E keys sk1 (dst @ new) r"
  shows "gen_ok E keys sk dst r"
  using assms extends_trans [OF assms(1)]
  by (auto simp: gen_ok_def split: prod.splits) (metis append_eq_conv_conj take_add append_take_drop_id length_append take_all_iff append_eq_append_conv2 take_append)

lemma generate_indexed:
  assumes I: "cfg_inv E keys sk" and W: "wallet_ok E keys" and P: "pubkey_ok (env_U E)"
    and g: "generateNewWorkSpaceByPath E dir bl sk = (sk1, Inr r)" and d: "\<And>w. w \<in> set dst \<Longrightarrow> indexed (env_U E) sk w"
  shows "cfg_inv E keys (addWorkSpaceToIndex (env_U E) r sk1)" "extends sk (addWorkSpaceToIndex (env_U E) r sk1)"
    "\<And>w. w \<in> set (dst @ [r]) \<Longrightarrow> indexed (env_U E) (addWorkSpaceToIndex (env_U E) r sk1) w"
proof -
  note G = generate_keeps(2) [OF I W P g refl]
  show "cfg_inv E keys (addWorkSpaceToIndex (env_U E) r sk1)" "extends sk (addWorkSpaceToIndex (env_U E) r sk1)" using G by auto
  show "indexed (env_U E) (addWorkSpaceToIndex (env_U E) r sk1) w" if "w \<in> set (dst @ [r])" for w
    using that G d indexed_extends(1) [of "env_U E" sk] I by (auto simp: cfg_inv_def)
qed

lemma gen_bl_keeps:
  assumes W: "wallet_ok E keys" and P: "pubkey_ok (env_U E)"
  shows "cfg_inv E keys sk \<Longrightarrow> (\<And>w. w \<in> set dst \<Longrightarrow> indexed (env_U E) sk w) \<Longrightarrow>
    gen_bl E fuel bl cnt dst cur sk = Some r \<Longrightarrow> gen_ok E keys sk dst r"
proof (induction fuel arbitrary: dst cur sk)
  case (Suc fuel)
  show ?case
  proof (cases "cur = cnt")
    case True
    with Suc.prems show ?thesis by (auto intro: gen_ok_here)
  next
    case False
    obtain sk1 res where g: "generateNewWorkSpace E bl sk = (sk1, res)" by fastforce
    show ?thesis
    proof (cases "dbDirs sk")
      case Nil
      with Suc.prems False show ?thesis by (auto simp: generateNewWorkSpace_def intro: gen_ok_here extends_refl)
    next
      case (Cons d ds)
      then have g': "generateNewWorkSpaceByPath E d bl sk = (sk1, res)" using g by (simp add: generateNewWorkSpace_def)
      show ?thesis
      proof (cases res)
        case (Inl err)
        with Suc.prems False g generate_keeps(1) [OF Suc.prems(1) W P g'] show ?thesis by (auto intro: gen_ok_here)
      next
        case (Inr q)
        note G = generate_indexed [OF Suc.prems(1) W P g' [unfolded Inr], of dst, OF Suc.prems(2)]
        have "gen_bl E fuel bl cnt (dst @ [q]) (go_int (cur + 1)) (addWorkSpaceToIndex (env_U E) q sk1) = Some r"
          using Suc.prems(3) False g Inr by simp
        then have "gen_ok E keys (addWorkSpaceToIndex (env_U E) q sk1) (dst @ [q]) r"
          by (rule Suc.IH [rotated 2]) (use G Suc.prems(2) in auto)
        then show ?thesis using G(2) by (auto intro: gen_ok_trans)
      qed
    qed
  qed
qed simp

lemma gen_bls_keeps:
  assumes W: "wallet_ok E keys" and P: "pubkey_ok (env_U E)"
  shows "cfg_inv E keys sk \<Longrightarrow> (\<And>w. w \<in> set dst \<Longrightarrow> indexed (env_U E) sk w) \<Longrightarrow>
    gen_bls E fuel cc target dst sk = Some r \<Longrightarrow> gen_ok E keys sk dst r"
proof (induction target arbitrary: dst sk)
  case (Cons bc target)
  obtain bl cnt where bc: "bc = (bl, cnt)" by (cases bc)
  obtain sk1 res where g: "gen_bl E fuel bl cnt dst (count_of cc bl) sk = Some (sk1, res)"
    using Cons.prems(3) by (auto simp: bc split: option.splits)
  from gen_bl_keeps [OF W P Cons.prems(1,2) g] have G: "gen_ok E keys sk dst (sk1, res)" .
  show ?case
  proof (cases res)
    case (Inl err)
    with Cons.prems(3) g G show ?thesis by (simp add: bc)
  next
    case (Inr dst')
    with G have "cfg_inv E keys sk1" "extends sk sk1" "\<And>w. w \<in> set dst' \<Longrightarrow> indexed (env_U E) sk1 w"
      and t: "dst' = dst @ drop (length dst) dst'"
      by (auto simp: gen_ok_def) (metis append_take_drop_id)
    moreover have "gen_bls E fuel cc target dst' sk1 = Some r" using Cons.prems(3) g Inr by (simp add: bc)
    ultimately have "gen_ok E keys sk1 dst' r" using Cons.IH by blast
    then show ?thesis using gen_ok_trans [OF \<open>extends sk sk1\<close>] t by metis
  qed
qed (auto intro: gen_ok_here)

lemma gen_sized_keeps:
  assumes W: "wallet_ok E keys" and P: "pubkey_ok (env_U E)"
  shows "cfg_inv E keys sk \<Longrightarrow> (\<And>w. w \<in> set dst \<Longrightarrow> indexed (env_U E) sk w) \<Longrightarrow>
    gen_sized E path fuel bl target dst cur sk = Some (sk', cur', res) \<Longrightarrow> gen_ok E keys sk dst (sk', res)"
proof (induction fuel arbitrary: dst cur sk)
  case (Suc fuel)
  show ?case
  proof (cases "go_int (target - cur) < plot_int E bl")
    case True
    with Suc.prems show ?thesis by (auto intro: gen_ok_here)
  next
    case False
    obtain sk1 res1 where g: "generateNewWorkSpaceByPath E path bl sk = (sk1, res1)" by fastforce
    show ?thesis
    proof (cases res1)
      case (Inl err)
      with Suc.prems False g generate_keeps(1) [OF Suc.prems(1) W P g] show ?thesis by (auto simp: Let_def intro: gen_ok_here)
    next
      case (Inr q)
      note G = generate_indexed [OF Suc.prems(1) W P g [unfolded Inr], of dst, OF Suc.prems(2)]
      have "gen_sized E path fuel bl target (dst @ [q]) (go_int (cur + plot_int E bl)) (addWorkSpaceToIndex (env_U E) q sk1) =
          Some (sk', cur', res)"
        using Suc.prems(3) False g Inr by (simp add: Let_def)
      then have "gen_ok E keys (addWorkSpaceToIndex (env_U E) q sk1) (dst @ [q]) (sk', res)"
        by (rule Suc.IH [rotated 2]) (use G Suc.prems(2) in auto)
      then show ?thesis using G(2) by (auto intro: gen_ok_trans)
    qed
  qed
qed simp

lemma gen_sizes_keeps:
  assumes W: "wallet_ok E keys" and P: "pubkey_ok (env_U E)"
  shows "cfg_inv E keys sk \<Longrightarrow> (\<And>w. w \<in> set dst \<Longrightarrow> indexed (env_U E) sk w) \<Longrightarrow>
    gen_sizes E path fuel bls target dst cur sk = Some (sk', cur', res) \<Longrightarrow> gen_ok E keys sk dst (sk', res)"
proof (induction bls arbitrary: dst cur sk)
  case (Cons bl bls)
  obtain sk1 cur1 res1 where g: "gen_sized E path fuel bl target dst cur sk = Some (sk1, cur1, res1)"
    using Cons.prems(3) by (auto split: option.splits)
  from gen_sized_keeps [OF W P Cons.prems(1,2) g] have G: "gen_ok E keys sk dst (sk1, res1)" .
  show ?case
  proof (cases res1)
    case (Inl err)
    with Cons.prems(3) g G show ?thesis by simp
  next
    case (Inr dst')
    with G have "cfg_inv E keys sk1" "extends sk sk1" "\<And>w. w \<in> set dst' \<Longrightarrow> indexed (env_U E) sk1 w"
      and t: "dst' = dst @ drop (length dst) dst'"
      by (auto simp: gen_ok_def) (metis append_take_drop_id)
    moreover have "gen_sizes E path fuel bls target dst' cur1 sk1 = Some (sk', cur', res)" using Cons.prems(3) g Inr by simp
    ultimately have "gen_ok E keys sk1 dst' (sk', res)" using Cons.IH by blast
    then show ?thesis using gen_ok_trans [OF \<open>extends sk sk1\<close>] t by metis
  qed
qed (auto intro: gen_ok_here)

section \<open>Applying a configuration\<close>

lemma the_ws_disuse_all:
  "the_ws (fold (\<lambda>w. update_ws w (ws_using_update (\<lambda>_. False))) ws sk) r =
     (if r \<in> set ws \<and> r < length (sk_heap sk) then the_ws sk r\<lparr>ws_using := False\<rparr> else the_ws sk r)"
proof (induction ws arbitrary: sk)
  case (Cons w ws)
  show ?case unfolding fold_Cons comp_apply Cons.IH by (auto simp: the_ws_update_ws)
qed simp

lemma disuse_all_simps:
  "workSpaceIndex (fold (\<lambda>w. update_ws w (ws_using_update (\<lambda>_. False))) ws sk) = workSpaceIndex sk"
  "length (sk_heap (fold (\<lambda>w. update_ws w (ws_using_update (\<lambda>_. False))) ws sk)) = length (sk_heap sk)"
  "sk_wallet (fold (\<lambda>w. update_ws w (ws_using_update (\<lambda>_. False))) ws sk) = sk_wallet sk"
  by (induction ws arbitrary: sk) (simp_all, simp add: update_ws_def)

text \<open>The state in which no work space is used.\<close>

definition reset_used :: "('pk, 'q, 'w, 'sig) sk_env \<Rightarrow> ('pk, 'q, 'w) spacekeeper \<Rightarrow> ('pk, 'q, 'w) spacekeeper" where
  "reset_used E sk =
     (fold (\<lambda>w. update_ws w (ws_using_update (\<lambda>_. False))) (workSpaceList sk) sk)
       \<lparr>workSpaceList := [], sk_queue := plotterQueue_Reset (env_Q E) (sk_queue sk)\<rparr>"

lemma reset_used_simps:
  "index_Get (reset_used E sk) = index_Get sk" "sid_of U (reset_used E sk) = sid_of U sk"
  "length (sk_heap (reset_used E sk)) = length (sk_heap sk)" "workSpaceList (reset_used E sk) = []"
  "ws_priority (sk_heap (reset_used E sk)) = ws_priority (sk_heap sk)"
  "sk_wallet (reset_used E sk) = sk_wallet sk" "ws_id (the_ws (reset_used E sk) r) = ws_id (the_ws sk r)"
  by (auto simp: reset_used_def index_Get_def sid_of_def ws_priority_def disuse_all_simps the_ws_disuse_all fun_eq_iff)

lemma reset_used_ok:
  assumes ok: "index_ok U sk"
  shows "index_ok U (reset_used E sk)"
proof -
  note D = index_okD [OF ok]
  have W: "the_ws (reset_used E sk) r = (if r \<in> set (workSpaceList sk) then the_ws sk r\<lparr>ws_using := False\<rparr> else the_ws sk r)"
    if "index_Get sk allState sid = Some r" for sid r
    using D(2) [OF that] by (simp add: reset_used_def the_ws_disuse_all)
  have ix: "workSpaceIndex (reset_used E sk) = workSpaceIndex sk" by (simp add: reset_used_def disuse_all_simps)
  show ?thesis
    unfolding index_ok_def reset_used_simps ix
  proof (intro conjI allI impI ballI)
    fix sid r assume a: "index_Get sk allState sid = Some r"
    show "r < length (sk_heap sk)" "sid_of U sk r = sid" "State_IsValid (ws_state (the_ws (reset_used E sk) r))"
      "ws_using (the_ws (reset_used E sk) r) \<longleftrightarrow> r \<in> set []"
      using D(2,3,4,7) [OF a] by (auto simp: W [OF a])
  next
    fix s sid r assume "State_IsValid s"
    then show "index_Get sk s sid = Some r \<longleftrightarrow> index_Get sk allState sid = Some r \<and> ws_state (the_ws (reset_used E sk) r) = s"
      using ok W [of sid r] by (auto simp: index_ok_def)
  next
    fix i :: nat assume "i < 5"
    then show "distinct (map fst (workSpaceIndex sk ! i))" using ok by (simp add: index_ok_def)
  qed (use D(1) in simp_all)
qed

lemma use_simps:
  "index_Get (useWorkSpace U r sk) = index_Get sk" "sid_of U' (useWorkSpace U r sk) = sid_of U' sk"
  "length (sk_heap (useWorkSpace U r sk)) = length (sk_heap sk)" "sk_queue (useWorkSpace U r sk) = sk_queue sk"
  "ws_priority (sk_heap (useWorkSpace U r sk)) = ws_priority (sk_heap sk)" "sk_wallet (useWorkSpace U r sk) = sk_wallet sk"
  "ws_id (the_ws (useWorkSpace U r sk) q) = ws_id (the_ws sk q)"
  by (auto simp: useWorkSpace_def sid_of_update_ws ws_priority_def the_ws_update_ws fun_eq_iff) (simp add: update_ws_def)

lemma use_ok:
  assumes ok: "index_ok U sk" and r: "indexed U sk r"
  shows "index_ok U (useWorkSpace U r sk)" "set (workSpaceList (useWorkSpace U r sk)) = insert r (set (workSpaceList sk))"
    "workSpaceList (useWorkSpace U r sk) = (if r \<in> set (workSpaceList sk) then workSpaceList sk else workSpaceList sk @ [r])"
proof -
  note D = index_okD [OF ok] and a = r [unfolded indexed_def]
  have ex: "list_ex (\<lambda>e. sid_of U sk e = sid_of U sk r) (workSpaceList sk) \<longleftrightarrow> r \<in> set (workSpaceList sk)"
    using D(8) a by (auto simp: list_ex_iff) (metis option.inject)
  show L: "workSpaceList (useWorkSpace U r sk) = (if r \<in> set (workSpaceList sk) then workSpaceList sk else workSpaceList sk @ [r])"
    by (simp add: useWorkSpace_def ex)
  then show "set (workSpaceList (useWorkSpace U r sk)) = insert r (set (workSpaceList sk))" by auto
  show "index_ok U (useWorkSpace U r sk)"
  proof (cases "r \<in> set (workSpaceList sk)")
    case False
    let ?sk' = "useWorkSpace U r sk"
    have W: "the_ws ?sk' q = (if q = r then the_ws sk r\<lparr>ws_using := True\<rparr> else the_ws sk q)" for q
      using D(2) [OF a] False by (simp add: useWorkSpace_def ex the_ws_update_ws)
    have ix: "workSpaceIndex ?sk' = workSpaceIndex sk" by (simp add: useWorkSpace_def)
    have L': "workSpaceList ?sk' = workSpaceList sk @ [r]" using L False by simp
    show ?thesis
      unfolding index_ok_def use_simps ix L'
    proof (intro conjI allI impI ballI)
      fix sid q assume q: "index_Get sk allState sid = Some q"
      show "q < length (sk_heap sk)" "sid_of U sk q = sid" "State_IsValid (ws_state (the_ws ?sk' q))"
        "ws_using (the_ws ?sk' q) \<longleftrightarrow> q \<in> set (workSpaceList sk @ [r])"
        using D(2,3,4,7) [OF q] by (auto simp: W)
    next
      fix s sid q assume "State_IsValid s"
      then show "index_Get sk s sid = Some q \<longleftrightarrow> index_Get sk allState sid = Some q \<and> ws_state (the_ws ?sk' q) = s"
        using ok by (auto simp: index_ok_def W)
    next
      show "distinct (map (sid_of U sk) (workSpaceList sk @ [r]))" using D(9) ex False by (auto simp: list_ex_iff)
    next
      fix q assume "q \<in> set (workSpaceList sk @ [r])"
      then show "index_Get sk allState (sid_of U sk q) = Some q" using D(8) a by auto
    next
      fix i :: nat assume "i < 5"
      then show "distinct (map fst (workSpaceIndex sk ! i))" using ok by (simp add: index_ok_def)
    qed (use D(1) in simp)
  qed (use ok ex in \<open>simp add: useWorkSpace_def\<close>)
qed

text \<open>Putting the popped elements into the queue and into use.\<close>

definition use_queued :: "('pk, 'q, 'w, 'sig) sk_env \<Rightarrow> qws \<Rightarrow> ('pk, 'q, 'w) spacekeeper \<Rightarrow> ('pk, 'q, 'w) spacekeeper" where
  "use_queued E x s = useWorkSpace (env_U E) (qws_ws x) (queue_Push E x s)"

lemma push_list [simp]: "workSpaceList (queue_Push E x sk) = workSpaceList sk" "sk_wallet (queue_Push E x sk) = sk_wallet sk"
  by (simp_all add: queue_Push_def)

lemma use_queued_step:
  assumes "index_ok (env_U E) sk" "indexed (env_U E) sk (qws_ws x)"
  shows "index_ok (env_U E) (use_queued E x sk)" "index_Get (use_queued E x sk) = index_Get sk"
    "sid_of U (use_queued E x sk) = sid_of U sk" "ws_priority (sk_heap (use_queued E x sk)) = ws_priority (sk_heap sk)"
    "sk_wallet (use_queued E x sk) = sk_wallet sk" "ws_id (the_ws (use_queued E x sk) r) = ws_id (the_ws sk r)"
    "workSpaceList (use_queued E x sk) =
       (if qws_ws x \<in> set (workSpaceList sk) then workSpaceList sk else workSpaceList sk @ [qws_ws x])"
    "prque_ok (env_Q E) items \<Longrightarrow> items (pq_Prque (sk_queue (use_queued E x sk))) =
       add_mset (x, ws_priority (sk_heap sk) (qws_ws x)) (items (pq_Prque (sk_queue sk)))"
proof -
  have i: "indexed (env_U E) (queue_Push E x sk) (qws_ws x)" and o: "index_ok (env_U E) (queue_Push E x sk)"
    using assms by (simp_all add: indexed_def)
  note u = use_ok [OF o i]
  show "index_ok (env_U E) (use_queued E x sk)" using u(1) by (simp add: use_queued_def)
  show "workSpaceList (use_queued E x sk) =
       (if qws_ws x \<in> set (workSpaceList sk) then workSpaceList sk else workSpaceList sk @ [qws_ws x])"
    using u(3) by (simp add: use_queued_def)
qed (simp_all add: use_queued_def use_simps queue_Push_def plotterQueue_Push_def prque_okD)

lemma sorted_use: "sorted_wrt R (l @ w # ws) \<Longrightarrow> sorted_wrt R ((if w \<in> set l then l else l @ [w]) @ ws)"
  by (auto simp: sorted_wrt_append)

lemma use_queued_fold:
  assumes "index_ok (env_U E) sk" "\<And>x. x \<in> set xs \<Longrightarrow> indexed (env_U E) sk (qws_ws x)"
    "sorted_wrt (\<lambda>w w'. ws_priority (sk_heap sk) w \<ge> ws_priority (sk_heap sk) w') (workSpaceList sk @ map qws_ws xs)"
  shows "index_ok (env_U E) (fold (use_queued E) xs sk) \<and> index_Get (fold (use_queued E) xs sk) = index_Get sk \<and>
    ws_priority (sk_heap (fold (use_queued E) xs sk)) = ws_priority (sk_heap sk) \<and>
    sk_wallet (fold (use_queued E) xs sk) = sk_wallet sk \<and>
    (\<forall>r. ws_id (the_ws (fold (use_queued E) xs sk) r) = ws_id (the_ws sk r)) \<and>
    set (workSpaceList (fold (use_queued E) xs sk)) = set (workSpaceList sk) \<union> qws_ws ` set xs \<and>
    sorted_wrt (\<lambda>w w'. ws_priority (sk_heap sk) w \<ge> ws_priority (sk_heap sk) w') (workSpaceList (fold (use_queued E) xs sk)) \<and>
    (prque_ok (env_Q E) items \<longrightarrow> items (pq_Prque (sk_queue (fold (use_queued E) xs sk))) =
       mset (map (\<lambda>x. (x, ws_priority (sk_heap sk) (qws_ws x))) xs) + items (pq_Prque (sk_queue sk)))"
  using assms
proof (induction xs arbitrary: sk)
  case (Cons x xs)
  note S = use_queued_step [OF Cons.prems(1) Cons.prems(2) [of x, simplified]]
  let ?sk1 = "use_queued E x sk"
  have i: "indexed (env_U E) ?sk1 (qws_ws y)" if "y \<in> set xs" for y
    using Cons.prems(2) [of y] that by (simp add: indexed_def S(2,3))
  have so: "sorted_wrt (\<lambda>w w'. ws_priority (sk_heap ?sk1) w \<ge> ws_priority (sk_heap ?sk1) w') (workSpaceList ?sk1 @ map qws_ws xs)"
    using sorted_use [of _ "workSpaceList sk" "qws_ws x" "map qws_ws xs"] Cons.prems(3) by (simp add: S(4,7))
  have l: "set (workSpaceList ?sk1) = insert (qws_ws x) (set (workSpaceList sk))" by (auto simp: S(7))
  from Cons.IH [OF S(1) i so] S(8) [of items] show ?case
    by (simp add: S(2,4,5,6) l)
qed simp

lemma apply_configured:
  assumes Q: "prque_ok (env_Q E) items" and ok: "index_ok (env_U E) sk" and ne: "wsList \<noteq> []"
    and ix: "\<And>w. w \<in> set wsList \<Longrightarrow> indexed (env_U E) sk w"
  shows "\<exists>sk'. applyConfiguredWorkSpaces E wsList execPlot execMine sk =
      (sk', Inr (map (\<lambda>w. ws_Info (env_U E) (the_ws sk' w)) wsList)) \<and>
    index_ok (env_U E) sk' \<and> index_Get sk' = index_Get sk \<and> sk_wallet sk' = sk_wallet sk \<and>
    (\<forall>r. ws_id (the_ws sk' r) = ws_id (the_ws sk r)) \<and> set (workSpaceList sk') = set wsList \<and>
    sorted_wrt (\<lambda>w w'. ws_priority (sk_heap sk) w \<ge> ws_priority (sk_heap sk) w') (workSpaceList sk') \<and>
    items (pq_Prque (sk_queue sk')) =
      (if execPlot \<or> execMine then mset (map (\<lambda>w. (newQueuedWorkSpace w execMine, ws_priority (sk_heap sk) w)) wsList) else {#})"
proof -
  let ?Q = "env_Q E" and ?pri = "\<lambda>x. ws_priority (sk_heap sk) (qws_ws x)"
  let ?qs = "map (\<lambda>w. newQueuedWorkSpace w execMine) wsList" and ?sk1 = "reset_used E sk"
  let ?tmp = "push_items ?Q ?pri ?qs (newPlotterQueue ?Q)"
  have it: "items (pq_Prque ?tmp) = mset (map (\<lambda>x. (x, ?pri x)) ?qs)"
    by (simp add: push_items_items [OF Q] newPlotterQueue_def prque_okD [OF Q])
  have "\<forall>i\<in>#items (pq_Prque ?tmp). snd i = ?pri (fst i)" by (auto simp: it)
  from pop_items_sorted [OF Q refl this] obtain pq' xs where
    xs: "pop_items ?Q (prq_Size ?Q (pq_Prque ?tmp)) ?tmp = Some (pq', xs)" "mset xs = mset ?qs" "sorted (rev (map ?pri xs))"
    by (auto simp: prque_okD [OF Q] it multiset.map_comp comp_def)
  have sx: "set xs = set ?qs" using xs(2) by (metis set_mset_mset)
  have "sorted_wrt (\<lambda>w w'. ws_priority (sk_heap sk) w \<ge> ws_priority (sk_heap sk) w') (map qws_ws xs)"
    using xs(3) by (simp add: sorted_wrt_map rev_map sorted_map sorted_wrt_rev)
  then have so: "sorted_wrt (\<lambda>w w'. ws_priority (sk_heap ?sk1) w \<ge> ws_priority (sk_heap ?sk1) w') (workSpaceList ?sk1 @ map qws_ws xs)"
    by (simp add: reset_used_simps)
  have i1: "indexed (env_U E) ?sk1 (qws_ws x)" if "x \<in> set xs" for x
    using that ix sx by (auto simp: indexed_def reset_used_simps newQueuedWorkSpace_def)
  let ?sk2 = "fold (use_queued E) xs ?sk1"
  note F = use_queued_fold [OF reset_used_ok [OF ok] i1 so, where items = items, unfolded reset_used_simps]
  let ?sk3 = "if \<not> (execMine \<or> execPlot) then ?sk2\<lparr>sk_queue := plotterQueue_Reset ?Q (sk_queue ?sk2)\<rparr> else ?sk2"
  have q1: "items (pq_Prque (sk_queue ?sk1)) = {#}"
    by (simp add: reset_used_def plotterQueue_Reset_def prque_okD [OF Q])
  have q: "items (pq_Prque (sk_queue ?sk3)) = (if execPlot \<or> execMine then mset (map (\<lambda>x. (x, ?pri x)) xs) else {#})"
    using F Q q1 by (simp add: plotterQueue_Reset_def prque_okD [OF Q])
  have mx: "mset (map (\<lambda>x. (x, ?pri x)) xs) = mset (map (\<lambda>w. (newQueuedWorkSpace w execMine, ws_priority (sk_heap sk) w)) wsList)"
    by (simp add: xs(2) multiset.map_comp comp_def newQueuedWorkSpace_def)
  have uq: "(\<lambda>x s. useWorkSpace (env_U E) (qws_ws x) (queue_Push E x s)) = use_queued E"
    by (simp add: fun_eq_iff use_queued_def)
  have "applyConfiguredWorkSpaces E wsList execPlot execMine sk = (?sk3, Inr (map (\<lambda>w. ws_Info (env_U E) (the_ws ?sk3 w)) wsList))"
    using ne xs(1) unfolding applyConfiguredWorkSpaces_def Let_def uq reset_used_def [symmetric] by simp
  moreover have "qws_ws ` set xs = set wsList" unfolding sx by (force simp: newQueuedWorkSpace_def)
  ultimately show ?thesis using F q mx by (intro exI [of _ ?sk3]) auto
qed

section \<open>Fillers\<close>

text \<open>A configuration function collects work spaces, all of them indexed, and applies them.\<close>

locale filler =
  fixes E :: "('pk, 'q, 'w, 'sig) sk_env" and items :: "'q \<Rightarrow> (qws \<times> int) multiset" and keys :: "'w \<Rightarrow> 'pk set"
    and fill :: "('pk, 'q, 'w) spacekeeper \<Rightarrow> (('pk, 'q, 'w) spacekeeper \<times> (sk_error + nat list)) option"
  assumes fills: "prque_ok (env_Q E) items \<Longrightarrow> range_ok E \<Longrightarrow> wallet_ok E keys \<Longrightarrow> pubkey_ok (env_U E) \<Longrightarrow>
    cfg_inv E keys sk \<Longrightarrow> fill sk = Some (sk', res) \<Longrightarrow>
    cfg_inv E keys sk' \<and> (\<forall>l. res = Inr l \<longrightarrow> (\<forall>w\<in>set l. indexed (env_U E) sk' w))"
begin

lemma configure_keeps:
  assumes Q: "prque_ok (env_Q E) items" "range_ok E" "wallet_ok E keys" "pubkey_ok (env_U E)" and I: "cfg_inv E keys sk"
    and c: "configure E sk (\<lambda>sk1. case fill sk1 of None \<Rightarrow> None
        | Some (sk2, Inl err) \<Rightarrow> Some (sk2, Inl err)
        | Some (sk2, Inr l) \<Rightarrow> Some (successfullyReturn E execPlot execMine l sk2)) = Some (sk', res)"
  shows "cfg_inv E keys sk' \<and>
    (\<forall>infos. res = Inr infos \<longrightarrow> configured sk' \<and> \<not> configuring sk' \<and>
       (\<forall>w\<in>set (workSpaceList sk'). ws_using (the_ws sk' w)) \<and>
       set (map wsi_SpaceID infos) = set (map (sid_of (env_U E) sk') (workSpaceList sk')) \<and>
       sorted_wrt (\<lambda>w w'. ws_priority (sk_heap sk') w \<ge> ws_priority (sk_heap sk') w') (workSpaceList sk') \<and>
       (\<not> execPlot \<and> \<not> execMine \<longrightarrow> items (pq_Prque (sk_queue sk')) = {#}))"
proof (cases "begin_configure E sk")
  case (Inl e)
  with c I show ?thesis by (auto simp: configure_def)
next
  case (Inr sk1)
  have "cfg_inv E keys sk1"
    using I Inr by (auto simp: begin_configure_def cfg_inv_def split: if_splits)
  note fk = fills [OF Q this]
  from c Inr obtain sk2 r where f: "fill sk1 = Some (sk2, r)"
    by (auto simp: configure_def split: option.splits)
  show ?thesis
  proof (cases r)
    case (Inl e)
    with c Inr f fk show ?thesis by (auto simp: configure_def \<open>begin_configure E sk = Inr sk1\<close> cfg_inv_def)
  next
    case (Inr l)
    have I2: "cfg_inv E keys sk2" and il: "\<And>w. w \<in> set l \<Longrightarrow> indexed (env_U E) sk2 w" using fk [OF f] Inr by auto
    have ok: "index_ok (env_U E) sk2" using I2 by (simp add: cfg_inv_def)
    show ?thesis
    proof (cases "l = []")
      case True
      with c f Inr I2 show ?thesis
        by (auto simp: configure_def \<open>begin_configure E sk = Inr sk1\<close> successfullyReturn_def applyConfiguredWorkSpaces_def cfg_inv_def)
    next
      case False
      from apply_configured [OF Q(1) ok False il, of execPlot execMine] obtain sk3 where
        a: "applyConfiguredWorkSpaces E l execPlot execMine sk2 = (sk3, Inr (map (\<lambda>w. ws_Info (env_U E) (the_ws sk3 w)) l))"
          "index_ok (env_U E) sk3" "index_Get sk3 = index_Get sk2" "sk_wallet sk3 = sk_wallet sk2"
          "\<forall>r. ws_id (the_ws sk3 r) = ws_id (the_ws sk2 r)" "set (workSpaceList sk3) = set l"
          "sorted_wrt (\<lambda>w w'. ws_priority (sk_heap sk2) w \<ge> ws_priority (sk_heap sk2) w') (workSpaceList sk3)"
          "items (pq_Prque (sk_queue sk3)) = (if execPlot \<or> execMine
             then mset (map (\<lambda>w. (newQueuedWorkSpace w execMine, ws_priority (sk_heap sk2) w)) l) else {#})" by blast
      have sk': "sk' = sk3\<lparr>configured := True, configuring := False\<rparr>" "res = Inr (map (\<lambda>w. ws_Info (env_U E) (the_ws sk3 w)) l)"
        using c f Inr by (auto simp: configure_def \<open>begin_configure E sk = Inr sk1\<close> successfullyReturn_def a(1))
      have "cfg_inv E keys sk3" using I2 a by (simp add: cfg_inv_def)
      moreover have "ws_priority (sk_heap sk3) = ws_priority (sk_heap sk2)" using a(5) by (simp add: ws_priority_def fun_eq_iff)
      moreover have "\<forall>w\<in>set (workSpaceList sk3). ws_using (the_ws sk3 w)"
        using index_okD(7,8) [OF a(2)] by blast
      moreover have "set (map wsi_SpaceID (map (\<lambda>w. ws_Info (env_U E) (the_ws sk3 w)) l)) =
          set (map (sid_of (env_U E) sk3) (workSpaceList sk3))"
        unfolding map_map comp_def ws_Info_def sid_of_def by (simp add: a(6))
      ultimately show ?thesis
        using a(7,8) unfolding sk' by (auto simp: cfg_inv_def image_image)
    qed
  qed
qed

end

section \<open>The configuration functions are fillers\<close>

definition sources :: "(nat \<times> nat list) list \<Rightarrow> nat set" where
  "sources srcMap = (\<Union>l\<in>ran (map_of srcMap). set l)"

lemma sourcesI: "map_of srcMap bl = Some l \<Longrightarrow> w \<in> set l \<Longrightarrow> w \<in> sources srcMap"
  unfolding sources_def by (auto intro: ranI)

lemma fill_bl_set: "w \<in> set (fst (fill_bl cnt spaces dst cur)) \<Longrightarrow> w \<in> set dst \<or> w \<in> set spaces"
  by (induction cnt spaces dst cur rule: fill_bl.induct) (auto split: if_splits)

lemma fillBL_set:
  "w \<in> set (fst (fillSpaceListByBitLength srcMap target dst cc fin)) \<Longrightarrow> w \<in> set dst \<or> w \<in> sources srcMap"
proof (induction target arbitrary: dst cc fin)
  case (Cons bc target)
  obtain bl cnt where bc: "bc = (bl, cnt)" by (cases bc)
  show ?case
  proof (cases "map_of srcMap bl")
    case None
    with Cons show ?thesis by (auto simp: bc)
  next
    case (Some spaces)
    obtain dst' cur where f: "fill_bl cnt spaces dst (count_of cc bl) = (dst', cur)" by fastforce
    with Cons Some fill_bl_set [of w cnt spaces dst "count_of cc bl"] show ?thesis
      by (auto simp: bc intro: sourcesI)
  qed
qed simp

lemma fill_sized_set: "w \<in> set (fst (fill_sized ok sz target spaces dst cur)) \<Longrightarrow> w \<in> set dst \<or> w \<in> set spaces"
  by (induction ok sz target spaces dst cur rule: fill_sized.induct) (auto simp: Let_def split: if_splits)

lemma fill_sizes_set:
  "w \<in> set (fst (fill_sizes ok sz srcMap target bls dst cur)) \<Longrightarrow> w \<in> set dst \<or> w \<in> sources srcMap"
proof (induction bls arbitrary: dst cur)
  case (Cons bl bls)
  show ?case
  proof (cases "map_of srcMap bl")
    case None
    with Cons show ?thesis by auto
  next
    case (Some spaces)
    obtain dst' cur' where f: "fill_sized ok (sz bl) target spaces dst cur = (dst', cur')" by fastforce
    with Cons Some fill_sized_set [of w ok "sz bl" target spaces dst cur] show ?thesis by (auto intro: sourcesI)
  qed
qed simp

lemma indexed_refs_indexed:
  assumes ok: "index_ok U sk" and r: "r \<in> set (indexed_refs sk)"
  shows "indexed U sk r"
proof -
  obtain sid where "(sid, r) \<in> set (workSpaceIndex sk ! unat allState)" using r by (auto simp: indexed_refs_def)
  moreover have "distinct (map fst (workSpaceIndex sk ! unat allState))" using ok by (simp add: index_ok_def)
  ultimately have "index_Get sk allState sid = Some r" by (simp add: index_Get_def WorkSpaceMap_Get_def)
  with index_okD(3) [OF ok this] show ?thesis by (simp add: indexed_def)
qed

lemma getIndexed_indexed:
  assumes "prque_ok (env_Q E) items" "range_ok E" and ok: "index_ok (env_U E) sk"
  obtains srcMap where "getIndexedWorkSpaces E sk = Some srcMap" "\<And>w. w \<in> sources srcMap \<Longrightarrow> indexed (env_U E) sk w"
    "\<And>bl l w. map_of srcMap bl = Some l \<Longrightarrow> w \<in> set l \<Longrightarrow> ws_bl sk w = bl"
proof -
  from getIndexedWorkSpaces_sorted [OF assms] obtain m where m: "getIndexedWorkSpaces E sk = Some m"
    "\<forall>bl. case map_of m bl of None \<Rightarrow> bl \<notin> ws_bl sk ` set (indexed_refs sk)
      | Some l \<Rightarrow> mset l = mset (filter (\<lambda>w. ws_bl sk w = bl) (indexed_refs sk)) \<and>
          sorted_wrt (\<lambda>w w'. ws_priority (sk_heap sk) w \<ge> ws_priority (sk_heap sk) w') l" by blast
  have l: "set l = {w \<in> set (indexed_refs sk). ws_bl sk w = bl}" if "map_of m bl = Some l" for bl l
  proof -
    have "mset l = mset (filter (\<lambda>w. ws_bl sk w = bl) (indexed_refs sk))" using spec [OF m(2), of bl] that by simp
    then have "set l = set (filter (\<lambda>w. ws_bl sk w = bl) (indexed_refs sk))" by (metis set_mset_mset)
    then show ?thesis by auto
  qed
  show thesis
  proof (rule that [OF m(1)])
    fix w assume "w \<in> sources m"
    then show "indexed (env_U E) sk w" using l indexed_refs_indexed [OF ok] by (auto simp: sources_def ran_def)
  next
    fix bl ws w assume "map_of m bl = Some ws" "w \<in> set ws"
    then show "ws_bl sk w = bl" using l by auto
  qed
qed

definition fill_by_bl ::
  "('pk, 'q, 'w, 'sig) sk_env \<Rightarrow> 'pk cfg_orders \<Rightarrow> nat \<Rightarrow> (nat \<times> int) list \<Rightarrow> ('pk, 'q, 'w) spacekeeper
     \<Rightarrow> (('pk, 'q, 'w) spacekeeper \<times> (sk_error + nat list)) option" where
  "fill_by_bl E R fuel BlCount sk1 =
     (case getIndexedWorkSpaces E sk1 of None \<Rightarrow> Some (sk1, Inl SKPanic)
      | Some srcMap \<Rightarrow>
        (case fillSpaceListByBitLength srcMap (range_by (bl_order R 0) BlCount) [] [] True of
           (resultList, currentCount, finished) \<Rightarrow>
             if finished then Some (sk1, Inr resultList)
             else generateFillSpaceListByBitLength E R fuel resultList currentCount BlCount sk1))"

definition fill_by_size ::
  "('pk, 'q, 'w, 'sig) sk_env \<Rightarrow> nat \<Rightarrow> u64 \<Rightarrow> ('pk, 'q, 'w) spacekeeper
     \<Rightarrow> (('pk, 'q, 'w) spacekeeper \<times> (sk_error + nat list)) option" where
  "fill_by_size E fuel targetSize sk1 =
     (if targetSize < PlotSize E (usableBitLength ! 0) then Some (sk1, Inl ErrConfigUnderSizeTarget)
      else case getIndexedWorkSpaces E sk1 of None \<Rightarrow> Some (sk1, Inl SKPanic)
      | Some srcMap \<Rightarrow>
        (case fillSpaceListBySize E [] srcMap 0 (sint targetSize) of
           (resultList, currentSize, finished) \<Rightarrow>
             if finished then Some (sk1, Inr resultList)
             else map_option (\<lambda>(sk2, _, res). (sk2, res))
                    (generateFillSpaceListBySize E fuel resultList currentSize (sint targetSize) sk1)))"

definition fill_by_path ::
  "('pk, 'q, 'w, 'sig) sk_env \<Rightarrow> dir_env \<Rightarrow> nat \<Rightarrow> string list \<Rightarrow> int list \<Rightarrow> ('pk, 'q, 'w) spacekeeper
     \<Rightarrow> (('pk, 'q, 'w) spacekeeper \<times> (sk_error + nat list)) option" where
  "fill_by_path E D fuel paths sizes sk1 =
     (if length paths = 0 \<or> length paths \<noteq> length sizes then Some (sk1, Inl ErrConfigInvalidPathSize)
      else case check_paths D paths of Inl err \<Rightarrow> Some (sk1, Inl err)
      | Inr absDirs \<Rightarrow>
        (case generateInitialIndex E D (sk1\<lparr>dbDirs := absDirs\<rparr>) of
           (sk2, Some err) \<Rightarrow> Some (sk2, Inl err)
         | (sk2, None) \<Rightarrow> fill_paths E fuel (zip absDirs sizes) [] sk2))"

definition fill_by_flags ::
  "('pk, 'q, 'w, 'sig) sk_env \<Rightarrow> WorkSpaceStateFlags \<Rightarrow> ('pk, 'q, 'w) spacekeeper
     \<Rightarrow> (('pk, 'q, 'w) spacekeeper \<times> (sk_error + nat list)) option" where
  "fill_by_flags E flags sk1 =
     Some (sk1, Inr (concat (map (\<lambda>state. map snd (go_range (range_order E)
       (WorkSpaceMap_Items (workSpaceIndex sk1 ! unat state)))) (Flags_States flags))))"

definition conclude ::
  "('pk, 'q, 'w, 'sig) sk_env \<Rightarrow> bool \<Rightarrow> bool
     \<Rightarrow> (('pk, 'q, 'w) spacekeeper \<Rightarrow> (('pk, 'q, 'w) spacekeeper \<times> (sk_error + nat list)) option)
     \<Rightarrow> ('pk, 'q, 'w) spacekeeper \<Rightarrow> (('pk, 'q, 'w) spacekeeper \<times> (sk_error + 'pk workspace_info list)) option" where
  "conclude E execPlot execMine fill =
     (\<lambda>sk1. case fill sk1 of None \<Rightarrow> None
        | Some (sk2, Inl err) \<Rightarrow> Some (sk2, Inl err)
        | Some (sk2, Inr l) \<Rightarrow> Some (successfullyReturn E execPlot execMine l sk2))"

lemma ConfigureByBitLength_fills:
  "ConfigureByBitLength E R fuel sk BlCount execPlot execMine =
     configure E sk (conclude E execPlot execMine (fill_by_bl E R fuel BlCount))"
  unfolding ConfigureByBitLength_def conclude_def fill_by_bl_def Let_def
  by (intro arg_cong [where f = "configure E sk"] ext) (auto split: option.splits prod.splits sum.splits)

lemma ConfigureBySize_fills:
  "ConfigureBySize E fuel sk targetSize execPlot execMine =
     configure E sk (conclude E execPlot execMine (fill_by_size E fuel targetSize))"
  unfolding ConfigureBySize_def conclude_def fill_by_size_def Let_def
  by (intro arg_cong [where f = "configure E sk"] ext) (auto split: option.splits prod.splits sum.splits)

lemma ConfigureByFlags_fills:
  "ConfigureByFlags E sk flags execPlot execMine =
     configure E sk (conclude E execPlot execMine (fill_by_flags E flags))"
  unfolding ConfigureByFlags_def conclude_def fill_by_flags_def Let_def by simp

lemma fill_by_bl_keeps:
  assumes "prque_ok (env_Q E) items" "range_ok E" "wallet_ok E keys" "pubkey_ok (env_U E)" "cfg_inv E keys sk"
    and f: "fill_by_bl E R fuel BlCount sk = Some (sk', res)"
  shows "cfg_inv E keys sk' \<and> (\<forall>l. res = Inr l \<longrightarrow> (\<forall>w\<in>set l. indexed (env_U E) sk' w))"
proof -
  have ok: "index_ok (env_U E) sk" using assms(5) by (simp add: cfg_inv_def)
  obtain srcMap where m: "getIndexedWorkSpaces E sk = Some srcMap" "\<And>w. w \<in> sources srcMap \<Longrightarrow> indexed (env_U E) sk w"
    using getIndexed_indexed [OF assms(1,2) ok] by metis
  obtain l cc fin where F: "fillSpaceListByBitLength srcMap (range_by (bl_order R 0) BlCount) [] [] True = (l, cc, fin)"
    by (cases "fillSpaceListByBitLength srcMap (range_by (bl_order R 0) BlCount) [] [] True") auto
  have il: "\<And>w. w \<in> set l \<Longrightarrow> indexed (env_U E) sk w"
    using fillBL_set [of _ srcMap "range_by (bl_order R 0) BlCount" "[]" "[]" True] F m(2) by auto
  show ?thesis
  proof (cases fin)
    case True
    with f F m il assms(5) show ?thesis by (auto simp: fill_by_bl_def)
  next
    case False
    with f F m have g: "generateFillSpaceListByBitLength E R fuel l cc BlCount sk = Some (sk', res)" by (simp add: fill_by_bl_def)
    show ?thesis
    proof (cases "res = Inl ErrWorkSpaceCannotGenerate \<or> sk' = sk \<and> (\<exists>e. res = Inl e)")
      case True
      with g assms(5) gen_bls_keeps [OF assms(3,4,5) il] show ?thesis
        by (auto simp: generateFillSpaceListByBitLength_def gen_ok_def split: if_splits option.splits)
    next
      case False
      with g have "gen_bls E fuel cc (range_by (bl_order R 2) BlCount) l sk = Some (sk', res)"
        by (auto simp: generateFillSpaceListByBitLength_def split: if_splits option.splits)
      from gen_bls_keeps [OF assms(3,4,5) il this] show ?thesis by (simp add: gen_ok_def)
    qed
  qed
qed

lemma fill_by_size_keeps:
  assumes "prque_ok (env_Q E) items" "range_ok E" "wallet_ok E keys" "pubkey_ok (env_U E)" "cfg_inv E keys sk"
    and f: "fill_by_size E fuel target sk = Some (sk', res)"
  shows "cfg_inv E keys sk' \<and> (\<forall>l. res = Inr l \<longrightarrow> (\<forall>w\<in>set l. indexed (env_U E) sk' w))"
proof -
  have ok: "index_ok (env_U E) sk" using assms(5) by (simp add: cfg_inv_def)
  obtain srcMap where m: "getIndexedWorkSpaces E sk = Some srcMap" "\<And>w. w \<in> sources srcMap \<Longrightarrow> indexed (env_U E) sk w"
    using getIndexed_indexed [OF assms(1,2) ok] by metis
  obtain l cur fin where F: "fillSpaceListBySize E [] srcMap 0 (sint target) = (l, cur, fin)"
    by (cases "fillSpaceListBySize E [] srcMap 0 (sint target)") auto
  have il: "\<And>w. w \<in> set l \<Longrightarrow> indexed (env_U E) sk w"
    using fill_sizes_set [of _ "\<lambda>_. True" "plot_int E" srcMap "sint target" allowedBL "[]" 0] F m(2)
    by (auto simp: fillSpaceListBySize_def split: prod.splits)
  have G: "cfg_inv E keys sk2 \<and> (\<forall>l. res2 = Inr l \<longrightarrow> (\<forall>w\<in>set l. indexed (env_U E) sk2 w))"
    if "gen_sizes E path fuel bls t l cur sk = Some (sk2, c2, res2)" for path bls t sk2 c2 res2
    using gen_sizes_keeps [OF assms(3,4,5) il that] by (auto simp: gen_ok_def)
  show ?thesis
    using f m F il assms(5) G
    by (auto simp: fill_by_size_def generateFillSpaceListBySize_def split: if_splits option.splits)
qed

lemma fill_by_flags_keeps:
  assumes "range_ok E" "cfg_inv E keys sk" and f: "fill_by_flags E flags sk = Some (sk', res)"
  shows "cfg_inv E keys sk' \<and> (\<forall>l. res = Inr l \<longrightarrow> (\<forall>w\<in>set l. indexed (env_U E) sk' w))"
proof -
  have ok: "index_ok (env_U E) sk" using assms(2) by (simp add: cfg_inv_def)
  have "indexed (env_U E) sk w"
    if s: "s \<in> set (Flags_States flags)" and w: "w \<in> set (map snd (go_range (range_order E) (WorkSpaceMap_Items (workSpaceIndex sk ! unat s))))" for s w
  proof -
    have v: "State_IsValid s" using s by (simp add: set_Flags_States)
    let ?m = "workSpaceIndex sk ! unat s"
    have d: "distinct (map fst ?m)" using ok unat_state [of s] v by (simp add: index_ok_def)
    have "mset (go_range (range_order E) ?m) = mset ?m" using mset_go_range [OF d] assms(1) by (simp add: range_ok_def)
    then have "set (go_range (range_order E) ?m) = set ?m" by (metis set_mset_mset)
    with w obtain sid where "(sid, w) \<in> set ?m" by (auto simp: Items_eq [OF d])
    then have "index_Get sk s sid = Some w" using d by (simp add: index_Get_def WorkSpaceMap_Get_def)
    from index_okD(5) [OF ok v this] index_okD(3) [OF ok] show ?thesis by (metis indexed_def)
  qed
  with f assms(2) show ?thesis by (force simp: fill_by_flags_def)
qed

lemma ConfigureByPath_fills:
  "ConfigureByPath E D fuel sk paths sizes execPlot execMine =
     configure E sk (conclude E execPlot execMine (fill_by_path E D fuel paths sizes))"
  unfolding ConfigureByPath_def conclude_def fill_by_path_def
  by (intro arg_cong [where f = "configure E sk"] ext) (auto split: option.splits prod.splits sum.splits)

lemma cfg_inv_fields [simp]: "cfg_inv E keys (sk\<lparr>dbDirs := d\<rparr>) \<longleftrightarrow> cfg_inv E keys sk"
  by (simp add: cfg_inv_def)

lemma index_file_keeps:
  assumes W: "wallet_ok E keys" and I: "cfg_inv E keys sk"
  shows "cfg_inv E keys (index_file E dbDir fileName sk)"
proof -
  have ok: "index_ok (env_U E) sk" and k: "\<And>sid r. index_Get sk allState sid = Some r \<Longrightarrow> sid_pubKey (ws_id (the_ws sk r)) \<in> keys (sk_wallet sk)"
    using I by (auto simp: cfg_inv_def)
  have err: "cfg_inv E keys sk'" if N: "sk_NewWorkSpace E dbDir ordinal pk bl sk = (sk', Inl e)" for ordinal pk bl sk' e
  proof -
    note e = sk_NewWorkSpace_extends [OF N]
    have "the_ws sk' r = the_ws sk r" if "index_Get sk allState sid = Some r" for sid r
      using e(1) index_okD(2) [OF ok that] by (simp add: extends_def)
    then show ?thesis using sk_NewWorkSpace_ok(1) [OF ok N refl] e(2,3) k by (auto simp: cfg_inv_def)
  qed
  have new: "cfg_inv E keys (addWorkSpaceToIndex (env_U E) r sk')"
    if N: "sk_NewWorkSpace E dbDir ordinal pk bl sk = (sk', Inr r)" and pk: "pk \<in> keys (sk_wallet sk)"
      and none: "index_Get sk allState (SpaceID_String (env_U E) (NewSpaceID (env_U E) ordinal pk bl)) = None" for ordinal pk bl sk' r
  proof -
    note n = new_indexed [OF ok N none]
    let ?sk2 = "addWorkSpaceToIndex (env_U E) r sk'"
    have w: "sk_wallet ?sk2 = sk_wallet sk"
      using add_extends(2) [OF sk_NewWorkSpace_ok(1) [OF ok N refl]] sk_NewWorkSpace_extends(2) [OF N] by simp
    have "sid_pubKey (ws_id (the_ws ?sk2 q)) \<in> keys (sk_wallet sk)" if "index_Get ?sk2 allState sid = Some q" for sid q
    proof (cases "q = r")
      case False
      with n(5) [OF that] have q: "index_Get sk allState sid = Some q" by simp
      then have "the_ws ?sk2 q = the_ws sk q" using n(2) index_okD(2) [OF ok q] by (simp add: extends_def)
      with k [OF q] show ?thesis by simp
    qed (use n(6) pk in simp)
    with n(1) w show ?thesis by (simp add: cfg_inv_def)
  qed
  have "pk \<in> keys (sk_wallet sk)" if "GetPublicKeyOrdinal E (sk_wallet sk) pk = Some ordinal" for pk ordinal
    using W that unfolding wallet_ok_def by (metis option.distinct(1))
  with I err new show ?thesis
    by (auto simp: index_file_def Let_def split: sum.splits option.splits prod.splits)
qed

lemma more_maps_keeps:
  assumes I: "cfg_inv E keys sk"
  shows "cfg_inv E keys (sk\<lparr>workSpaceIndex := workSpaceIndex sk @ replicate 5 NewWorkSpaceMap\<rparr>)"
proof -
  have ok: "index_ok (env_U E) sk" using I by (simp add: cfg_inv_def)
  have "index_Get (sk\<lparr>workSpaceIndex := workSpaceIndex sk @ replicate 5 NewWorkSpaceMap\<rparr>) allState x = index_Get sk allState x" for x
    using index_okD(1) [OF ok] by (simp add: index_Get_def nth_append)
  with I more_maps_ok [of "env_U E" sk] show ?thesis by (simp add: cfg_inv_def)
qed

lemma generateInitialIndex_keeps:
  assumes W: "wallet_ok E keys" and I: "cfg_inv E keys sk" and g: "generateInitialIndex E D sk = (sk', err)"
  shows "cfg_inv E keys sk'"
  using more_maps_keeps [OF I] g index_file_keeps [OF W]
  by (auto simp: generateInitialIndex_def Let_def case_prod_unfold intro!: fold_ok [where P = "cfg_inv E keys"] split: if_splits)

lemma fill_paths_keeps:
  assumes "prque_ok (env_Q E) items" "range_ok E" "wallet_ok E keys" "pubkey_ok (env_U E)"
  shows "cfg_inv E keys sk \<Longrightarrow> (\<And>w. w \<in> set l \<Longrightarrow> indexed (env_U E) sk w) \<Longrightarrow> fill_paths E fuel dirs l sk = Some (sk', res) \<Longrightarrow>
    cfg_inv E keys sk' \<and> (\<forall>l. res = Inr l \<longrightarrow> (\<forall>w\<in>set l. indexed (env_U E) sk' w))"
proof (induction dirs arbitrary: l sk)
  case (Cons dt dirs)
  obtain dir target where dt: "dt = (dir, target)" by (cases dt)
  have ok: "index_ok (env_U E) sk" using Cons.prems(1) by (simp add: cfg_inv_def)
  obtain srcMap where m: "getIndexedWorkSpaces E sk = Some srcMap" "\<And>w. w \<in> sources srcMap \<Longrightarrow> indexed (env_U E) sk w"
    using getIndexed_indexed [OF assms(1,2) ok] by metis
  obtain pl cur fin where F: "fillSpaceListByPathSize E sk dir [] srcMap 0 target = (pl, cur, fin)"
    by (cases "fillSpaceListByPathSize E sk dir [] srcMap 0 target") auto
  have ip: "\<And>w. w \<in> set pl \<Longrightarrow> indexed (env_U E) sk w"
    using fill_sizes_set [of _ "\<lambda>w. ws_rootDir (the_ws sk w) = dir" "plot_int E" srcMap target allowedBL "[]" 0] F m(2)
    by (auto simp: fillSpaceListByPathSize_def split: prod.splits)
  show ?case
  proof (cases fin)
    case True
    then have "fill_paths E fuel dirs (l @ pl) sk = Some (sk', res)" using Cons.prems(3) F m(1) by (simp add: dt)
    then show ?thesis using Cons.prems(1,2) ip by (intro Cons.IH [of sk "l @ pl"]) auto
  next
    case False
    obtain sk1 c1 r1 where g: "generateFillSpaceListByPathSize E fuel dir pl cur target sk = Some (sk1, c1, r1)"
      using Cons.prems(3) F m(1) False by (auto simp: dt split: option.splits)
    show ?thesis
    proof (cases r1)
      case (Inl e)
      then have "sk' = sk1" "res = Inl e" using Cons.prems(3) F m(1) False g by (auto simp: dt)
      moreover have "cfg_inv E keys sk1"
        using g Cons.prems(1) gen_sizes_keeps [OF assms(3,4) Cons.prems(1) ip]
        by (auto simp: generateFillSpaceListByPathSize_def gen_ok_def split: if_splits option.splits)
      ultimately show ?thesis by simp
    next
      case (Inr pl2)
      have "gen_sizes E dir fuel allowedBL target pl cur sk = Some (sk1, c1, Inr pl2)"
        using g Inr by (auto simp: generateFillSpaceListByPathSize_def split: if_splits option.splits)
      from gen_sizes_keeps [OF assms(3,4) Cons.prems(1) ip this] have G: "cfg_inv E keys sk1" "extends sk sk1"
        "\<And>w. w \<in> set pl2 \<Longrightarrow> indexed (env_U E) sk1 w" by (auto simp: gen_ok_def)
      have "fill_paths E fuel dirs (l @ pl2) sk1 = Some (sk', res)" using Cons.prems(3) F m(1) False g Inr by (simp add: dt)
      then show ?thesis
        using G indexed_extends(1) [OF ok G(2)] Cons.prems(2) by (intro Cons.IH [of sk1 "l @ pl2"]) auto
    qed
  qed
qed auto

lemma fill_by_path_keeps:
  assumes A: "prque_ok (env_Q E) items" "range_ok E" "wallet_ok E keys" "pubkey_ok (env_U E)" and I: "cfg_inv E keys sk"
    and f: "fill_by_path E D fuel paths sizes sk = Some (sk', res)"
  shows "cfg_inv E keys sk' \<and> (\<forall>l. res = Inr l \<longrightarrow> (\<forall>w\<in>set l. indexed (env_U E) sk' w))"
proof -
  have g: "cfg_inv E keys sk2" if "generateInitialIndex E D (sk\<lparr>dbDirs := d\<rparr>) = (sk2, err)" for d sk2 err
    using generateInitialIndex_keeps [OF A(3) _ that] I by simp
  consider e where "sk' = sk" "res = Inl e"
    | d e where "generateInitialIndex E D (sk\<lparr>dbDirs := d\<rparr>) = (sk', Some e)" "res = Inl e"
    | d sk2 where "generateInitialIndex E D (sk\<lparr>dbDirs := d\<rparr>) = (sk2, None)" "fill_paths E fuel (zip d sizes) [] sk2 = Some (sk', res)"
    using f by (auto simp: fill_by_path_def split: if_splits sum.splits prod.splits option.splits)
  then show ?thesis
  proof cases
    case 3
    show ?thesis by (rule fill_paths_keeps [OF A g [OF 3(1)] _ 3(2)]) simp
  qed (use I g in auto)
qed

interpretation by_path: filler E items keys "fill_by_path E D fuel paths sizes" for E items keys D fuel paths sizes
  by unfold_locales (rule fill_by_path_keeps)

interpretation by_bl: filler E items keys "fill_by_bl E R fuel BlCount" for E items keys R fuel BlCount
  by unfold_locales (rule fill_by_bl_keeps)

interpretation by_size: filler E items keys "fill_by_size E fuel target" for E items keys fuel target
  by unfold_locales (rule fill_by_size_keeps)

interpretation by_flags: filler E items keys "fill_by_flags E flags" for E items keys flags
  by unfold_locales (rule fill_by_flags_keeps)

end
