(* ===== verification/Config_Size.thy ===== *)
theory Config_Size
  imports Config_Keep
begin

text \<open>
  Configuration by size: the chosen and generated work spaces together never exceed the target, what
  is left of it is less than the smallest plot, and the loops end.
\<close>

definition total_of :: "('pk, 'q, 'w, 'sig) sk_env \<Rightarrow> ('pk, 'q, 'w) spacekeeper \<Rightarrow> nat list \<Rightarrow> int" where
  "total_of E sk ws = total (\<lambda>w. plot_int E (ws_bl sk w)) ws"

text \<open>The plot sizes are positive and far from overflow (a plot of bit length 40 has \<open>2 ^ 43\<close> bytes or so).\<close>

definition sizes_ok :: "('pk, 'q, 'w, 'sig) sk_env \<Rightarrow> bool" where
  "sizes_ok E \<longleftrightarrow> (\<forall>bl. 0 < plot_int E bl \<and> plot_int E bl < 2 ^ 62) \<and> MinValidDefaultBitLength E = 24"

lemma total_of_extends:
  assumes "index_ok (env_U E) sk" "extends sk sk'" "\<And>w. w \<in> set ws \<Longrightarrow> indexed (env_U E) sk w"
  shows "total_of E sk' ws = total_of E sk ws"
proof -
  have "map (\<lambda>w. plot_int E (ws_bl sk' w)) ws = map (\<lambda>w. plot_int E (ws_bl sk w)) ws"
    using indexed_extends(2) [OF assms(1,2)] assms(3) by simp
  then show ?thesis by (simp only: total_of_def total_def)
qed

lemma gen_sized_total:
  assumes W: "wallet_ok E keys" and P: "pubkey_ok (env_U E)" and S: "sizes_ok E" and t: "target < 2 ^ 62"
  shows "cfg_inv E keys sk \<Longrightarrow> (\<And>w. w \<in> set dst \<Longrightarrow> indexed (env_U E) sk w) \<Longrightarrow> 0 \<le> cur \<Longrightarrow> cur \<le> target \<Longrightarrow>
    gen_sized E path fuel bl target dst cur sk = Some (sk', cur', Inr dst') \<Longrightarrow>
    cur \<le> cur' \<and> cur' \<le> target \<and> target - cur' < plot_int E bl \<and> total_of E sk' dst' - cur' = total_of E sk dst - cur"
proof (induction fuel arbitrary: dst cur sk)
  case (Suc fuel)
  have s: "0 < plot_int E bl" "plot_int E bl < 2 ^ 62" using S by (auto simp: sizes_ok_def)
  have g0: "go_int (target - cur) = target - cur" using Suc.prems(3,4) t by (intro go_int_small) auto
  show ?case
  proof (cases "target - cur < plot_int E bl")
    case True
    with Suc.prems g0 show ?thesis by simp
  next
    case False
    have g1: "go_int (cur + plot_int E bl) = cur + plot_int E bl"
      using Suc.prems(3,4) t s by (intro go_int_small) auto
    obtain sk1 r where g: "generateNewWorkSpaceByPath E path bl sk = (sk1, Inr r)"
      using Suc.prems(5) False g0 by (auto simp: Let_def split: prod.splits sum.splits)
    let ?sk2 = "addWorkSpaceToIndex (env_U E) r sk1"
    have G: "cfg_inv E keys ?sk2" "extends sk ?sk2" "ws_bl ?sk2 r = bl"
      using generate_keeps(2) [OF Suc.prems(1) W P g refl] by auto
    have i2: "\<And>w. w \<in> set (dst @ [r]) \<Longrightarrow> indexed (env_U E) ?sk2 w"
      using generate_indexed(3) [OF Suc.prems(1) W P g, of dst] Suc.prems(2) by auto
    have "total_of E ?sk2 dst = total_of E sk dst"
      using Suc.prems(1,2) G(2) by (intro total_of_extends) (auto simp: cfg_inv_def)
    then have tt: "total_of E ?sk2 (dst @ [r]) = total_of E sk dst + plot_int E bl"
      using G(3) by (simp add: total_of_def total_def)
    have "gen_sized E path fuel bl target (dst @ [r]) (cur + plot_int E bl) ?sk2 = Some (sk', cur', Inr dst')"
      using Suc.prems(5) False g0 g1 g by (simp add: Let_def)
    then have "cur + plot_int E bl \<le> cur' \<and> cur' \<le> target \<and> target - cur' < plot_int E bl \<and>
        total_of E sk' dst' - cur' = total_of E ?sk2 (dst @ [r]) - (cur + plot_int E bl)"
      using False Suc.prems(3) s by (intro Suc.IH G(1) i2) auto
    then show ?thesis using tt s by auto
  qed
qed simp

lemma gen_sizes_total:
  assumes W: "wallet_ok E keys" and P: "pubkey_ok (env_U E)" and S: "sizes_ok E" and t: "target < 2 ^ 62"
  shows "cfg_inv E keys sk \<Longrightarrow> (\<And>w. w \<in> set dst \<Longrightarrow> indexed (env_U E) sk w) \<Longrightarrow> 0 \<le> cur \<Longrightarrow> cur \<le> target \<Longrightarrow>
    gen_sizes E path fuel bls target dst cur sk = Some (sk', cur', Inr dst') \<Longrightarrow>
    cur' \<le> target \<and> total_of E sk' dst' - cur' = total_of E sk dst - cur \<and>
    (bls \<noteq> [] \<longrightarrow> target - cur' < plot_int E (last bls))"
proof (induction bls arbitrary: dst cur sk)
  case (Cons bl bls)
  obtain sk1 cur1 dst1 where g: "gen_sized E path fuel bl target dst cur sk = Some (sk1, cur1, Inr dst1)"
    using Cons.prems(5) by (auto split: option.splits prod.splits sum.splits)
  note T = gen_sized_total [OF W P S t Cons.prems(1-4) g]
  have K: "gen_ok E keys sk dst (sk1, Inr dst1)" by (rule gen_sized_keeps [OF W P Cons.prems(1,2) g])
  have k: "cfg_inv E keys sk1" "\<And>w. w \<in> set dst1 \<Longrightarrow> indexed (env_U E) sk1 w" using K by (auto simp: gen_ok_def)
  have c1: "0 \<le> cur1" "cur1 \<le> target" using T Cons.prems(3) by auto
  have r: "gen_sizes E path fuel bls target dst1 cur1 sk1 = Some (sk', cur', Inr dst')" using Cons.prems(5) g by simp
  have "cur' \<le> target \<and> total_of E sk' dst' - cur' = total_of E sk1 dst1 - cur1 \<and> (bls \<noteq> [] \<longrightarrow> target - cur' < plot_int E (last bls))"
    using k(2) by (intro Cons.IH [OF k(1) _ c1 r]) auto
  with T r show ?case by (cases bls) auto
qed simp

lemma fill_by_size_total:
  assumes A: "prque_ok (env_Q E) items" "range_ok E" "wallet_ok E keys" "pubkey_ok (env_U E)" and S: "sizes_ok E"
    and I: "cfg_inv E keys sk" and t: "0 \<le> sint target" "sint target < 2 ^ 62"
    and f: "fill_by_size E fuel target sk = Some (sk', Inr l)"
  shows "total_of E sk' l \<le> sint target \<and> sint target - total_of E sk' l < plot_int E 24"
proof -
  have ok: "index_ok (env_U E) sk" using I by (simp add: cfg_inv_def)
  obtain srcMap where m: "getIndexedWorkSpaces E sk = Some srcMap" "\<And>w. w \<in> sources srcMap \<Longrightarrow> indexed (env_U E) sk w"
    "\<And>bl ws w. map_of srcMap bl = Some ws \<Longrightarrow> w \<in> set ws \<Longrightarrow> ws_bl sk w = bl"
    using getIndexed_indexed [OF A(1,2) ok] by metis
  have s: "\<And>bl. 0 \<le> plot_int E bl \<and> plot_int E bl < 2 ^ 62" using S by (auto simp: sizes_ok_def less_imp_le)
  obtain dst cur where F: "fill_sizes (\<lambda>_. True) (plot_int E) srcMap (sint target) allowedBL [] 0 = (dst, cur)" by fastforce
  have B: "cur = total_of E sk dst" "0 \<le> cur" "cur \<le> sint target"
    using fill_sizes_bound [of "plot_int E" 0 "sint target" srcMap "ws_bl sk" "\<lambda>_. True" allowedBL "[]"] s t m(3) F
    by (auto simp: total_of_def)
  have il: "\<And>w. w \<in> set dst \<Longrightarrow> indexed (env_U E) sk w"
    using fill_sizes_set [of _ "\<lambda>_. True" "plot_int E" srcMap "sint target" allowedBL "[]" 0] F m(2) by auto
  have d: "fill_done E cur (sint target) \<longleftrightarrow> sint target - cur < plot_int E 24"
    using B t S go_int_small [of "sint target - cur"] by (auto simp: fill_done_def sizes_ok_def)
  show ?thesis
  proof (cases "fill_done E cur (sint target)")
    case True
    then have "sk' = sk" "l = dst" using f m(1) F by (auto simp: fill_by_size_def fillSpaceListBySize_def split: if_splits)
    with True B d show ?thesis by simp
  next
    case False
    with f m(1) F obtain c where
      "gen_sizes E (hd (dbDirs sk)) fuel allowedBL (sint target) dst cur sk = Some (sk', c, Inr l)"
      by (auto simp: fill_by_size_def fillSpaceListBySize_def generateFillSpaceListBySize_def split: if_splits option.splits)
    from gen_sizes_total [OF A(3,4) S t(2) I il B(2,3) this] show ?thesis using B by (auto simp: allowedBL_eq)
  qed
qed

section \<open>The loops end\<close>

lemma gen_sized_ends:
  assumes S: "sizes_ok E" and t: "target < 2 ^ 62"
  shows "0 \<le> cur \<Longrightarrow> cur \<le> target \<Longrightarrow> nat (target - cur) < fuel \<Longrightarrow>
    \<exists>sk' cur' res. gen_sized E path fuel bl target dst cur sk = Some (sk', cur', res) \<and>
      (\<forall>dst'. res = Inr dst' \<longrightarrow> cur \<le> cur' \<and> cur' \<le> target)"
proof (induction fuel arbitrary: dst cur sk)
  case (Suc fuel)
  have s: "0 < plot_int E bl" "plot_int E bl < 2 ^ 62" using S by (auto simp: sizes_ok_def)
  have g0: "go_int (target - cur) = target - cur" using Suc.prems t by (intro go_int_small) auto
  show ?case
  proof (cases "target - cur < plot_int E bl")
    case True
    with Suc.prems g0 show ?thesis by simp
  next
    case False
    have g1: "go_int (cur + plot_int E bl) = cur + plot_int E bl" using Suc.prems t s by (intro go_int_small) auto
    obtain sk1 res1 where g: "generateNewWorkSpaceByPath E path bl sk = (sk1, res1)" by fastforce
    show ?thesis
    proof (cases res1)
      case (Inr r)
      have p: "0 \<le> cur + plot_int E bl" "cur + plot_int E bl \<le> target" "nat (target - (cur + plot_int E bl)) < fuel"
        using Suc.prems s False by auto
      from Suc.IH [OF p, of "dst @ [r]" "addWorkSpaceToIndex (env_U E) r sk1"] False g0 g1 g Inr s
      show ?thesis by (fastforce simp: Let_def)
    qed (use False g0 g1 g in \<open>simp add: Let_def\<close>)
  qed
qed simp

lemma gen_sizes_ends:
  assumes S: "sizes_ok E" and t: "target < 2 ^ 62"
  shows "0 \<le> cur \<Longrightarrow> cur \<le> target \<Longrightarrow> nat target < fuel \<Longrightarrow>
    \<exists>r. gen_sizes E path fuel bls target dst cur sk = Some r"
proof (induction bls arbitrary: dst cur sk)
  case (Cons bl bls)
  have "nat (target - cur) < fuel" using Cons.prems by auto
  from gen_sized_ends [OF S t Cons.prems(1,2) this, of path bl dst sk] obtain sk1 cur1 res where
    g: "gen_sized E path fuel bl target dst cur sk = Some (sk1, cur1, res)"
      "\<forall>dst'. res = Inr dst' \<longrightarrow> cur \<le> cur1 \<and> cur1 \<le> target" by blast
  show ?case
  proof (cases res)
    case (Inr dst')
    with g Cons.prems have "0 \<le> cur1" "cur1 \<le> target" by auto
    from Cons.IH [OF this Cons.prems(3), of dst' sk1] show ?thesis using g Inr by simp
  qed (use g in simp)
qed simp

lemma ConfigureBySize_ends:
  assumes Q: "prque_ok (env_Q E) items" "range_ok E" and S: "sizes_ok E" and ok: "index_ok (env_U E) sk"
    and t: "0 \<le> sint target" "sint target < 2 ^ 62" and fuel: "nat (sint target) < fuel"
  shows "\<exists>r. ConfigureBySize E fuel sk target execPlot execMine = Some r"
proof (cases "begin_configure E sk")
  case (Inr sk1)
  have ok1: "index_ok (env_U E) sk1" using ok Inr by (auto simp: begin_configure_def split: if_splits)
  obtain srcMap where m: "getIndexedWorkSpaces E sk1 = Some srcMap"
    "\<And>bl ws w. map_of srcMap bl = Some ws \<Longrightarrow> w \<in> set ws \<Longrightarrow> ws_bl sk1 w = bl"
    using getIndexed_indexed [OF Q ok1] by metis
  have s: "\<And>bl. 0 \<le> plot_int E bl \<and> plot_int E bl < 2 ^ 62" using S by (auto simp: sizes_ok_def less_imp_le)
  obtain dst cur where F: "fill_sizes (\<lambda>_. True) (plot_int E) srcMap (sint target) allowedBL [] 0 = (dst, cur)" by fastforce
  have B: "0 \<le> cur" "cur \<le> sint target"
    using fill_sizes_bound [of "plot_int E" 0 "sint target" srcMap "ws_bl sk1" "\<lambda>_. True" allowedBL "[]"] s t m(2) F by auto
  obtain sk2 c res where G: "gen_sizes E (hd (dbDirs sk1)) fuel allowedBL (sint target) dst cur sk1 = Some (sk2, c, res)"
    using gen_sizes_ends [OF S t(2) B fuel] by (metis prod_cases3)
  then have "\<exists>r. fill_by_size E fuel target sk1 = Some r"
    using m(1) F by (auto simp: fill_by_size_def fillSpaceListBySize_def generateFillSpaceListBySize_def split: option.splits) 
  then show ?thesis
    using Inr by (auto simp: ConfigureBySize_fills configure_def conclude_def simp del: split_paired_Ex split: sum.splits)
qed (simp add: ConfigureBySize_fills configure_def)

section \<open>What a configuration by size reports\<close>

lemma ConfigureBySize_total:
  assumes A: "prque_ok (env_Q E) items" "range_ok E" "wallet_ok E keys" "pubkey_ok (env_U E)" and S: "sizes_ok E"
    and I: "cfg_inv E keys sk" and t: "0 \<le> sint target" "sint target < 2 ^ 62"
    and c: "ConfigureBySize E fuel sk target execPlot execMine = Some (sk', Inr infos)"
  shows "sum_list (map (\<lambda>i. plot_int E (wsi_BitLength i)) infos) \<le> sint target \<and>
    sint target - sum_list (map (\<lambda>i. plot_int E (wsi_BitLength i)) infos) < plot_int E 24"
proof -
  obtain sk1 where b: "begin_configure E sk = Inr sk1"
    using c by (cases "begin_configure E sk") (auto simp: ConfigureBySize_fills configure_def)
  have I1: "cfg_inv E keys sk1" using I b by (auto simp: begin_configure_def cfg_inv_def split: if_splits)
  obtain sk2 l where f: "fill_by_size E fuel target sk1 = Some (sk2, Inr l)"
    and s: "snd (successfullyReturn E execPlot execMine l sk2) = Inr infos"
    using c b by (auto simp: ConfigureBySize_fills configure_def conclude_def split: option.splits sum.splits)
  note T = fill_by_size_total [OF A S I1 t f] and K = by_size.fills [OF A I1 f]
  have ok2: "index_ok (env_U E) sk2" using K by (simp add: cfg_inv_def)
  have ne: "l \<noteq> []" using s by (auto simp: successfullyReturn_def applyConfiguredWorkSpaces_def)
  obtain sk3 where a: "applyConfiguredWorkSpaces E l execPlot execMine sk2 = (sk3, Inr (map (\<lambda>w. ws_Info (env_U E) (the_ws sk3 w)) l))"
    "\<forall>r. ws_id (the_ws sk3 r) = ws_id (the_ws sk2 r)"
    using apply_configured [OF A(1) ok2 ne, of execPlot execMine] K by blast
  then have "infos = map (\<lambda>w. ws_Info (env_U E) (the_ws sk3 w)) l" using s by (simp add: successfullyReturn_def)
  then have "sum_list (map (\<lambda>i. plot_int E (wsi_BitLength i)) infos) = total_of E sk2 l"
    using a(2) by (simp add: comp_def ws_Info_def total_of_def total_def ws_bl_def)
  with T show ?thesis by simp
qed

end
