(* ===== verification/Miner_Config.thy ===== *)
theory Miner_Config
  imports Config_Fill
begin

text \<open>
  The configuration of the program, package \<open>config\<close>: the list of proofs of \<open>util.go\<close>, and the checks
  of \<open>config.go\<close>. Reading the file and decoding its JSON is left out. The sections that belong to the
  core package hold only the fields this package reads or sets; a section that the file leaves out
  by an explicit null is \<open>None\<close>.
\<close>

section \<open>The list of proofs\<close>

datatype proof_list_error =
    PLWrongFormat string "string list" | PLWrongBitLengthStr "string list" string | PLBitLength "string list" int
  | PLWrongCountStr "string list" string | PLCount "string list" int

fun decode_items ::
  "(int \<Rightarrow> bool) \<Rightarrow> string \<Rightarrow> string list \<Rightarrow> (int \<times> int) list \<Rightarrow> proof_list_error + (int \<times> int) list" where
  "decode_items ensure proofList [] conf = Inr conf"
| "decode_items ensure proofList (item # items) conf =
     (let desc = strings_Split item CHR '':'' in
      if length desc \<noteq> 2 then Inl (PLWrongFormat proofList desc)
      else case Atoi (desc ! 0) of None \<Rightarrow> Inl (PLWrongBitLengthStr desc (desc ! 0))
      | Some bl \<Rightarrow>
        if \<not> ensure bl then Inl (PLBitLength desc bl)
        else case Atoi (desc ! 1) of None \<Rightarrow> Inl (PLWrongCountStr desc (desc ! 1))
        | Some cnt \<Rightarrow>
          if cnt < 0 then Inl (PLCount desc cnt)
          else decode_items ensure proofList items
            (case map_of conf bl of
               Some n \<Rightarrow> AList.update bl (go_int (n + cnt)) conf
             | None \<Rightarrow> AList.update bl cnt conf))"

definition DecodeProofList :: "(int \<Rightarrow> bool) \<Rightarrow> string \<Rightarrow> proof_list_error + (int \<times> int) list" where
  "DecodeProofList ensure proofList =
     (let stripped = filter (\<lambda>c. c \<noteq> CHR '' '') proofList
      in decode_items ensure stripped (strings_Split stripped CHR '','') [])"

text \<open>A list of pairs in the format of the configuration, and the sums it stands for.\<close>

definition print_item :: "int \<times> int \<Rightarrow> string" where
  "print_item i = strings_Join [Itoa (fst i), Itoa (snd i)] '':''"

definition print_list :: "(int \<times> int) list \<Rightarrow> string" where
  "print_list is = strings_Join (map print_item is) '',''"

definition sum_for :: "int \<Rightarrow> (int \<times> int) list \<Rightarrow> int" where
  "sum_for bl is = sum_list (map snd (filter (\<lambda>i. fst i = bl) is))"

definition item_ok :: "(int \<Rightarrow> bool) \<Rightarrow> int \<times> int \<Rightarrow> bool" where
  "item_ok ensure i \<longleftrightarrow> - (2 ^ 63) \<le> fst i \<and> fst i < 2 ^ 63 \<and> ensure (fst i) \<and> 0 \<le> snd i \<and> snd i < 2 ^ 63"

lemma Itoa_no_sep: "c \<in> set (Itoa i) \<Longrightarrow> c \<noteq> CHR '':'' \<and> c \<noteq> CHR '','' \<and> c \<noteq> CHR '' ''"
  using set_Itoa [of i] by (auto simp: is_digit_def)

lemma split_print_item: "strings_Split (print_item i) CHR '':'' = [Itoa (fst i), Itoa (snd i)]"
  unfolding print_item_def by (rule strings_Split_Join) (auto dest: Itoa_no_sep)

lemma print_item_chars: "c \<in> set (print_item i) \<Longrightarrow> c \<noteq> CHR '','' \<and> c \<noteq> CHR '' ''"
  by (auto simp: print_item_def dest: Itoa_no_sep)

lemma sum_for_nonneg: "\<forall>i\<in>set is. item_ok e i \<Longrightarrow> 0 \<le> sum_for bl is"
  unfolding sum_for_def by (intro sum_list_nonneg) (auto simp: item_ok_def)

lemma decode_items_print:
  assumes "\<forall>i\<in>set is. item_ok ensure i" "\<And>bl n. map_of conf bl = Some n \<Longrightarrow> 0 \<le> n"
    "\<And>bl. (case map_of conf bl of None \<Rightarrow> 0 | Some n \<Rightarrow> n) + sum_for bl is < 2 ^ 63"
  shows "\<exists>conf'. decode_items ensure pl (map print_item is) conf = Inr conf' \<and>
    (\<forall>bl. map_of conf' bl =
       (if map_of conf bl = None \<and> bl \<notin> fst ` set is then None
        else Some ((case map_of conf bl of None \<Rightarrow> 0 | Some n \<Rightarrow> n) + sum_for bl is)))"
  using assms
proof (induction "is" arbitrary: conf)
  case Nil
  then show ?case by (auto simp: sum_for_def split: option.splits)
next
  case (Cons i "is")
  obtain bl c where i: "i = (bl, c)" by (cases i)
  have ok: "item_ok ensure (bl, c)" using Cons.prems(1) i by simp
  define conf1 where "conf1 = (case map_of conf bl of
     Some n \<Rightarrow> AList.update bl (go_int (n + c)) conf | None \<Rightarrow> AList.update bl c conf)"
  have s: "sum_for b (i # is) = (if b = bl then c else 0) + sum_for b is" for b by (simp add: sum_for_def i)
  have nn: "0 \<le> sum_for b is" for b using Cons.prems(1) by (intro sum_for_nonneg) auto
  have m1: "map_of conf1 b = (if b = bl then Some ((case map_of conf bl of None \<Rightarrow> 0 | Some n \<Rightarrow> n) + c) else map_of conf b)" for b
  proof -
    have "go_int (n + c) = n + c" if "map_of conf bl = Some n" for n
      using that Cons.prems(2) [OF that] Cons.prems(3) [of bl] ok nn [of bl]
      by (intro go_int_small) (auto simp: item_ok_def s)
    then show ?thesis by (auto simp: conf1_def update_conv' split: option.splits)
  qed
  have "decode_items ensure pl (map print_item (i # is)) conf = decode_items ensure pl (map print_item is) conf1"
    using ok by (simp add: split_print_item Atoi_Itoa i item_ok_def conf1_def split: option.splits)
  moreover obtain conf' where "decode_items ensure pl (map print_item is) conf1 = Inr conf'"
    and c': "\<And>b. map_of conf' b = (if map_of conf1 b = None \<and> b \<notin> fst ` set is then None
        else Some ((case map_of conf1 b of None \<Rightarrow> 0 | Some n \<Rightarrow> n) + sum_for b is))"
  proof -
    have "\<exists>conf'. decode_items ensure pl (map print_item is) conf1 = Inr conf' \<and>
      (\<forall>bl. map_of conf' bl =
         (if map_of conf1 bl = None \<and> bl \<notin> fst ` set is then None
          else Some ((case map_of conf1 bl of None \<Rightarrow> 0 | Some n \<Rightarrow> n) + sum_for bl is)))"
    proof (rule Cons.IH)
      show "\<forall>i\<in>set is. item_ok ensure i" using Cons.prems(1) by simp
      show "0 \<le> n" if "map_of conf1 b = Some n" for b n
        using that Cons.prems(2) ok by (auto simp: m1 item_ok_def split: if_splits option.splits)
      show "(case map_of conf1 b of None \<Rightarrow> 0 | Some n \<Rightarrow> n) + sum_for b is < 2 ^ 63" for b
        using Cons.prems(3) [of b] by (auto simp: m1 s split: if_splits option.splits)
    qed
    with that show thesis by blast
  qed
  ultimately show ?case by (intro exI [of _ conf']) (simp add: c' m1 s [unfolded i] i)
qed

lemma DecodeProofList_print:
  assumes "is \<noteq> []" "\<forall>i\<in>set is. item_ok ensure i" "\<And>bl. sum_for bl is < 2 ^ 63"
    and "filter (\<lambda>c. c \<noteq> CHR '' '') s = print_list is"
  shows "\<exists>conf. DecodeProofList ensure s = Inr conf \<and>
    (\<forall>bl. map_of conf bl = (if bl \<in> fst ` set is then Some (sum_for bl is) else None))"
proof -
  have "strings_Split (print_list is) CHR '','' = map print_item is"
    unfolding print_list_def using assms(1) by (intro strings_Split_Join) (auto dest: print_item_chars)
  with decode_items_print [OF assms(2), of "[]"] assms(3,4) show ?thesis
    by (fastforce simp: DecodeProofList_def)
qed

text \<open>Every number of spaces that is accepted for a list without overflow is for a valid bit length.\<close>

lemma decode_items_valid:
  "decode_items ensure pl items conf = Inr conf' \<Longrightarrow> (\<And>bl. bl \<in> fst ` set conf \<Longrightarrow> ensure bl) \<Longrightarrow>
     bl \<in> fst ` set conf' \<Longrightarrow> ensure bl"
proof (induction items arbitrary: conf)
  case (Cons item items)
  from Cons.prems(1) obtain b c where b: "ensure b" and
    d: "decode_items ensure pl items (case map_of conf b of
       Some n \<Rightarrow> AList.update b (go_int (n + c)) conf | None \<Rightarrow> AList.update b c conf) = Inr conf'"
    by (auto simp: Let_def split: if_splits option.splits)
  have "ensure x" if "x \<in> fst ` set (case map_of conf b of
       Some n \<Rightarrow> AList.update b (go_int (n + c)) conf | None \<Rightarrow> AList.update b c conf)" for x
    using that b Cons.prems(2) by (auto simp: dom_update split: option.splits)
  from Cons.IH [OF d this Cons.prems(3)] show ?case .
qed auto

section \<open>The configuration\<close>

record chain_cfg =
  DisableCheckpoints :: bool
  AddCheckpoints :: "string list"

record metrics_cfg =
  ProfilePort :: string

record p2p_cfg =
  Seeds :: string
  AddPeer :: "string list"
  SkipUpnp :: bool
  HandshakeTimeout :: int
  DialTimeout :: int
  VaultMode :: bool
  ListenAddress :: string
  p2p_Whitelist :: "string list"

record log_cfg =
  LogDir :: string
  LogLevel :: string
  DisableCPrint :: bool

record datastore_cfg =
  datastore_Dir :: string
  DBType :: string

record api_cfg =
  PortGRPC :: u16
  PortHttp :: u16
  api_Whitelist :: "string list"
  AllowedLan :: "string list"

record miner_cfg =
  PocminerBackend :: string
  SpacekeeperBackend :: string
  MinerDir :: string
  PayoutAddresses :: "string list"
  Generate :: bool
  AllowSolo :: bool
  ProofDir :: "string list"
  ProofList :: string
  miner_Plot :: bool
  PublicPassword :: string
  PrivatePassword :: string
  ChiaMinerKeystore :: string

record config =
  cfg_Chain :: "chain_cfg option"
  cfg_Metrics :: "metrics_cfg option"
  cfg_P2P :: "p2p_cfg option"
  cfg_Log :: "log_cfg option"
  cfg_Datastore :: "datastore_cfg option"
  cfg_API :: "api_cfg option"
  cfg_Miner :: "miner_cfg option"

definition MaxMiningPayoutAddresses :: nat where "MaxMiningPayoutAddresses = 6000"

definition DefaultChain :: chain_cfg where
  "DefaultChain = \<lparr>DisableCheckpoints = False, AddCheckpoints = []\<rparr>"

definition DefaultMetrics :: metrics_cfg where
  "DefaultMetrics = \<lparr>ProfilePort = ''6060''\<rparr>"

definition DefaultP2P :: p2p_cfg where
  "DefaultP2P = \<lparr>Seeds = '''', AddPeer = [], SkipUpnp = False, HandshakeTimeout = 30, DialTimeout = 3,
     VaultMode = False, ListenAddress = ''tcp://0.0.0.0:43453'', p2p_Whitelist = []\<rparr>"

definition DefaultLog :: log_cfg where
  "DefaultLog = \<lparr>LogDir = ''logs'', LogLevel = ''info'', DisableCPrint = False\<rparr>"

definition DefaultDatastore :: datastore_cfg where
  "DefaultDatastore = \<lparr>datastore_Dir = ''chain'', DBType = ''leveldb''\<rparr>"

definition DefaultAPI :: api_cfg where
  "DefaultAPI = \<lparr>PortGRPC = 9685, PortHttp = 9686, api_Whitelist = [], AllowedLan = []\<rparr>"

definition DefaultMiner :: miner_cfg where
  "DefaultMiner = \<lparr>PocminerBackend = ''sync'', SpacekeeperBackend = ''spacekeeper.v1'', MinerDir = ''miner'',
     PayoutAddresses = [], Generate = False, AllowSolo = False, ProofDir = [], ProofList = '''',
     miner_Plot = False, PublicPassword = ''123456'', PrivatePassword = ''654321'',
     ChiaMinerKeystore = ''chia-miner-keystore.json''\<rparr>"

definition DefaultConfig :: config where
  "DefaultConfig = \<lparr>cfg_Chain = Some DefaultChain, cfg_Metrics = Some DefaultMetrics, cfg_P2P = Some DefaultP2P,
     cfg_Log = Some DefaultLog, cfg_Datastore = Some DefaultDatastore, cfg_API = Some DefaultAPI,
     cfg_Miner = Some DefaultMiner\<rparr>"

text \<open>The functions of the core package and of \<open>net\<close> the checks call; a checkpoint error is its text.\<close>

record cfg_env =
  ParseCheckpoints :: "string list \<Rightarrow> string option"
  NormalizeSeeds :: "string \<Rightarrow> string \<Rightarrow> string"
  ParseIP_ok :: "string \<Rightarrow> bool"
  cfg_EnsureBitLength :: "int \<Rightarrow> bool"

datatype config_error =
    CheckpointError string | InvalidWhitelist nat string | PayoutEmpty | PayoutTooMany nat nat
  | ProofListError proof_list_error

definition fill_sections :: "config \<Rightarrow> config" where
  "fill_sections cfg =
     cfg\<lparr>cfg_Chain := Some (case cfg_Chain cfg of None \<Rightarrow> DefaultChain | Some c \<Rightarrow> c),
         cfg_Metrics := Some (case cfg_Metrics cfg of None \<Rightarrow> DefaultMetrics | Some c \<Rightarrow> c),
         cfg_P2P := Some (case cfg_P2P cfg of None \<Rightarrow> DefaultP2P | Some c \<Rightarrow> c),
         cfg_Log := Some (case cfg_Log cfg of None \<Rightarrow> DefaultLog | Some c \<Rightarrow> c),
         cfg_Datastore := Some (case cfg_Datastore cfg of None \<Rightarrow> DefaultDatastore | Some c \<Rightarrow> c),
         cfg_API := Some (case cfg_API cfg of None \<Rightarrow> DefaultAPI | Some c \<Rightarrow> c),
         cfg_Miner := Some (case cfg_Miner cfg of None \<Rightarrow> DefaultMiner | Some c \<Rightarrow> c)\<rparr>"

fun check_whitelist :: "cfg_env \<Rightarrow> nat \<Rightarrow> string list \<Rightarrow> config_error option" where
  "check_whitelist X i [] = None"
| "check_whitelist X i (addr # addrs) =
     (if addr = ''*'' then check_whitelist X (i + 1) addrs
      else if \<not> ParseIP_ok X addr then Some (InvalidWhitelist i addr)
      else check_whitelist X (i + 1) addrs)"

definition check_miner :: "cfg_env \<Rightarrow> miner_cfg \<Rightarrow> config_error option" where
  "check_miner X m =
     (if Generate m \<and> length (PayoutAddresses m) = 0 then Some PayoutEmpty
      else if Generate m \<and> length (PayoutAddresses m) > MaxMiningPayoutAddresses
        then Some (PayoutTooMany MaxMiningPayoutAddresses (length (PayoutAddresses m)))
      else if ProofList m \<noteq> ''''
        then (case DecodeProofList (cfg_EnsureBitLength X) (ProofList m) of
                Inl err \<Rightarrow> Some (ProofListError err) | Inr _ \<Rightarrow> None)
      else None)"

definition CheckConfig :: "cfg_env \<Rightarrow> config \<Rightarrow> config \<times> config_error option" where
  "CheckConfig X cfg =
     (let cfg1 = fill_sections cfg;
          chain = the (cfg_Chain cfg1);
          checkpoints = (if \<not> DisableCheckpoints chain then ParseCheckpoints X (AddCheckpoints chain) else None) in
      case checkpoints of Some err \<Rightarrow> (cfg1, Some (CheckpointError err))
      | None \<Rightarrow>
        (let p2p = the (cfg_P2P cfg1);
             cfg2 = cfg1\<lparr>cfg_P2P := Some (p2p\<lparr>Seeds := NormalizeSeeds X (Seeds p2p) ''43453''\<rparr>)\<rparr>
         in case check_whitelist X 0 (api_Whitelist (the (cfg_API cfg2))) of Some err \<Rightarrow> (cfg2, Some err)
         | None \<Rightarrow> (cfg2, check_miner X (the (cfg_Miner cfg2)))))"

lemma check_whitelist_None:
  "check_whitelist X i addrs = None \<longleftrightarrow> (\<forall>addr\<in>set addrs. addr = ''*'' \<or> ParseIP_ok X addr)"
  by (induction addrs arbitrary: i) auto

lemma check_miner_None:
  "check_miner X m = None \<longleftrightarrow>
     (Generate m \<longrightarrow> 1 \<le> length (PayoutAddresses m) \<and> length (PayoutAddresses m) \<le> MaxMiningPayoutAddresses) \<and>
     (ProofList m \<noteq> [] \<longrightarrow> (\<exists>conf. DecodeProofList (cfg_EnsureBitLength X) (ProofList m) = Inr conf))"
  by (cases "DecodeProofList (cfg_EnsureBitLength X) (ProofList m)") (auto simp: check_miner_def Suc_le_eq not_less)

lemma CheckConfig_ok:
  assumes "CheckConfig X cfg = (cfg', None)"
  shows "\<exists>api m. cfg_API cfg' = Some api \<and> cfg_Miner cfg' = Some m \<and>
      m = (case cfg_Miner cfg of None \<Rightarrow> DefaultMiner | Some m \<Rightarrow> m) \<and>
      (\<forall>addr\<in>set (api_Whitelist api). addr = ''*'' \<or> ParseIP_ok X addr) \<and>
      (Generate m \<longrightarrow> 1 \<le> length (PayoutAddresses m) \<and> length (PayoutAddresses m) \<le> MaxMiningPayoutAddresses) \<and>
      (ProofList m \<noteq> [] \<longrightarrow> (\<exists>conf. DecodeProofList (cfg_EnsureBitLength X) (ProofList m) = Inr conf))"
proof -
  obtain p2p where c: "cfg' = fill_sections cfg\<lparr>cfg_P2P := Some p2p\<rparr>"
    and w: "check_whitelist X 0 (api_Whitelist (the (cfg_API cfg'))) = None" "check_miner X (the (cfg_Miner cfg')) = None"
    using assms by (auto simp: CheckConfig_def Let_def split: option.splits)
  from c obtain api m where "cfg_API cfg' = Some api" "cfg_Miner cfg' = Some m"
    "m = (case cfg_Miner cfg of None \<Rightarrow> DefaultMiner | Some m \<Rightarrow> m)" by (simp add: fill_sections_def)
  then show ?thesis
    using w unfolding check_whitelist_None check_miner_None by (simp only: option.sel) blast
qed

end
