(* ===== verification/Keeper_Start.thy ===== *)
theory Keeper_Start
  imports Config_Size Miner_Config
begin

text \<open>
  How a space keeper comes into being: the registry of \<open>poc/engine/spacekeeper/spacekeeper.go\<close>, the
  constructor \<open>NewSpaceKeeperV1\<close> of \<open>strategy.go\<close>, and \<open>OnStart\<close>. The keeper it makes satisfies the
  invariant of the running system from the start.
\<close>

section \<open>The registry\<close>

record 'f sk_backend =
  sk_Typ :: string
  backend_NewSpaceKeeper :: 'f

definition AddSpaceKeeperBackend :: "'f sk_backend list \<Rightarrow> 'f sk_backend \<Rightarrow> 'f sk_backend list" where
  "AddSpaceKeeperBackend KeeperBackendList ins =
     (if list_ex (\<lambda>kb. sk_Typ kb = sk_Typ ins) KeeperBackendList then KeeperBackendList
      else KeeperBackendList @ [ins])"

definition NewSpaceKeeper ::
  "('a \<Rightarrow> 's \<Rightarrow> 's \<times> (sk_error + 'k)) sk_backend list \<Rightarrow> string \<Rightarrow> 'a \<Rightarrow> 's \<Rightarrow> 's \<times> (sk_error + 'k)" where
  "NewSpaceKeeper KeeperBackendList kbType args s =
     (case find (\<lambda>kb. sk_Typ kb = kbType) KeeperBackendList of
        Some kb \<Rightarrow> backend_NewSpaceKeeper kb args s
      | None \<Rightarrow> (s, Inl ErrInvalidSKType))"

section \<open>The constructor\<close>

definition maxPoolWorker :: nat where "maxPoolWorker = 32"

datatype 'w sk_arg = SKConfig config | SKWallet 'w | SKOther

definition strategy_parseArgs :: "'w sk_arg list \<Rightarrow> sk_error + config \<times> 'w" where
  "strategy_parseArgs args =
     (if length args \<noteq> 2 then Inl ErrInvalidSKArgs
      else case args ! 0 of
        SKConfig cfg \<Rightarrow> (case args ! 1 of SKWallet w \<Rightarrow> Inr (cfg, w) | _ \<Rightarrow> Inl ErrInvalidSKArgs)
      | _ \<Rightarrow> Inl ErrInvalidSKArgs)"

definition initial_keeper :: "('pk, 'q, 'w, 'sig) sk_env \<Rightarrow> fs \<Rightarrow> string list \<Rightarrow> 'w \<Rightarrow> ('pk, 'q, 'w) spacekeeper" where
  "initial_keeper E fs dirs w =
     \<lparr>sk_started = False, configuring = False, configured = False, allowGenerateNewSpace = True, dbDirs = dirs,
      sk_dbType = TypeMassDBV1, sk_wallet = w, workSpaceIndex = [], workSpacePaths = [], workSpaceList = [],
      sk_queue = newPlotterQueue (env_Q E), newQueuedWorkSpaceCh = [], sk_heap = [], sk_fs = fs\<rparr>"

text \<open>
  The part of the constructor behind the check of the password. A list of proofs is decoded to a map
  from bit lengths, which are valid and so not negative.
\<close>

definition configure_new ::
  "('pk, 'q, 'w, 'sig) sk_env \<Rightarrow> 'pk cfg_orders \<Rightarrow> nat \<Rightarrow> miner_cfg \<Rightarrow> ('pk, 'q, 'w) spacekeeper
     \<Rightarrow> (('pk, 'q, 'w) spacekeeper \<times> sk_error option) option" where
  "configure_new E R fuel m sk =
     (case wallet_Unlock E (sk_wallet sk) (PrivatePassword m) of
        (w, Some err) \<Rightarrow> Some (sk\<lparr>sk_wallet := w\<rparr>, Some (OtherError err))
      | (w, None) \<Rightarrow>
        (let sk1 = sk\<lparr>sk_wallet := w\<rparr> in
         if ProofList m \<noteq> [] then
           (case DecodeProofList (EnsureBitLength E) (ProofList m) of
              Inl err \<Rightarrow> Some (sk1, Some (OtherError ''invalid proof list''))
            | Inr spaceConf \<Rightarrow>
              (case ConfigureByBitLength E R fuel sk1 (map (\<lambda>(bl, c). (nat bl, c)) spaceConf) (miner_Plot m) (Generate m) of
                 None \<Rightarrow> None
               | Some (sk2, Inl err) \<Rightarrow> Some (sk2, Some err)
               | Some (sk2, Inr _) \<Rightarrow> Some (sk2, None)))
         else
           (case ConfigureByFlags E sk1 SFAll (miner_Plot m) (Generate m) of
              None \<Rightarrow> None
            | Some (sk2, Inl err) \<Rightarrow> Some (sk2, if err \<noteq> ErrSpaceKeeperConfiguredNothing then Some err else None)
            | Some (sk2, Inr _) \<Rightarrow> Some (sk2, None))))"

text \<open>
  The result tells what became of the file system and of the wallet, which the caller shares.
\<close>

definition NewSpaceKeeperV1 ::
  "('pk, 'q, 'w, 'sig) sk_env \<Rightarrow> dir_env \<Rightarrow> 'pk cfg_orders \<Rightarrow> nat \<Rightarrow> string option \<Rightarrow> fs \<Rightarrow> 'w sk_arg list
     \<Rightarrow> ((fs \<times> 'w option) \<times> (sk_error + ('pk, 'q, 'w) spacekeeper)) option" where
  "NewSpaceKeeperV1 E D R fuel pool_err fs args =
     (case strategy_parseArgs args of Inl err \<Rightarrow> Some ((fs, None), Inl err)
      | Inr (cfg, w) \<Rightarrow>
        (case cfg_Miner cfg of None \<Rightarrow> Some ((fs, Some w), Inl SKPanic)
         | Some m \<Rightarrow>
           if length (ProofDir m) = 0
           then Some ((fs, Some w), Inl (OtherError (TypeSpaceKeeperV1 @ '' require at least one proof_dir'')))
           else case pool_err of Some err \<Rightarrow> Some ((fs, Some w), Inl (OtherError err))
           | None \<Rightarrow>
             (let sk = upgradeMassDBFile E D (initial_keeper E fs (ProofDir m) w) in
              case generateInitialIndex E D sk of
                (sk1, Some err) \<Rightarrow> Some ((sk_fs sk1, Some (sk_wallet sk1)), Inl err)
              | (sk1, None) \<Rightarrow>
                if PrivatePassword m = [] then Some ((sk_fs sk1, Some (sk_wallet sk1)), Inr sk1)
                else case configure_new E R fuel m sk1 of
                  None \<Rightarrow> None
                | Some (sk2, Some err) \<Rightarrow> Some ((sk_fs sk2, Some (sk_wallet sk2)), Inl err)
                | Some (sk2, None) \<Rightarrow> Some ((sk_fs sk2, Some (sk_wallet sk2)), Inr sk2))))"

definition OnStart :: "('pk, 'q, 'w, 'sig) sk_env \<Rightarrow> ('pk, 'q, 'w) spacekeeper \<Rightarrow> sk_error + ('pk, 'q, 'w) keeper_sys" where
  "OnStart E sk =
     (if wallet_IsLocked E (sk_wallet sk) then Inl ErrWalletIsLocked
      else Inr \<lparr>ks_sk = sk\<lparr>sk_started := True\<rparr>, ks_pc = PLoop, ks_pending = []\<rparr>)"

section \<open>Fresh heaps\<close>

text \<open>Before the plotter runs, every work space is registered or ready, and no database is plotting.\<close>

definition fresh_ws :: "'pk workspace \<Rightarrow> bool" where
  "fresh_ws ws \<longleftrightarrow> db_idle (ws_db ws) \<and> (ws_state ws = Registered \<and> HashMapA (ws_db ws) \<noteq> None \<or> ws_state ws = Ready)"

definition grows :: "('pk, 'q, 'w) spacekeeper \<Rightarrow> ('pk, 'q, 'w) spacekeeper \<Rightarrow> bool" where
  "grows sk sk' \<longleftrightarrow>
     ((\<forall>ws\<in>set (sk_heap sk). fresh_ws ws) \<longrightarrow> (\<forall>ws\<in>set (sk_heap sk'). fresh_ws ws)) \<and>
     newQueuedWorkSpaceCh sk' = newQueuedWorkSpaceCh sk \<and> sk_queue sk' = sk_queue sk"

lemma grows_refl [simp]: "grows sk sk"
  by (simp add: grows_def)

lemma grows_trans: "grows sk sk1 \<Longrightarrow> grows sk1 sk2 \<Longrightarrow> grows sk sk2"
  by (auto simp: grows_def)

lemma grows_fields [simp]:
  "grows sk (sk'\<lparr>dbDirs := d\<rparr>) = grows sk sk'" "grows sk (sk'\<lparr>workSpaceIndex := i\<rparr>) = grows sk sk'"
  "grows sk (sk'\<lparr>sk_fs := fs\<rparr>) = grows sk sk'" "grows sk (sk'\<lparr>sk_wallet := w\<rparr>) = grows sk sk'"
  "grows sk (sk'\<lparr>configuring := b\<rparr>) = grows sk sk'" "grows sk (sk'\<lparr>configured := b\<rparr>) = grows sk sk'"
  "grows sk (sk'\<lparr>workSpacePaths := p\<rparr>) = grows sk sk'" "grows sk (index_Set s sid r sk') = grows sk sk'"
  by (simp_all add: grows_def index_Set_def)

lemma grows_fields_left [simp]:
  "grows (sk\<lparr>sk_wallet := w\<rparr>) sk' = grows sk sk'" "grows (sk\<lparr>configuring := a, configured := b\<rparr>) sk' = grows sk sk'"
  "grows (sk\<lparr>dbDirs := d\<rparr>) sk' = grows sk sk'" "grows (sk\<lparr>workSpaceIndex := i\<rparr>) sk' = grows sk sk'"
  by (simp_all add: grows_def)

lemma add_grows [simp]: "grows sk (addWorkSpaceToIndex U r sk') = grows sk sk'"
  by (simp add: addWorkSpaceToIndex_def Let_def)

lemma new_grows: "sk_NewWorkSpace E dir ordinal pk bl sk = (sk', res) \<Longrightarrow> grows sk sk'"
  using NewWorkSpace_args(2) [of "env_U E" "env_F E" "sk_fs sk" "sk_dbType sk" dir ordinal pk bl]
  by (auto simp: sk_NewWorkSpace_def alloc_ws_def grows_def fresh_ws_def db_idle_def split: prod.splits sum.splits)

lemma generate_grows: "generateNewWorkSpaceByPath E dir bl sk = (sk', res) \<Longrightarrow> grows sk sk'"
  by (auto simp: generateNewWorkSpaceByPath_def split: prod.splits sum.splits dest: new_grows)

lemma gen_bl_grows: "gen_bl E fuel bl cnt dst cur sk = Some (sk', res) \<Longrightarrow> grows sk sk'"
proof (induction fuel arbitrary: dst cur sk)
  case (Suc fuel)
  show ?case
  proof (cases "cur = cnt")
    case False
    obtain sk1 r1 where g: "generateNewWorkSpace E bl sk = (sk1, r1)" by fastforce
    have g1: "grows sk sk1" using g by (auto simp: generateNewWorkSpace_def split: list.splits dest: generate_grows)
    show ?thesis
    proof (cases r1)
      case (Inr q)
      with Suc.prems False g have "gen_bl E fuel bl cnt (dst @ [q]) (go_int (cur + 1)) (addWorkSpaceToIndex (env_U E) q sk1) = Some (sk', res)"
        by simp
      from Suc.IH [OF this] have "grows (addWorkSpaceToIndex (env_U E) q sk1) sk'" .
      with g1 show ?thesis by (metis add_grows grows_trans)
    qed (use Suc.prems False g g1 in auto)
  qed (use Suc.prems in auto)
qed simp

lemma gen_bls_grows: "gen_bls E fuel cc target dst sk = Some (sk', res) \<Longrightarrow> grows sk sk'"
proof (induction target arbitrary: dst sk)
  case (Cons bc target)
  obtain bl cnt where bc: "bc = (bl, cnt)" by (cases bc)
  obtain sk1 r1 where g: "gen_bl E fuel bl cnt dst (count_of cc bl) sk = Some (sk1, r1)"
    using Cons.prems by (auto simp: bc split: option.splits)
  show ?case
  proof (cases r1)
    case (Inr dst')
    with Cons.prems g bc have "gen_bls E fuel cc target dst' sk1 = Some (sk', res)" by simp
    from grows_trans [OF gen_bl_grows [OF g] Cons.IH [OF this]] show ?thesis .
  qed (use Cons.prems g bc gen_bl_grows [OF g] in simp)
qed simp

lemma fill_by_bl_grows: "fill_by_bl E R fuel BlCount sk = Some (sk', res) \<Longrightarrow> grows sk sk'"
  by (auto simp: fill_by_bl_def generateFillSpaceListByBitLength_def Let_def
      split: option.splits prod.splits if_splits dest: gen_bls_grows)

lemma index_file_grows: "grows sk (index_file E dbDir fileName sk)"
  by (auto simp: index_file_def Let_def split: sum.splits option.splits prod.splits dest: new_grows)

lemma fold_grows: "(\<And>x sk. grows sk (f x sk)) \<Longrightarrow> grows sk (fold f xs sk)"
  by (induction xs arbitrary: sk) (auto intro: grows_trans)

lemma generateInitialIndex_grows: "generateInitialIndex E D sk = (sk', err) \<Longrightarrow> grows sk sk'"
  using fold_grows [where f = "\<lambda>(dbDir, fis). fold (index_file E dbDir) fis"] fold_grows [where f = "index_file E d" for d]
  by (auto simp: generateInitialIndex_def Let_def index_file_grows split: if_splits prod.splits
      intro!: grows_trans [OF _ fold_grows] fold_grows)

lemma upgrade_file_grows: "grows sk (upgrade_file E D dbDir filename sk)"
proof -
  have r: "grows sk (rename_massdb E D dir name tag sk') \<longleftrightarrow> grows sk sk'" for dir name tag sk'
    by (auto simp: rename_massdb_def Let_def split: sum.splits option.splits)
  show ?thesis by (simp add: upgrade_file_def Let_def r)
qed

lemma upgradeMassDBFile_grows: "grows sk (upgradeMassDBFile E D sk)"
proof -
  have "grows sk (fold (\<lambda>(dbDir, fis). fold (upgrade_file E D dbDir) fis) dirs sk)" for dirs sk
    by (rule fold_grows) (auto intro: fold_grows upgrade_file_grows)
  from this [of "sk\<lparr>dbDirs := d\<rparr>" for d] show ?thesis by (simp add: upgradeMassDBFile_def Let_def)
qed

section \<open>Applying a configuration to a fresh keeper\<close>

definition at_rest :: "('pk, 'q, 'w) spacekeeper \<Rightarrow> bool" where
  "at_rest sk \<longleftrightarrow>
     (\<forall>ws\<in>set (sk_heap sk). fresh_ws ws) \<and> newQueuedWorkSpaceCh sk = [] \<and> poppedItem (sk_queue sk) = None"

lemma at_rest_fields [simp]:
  "at_rest (sk\<lparr>configuring := b\<rparr>) = at_rest sk" "at_rest (sk\<lparr>configured := b\<rparr>) = at_rest sk"
  "at_rest (sk\<lparr>sk_wallet := w\<rparr>) = at_rest sk" "at_rest (sk\<lparr>sk_started := b\<rparr>) = at_rest sk"
  "at_rest (sk\<lparr>workSpaceList := l\<rparr>) = at_rest sk"
  by (simp_all add: at_rest_def)

lemma at_rest_grows: "at_rest sk \<Longrightarrow> grows sk sk' \<Longrightarrow> at_rest sk'"
  by (simp add: at_rest_def grows_def)

lemma at_rest_using: "at_rest sk \<Longrightarrow> at_rest (update_ws r (ws_using_update f) sk)"
proof (cases "r < length (sk_heap sk)")
  case True
  assume a: "at_rest sk"
  have "fresh_ws (ws_using_update f (the_ws sk r))" using a True by (simp add: at_rest_def fresh_ws_def)
  then show ?thesis using a set_update_subset_insert [of "sk_heap sk" r "ws_using_update f (the_ws sk r)"]
    by (auto simp: at_rest_def update_ws_def)
qed (simp add: update_ws_def list_update_beyond)

lemma at_rest_queue:
  "at_rest sk \<Longrightarrow> at_rest (queue_Push E x sk)" "at_rest sk \<Longrightarrow> at_rest (sk\<lparr>sk_queue := plotterQueue_Reset Q q\<rparr>)"
  by (simp_all add: at_rest_def queue_Push_def plotterQueue_Push_def plotterQueue_Reset_def)

lemma at_rest_use: "at_rest sk \<Longrightarrow> at_rest (useWorkSpace U r (queue_Push E x sk))"
  by (auto simp: useWorkSpace_def intro!: at_rest_using at_rest_queue)

lemma apply_at_rest:
  assumes "at_rest sk" "applyConfiguredWorkSpaces E l execPlot execMine sk = (sk', res)"
  shows "at_rest sk'"
proof -
  have disuse: "at_rest (fold (\<lambda>w. update_ws w (ws_using_update (\<lambda>_. False))) ws sk)" for ws
    by (rule fold_ok [where P = at_rest]) (use assms(1) in \<open>auto intro: at_rest_using\<close>)
  let ?sk1 = "(fold (\<lambda>w. update_ws w (ws_using_update (\<lambda>_. False))) (workSpaceList sk) sk)
    \<lparr>workSpaceList := [], sk_queue := plotterQueue_Reset (env_Q E) (sk_queue sk)\<rparr>"
  have r: "at_rest ?sk1" using disuse by (intro at_rest_queue(2)) simp
  have "at_rest (fold (\<lambda>x s. useWorkSpace (env_U E) (qws_ws x) (queue_Push E x s)) xs ?sk1)" for xs
    by (rule fold_ok [where P = at_rest]) (use r in \<open>auto intro: at_rest_use\<close>)
  with r assms show ?thesis
    by (auto simp: applyConfiguredWorkSpaces_def Let_def intro: at_rest_queue(2) split: if_splits option.splits prod.splits)
qed

text \<open>
  A configuration that begins with an empty queue leaves only indexed work spaces in it.
\<close>

definition start_inv ::
  "('pk, 'q, 'w, 'sig) sk_env \<Rightarrow> ('q \<Rightarrow> (qws \<times> int) multiset) \<Rightarrow> ('w \<Rightarrow> 'pk set) \<Rightarrow> ('pk, 'q, 'w) spacekeeper \<Rightarrow> bool" where
  "start_inv E items keys sk \<longleftrightarrow>
     cfg_inv E keys sk \<and> at_rest sk \<and>
     (\<forall>x p. (x, p) \<in># items (pq_Prque (sk_queue sk)) \<longrightarrow> indexed (env_U E) sk (qws_ws x))"

lemma configure_starts:
  assumes F: "filler E items keys fill" and Q: "prque_ok (env_Q E) items" "range_ok E" "wallet_ok E keys" "pubkey_ok (env_U E)"
    and gr: "\<And>sk sk' res. fill sk = Some (sk', res) \<Longrightarrow> grows sk sk'"
    and I: "cfg_inv E keys sk" "at_rest sk" "items (pq_Prque (sk_queue sk)) = {#}"
    and c: "configure E sk (conclude E execPlot execMine fill) = Some (sk', res)"
  shows "start_inv E items keys sk'"
proof (cases "begin_configure E sk")
  case (Inl e)
  with c I show ?thesis by (simp add: configure_def start_inv_def)
next
  case (Inr sk1)
  have I1: "cfg_inv E keys sk1" "at_rest sk1" "items (pq_Prque (sk_queue sk1)) = {#}"
    using I Inr by (auto simp: begin_configure_def cfg_inv_def split: if_splits)
  from c Inr obtain sk2 r where f: "fill sk1 = Some (sk2, r)"
    by (auto simp: configure_def conclude_def split: option.splits)
  have I2: "cfg_inv E keys sk2" "at_rest sk2" "items (pq_Prque (sk_queue sk2)) = {#}"
    using filler.fills [OF F Q I1(1) f] at_rest_grows [OF I1(2) gr [OF f]] I1(3) gr [OF f] by (auto simp: grows_def)
  show ?thesis
  proof (cases r)
    case (Inl e)
    with c Inr f have "sk' = sk2\<lparr>configuring := False\<rparr>" by (simp add: configure_def conclude_def \<open>begin_configure E sk = Inr sk1\<close>)
    with I2 show ?thesis by (simp add: start_inv_def cfg_inv_def)
  next
    case (Inr l)
    obtain sk3 res3 where a: "applyConfiguredWorkSpaces E l execPlot execMine sk2 = (sk3, res3)" by fastforce
    have "at_rest sk'" using c f Inr apply_at_rest [OF I2(2) a]
      by (auto simp: configure_def conclude_def \<open>begin_configure E sk = Inr sk1\<close> successfullyReturn_def a split: sum.splits)
    moreover have "cfg_inv E keys sk'"
      using filler.configure_keeps [OF F Q I(1), of execPlot execMine sk' res] c by (simp add: conclude_def)
    moreover have "indexed (env_U E) sk' (qws_ws x)" if x: "(x, p) \<in># items (pq_Prque (sk_queue sk'))" for x p
    proof (cases "l = []")
      case True
      then have "sk_queue sk' = sk_queue sk2" using c f Inr
        by (auto simp: configure_def conclude_def \<open>begin_configure E sk = Inr sk1\<close> successfullyReturn_def applyConfiguredWorkSpaces_def)
      with x I2(3) show ?thesis by simp
    next
      case False
      have ok: "index_ok (env_U E) sk2" using I2(1) by (simp add: cfg_inv_def)
      have ix: "indexed (env_U E) sk2 w" if "w \<in> set l" for w using filler.fills [OF F Q I1(1) f] Inr that by simp
      from apply_configured [OF Q(1) ok False ix, of execPlot execMine] a
      have A: "index_Get sk3 = index_Get sk2" "\<forall>r. ws_id (the_ws sk3 r) = ws_id (the_ws sk2 r)" "\<exists>i. res3 = Inr i"
        "items (pq_Prque (sk_queue sk3)) = (if execPlot \<or> execMine
           then mset (map (\<lambda>w. (newQueuedWorkSpace w execMine, ws_priority (sk_heap sk2) w)) l) else {#})" by auto
      have sk': "sk' = sk3\<lparr>configured := True, configuring := False\<rparr>"
        using c f Inr A(3) by (auto simp: configure_def conclude_def \<open>begin_configure E sk = Inr sk1\<close> successfullyReturn_def a)
      with x A(4) obtain w where "w \<in> set l" "qws_ws x = w" by (auto simp: newQueuedWorkSpace_def split: if_splits)
      with ix show ?thesis unfolding sk' using A(1,2) by (auto simp: indexed_def sid_of_def)
    qed
    ultimately show ?thesis by (simp add: start_inv_def)
  qed
qed

section \<open>The constructor establishes the invariant\<close>

lemma start_sys_inv:
  assumes I: "start_inv E items keys sk" and s: "OnStart E sk = Inr s"
  shows "sys_inv E items s"
proof -
  have ok: "index_ok (env_U E) sk" using I by (simp add: start_inv_def cfg_inv_def)
  have f: "fresh_ws (the_ws sk r)" if "r < length (sk_heap sk)" for r
    using I that by (simp add: start_inv_def at_rest_def)
  have g: "r < length (sk_heap sk)" "ws_state (the_ws sk r) = st" if "index_Get sk st sid = Some r" "State_IsValid st" for st sid r
    using index_okD(2,5) [OF ok] that by blast+
  have np: "index_Get sk Plotting sid = None" for sid
  proof (cases "index_Get sk Plotting sid")
    case (Some r)
    from f [OF g(1) [OF this]] g(2) [OF this] show ?thesis by (simp add: fresh_ws_def)
  qed
  have reg: "HashMapA (ws_db (the_ws sk r)) \<noteq> None" if "index_Get sk Registered sid = Some r" for sid r
    using f [OF g(1) [OF that]] g(2) [OF that] by (auto simp: fresh_ws_def)
  have k: "known (env_U E) sk r" if "indexed (env_U E) sk r" for r
    using that index_okD(2) [OF ok] by (auto simp: indexed_def known_def)
  have "s = \<lparr>ks_sk = sk\<lparr>sk_started := True\<rparr>, ks_pc = PLoop, ks_pending = []\<rparr>"
    using s by (auto simp: OnStart_def split: if_splits)
  moreover have "index_ok (env_U E) (sk\<lparr>sk_started := True\<rparr>)"
    by (rule index_ok_cong [OF _ _ _ _ ok]) simp_all
  moreover have "index_Get (sk\<lparr>sk_started := True\<rparr>) = index_Get sk" "sid_of (env_U E) (sk\<lparr>sk_started := True\<rparr>) = sid_of (env_U E) sk"
    by (simp_all add: fun_eq_iff index_Get_def sid_of_def)
  moreover have "known (env_U E) (sk\<lparr>sk_started := True\<rparr>) = known (env_U E) sk"
    by (simp add: fun_eq_iff known_def index_Get_def sid_of_def)
  moreover have "popped_ws (sk\<lparr>sk_started := True\<rparr>) = None" "newQueuedWorkSpaceCh sk = []"
    using I by (simp_all add: start_inv_def at_rest_def popped_ws_def)
  moreover have "\<forall>x\<in>fst ` set_mset (items (pq_Prque (sk_queue sk))). known (env_U E) sk (qws_ws x)"
    using I k by (fastforce simp: start_inv_def)
  moreover have "db_idle (ws_db (the_ws sk r))" if "r < length (sk_heap sk)" for r
    using f [OF that] by (simp add: fresh_ws_def)
  ultimately show ?thesis using np reg unfolding sys_inv_def Let_def by (simp add: ball_Un)
qed

text \<open>Unlocking the wallet keeps its keys.\<close>

definition unlock_ok :: "('pk, 'q, 'w, 'sig) sk_env \<Rightarrow> ('w \<Rightarrow> 'pk set) \<Rightarrow> bool" where
  "unlock_ok E keys \<longleftrightarrow> (\<forall>w pass. keys w \<subseteq> keys (fst (wallet_Unlock E w pass)))"

lemma configure_new_starts:
  assumes Q: "prque_ok (env_Q E) items" "range_ok E" "wallet_ok E keys" "pubkey_ok (env_U E)" and U: "unlock_ok E keys"
    and I: "cfg_inv E keys sk" "at_rest sk" "items (pq_Prque (sk_queue sk)) = {#}"
    and c: "configure_new E R fuel m sk = Some (sk', err)"
  shows "start_inv E items keys sk'"
proof -
  obtain w res where w: "wallet_Unlock E (sk_wallet sk) (PrivatePassword m) = (w, res)" by fastforce
  let ?sk1 = "sk\<lparr>sk_wallet := w\<rparr>"
  have "keys (sk_wallet sk) \<subseteq> keys w" using U w unfolding unlock_ok_def by (metis fst_conv)
  then have I1: "cfg_inv E keys ?sk1" "at_rest ?sk1" "items (pq_Prque (sk_queue ?sk1)) = {#}"
    using I by (auto simp: cfg_inv_def)
  have bl: "start_inv E items keys sk2"
    if "ConfigureByBitLength E R fuel ?sk1 conf execPlot execMine = Some (sk2, r)" for conf execPlot execMine sk2 r
    by (rule configure_starts [OF by_bl.filler_axioms Q fill_by_bl_grows I1 that [unfolded ConfigureByBitLength_fills]])
  have fl: "start_inv E items keys sk2"
    if "ConfigureByFlags E ?sk1 flags execPlot execMine = Some (sk2, r)" for flags execPlot execMine sk2 r
    by (rule configure_starts [OF by_flags.filler_axioms Q _ I1 that [unfolded ConfigureByFlags_fills]])
      (simp add: fill_by_flags_def)
  have "start_inv E items keys ?sk1" using I1 by (simp add: start_inv_def)
  then show ?thesis
    using c bl fl by (auto simp: configure_new_def w Let_def split: option.splits if_splits sum.splits)
qed

text \<open>Renaming old files touches no work space.\<close>

lemma upgrade_index [simp]:
  "workSpaceIndex (upgradeMassDBFile E D sk) = workSpaceIndex sk" "workSpaceList (upgradeMassDBFile E D sk) = workSpaceList sk"
proof -
  define same where "same = (\<lambda>sk' :: ('a, 'b, 'c) spacekeeper. workSpaceIndex sk' = workSpaceIndex sk \<and> workSpaceList sk' = workSpaceList sk)"
  have r: "same (rename_massdb E D d f t sk') \<longleftrightarrow> same sk'" for d f t sk'
    by (auto simp: same_def rename_massdb_def Let_def split: sum.splits option.splits)
  have u: "same (upgrade_file E D d f sk')" if "same sk'" for d f sk'
    using that by (simp add: upgrade_file_def Let_def r)
  have v: "same (fold (upgrade_file E D d) fis sk')" if "same sk'" for d fis sk'
    by (rule fold_ok [where P = same, OF u that])
  have "same (sk\<lparr>dbDirs := ds\<rparr>)" for ds by (simp add: same_def)
  then have "same (fold (\<lambda>(d, fis). fold (upgrade_file E D d) fis) dirs (sk\<lparr>dbDirs := ds\<rparr>))" for dirs ds
    by (rule fold_ok [where P = same, rotated]) (auto intro: v)
  then show "workSpaceIndex (upgradeMassDBFile E D sk) = workSpaceIndex sk" "workSpaceList (upgradeMassDBFile E D sk) = workSpaceList sk"
    by (simp_all add: upgradeMassDBFile_def Let_def same_def)
qed

lemma NewSpaceKeeperV1_starts:
  assumes Q: "prque_ok (env_Q E) items" "range_ok E" "wallet_ok E keys" "pubkey_ok (env_U E)" and U: "unlock_ok E keys"
    and n: "NewSpaceKeeperV1 E D R fuel pool_err fs args = Some (w, Inr sk)"
  shows "start_inv E items keys sk"
proof -
  obtain cfg wal m sk1 where a: "strategy_parseArgs args = Inr (cfg, wal)" "cfg_Miner cfg = Some m" "pool_err = None"
    and i: "generateInitialIndex E D (upgradeMassDBFile E D (initial_keeper E fs (ProofDir m) wal)) = (sk1, None)"
    and k: "sk = sk1 \<or> configure_new E R fuel m sk1 = Some (sk, None)"
    using n by (auto simp: NewSpaceKeeperV1_def Let_def split: sum.splits option.splits if_splits prod.splits)
  let ?sk0 = "upgradeMassDBFile E D (initial_keeper E fs (ProofDir m) wal)"
  have up: "grows (initial_keeper E fs (ProofDir m) wal) ?sk0" by (rule upgradeMassDBFile_grows)
  have r0: "at_rest (initial_keeper E fs (ProofDir m) wal)"
    by (simp add: initial_keeper_def at_rest_def newPlotterQueue_def)
  have r1: "at_rest sk1" by (rule at_rest_grows [OF at_rest_grows [OF r0 up] generateInitialIndex_grows [OF i]])
  have q1: "items (pq_Prque (sk_queue sk1)) = {#}"
    using up generateInitialIndex_grows [OF i]
    by (simp add: grows_def initial_keeper_def newPlotterQueue_def prque_okD [OF Q(1)])
  have e0: "workSpaceIndex ?sk0 = [] \<and> workSpaceList ?sk0 = []"
    by (simp add: upgrade_index initial_keeper_def)
  have "cfg_inv E keys (?sk0\<lparr>workSpaceIndex := workSpaceIndex ?sk0 @ replicate 5 NewWorkSpaceMap\<rparr>)"
    using more_maps_ok [of "env_U E" ?sk0] e0 by (auto simp: cfg_inv_def index_Get_def)
  then have c1: "cfg_inv E keys sk1"
    using i index_file_keeps [OF Q(3)]
    by (auto simp: generateInitialIndex_def Let_def case_prod_unfold intro!: fold_ok [where P = "cfg_inv E keys"] split: if_splits)
  show ?thesis
    using k
  proof
    assume "sk = sk1"
    with c1 r1 q1 show ?thesis by (simp add: start_inv_def)
  qed (rule configure_new_starts [OF Q U c1 r1 q1])
qed

end
