(* ===== verification/Keeper_Queries.thy ===== *)
theory Keeper_Queries
  imports Keeper_Inv
begin

text \<open>
  The queries of the space keeper: identifiers and infos by flags, proofs of one work space or of all
  that match, directly or through a pipe.
\<close>

section \<open>Work spaces by flags\<close>

definition matching :: "('pk, 'q, 'w) spacekeeper \<Rightarrow> WorkSpaceStateFlags \<Rightarrow> nat list" where
  "matching sk flags = filter (\<lambda>r. bit flags (unat (ws_state (the_ws sk r)))) (workSpaceList sk)"

lemma list_state_valid:
  assumes "index_ok U sk" "r \<in> set (workSpaceList sk)"
  shows "State_IsValid (ws_state (the_ws sk r))"
  using index_okD(4,8) [OF assms(1)] assms(2) by blast

lemma getWsByFlags_matching:
  assumes "index_ok U sk"
  shows "getWsByFlags (\<lambda>w. ws_state (the_ws sk w)) (workSpaceList sk) flags = matching sk flags"
  using list_state_valid [OF assms]
  by (auto simp: getWsByFlags_def matching_def set_Flags_States intro!: filter_cong)

lemma matching_all:
  assumes "index_ok U sk" "Flags_Contains flags SFAll"
  shows "matching sk flags = workSpaceList sk"
  using assms list_state_valid [OF assms(1)] unfolding matching_def Contains_SFAll by (intro filter_True) auto

lemma matching_distinct: "index_ok U sk \<Longrightarrow> distinct (map (sid_of U sk) (matching sk flags))"
  unfolding matching_def by (rule distinct_map_filter) (rule index_okD(9))

section \<open>Proofs\<close>

lemma ws_items_matching:
  assumes "index_ok U sk"
  shows "ws_items U sk flags = map (\<lambda>r. (sid_of U sk r, r)) (matching sk flags)"
proof -
  let ?m = "map (\<lambda>r. (sid_of U sk r, r)) (matching sk flags)"
  have "ws_items U sk flags = fold (\<lambda>(k, v) a. AList.update k v a) ?m []"
    by (simp add: ws_items_def getWsByFlags_matching [OF assms] fold_map comp_def)
  also have "\<dots> = [] @ ?m"
    using matching_distinct [OF assms, of flags] by (intro fold_update) (simp_all add: comp_def)
  finally show ?thesis by simp
qed

lemma fold_filter_update:
  assumes "distinct (map fst xs)" "fst ` set xs \<inter> fst ` set acc = {}" "\<And>k v. (k, v) \<in> set xs \<Longrightarrow> key v = k"
  shows "fold (\<lambda>(k, v) res. if P k then AList.update (key v) (f v) res else res) xs acc =
    acc @ map (\<lambda>(k, v). (k, f v)) (filter (\<lambda>(k, v). P k) xs)"
  using assms
proof (induction xs arbitrary: acc)
  case (Cons kv xs)
  obtain k v where kv: "kv = (k, v)" by (cases kv)
  have "AList.update k v acc = acc @ [(k, v)]" if "k \<notin> fst ` set acc" for v and acc :: "('a \<times> 'c) list"
    using that by (induction acc) auto
  note up = this
  have k: "key v = k" using Cons.prems(3) kv by simp
  have IH: "fold (\<lambda>(k, v) res. if P k then AList.update (key v) (f v) res else res) xs acc' =
      acc' @ map (\<lambda>(k, v). (k, f v)) (filter (\<lambda>(k, v). P k) xs)" if "fst ` set xs \<inter> fst ` set acc' = {}" for acc'
    using Cons.IH [OF _ that] Cons.prems(1,3) by simp
  have "fst ` set xs \<inter> fst ` set (acc @ [(k, f v)]) = {}" "fst ` set xs \<inter> fst ` set acc = {}" "k \<notin> fst ` set acc"
    using Cons.prems(1,2) kv by auto
  then show ?case using IH up by (simp add: kv k)
qed simp

lemma go_range_set:
  assumes "distinct (map fst m)" "range_ok E"
  shows "set (go_range (range_order E) m) = set m" "distinct (map fst (go_range (range_order E) m))"
    "mset (go_range (range_order E) m) = mset m"
proof -
  show mm: "mset (go_range (range_order E) m) = mset m"
    using assms by (intro mset_go_range) (simp_all add: range_ok_def)
  then show "set (go_range (range_order E) m) = set m" by (metis set_mset_mset)
  from mm have "mset (map fst (go_range (range_order E) m)) = mset (map fst m)" by (metis mset_map)
  then show "distinct (map fst (go_range (range_order E) m))" using assms(1) by (metis mset_eq_imp_distinct_iff)
qed

definition proof_of :: "('pk, 'q, 'w, 'sig) sk_env \<Rightarrow> ('pk, 'q, 'w) spacekeeper \<Rightarrow> bytes \<Rightarrow> bool \<Rightarrow> nat \<Rightarrow> 'pk workspace_proof" where
  "proof_of E sk challenge filt r = sk_getProof (env_U E) (the_ws sk r) challenge filt"

lemma wsp_SpaceID_getProof: "wsp_SpaceID (sk_getProof U (the_ws sk r) challenge filt) = sid_of U sk r"
  by (simp add: sk_getProof_def sid_of_def Let_def)

lemma sk_getProofs_eq:
  assumes "distinct (map fst m)" "range_ok E" "\<And>k r. (k, r) \<in> set m \<Longrightarrow> sid_of (env_U E) sk r = k"
  shows "sk_getProofs E sk m challenge filt =
    map (\<lambda>(k, r). (k, proof_of E sk challenge filt r)) (filter (\<lambda>(k, r). pool_Submit E k) (go_range (range_order E) m))"
proof -
  have "sk_getProofs E sk m challenge filt =
      fold (\<lambda>(k, v) res. if pool_Submit E k then AList.update (sid_of (env_U E) sk v) (proof_of E sk challenge filt v) res else res)
        (go_range (range_order E) m) []"
    unfolding sk_getProofs_def Let_def wsp_SpaceID_getProof proof_of_def ..
  also have "\<dots> = [] @ map (\<lambda>(k, r). (k, proof_of E sk challenge filt r))
      (filter (\<lambda>(k, r). pool_Submit E k) (go_range (range_order E) m))"
    using go_range_set [OF assms(1,2)] assms(3) by (intro fold_filter_update) auto
  finally show ?thesis by simp
qed

text \<open>
  \<open>GetProofs\<close> returns one proof for each matching work space whose job the pool accepted.
\<close>

lemma GetProofs_matching:
  assumes ok: "index_ok (env_U E) sk" and R: "range_ok E" and st: "sk_started sk"
  shows "\<exists>proofs. SpaceKeeper_GetProofs E sk flags challenge filt = Inr proofs \<and>
    mset proofs = mset (map (proof_of E sk challenge filt)
      (filter (\<lambda>r. pool_Submit E (sid_of (env_U E) sk r)) (matching sk flags)))"
proof -
  let ?U = "env_U E"
  let ?m = "map (\<lambda>r. (sid_of ?U sk r, r)) (matching sk flags)"
  let ?g = "go_range (range_order E) ?m"
  have d: "distinct (map fst ?m)" using matching_distinct [OF ok, of flags] by (simp add: comp_def)
  note G = go_range_set [OF d R]
  let ?ps = "map (\<lambda>(k, r). (k, proof_of E sk challenge filt r)) (filter (\<lambda>(k, r). pool_Submit E k) ?g)"
  have ps: "sk_getProofs E sk ?m challenge filt = ?ps" using d R by (intro sk_getProofs_eq) auto
  have "map fst ?ps = map fst (filter (\<lambda>(k, r). pool_Submit E k) ?g)" 
    by (simp add: comp_def case_prod_unfold)
  then have dp: "distinct (map fst ?ps)" by (simp only: distinct_map_filter [OF G(2)])
  have "mset (map snd (go_range (range_order E) ?ps)) = mset (map snd ?ps)"
    by (simp only: mset_map go_range_set(3) [OF dp R])
  also have "\<dots> = mset (map (\<lambda>kr. proof_of E sk challenge filt (snd kr)) (filter (\<lambda>(k, r). pool_Submit E k) ?g))"
    by (simp add: comp_def case_prod_unfold)
  also have "\<dots> = mset (map (\<lambda>kr. proof_of E sk challenge filt (snd kr)) (filter (\<lambda>(k, r). pool_Submit E k) ?m))"
    using G(3) by (simp only: mset_map mset_filter)
  also have "map (\<lambda>kr. proof_of E sk challenge filt (snd kr)) (filter (\<lambda>(k, r). pool_Submit E k) ?m) =
      map (proof_of E sk challenge filt) (filter (\<lambda>r. pool_Submit E (sid_of ?U sk r)) (matching sk flags))"
    by (simp add: filter_map comp_def)
  finally show ?thesis
    using st ps by (simp add: SpaceKeeper_GetProofs_def ws_items_matching [OF ok])
qed

text \<open>The pipe delivers the same proofs and then the end; its goroutine never blocks.\<close>

lemma GetProofsReader_reads:
  assumes ok: "index_ok (env_U E) sk" and R: "range_ok E" and st: "sk_started sk"
    and ps: "SpaceKeeper_GetProofs E sk flags challenge filt = Inr proofs"
  shows "\<exists>prw. SpaceKeeper_GetProofsReader E sk flags challenge filt = Inr (Some prw) \<and>
    read_proofs prw (length proofs) = Some proofs"
proof -
  have eq: "proofs = map snd (go_range (range_order E) (sk_getProofs E sk (ws_items (env_U E) sk flags) challenge filt))"
    using ps st by (simp add: SpaceKeeper_GetProofs_def)
  have "length proofs = length (filter (\<lambda>r. pool_Submit E (sid_of (env_U E) sk r)) (matching sk flags))"
    using GetProofs_matching [OF ok R st, of flags challenge filt] ps
    by (metis length_map size_mset sum.inject(2))
  then have "length proofs \<le> length (ws_items (env_U E) sk flags)"
    by (simp add: ws_items_matching [OF ok])
  from write_read_proofs [OF this] show ?thesis
    using st by (auto simp: SpaceKeeper_GetProofsReader_def Let_def eq)
qed

text \<open>A proof without error verifies against the key of the work space.\<close>

lemma getProof_verifies:
  assumes "wsp_Proof (sk_getProof U ws challenge filt) = Some prf"
  shows "VerifyProof U prf (mdb_pubKeyHash (ws_db ws)) challenge filt = None"
    "wsp_Error (sk_getProof U ws challenge filt) = None"
  using assms
  by (auto simp: sk_getProof_def MassDBV1_GetProof_def Let_def split: sum.splits option.splits)

end
