(* ===== verification/Sample_Instance.thy ===== *)
theory Sample_Instance
  imports MassDB_V1
begin

text \<open>
  A concrete instance of the external functions, under which the assumptions of the theorems about
  plots hold: one-byte keys, \<open>P\<close> the reduction modulo the volume, and an environment with enough
  memory and no failures. The witnesses of the properties are stated for it.
\<close>

definition sampleU :: "byte pocutil" where
  "sampleU =
     \<lparr>RecordSize = (\<lambda>bl. (bl + 7) div 8),
      FlipValue = (\<lambda>v bl. word_of_nat (2 ^ bl - 1 - unat v)),
      PFun = (\<lambda>x bl h. word_of_nat (unat x mod 2 ^ min bl 48)),
      FBFun = (\<lambda>x xp bl h. word_of_nat (le_get x mod 2 ^ min bl 48)),
      Bytes2PoCValue = (\<lambda>b bl. word_of_nat (le_get b)),
      CutHash = (\<lambda>h bl. 0),
      PubKeyHash = (\<lambda>k. replicate 32 k),
      SerializeCompressed = (\<lambda>k. k # replicate 32 0),
      ParsePubKey = (\<lambda>b. if b = [] then Inl (PubKeyError []) else Inr (hd b)),
      VerifyProof = (\<lambda>p h c f. None)\<rparr>"

definition sampleE :: plot_env where
  "sampleE =
     \<lparr>vmem = (\<lambda>_. Inr 268435456), fill_quit = (\<lambda>_ _. False), flush_quit = (\<lambda>_ _. False),
      flush_fault = (\<lambda>_ _. None), seek_fault = (\<lambda>_. None)\<rparr>"

lemma sampleE_ok [simp]: "plot_env_ok sampleE"
  by (simp add: plot_env_ok_def sampleE_def)

lemma sampleU_pubkey [simp]: "pubkey_ok sampleU"
  by (simp add: pubkey_ok_def sampleU_def)

lemma sampleU_ok:
  assumes "1 \<le> bl" "bl \<le> 48"
  shows "pocutil_ok sampleU bl"
proof -
  have b: "(2::nat) ^ bl \<le> 2 ^ 48" using assms(2) by (rule power_increasing) simp
  have "unat (FlipValue sampleU v bl) = 2 ^ bl - 1 - unat v" for v :: u64
  proof -
    have "2 ^ bl - 1 - unat v < 2 ^ LENGTH(64)" using b by simp
    from unat_of_nat_bound [OF this] show ?thesis by (simp only: sampleU_def pocutil.select_convs)
  qed
  moreover have "unat (PFun sampleU x bl h) < 2 ^ bl" for x :: u64 and h
  proof -
    have lt: "unat x mod 2 ^ bl < 2 ^ bl" by simp
    with b have "unat x mod 2 ^ bl < 2 ^ 48" by linarith
    then have "unat x mod 2 ^ bl < 2 ^ LENGTH(64)" by (rule less_trans) simp
    from unat_of_nat_bound [OF this] lt assms(2) show ?thesis by (simp add: sampleU_def min_def)
  qed
  moreover have "RecordSize sampleU bl = (bl + 7) div 8" by (simp add: sampleU_def)
  ultimately show ?thesis using assms unfolding pocutil_ok_def by blast
qed

lemma sampleU_7 [simp]: "pocutil_ok sampleU 7"
  by (rule sampleU_ok) simp_all

lemma sampleU_RecordSize [simp]: "RecordSize sampleU bl = (bl + 7) div 8"
  by (simp add: sampleU_def)

lemma sample_aligned [simp]: "buffer_aligned (Suc 0) n"
  by (simp add: buffer_aligned_def minMapABufMem_def)

text \<open>An empty table A and table B of bit length 7, and the database made of them.\<close>

definition sampleB :: "byte hashmap" where
  "sampleB = \<lparr>hm_data = replicate 4096 0, hm_bl = 7, hm_volume = 128, hm_checkpoint = 0,
     hm_offset = 4096, hm_step = 2, hm_recordSize = 1, hm_pk = 5, hm_pkHash = replicate 32 5\<rparr>"

definition sampleA :: "byte hashmapA" where
  "sampleA = toHashMapA (sampleB\<lparr>hm_step := 1\<rparr>)"

definition sample_mdb :: "byte massdbv1" where
  "sample_mdb = new_mdb sampleU (Some sampleA) sampleB ''a'' ''b'' 7 5"

lemma sampleB_wf [simp]: "hm_wf sampleU sampleB"
  by (simp add: hm_wf_def sampleB_def LenMetaInfo_def)

lemma sampleB_ReadCheckpoint [simp]: "ReadCheckpoint sampleB = 0"
  by (simp add: ReadCheckpoint_eq sampleB_def LenMetaInfo_def) code_simp

lemma sampleB_fields [simp]:
  "hm_bl sampleB = 7" "hm_recordSize sampleB = 1" "hm_volume sampleB = 128"
  "length (hm_data sampleB) = 4096" "hm_pkHash sampleB = replicate 32 5"
  by (simp_all add: sampleB_def)

lemma sampleA_wf [simp]: "hmA_wf sampleU sampleA"
  using sampleB_wf by (simp add: sampleA_def hm_wf_def)

lemma sampleA_ReadCheckpoint [simp]: "ReadCheckpoint sampleA = 0"
  using sampleB_ReadCheckpoint by (simp add: sampleA_def ReadCheckpoint_def)

lemma sampleA_fields [simp]:
  "hm_bl sampleA = 7" "hm_recordSize sampleA = Suc 0" "hm_volume sampleA = 128"
  "length (hm_data sampleA) = 4096" "hm_pkHash sampleA = replicate 32 5"
  by (simp_all add: sampleA_def)

lemma sampleA_empty [simp]: "table_upto w evs sampleA 0"
  by (simp add: table_upto_def LenMetaInfo_def)

lemma sample_mdb_fields [simp]:
  "HashMapA sample_mdb = Some sampleA" "HashMapB sample_mdb = sampleB"
  "mdb_pubKeyHash sample_mdb = replicate 32 5" "plotting sample_mdb = 0" "mdb_wg sample_mdb = 0"
  "stopPlotCh sample_mdb = ChNil"
  by (simp_all add: sample_mdb_def new_mdb_def) (simp add: sampleU_def)

lemma sample_mdb_consistent [simp]: "db_consistent sampleU sample_mdb"
  by (simp add: db_consistent_def)

end
