(* ===== verification/Sample_Keeper.thy ===== *)
theory Sample_Keeper
  imports Keeper_Start Keeper_Queries Sample_Instance
begin

text \<open>
  A concrete environment of the space keeper, under which the assumptions of the theorems about it
  hold: a priority queue kept as a list, a wallet that hands out the one-byte keys in turn, ranges in
  the order of insertion, and a file system with one directory. The witnesses are stated for it.
\<close>

section \<open>A priority queue\<close>

fun pop_max :: "('a \<times> int) list \<Rightarrow> (('a \<times> int) list \<times> 'a \<times> int) option" where
  "pop_max [] = None"
| "pop_max ((x, p) # q) =
     (case pop_max q of None \<Rightarrow> Some ([], x, p)
      | Some (q', y, r) \<Rightarrow> if r \<le> p then Some (q, x, p) else Some ((x, p) # q', y, r))"

definition sampleQ :: "((qws \<times> int) list, qws) prque" where
  "sampleQ = \<lparr>prq_New = [], prq_Push = (\<lambda>q x p. (x, p) # q), prq_Pop = pop_max,
     prq_PopItem = (\<lambda>q. map_option (\<lambda>(q', x, p). (q', x)) (pop_max q)), prq_Empty = (\<lambda>q. q = []),
     prq_Size = length, prq_Reset = (\<lambda>_. [])\<rparr>"

lemma pop_max_ok:
  "pop_max q = Some (q', x, p) \<Longrightarrow> mset q = add_mset (x, p) (mset q') \<and> (\<forall>i\<in>set q. snd i \<le> p)"
proof (induction q arbitrary: q' x p)
  case (Cons i q)
  obtain y r where i: "i = (y, r)" by (cases i)
  show ?case
  proof (cases "pop_max q")
    case None
    then have "q = []" by (cases q) (auto split: option.splits if_splits)
    with Cons.prems i show ?thesis by simp
  next
    case (Some res)
    obtain q1 z s where res: "res = (q1, z, s)" by (cases res) auto
    from Cons.IH [OF Some [unfolded res]] Cons.prems Some res i show ?thesis
      by (force split: if_splits)
  qed
qed simp

lemma pop_max_None: "pop_max q = None \<longleftrightarrow> q = []"
  by (cases q) (auto split: option.splits if_splits)

lemma sampleQ_ok [simp]: "prque_ok sampleQ mset"
proof -
  have "prq_Pop sampleQ q = Some (q', x, p) \<Longrightarrow> mset q = add_mset (x, p) (mset q') \<and> (\<forall>i\<in>#mset q. snd i \<le> p)" for q q' x p
    unfolding set_mset_mset by (rule pop_max_ok) (simp add: sampleQ_def)
  then have "\<forall>q q' x p. prq_Pop sampleQ q = Some (q', x, p) \<longrightarrow>
      mset q = add_mset (x, p) (mset q') \<and> (\<forall>i\<in>#mset q. snd i \<le> p)" by blast
  then show ?thesis
    unfolding prque_ok_def by (intro conjI) (assumption | simp add: sampleQ_def pop_max_None)+
qed

section \<open>The environment\<close>

text \<open>A goroutine that is told to stop: it finds no memory for its first window and returns.\<close>

definition failE :: plot_env where
  "failE = sampleE\<lparr>vmem := \<lambda>_. Inl ErrMemoryNotEnough\<rparr>"

definition sample_run :: "byte plot_run" where
  "sample_run fs mdb = the (executePlot sampleU no_faults failE failE 1 fs mdb)"

definition sample_env :: "(byte, (qws \<times> int) list, nat, bytes) sk_env" where
  "sample_env =
     \<lparr>env_U = sampleU, env_F = no_faults, env_Q = sampleQ,
      PlotSize = (\<lambda>bl. 1000), EnsureBitLength = (\<lambda>bl. 24 \<le> bl \<and> bl \<le> 40), MinValidDefaultBitLength = 24,
      disk_Usage = (\<lambda>_. Inr 100000),
      GenerateNewPublicKey = (\<lambda>w. if w < 256 then (w + 1, Inr (word_of_nat w, word_of_nat w)) else (w, Inl ''no key'')),
      GetPublicKeyOrdinal = (\<lambda>w pk. if unat pk < w then Some (word_of_nat (unat pk)) else None),
      SignMessage = (\<lambda>w pk m. Inr (pk # m)), wallet_Unlock = (\<lambda>w _. (w, None)), wallet_IsLocked = (\<lambda>_. False),
      range_order = (\<lambda>ks. ks), pool_Submit = (\<lambda>_. True), plot_goroutine = sample_run\<rparr>"

definition sample_keys :: "nat \<Rightarrow> byte set" where
  "sample_keys w = {pk. unat pk < w}"

lemma sample_env_simps [simp]:
  "env_U sample_env = sampleU" "env_F sample_env = no_faults" "env_Q sample_env = sampleQ"
  "wallet_IsLocked sample_env w = False" "range_order sample_env ks = ks" "pool_Submit sample_env sid = True"
  "plot_int sample_env bl = 1000" "PlotSize sample_env bl = 1000" "EnsureBitLength sample_env i = (24 \<le> i \<and> i \<le> 40)"
  "disk_Usage sample_env d = Inr 100000" "MinValidDefaultBitLength sample_env = 24"
  by (simp_all add: sample_env_def plot_int_def)

lemma sample_range [simp]: "range_ok sample_env"
  by (simp add: range_ok_def)

lemma sample_wallet [simp]: "wallet_ok sample_env sample_keys"
proof -
  have "unat (word_of_nat w :: byte) = w" if "w < 256" for w
    using that by (simp add: unat_of_nat take_bit_eq_mod)
  then show ?thesis
    unfolding wallet_ok_def by (auto simp: sample_env_def sample_keys_def split: if_splits)
qed

lemma sample_unlock [simp]: "unlock_ok sample_env sample_keys"
  by (simp add: unlock_ok_def sample_env_def)

lemma sample_sizes [simp]: "sizes_ok sample_env"
  by (simp add: sizes_ok_def)

lemma sample_goroutine [simp]: "goroutine_ok sample_env"
proof -
  have "\<exists>r. executePlot sampleU no_faults failE failE 1 fs mdb = Some r" for fs mdb
  proof (cases "HashMapA mdb")
    case (Some hmA)
    have A: "HashMapA_makeAvailableMemory (vmem failE i) c n = Inl ErrMemoryNotEnough"
      and B: "HashMapB_makeAvailableMemory (vmem failE i) c n = Inl ErrMemoryNotEnough" for i c n
      by (simp_all add: HashMapA_makeAvailableMemory_def HashMapB_makeAvailableMemory_def makeAvailableMemory_def failE_def)
    have "\<exists>r. prePlotWork sampleU failE 1 hm cache = Some r" for hm :: "byte hashmapA" and cache
      by (simp add: prePlotWork_def prePlot_window_def A Let_def)
    moreover have "\<exists>r. plotWork sampleU failE 1 hm hmB cache = Some r" for hm :: "byte hashmapA" and hmB cache
      by (simp add: plotWork_def plot_window_def B Let_def)
    ultimately obtain hm' cache r1 where
      p: "prePlotWork sampleU failE 1 hmA (NewMemCache 0) = Some ((hm', cache), r1)"
      and w: "\<exists>s r. plotWork sampleU failE 1 hm' (HashMapB mdb) cache = Some (s, r)"
      by (metis prod.exhaust_sel)
    then show ?thesis using Some by (cases r1) (auto simp: executePlot_def Let_def simp del: split_paired_Ex split: option.splits)
  qed (simp add: executePlot_def)
  then have "executePlot sampleU no_faults failE failE 1 fs mdb = Some (sample_run fs mdb)" for fs mdb
    by (metis option.sel sample_run_def)
  then show ?thesis unfolding goroutine_ok_def by (simp add: sample_env_def) blast
qed

section \<open>A keeper with one work space\<close>

definition sample_sid :: string where
  "sample_sid = SpaceID_String sampleU (NewSpaceID sampleU 0 5 24)"

definition sample_ws :: "WorkSpaceState \<Rightarrow> byte workspace" where
  "sample_ws st = \<lparr>ws_id = NewSpaceID sampleU 0 5 24, ws_db = sample_mdb, ws_state = st, ws_using = True, ws_rootDir = ''/d''\<rparr>"

definition sample_sk :: "WorkSpaceState \<Rightarrow> (byte, (qws \<times> int) list, nat) spacekeeper" where
  "sample_sk st =
     \<lparr>sk_started = True, configuring = False, configured = True, allowGenerateNewSpace = True, dbDirs = [''/d''],
      sk_dbType = TypeMassDBV1, sk_wallet = 6,
      workSpaceIndex = map (\<lambda>i. if i = unat st \<or> i = 4 then [(sample_sid, 0)] else []) [0..<5],
      workSpacePaths = [(''/d'', \<lparr>wp_directory = ''/d'', wp_spaces = [0], wp_exists = [(sample_sid, 0)]\<rparr>)],
      workSpaceList = [0], sk_queue = newPlotterQueue sampleQ, newQueuedWorkSpaceCh = [],
      sk_heap = [sample_ws st], sk_fs = (\<lambda>_. None)\<rparr>"

lemma sample_Get:
  assumes "State_IsValid st" "State_IsValid s \<or> s = allState"
  shows "index_Get (sample_sk st) s sid = (if sid = sample_sid \<and> (s = st \<or> s = allState) then Some 0 else None)"
proof -
  have "unat s < 5" "unat s = unat st \<longleftrightarrow> s = st" "unat s = 4 \<longleftrightarrow> s = allState"
    using unat_state [OF assms(2)] by (simp_all add: word_unat_eq_iff)
  then show ?thesis
    by (simp add: index_Get_def sample_sk_def WorkSpaceMap_Get_def del: upt_rec_numeral)
qed

lemma sample_fields [simp]:
  "sk_heap (sample_sk st) = [sample_ws st]" "workSpaceList (sample_sk st) = [0]" "newQueuedWorkSpaceCh (sample_sk st) = []"
  "sk_queue (sample_sk st) = newPlotterQueue sampleQ" "sk_started (sample_sk st)" "sk_wallet (sample_sk st) = 6"
  "ws_state (sample_ws st) = st" "ws_using (sample_ws st)" "ws_db (sample_ws st) = sample_mdb"
  "ws_id (sample_ws st) = NewSpaceID sampleU 0 5 24"
  by (simp_all add: sample_sk_def sample_ws_def)

lemma sample_sid_of [simp]: "sid_of sampleU (sample_sk st) 0 = sample_sid"
  by (simp add: sid_of_def sample_sid_def)

lemma sample_index_ok: "State_IsValid st \<Longrightarrow> index_ok sampleU (sample_sk st)"
  unfolding index_ok_def
  by (auto simp: sample_Get split: if_splits) (simp_all add: sample_sk_def)

lemma sample_cfg_inv: "State_IsValid st \<Longrightarrow> cfg_inv sample_env sample_keys (sample_sk st)"
  by (auto simp: cfg_inv_def sample_index_ok sample_Get sample_keys_def NewSpaceID_def split: if_splits)

text \<open>The same keeper before it is started.\<close>

definition idle_sk :: "WorkSpaceState \<Rightarrow> (byte, (qws \<times> int) list, nat) spacekeeper" where
  "idle_sk st = (sample_sk st)\<lparr>sk_started := False\<rparr>"

lemma idle_index_ok: "State_IsValid st \<Longrightarrow> index_ok sampleU (idle_sk st)"
  by (rule index_ok_cong [OF _ _ _ _ sample_index_ok]) (simp_all add: idle_sk_def)

lemma idle_Get: "index_Get (idle_sk st) = index_Get (sample_sk st)"
  by (simp add: fun_eq_iff index_Get_def idle_sk_def)

lemma idle_cfg_inv: "State_IsValid st \<Longrightarrow> cfg_inv sample_env sample_keys (idle_sk st)"
  using sample_cfg_inv [of st] idle_index_ok [of st] by (simp add: cfg_inv_def idle_Get) (simp add: idle_sk_def)

end
