(* ===== verification/Keeper_Properties.thy ===== *)
theory Keeper_Properties
  imports Sample_Keeper
begin

text \<open>
  What the space keeper guarantees: the properties of its components, stated over the definitions,
  each with a witness for the sample environment.
\<close>

section \<open>The running system\<close>




definition sample_orders :: "byte cfg_orders" where
  "sample_orders = \<lparr>bl_order = (\<lambda>_ ks. ks), pk_order = (\<lambda>_ ks. ks)\<rparr>"




text \<open>
  C19. An action on all work spaces of given states answers for exactly the identifiers of those
  work spaces, keeps the index consistent, and does not touch any other work space.
\<close>

theorem multi_actions_framed:
  assumes "index_ok (env_U E) sk" "ActOnWorkSpaces E sk flags act = Returns sk' (Inr errs)"
  shows "index_ok (env_U E) sk' \<and> set (map fst errs) = set (WorkSpaceIDs (env_U E) sk flags) \<and>
    (\<forall>r. sid_of (env_U E) sk r \<notin> set (WorkSpaceIDs (env_U E) sk flags) \<longrightarrow> the_ws sk' r = the_ws sk r)"
proof -
  have ids: "sids_by_flags (env_U E) sk flags = map (sid_of (env_U E) sk) (matching sk flags)"
    "set (WorkSpaceIDs (env_U E) sk flags) = set (map (sid_of (env_U E) sk) (matching sk flags))"
    using getWsByFlags_matching [OF assms(1)] matching_all [OF assms(1)]
    by (simp_all add: sids_by_flags_def WorkSpaceIDs_def)
  consider "act_each (PlotWS E) (sids_by_flags (env_U E) sk flags) [] sk = Returns sk' errs"
    | "act_each (MineWS E) (sids_by_flags (env_U E) sk flags) [] sk = Returns sk' errs"
    | "act_each (StopWS E) (sids_by_flags (env_U E) sk flags) [] sk = Returns sk' errs"
    | "act_each (RemoveWS E) (sids_by_flags (env_U E) sk flags) [] sk = Returns sk' errs"
    | "act_each (DeleteWS E) (sids_by_flags (env_U E) sk flags) [] sk = Returns sk' errs"
    using assms(2)
    by (auto simp: ActOnWorkSpaces_def call_ok_def PlotMultiWS_def MineMultiWS_def StopMultiWS_def RemoveMultiWS_def
        DeleteMultiWS_def split: if_splits call.splits)
  then show ?thesis
  proof cases
    case 1
    from plot.each_ok [OF assms(1) 1] plot.each_frame [OF assms(1) 1] plot.each_answers [OF 1] show ?thesis by (simp add: ids)
  next
    case 2
    from mine.each_ok [OF assms(1) 2] mine.each_frame [OF assms(1) 2] mine.each_answers [OF 2] show ?thesis by (simp add: ids)
  next
    case 3
    from stop.each_ok [OF assms(1) 3] stop.each_frame [OF assms(1) 3] stop.each_answers [OF 3] show ?thesis by (simp add: ids)
  next
    case 4
    from remove.each_ok [OF assms(1) 4] remove.each_frame [OF assms(1) 4] remove.each_answers [OF 4] show ?thesis by (simp add: ids)
  next
    case 5
    from delete.each_ok [OF assms(1) 5] delete.each_frame [OF assms(1) 5] delete.each_answers [OF 5] show ?thesis by (simp add: ids)
  qed
qed

theorem multi_actions_framed_witness:
  "\<exists>sk' errs. ActOnWorkSpaces sample_env (sample_sk Ready) SFAll Mine = Returns sk' (Inr errs) \<and> index_ok sampleU sk'"
proof -
  have a: "\<exists>sk' errs. ActOnWorkSpaces sample_env (sample_sk Ready) SFAll Mine = Returns sk' (Inr errs)"
    using getWsByFlags_matching [OF sample_index_ok [of Ready]] matching_all [OF sample_index_ok [of Ready], of SFAll]
    by (simp add: ActOnWorkSpaces_def action_valid call_ok_def MineMultiWS_def sids_by_flags_def MineWS_def sample_Get
        Flags_Contains_def action_defs)
  then obtain sk' errs where e: "ActOnWorkSpaces sample_env (sample_sk Ready) SFAll Mine = Returns sk' (Inr errs)" by blast
  from multi_actions_framed [of sample_env, OF _ e] sample_index_ok [of Ready] e show ?thesis by auto
qed



section \<open>Ordering\<close>

text \<open>
  C21. The priority of a work space is a number of at most 31 bits above a multiple of \<open>2 ^ 32\<close> given by
  its ordinal, in spite of the rounding of the 32-bit floating point numbers it is computed with, so
  that for ordinals up to \<open>2 ^ 22\<close> work spaces with smaller ordinals come first.
\<close>

theorem priority_ordering:
  assumes "0 \<le> sid_ordinal s" "sid_ordinal s < sid_ordinal t" "sid_ordinal t \<le> 2 ^ 22"
  shows "priority_of t < priority_of s \<and>
    - sid_ordinal s * 2 ^ 32 \<le> priority_of s \<and> priority_of s \<le> - sid_ordinal s * 2 ^ 32 + 2 ^ 31"
  using priority_decreasing [OF assms] priority_bounds [of s] assms by simp

theorem priority_ordering_witness:
  "priority_of (NewSpaceID sampleU 4194304 5 24) < priority_of (NewSpaceID sampleU 4194303 6 24)"
  using priority_ordering [of "NewSpaceID sampleU 4194303 6 24" "NewSpaceID sampleU 4194304 5 24"]
  by (simp add: NewSpaceID_def)

text \<open>
  C22. \<open>getIndexedWorkSpaces\<close>, which goes through a priority queue for every bit length, returns the
  indexed work spaces grouped by bit length, each group in decreasing priority, whatever order the
  range over the map has.
\<close>

theorem getIndexedWorkSpaces_groups:
  assumes "prque_ok (env_Q E) items" "range_ok E" "index_ok (env_U E) sk"
  shows "\<exists>m. getIndexedWorkSpaces E sk = Some m \<and>
    (\<forall>bl. case map_of m bl of
        None \<Rightarrow> bl \<notin> ws_bl sk ` set (indexed_refs sk)
      | Some l \<Rightarrow> mset l = mset (filter (\<lambda>w. ws_bl sk w = bl) (indexed_refs sk)) \<and>
          sorted_wrt (\<lambda>w w'. ws_priority (sk_heap sk) w \<ge> ws_priority (sk_heap sk) w') l)"
  by (rule getIndexedWorkSpaces_sorted [OF assms])

theorem getIndexedWorkSpaces_groups_witness:
  "\<exists>m. getIndexedWorkSpaces sample_env (sample_sk Ready) = Some m"
  using getIndexedWorkSpaces_groups [of sample_env mset "sample_sk Ready"] by (auto simp: sample_index_ok)

text \<open>
  C23. \<open>WorkSpacePath.Add\<close>, which shifts a slice with \<open>copy\<close>, is insertion into the list: a work space
  that is new to the directory is put behind all of at least its priority, the list stays sorted by
  decreasing priority, and a known one changes nothing.
\<close>

theorem WorkSpacePath_Add_inserts:
  assumes "sorted_wrt (\<lambda>x y. ws_priority h x \<ge> ws_priority h y) (wp_spaces p)"
  shows "wp_spaces (WorkSpacePath_Add U h p ws) =
      (if map_of (wp_exists p) (SpaceID_String U (ws_id (h ! ws))) = None
       then insert_desc (ws_priority h) ws (wp_spaces p) else wp_spaces p) \<and>
    sorted_wrt (\<lambda>x y. ws_priority h x \<ge> ws_priority h y) (wp_spaces (WorkSpacePath_Add U h p ws))"
proof (cases "map_of (wp_exists p) (SpaceID_String U (ws_id (h ! ws)))")
  case None
  from Add_spaces [OF this] sorted_insert_desc [OF assms] None show ?thesis by simp
next
  case (Some r)
  then have "WorkSpacePath_Add U h p ws = p" by (simp add: WorkSpacePath_Add_def)
  with Some assms show ?thesis by simp
qed

theorem WorkSpacePath_Add_inserts_witness:
  "wp_spaces (WorkSpacePath_Add sampleU [sample_ws Ready] (NewWorkSpacePath ''/d'') 0) = [0]"
  using WorkSpacePath_Add_inserts [of "[sample_ws Ready]" "NewWorkSpacePath ''/d''" sampleU 0]
  by (simp add: NewWorkSpacePath_def)

section \<open>Configuration\<close>

text \<open>
  C24. The loop of \<open>fillSpaceListByBitLength\<close> chooses from every group the first spaces, as many as wanted
  or there are, in the order of the range over the wanted counts, and reports whether they suffice.
\<close>

theorem fillSpaceListByBitLength_chooses:
  assumes "distinct (map fst target)" "\<forall>(bl, cnt) \<in> set target. 0 \<le> cnt \<and> cnt < 2 ^ 62"
    "\<forall>bl spaces. map_of srcMap bl = Some spaces \<longrightarrow> length spaces < 2 ^ 62"
  shows "\<exists>cc. fillSpaceListByBitLength srcMap target [] [] True = (chosen srcMap target, cc, enough srcMap target) \<and>
    (\<forall>(bl, cnt) \<in> set target. count_of cc bl =
       (case map_of srcMap bl of None \<Rightarrow> 0 | Some spaces \<Rightarrow> int (min (nat cnt) (length spaces))))"
proof -
  obtain cc where "fillSpaceListByBitLength srcMap target [] [] True = ([] @ chosen srcMap target, cc, True \<and> enough srcMap target)"
    and c: "\<forall>bl. count_of cc bl = (case map_of target bl of None \<Rightarrow> count_of [] bl
       | Some cnt \<Rightarrow> (case map_of srcMap bl of None \<Rightarrow> count_of [] bl | Some spaces \<Rightarrow> int (min (nat cnt) (length spaces))))"
    using fillSpaceListByBitLength_chosen [OF assms(1), of srcMap "[]" "[]" True] assms(2,3)
    by (fastforce simp: count_of_def)
  moreover have "count_of cc bl = (case map_of srcMap bl of None \<Rightarrow> 0 | Some spaces \<Rightarrow> int (min (nat cnt) (length spaces)))"
    if "(bl, cnt) \<in> set target" for bl cnt
    using that assms(1) by (simp add: c count_of_def [of "[]"] split: option.split)
  ultimately show ?thesis by auto
qed

theorem fillSpaceListByBitLength_chooses_witness:
  "\<exists>cc. fillSpaceListByBitLength [(24, [7, 8, 9])] [(24, 2), (26, 1)] [] [] True = ([7, 8], cc, False)"
proof -
  let ?m = "[(24, [7, 8, 9])] :: (nat \<times> nat list) list" and ?t = "[(24, 2), (26, 1)] :: (nat \<times> int) list"
  have "\<forall>bl spaces. map_of ?m bl = Some spaces \<longrightarrow> length spaces < 2 ^ 62" by simp
  from fillSpaceListByBitLength_chooses [OF _ _ this, of ?t]
  have "\<exists>cc. fillSpaceListByBitLength ?m ?t [] [] True = (chosen ?m ?t, cc, enough ?m ?t)"
    by (auto simp del: fillSpaceListByBitLength.simps map_of.simps)
  then show ?thesis by (simp add: chosen_def enough_def)
qed


lemma sample_groups: "getIndexedWorkSpaces sample_env sk = Some [(24, [0])]" if "sk = (idle_sk Ready)\<lparr>configuring := True, configured := False\<rparr>"
proof -
  have e: "workSpaceIndex sk ! 4 = [(sample_sid, 0)]" "ws_bl sk 0 = 24"
    by (simp_all add: that idle_sk_def sample_sk_def ws_bl_def sample_ws_def NewSpaceID_def del: upt_rec_numeral)
  show ?thesis
    by (simp add: getIndexedWorkSpaces_def e WorkSpaceMap_Items_def go_range_def group_add_def Let_def newPlotterQueue_def
        plotterQueue_Push_def plotterQueue_PopItem_def sampleQ_def newQueuedWorkSpace_def)
qed

lemma sample_BySize: "\<exists>sk' infos. ConfigureBySize sample_env 2000 (idle_sk Ready) 1500 False False = Some (sk', Inr infos)"
proof -
  let ?sk = "(idle_sk Ready)\<lparr>configuring := True, configured := False\<rparr>"
  have ok: "index_ok sampleU ?sk" by (rule index_ok_cong [OF _ _ _ _ idle_index_ok [of Ready]]) simp_all
  have ix: "indexed sampleU ?sk 0"
    using sample_Get [of Ready allState sample_sid] by (simp add: indexed_def index_Get_def sid_of_def idle_sk_def sample_sid_def)
  have a: "\<exists>sk' infos. applyConfiguredWorkSpaces sample_env [0] False False ?sk = (sk', Inr infos)"
    using apply_configured [of sample_env mset ?sk "[0]" False False] ok ix by auto
  have f: "fillSpaceListBySize sample_env [] [(24, [0])] 0 1500 = ([0], 1000, True)"
    by (simp add: fillSpaceListBySize_def allowedBL_eq fill_done_def go_int_def Let_def)
  have b: "begin_configure sample_env (idle_sk Ready) = Inr ?sk"
    by (simp add: begin_configure_def idle_sk_def sample_sk_def)
  show ?thesis
    using a by (auto simp: ConfigureBySize_def configure_def b sample_groups f successfullyReturn_def)
qed




text \<open>
  C27. The configuration functions keep the invariant of the index, whether they succeed or not. After a
  success the work spaces in use are those reported, sorted by priority; without a request to plot
  or mine, the queue of the plotter is empty.
\<close>

theorem configurations_keep_index:
  assumes "prque_ok (env_Q E) items" "range_ok E" "wallet_ok E keys" "pubkey_ok (env_U E)" "cfg_inv E keys sk"
    and "ConfigureByBitLength E R fuel sk BlCount execPlot execMine = Some (sk', res) \<or>
         ConfigureBySize E fuel sk target execPlot execMine = Some (sk', res) \<or>
         ConfigureByPath E D fuel sk paths sizes execPlot execMine = Some (sk', res) \<or>
         ConfigureByFlags E sk flags execPlot execMine = Some (sk', res)"
  shows "cfg_inv E keys sk' \<and>
    (\<forall>infos. res = Inr infos \<longrightarrow> configured sk' \<and> \<not> configuring sk' \<and>
       (\<forall>w\<in>set (workSpaceList sk'). ws_using (the_ws sk' w)) \<and>
       set (map wsi_SpaceID infos) = set (map (sid_of (env_U E) sk') (workSpaceList sk')) \<and>
       sorted_wrt (\<lambda>w w'. ws_priority (sk_heap sk') w \<ge> ws_priority (sk_heap sk') w') (workSpaceList sk') \<and>
       (\<not> execPlot \<and> \<not> execMine \<longrightarrow> items (pq_Prque (sk_queue sk')) = {#}))"
proof -
  consider "configure E sk (conclude E execPlot execMine (fill_by_bl E R fuel BlCount)) = Some (sk', res)"
    | "configure E sk (conclude E execPlot execMine (fill_by_size E fuel target)) = Some (sk', res)"
    | "configure E sk (conclude E execPlot execMine (fill_by_path E D fuel paths sizes)) = Some (sk', res)"
    | "configure E sk (conclude E execPlot execMine (fill_by_flags E flags)) = Some (sk', res)"
    using assms(6)
    unfolding ConfigureByBitLength_fills ConfigureBySize_fills ConfigureByPath_fills ConfigureByFlags_fills by blast
  then show ?thesis
  proof cases
    case 1
    show ?thesis by (rule by_bl.configure_keeps [OF assms(1-5) 1 [unfolded conclude_def]])
  next
    case 2
    show ?thesis by (rule by_size.configure_keeps [OF assms(1-5) 2 [unfolded conclude_def]])
  next
    case 3
    show ?thesis by (rule by_path.configure_keeps [OF assms(1-5) 3 [unfolded conclude_def]])
  next
    case 4
    show ?thesis by (rule by_flags.configure_keeps [OF assms(1-5) 4 [unfolded conclude_def]])
  qed
qed

theorem configurations_keep_index_witness:
  "\<exists>sk' infos. ConfigureBySize sample_env 2000 (idle_sk Ready) 1500 False False = Some (sk', Inr infos) \<and>
     cfg_inv sample_env sample_keys sk' \<and> configured sk'"
proof -
  obtain sk' infos where c: "ConfigureBySize sample_env 2000 (idle_sk Ready) 1500 False False = Some (sk', Inr infos)"
    using sample_BySize by blast
  from configurations_keep_index [of sample_env mset sample_keys "idle_sk Ready" sample_orders 2000 "[]" False False sk' "Inr infos" 1500] c show ?thesis
    by (auto simp: idle_cfg_inv)
qed

text \<open>
  C28. The file names under which plot databases are created are found again: such a name matches the
  pattern of \<open>generateInitialIndex\<close>, and parsing it gives back the ordinal, the key and the bit length.
\<close>

theorem massdb_names_found:
  assumes "0 \<le> ordinal" "ordinal < 2 ^ 63" "pubkey_ok (env_U E)" "10 \<le> bl" "bl \<le> 99" "EnsureBitLength E (int bl)"
  shows "\<exists>name. snd (getPath (env_U E) dir ordinal pk bl) = filepath_Join dir name \<and>
    name_matches name \<and> name_args E name = Inr (ordinal, pk, bl)"
proof (intro exI conjI)
  show "snd (getPath (env_U E) dir ordinal pk bl) = filepath_Join dir (massdb_name (env_U E) ordinal pk bl)"
    by (rule getPath_massdb_name)
  show "name_matches (massdb_name (env_U E) ordinal pk bl)" by (rule massdb_name_matches [OF assms(1,3,4,5)])
  show "name_args E (massdb_name (env_U E) ordinal pk bl) = Inr (ordinal, pk, bl)"
    using assms by (intro massdb_name_args) auto
qed

theorem massdb_names_found_witness:
  "\<exists>name. snd (getPath sampleU ''/d'' 3 7 24) = filepath_Join ''/d'' name \<and> name_matches name \<and>
     name_args sample_env name = Inr (3, 7, 24)"
  using massdb_names_found [of 3 sample_env 24 "''/d''" 7] by simp

section \<open>Queries\<close>



text \<open>
  C30. Decoding a printed list of bit lengths and counts, with blanks anywhere, gives the sums of the
  counts for each bit length, as the documentation of \<open>DecodeProofList\<close> says.
\<close>

theorem DecodeProofList_sums:
  assumes "is \<noteq> []" "\<forall>i\<in>set is. item_ok ensure i" "\<forall>bl. sum_for bl is < 2 ^ 63"
    "filter (\<lambda>c. c \<noteq> CHR '' '') s = print_list is"
  shows "\<exists>conf. DecodeProofList ensure s = Inr conf \<and>
    (\<forall>bl. map_of conf bl = (if bl \<in> fst ` set is then Some (sum_for bl is) else None))"
  using assms by (intro DecodeProofList_print) auto

theorem DecodeProofList_sums_witness:
  "\<exists>conf. DecodeProofList (\<lambda>bl. 24 \<le> bl) ''24:1, 24:2, 26:5'' = Inr conf \<and> map_of conf 24 = Some 3 \<and> map_of conf 26 = Some 5"
proof -
  let ?is = "[(24, 1), (24, 2), (26, 5)] :: (int \<times> int) list"
  have "filter (\<lambda>c. c \<noteq> CHR '' '') ''24:1, 24:2, 26:5'' = print_list ?is" by code_simp
  moreover have "\<forall>bl. sum_for bl ?is < 2 ^ 63" by (simp add: sum_for_def)
  ultimately have "\<exists>conf. DecodeProofList (\<lambda>bl. 24 \<le> bl) ''24:1, 24:2, 26:5'' = Inr conf \<and>
      (\<forall>bl. map_of conf bl = (if bl \<in> fst ` set ?is then Some (sum_for bl ?is) else None))"
    by (intro DecodeProofList_sums) (simp_all add: item_ok_def)
  then show ?thesis by (auto simp: sum_for_def)
qed

section \<open>Where requests get lost\<close>

text \<open>
  C31. When the channel of the plotter is full while a plot runs, one more \<open>PlotWS\<close> of a registered work
  space blocks with the lock that the plotter needs to end its plot: the system is deadlocked, and no
  further step frees it.
\<close>

theorem full_channel_deadlocks:
  assumes "index_ok (env_U E) (ks_sk s)" "ks_pc s = PWorking" "ks_pending s = []"
    "poppedItem (sk_queue (ks_sk s)) \<noteq> None" "length (newQueuedWorkSpaceCh (ks_sk s)) = plotterMaxChanSize"
    "index_Get (ks_sk s) Registered sid = Some r" "ws_using (the_ws (ks_sk s) r)"
  shows "\<exists>s1. keeper_step E s s1 \<and> (\<forall>s2. (keeper_step E)\<^sup>*\<^sup>* s1 s2 \<longrightarrow> deadlocked s2)"
  using PlotWS_blocks [OF assms] deadlocked_steps by blast

theorem full_channel_deadlocks_witness:
  "\<exists>s s1. keeper_step sample_env s s1 \<and> deadlocked s1"
proof -
  let ?sk = "(sample_sk Registered)\<lparr>sk_queue := (newPlotterQueue sampleQ)\<lparr>poppedItem := Some (newQueuedWorkSpace 0 True)\<rparr>,
    newQueuedWorkSpaceCh := replicate 1024 (newQueuedWorkSpace 0 False)\<rparr>"
  let ?s = "\<lparr>ks_sk = ?sk, ks_pc = PWorking, ks_pending = []\<rparr>"
  have "\<exists>s1. keeper_step sample_env ?s s1 \<and> (\<forall>s2. (keeper_step sample_env)\<^sup>*\<^sup>* s1 s2 \<longrightarrow> deadlocked s2)"
    by (rule full_channel_deadlocks [of _ _ sample_sid 0])
      (simp_all add: sample_index_ok sample_Get plotterMaxChanSize_def)
  then show ?thesis by blast
qed

text \<open>
  C32. A request to plot that is still in the channel is not withdrawn by \<open>StopWS\<close>: the call succeeds, and
  the plotter on its own takes the work space up and plots it afterwards.
\<close>

theorem stopped_request_is_plotted:
  assumes "sys_inv E items s" "prque_ok (env_Q E) items" "ks_pc s = PLoop" "ks_pending s = []"
    "newQueuedWorkSpaceCh (ks_sk s) = [x]" "items (pq_Prque (sk_queue (ks_sk s))) = {#}"
    "index_Get (ks_sk s) Registered sid = Some (qws_ws x)" "ws_using (the_ws (ks_sk s) (qws_ws x))" "goroutine_ok E"
  shows "\<exists>sk'. StopWS E (ks_sk s) sid = Returns sk' None \<and>
    (\<exists>s'. (plotter_step E)\<^sup>*\<^sup>* (s\<lparr>ks_sk := sk'\<rparr>) s' \<and> index_Get (ks_sk s') Plotting sid = Some (qws_ws x))"
proof -
  let ?sk = "ks_sk s" and ?U = "env_U E"
  have ok: "index_ok ?U ?sk" by (rule sys_invD(1) [OF assms(1)])
  obtain q where q: "plotterQueue_Delete (env_Q E) (sid_of ?U ?sk) (sk_queue ?sk) sid = Some q"
    "items (pq_Prque q) \<subseteq># items (pq_Prque (sk_queue ?sk))"
    using plotterQueue_Delete_items [OF assms(2), of "sid_of ?U ?sk" "sk_queue ?sk" sid] queue_Delete_effects(2) [OF assms(2)] by blast
  have S: "StopWS E ?sk sid = Returns (?sk\<lparr>sk_queue := q\<rparr>) None"
    by (rule StopWS_Registered [OF ok assms(7,8) q(1)])
  have "keeper_step E s (s\<lparr>ks_sk := ?sk\<lparr>sk_queue := q\<rparr>\<rparr>)"
    using S assms(4) by (intro step_act [where act = Stop and sid = sid and err = None])
      (simp_all add: lock_free_def ActOnWorkSpace_def action_valid action_defs)
  from sys_inv_step [OF assms(2,9) this assms(1)] have I: "sys_inv E items (s\<lparr>ks_sk := ?sk\<lparr>sk_queue := q\<rparr>\<rparr>)" .
  have "\<exists>s'. (plotter_step E)\<^sup>*\<^sup>* (s\<lparr>ks_sk := ?sk\<lparr>sk_queue := q\<rparr>\<rparr>) s' \<and> index_Get (ks_sk s') Plotting sid = Some (qws_ws x)"
    by (rule plotter_takes [OF I assms(2)]) (use assms q(2) in auto)
  with S show ?thesis by blast
qed

theorem stopped_request_is_plotted_witness:
  "\<exists>s sk' s'. StopWS sample_env (ks_sk s) sample_sid = Returns sk' None \<and>
     (plotter_step sample_env)\<^sup>*\<^sup>* (s\<lparr>ks_sk := sk'\<rparr>) s' \<and> index_Get (ks_sk s') Plotting sample_sid = Some 0"
proof -
  let ?sk = "(sample_sk Registered)\<lparr>newQueuedWorkSpaceCh := [newQueuedWorkSpace 0 False]\<rparr>"
  let ?s = "\<lparr>ks_sk = ?sk, ks_pc = PLoop, ks_pending = []\<rparr>"
  have k: "known sampleU (sample_sk Registered) 0" by (simp add: known_def sample_Get)
  have "sys_inv sample_env mset ?s"
    unfolding sys_inv_def Let_def
    by (simp add: sample_index_ok sample_Get k newQueuedWorkSpace_def popped_ws_def newPlotterQueue_def sampleQ_def
        db_idle_def) 
  moreover have "pq_Prque (newPlotterQueue sampleQ) = []" by (simp add: newPlotterQueue_def sampleQ_def)
  ultimately have "\<exists>sk'. StopWS sample_env (ks_sk ?s) sample_sid = Returns sk' None \<and>
    (\<exists>s'. (plotter_step sample_env)\<^sup>*\<^sup>* (?s\<lparr>ks_sk := sk'\<rparr>) s' \<and>
       index_Get (ks_sk s') Plotting sample_sid = Some (qws_ws (newQueuedWorkSpace 0 False)))"
    by (intro stopped_request_is_plotted [where items = mset]) (simp_all add: sample_Get newQueuedWorkSpace_def)
  then show ?thesis unfolding newQueuedWorkSpace_def qws.simps by (elim exE conjE) (intro exI conjI)
qed

end
