(* ===== verification/Poc_Miner.thy ===== *)
theory Poc_Miner
  imports Keeper_Start Keeper_Queries
begin

text \<open>
  The miner of \<open>poc/engine/pocminer\<close>: the registry of \<open>pocminer.go\<close>, the synchronous strategy of
  \<open>miner/strategy.go\<close>, which waits for the first slot in which a proof of the space keeper is good
  enough, and the loop of \<open>miner/miner.go\<close> that turns such a proof into a signed block and submits it.

  The chain, its templates and blocks, the transactions and the quality of a proof are mass-core's:
  the types below have the fields the miner uses, and the functions are the fields of \<open>miner_lib\<close>.
  What happens concurrently is an argument: the ticks of the ticker with the time at which each is
  received, the state of the quit channel at each poll, the nodes the stale monitor has received by
  then, the readings of the clock. A time is a number of nanoseconds since the epoch. A call that has
  not returned when its inputs are used up is \<open>None\<close>.
\<close>

section \<open>Types\<close>

datatype miner_error =
    ErrInvalidMinerType | ErrInvalidMinerArgs | ErrUnimplementedMiner
  | errQuitSolveBlock | errNoValidProof | errWrongTemplateCh | errAvoidDoubleMining | errBestChainSwitched
  | ErrNoPayoutAddresses
  | KeeperError sk_error | ChainError string | QualityError string
  | MinerPanicNil | MinerPanicIndex

definition time_Unix :: "int \<Rightarrow> int" where "time_Unix t = t div 1000000000"
definition time_Seconds :: "u64 \<Rightarrow> int" where "time_Seconds n = uint n * 1000000000"

definition allowAhead :: u64 where "allowAhead = 1"

record ('pk, 'tx) poc_template =
  tpl_Height :: u64
  tpl_Timestamp :: int
  tpl_Previous :: bytes
  tpl_Challenge :: bytes
  tpl_GetTarget :: "int \<Rightarrow> int"
  tpl_PassBinding :: "'pk workspace_proof \<Rightarrow> bool"
  tpl_GetCoinbase :: "'pk workspace_proof \<Rightarrow> int \<Rightarrow> string + 'tx"
  tpl_Err :: "miner_error option"

record ('pk, 'tx, 'sig) msg_block =
  hdr_Height :: u64
  hdr_Timestamp :: int
  hdr_Target :: int
  hdr_Challenge :: bytes
  hdr_PubKey :: 'pk
  hdr_Proof :: "default_proof option"
  hdr_Signature :: "'sig option"
  hdr_TransactionRoot :: bytes
  hdr_WitnessRoot :: bytes
  Transactions :: "'tx list"

record ('pk, 'tx, 'sig) block_template =
  bt_Block :: "('pk, 'tx, 'sig) msg_block"
  bt_TotalFee :: int
  bt_MerkleCache :: "bytes list"
  bt_WitnessMerkleCache :: "bytes list"
  bt_Err :: "miner_error option"

record block_node =
  bn_Hash :: bytes
  bn_Height :: u64
  bn_CapSum :: int
  bn_Timestamp :: int
  bn_Quality :: int

record ('pk, 'tx, 'sig) miner_lib =
  lib_U :: "'pk pocutil"
  PoCSlot :: u64
  EnforceMASSIP0002 :: "u64 \<Rightarrow> bool"
  VerifiedQuality :: "default_proof \<Rightarrow> bytes \<Rightarrow> bytes \<Rightarrow> bool \<Rightarrow> u64 \<Rightarrow> u64 \<Rightarrow> string + int"
  TxHash :: "'tx \<Rightarrow> bytes"
  Tx_Hash :: "'tx \<Rightarrow> bytes"
  WitnessHash :: "'tx \<Rightarrow> bytes"
  TxOut :: "'tx \<Rightarrow> int list"
  GetMerkleRootFromCache :: "bytes \<Rightarrow> bytes list \<Rightarrow> bytes"
  NewAmountFromInt :: "int \<Rightarrow> string + int"
  PoCHash :: "('pk, 'tx, 'sig) msg_block \<Rightarrow> string + bytes"
  Block_Hash :: "('pk, 'tx, 'sig) msg_block \<Rightarrow> bytes"

text \<open>The operations of the interface \<open>SpaceKeeper\<close> that the miner calls.\<close>

record ('k, 'pk, 'sig) keeper_ops =
  op_Started :: "'k \<Rightarrow> bool"
  op_Start :: "'k \<Rightarrow> 'k \<times> sk_error option"
  op_GetProofs :: "'k \<Rightarrow> WorkSpaceStateFlags \<Rightarrow> bytes \<Rightarrow> bool \<Rightarrow> sk_error + 'pk workspace_proof list"
  op_SignHash :: "'k \<Rightarrow> string \<Rightarrow> bytes \<Rightarrow> sk_error + 'sig"

record 'pk proof_template =
  pt_proof :: "'pk workspace_proof"
  pt_time :: int
  pt_quality :: int

record ('c, 's, 'k, 'addr) poc_miner =
  m_name :: string
  allowSolo :: bool
  m_chain :: 'c
  syncManager :: 's
  m_SpaceKeeper :: 'k
  minedHeight :: "u64 list"
  newBlockCh :: "bytes list"
  payoutAddresses :: "'addr list"
  m_running :: bool

text \<open>What \<open>getTemplate\<close> selects: the quit channel, or a value from the template channel.\<close>

datatype ('pk, 'tx, 'sig) recv =
    RecvQuit | RecvPoC "('pk, 'tx) poc_template" | RecvBlock "('pk, 'tx, 'sig) block_template" | RecvOther

section \<open>The registry\<close>

record 'f miner_backend =
  mb_Typ :: string
  mb_NewPoCMiner :: 'f

definition AddPoCMinerBackend :: "'f miner_backend list \<Rightarrow> 'f miner_backend \<Rightarrow> 'f miner_backend list" where
  "AddPoCMinerBackend BackendList ins =
     (if list_ex (\<lambda>kb. mb_Typ kb = mb_Typ ins) BackendList then BackendList else BackendList @ [ins])"

definition pocminer_NewPoCMiner ::
  "('a \<Rightarrow> miner_error + 'm) miner_backend list \<Rightarrow> string \<Rightarrow> 'a \<Rightarrow> miner_error + 'm" where
  "pocminer_NewPoCMiner BackendList kbType args =
     (case find (\<lambda>kb. mb_Typ kb = kbType) BackendList of
        Some kb \<Rightarrow> mb_NewPoCMiner kb args
      | None \<Rightarrow> Inl ErrInvalidMinerType)"

section \<open>The constructor\<close>

datatype ('c, 's, 'k, 'addr) miner_arg =
    MBool bool | MChain 'c | MSyncManager 's | MSpaceKeeper 'k | MNewBlockCh "bytes list" | MAddresses "'addr list"
  | MOther

definition TypeSyncMiner :: string where "TypeSyncMiner = ''sync''"

definition miner_NewPoCMiner ::
  "string \<Rightarrow> bool \<Rightarrow> 'c \<Rightarrow> 's \<Rightarrow> 'k \<Rightarrow> bytes list \<Rightarrow> 'addr list \<Rightarrow> ('c, 's, 'k, 'addr) poc_miner" where
  "miner_NewPoCMiner name solo chain sync sk newBlock addresses =
     \<lparr>m_name = name, allowSolo = solo, m_chain = chain, syncManager = sync, m_SpaceKeeper = sk,
      minedHeight = [], newBlockCh = newBlock, payoutAddresses = addresses, m_running = False\<rparr>"

definition parsArgs ::
  "('c, 's, 'k, 'addr) miner_arg list \<Rightarrow> miner_error + bool \<times> 'c \<times> 's \<times> 'k \<times> bytes list \<times> 'addr list" where
  "parsArgs args =
     (if length args \<noteq> 6 then Inl ErrInvalidMinerArgs
      else case args ! 0 of MBool solo \<Rightarrow>
        (case args ! 1 of MChain chain \<Rightarrow>
          (case args ! 2 of MSyncManager sync \<Rightarrow>
            (case args ! 3 of MSpaceKeeper sk \<Rightarrow>
              (case args ! 4 of MNewBlockCh ch \<Rightarrow>
                (case args ! 5 of MAddresses addrs \<Rightarrow> Inr (solo, chain, sync, sk, ch, addrs)
                 | _ \<Rightarrow> Inl ErrInvalidMinerArgs)
               | _ \<Rightarrow> Inl ErrInvalidMinerArgs)
             | _ \<Rightarrow> Inl ErrInvalidMinerArgs)
           | _ \<Rightarrow> Inl ErrInvalidMinerArgs)
         | _ \<Rightarrow> Inl ErrInvalidMinerArgs)
      | _ \<Rightarrow> Inl ErrInvalidMinerArgs)"

definition NewSyncMiner :: "('c, 's, 'k, 'addr) miner_arg list \<Rightarrow> miner_error + ('c, 's, 'k, 'addr) poc_miner" where
  "NewSyncMiner args =
     (case parsArgs args of Inl err \<Rightarrow> Inl err
      | Inr (solo, chain, sync, sk, ch, addrs) \<Rightarrow>
          Inr (miner_NewPoCMiner TypeSyncMiner solo chain sync sk ch addrs))"

definition miner_backends :: "(('c, 's, 'k, 'addr) miner_arg list \<Rightarrow> miner_error + ('c, 's, 'k, 'addr) poc_miner) miner_backend list" where
  "miner_backends = AddPoCMinerBackend [] \<lparr>mb_Typ = TypeSyncMiner, mb_NewPoCMiner = NewSyncMiner\<rparr>"

definition miner_OnStart ::
  "('k, 'pk, 'sig) keeper_ops \<Rightarrow> ('c, 's, 'k, 'addr) poc_miner \<Rightarrow> ('c, 's, 'k, 'addr) poc_miner \<times> miner_error option" where
  "miner_OnStart K m =
     (if payoutAddresses m = [] then (m, Some ErrNoPayoutAddresses)
      else if op_Started K (m_SpaceKeeper m) then (m\<lparr>m_running := True\<rparr>, None)
      else case op_Start K (m_SpaceKeeper m) of
        (sk, Some err) \<Rightarrow> (m\<lparr>m_SpaceKeeper := sk\<rparr>, Some (KeeperError err))
      | (sk, None) \<Rightarrow> (m\<lparr>m_SpaceKeeper := sk, m_running := True\<rparr>, None))"

text \<open>
  \<open>OnStop\<close> closes the quit channel, which is open while the miner runs; closing it otherwise panics
  (\<open>None\<close>).
\<close>

definition miner_OnStop :: "('c, 's, 'k, 'addr) poc_miner \<Rightarrow> ('c, 's, 'k, 'addr) poc_miner option" where
  "miner_OnStop m = (if m_running m then Some (m\<lparr>m_running := False\<rparr>) else None)"

definition miner_Type :: "('c, 's, 'k, 'addr) poc_miner \<Rightarrow> string" where
  "miner_Type m = m_name m"

definition SetPayoutAddresses ::
  "'addr list \<Rightarrow> ('c, 's, 'k, 'addr) poc_miner \<Rightarrow> ('c, 's, 'k, 'addr) poc_miner \<times> miner_error option" where
  "SetPayoutAddresses addresses m =
     (if addresses = [] then (m, Some ErrNoPayoutAddresses) else (m\<lparr>payoutAddresses := addresses\<rparr>, None))"

section \<open>The stale monitor\<close>

definition isBetterNode :: "block_node \<Rightarrow> block_node \<Rightarrow> bool" where
  "isBetterNode node newNode =
     (if bn_CapSum newNode < bn_CapSum node then False
      else if bn_CapSum newNode = bn_CapSum node then
        (if bn_Timestamp newNode < bn_Timestamp node then True
         else if bn_Timestamp newNode = bn_Timestamp node then bn_Quality newNode > bn_Quality node
         else False)
      else True)"

text \<open>
  What the goroutine receives: its context is done, or a node arrives, with the error that the next
  call of \<open>BlockWaiter\<close> would return. The result is the flag \<open>stale\<close>.
\<close>

datatype monitor_event = CtxDone | NewNode block_node "string option"

fun runMonitor :: "block_node \<Rightarrow> monitor_event list \<Rightarrow> bool" where
  "runMonitor node [] = False"
| "runMonitor node (CtxDone # es) = False"
| "runMonitor node (NewNode newNode waiter_err # es) =
     (if isBetterNode node newNode then True
      else case waiter_err of Some err \<Rightarrow> True | None \<Rightarrow> runMonitor node es)"

definition runStaleMonitor ::
  "block_node \<Rightarrow> (u64 \<Rightarrow> string option) \<Rightarrow> bytes \<Rightarrow> miner_error + (monitor_event list \<Rightarrow> bool)" where
  "runStaleMonitor node BlockWaiter previousHash =
     (if bn_Hash node \<noteq> previousHash then Inl errBestChainSwitched
      else case BlockWaiter (bn_Height node) of
        Some err \<Rightarrow> Inl (ChainError err)
      | None \<Rightarrow> Inr (runMonitor node))"

section \<open>Proofs and qualities\<close>

definition getValidProofs :: "'pk workspace_proof list \<Rightarrow> 'pk workspace_proof list" where
  "getValidProofs proofs = filter (\<lambda>p. wsp_Error p = None) proofs"

definition getBindingProofs ::
  "'pk workspace_proof list \<Rightarrow> ('pk, 'tx) poc_template \<Rightarrow> 'pk workspace_proof list" where
  "getBindingProofs proofs template = filter (tpl_PassBinding template) proofs"

fun getQualities ::
  "('pk, 'tx, 'sig) miner_lib \<Rightarrow> 'pk workspace_proof list \<Rightarrow> bytes \<Rightarrow> bool \<Rightarrow> u64 \<Rightarrow> u64 \<Rightarrow> miner_error + int list" where
  "getQualities L [] challenge filt slot height = Inr []"
| "getQualities L (p # ps) challenge filt slot height =
     (case wsp_Proof p of None \<Rightarrow> Inl MinerPanicNil
      | Some pr \<Rightarrow>
        (case VerifiedQuality L pr (PubKeyHash (lib_U L) (wsp_PublicKey p)) challenge filt slot height of
           Inl err \<Rightarrow> Inl (QualityError err)
         | Inr quality \<Rightarrow> map_sum id ((#) quality) (getQualities L ps challenge filt slot height)))"

text \<open>The loop that looks for the best quality; \<open>i\<close> is the index of the first element.\<close>

fun find_best :: "int list \<Rightarrow> nat \<Rightarrow> int \<Rightarrow> nat \<Rightarrow> int \<times> nat" where
  "find_best [] i bestQuality bestProofIndex = (bestQuality, bestProofIndex)"
| "find_best (quality # qs) i bestQuality bestProofIndex =
     (if quality > bestQuality then find_best qs (i + 1) quality i
      else find_best qs (i + 1) bestQuality bestProofIndex)"

section \<open>Waiting for a slot\<close>

text \<open>
  At a poll the quit channel is closed or not, and the monitor has received some of its events. A
  \<open>Tick\<close> has the time of \<open>time.Now\<close> in seconds and the polls of the slots tried at that tick.

  \<open>bestQuality\<close> is set to zero in place before each slot. The integer it points to is the best quality
  of the previous slot, which is not read again, so the model starts from zero each time.
  \<open>bestProofIndex\<close> survives from slot to slot.
\<close>

record poll =
  poll_quit :: bool
  poll_seen :: "monitor_event list"

datatype wait_event = QuitReceived | Tick int "u64 \<Rightarrow> poll"

record ('pk, 'tx) slot_state =
  ss_workSlot :: u64
  ss_template :: "('pk, 'tx) poc_template"
  ss_bestProofIndex :: nat

datatype ('pk, 'tx) slot_result =
    SlotFailed miner_error | SlotSolved "'pk proof_template" "('pk, 'tx) poc_template"
  | NextTick "('pk, 'tx) slot_state"

definition next_slot :: "('pk, 'tx, 'sig) miner_lib \<Rightarrow> nat \<Rightarrow> ('pk, 'tx) slot_state \<Rightarrow> ('pk, 'tx) slot_state" where
  "next_slot L idx st =
     \<lparr>ss_workSlot = ss_workSlot st + 1,
      ss_template = (ss_template st)\<lparr>tpl_Timestamp := tpl_Timestamp (ss_template st) + time_Seconds (PoCSlot L)\<rparr>,
      ss_bestProofIndex = idx\<rparr>"

text \<open>
  The loop over the slots \<open>i\<close> up to \<open>nowSlot + allowAhead\<close>. It would not end if that bound were the
  greatest 64-bit number.
\<close>

partial_function (option) slot_loop ::
  "('pk, 'tx, 'sig) miner_lib \<Rightarrow> (monitor_event list \<Rightarrow> bool) \<Rightarrow> 'pk workspace_proof list \<Rightarrow> (u64 \<Rightarrow> poll)
     \<Rightarrow> u64 \<Rightarrow> u64 \<Rightarrow> ('pk, 'tx) slot_state \<Rightarrow> ('pk, 'tx) slot_result option" where
  "slot_loop L staled proofs polls limit i st =
     (if \<not> i \<le> limit then Some (NextTick st)
      else if poll_quit (polls i) then Some (SlotFailed errQuitSolveBlock)
      else if staled (poll_seen (polls i)) then Some (SlotFailed errQuitSolveBlock)
      else
        let tpl = ss_template st in
        case getQualities L proofs (tpl_Challenge tpl) (EnforceMASSIP0002 L (tpl_Height tpl)) (ss_workSlot st) (tpl_Height tpl) of
          Inl err \<Rightarrow> Some (SlotFailed err)
        | Inr qualities \<Rightarrow>
          if qualities = [] then Some (NextTick st)
          else
            let (bestQuality, idx) = find_best qualities 0 0 (ss_bestProofIndex st) in
            if bestQuality > tpl_GetTarget tpl (tpl_Timestamp tpl) then
              (if idx < length proofs
               then Some (SlotSolved \<lparr>pt_proof = proofs ! idx, pt_time = tpl_Timestamp tpl, pt_quality = bestQuality\<rparr> tpl)
               else Some (SlotFailed MinerPanicIndex))
            else slot_loop L staled proofs polls limit (i + 1) (next_slot L idx st))"

definition nowSlot :: "('pk, 'tx, 'sig) miner_lib \<Rightarrow> int \<Rightarrow> u64" where
  "nowSlot L now = word_of_int now div PoCSlot L"

fun try_loop ::
  "('pk, 'tx, 'sig) miner_lib \<Rightarrow> (monitor_event list \<Rightarrow> bool) \<Rightarrow> 'pk workspace_proof list \<Rightarrow> wait_event list
     \<Rightarrow> ('pk, 'tx) slot_state \<Rightarrow> (miner_error + 'pk proof_template \<times> ('pk, 'tx) poc_template) option" where
  "try_loop L staled proofs [] st = None"
| "try_loop L staled proofs (QuitReceived # es) st = Some (Inl errQuitSolveBlock)"
| "try_loop L staled proofs (Tick now polls # es) st =
     (if ss_workSlot st > nowSlot L now + allowAhead then try_loop L staled proofs es st
      else case slot_loop L staled proofs polls (nowSlot L now + allowAhead) (ss_workSlot st) st of
        None \<Rightarrow> None
      | Some (SlotFailed err) \<Rightarrow> Some (Inl err)
      | Some (SlotSolved pt tpl) \<Rightarrow> Some (Inr (pt, tpl))
      | Some (NextTick st') \<Rightarrow> try_loop L staled proofs es st')"

definition first_slot :: "('pk, 'tx, 'sig) miner_lib \<Rightarrow> ('pk, 'tx) poc_template \<Rightarrow> u64" where
  "first_slot L tpl = word_of_int (time_Unix (tpl_Timestamp tpl)) div PoCSlot L"

record ('pk, 'tx, 'sig, 'addr) solve_env =
  NewBlockTemplate :: "'addr list \<Rightarrow> string option"
  recv_poc :: "('pk, 'tx, 'sig) recv"
  recv_block :: "('pk, 'tx, 'sig) recv"
  BestBlockNode :: block_node
  BlockWaiter :: "u64 \<Rightarrow> string option"
  wait_events :: "wait_event list"

definition syncGetBestProof ::
  "('pk, 'tx, 'sig) miner_lib \<Rightarrow> ('k, 'pk, 'sig) keeper_ops \<Rightarrow> ('pk, 'tx, 'sig, 'addr) solve_env \<Rightarrow> 'k
     \<Rightarrow> ('pk, 'tx) poc_template \<Rightarrow> (miner_error + 'pk proof_template \<times> ('pk, 'tx) poc_template) option" where
  "syncGetBestProof L K S sk tpl =
     (let workSlot = first_slot L tpl in
      case runStaleMonitor (BestBlockNode S) (BlockWaiter S) (tpl_Previous tpl) of
        Inl err \<Rightarrow> Some (Inl err)
      | Inr staled \<Rightarrow>
        (case op_GetProofs K sk SFMining (tpl_Challenge tpl) (EnforceMASSIP0002 L (tpl_Height tpl)) of
           Inl err \<Rightarrow> Some (Inl (KeeperError err))
         | Inr skProofs \<Rightarrow>
           (let proofs = getBindingProofs (getValidProofs skProofs) tpl in
            if proofs = [] then Some (Inl errNoValidProof)
            else try_loop L staled proofs (wait_events S)
                   \<lparr>ss_workSlot = workSlot, ss_template = tpl, ss_bestProofIndex = 0\<rparr>)))"

section \<open>Solving a block\<close>

text \<open>
  \<open>getTemplate\<close> is called with the type of one of the two templates; the two calls differ in the type
  of what they return.
\<close>

definition getPoCTemplate :: "('pk, 'tx, 'sig) recv \<Rightarrow> miner_error + ('pk, 'tx) poc_template" where
  "getPoCTemplate r =
     (case r of RecvQuit \<Rightarrow> Inl errQuitSolveBlock
      | RecvPoC tpl \<Rightarrow> (case tpl_Err tpl of Some err \<Rightarrow> Inl err | None \<Rightarrow> Inr tpl)
      | RecvBlock _ \<Rightarrow> Inl errWrongTemplateCh
      | RecvOther \<Rightarrow> Inl errWrongTemplateCh)"

definition getBlockTemplate :: "('pk, 'tx, 'sig) recv \<Rightarrow> miner_error + ('pk, 'tx, 'sig) block_template" where
  "getBlockTemplate r =
     (case r of RecvQuit \<Rightarrow> Inl errQuitSolveBlock
      | RecvPoC _ \<Rightarrow> Inl errWrongTemplateCh
      | RecvBlock bt \<Rightarrow> (case bt_Err bt of Some err \<Rightarrow> Inl err | None \<Rightarrow> Inr bt)
      | RecvOther \<Rightarrow> Inl errWrongTemplateCh)"

definition assembleFullBlock ::
  "('pk, 'tx, 'sig) miner_lib \<Rightarrow> ('pk, 'tx, 'sig) block_template \<Rightarrow> ('pk, 'tx) poc_template \<Rightarrow> 'pk proof_template
     \<Rightarrow> miner_error + ('pk, 'tx, 'sig) msg_block \<times> int" where
  "assembleFullBlock L bt tpl tProof =
     (let workProof = pt_proof tProof;
          block = (bt_Block bt)\<lparr>hdr_Timestamp := pt_time tProof, hdr_Target := tpl_GetTarget tpl (pt_time tProof),
                    hdr_Challenge := tpl_Challenge tpl, hdr_PubKey := wsp_PublicKey workProof,
                    hdr_Proof := wsp_Proof workProof\<rparr> in
      case tpl_GetCoinbase tpl workProof (bt_TotalFee bt) of Inl err \<Rightarrow> Inl (ChainError err)
      | Inr coinbaseTx \<Rightarrow>
        if bt_MerkleCache bt = [] then Inl MinerPanicIndex
        else if TxHash L coinbaseTx \<noteq> hd (bt_MerkleCache bt) \<and> Transactions block = [] then Inl MinerPanicIndex
        else
          let block1 =
                (if TxHash L coinbaseTx \<noteq> hd (bt_MerkleCache bt)
                 then block\<lparr>Transactions := (Transactions block)[0 := coinbaseTx],
                        hdr_TransactionRoot := GetMerkleRootFromCache L (Tx_Hash L coinbaseTx) (bt_MerkleCache bt),
                        hdr_WitnessRoot := GetMerkleRootFromCache L (WitnessHash L coinbaseTx) (bt_WitnessMerkleCache bt)\<rparr>
                 else block) in
          if Transactions block1 = [] \<or> TxOut L (hd (Transactions block1)) = [] then Inl MinerPanicIndex
          else case NewAmountFromInt L (last (TxOut L (hd (Transactions block1)))) of
            Inl err \<Rightarrow> Inl (ChainError err)
          | Inr minerReward \<Rightarrow> Inr (block1, minerReward))"

definition solveBlock ::
  "('pk, 'tx, 'sig) miner_lib \<Rightarrow> ('k, 'pk, 'sig) keeper_ops \<Rightarrow> ('pk, 'tx, 'sig, 'addr) solve_env \<Rightarrow> ('c, 's, 'k, 'addr) poc_miner
     \<Rightarrow> 'addr list \<Rightarrow> (miner_error + ('pk, 'tx, 'sig) msg_block \<times> int) option" where
  "solveBlock L K S m addrs =
     (case NewBlockTemplate S addrs of Some err \<Rightarrow> Some (Inl (ChainError err))
      | None \<Rightarrow>
        (case getPoCTemplate (recv_poc S) of Inl err \<Rightarrow> Some (Inl err)
         | Inr pocTemplate \<Rightarrow>
           if tpl_Height pocTemplate \<in> set (minedHeight m) then Some (Inl errAvoidDoubleMining)
           else
             (case syncGetBestProof L K S (m_SpaceKeeper m) pocTemplate of None \<Rightarrow> None
              | Some (Inl err) \<Rightarrow> Some (Inl err)
              | Some (Inr (tProof, pocTemplate')) \<Rightarrow>
                (case getBlockTemplate (recv_block S) of Inl err \<Rightarrow> Some (Inl err)
                 | Inr blockTemplate \<Rightarrow>
                   (case assembleFullBlock L blockTemplate pocTemplate' tProof of Inl err \<Rightarrow> Some (Inl err)
                    | Inr (block, minerReward) \<Rightarrow>
                      (case PoCHash L block of Inl err \<Rightarrow> Some (Inl (ChainError err))
                       | Inr pocHash \<Rightarrow>
                         (case op_SignHash K (m_SpaceKeeper m) (wsp_SpaceID (pt_proof tProof)) pocHash of
                            Inl err \<Rightarrow> Some (Inl (KeeperError err))
                          | Inr sig \<Rightarrow> Some (Inr (block\<lparr>hdr_Signature := Some sig\<rparr>, minerReward)))))))))"

section \<open>The mining loop\<close>

text \<open>
  One turn of the loop: the answers of the sync manager, those of the chain while it solves a block,
  and for the submission the readings of the clock and the answer of \<open>ProcessBlock\<close>. The new block's
  hash is received from \<open>newBlockCh\<close> by the network; the list keeps all that were sent.
\<close>

record ('pk, 'tx, 'sig, 'addr) mining_round =
  PeerCount :: nat
  IsCaughtUp :: bool
  rd_solve :: "('pk, 'tx, 'sig, 'addr) solve_env"
  rd_clock :: "int list"
  ProcessBlock :: "('pk, 'tx, 'sig) msg_block \<Rightarrow> string + bool"

definition submitBlock ::
  "('pk, 'tx, 'sig) miner_lib \<Rightarrow> ('pk, 'tx, 'sig, 'addr) mining_round \<Rightarrow> ('pk, 'tx, 'sig) msg_block
     \<Rightarrow> ('c, 's, 'k, 'addr) poc_miner \<Rightarrow> (('c, 's, 'k, 'addr) poc_miner \<times> bool) option" where
  "submitBlock L R block m =
     (if \<not> list_ex (\<lambda>now. now > hdr_Timestamp block) (rd_clock R) then None
      else case ProcessBlock R block of
        Inl err \<Rightarrow> Some (m, False)
      | Inr isOrphan \<Rightarrow>
        if isOrphan then Some (m, False)
        else Some (m\<lparr>newBlockCh := newBlockCh m @ [Block_Hash L block],
                     minedHeight := List.insert (hdr_Height block) (minedHeight m)\<rparr>, True))"

datatype ('pk, 'tx, 'sig, 'addr) loop_event =
    LoopQuit | LoopRound "('pk, 'tx, 'sig, 'addr) mining_round" | LoopPayout "'addr list"

text \<open>The flag tells that the loop is left.\<close>

definition generate_round ::
  "('pk, 'tx, 'sig) miner_lib \<Rightarrow> ('k, 'pk, 'sig) keeper_ops \<Rightarrow> ('pk, 'tx, 'sig, 'addr) mining_round
     \<Rightarrow> ('c, 's, 'k, 'addr) poc_miner \<Rightarrow> (('c, 's, 'k, 'addr) poc_miner \<times> bool) option" where
  "generate_round L K R m =
     (if (PeerCount R = 0 \<or> \<not> IsCaughtUp R) \<and> \<not> allowSolo m then Some (m, False)
      else if payoutAddresses m = [] then Some (m, True)
      else case solveBlock L K (rd_solve R) m (payoutAddresses m) of
        None \<Rightarrow> None
      | Some (Inl err) \<Rightarrow> Some (m, False)
      | Some (Inr (newBlock, minerReward)) \<Rightarrow>
          map_option (\<lambda>(m', accepted). (m', False)) (submitBlock L R newBlock m))"

text \<open>
  The loop over a sequence of events, among which are the calls of \<open>SetPayoutAddresses\<close> by others.
\<close>

fun generateBlocks ::
  "('pk, 'tx, 'sig) miner_lib \<Rightarrow> ('k, 'pk, 'sig) keeper_ops \<Rightarrow> ('pk, 'tx, 'sig, 'addr) loop_event list
     \<Rightarrow> ('c, 's, 'k, 'addr) poc_miner \<Rightarrow> (('c, 's, 'k, 'addr) poc_miner \<times> bool) option" where
  "generateBlocks L K [] m = Some (m, False)"
| "generateBlocks L K (LoopQuit # es) m = Some (m, True)"
| "generateBlocks L K (LoopPayout addrs # es) m = generateBlocks L K es (fst (SetPayoutAddresses addrs m))"
| "generateBlocks L K (LoopRound R # es) m =
     (case generate_round L K R m of None \<Rightarrow> None
      | Some (m', True) \<Rightarrow> Some (m', True)
      | Some (m', False) \<Rightarrow> generateBlocks L K es m')"

end
