(* ===== verification/Slot_Search.thy ===== *)
theory Slot_Search
  imports Poc_Miner
begin

text \<open>
  What the synchronous strategy of the miner searches for. Slot \<open>n\<close> after the one of the template has
  the qualities of all proofs in that slot and a target at its time; the first slot whose best quality
  exceeds its target solves the block. The loops of \<open>syncGetBestProof\<close> return the solution of that slot
  and no other, and they return it once the clock reaches it.
\<close>

section \<open>The best quality\<close>

lemma find_best_fst: "fst (find_best qs i b idx) = fold max qs b"
  by (induction qs arbitrary: i b idx) (auto simp: max_def)

lemma fold_max_ge: "b \<le> fold max qs b" for b :: int
  by (induction qs arbitrary: b) (auto intro: order_trans [OF max.cobounded2])

lemma fold_max_eq: "fold max qs b = Max (insert b (set qs))" for b :: int
  by (metis Max.set_eq_fold list.simps(15))

lemma find_best_snd:
  assumes "b < fold max qs b"
  shows "\<exists>k<length qs. snd (find_best qs i b idx) = i + k \<and> qs ! k = fold max qs b \<and> (\<forall>j<k. qs ! j < fold max qs b)"
  using assms
proof (induction qs arbitrary: i b idx)
  case (Cons q qs)
  show ?case
  proof (cases "max q b < fold max qs (max q b)")
    case True
    have f: "snd (find_best (q # qs) i b idx) = snd (find_best qs (i + 1) (max q b) (if q > b then i else idx))"
      by (simp add: max_def)
    from Cons.IH [OF True, of "i + 1" "if q > b then i else idx"] obtain k where
      "k < length qs" "snd (find_best (q # qs) i b idx) = i + 1 + k" "qs ! k = fold max qs (max q b)"
      "\<forall>j<k. qs ! j < fold max qs (max q b)" unfolding f by blast
    with True show ?thesis by (intro exI [of _ "Suc k"]) (auto simp: nth_Cons split: nat.split)
  next
    case False
    then have e: "fold max qs (max q b) = max q b" using fold_max_ge [of "max q b" qs] by linarith
    have keep: "snd (find_best qs i b idx) = idx" if "fold max qs b = b" for i b idx and qs :: "int list"
      using that
    proof (induction qs arbitrary: i)
      case (Cons r qs)
      then have "max r b = b" using fold_max_ge [of "max r b" qs] by simp
      with Cons show ?case by (simp add: max_def split: if_splits)
    qed simp
    from Cons.prems e have "q > b" by simp
    then have "max q b = q" by simp
    with e keep \<open>q > b\<close> show ?thesis by (intro exI [of _ 0]) simp
  qed
qed simp

lemma getQualities_length: "getQualities L ps c f s h = Inr qs \<Longrightarrow> length qs = length ps"
  by (induction ps arbitrary: qs) (auto split: option.splits sum.splits simp: map_sum_def)

lemma getQualities_nth:
  assumes "getQualities L ps c f s h = Inr qs" "k < length ps"
  shows "\<exists>pr. wsp_Proof (ps ! k) = Some pr \<and>
    VerifiedQuality L pr (PubKeyHash (lib_U L) (wsp_PublicKey (ps ! k))) c f s h = Inr (qs ! k)"
  using assms
proof (induction ps arbitrary: qs k)
  case (Cons p ps)
  then obtain pr q qs' where "wsp_Proof p = Some pr" "qs = q # qs'" "getQualities L ps c f s h = Inr qs'"
    "VerifiedQuality L pr (PubKeyHash (lib_U L) (wsp_PublicKey p)) c f s h = Inr q"
    by (auto split: option.splits sum.splits simp: map_sum_def)
  with Cons show ?case by (cases k) auto
qed simp

section \<open>Slots\<close>

definition slot_at :: "('pk, 'tx, 'sig) miner_lib \<Rightarrow> ('pk, 'tx) poc_template \<Rightarrow> nat \<Rightarrow> u64" where
  "slot_at L tpl n = first_slot L tpl + word_of_nat n"

definition time_at :: "('pk, 'tx, 'sig) miner_lib \<Rightarrow> ('pk, 'tx) poc_template \<Rightarrow> nat \<Rightarrow> int" where
  "time_at L tpl n = tpl_Timestamp tpl + int n * time_Seconds (PoCSlot L)"

definition qualities_at ::
  "('pk, 'tx, 'sig) miner_lib \<Rightarrow> ('pk, 'tx) poc_template \<Rightarrow> 'pk workspace_proof list \<Rightarrow> nat \<Rightarrow> miner_error + int list" where
  "qualities_at L tpl proofs n =
     getQualities L proofs (tpl_Challenge tpl) (EnforceMASSIP0002 L (tpl_Height tpl)) (slot_at L tpl n) (tpl_Height tpl)"

definition solves :: "('pk, 'tx, 'sig) miner_lib \<Rightarrow> ('pk, 'tx) poc_template \<Rightarrow> 'pk workspace_proof list \<Rightarrow> nat \<Rightarrow> bool" where
  "solves L tpl proofs n \<longleftrightarrow>
     (\<exists>qs. qualities_at L tpl proofs n = Inr qs \<and> (\<exists>q\<in>set qs. q > tpl_GetTarget tpl (time_at L tpl n)))"

definition misses :: "('pk, 'tx, 'sig) miner_lib \<Rightarrow> ('pk, 'tx) poc_template \<Rightarrow> 'pk workspace_proof list \<Rightarrow> nat \<Rightarrow> bool" where
  "misses L tpl proofs n \<longleftrightarrow>
     (\<exists>qs. qualities_at L tpl proofs n = Inr qs \<and> (\<forall>q\<in>set qs. q \<le> tpl_GetTarget tpl (time_at L tpl n)))"

text \<open>The solution of a slot: the first of the proofs with the best quality.\<close>

definition solution ::
  "('pk, 'tx, 'sig) miner_lib \<Rightarrow> ('pk, 'tx) poc_template \<Rightarrow> 'pk workspace_proof list \<Rightarrow> nat \<Rightarrow> 'pk proof_template \<Rightarrow> bool" where
  "solution L tpl proofs n pt \<longleftrightarrow>
     (\<exists>qs k. qualities_at L tpl proofs n = Inr qs \<and> k < length proofs \<and> pt_proof pt = proofs ! k \<and>
        pt_quality pt = qs ! k \<and> (\<forall>q\<in>set qs. q \<le> qs ! k) \<and> (\<forall>j<k. qs ! j < qs ! k) \<and>
        pt_time pt = time_at L tpl n \<and> pt_quality pt > tpl_GetTarget tpl (pt_time pt))"

definition at_slot ::
  "('pk, 'tx, 'sig) miner_lib \<Rightarrow> ('pk, 'tx) poc_template \<Rightarrow> nat \<Rightarrow> ('pk, 'tx) slot_state \<Rightarrow> bool" where
  "at_slot L tpl n st \<longleftrightarrow> ss_workSlot st = slot_at L tpl n \<and> ss_template st = tpl\<lparr>tpl_Timestamp := time_at L tpl n\<rparr>"

definition targets_ok :: "('pk, 'tx) poc_template \<Rightarrow> bool" where
  "targets_ok tpl \<longleftrightarrow> (\<forall>t. 0 \<le> tpl_GetTarget tpl t)"

lemma at_slot_0: "at_slot L tpl 0 \<lparr>ss_workSlot = first_slot L tpl, ss_template = tpl, ss_bestProofIndex = i\<rparr>"
  by (simp add: at_slot_def slot_at_def time_at_def)

lemma at_slot_next: "at_slot L tpl n st \<Longrightarrow> at_slot L tpl (Suc n) (next_slot L idx st)"
  by (simp add: at_slot_def slot_at_def time_at_def next_slot_def algebra_simps)

section \<open>One slot of the loop\<close>

definition poll_ok :: "(monitor_event list \<Rightarrow> bool) \<Rightarrow> poll \<Rightarrow> bool" where
  "poll_ok staled p \<longleftrightarrow> \<not> poll_quit p \<and> \<not> staled (poll_seen p)"

lemma slot_loop_past: "\<not> i \<le> limit \<Longrightarrow> slot_loop L staled proofs polls limit i st = Some (NextTick st)"
  by (subst slot_loop.simps) simp

lemma slot_loop_quit: "i \<le> limit \<Longrightarrow> \<not> poll_ok staled (polls i) \<Longrightarrow>
    slot_loop L staled proofs polls limit i st = Some (SlotFailed errQuitSolveBlock)"
  by (subst slot_loop.simps) (auto simp: poll_ok_def)

lemma slot_loop_err:
  assumes "i \<le> limit" "poll_ok staled (polls i)" "at_slot L tpl n st" "qualities_at L tpl proofs n = Inl err"
  shows "slot_loop L staled proofs polls limit i st = Some (SlotFailed err)"
  using assms by (subst slot_loop.simps) (simp add: poll_ok_def at_slot_def qualities_at_def)

lemma slot_loop_missed:
  assumes "i \<le> limit" "poll_ok staled (polls i)" "at_slot L tpl n st" "misses L tpl proofs n" "proofs \<noteq> []" "targets_ok tpl"
  shows "\<exists>st'. at_slot L tpl (Suc n) st' \<and>
    slot_loop L staled proofs polls limit i st = slot_loop L staled proofs polls limit (i + 1) st'"
proof -
  obtain qs where q: "qualities_at L tpl proofs n = Inr qs" "\<forall>q\<in>set qs. q \<le> tpl_GetTarget tpl (time_at L tpl n)"
    using assms(4) by (auto simp: misses_def)
  have ne: "qs \<noteq> []" using getQualities_length q(1) assms(5) by (fastforce simp: qualities_at_def)
  obtain b idx where f: "find_best qs 0 0 (ss_bestProofIndex st) = (b, idx)" by fastforce
  have "fold max qs 0 \<le> tpl_GetTarget tpl (time_at L tpl n)"
    using q(2) assms(6) by (simp add: fold_max_eq targets_ok_def)
  then have "b \<le> tpl_GetTarget tpl (time_at L tpl n)" using find_best_fst [of qs 0 0 "ss_bestProofIndex st"] f by simp
  with assms q(1) ne f have "slot_loop L staled proofs polls limit i st = slot_loop L staled proofs polls limit (i + 1) (next_slot L idx st)"
    by (subst slot_loop.simps) (simp add: poll_ok_def at_slot_def qualities_at_def)
  with at_slot_next [OF assms(3)] show ?thesis by blast
qed

lemma slot_loop_solved:
  assumes "i \<le> limit" "poll_ok staled (polls i)" "at_slot L tpl n st" "solves L tpl proofs n" "targets_ok tpl"
  shows "\<exists>pt. solution L tpl proofs n pt \<and>
    slot_loop L staled proofs polls limit i st = Some (SlotSolved pt (tpl\<lparr>tpl_Timestamp := time_at L tpl n\<rparr>))"
proof -
  let ?T = "tpl_GetTarget tpl (time_at L tpl n)"
  obtain qs q where q: "qualities_at L tpl proofs n = Inr qs" "q \<in> set qs" "q > ?T"
    using assms(4) by (auto simp: solves_def)
  have len: "length qs = length proofs" using getQualities_length q(1) by (simp add: qualities_at_def)
  have "q \<le> fold max qs 0" "\<forall>r\<in>set qs. r \<le> fold max qs 0" using q(2) by (simp_all add: fold_max_eq)
  note big = this(2) and gt = less_le_trans [OF q(3) this(1)]
  moreover have "0 \<le> ?T" using assms(5) by (simp add: targets_ok_def)
  ultimately have "0 < fold max qs 0" by linarith
  from find_best_snd [OF this, of 0 "ss_bestProofIndex st"] obtain k where
    k: "k < length qs" "snd (find_best qs 0 0 (ss_bestProofIndex st)) = k" "qs ! k = fold max qs 0" "\<forall>j<k. qs ! j < fold max qs 0"
    by auto
  have f: "find_best qs 0 0 (ss_bestProofIndex st) = (fold max qs 0, k)"
    by (rule prod_eqI) (simp_all add: find_best_fst k(2))
  let ?pt = "\<lparr>pt_proof = proofs ! k, pt_time = time_at L tpl n, pt_quality = fold max qs 0\<rparr>"
  have "slot_loop L staled proofs polls limit i st = Some (SlotSolved ?pt (tpl\<lparr>tpl_Timestamp := time_at L tpl n\<rparr>))"
    using assms(1-3) q(1) f k(1) gt len by (subst slot_loop.simps) (auto simp: poll_ok_def at_slot_def qualities_at_def Let_def)
  moreover have "solution L tpl proofs n ?pt"
    unfolding solution_def using q(1) k big gt len by (intro exI [of _ qs] exI [of _ k]) simp
  ultimately show ?thesis by blast
qed

lemma slot_cases: obtains err where "qualities_at L tpl proofs n = Inl err" | "misses L tpl proofs n" | "solves L tpl proofs n"
proof (cases "qualities_at L tpl proofs n")
  case (Inr qs)
  then show ?thesis
    using that(2,3) by (cases "\<forall>q\<in>set qs. q \<le> tpl_GetTarget tpl (time_at L tpl n)") (auto simp: misses_def solves_def not_le)
qed (rule that(1))

section \<open>The loops return the first solution\<close>

text \<open>
  Where a run of the loop over the slots can end: at the first slot that solves the block, which the
  clock allows, or after slots that all miss.
\<close>

definition ends_well ::
  "('pk, 'tx, 'sig) miner_lib \<Rightarrow> ('pk, 'tx) poc_template \<Rightarrow> 'pk workspace_proof list \<Rightarrow> u64 \<Rightarrow> ('pk, 'tx) slot_result \<Rightarrow> bool" where
  "ends_well L tpl proofs limit r \<longleftrightarrow>
     (case r of SlotFailed err \<Rightarrow> True
      | SlotSolved pt tpl' \<Rightarrow>
          (\<exists>n. (\<forall>k<n. misses L tpl proofs k) \<and> solution L tpl proofs n pt \<and> slot_at L tpl n \<le> limit \<and>
             tpl' = tpl\<lparr>tpl_Timestamp := time_at L tpl n\<rparr>)
      | NextTick st \<Rightarrow> (\<exists>n. at_slot L tpl n st \<and> (\<forall>k<n. misses L tpl proofs k)))"

lemma word_below_succ: "i \<le> limit \<Longrightarrow> limit \<noteq> -1 \<Longrightarrow> unat (i + 1) = unat i + 1" for i limit :: u64
proof -
  assume "i \<le> limit" "limit \<noteq> -1"
  moreover have "unat limit \<noteq> unat (-1 :: u64)" using \<open>limit \<noteq> -1\<close> by (simp only: word_unat_eq_iff [symmetric] not_False_eq_True)
  moreover have "unat (-1 :: u64) = 18446744073709551615" by (simp add: unsigned_minus_1_eq_mask mask_eq_exp_minus_1)
  ultimately have "unat i + unat (1 :: u64) < 2 ^ LENGTH(64)"
    using unat_lt2p [of limit] by (simp add: word_le_nat_alt)
  from unat_add_bound [OF this] show ?thesis by simp
qed

lemma slot_loop_total:
  assumes "limit \<noteq> -1" "proofs \<noteq> []" "targets_ok tpl"
    and "at_slot L tpl n st" "i = slot_at L tpl n" "\<forall>k<n. misses L tpl proofs k"
  shows "\<exists>r. slot_loop L staled proofs polls limit i st = Some r \<and> ends_well L tpl proofs limit r"
  using assms(4-6)
proof (induction "unat limit + 1 - unat i" arbitrary: i n st rule: less_induct)
  case less
  note st = less.prems
  consider "\<not> i \<le> limit" | "i \<le> limit" "\<not> poll_ok staled (polls i)" | "i \<le> limit" "poll_ok staled (polls i)" by blast
  then show ?case
  proof cases
    case 1
    with st show ?thesis by (auto simp: slot_loop_past ends_well_def)
  next
    case 2
    then show ?thesis by (simp add: slot_loop_quit ends_well_def)
  next
    case 3
    show ?thesis
    proof (cases rule: slot_cases [of L tpl proofs n])
      case (1 err)
      from slot_loop_err [where polls = polls and i = i, OF 3 st(1) this] show ?thesis by (simp add: ends_well_def)
    next
      case 2
      obtain st' where n: "at_slot L tpl (Suc n) st'"
        and eq: "slot_loop L staled proofs polls limit i st = slot_loop L staled proofs polls limit (i + 1) st'"
        using slot_loop_missed [where polls = polls and i = i, OF 3 st(1) 2 assms(2,3)] by blast
      have "unat limit + 1 - unat (i + 1) < unat limit + 1 - unat i"
        using word_below_succ [OF 3(1) assms(1)] 3(1) by (simp add: word_le_nat_alt)
      moreover have "i + 1 = slot_at L tpl (Suc n)" using st(2) by (simp add: slot_at_def)
      moreover have "\<forall>k<Suc n. misses L tpl proofs k" using st(3) 2 less_Suc_eq by auto
      ultimately show ?thesis using less.hyps n eq by simp
    next
      case solved: 3
      from slot_loop_solved [where polls = polls and i = i, OF 3 st(1) solved assms(3)] obtain pt where
        "solution L tpl proofs n pt"
        "slot_loop L staled proofs polls limit i st = Some (SlotSolved pt (tpl\<lparr>tpl_Timestamp := time_at L tpl n\<rparr>))" by blast
      moreover have "ends_well L tpl proofs limit (SlotSolved pt (tpl\<lparr>tpl_Timestamp := time_at L tpl n\<rparr>))"
        using st(2,3) 3(1) calculation(1) unfolding ends_well_def slot_result.case by (intro exI [of _ n]) simp
      ultimately show ?thesis by blast
    qed
  qed
qed

text \<open>The outer loop: what it returns, if it returns, and that it does not get stuck in a tick.\<close>

lemma limit_ok: "1 < PoCSlot L \<Longrightarrow> nowSlot L now + allowAhead \<noteq> -1"
proof
  assume P: "1 < PoCSlot L" and e: "nowSlot L now + allowAhead = -1"
  let ?w = "word_of_int now :: u64"
  from P have "2 \<le> unat (PoCSlot L)" by (simp add: word_less_nat_alt)
  then have "unat ?w div unat (PoCSlot L) \<le> unat ?w div 2" by (rule div_le_mono2 [rotated]) simp
  also have "\<dots> < 2 ^ 63" using unat_lt2p [of ?w] by simp
  finally have "unat (nowSlot L now) < 2 ^ 63" by (simp add: nowSlot_def unat_div_distrib)
  moreover have "nowSlot L now = - 2" using e by (simp add: allowAhead_def eq_neg_iff_add_eq_0 add_ac)
  ultimately show False by simp
qed

lemma try_loop_sound:
  assumes "1 < PoCSlot L" "proofs \<noteq> []" "targets_ok tpl" "try_loop L staled proofs es st = Some (Inr (pt, tpl'))"
    and "at_slot L tpl n st" "\<forall>k<n. misses L tpl proofs k"
  shows "\<exists>N now polls. (\<forall>k<N. misses L tpl proofs k) \<and> solution L tpl proofs N pt \<and> Tick now polls \<in> set es \<and>
    slot_at L tpl N \<le> nowSlot L now + allowAhead \<and> tpl' = tpl\<lparr>tpl_Timestamp := time_at L tpl N\<rparr>"
  using assms(4-6)
proof (induction es arbitrary: st n)
  case (Cons e es)
  show ?case
  proof (cases e)
    case (Tick now polls)
    let ?lim = "nowSlot L now + allowAhead"
    show ?thesis
    proof (cases "ss_workSlot st > ?lim")
      case True
      with Cons.prems(1) Tick have "try_loop L staled proofs es st = Some (Inr (pt, tpl'))" by simp
      from Cons.IH [OF this Cons.prems(2,3)] show ?thesis by (auto simp del: split_paired_Ex)
    next
      case False
      obtain r where r: "slot_loop L staled proofs polls ?lim (ss_workSlot st) st = Some r" "ends_well L tpl proofs ?lim r"
        using slot_loop_total [OF limit_ok [OF assms(1)] assms(2,3) Cons.prems(2) _ Cons.prems(3)] Cons.prems(2)
        by (metis at_slot_def)
      show ?thesis
      proof (cases r)
        case (SlotSolved pt' tpl'')
        with r(1) False Tick Cons.prems(1) have "pt' = pt" "tpl'' = tpl'" by simp_all
        with r(2) SlotSolved Tick show ?thesis by (auto simp: ends_well_def)
      next
        case (NextTick st')
        with r(2) obtain n' where n': "at_slot L tpl n' st'" "\<forall>k<n'. misses L tpl proofs k" by (auto simp: ends_well_def)
        from NextTick r(1) False Tick Cons.prems(1) have "try_loop L staled proofs es st' = Some (Inr (pt, tpl'))" by simp
        from Cons.IH [OF this n'] show ?thesis by (auto simp del: split_paired_Ex)
      qed (use r False Tick Cons.prems(1) in auto)
    qed
  qed (use Cons.prems in simp)
qed simp

section \<open>The loops reach the first solution\<close>

lemma unat_slot_at: "unat (first_slot L tpl) + n < 2 ^ 64 \<Longrightarrow> unat (slot_at L tpl n) = unat (first_slot L tpl) + n"
  unfolding slot_at_def by (subst unat_add_bound) (simp_all add: unat_of_nat_bound)

lemma slot_at_mono:
  "k \<le> n \<Longrightarrow> unat (first_slot L tpl) + n < 2 ^ 64 \<Longrightarrow> slot_at L tpl k \<le> slot_at L tpl n"
  by (simp add: word_le_nat_alt unat_slot_at)

lemma slot_loop_reaches:
  assumes "limit \<noteq> -1" "proofs \<noteq> []" "targets_ok tpl" "\<forall>i. poll_ok staled (polls i)"
    and "\<forall>k<N. misses L tpl proofs k" "solves L tpl proofs N" "unat (first_slot L tpl) + N < 2 ^ 64"
    and "at_slot L tpl n st" "n \<le> N"
  shows "if slot_at L tpl N \<le> limit
    then \<exists>pt. solution L tpl proofs N pt \<and>
      slot_loop L staled proofs polls limit (slot_at L tpl n) st = Some (SlotSolved pt (tpl\<lparr>tpl_Timestamp := time_at L tpl N\<rparr>))
    else \<exists>n' st'. n' \<le> N \<and> at_slot L tpl n' st' \<and> slot_loop L staled proofs polls limit (slot_at L tpl n) st = Some (NextTick st')"
  using assms(8,9)
proof (induction "N - n" arbitrary: n st)
  case 0
  then have "n = N" by simp
  with 0 assms(4) slot_loop_solved [OF _ _ 0(2) _ assms(3), of "slot_at L tpl n" limit staled polls proofs] assms(6)
  show ?case by (auto simp: slot_loop_past)
next
  case (Suc d)
  then have lt: "n < N" by simp
  show ?case
  proof (cases "slot_at L tpl n \<le> limit")
    case True
    obtain st' where st': "at_slot L tpl (Suc n) st'"
      "slot_loop L staled proofs polls limit (slot_at L tpl n) st = slot_loop L staled proofs polls limit (slot_at L tpl n + 1) st'"
      using slot_loop_missed [OF True _ Suc.prems(1), of staled polls proofs] assms lt by blast
    have e: "slot_at L tpl n + 1 = slot_at L tpl (Suc n)" by (simp add: slot_at_def)
    have "d = N - Suc n" "Suc n \<le> N" using Suc.hyps(2) lt by simp_all
    from Suc.hyps(1) [OF this(1) st'(1) this(2)] show ?thesis by (simp only: st'(2) e)
  next
    case False
    with slot_at_mono [of n N L tpl] lt assms(7) have "\<not> slot_at L tpl N \<le> limit" by (meson less_imp_le order_trans)
    with False Suc.prems show ?thesis by (auto simp: slot_loop_past)
  qed
qed

definition calm_tick :: "(monitor_event list \<Rightarrow> bool) \<Rightarrow> wait_event \<Rightarrow> bool" where
  "calm_tick staled e \<longleftrightarrow> (case e of QuitReceived \<Rightarrow> False | Tick now polls \<Rightarrow> \<forall>i. poll_ok staled (polls i))"

lemma try_loop_reaches:
  assumes L: "1 < PoCSlot L" "proofs \<noteq> []" "targets_ok tpl"
    and N: "\<forall>k<N. misses L tpl proofs k" "solves L tpl proofs N" "unat (first_slot L tpl) + N < 2 ^ 64"
    and es: "\<forall>e\<in>set es. calm_tick staled e" "Tick now polls \<in> set es" "slot_at L tpl N \<le> nowSlot L now + allowAhead"
    and st: "at_slot L tpl n st" "n \<le> N"
  shows "\<exists>pt. try_loop L staled proofs es st = Some (Inr (pt, tpl\<lparr>tpl_Timestamp := time_at L tpl N\<rparr>)) \<and> solution L tpl proofs N pt"
  using es(1,2) st
proof (induction es arbitrary: n st)
  case (Cons e es)
  obtain now' polls' where e: "e = Tick now' polls'" and p: "\<forall>i. poll_ok staled (polls' i)"
    using Cons.prems(1) by (cases e) (auto simp: calm_tick_def)
  let ?lim = "nowSlot L now' + allowAhead"
  have w: "ss_workSlot st = slot_at L tpl n" using Cons.prems(3) by (simp add: at_slot_def)
  note reach = slot_loop_reaches [OF limit_ok [OF L(1), of now'] L(2,3) p N Cons.prems(3,4)]
  show ?case
  proof (cases "slot_at L tpl N \<le> ?lim")
    case True
    then have "\<not> ss_workSlot st > ?lim" using slot_at_mono [OF Cons.prems(4) N(3)] w by simp
    with reach True e w show ?thesis by auto
  next
    case False
    then have "Tick now polls \<in> set es" using Cons.prems(2) e es(3) by auto
    note IH = Cons.IH [OF _ this]
    from False reach obtain n' st' where n': "n' \<le> N" "at_slot L tpl n' st'"
      "slot_loop L staled proofs polls' ?lim (slot_at L tpl n) st = Some (NextTick st')" by auto
    show ?thesis
    proof (cases "ss_workSlot st > ?lim")
      case True
      with IH [OF _ Cons.prems(3,4)] Cons.prems(1) e show ?thesis by simp
    next
      case False
      with IH [OF _ n'(2,1)] Cons.prems(1) e n'(3) w show ?thesis by simp
    qed
  qed
qed simp

section \<open>The search as a whole\<close>

text \<open>The proofs among which the miner searches.\<close>

definition candidates ::
  "('pk, 'tx, 'sig) miner_lib \<Rightarrow> ('k, 'pk, 'sig) keeper_ops \<Rightarrow> 'k \<Rightarrow> ('pk, 'tx) poc_template \<Rightarrow> 'pk workspace_proof list" where
  "candidates L K sk tpl =
     (case op_GetProofs K sk SFMining (tpl_Challenge tpl) (EnforceMASSIP0002 L (tpl_Height tpl)) of
        Inl err \<Rightarrow> [] | Inr proofs \<Rightarrow> filter (\<lambda>p. wsp_Error p = None \<and> tpl_PassBinding tpl p) proofs)"

lemma candidates_eq:
  "op_GetProofs K sk SFMining (tpl_Challenge tpl) (EnforceMASSIP0002 L (tpl_Height tpl)) = Inr proofs \<Longrightarrow>
    getBindingProofs (getValidProofs proofs) tpl = candidates L K sk tpl"
  by (simp add: candidates_def getBindingProofs_def getValidProofs_def conj_commute)

lemma syncGetBestProof_result:
  assumes "1 < PoCSlot L" "targets_ok tpl" "syncGetBestProof L K S sk tpl = Some (Inr (pt, tpl'))"
  shows "\<exists>N now polls. (\<forall>k<N. misses L tpl (candidates L K sk tpl) k) \<and> solution L tpl (candidates L K sk tpl) N pt \<and>
    Tick now polls \<in> set (wait_events S) \<and> slot_at L tpl N \<le> nowSlot L now + allowAhead \<and>
    tpl' = tpl\<lparr>tpl_Timestamp := time_at L tpl N\<rparr>"
proof -
  from assms(3) obtain staled where "candidates L K sk tpl \<noteq> []"
    "try_loop L staled (candidates L K sk tpl) (wait_events S)
       \<lparr>ss_workSlot = first_slot L tpl, ss_template = tpl, ss_bestProofIndex = 0\<rparr> = Some (Inr (pt, tpl'))"
    by (auto simp: syncGetBestProof_def Let_def candidates_eq split: sum.splits if_splits)
  from try_loop_sound [OF assms(1) this(1) assms(2) this(2) at_slot_0] show ?thesis by simp
qed

lemma syncGetBestProof_reaches:
  assumes "1 < PoCSlot L" "targets_ok tpl"
    and "bn_Hash (BestBlockNode S) = tpl_Previous tpl" "BlockWaiter S (bn_Height (BestBlockNode S)) = None"
    and "op_GetProofs K sk SFMining (tpl_Challenge tpl) (EnforceMASSIP0002 L (tpl_Height tpl)) = Inr proofs"
    and "\<forall>k<N. misses L tpl (candidates L K sk tpl) k" "solves L tpl (candidates L K sk tpl) N"
    and "unat (first_slot L tpl) + N < 2 ^ 64"
    and "\<forall>e\<in>set (wait_events S). calm_tick (runMonitor (BestBlockNode S)) e" "Tick now polls \<in> set (wait_events S)"
    and "slot_at L tpl N \<le> nowSlot L now + allowAhead"
  shows "\<exists>pt. syncGetBestProof L K S sk tpl = Some (Inr (pt, tpl\<lparr>tpl_Timestamp := time_at L tpl N\<rparr>)) \<and>
    solution L tpl (candidates L K sk tpl) N pt"
proof -
  have ne: "candidates L K sk tpl \<noteq> []" using assms(7) by (auto simp: solves_def qualities_at_def)
  from try_loop_reaches [OF assms(1) ne assms(2,6-11) at_slot_0] ne show ?thesis
    by (simp add: syncGetBestProof_def Let_def runStaleMonitor_def assms(3-5) candidates_eq [OF assms(5)])
qed

text \<open>The time of a solution lies in the slot for which its quality was computed.\<close>

lemma time_at_slot:
  assumes "0 \<le> tpl_Timestamp tpl" "0 < PoCSlot L" "time_Unix (time_at L tpl n) < 2 ^ 63"
  shows "word_of_int (time_Unix (time_at L tpl n)) div PoCSlot L = slot_at L tpl n"
proof -
  let ?u = "time_Unix (tpl_Timestamp tpl)" and ?S = "uint (PoCSlot L)"
  have S: "0 < ?S" using assms(2) by (simp add: word_less_def)
  have t: "time_Unix (time_at L tpl n) = ?u + int n * ?S"
    by (simp add: time_Unix_def time_at_def time_Seconds_def flip: mult.assoc)
  have u: "0 \<le> ?u" using assms(1) by (simp add: time_Unix_def)
  have d: "(?u + int n * ?S) div ?S = ?u div ?S + int n" using S by simp
  have le: "?u \<le> ?u + int n * ?S" using S by simp
  have w: "uint (word_of_int v :: u64) = v" if "0 \<le> v" "v \<le> ?u + int n * ?S" for v
    using that assms(3) t by (simp add: uint_word_of_int)
  have f: "uint (first_slot L tpl) = ?u div ?S" using w [OF u le] by (simp add: first_slot_def uint_div)
  have "uint (word_of_int (time_Unix (time_at L tpl n)) div PoCSlot L) = ?u div ?S + int n"
    using u S w [of "?u + int n * ?S"] t d by (simp add: uint_div)
  moreover have "word_of_int (?u div ?S + int n) = slot_at L tpl n"
    unfolding slot_at_def by (simp flip: f)
  ultimately show ?thesis by (metis word_of_int_uint)
qed

end
