(* ===== verification/Miner_Loop.thy ===== *)
theory Miner_Loop
  imports Slot_Search
begin

text \<open>
  The miner and its space keeper together. The locale \<open>proof_keeper\<close> states what the miner needs of the
  interface \<open>SpaceKeeper\<close>; the keeper of \<open>poc/engine/spacekeeper/capacity\<close> provides it. The rest of the
  theory is about the mining loop: which heights it mines.
\<close>

section \<open>What the miner needs of a space keeper\<close>

text \<open>
  A proof returned without an error verifies against its public key, and a hash is signed for the space
  of a proof with the key of the proof.
\<close>

locale proof_keeper =
  fixes K :: "('k, 'pk, 'sig) keeper_ops" and U :: "'pk pocutil" and ok :: "'k \<Rightarrow> bool"
    and sign :: "'k \<Rightarrow> 'pk \<Rightarrow> bytes \<Rightarrow> sk_error + 'sig"
  assumes proofs_verify: "ok sk \<Longrightarrow> op_GetProofs K sk flags c f = Inr ps \<Longrightarrow> p \<in> set ps \<Longrightarrow> wsp_Error p = None \<Longrightarrow>
      \<exists>pr. wsp_Proof p = Some pr \<and> VerifyProof U pr (PubKeyHash U (wsp_PublicKey p)) c f = None"
    and signs: "ok sk \<Longrightarrow> op_GetProofs K sk flags c f = Inr ps \<Longrightarrow> p \<in> set ps \<Longrightarrow>
      op_SignHash K sk (wsp_SpaceID p) h = sign sk (wsp_PublicKey p) h"
begin

lemma candidate_verifies:
  assumes "ok sk" "p \<in> set (candidates L K sk tpl)"
  shows "\<exists>pr. wsp_Proof p = Some pr \<and>
    VerifyProof U pr (PubKeyHash U (wsp_PublicKey p)) (tpl_Challenge tpl) (EnforceMASSIP0002 L (tpl_Height tpl)) = None"
    "op_SignHash K sk (wsp_SpaceID p) h = sign sk (wsp_PublicKey p) h" "tpl_PassBinding tpl p"
proof -
  obtain ps where "op_GetProofs K sk SFMining (tpl_Challenge tpl) (EnforceMASSIP0002 L (tpl_Height tpl)) = Inr ps"
    "p \<in> set ps" "wsp_Error p = None" "tpl_PassBinding tpl p"
    using assms(2) by (cases "op_GetProofs K sk SFMining (tpl_Challenge tpl) (EnforceMASSIP0002 L (tpl_Height tpl))")
      (auto simp: candidates_def)
  then show "\<exists>pr. wsp_Proof p = Some pr \<and>
    VerifyProof U pr (PubKeyHash U (wsp_PublicKey p)) (tpl_Challenge tpl) (EnforceMASSIP0002 L (tpl_Height tpl)) = None"
    "op_SignHash K sk (wsp_SpaceID p) h = sign sk (wsp_PublicKey p) h" "tpl_PassBinding tpl p"
    using proofs_verify [OF assms(1)] signs [OF assms(1)] by blast+
qed

text \<open>A solved block carries the solution of the first slot that solves it, signed with the key of its proof.\<close>

lemma solveBlock_block:
  assumes "ok (m_SpaceKeeper m)" "1 < PoCSlot L" "getPoCTemplate (recv_poc S) = Inr tpl" "targets_ok tpl"
    and "solveBlock L K S m addrs = Some (Inr (block, reward))"
  shows "\<exists>N pt bt block0 h sig pr.
    (\<forall>k<N. misses L tpl (candidates L K (m_SpaceKeeper m) tpl) k) \<and>
    solution L tpl (candidates L K (m_SpaceKeeper m) tpl) N pt \<and>
    getBlockTemplate (recv_block S) = Inr bt \<and> hdr_Height block = hdr_Height (bt_Block bt) \<and>
    hdr_Timestamp block = time_at L tpl N \<and> hdr_Target block = tpl_GetTarget tpl (time_at L tpl N) \<and>
    pt_quality pt > hdr_Target block \<and> hdr_Challenge block = tpl_Challenge tpl \<and> hdr_PubKey block = wsp_PublicKey (pt_proof pt) \<and>
    wsp_Proof (pt_proof pt) = Some pr \<and> hdr_Proof block = Some pr \<and>
    VerifyProof U pr (PubKeyHash U (hdr_PubKey block)) (tpl_Challenge tpl) (EnforceMASSIP0002 L (tpl_Height tpl)) = None \<and>
    block = block0\<lparr>hdr_Signature := Some sig\<rparr> \<and> PoCHash L block0 = Inr h \<and> sign (m_SpaceKeeper m) (hdr_PubKey block) h = Inr sig \<and>
    tpl_Height tpl \<notin> set (minedHeight m)"
proof -
  let ?C = "candidates L K (m_SpaceKeeper m) tpl"
  from assms(5) obtain pt tpl' bt block0 h sig where
    best: "syncGetBestProof L K S (m_SpaceKeeper m) tpl = Some (Inr (pt, tpl'))"
    and bt: "getBlockTemplate (recv_block S) = Inr bt"
    and asm: "assembleFullBlock L bt tpl' pt = Inr (block0, reward)" and h: "PoCHash L block0 = Inr h"
    and sig: "op_SignHash K (m_SpaceKeeper m) (wsp_SpaceID (pt_proof pt)) h = Inr sig"
    and block: "block = block0\<lparr>hdr_Signature := Some sig\<rparr>" and nm: "tpl_Height tpl \<notin> set (minedHeight m)"
    by (auto simp: solveBlock_def assms(3) split: option.splits sum.splits if_splits)
  obtain N where N: "\<forall>k<N. misses L tpl ?C k" "solution L tpl ?C N pt" "tpl' = tpl\<lparr>tpl_Timestamp := time_at L tpl N\<rparr>"
    using syncGetBestProof_result [OF assms(2,4) best] by blast
  then have pt: "pt_proof pt \<in> set ?C" "pt_time pt = time_at L tpl N" "pt_quality pt > tpl_GetTarget tpl (pt_time pt)"
    by (auto simp: solution_def)
  obtain pr where pr: "wsp_Proof (pt_proof pt) = Some pr"
    "VerifyProof U pr (PubKeyHash U (wsp_PublicKey (pt_proof pt))) (tpl_Challenge tpl) (EnforceMASSIP0002 L (tpl_Height tpl)) = None"
    using candidate_verifies(1) [OF assms(1) pt(1)] by blast
  have b: "hdr_Height block0 = hdr_Height (bt_Block bt)" "hdr_Timestamp block0 = pt_time pt"
    "hdr_Target block0 = tpl_GetTarget tpl (pt_time pt)" "hdr_Challenge block0 = tpl_Challenge tpl"
    "hdr_PubKey block0 = wsp_PublicKey (pt_proof pt)" "hdr_Proof block0 = wsp_Proof (pt_proof pt)"
    using asm N(3) by (auto simp: assembleFullBlock_def Let_def split: sum.splits if_splits)
  have "sign (m_SpaceKeeper m) (wsp_PublicKey (pt_proof pt)) h = Inr sig"
    using candidate_verifies(2) [OF assms(1) pt(1)] sig by simp
  then show ?thesis
    using N(1,2) bt b pt pr h nm unfolding block
    by (intro exI [of _ N] exI [of _ pt] exI [of _ bt] exI [of _ block0] exI [of _ h] exI [of _ sig] exI [of _ pr]) simp
qed

end

section \<open>The keeper provides it\<close>

text \<open>\<open>Start\<close> of the service runs \<open>OnStart\<close>.\<close>

definition capacity_ops :: "('pk, 'q, 'w, 'sig) sk_env \<Rightarrow> (('pk, 'q, 'w) keeper_sys, 'pk, 'sig) keeper_ops" where
  "capacity_ops E =
     \<lparr>op_Started = (\<lambda>s. sk_started (ks_sk s)),
      op_Start = (\<lambda>s. case OnStart E (ks_sk s) of Inl err \<Rightarrow> (s, Some err) | Inr s' \<Rightarrow> (s', None)),
      op_GetProofs = (\<lambda>s flags challenge filt. SpaceKeeper_GetProofs E (ks_sk s) flags challenge filt),
      op_SignHash = (\<lambda>s sid hash. SignHash E (ks_sk s) sid hash)\<rparr>"

definition keyed :: "'pk pocutil \<Rightarrow> 'pk workspace \<Rightarrow> bool" where
  "keyed U ws \<longleftrightarrow> mdb_pubKeyHash (ws_db ws) = PubKeyHash U (sid_pubKey (ws_id ws))"

definition capacity_ok :: "('pk, 'q, 'w, 'sig) sk_env \<Rightarrow> ('pk, 'q, 'w) keeper_sys \<Rightarrow> bool" where
  "capacity_ok E s \<longleftrightarrow> range_ok E \<and> index_ok (env_U E) (ks_sk s) \<and> list_all (keyed (env_U E)) (sk_heap (ks_sk s))"

definition capacity_sign ::
  "('pk, 'q, 'w, 'sig) sk_env \<Rightarrow> ('pk, 'q, 'w) keeper_sys \<Rightarrow> 'pk \<Rightarrow> bytes \<Rightarrow> sk_error + 'sig" where
  "capacity_sign E s pk hash = map_sum OtherError id (SignMessage E (sk_wallet (ks_sk s)) pk hash)"

lemma GetProofs_member:
  assumes "index_ok (env_U E) sk" "range_ok E" "SpaceKeeper_GetProofs E sk flags c f = Inr ps" "p \<in> set ps"
  shows "\<exists>r\<in>set (workSpaceList sk). p = sk_getProof (env_U E) (the_ws sk r) c f"
proof -
  have st: "sk_started sk" using assms(3) by (auto simp: SpaceKeeper_GetProofs_def split: if_splits)
  from GetProofs_matching [OF assms(1,2) st, of flags c f] assms(3)
  have "mset ps = mset (map (proof_of E sk c f) (filter (\<lambda>r. pool_Submit E (sid_of (env_U E) sk r)) (matching sk flags)))" by auto
  with assms(4) have "p \<in> set (map (proof_of E sk c f) (filter (\<lambda>r. pool_Submit E (sid_of (env_U E) sk r)) (matching sk flags)))"
    by (metis set_mset_mset)
  then show ?thesis by (auto simp: matching_def proof_of_def)
qed

lemma SignHash_indexed:
  assumes "index_ok (env_U E) sk" "index_Get sk allState sid = Some r"
  shows "SignHash E sk sid h = map_sum OtherError id (SignMessage E (sk_wallet sk) (sid_pubKey (ws_id (the_ws sk r))) h)"
proof -
  have "WorkSpaceMap_Items (workSpaceIndex sk ! unat allState) = workSpaceIndex sk ! unat allState"
    using assms(1) by (intro Items_eq) (simp add: index_ok_def)
  with assms(2) show ?thesis by (simp add: SignHash_def index_Get_def WorkSpaceMap_Get_def split: sum.split)
qed

interpretation capacity: proof_keeper "capacity_ops E" "env_U E" "capacity_ok E" "capacity_sign E" for E
proof
  fix s flags c f ps p h
  assume ok: "capacity_ok E s" and ps: "op_GetProofs (capacity_ops E) s flags c f = Inr ps" "p \<in> set ps"
  then obtain r where r: "r \<in> set (workSpaceList (ks_sk s))" "p = sk_getProof (env_U E) (the_ws (ks_sk s) r) c f"
    using GetProofs_member [of E "ks_sk s" flags c f ps p] by (auto simp: capacity_ok_def capacity_ops_def)
  have i: "index_Get (ks_sk s) allState (sid_of (env_U E) (ks_sk s) r) = Some r"
    using index_okD(8) r(1) ok by (auto simp: capacity_ok_def)
  then have "r < length (sk_heap (ks_sk s))" using index_okD(2) ok by (auto simp: capacity_ok_def)
  then have k: "keyed (env_U E) (the_ws (ks_sk s) r)" using ok by (simp add: capacity_ok_def list_all_length)
  have pk: "wsp_PublicKey p = sid_pubKey (ws_id (the_ws (ks_sk s) r))" using r(2) by (simp add: sk_getProof_def Let_def)
  show "op_SignHash (capacity_ops E) s (wsp_SpaceID p) h = capacity_sign E s (wsp_PublicKey p) h"
    using SignHash_indexed [of E, OF _ i] ok r(2) pk by (simp add: capacity_ops_def capacity_ok_def capacity_sign_def wsp_SpaceID_getProof)
  assume "wsp_Error p = None"
  then obtain pr where pr: "wsp_Proof p = Some pr" using r(2) by (auto simp: sk_getProof_def Let_def split: sum.splits)
  with getProof_verifies(1) [of "env_U E" "the_ws (ks_sk s) r"] r(2) k pk
  show "\<exists>pr. wsp_Proof p = Some pr \<and> VerifyProof (env_U E) pr (PubKeyHash (env_U E) (wsp_PublicKey p)) c f = None"
    by (auto simp: keyed_def)
qed

text \<open>New work spaces are keyed.\<close>

lemma NewWorkSpace_keyed: "NewWorkSpace U F fs t dir ordinal pk bl = (fs', Inr ws) \<Longrightarrow> keyed U ws"
  using NewWorkSpace_args(2) [of U F fs t dir ordinal pk bl fs' "Inr ws" ws] by (simp add: keyed_def NewSpaceID_def)

section \<open>Mined heights\<close>

text \<open>The two templates of one request are for the same height.\<close>

definition templates_agree :: "('pk, 'tx, 'sig, 'addr) solve_env \<Rightarrow> bool" where
  "templates_agree S \<longleftrightarrow>
     (case (recv_poc S, recv_block S) of
        (RecvPoC tpl, RecvBlock bt) \<Rightarrow> hdr_Height (bt_Block bt) = tpl_Height tpl | _ \<Rightarrow> True)"

lemma solveBlock_height:
  assumes "solveBlock L K S m addrs = Some (Inr (block, reward))" "templates_agree S"
  shows "hdr_Height block \<notin> set (minedHeight m)"
proof -
  from assms(1) obtain tpl pt tpl' bt block0 sig where
    "recv_poc S = RecvPoC tpl" "recv_block S = RecvBlock bt" "tpl_Height tpl \<notin> set (minedHeight m)"
    "assembleFullBlock L bt tpl' pt = Inr (block0, reward)" "block = block0\<lparr>hdr_Signature := Some sig\<rparr>"
    by (auto simp: solveBlock_def getPoCTemplate_def getBlockTemplate_def split: option.splits sum.splits if_splits recv.splits)
  moreover from this(4) have "hdr_Height block0 = hdr_Height (bt_Block bt)"
    by (auto simp: assembleFullBlock_def Let_def split: sum.splits if_splits)
  ultimately show ?thesis using assms(2) by (simp add: templates_agree_def)
qed

text \<open>
  The blocks a run has got accepted: their hashes went to the network, their heights are the mined
  ones, and no height occurs twice.
\<close>

definition mined_blocks ::
  "('pk, 'tx, 'sig) miner_lib \<Rightarrow> bytes list \<Rightarrow> ('c, 's, 'k, 'addr) poc_miner \<Rightarrow> ('pk, 'tx, 'sig) msg_block list \<Rightarrow> bool" where
  "mined_blocks L ch m bs \<longleftrightarrow>
     newBlockCh m = ch @ map (Block_Hash L) bs \<and> minedHeight m = rev (map hdr_Height bs) \<and> distinct (map hdr_Height bs)"

text \<open>A block that the chain has accepted, in a round of the run, after the time of its header.\<close>

definition accepted_in :: "('pk, 'tx, 'sig, 'addr) loop_event list \<Rightarrow> ('pk, 'tx, 'sig) msg_block \<Rightarrow> bool" where
  "accepted_in es b \<longleftrightarrow>
     (\<exists>R. LoopRound R \<in> set es \<and> ProcessBlock R b = Inr False \<and> (\<exists>now\<in>set (rd_clock R). hdr_Timestamp b < now))"

lemma round_mined:
  assumes "generate_round L K R m = Some (m', brk)" "templates_agree (rd_solve R)" "mined_blocks L ch m bs"
  shows "mined_blocks L ch m' bs \<or> (\<exists>b. mined_blocks L ch m' (bs @ [b]) \<and> accepted_in [LoopRound R] b)"
proof -
  have "mined_blocks L ch m1 bs \<or> mined_blocks L ch m1 (bs @ [b]) \<and> accepted_in [LoopRound R] b"
    if "solveBlock L K (rd_solve R) m addrs = Some (Inr (b, r))" "submitBlock L R b m = Some (m1, acc)" for addrs b r m1 acc
    using that(2) solveBlock_height [OF that(1) assms(2)] assms(3)
    by (auto simp: submitBlock_def mined_blocks_def accepted_in_def list_ex_iff List.insert_def split: if_splits sum.splits)
  note submit = this
  from assms(1) consider "m' = m"
    | b r acc where "solveBlock L K (rd_solve R) m (payoutAddresses m) = Some (Inr (b, r))" "submitBlock L R b m = Some (m', acc)"
    by (auto simp: generate_round_def split: if_splits option.splits sum.splits)
  then show ?thesis
  proof cases
    case (2 b r acc)
    from submit [OF this] show ?thesis by blast
  qed (use assms(3) in simp)
qed

lemma mined_payout: "mined_blocks L ch (fst (SetPayoutAddresses addrs m)) bs = mined_blocks L ch m bs"
  by (simp add: SetPayoutAddresses_def mined_blocks_def)

lemma accepted_mono: "accepted_in es b \<Longrightarrow> set es \<subseteq> set es' \<Longrightarrow> accepted_in es' b"
  by (auto simp: accepted_in_def)

lemma generateBlocks_mined:
  assumes "generateBlocks L K es m = Some (m', brk)" "\<forall>R. LoopRound R \<in> set es \<longrightarrow> templates_agree (rd_solve R)"
    "mined_blocks L ch m bs"
  shows "\<exists>bs'. mined_blocks L ch m' (bs @ bs') \<and> (\<forall>b\<in>set bs'. accepted_in es b)"
  using assms
proof (induction L K es m arbitrary: bs rule: generateBlocks.induct)
  case (4 L K R es m)
  obtain m1 brk1 where r: "generate_round L K R m = Some (m1, brk1)" using 4(2) by (auto split: option.splits)
  obtain bs1 where b: "mined_blocks L ch m1 (bs @ bs1)" "\<forall>b\<in>set bs1. accepted_in [LoopRound R] b"
    using round_mined [OF r _ 4(4)] 4(3) by (metis append_Nil2 empty_iff empty_set list.set_intros(1) set_ConsD)
  have a1: "\<forall>b\<in>set bs1. accepted_in (LoopRound R # es) b" using b(2) accepted_mono by fastforce
  show ?case
  proof (cases brk1)
    case True
    with 4(2) r b(1) a1 show ?thesis by auto
  next
    case False
    with 4(1) [OF r refl, of "bs @ bs1"] 4(2,3) r b(1) obtain bs2 where
      "mined_blocks L ch m' ((bs @ bs1) @ bs2)" "\<forall>b\<in>set bs2. accepted_in es b" by auto
    then show ?thesis using a1 accepted_mono [of es _ "LoopRound R # es"] by (intro exI [of _ "bs1 @ bs2"]) auto
  qed
next
  case (3 L K addrs es m)
  from 3(1) [of bs] 3(2-4) obtain bs' where "mined_blocks L ch m' (bs @ bs')" "\<forall>b\<in>set bs'. accepted_in es b"
    by (auto simp: mined_payout)
  then show ?case using accepted_mono [of es _ "LoopPayout addrs # es"] by auto
qed (auto intro: exI [of _ "[]"])

end
