(* ===== verification/Sample_Miner.thy ===== *)
theory Sample_Miner
  imports Miner_Loop Sample_Keeper
begin

text \<open>
  A concrete miner: the space keeper of \<open>Sample_Keeper\<close> with one plotted work space that is mining, a
  quality that grows with the slot, and a chain that hands out one template. The block is solved in the
  second slot after that of the template. The witnesses about the miner are stated for it.
\<close>

definition plotted_ws :: "byte workspace" where
  "plotted_ws = (sample_ws Mining)\<lparr>ws_db := sample_mdb\<lparr>HashMapB := sampleB\<lparr>hm_data := replicate 4352 1\<rparr>\<rparr>\<rparr>"

definition mining_sys :: "(byte, (qws \<times> int) list, nat) keeper_sys" where
  "mining_sys = \<lparr>ks_sk = (sample_sk Mining)\<lparr>sk_heap := [plotted_ws]\<rparr>, ks_pc = PLoop, ks_pending = []\<rparr>"

definition sampleL :: "(byte, int list, bytes) miner_lib" where
  "sampleL =
     \<lparr>lib_U = sampleU, PoCSlot = 3, EnforceMASSIP0002 = (\<lambda>_. True),
      VerifiedQuality = (\<lambda>pr h c f slot height. Inr (uint slot)),
      TxHash = (\<lambda>_. [1]), Tx_Hash = (\<lambda>_. [1]), WitnessHash = (\<lambda>_. [2]), TxOut = (\<lambda>tx. tx),
      GetMerkleRootFromCache = (\<lambda>h _. h), NewAmountFromInt = Inr, PoCHash = (\<lambda>_. Inr [9]),
      Block_Hash = (\<lambda>b. [ucast (hdr_Height b)])\<rparr>"

definition sample_tpl :: "(byte, int list) poc_template" where
  "sample_tpl =
     \<lparr>tpl_Height = 7, tpl_Timestamp = 100000000000, tpl_Previous = [], tpl_Challenge = [1, 2], tpl_GetTarget = (\<lambda>_. 34),
      tpl_PassBinding = (\<lambda>_. True), tpl_GetCoinbase = (\<lambda>_ fee. Inr [fee]), tpl_Err = None\<rparr>"

definition sample_bt :: "(byte, int list, bytes) block_template" where
  "sample_bt =
     \<lparr>bt_Block = \<lparr>hdr_Height = 7, hdr_Timestamp = 0, hdr_Target = 0, hdr_Challenge = [], hdr_PubKey = 0, hdr_Proof = None,
        hdr_Signature = None, hdr_TransactionRoot = [], hdr_WitnessRoot = [], Transactions = [[0]]\<rparr>,
      bt_TotalFee = 5, bt_MerkleCache = [[0]], bt_WitnessMerkleCache = [[0]], bt_Err = None\<rparr>"

definition calm_poll :: poll where "calm_poll = \<lparr>poll_quit = False, poll_seen = []\<rparr>"

definition sample_solve :: "(byte, int list, bytes, string) solve_env" where
  "sample_solve =
     \<lparr>NewBlockTemplate = (\<lambda>_. None), recv_poc = RecvPoC sample_tpl, recv_block = RecvBlock sample_bt,
      BestBlockNode = \<lparr>bn_Hash = [], bn_Height = 6, bn_CapSum = 0, bn_Timestamp = 0, bn_Quality = 0\<rparr>,
      BlockWaiter = (\<lambda>_. None), wait_events = [Tick 100 (\<lambda>_. calm_poll), Tick 110 (\<lambda>_. calm_poll)]\<rparr>"

definition sample_miner :: "(unit, unit, (byte, (qws \<times> int) list, nat) keeper_sys, string) poc_miner" where
  "sample_miner = miner_NewPoCMiner TypeSyncMiner True () () mining_sys [] [''addr'']"

definition sample_round :: "(byte, int list, bytes, string) mining_round" where
  "sample_round = \<lparr>PeerCount = 0, IsCaughtUp = False, rd_solve = sample_solve, rd_clock = [0, 200000000000], ProcessBlock = (\<lambda>_. Inr False)\<rparr>"

section \<open>The keeper\<close>

lemma plotted_ws_simps [simp]:
  "ws_id plotted_ws = NewSpaceID sampleU 0 5 24" "ws_state plotted_ws = Mining" "ws_using plotted_ws"
  by (simp_all add: plotted_ws_def)

lemma mining_sys_ok: "capacity_ok sample_env mining_sys"
proof -
  let ?sk = "(sample_sk Mining)\<lparr>sk_heap := [plotted_ws]\<rparr>"
  have g: "index_Get ?sk = index_Get (sample_sk Mining)" by (simp add: fun_eq_iff index_Get_def)
  have "sid_of sampleU ?sk 0 = sample_sid" by (simp add: sid_of_def sample_sid_def)
  then have "index_ok sampleU ?sk"
    unfolding index_ok_def g by (auto simp: sample_Get split: if_splits) (simp_all add: sample_sk_def)
  then show ?thesis by (simp add: capacity_ok_def mining_sys_def keyed_def NewSpaceID_def) (simp add: plotted_ws_def sampleU_def)
qed

definition sample_proof :: "byte workspace_proof" where
  "sample_proof =
     \<lparr>wsp_SpaceID = sample_sid, wsp_Proof = Some \<lparr>dp_X = [1], dp_XPrime = [1], dp_BL = 7\<rparr>, wsp_PublicKey = 5,
      wsp_Ordinal = 0, wsp_Error = None\<rparr>"

lemma plotted_proof: "sk_getProof sampleU plotted_ws c f = sample_proof"
proof -
  have "HashMapB_Get (HashMapB (ws_db plotted_ws)) 0 = Inr ([1], [1])"
    by (simp add: plotted_ws_def HashMapB_Get_def sampleB_def file_ReadAt_def read_at_def)
  moreover have "mdb_bl (ws_db plotted_ws) = 7" by (simp add: plotted_ws_def sample_mdb_def new_mdb_def)
  ultimately show ?thesis
    by (simp add: sk_getProof_def MassDBV1_GetProof_def sample_proof_def sample_sid_def NewSpaceID_def sampleU_def Let_def)
qed

lemma mining_GetProofs: "op_GetProofs (capacity_ops sample_env) mining_sys SFMining c f = Inr [sample_proof]"
proof -
  let ?sk = "ks_sk mining_sys"
  have i: "index_ok (env_U sample_env) ?sk" "sk_started ?sk" using mining_sys_ok by (simp_all add: capacity_ok_def mining_sys_def)
  have "matching ?sk SFMining = [0]" by (simp add: matching_def mining_sys_def flag_defs bit_1_iff)
  moreover have "the_ws ?sk 0 = plotted_ws" by (simp add: mining_sys_def)
  ultimately show ?thesis
    using GetProofs_matching [OF i(1) _ i(2), of SFMining c f]
    by (auto simp: capacity_ops_def proof_of_def plotted_proof)
qed

lemma sample_candidates: "candidates sampleL (capacity_ops sample_env) mining_sys sample_tpl = [sample_proof]"
  by (simp add: candidates_def mining_GetProofs) (simp add: sample_tpl_def sample_proof_def)

section \<open>The slots\<close>

lemma sample_first: "first_slot sampleL sample_tpl = 33"
  by (simp add: first_slot_def sample_tpl_def sampleL_def time_Unix_def)

lemma sample_slots: "slot_at sampleL sample_tpl 0 = 33" "slot_at sampleL sample_tpl 1 = 34" "slot_at sampleL sample_tpl 2 = 35"
  by (simp_all add: slot_at_def sample_first)

lemma sample_qualities:
  "qualities_at sampleL sample_tpl [sample_proof] n = Inr [uint (slot_at sampleL sample_tpl n)]"
  by (simp add: qualities_at_def sample_proof_def sampleL_def)

lemma sample_misses: "k < 2 \<Longrightarrow> misses sampleL sample_tpl [sample_proof] k"
  using sample_slots by (auto simp: misses_def sample_qualities less_2_cases_iff) (simp_all add: sample_tpl_def)

lemma sample_solves: "solves sampleL sample_tpl [sample_proof] 2"
  using sample_slots by (simp add: solves_def sample_qualities) (simp add: sample_tpl_def)

lemma sample_targets [simp]: "targets_ok sample_tpl"
  by (simp add: targets_ok_def sample_tpl_def)

lemma sample_PoCSlot [simp]: "PoCSlot sampleL = 3"
  by (simp add: sampleL_def)

lemma sample_reaches:
  "\<exists>pt. syncGetBestProof sampleL (capacity_ops sample_env) sample_solve mining_sys sample_tpl =
     Some (Inr (pt, sample_tpl\<lparr>tpl_Timestamp := time_at sampleL sample_tpl 2\<rparr>)) \<and>
   solution sampleL sample_tpl [sample_proof] 2 pt"
proof -
  have c: "calm_tick st e" if "e \<in> set (wait_events sample_solve)" "\<not> st []" for e st
    using that by (auto simp: sample_solve_def calm_tick_def poll_ok_def calm_poll_def)
  have "slot_at sampleL sample_tpl 2 \<le> nowSlot sampleL 110 + allowAhead"
    by (simp add: sample_slots nowSlot_def allowAhead_def)
  with syncGetBestProof_reaches [where L = sampleL and tpl = sample_tpl and S = sample_solve and N = 2 and now = 110
      and polls = "\<lambda>_. calm_poll" and K = "capacity_ops sample_env" and sk = mining_sys]
  show ?thesis
    using sample_misses sample_solves c mining_GetProofs [of "tpl_Challenge sample_tpl"]
    by (simp add: sample_candidates sample_first) (simp add: sample_solve_def sample_tpl_def)
qed

end
