(* ===== verification/Miner_Properties.thy ===== *)
theory Miner_Properties
  imports Sample_Miner
begin

text \<open>The properties of the miner and of the miner with its space keeper.\<close>

section \<open>The search for a slot\<close>

text \<open>
  C33. What \<open>syncGetBestProof\<close> returns is the solution of the first slot, from that of the template on,
  in which some valid and bound proof has a quality above the target of the slot: the first proof of
  the best quality, with the time of the slot. No slot lies more than \<open>allowAhead\<close> beyond the clock,
  and the slot of the returned time is the one for which the quality was computed.
\<close>

theorem syncGetBestProof_earliest:
  assumes "1 < PoCSlot L" "targets_ok tpl" "syncGetBestProof L K S sk tpl = Some (Inr (pt, tpl'))"
  shows "\<exists>N now polls. solution L tpl (candidates L K sk tpl) N pt \<and>
    (\<forall>k<N. \<not> solves L tpl (candidates L K sk tpl) k) \<and>
    Tick now polls \<in> set (wait_events S) \<and> slot_at L tpl N \<le> nowSlot L now + allowAhead \<and>
    pt_time pt = tpl_Timestamp tpl + int N * time_Seconds (PoCSlot L) \<and>
    (0 \<le> tpl_Timestamp tpl \<and> time_Unix (pt_time pt) < 2 ^ 63 \<longrightarrow>
       word_of_int (time_Unix (pt_time pt)) div PoCSlot L = slot_at L tpl N)"
proof -
  obtain N now polls where N: "\<forall>k<N. misses L tpl (candidates L K sk tpl) k" "solution L tpl (candidates L K sk tpl) N pt"
    "Tick now polls \<in> set (wait_events S)" "slot_at L tpl N \<le> nowSlot L now + allowAhead"
    using syncGetBestProof_result [OF assms] by blast
  have t: "pt_time pt = time_at L tpl N" using N(2) by (auto simp: solution_def)
  have "0 < PoCSlot L" using assms(1) by (rule order_le_less_trans [OF word_zero_le])
  note slot = time_at_slot [OF _ this]
  have "\<not> solves L tpl (candidates L K sk tpl) k" if "k < N" for k
    using N(1) that by (fastforce simp: misses_def solves_def)
  with N(2-4) slot [of tpl N] t show ?thesis by (auto simp: time_at_def simp del: split_paired_Ex)
qed

theorem syncGetBestProof_earliest_witness:
  "\<exists>pt tpl' N. syncGetBestProof sampleL (capacity_ops sample_env) sample_solve mining_sys sample_tpl = Some (Inr (pt, tpl')) \<and>
    pt_time pt = 100000000000 + int N * 3000000000"
proof -
  obtain pt tpl' where r: "syncGetBestProof sampleL (capacity_ops sample_env) sample_solve mining_sys sample_tpl = Some (Inr (pt, tpl'))"
    using sample_reaches by blast
  from syncGetBestProof_earliest [OF _ _ r] obtain N where
    "pt_time pt = tpl_Timestamp sample_tpl + int N * time_Seconds 3" by (auto simp del: split_paired_Ex)
  with r show ?thesis by (auto simp: time_Seconds_def sample_tpl_def intro!: exI)
qed

text \<open>
  C34. The search succeeds: if the best chain ends in the template's previous block, the space keeper
  returns proofs, slot \<open>N\<close> is the first in which one is good enough, and a tick comes once the clock has
  reached that slot, the search returns, and with the solution of slot \<open>N\<close>, provided that before it
  neither the quit channel was closed nor a better block had arrived.
\<close>

theorem syncGetBestProof_finds:
  assumes "1 < PoCSlot L" "targets_ok tpl"
    and "bn_Hash (BestBlockNode S) = tpl_Previous tpl" "BlockWaiter S (bn_Height (BestBlockNode S)) = None"
    and "op_GetProofs K sk SFMining (tpl_Challenge tpl) (EnforceMASSIP0002 L (tpl_Height tpl)) = Inr proofs"
    and "\<forall>k<N. misses L tpl (candidates L K sk tpl) k" "solves L tpl (candidates L K sk tpl) N"
    and "unat (first_slot L tpl) + N < 2 ^ 64"
    and "\<forall>e\<in>set (wait_events S). calm_tick (runMonitor (BestBlockNode S)) e"
    and "Tick now polls \<in> set (wait_events S)" "slot_at L tpl N \<le> nowSlot L now + allowAhead"
  shows "\<exists>pt. syncGetBestProof L K S sk tpl = Some (Inr (pt, tpl\<lparr>tpl_Timestamp := time_at L tpl N\<rparr>)) \<and>
    solution L tpl (candidates L K sk tpl) N pt"
  by (rule syncGetBestProof_reaches [OF assms])

theorem syncGetBestProof_finds_witness:
  "\<exists>pt tpl'. syncGetBestProof sampleL (capacity_ops sample_env) sample_solve mining_sys sample_tpl = Some (Inr (pt, tpl')) \<and>
    pt_proof pt = sample_proof \<and> pt_quality pt = 35"
proof -
  have c: "\<forall>e\<in>set (wait_events sample_solve). calm_tick (runMonitor (BestBlockNode sample_solve)) e"
    by (auto simp: sample_solve_def calm_tick_def poll_ok_def calm_poll_def)
  have "bn_Hash (BestBlockNode sample_solve) = tpl_Previous sample_tpl" "BlockWaiter sample_solve (bn_Height (BestBlockNode sample_solve)) = None"
    "Tick 110 (\<lambda>_. calm_poll) \<in> set (wait_events sample_solve)" "slot_at sampleL sample_tpl 2 \<le> nowSlot sampleL 110 + allowAhead"
    by (simp_all add: sample_solve_def sample_slots nowSlot_def allowAhead_def) (simp add: sample_tpl_def)
  then obtain pt where
    r: "syncGetBestProof sampleL (capacity_ops sample_env) sample_solve mining_sys sample_tpl =
      Some (Inr (pt, sample_tpl\<lparr>tpl_Timestamp := time_at sampleL sample_tpl 2\<rparr>))"
    and s: "solution sampleL sample_tpl [sample_proof] 2 pt"
    using syncGetBestProof_finds [of sampleL sample_tpl sample_solve "capacity_ops sample_env" mining_sys "[sample_proof]" 2 110
        "\<lambda>_. calm_poll"] sample_misses sample_solves c
    by (auto simp: mining_GetProofs sample_candidates sample_first)
  have "pt_proof pt = sample_proof" "pt_quality pt = 35" using s by (auto simp: solution_def sample_qualities sample_slots)
  with r show ?thesis by blast
qed

section \<open>Blocks\<close>

text \<open>
  C35. The miner over the space keeper of this repository: a block it solves has a proof that verifies
  against the public key of its header, a target that the quality of that proof in the slot of its
  time exceeds, and a signature of its hash that the wallet made with that key. Its height had not
  been mined.
\<close>

theorem solved_block_valid:
  assumes "capacity_ok E (m_SpaceKeeper m)" "1 < PoCSlot L" "getPoCTemplate (recv_poc S) = Inr tpl" "targets_ok tpl"
    and "solveBlock L (capacity_ops E) S m addrs = Some (Inr (block, reward))" "lib_U L = env_U E"
  shows "tpl_Height tpl \<notin> set (minedHeight m) \<and>
    (\<exists>N pr q. hdr_Proof block = Some pr \<and> hdr_Timestamp block = time_at L tpl N \<and>
       VerifyProof (env_U E) pr (PubKeyHash (env_U E) (hdr_PubKey block)) (hdr_Challenge block)
         (EnforceMASSIP0002 L (tpl_Height tpl)) = None \<and>
       VerifiedQuality L pr (PubKeyHash (lib_U L) (hdr_PubKey block)) (hdr_Challenge block)
         (EnforceMASSIP0002 L (tpl_Height tpl)) (slot_at L tpl N) (tpl_Height tpl) = Inr q \<and>
       hdr_Target block = tpl_GetTarget tpl (hdr_Timestamp block) \<and> hdr_Target block < q) \<and>
    (\<exists>unsigned hash sig. block = unsigned\<lparr>hdr_Signature := Some sig\<rparr> \<and> PoCHash L unsigned = Inr hash \<and>
       SignMessage E (sk_wallet (ks_sk (m_SpaceKeeper m))) (hdr_PubKey block) hash = Inr sig)"
proof -
  let ?C = "candidates L (capacity_ops E) (m_SpaceKeeper m) tpl"
  from capacity.solveBlock_block [OF assms(1-5)] obtain N pt block0 h sig pr where
    n: "tpl_Height tpl \<notin> set (minedHeight m)" and sol: "solution L tpl ?C N pt"
    and b: "hdr_Timestamp block = time_at L tpl N" "hdr_Target block = tpl_GetTarget tpl (time_at L tpl N)"
    "pt_quality pt > hdr_Target block" "hdr_Challenge block = tpl_Challenge tpl" "hdr_PubKey block = wsp_PublicKey (pt_proof pt)"
    and pr: "wsp_Proof (pt_proof pt) = Some pr" "hdr_Proof block = Some pr"
    "VerifyProof (env_U E) pr (PubKeyHash (env_U E) (hdr_PubKey block)) (tpl_Challenge tpl) (EnforceMASSIP0002 L (tpl_Height tpl)) = None"
    and s: "block = block0\<lparr>hdr_Signature := Some sig\<rparr>" "PoCHash L block0 = Inr h"
    "capacity_sign E (m_SpaceKeeper m) (hdr_PubKey block) h = Inr sig"
    by blast
  from sol obtain qs k where q: "qualities_at L tpl ?C N = Inr qs" "k < length ?C" "pt_proof pt = ?C ! k" "pt_quality pt = qs ! k"
    by (auto simp: solution_def)
  from getQualities_nth [OF q(1) [unfolded qualities_at_def] q(2)] pr(1) q(3,4)
  have "VerifiedQuality L pr (PubKeyHash (lib_U L) (wsp_PublicKey (pt_proof pt))) (tpl_Challenge tpl)
      (EnforceMASSIP0002 L (tpl_Height tpl)) (slot_at L tpl N) (tpl_Height tpl) = Inr (pt_quality pt)" by simp
  moreover have "SignMessage E (sk_wallet (ks_sk (m_SpaceKeeper m))) (hdr_PubKey block) h = Inr sig"
    using s(3) by (auto simp: capacity_sign_def map_sum_def split: sum.splits)
  ultimately show ?thesis using n b pr s(1,2) by metis
qed

lemma sample_solveBlock:
  "\<exists>block r. solveBlock sampleL (capacity_ops sample_env) sample_solve sample_miner [''addr''] = Some (Inr (block, r)) \<and>
    hdr_Height block = 7 \<and> hdr_Timestamp block = 106000000000"
proof -
  obtain pt where r: "syncGetBestProof sampleL (capacity_ops sample_env) sample_solve mining_sys sample_tpl =
      Some (Inr (pt, sample_tpl\<lparr>tpl_Timestamp := time_at sampleL sample_tpl 2\<rparr>))"
    and s: "solution sampleL sample_tpl [sample_proof] 2 pt" using sample_reaches by blast
  have p: "pt_proof pt = sample_proof" "pt_time pt = time_at sampleL sample_tpl 2" using s by (auto simp: solution_def)
  then have "pt_time pt = 106000000000" by (simp add: time_at_def time_Seconds_def) (simp add: sample_tpl_def)
  note p = p(1) this
  have k: "m_SpaceKeeper sample_miner = mining_sys" "minedHeight sample_miner = []" by (simp_all add: sample_miner_def miner_NewPoCMiner_def)
  have "op_SignHash (capacity_ops sample_env) mining_sys sample_sid [9] = Inr [5, 9]"
    using capacity.signs [OF mining_sys_ok mining_GetProofs, of sample_proof "[9]"]
    by (simp add: capacity_sign_def sample_proof_def) (simp add: sample_env_def)
  with r p k show ?thesis
    by (simp add: solveBlock_def sample_solve_def getPoCTemplate_def getBlockTemplate_def assembleFullBlock_def sample_bt_def
        sample_tpl_def sampleL_def sample_proof_def)
qed

theorem solved_block_valid_witness:
  "\<exists>block r. solveBlock sampleL (capacity_ops sample_env) sample_solve sample_miner [''addr''] = Some (Inr (block, r)) \<and>
    (\<exists>pr. hdr_Proof block = Some pr) \<and> hdr_Target block = 34"
proof -
  obtain block r where b: "solveBlock sampleL (capacity_ops sample_env) sample_solve sample_miner [''addr''] = Some (Inr (block, r))"
    using sample_solveBlock by blast
  have "getPoCTemplate (recv_poc sample_solve) = Inr sample_tpl" "lib_U sampleL = env_U sample_env"
    "capacity_ok sample_env (m_SpaceKeeper sample_miner)"
    using mining_sys_ok
    by (simp_all add: getPoCTemplate_def sample_solve_def sampleL_def sample_miner_def miner_NewPoCMiner_def) (simp add: sample_tpl_def)
  from solved_block_valid [OF this(3) _ this(1) _ b this(2)] obtain pr where
    "hdr_Proof block = Some pr" "hdr_Target block = tpl_GetTarget sample_tpl (hdr_Timestamp block)" by (auto simp del: split_paired_Ex)
  moreover have "tpl_GetTarget sample_tpl t = 34" for t by (simp add: sample_tpl_def)
  ultimately show ?thesis using b by auto
qed

text \<open>
  C36. No double mining: in any run of the mining loop, with any sequence of rounds and changes of the
  payout addresses, the blocks announced to the network have pairwise different heights, those of
  \<open>minedHeight\<close>; each was accepted by the chain, after the time of its header. The two templates of one
  request are for the same height.
\<close>

theorem no_double_mining:
  assumes "NewSyncMiner args = Inr m" "generateBlocks L K es m = Some (m', stopped)"
    and "\<forall>R. LoopRound R \<in> set es \<longrightarrow> templates_agree (rd_solve R)"
  shows "\<exists>bs. newBlockCh m' = newBlockCh m @ map (Block_Hash L) bs \<and> distinct (map hdr_Height bs) \<and>
    set (minedHeight m') = hdr_Height ` set bs \<and> (\<forall>b\<in>set bs. accepted_in es b)"
proof -
  have "minedHeight m = []"
    using assms(1) by (auto simp: NewSyncMiner_def miner_NewPoCMiner_def split: sum.splits)
  then have "mined_blocks L (newBlockCh m) m []" by (simp add: mined_blocks_def)
  from generateBlocks_mined [OF assms(2,3) this] show ?thesis by (auto simp: mined_blocks_def)
qed

theorem no_double_mining_witness:
  "\<exists>m m'. NewSyncMiner [MBool True, MChain (), MSyncManager (), MSpaceKeeper mining_sys, MNewBlockCh [], MAddresses [''addr'']] = Inr m \<and>
    generateBlocks sampleL (capacity_ops sample_env) [LoopRound sample_round, LoopRound sample_round, LoopQuit] m = Some (m', True) \<and>
    length (newBlockCh m') = 1"
proof -
  have new: "NewSyncMiner [MBool True, MChain (), MSyncManager (), MSpaceKeeper mining_sys, MNewBlockCh [], MAddresses [''addr'']] = Inr sample_miner"
    by (simp add: NewSyncMiner_def parsArgs_def sample_miner_def)
  obtain block r where b: "solveBlock sampleL (capacity_ops sample_env) sample_solve sample_miner [''addr''] = Some (Inr (block, r))" "hdr_Height block = 7"
    and t: "hdr_Timestamp block = 106000000000"
    using sample_solveBlock by blast
  let ?m = "sample_miner\<lparr>newBlockCh := [Block_Hash sampleL block], minedHeight := [7]\<rparr>"
  have k: "m_SpaceKeeper sample_miner = mining_sys" "minedHeight sample_miner = []" "newBlockCh sample_miner = []"
    "payoutAddresses sample_miner = [''addr'']" "allowSolo sample_miner" by (simp_all add: sample_miner_def miner_NewPoCMiner_def)
  have r1: "generate_round sampleL (capacity_ops sample_env) sample_round sample_miner = Some (?m, False)"
    using b k t by (simp add: generate_round_def sample_round_def submitBlock_def)
  have r2: "generate_round sampleL (capacity_ops sample_env) sample_round ?m = Some (?m, False)"
    using k by (simp add: generate_round_def sample_round_def solveBlock_def sample_solve_def getPoCTemplate_def sample_tpl_def)
  from r1 r2 have g: "generateBlocks sampleL (capacity_ops sample_env) [LoopRound sample_round, LoopRound sample_round, LoopQuit] sample_miner = Some (?m, True)"
    by simp
  have "\<forall>R. LoopRound R \<in> set [LoopRound sample_round, LoopRound sample_round, LoopQuit] \<longrightarrow> templates_agree (rd_solve R)"
    by (simp add: templates_agree_def sample_round_def sample_solve_def sample_bt_def sample_tpl_def)
  from no_double_mining [OF new g this] new g show ?thesis by auto
qed

end
