(* ===== verification/Go_Json.thy ===== *)
theory Go_Json
  imports Go_Text
begin

text \<open>
  Go's \<open>encoding/json\<close>, as far as the program uses it: values with their compact text as \<open>Marshal\<close>
  writes it (with its HTML-safe escapes), the grammar that \<open>Unmarshal\<close> accepts, and the conversion of
  values to the fields of a struct. A string is a list of bytes, in UTF-8 or not.
\<close>

section \<open>UTF-8\<close>

abbreviation code :: "char \<Rightarrow> nat" where "code \<equiv> of_char"

definition cont_byte :: "char \<Rightarrow> bool" where
  "cont_byte c \<longleftrightarrow> 128 \<le> code c \<and> code c < 192"

text \<open>
  \<open>utf8.DecodeRuneInString\<close>: the rune at the start of a string and its length, \<open>None\<close> for a byte that
  starts no valid encoding.
\<close>

definition DecodeRune :: "string \<Rightarrow> (nat \<times> nat) option" where
  "DecodeRune s =
     (case s of
        [] \<Rightarrow> None
      | c0 # s1 \<Rightarrow>
        let b0 = code c0 in
        if b0 < 128 then Some (b0, 1)
        else case s1 of [] \<Rightarrow> None
        | c1 # s2 \<Rightarrow>
          let b1 = code c1 in
          if \<not> cont_byte c1 then None
          else if 194 \<le> b0 \<and> b0 \<le> 223 then Some ((b0 - 192) * 64 + (b1 - 128), 2)
          else case s2 of [] \<Rightarrow> None
          | c2 # s3 \<Rightarrow>
            let b2 = code c2 in
            if \<not> cont_byte c2 then None
            else if 224 \<le> b0 \<and> b0 \<le> 239 then
              (if b0 = 224 \<and> b1 < 160 \<or> b0 = 237 \<and> 160 \<le> b1 then None
               else Some ((b0 - 224) * 4096 + (b1 - 128) * 64 + (b2 - 128), 3))
            else case s3 of [] \<Rightarrow> None
            | c3 # _ \<Rightarrow>
              let b3 = code c3 in
              if \<not> cont_byte c3 then None
              else if 240 \<le> b0 \<and> b0 \<le> 244 then
                (if b0 = 240 \<and> b1 < 144 \<or> b0 = 244 \<and> 144 \<le> b1 then None
                 else Some ((b0 - 240) * 262144 + (b1 - 128) * 4096 + (b2 - 128) * 64 + (b3 - 128), 4))
              else None)"

definition EncodeRune :: "nat \<Rightarrow> string" where
  "EncodeRune r =
     (if r < 128 then [char_of r]
      else if r < 2048 then [char_of (192 + r div 64), char_of (128 + r mod 64)]
      else if 1114112 \<le> r \<or> 55296 \<le> r \<and> r < 57344 then [char_of (239 :: nat), char_of (191 :: nat), char_of (189 :: nat)]
      else if r < 65536 then [char_of (224 + r div 4096), char_of (128 + r div 64 mod 64), char_of (128 + r mod 64)]
      else [char_of (240 + r div 262144), char_of (128 + r div 4096 mod 64), char_of (128 + r div 64 mod 64),
            char_of (128 + r mod 64)])"

definition RuneError :: nat where "RuneError = 65533"

section \<open>Strings\<close>

definition ascii_safe :: "char \<Rightarrow> bool" where
  "ascii_safe c \<longleftrightarrow> 32 \<le> code c \<and> code c < 128 \<and> c \<notin> {CHR 0x22, CHR 0x5C, CHR ''<'', CHR ''>'', CHR ''&''}"

definition escape_u :: "nat \<Rightarrow> string" where
  "escape_u r = [CHR 0x5C, CHR ''u'', hextable ! (r div 4096 mod 16), hextable ! (r div 256 mod 16),
     hextable ! (r div 16 mod 16), hextable ! (r mod 16)]"

text \<open>One step of the encoder: the number of bytes it consumes and what it writes for them.\<close>

definition quote_step :: "string \<Rightarrow> nat \<times> string" where
  "quote_step s =
     (let c = hd s in
      if code c < 128 then
        (if ascii_safe c then (1, [c])
         else if c = CHR 0x5C \<or> c = CHR 0x22 then (1, [CHR 0x5C, c])
         else if c = CHR 0x0A then (1, [CHR 0x5C, CHR ''n''])
         else if c = CHR 0x0D then (1, [CHR 0x5C, CHR ''r''])
         else if c = CHR 0x09 then (1, [CHR 0x5C, CHR ''t''])
         else (1, escape_u (code c)))
      else case DecodeRune s of
        None \<Rightarrow> (1, escape_u RuneError)
      | Some (r, n) \<Rightarrow> if r = 8232 \<or> r = 8233 then (n, escape_u r) else (n, take n s))"

fun quote_loop :: "nat \<Rightarrow> string \<Rightarrow> string" where
  "quote_loop 0 s = []"
| "quote_loop (Suc n) s =
     (if s = [] then [] else let (k, out) = quote_step s in out @ quote_loop n (drop k s))"

definition json_quote :: "string \<Rightarrow> string" where
  "json_quote s = CHR 0x22 # quote_loop (length s) s @ [CHR 0x22]"

fun getu4 :: "string \<Rightarrow> nat option" where
  "getu4 (b # u # d1 # d2 # d3 # d4 # _) =
     (if b = CHR 0x5C \<and> u = CHR ''u'' then
        (case (fromHexChar d1, fromHexChar d2, fromHexChar d3, fromHexChar d4) of
           (Some a, Some b, Some c, Some d) \<Rightarrow> Some (((a * 16 + b) * 16 + c) * 16 + d)
         | _ \<Rightarrow> None)
      else None)"
| "getu4 _ = None"

definition simple_escape :: "char \<Rightarrow> char option" where
  "simple_escape c =
     map_of [(CHR 0x22, CHR 0x22), (CHR 0x5C, CHR 0x5C), (CHR ''/'', CHR ''/''), (CHR ''b'', CHR 0x08), (CHR ''f'', CHR 0x0C),
             (CHR ''n'', CHR 0x0A), (CHR ''r'', CHR 0x0D), (CHR ''t'', CHR 0x09)] c"

text \<open>
  One step of the decoder inside a string: how much it consumes and what it stands for. An unescaped
  control character or an unknown escape is a syntax error.
\<close>

definition unquote_step :: "string \<Rightarrow> (nat \<times> string) option" where
  "unquote_step s =
     (let c = hd s in
      if c = CHR 0x5C then
        (case getu4 s of
           Some r \<Rightarrow>
             if 55296 \<le> r \<and> r < 57344 then
               (case getu4 (drop 6 s) of
                  Some r1 \<Rightarrow>
                    if r < 56320 \<and> 56320 \<le> r1 \<and> r1 < 57344
                    then Some (12, EncodeRune ((r - 55296) * 1024 + (r1 - 56320) + 65536))
                    else Some (6, EncodeRune RuneError)
                | None \<Rightarrow> Some (6, EncodeRune RuneError))
             else Some (6, EncodeRune r)
         | None \<Rightarrow>
           (case s of _ # e # _ \<Rightarrow> map_option (\<lambda>x. (2, [x])) (simple_escape e) | _ \<Rightarrow> None))
      else if code c < 32 then None
      else if code c < 128 then Some (1, [c])
      else case DecodeRune s of
        None \<Rightarrow> Some (1, EncodeRune RuneError)
      | Some (r, n) \<Rightarrow> Some (n, take n s))"

text \<open>The rest of a string after its opening quote, up to and past the closing one.\<close>

fun unquote_loop :: "nat \<Rightarrow> string \<Rightarrow> (string \<times> string) option" where
  "unquote_loop 0 s = None"
| "unquote_loop (Suc n) s =
     (if s = [] then None
      else if hd s = CHR 0x22 then Some ([], tl s)
      else case unquote_step s of None \<Rightarrow> None
        | Some (k, out) \<Rightarrow>
          (case unquote_loop n (drop k s) of None \<Rightarrow> None | Some (t, rest) \<Rightarrow> Some (out @ t, rest)))"

section \<open>Values\<close>

text \<open>A number keeps its literal.\<close>

datatype json =
    JNull | JBool bool | JNumber string | JString string | JArray "json list" | JObject "(string \<times> json) list"

fun intersperse :: "string \<Rightarrow> string list \<Rightarrow> string" where
  "intersperse sep [] = []"
| "intersperse sep [x] = x"
| "intersperse sep (x # y # ys) = x @ sep @ intersperse sep (y # ys)"

fun json_text :: "json \<Rightarrow> string" where
  "json_text JNull = ''null''"
| "json_text (JBool b) = (if b then ''true'' else ''false'')"
| "json_text (JNumber s) = s"
| "json_text (JString s) = json_quote s"
| "json_text (JArray vs) = ''['' @ intersperse '','' (map json_text vs) @ '']''"
| "json_text (JObject kvs) =
     ''{'' @ intersperse '','' (map (\<lambda>(k, v). json_quote k @ '':'' @ json_text v) kvs) @ ''}''"

definition json_ws :: "char \<Rightarrow> bool" where
  "json_ws c \<longleftrightarrow> c \<in> {CHR '' '', CHR 0x09, CHR 0x0A, CHR 0x0D}"

abbreviation skip_ws :: "string \<Rightarrow> string" where
  "skip_ws s \<equiv> dropWhile json_ws s"

text \<open>Numbers: an optional minus, digits without leading zeros, fraction, exponent.\<close>

definition scan_digits :: "string \<Rightarrow> (string \<times> string) option" where
  "scan_digits s = (let ds = takeWhile is_digit s in if ds = [] then None else Some (ds, dropWhile is_digit s))"

definition scan_int :: "string \<Rightarrow> (string \<times> string) option" where
  "scan_int s =
     (case s of [] \<Rightarrow> None
      | c # cs \<Rightarrow> if c = CHR ''0'' then Some ([c], cs) else scan_digits s)"

definition scan_frac :: "string \<Rightarrow> (string \<times> string) option" where
  "scan_frac s =
     (case s of c # cs \<Rightarrow> if c = CHR ''.'' then map_option (\<lambda>(d, r). (c # d, r)) (scan_digits cs) else Some ([], s)
      | [] \<Rightarrow> Some ([], []))"

definition scan_exp :: "string \<Rightarrow> (string \<times> string) option" where
  "scan_exp s =
     (case s of
        c # cs \<Rightarrow>
          if c = CHR ''e'' \<or> c = CHR ''E'' then
            (case cs of
               g # gs \<Rightarrow> if g = CHR ''+'' \<or> g = CHR ''-'' then map_option (\<lambda>(d, r). (c # g # d, r)) (scan_digits gs)
                         else map_option (\<lambda>(d, r). (c # d, r)) (scan_digits cs)
             | [] \<Rightarrow> None)
          else Some ([], s)
      | [] \<Rightarrow> Some ([], []))"

definition scan_number :: "string \<Rightarrow> (string \<times> string) option" where
  "scan_number s =
     (let (sign, s1) = (case s of c # cs \<Rightarrow> if c = CHR ''-'' then ([c], cs) else ([], s) | [] \<Rightarrow> ([], [])) in
      case scan_int s1 of None \<Rightarrow> None
      | Some (i, s2) \<Rightarrow>
        (case scan_frac s2 of None \<Rightarrow> None
         | Some (f, s3) \<Rightarrow> (case scan_exp s3 of None \<Rightarrow> None | Some (e, s4) \<Rightarrow> Some (sign @ i @ f @ e, s4))))"

definition maxNestingDepth :: nat where "maxNestingDepth = 10000"

text \<open>
  The parser takes fuel, for which the length of the text is enough, and the depth of the value.
\<close>

fun parse_value :: "nat \<Rightarrow> nat \<Rightarrow> string \<Rightarrow> (json \<times> string) option"
  and parse_elems :: "nat \<Rightarrow> nat \<Rightarrow> string \<Rightarrow> (json list \<times> string) option"
  and parse_members :: "nat \<Rightarrow> nat \<Rightarrow> string \<Rightarrow> ((string \<times> json) list \<times> string) option" where
  "parse_value 0 d s = None"
| "parse_value (Suc n) d s =
     (case skip_ws s of
        [] \<Rightarrow> None
      | c # cs \<Rightarrow>
        if c = CHR 0x22 then map_option (\<lambda>(t, r). (JString t, r)) (unquote_loop (length (c # cs)) cs)
        else if c = CHR ''['' then
          (if d \<ge> maxNestingDepth then None
           else case skip_ws cs of
             [] \<Rightarrow> None
           | e # es \<Rightarrow> if e = CHR '']'' then Some (JArray [], es)
                       else map_option (\<lambda>(vs, r). (JArray vs, r)) (parse_elems n (d + 1) cs))
        else if c = CHR ''{'' then
          (if d \<ge> maxNestingDepth then None
           else case skip_ws cs of
             [] \<Rightarrow> None
           | e # es \<Rightarrow> if e = CHR ''}'' then Some (JObject [], es)
                       else map_option (\<lambda>(kvs, r). (JObject kvs, r)) (parse_members n (d + 1) cs))
        else if take 4 (c # cs) = ''null'' then Some (JNull, drop 4 (c # cs))
        else if take 4 (c # cs) = ''true'' then Some (JBool True, drop 4 (c # cs))
        else if take 5 (c # cs) = ''false'' then Some (JBool False, drop 5 (c # cs))
        else map_option (\<lambda>(t, r). (JNumber t, r)) (scan_number (c # cs)))"
| "parse_elems 0 d s = None"
| "parse_elems (Suc n) d s =
     (case parse_value n d s of None \<Rightarrow> None
      | Some (v, s1) \<Rightarrow>
        (case skip_ws s1 of
           [] \<Rightarrow> None
         | c # cs \<Rightarrow>
           if c = CHR '','' then map_option (\<lambda>(vs, r). (v # vs, r)) (parse_elems n d cs)
           else if c = CHR '']'' then Some ([v], cs)
           else None))"
| "parse_members 0 d s = None"
| "parse_members (Suc n) d s =
     (case skip_ws s of
        [] \<Rightarrow> None
      | q # qs \<Rightarrow>
        if q \<noteq> CHR 0x22 then None
        else case unquote_loop (length (q # qs)) qs of None \<Rightarrow> None
        | Some (k, s1) \<Rightarrow>
          (case skip_ws s1 of
             [] \<Rightarrow> None
           | c # cs \<Rightarrow>
             if c \<noteq> CHR '':'' then None
             else case parse_value n d cs of None \<Rightarrow> None
             | Some (v, s2) \<Rightarrow>
               (case skip_ws s2 of
                  [] \<Rightarrow> None
                | e # es \<Rightarrow>
                  if e = CHR '','' then map_option (\<lambda>(kvs, r). ((k, v) # kvs, r)) (parse_members n d es)
                  else if e = CHR ''}'' then Some ([(k, v)], es)
                  else None)))"

definition json_parse :: "string \<Rightarrow> json option" where
  "json_parse s =
     (case parse_value (2 * length s + 1) 0 s of
        Some (v, r) \<Rightarrow> if skip_ws r = [] then Some v else None
      | None \<Rightarrow> None)"

section \<open>Parsing what was written\<close>

definition ascii :: "string \<Rightarrow> bool" where
  "ascii s \<longleftrightarrow> list_all (\<lambda>c. code c < 128) s"

lemma ascii_simps [simp]: "ascii []" "ascii (c # s) \<longleftrightarrow> code c < 128 \<and> ascii s" "ascii (s @ t) \<longleftrightarrow> ascii s \<and> ascii t"
  by (simp_all add: ascii_def)

lemma getu4_escape_u:
  assumes "r < 65536"
  shows "getu4 (escape_u r @ more) = Some r"
proof -
  define a b c where "a = r div 16" and "b = r div 256" and "c = r div 4096"
  have "r div 256 = a div 16" "r div 4096 = b div 16"
    by (simp_all add: a_def b_def flip: div_mult2_eq)
  moreover have "c < 16" unfolding c_def using assms by (intro less_mult_imp_div_less) simp
  ultimately have "r = 16 * a + r mod 16" "a = 16 * b + a mod 16" "b = 16 * c + b mod 16" and c16: "c mod 16 = c"
    by (simp_all add: a_def b_def c_def)
  then have "(((c mod 16) * 16 + b mod 16) * 16 + a mod 16) * 16 + r mod 16 = r"
    by (simp only: add_mult_distrib mult.assoc)
  then have "(((r div 4096 mod 16) * 16 + r div 256 mod 16) * 16 + r div 16 mod 16) * 16 + r mod 16 = r"
    by (simp only: a_def b_def c_def)
  moreover have "r div 4096 < 16" using assms by (intro less_mult_imp_div_less) simp
  ultimately show ?thesis by (simp add: escape_u_def fromHexChar_hextable)
qed

lemma getu4_no_u: "e \<noteq> CHR ''u'' \<Longrightarrow> getu4 (b # e # more) = None"
  by (cases "b # e # more" rule: getu4.cases) auto

text \<open>What the encoder writes for an ASCII character, the decoder reads as that character.\<close>

definition quote_char :: "char \<Rightarrow> string" where
  "quote_char c = snd (quote_step [c])"

lemma quote_step_ascii: "code c < 128 \<Longrightarrow> quote_step (c # s) = (1, quote_char c)"
  by (simp add: quote_char_def quote_step_def)

lemma unquote_quote_char:
  assumes "code c < 128"
  shows "unquote_step (quote_char c @ more) = Some (length (quote_char c), [c]) \<and> hd (quote_char c) \<noteq> CHR 0x22 \<and>
    quote_char c \<noteq> []"
proof -
  have "ascii_safe c \<or> c \<in> {CHR 0x5C, CHR 0x22, CHR 0x0A, CHR 0x0D, CHR 0x09} \<or> quote_char c = escape_u (code c)"
    using assms by (simp add: quote_char_def quote_step_def)
  then consider "ascii_safe c" | "c \<in> {CHR 0x5C, CHR 0x22, CHR 0x0A, CHR 0x0D, CHR 0x09}"
    | "quote_char c = escape_u (code c)" by blast
  then show ?thesis
  proof cases
    case 1
    then show ?thesis by (auto simp: quote_char_def quote_step_def unquote_step_def ascii_safe_def)
  next
    case 2
    then show ?thesis
      by (auto simp: quote_char_def quote_step_def ascii_safe_def unquote_step_def getu4_no_u simple_escape_def)
  next
    case 3
    have e: "hd (escape_u r) = CHR 0x5C" "hd (escape_u r @ more) = CHR 0x5C" "length (escape_u r) = 6" "escape_u r \<noteq> []" for r
      by (simp_all add: escape_u_def)
    have "getu4 (escape_u (code c) @ more) = Some (code c)" using assms by (intro getu4_escape_u) simp
    then show ?thesis
      using assms e unfolding 3 unquote_step_def Let_def by (simp add: EncodeRune_def)
  qed
qed

lemma unquote_loop_quote:
  assumes "ascii s" "length s < n"
  shows "unquote_loop n (quote_loop (length s) s @ CHR 0x22 # rest) = Some (s, rest)"
  using assms
proof (induction s arbitrary: n)
  case Nil
  then show ?case by (cases n) auto
next
  case (Cons c s)
  then obtain m where n: "n = Suc m" by (cases n) auto
  have c: "code c < 128" using Cons.prems by simp
  have e: "quote_loop (Suc (length s)) (c # s) = quote_char c @ quote_loop (length s) s" by (simp add: quote_step_ascii [OF c])
  let ?more = "quote_loop (length s) s @ CHR 0x22 # rest"
  have "unquote_loop m ?more = Some (s, rest)" using Cons n by simp
  then show ?case
    using unquote_quote_char [OF c, of ?more] by (simp add: n e del: quote_loop.simps)
qed

lemma quote_loop_length: "ascii s \<Longrightarrow> length s \<le> length (quote_loop (length s) s)"
proof (induction s)
  case (Cons c s)
  then have "quote_char c \<noteq> []" using unquote_quote_char by simp
  then have "1 \<le> length (quote_char c)" by (simp add: Suc_le_eq)
  with Cons show ?case by (simp add: quote_step_ascii)
qed simp

lemma unquote_json_quote:
  assumes "ascii s" "length (json_quote s) \<le> n"
  shows "unquote_loop n (tl (json_quote s) @ rest) = Some (s, rest)"
  using unquote_loop_quote [OF assms(1), of n rest] quote_loop_length [OF assms(1)] assms(2) by (simp add: json_quote_def)

section \<open>Numbers\<close>

definition ends_number :: "string \<Rightarrow> bool" where
  "ends_number r \<longleftrightarrow> r = [] \<or> hd r \<in> {CHR '','', CHR '']'', CHR ''}''}"

lemma nat_to_dec_head:
  assumes "nat_to_dec n = c # cs"
  shows "is_digit c" "c = CHR ''0'' \<Longrightarrow> cs = []"
proof -
  show "is_digit c" using nat_to_dec_digits [of n] assms by simp
  show "cs = []" if "c = CHR ''0''" using assms that
  proof (induction n arbitrary: c cs rule: nat_to_dec.induct)
    case (1 n)
    show ?case
    proof (cases "n < 10")
      case False
      obtain d ds where d: "nat_to_dec (n div 10) = d # ds" by (cases "nat_to_dec (n div 10)") auto
      with 1 False have "ds = []" "d = CHR ''0''" by (auto simp: nat_to_dec.simps [of n])
      then have "dec_to_nat (nat_to_dec (n div 10)) = 0" by (simp add: d dec_to_nat_def)
      with False show ?thesis by simp
    qed (use 1 in \<open>simp add: nat_to_dec.simps [of n]\<close>)
  qed
qed

lemma scan_nat:
  assumes "ends_number rest"
  shows "scan_number (nat_to_dec n @ rest) = Some (nat_to_dec n, rest)"
proof -
  obtain c cs where c: "nat_to_dec n = c # cs" by (cases "nat_to_dec n") auto
  note h = nat_to_dec_head [OF c]
  have sign: "c \<noteq> CHR ''-''" using h(1) by auto
  have digits: "\<forall>x\<in>set (c # cs). is_digit x" using nat_to_dec_digits [of n] c by (simp add: list_all_iff)
  have stop: "rest = [] \<or> \<not> is_digit (hd rest)" using assms by (auto simp: ends_number_def is_digit_def)
  have "takeWhile is_digit ((c # cs) @ rest) = c # cs" "dropWhile is_digit ((c # cs) @ rest) = rest"
    using digits stop by (cases rest; auto simp: takeWhile_append2)+
  then have "scan_int ((c # cs) @ rest) = Some (c # cs, rest)"
    using h(2) by (auto simp: scan_int_def scan_digits_def)
  moreover have "scan_frac rest = Some ([], rest)" "scan_exp rest = Some ([], rest)"
    using assms by (auto simp: scan_frac_def scan_exp_def ends_number_def split: list.splits)
  ultimately show ?thesis using sign by (simp add: scan_number_def c)
qed

section \<open>Values\<close>

text \<open>Values the program writes: ASCII strings, natural numbers, arrays and objects that nest less deeply than allowed.\<close>

fun json_ok :: "nat \<Rightarrow> json \<Rightarrow> bool" where
  "json_ok d JNull = True"
| "json_ok d (JBool b) = True"
| "json_ok d (JNumber t) = (t = nat_to_dec (dec_to_nat t))"
| "json_ok d (JString t) = ascii t"
| "json_ok d (JArray vs) = (d < maxNestingDepth \<and> list_all (json_ok (d + 1)) vs)"
| "json_ok d (JObject kvs) = (d < maxNestingDepth \<and> list_all (\<lambda>(k, v). ascii k \<and> json_ok (d + 1) v) kvs)"

lemma intersperse_Cons: "xs \<noteq> [] \<Longrightarrow> intersperse sep (x # xs) = x @ sep @ intersperse sep xs"
  by (cases xs) auto

lemma skip_ws_id: "s \<noteq> [] \<Longrightarrow> \<not> json_ws (hd s) \<Longrightarrow> skip_ws s = s"
  by (cases s) auto

lemma json_text_head:
  assumes "json_ok d v"
  shows "json_text v \<noteq> []" "\<not> json_ws (hd (json_text v))" "hd (json_text v) \<notin> {CHR '']'', CHR ''}'', CHR '','', CHR '':''}"
proof -
  have "json_text v \<noteq> [] \<and> \<not> json_ws (hd (json_text v)) \<and> hd (json_text v) \<notin> {CHR '']'', CHR ''}'', CHR '','', CHR '':''}"
  proof (cases v)
    case (JNumber t)
    obtain c cs where c: "nat_to_dec (dec_to_nat t) = c # cs" by (cases "nat_to_dec (dec_to_nat t)") auto
    with nat_to_dec_head(1) [OF c] assms JNumber show ?thesis by (auto simp: is_digit_def json_ws_def)
  qed (auto simp: json_ws_def json_quote_def)
  then show "json_text v \<noteq> []" "\<not> json_ws (hd (json_text v))" "hd (json_text v) \<notin> {CHR '']'', CHR ''}'', CHR '','', CHR '':''}"
    by auto
qed

definition parses :: "json \<Rightarrow> bool" where
  "parses v \<longleftrightarrow> (\<forall>d n rest. json_ok d v \<longrightarrow> 2 * length (json_text v) < n \<longrightarrow> ends_number rest \<longrightarrow>
     parse_value n d (json_text v @ rest) = Some (v, rest))"

lemma parse_elems_text:
  assumes "vs \<noteq> []" "\<And>v. v \<in> set vs \<Longrightarrow> parses v" "list_all (json_ok d) vs"
    "2 * length (intersperse '','' (map json_text vs)) + 1 < n"
  shows "parse_elems n d (intersperse '','' (map json_text vs) @ CHR '']'' # rest) = Some (vs, rest)"
  using assms
proof (induction vs arbitrary: n)
  case (Cons v vs)
  obtain m where n: "n = Suc m" using Cons.prems(4) by (cases n) auto
  have v: "parses v" "json_ok d v" using Cons.prems by auto
  show ?case
  proof (cases "vs = []")
    case True
    have "parse_value m d (json_text v @ CHR '']'' # rest) = Some (v, CHR '']'' # rest)"
      using v Cons.prems(4) n True unfolding parses_def by (simp add: ends_number_def)
    then show ?thesis by (simp add: True n json_ws_def)
  next
    case False
    let ?T = "intersperse '','' (map json_text vs)"
    have e: "intersperse '','' (map json_text (v # vs)) = json_text v @ CHR '','' # ?T" using False by (simp add: intersperse_Cons)
    have l: "2 * length (json_text v) < m" "2 * length ?T + 1 < m" using Cons.prems(4) [unfolded e] n by simp_all
    have "parse_value m d (json_text v @ CHR '','' # ?T @ CHR '']'' # rest) = Some (v, CHR '','' # ?T @ CHR '']'' # rest)"
      using v l(1) unfolding parses_def by (simp add: ends_number_def)
    moreover have "parse_elems m d (?T @ CHR '']'' # rest) = Some (vs, rest)"
      using Cons.IH [OF False _ _ l(2)] Cons.prems by simp
    ultimately show ?thesis unfolding e by (simp add: n json_ws_def)
  qed
qed simp

definition member_text :: "string \<times> json \<Rightarrow> string" where
  "member_text = (\<lambda>(k, v). json_quote k @ '':'' @ json_text v)"

lemma parse_members_text:
  assumes "kvs \<noteq> []" "\<And>k v. (k, v) \<in> set kvs \<Longrightarrow> parses v" "list_all (\<lambda>(k, v). ascii k \<and> json_ok d v) kvs"
    "2 * length (intersperse '','' (map member_text kvs)) + 1 < n"
  shows "parse_members n d (intersperse '','' (map member_text kvs) @ CHR ''}'' # rest) = Some (kvs, rest)"
  using assms
proof (induction kvs arbitrary: n)
  case (Cons kv kvs)
  obtain k v where kv: "kv = (k, v)" by (cases kv)
  obtain m where n: "n = Suc m" using Cons.prems(4) by (cases n) auto
  have v: "parses v" "json_ok d v" "ascii k" using Cons.prems(2,3) by (auto simp: kv)
  have q: "json_quote k @ r = CHR 0x22 # tl (json_quote k) @ r" for r by (simp add: json_quote_def)
  have u: "unquote_loop (length (CHR 0x22 # tl (json_quote k) @ r)) (tl (json_quote k) @ r) = Some (k, r)" for r
    by (rule unquote_json_quote [OF v(3)]) (simp add: json_quote_def)
  have ws: "\<not> json_ws CHR 0x22" "\<not> json_ws CHR '':''" "\<not> json_ws CHR ''}''" "\<not> json_ws CHR '',''" by (simp_all add: json_ws_def)
  have step: "parse_members (Suc m) d (json_quote k @ CHR '':'' # json_text v @ r) =
      (case r of [] \<Rightarrow> None | e # es \<Rightarrow>
         if e = CHR '','' then map_option (\<lambda>(kvs, r). ((k, v) # kvs, r)) (parse_members m d es)
         else if e = CHR ''}'' then Some ([(k, v)], es) else None)"
    if "2 * length (json_text v) < m" "ends_number r" "r \<noteq> []" for r
  proof -
    have p: "parse_value m d (json_text v @ r) = Some (v, r)" using v that unfolding parses_def by blast
    have "skip_ws r = r" using that(2,3) ws by (cases r) (auto simp: ends_number_def json_ws_def)
    with p u [of "CHR '':'' # json_text v @ r"] ws show ?thesis
      unfolding q by (simp del: unquote_loop.simps split: list.split)
  qed
  show ?case
  proof (cases "kvs = []")
    case True
    with step [of "CHR ''}'' # rest"] Cons.prems(4) show ?thesis by (simp add: kv n member_text_def ends_number_def)
  next
    case False
    let ?T = "intersperse '','' (map member_text kvs)"
    have e: "intersperse '','' (map member_text (kv # kvs)) = json_quote k @ CHR '':'' # json_text v @ CHR '','' # ?T"
      using False by (simp add: intersperse_Cons kv member_text_def)
    have l: "2 * length (json_text v) < m" "2 * length ?T + 1 < m" using Cons.prems(4) [unfolded e] n by simp_all
    have "parse_members m d (?T @ CHR ''}'' # rest) = Some (kvs, rest)"
      using Cons.prems(2,3) by (intro Cons.IH [OF False _ _ l(2)]) auto
    with step [OF l(1), of "CHR '','' # ?T @ CHR ''}'' # rest"] show ?thesis unfolding e by (simp add: n kv ends_number_def)
  qed
qed simp

lemma json_text_object: "json_text (JObject kvs) = ''{'' @ intersperse '','' (map member_text kvs) @ ''}''"
  by (simp add: member_text_def)

lemma text_head_ne:
  assumes "vs \<noteq> []" "list_all (json_ok d) vs"
  shows "\<exists>c cs. intersperse '','' (map json_text vs) = c # cs \<and> \<not> json_ws c \<and> c \<noteq> CHR '']''"
proof -
  obtain v vs' where vs: "vs = v # vs'" using assms(1) by (cases vs) auto
  obtain c cs where c: "json_text v = c # cs" using json_text_head(1) [of d v] assms(2) vs by (cases "json_text v") auto
  have "\<not> json_ws c" "c \<noteq> CHR '']''" using json_text_head(2,3) [of d v] assms(2) vs c by auto
  then show ?thesis using c vs by (cases vs') auto
qed

lemma parses_all: "parses v"
proof (induction v)
  case JNull
  have "parse_value n d (''null'' @ rest) = Some (JNull, rest)" if "0 < n" for n d rest
    using that by (cases n) (simp_all add: json_ws_def)
  then show ?case unfolding parses_def by auto
next
  case (JBool b)
  have "parse_value n d ((if b then ''true'' else ''false'') @ rest) = Some (JBool b, rest)" if "0 < n" for n d rest
    using that by (cases n; cases b) (simp_all add: json_ws_def)
  then show ?case unfolding parses_def by auto
next
  case (JNumber t)
  have "parse_value n d (t @ rest) = Some (JNumber t, rest)" if A: "json_ok d (JNumber t)" and B: "0 < n" and C: "ends_number rest" for n d rest
  proof -
    obtain m where n: "n = Suc m" using B by (cases n) auto
    obtain c cs where c: "t = c # cs" using A by (cases t) (auto simp: nat_to_dec_nonempty [symmetric])
    have "is_digit c" using nat_to_dec_head(1) [of "dec_to_nat t"] A c by simp
    then have h: "\<not> json_ws c" "c \<notin> {CHR 0x22, CHR ''['', CHR ''{'', CHR ''n'', CHR ''t'', CHR ''f''}"
      by (auto simp: is_digit_def json_ws_def)
    have "scan_number (t @ rest) = Some (t, rest)" using scan_nat [OF C, of "dec_to_nat t"] A by simp
    with h show ?thesis by (simp add: n c)
  qed
  then show ?case unfolding parses_def by auto
next
  case (JString t)
  have "parse_value n d (json_quote t @ rest) = Some (JString t, rest)" if A: "ascii t" and B: "0 < n" for n d rest
  proof -
    obtain m where n: "n = Suc m" using B by (cases n) auto
    have "unquote_loop (length (CHR 0x22 # tl (json_quote t) @ rest)) (tl (json_quote t) @ rest) = Some (t, rest)"
      by (rule unquote_json_quote [OF A]) (simp add: json_quote_def)
    note u = this
    have q: "json_quote t @ rest = CHR 0x22 # tl (json_quote t) @ rest" by (simp add: json_quote_def)
    from u show ?thesis unfolding q by (simp add: n json_ws_def del: unquote_loop.simps)
  qed
  then show ?case unfolding parses_def by auto
next
  case (JArray vs)
  have "parse_value n d (json_text (JArray vs) @ rest) = Some (JArray vs, rest)"
    if A: "json_ok d (JArray vs)" and B: "2 * length (json_text (JArray vs)) < n" for n d rest
  proof -
    obtain m where n: "n = Suc m" using B by (cases n) auto
    show ?thesis
    proof (cases "vs = []")
      case False
      obtain c cs where c: "intersperse '','' (map json_text vs) = c # cs" "\<not> json_ws c" "c \<noteq> CHR '']''"
        using text_head_ne [OF False, of "d + 1"] A by auto
      have "parse_elems m (d + 1) (intersperse '','' (map json_text vs) @ CHR '']'' # rest) = Some (vs, rest)"
        using A B n by (intro parse_elems_text [OF False JArray]) auto
      with c A show ?thesis by (simp add: n json_ws_def)
    qed (use A in \<open>simp add: n json_ws_def\<close>)
  qed
  then show ?case unfolding parses_def by auto
next
  case (JObject kvs)
  have "parse_value n d (json_text (JObject kvs) @ rest) = Some (JObject kvs, rest)"
    if A: "json_ok d (JObject kvs)" and B: "2 * length (json_text (JObject kvs)) < n" for n d rest
  proof -
    obtain m where n: "n = Suc m" using B by (cases n) auto
    show ?thesis
    proof (cases "kvs = []")
      case False
      have c: "\<exists>cs. intersperse '','' (map member_text kvs) = CHR 0x22 # cs"
        using False by (cases kvs rule: list.exhaust, simp) (cases "tl kvs"; auto simp: member_text_def json_quote_def)
      then obtain cs where c: "intersperse '','' (map member_text kvs) = CHR 0x22 # cs" by blast
      have "parse_members m (d + 1) (intersperse '','' (map member_text kvs) @ CHR ''}'' # rest) = Some (kvs, rest)"
        using A B n JObject by (intro parse_members_text [OF False]) (auto simp: json_text_object simp del: json_text.simps)
      with c A show ?thesis by (simp add: n json_ws_def json_text_object del: json_text.simps)
    qed (use A in \<open>simp add: n json_ws_def\<close>)
  qed
  then show ?case unfolding parses_def by auto
qed

theorem json_parse_text:
  assumes "json_ok 0 v"
  shows "json_parse (json_text v) = Some v"
proof -
  have "parse_value (2 * length (json_text v) + 1) 0 (json_text v @ []) = Some (v, [])"
    using parses_all [of v] assms unfolding parses_def by (simp add: ends_number_def del: parse_value.simps)
  then show ?thesis unfolding json_parse_def by (simp del: parse_value.simps)
qed

section \<open>Structs\<close>

text \<open>
  \<open>Unmarshal\<close> into a struct looks up the field of each key of an object, by its name or else by its
  name up to case (for which the Kelvin sign is a \<open>k\<close> and the long s an \<open>s\<close>); other keys are ignored. A
  null leaves a field as it is. A value of another type is an error (\<open>None\<close>). The names of fields are
  in lower case.
\<close>

fun fold_key :: "string \<Rightarrow> string" where
  "fold_key [] = []"
| "fold_key (c # cs) =
     (if code c = 226 \<and> map code (take 2 cs) = [132, 170] then CHR ''k'' # fold_key (drop 2 cs)
      else if code c = 197 \<and> map code (take 1 cs) = [191] then CHR ''s'' # fold_key (drop 1 cs)
      else (if 65 \<le> code c \<and> code c \<le> 90 then char_of (code c + 32) else c) # fold_key cs)"

definition field_of :: "string list \<Rightarrow> string \<Rightarrow> string option" where
  "field_of names k = (if k \<in> set names then Some k else find (\<lambda>n. fold_key k = n) names)"

fun set_fields :: "string list \<Rightarrow> (string \<Rightarrow> json \<Rightarrow> 'm \<Rightarrow> 'm option) \<Rightarrow> (string \<times> json) list \<Rightarrow> 'm \<Rightarrow> 'm option" where
  "set_fields names setter [] m = Some m"
| "set_fields names setter ((k, v) # kvs) m =
     (case field_of names k of None \<Rightarrow> set_fields names setter kvs m
      | Some n \<Rightarrow> (case setter n v m of None \<Rightarrow> None | Some m' \<Rightarrow> set_fields names setter kvs m'))"

definition set_struct :: "string list \<Rightarrow> (string \<Rightarrow> json \<Rightarrow> 'm \<Rightarrow> 'm option) \<Rightarrow> json \<Rightarrow> 'm \<Rightarrow> 'm option" where
  "set_struct names setter v m =
     (case v of JNull \<Rightarrow> Some m | JObject kvs \<Rightarrow> set_fields names setter kvs m | _ \<Rightarrow> None)"

definition set_string :: "json \<Rightarrow> string \<Rightarrow> string option" where
  "set_string v old = (case v of JNull \<Rightarrow> Some old | JString s \<Rightarrow> Some s | _ \<Rightarrow> None)"

definition set_uint :: "json \<Rightarrow> 'w::len word \<Rightarrow> 'w word option" where
  "set_uint v old =
     (case v of JNull \<Rightarrow> Some old
      | JNumber t \<Rightarrow> if list_all is_digit t \<and> dec_to_nat t < 2 ^ LENGTH('w) then Some (word_of_nat (dec_to_nat t)) else None
      | _ \<Rightarrow> None)"

text \<open>A pointer to a struct is set to nil by a null and allocated by an object.\<close>

definition set_ptr :: "(json \<Rightarrow> 'm \<Rightarrow> 'm option) \<Rightarrow> 'm \<Rightarrow> json \<Rightarrow> 'm option \<Rightarrow> 'm option option" where
  "set_ptr setter zero v old =
     (case v of JNull \<Rightarrow> Some None
      | _ \<Rightarrow> map_option Some (setter v (case old of Some m \<Rightarrow> m | None \<Rightarrow> zero)))"

text \<open>
  A slice of pointers is decoded over its old elements: an element that exists already is updated. (A
  third value for the same key would also see the elements that the second one cut off.)
\<close>

fun set_elems :: "(json \<Rightarrow> 'm option \<Rightarrow> 'm option option) \<Rightarrow> json list \<Rightarrow> 'm option list \<Rightarrow> 'm option list option" where
  "set_elems setter [] olds = Some []"
| "set_elems setter (v # vs) olds =
     (case setter v (case olds of [] \<Rightarrow> None | x # _ \<Rightarrow> x) of None \<Rightarrow> None
      | Some e \<Rightarrow> map_option (\<lambda>es. e # es) (set_elems setter vs (drop 1 olds)))"

definition set_slice :: "(json \<Rightarrow> 'm option \<Rightarrow> 'm option option) \<Rightarrow> json \<Rightarrow> 'm option list \<Rightarrow> 'm option list option" where
  "set_slice setter v olds =
     (case v of JNull \<Rightarrow> Some [] | JArray vs \<Rightarrow> set_elems setter vs olds | _ \<Rightarrow> None)"

definition string_of_bytes :: "bytes \<Rightarrow> string" where
  "string_of_bytes bs = map (\<lambda>b. char_of (unat b)) bs"

definition bytes_of_string :: "string \<Rightarrow> bytes" where
  "bytes_of_string s = map (\<lambda>c. word_of_nat (code c)) s"

lemma string_of_bytes_of_string [simp, text_simps]: "string_of_bytes (bytes_of_string s) = s"
proof -
  have "char_of (unat (word_of_nat (code c) :: byte)) = c" for c
    by (subst unat_of_nat_bound) simp_all
  then show ?thesis by (simp add: string_of_bytes_def bytes_of_string_def comp_def)
qed

definition uint_json :: "'w::len word \<Rightarrow> json" where
  "uint_json w = JNumber (nat_to_dec (unat w))"

lemma set_uint_json [simp]: "set_uint (uint_json w) old = Some w"
  using unat_lt2p [of w] by (simp add: set_uint_def uint_json_def)

lemma json_ok_uint [simp]: "json_ok d (uint_json w)"
  by (simp add: uint_json_def)

lemma set_string_json [simp]: "set_string (JString s) old = Some s"
  by (simp add: set_string_def)

definition json_Marshal :: "json \<Rightarrow> bytes" where
  "json_Marshal v = bytes_of_string (json_text v)"

definition json_Unmarshal :: "(json \<Rightarrow> 'm \<Rightarrow> 'm option) \<Rightarrow> bytes \<Rightarrow> 'm \<Rightarrow> 'm option" where
  "json_Unmarshal setter data m =
     (case json_parse (string_of_bytes data) of None \<Rightarrow> None | Some v \<Rightarrow> setter v m)"

lemma json_roundtrip: "json_ok 0 v \<Longrightarrow> json_Unmarshal setter (json_Marshal v) m = setter v m"
  by (simp add: json_Unmarshal_def json_Marshal_def json_parse_text)

end
