(* ===== verification/Go_Big.thy ===== *)
theory Go_Big
  imports Go_Text
begin

text \<open>
  Natural and whole numbers as bytes, as Go's \<open>big.Int\<close> has them: the absolute value, most significant byte
  first, without leading zeros.
\<close>

fun nat_bytes :: "nat \<Rightarrow> bytes" where
  "nat_bytes n = (if n = 0 then [] else nat_bytes (n div 256) @ [word_of_nat n])"

declare nat_bytes.simps [simp del]

definition bytes_val :: "bytes \<Rightarrow> nat" where
  "bytes_val bs = foldl (\<lambda>n b. 256 * n + unat b) 0 bs"

definition big_Bytes :: "int \<Rightarrow> bytes" where
  "big_Bytes i = nat_bytes (nat \<bar>i\<bar>)"

definition big_SetBytes :: "bytes \<Rightarrow> int" where
  "big_SetBytes bs = int (bytes_val bs)"

lemma bytes_val_snoc [simp]: "bytes_val [] = 0" "bytes_val (bs @ [b]) = 256 * bytes_val bs + unat b"
  by (simp_all add: bytes_val_def)

lemma bytes_val_le_get: "bytes_val bs = le_get (rev bs)"
  by (induction bs rule: rev_induct) simp_all

lemma bytes_val_nat_bytes [simp]: "bytes_val (nat_bytes n) = n"
proof (induction n rule: nat_bytes.induct)
  case (1 n)
  have "unat (word_of_nat n :: byte) = n mod 256" by (simp add: unat_of_nat take_bit_eq_mod)
  with 1 show ?case by (cases "n = 0") (simp_all add: nat_bytes.simps [of n] nat_bytes.simps [of 0])
qed

lemma big_roundtrip: "0 \<le> i \<Longrightarrow> big_SetBytes (big_Bytes i) = i"
  by (simp add: big_SetBytes_def big_Bytes_def)

lemma bytes_val_bound: "bytes_val bs < 256 ^ length bs"
  using le_get_bound [of "rev bs"] by (simp add: bytes_val_le_get)

lemma bytes_val_zeros [simp]: "bytes_val (replicate k 0 @ bs) = bytes_val bs"
proof -
  have "foldl (\<lambda>n b. 256 * n + unat b) 0 (replicate k (0 :: byte)) = 0" by (induction k) simp_all
  then show ?thesis by (simp add: bytes_val_def)
qed

lemma bytes_val_inj: "bytes_val xs = bytes_val ys \<Longrightarrow> length xs = length ys \<Longrightarrow> xs = ys"
  by (metis bytes_val_le_get le_put_get length_rev rev_rev_ident)

lemma length_nat_bytes: "n < 256 ^ k \<Longrightarrow> length (nat_bytes n) \<le> k"
proof (induction n arbitrary: k rule: nat_bytes.induct)
  case (1 n)
  show ?case
  proof (cases "n = 0")
    case False
    with "1.prems" obtain j where j: "k = Suc j" by (cases k) auto
    then have "n div 256 < 256 ^ j" using "1.prems" by (simp add: less_mult_imp_div_less mult.commute)
    with "1.IH" [OF False] False j show ?thesis by (simp add: nat_bytes.simps [of n])
  qed (simp add: nat_bytes.simps)
qed

text \<open>\<open>binary.BigEndian.PutUint32\<close> and \<open>Uint32\<close>; \<open>binary.LittleEndian.PutUint32\<close> and \<open>Uint32\<close>.\<close>

definition be_PutUint32 :: "u32 \<Rightarrow> bytes" where
  "be_PutUint32 v = rev (le_put 4 (unat v))"

definition be_Uint32 :: "bytes \<Rightarrow> u32" where
  "be_Uint32 bs = word_of_nat (le_get (rev (take 4 bs)))"

definition le_PutUint32 :: "u32 \<Rightarrow> bytes" where
  "le_PutUint32 v = le_put 4 (unat v)"

definition le_Uint32 :: "bytes \<Rightarrow> u32" where
  "le_Uint32 bs = word_of_nat (le_get (take 4 bs))"

lemma be_Uint32_PutUint32: "be_Uint32 (be_PutUint32 v @ r) = v"
  using unat_lt2p [of v] by (simp add: be_Uint32_def be_PutUint32_def le_get_put)

interpretation be32: field_codec be_PutUint32 be_Uint32 4
  using be_Uint32_PutUint32 [of _ "[]"] by unfold_locales (simp_all add: be_PutUint32_def)

lemma le_Uint32_PutUint32: "le_Uint32 (le_PutUint32 v @ r) = v"
  using unat_lt2p [of v] by (simp add: le_Uint32_def le_PutUint32_def le_get_put)

interpretation le32: field_codec le_PutUint32 le_Uint32 4
  using le_Uint32_PutUint32 [of _ "[]"] by unfold_locales (simp_all add: le_PutUint32_def)

end
