(* ===== verification/Fractal_Protocol.thy ===== *)
theory Fractal_Protocol
  imports Go_Json Go_Big
begin

text \<open>
  The messages between a superior, which mines, and its collectors, which hold plots:
  \<open>fractal/protocol\<close>. A message is two bytes for its type and a JSON text. Each kind of message has a
  Go value and a struct of strings and numbers that is written as JSON.

  Identifiers, hashes and curve elements are types of other packages; the record \<open>frac_lib\<close> has the
  functions that convert them.
\<close>

section \<open>Other packages\<close>

record ('u, 'g1, 'g2) frac_lib =
  uuid_String :: "'u \<Rightarrow> string"
  uuid_Parse :: "string \<Rightarrow> string + 'u"
  Hash_String :: "bytes \<Rightarrow> string"
  DecodeStringToHash :: "string \<Rightarrow> string + bytes"
  G1_Bytes :: "'g1 \<Rightarrow> bytes"
  NewG1ElementFromBytes :: "bytes \<Rightarrow> string + 'g1"
  G2_Bytes :: "'g2 \<Rightarrow> bytes"
  NewG2ElementFromBytes :: "bytes \<Rightarrow> string + 'g2"

text \<open>Each is read back from its text, which is ASCII. A hash has 32 bytes.\<close>

definition hash_ok :: "bytes \<Rightarrow> bool" where
  "hash_ok h \<longleftrightarrow> length h = 32"

definition frac_lib_ok :: "('u, 'g1, 'g2) frac_lib \<Rightarrow> bool" where
  "frac_lib_ok L \<longleftrightarrow>
     (\<forall>u. uuid_Parse L (uuid_String L u) = Inr u \<and> ascii (uuid_String L u)) \<and>
     (\<forall>h. hash_ok h \<longrightarrow> DecodeStringToHash L (Hash_String L h) = Inr h \<and> ascii (Hash_String L h)) \<and>
     (\<forall>h. hash_ok h \<longrightarrow> DecodeStringToHash L (hex_EncodeToString h) = Inr h) \<and>
     (\<forall>g. NewG1ElementFromBytes L (G1_Bytes L g) = Inr g) \<and>
     (\<forall>g. NewG2ElementFromBytes L (G2_Bytes L g) = Inr g)"

section \<open>Errors\<close>

datatype proto_error =
    ErrMsgTypeBytes | ErrUnknownMsgType u16 | ErrJSON | ErrUUID string | ErrHashText string | ErrHex hex_error
  | ErrElement string | ProtoPanicNil

abbreviation bind_sum :: "'e + 'a \<Rightarrow> ('a \<Rightarrow> 'e + 'b) \<Rightarrow> 'e + 'b" where
  "bind_sum r f \<equiv> (case r of Inl e \<Rightarrow> Inl e | Inr x \<Rightarrow> f x)"

definition parse_uuid :: "('u, 'g1, 'g2) frac_lib \<Rightarrow> string \<Rightarrow> proto_error + 'u" where
  "parse_uuid L s = map_sum ErrUUID id (uuid_Parse L s)"

definition parse_hash :: "('u, 'g1, 'g2) frac_lib \<Rightarrow> string \<Rightarrow> proto_error + bytes" where
  "parse_hash L s = map_sum ErrHashText id (DecodeStringToHash L s)"

definition parse_hex :: "string \<Rightarrow> proto_error + bytes" where
  "parse_hex s = map_sum ErrHex id (hex_DecodeString s)"

definition newG1ElementFromString :: "('u, 'g1, 'g2) frac_lib \<Rightarrow> string \<Rightarrow> proto_error + 'g1" where
  "newG1ElementFromString L s = bind_sum (parse_hex s) (\<lambda>d. map_sum ErrElement id (NewG1ElementFromBytes L d))"

definition newG2ElementFromString :: "('u, 'g1, 'g2) frac_lib \<Rightarrow> string \<Rightarrow> proto_error + 'g2" where
  "newG2ElementFromString L s = bind_sum (parse_hex s) (\<lambda>d. map_sum ErrElement id (NewG2ElementFromBytes L d))"

section \<open>RequestQualities\<close>

record 'u request_qualities =
  rq_TaskID :: 'u
  rq_Challenge :: bytes
  rq_ParentTarget :: int
  rq_ParentSlot :: u64
  rq_Height :: u64

record msg_request_qualities =
  mrq_TaskID :: string
  mrq_Challenge :: string
  mrq_ParentTarget :: string
  mrq_ParentSlot :: u64
  mrq_Height :: u64

definition RequestQualities_Msg :: "('u, 'g1, 'g2) frac_lib \<Rightarrow> 'u request_qualities \<Rightarrow> msg_request_qualities" where
  "RequestQualities_Msg L req =
     \<lparr>mrq_TaskID = uuid_String L (rq_TaskID req), mrq_Challenge = Hash_String L (rq_Challenge req),
      mrq_ParentTarget = hex_EncodeToString (big_Bytes (rq_ParentTarget req)),
      mrq_ParentSlot = rq_ParentSlot req, mrq_Height = rq_Height req\<rparr>"

definition RequestQualities_SetMsg :: "('u, 'g1, 'g2) frac_lib \<Rightarrow> msg_request_qualities \<Rightarrow> proto_error + 'u request_qualities" where
  "RequestQualities_SetMsg L msg =
     bind_sum (parse_uuid L (mrq_TaskID msg)) (\<lambda>tid.
     bind_sum (parse_hash L (mrq_Challenge msg)) (\<lambda>challenge.
     bind_sum (parse_hex (mrq_ParentTarget msg)) (\<lambda>targetBytes.
       Inr \<lparr>rq_TaskID = tid, rq_Challenge = challenge, rq_ParentTarget = big_SetBytes targetBytes,
            rq_ParentSlot = mrq_ParentSlot msg, rq_Height = mrq_Height msg\<rparr>)))"

definition json_request_qualities :: "msg_request_qualities \<Rightarrow> json" where
  "json_request_qualities m =
     JObject [(''task_id'', JString (mrq_TaskID m)), (''challenge'', JString (mrq_Challenge m)),
       (''parent_target'', JString (mrq_ParentTarget m)), (''parent_slot'', uint_json (mrq_ParentSlot m)),
       (''height'', uint_json (mrq_Height m))]"

definition set_request_qualities :: "json \<Rightarrow> msg_request_qualities \<Rightarrow> msg_request_qualities option" where
  "set_request_qualities = set_struct [''task_id'', ''challenge'', ''parent_target'', ''parent_slot'', ''height'']
     (\<lambda>n v m.
        if n = ''task_id'' then map_option (\<lambda>x. m\<lparr>mrq_TaskID := x\<rparr>) (set_string v (mrq_TaskID m))
        else if n = ''challenge'' then map_option (\<lambda>x. m\<lparr>mrq_Challenge := x\<rparr>) (set_string v (mrq_Challenge m))
        else if n = ''parent_target'' then map_option (\<lambda>x. m\<lparr>mrq_ParentTarget := x\<rparr>) (set_string v (mrq_ParentTarget m))
        else if n = ''parent_slot'' then map_option (\<lambda>x. m\<lparr>mrq_ParentSlot := x\<rparr>) (set_uint v (mrq_ParentSlot m))
        else map_option (\<lambda>x. m\<lparr>mrq_Height := x\<rparr>) (set_uint v (mrq_Height m)))"

definition RequestQualities_Bytes :: "('u, 'g1, 'g2) frac_lib \<Rightarrow> 'u request_qualities \<Rightarrow> bytes" where
  "RequestQualities_Bytes L req = json_Marshal (json_request_qualities (RequestQualities_Msg L req))"

definition RequestQualities_SetBytes :: "('u, 'g1, 'g2) frac_lib \<Rightarrow> bytes \<Rightarrow> proto_error + 'u request_qualities" where
  "RequestQualities_SetBytes L data =
     (case json_Unmarshal set_request_qualities data
             \<lparr>mrq_TaskID = [], mrq_Challenge = [], mrq_ParentTarget = [], mrq_ParentSlot = 0, mrq_Height = 0\<rparr> of
        None \<Rightarrow> Inl ErrJSON | Some msg \<Rightarrow> RequestQualities_SetMsg L msg)"

section \<open>ReportQualities\<close>

record 'g1 workspace_quality =
  wsq_SpaceID :: string
  wsq_PublicKey :: 'g1
  wsq_PoolPublicKey :: 'g1
  wsq_Index :: u32
  wsq_KSize :: byte
  wsq_Quality :: bytes
  wsq_Error :: "string option"
  wsq_PlotID :: bytes

record 'g1 quality = "'g1 workspace_quality" +
  q_Slot :: u64

record msg_quality =
  mq_SpaceID :: string
  mq_PublicKey :: string
  mq_PoolPublicKey :: string
  mq_Index :: u32
  mq_KSize :: byte
  mq_Quality :: string
  mq_PlotID :: string
  mq_Slot :: u64

definition Quality_Msg :: "('u, 'g1, 'g2) frac_lib \<Rightarrow> 'g1 quality \<Rightarrow> msg_quality" where
  "Quality_Msg L q =
     \<lparr>mq_SpaceID = wsq_SpaceID q, mq_PublicKey = hex_EncodeToString (G1_Bytes L (wsq_PublicKey q)),
      mq_PoolPublicKey = hex_EncodeToString (G1_Bytes L (wsq_PoolPublicKey q)), mq_Index = wsq_Index q,
      mq_KSize = wsq_KSize q, mq_Quality = hex_EncodeToString (wsq_Quality q),
      mq_PlotID = hex_EncodeToString (wsq_PlotID q), mq_Slot = q_Slot q\<rparr>"

text \<open>\<open>NewQuality\<close> and its \<open>SetMsg\<close>; a nil pointer is dereferenced.\<close>

definition NewQuality :: "('u, 'g1, 'g2) frac_lib \<Rightarrow> msg_quality option \<Rightarrow> proto_error + 'g1 quality" where
  "NewQuality L p =
     (case p of None \<Rightarrow> Inl ProtoPanicNil
      | Some msg \<Rightarrow>
        bind_sum (newG1ElementFromString L (mq_PublicKey msg)) (\<lambda>publicKey.
        bind_sum (newG1ElementFromString L (mq_PoolPublicKey msg)) (\<lambda>poolPublicKey.
        bind_sum (parse_hex (mq_Quality msg)) (\<lambda>qual.
        bind_sum (parse_hash L (mq_PlotID msg)) (\<lambda>plotID.
          Inr \<lparr>wsq_SpaceID = mq_SpaceID msg, wsq_PublicKey = publicKey, wsq_PoolPublicKey = poolPublicKey,
               wsq_Index = mq_Index msg, wsq_KSize = mq_KSize msg, wsq_Quality = qual, wsq_Error = None,
               wsq_PlotID = plotID, q_Slot = mq_Slot msg\<rparr>)))))"

record ('u, 'g1) report_qualities =
  rs_TaskID :: 'u
  rs_Qualities :: "'g1 quality list"

record msg_report_qualities =
  mrs_TaskID :: string
  mrs_Qualities :: "msg_quality option list"

definition ReportQualities_Msg :: "('u, 'g1, 'g2) frac_lib \<Rightarrow> ('u, 'g1) report_qualities \<Rightarrow> msg_report_qualities" where
  "ReportQualities_Msg L resp =
     \<lparr>mrs_TaskID = uuid_String L (rs_TaskID resp), mrs_Qualities = map (\<lambda>q. Some (Quality_Msg L q)) (rs_Qualities resp)\<rparr>"

fun new_qualities :: "('u, 'g1, 'g2) frac_lib \<Rightarrow> msg_quality option list \<Rightarrow> proto_error + 'g1 quality list" where
  "new_qualities L [] = Inr []"
| "new_qualities L (p # ps) =
     bind_sum (NewQuality L p) (\<lambda>q. bind_sum (new_qualities L ps) (\<lambda>qs. Inr (q # qs)))"

definition ReportQualities_SetMsg :: "('u, 'g1, 'g2) frac_lib \<Rightarrow> msg_report_qualities \<Rightarrow> proto_error + ('u, 'g1) report_qualities" where
  "ReportQualities_SetMsg L msg =
     bind_sum (parse_uuid L (mrs_TaskID msg)) (\<lambda>tid.
     bind_sum (new_qualities L (mrs_Qualities msg)) (\<lambda>qualities. Inr \<lparr>rs_TaskID = tid, rs_Qualities = qualities\<rparr>))"

definition json_quality :: "msg_quality \<Rightarrow> json" where
  "json_quality m =
     JObject [(''space_id'', JString (mq_SpaceID m)), (''public_key'', JString (mq_PublicKey m)),
       (''pool_public_key'', JString (mq_PoolPublicKey m)), (''index'', uint_json (mq_Index m)),
       (''k_size'', uint_json (mq_KSize m)), (''quality'', JString (mq_Quality m)),
       (''plot_id'', JString (mq_PlotID m)), (''slot'', uint_json (mq_Slot m))]"

definition set_quality :: "json \<Rightarrow> msg_quality \<Rightarrow> msg_quality option" where
  "set_quality = set_struct [''space_id'', ''public_key'', ''pool_public_key'', ''index'', ''k_size'', ''quality'', ''plot_id'', ''slot'']
     (\<lambda>n v m.
        if n = ''space_id'' then map_option (\<lambda>x. m\<lparr>mq_SpaceID := x\<rparr>) (set_string v (mq_SpaceID m))
        else if n = ''public_key'' then map_option (\<lambda>x. m\<lparr>mq_PublicKey := x\<rparr>) (set_string v (mq_PublicKey m))
        else if n = ''pool_public_key'' then map_option (\<lambda>x. m\<lparr>mq_PoolPublicKey := x\<rparr>) (set_string v (mq_PoolPublicKey m))
        else if n = ''index'' then map_option (\<lambda>x. m\<lparr>mq_Index := x\<rparr>) (set_uint v (mq_Index m))
        else if n = ''k_size'' then map_option (\<lambda>x. m\<lparr>mq_KSize := x\<rparr>) (set_uint v (mq_KSize m))
        else if n = ''quality'' then map_option (\<lambda>x. m\<lparr>mq_Quality := x\<rparr>) (set_string v (mq_Quality m))
        else if n = ''plot_id'' then map_option (\<lambda>x. m\<lparr>mq_PlotID := x\<rparr>) (set_string v (mq_PlotID m))
        else map_option (\<lambda>x. m\<lparr>mq_Slot := x\<rparr>) (set_uint v (mq_Slot m)))"

definition zero_quality :: msg_quality where
  "zero_quality = \<lparr>mq_SpaceID = [], mq_PublicKey = [], mq_PoolPublicKey = [], mq_Index = 0, mq_KSize = 0, mq_Quality = [],
     mq_PlotID = [], mq_Slot = 0\<rparr>"

definition json_ptr :: "('m \<Rightarrow> json) \<Rightarrow> 'm option \<Rightarrow> json" where
  "json_ptr f p = (case p of None \<Rightarrow> JNull | Some m \<Rightarrow> f m)"

definition json_report_qualities :: "msg_report_qualities \<Rightarrow> json" where
  "json_report_qualities m =
     JObject [(''task_id'', JString (mrs_TaskID m)), (''qualities'', JArray (map (json_ptr json_quality) (mrs_Qualities m)))]"

definition set_report_qualities :: "json \<Rightarrow> msg_report_qualities \<Rightarrow> msg_report_qualities option" where
  "set_report_qualities = set_struct [''task_id'', ''qualities'']
     (\<lambda>n v m.
        if n = ''task_id'' then map_option (\<lambda>x. m\<lparr>mrs_TaskID := x\<rparr>) (set_string v (mrs_TaskID m))
        else map_option (\<lambda>x. m\<lparr>mrs_Qualities := x\<rparr>) (set_slice (set_ptr set_quality zero_quality) v (mrs_Qualities m)))"

definition ReportQualities_Bytes :: "('u, 'g1, 'g2) frac_lib \<Rightarrow> ('u, 'g1) report_qualities \<Rightarrow> bytes" where
  "ReportQualities_Bytes L resp = json_Marshal (json_report_qualities (ReportQualities_Msg L resp))"

definition ReportQualities_SetBytes :: "('u, 'g1, 'g2) frac_lib \<Rightarrow> bytes \<Rightarrow> proto_error + ('u, 'g1) report_qualities" where
  "ReportQualities_SetBytes L data =
     (case json_Unmarshal set_report_qualities data \<lparr>mrs_TaskID = [], mrs_Qualities = []\<rparr> of
        None \<Rightarrow> Inl ErrJSON | Some msg \<Rightarrow> ReportQualities_SetMsg L msg)"

section \<open>RequestProof\<close>

record 'u request_proof =
  rp_TaskID :: 'u
  rp_Height :: u64
  rp_SpaceID :: string
  rp_Challenge :: bytes
  rp_Index :: u32

record msg_request_proof =
  mrp_TaskID :: string
  mrp_Height :: u64
  mrp_SpaceID :: string
  mrp_Challenge :: string
  mrp_Index :: u32

definition RequestProof_Msg :: "('u, 'g1, 'g2) frac_lib \<Rightarrow> 'u request_proof \<Rightarrow> msg_request_proof" where
  "RequestProof_Msg L req =
     \<lparr>mrp_TaskID = uuid_String L (rp_TaskID req), mrp_Height = rp_Height req, mrp_SpaceID = rp_SpaceID req,
      mrp_Challenge = Hash_String L (rp_Challenge req), mrp_Index = rp_Index req\<rparr>"

definition RequestProof_SetMsg :: "('u, 'g1, 'g2) frac_lib \<Rightarrow> msg_request_proof \<Rightarrow> proto_error + 'u request_proof" where
  "RequestProof_SetMsg L msg =
     bind_sum (parse_uuid L (mrp_TaskID msg)) (\<lambda>tid.
     bind_sum (parse_hash L (mrp_Challenge msg)) (\<lambda>challenge.
       Inr \<lparr>rp_TaskID = tid, rp_Height = mrp_Height msg, rp_SpaceID = mrp_SpaceID msg, rp_Challenge = challenge,
            rp_Index = mrp_Index msg\<rparr>))"

definition json_request_proof :: "msg_request_proof \<Rightarrow> json" where
  "json_request_proof m =
     JObject [(''task_id'', JString (mrp_TaskID m)), (''height'', uint_json (mrp_Height m)),
       (''space_id'', JString (mrp_SpaceID m)), (''challenge'', JString (mrp_Challenge m)), (''index'', uint_json (mrp_Index m))]"

definition set_request_proof :: "json \<Rightarrow> msg_request_proof \<Rightarrow> msg_request_proof option" where
  "set_request_proof = set_struct [''task_id'', ''height'', ''space_id'', ''challenge'', ''index'']
     (\<lambda>n v m.
        if n = ''task_id'' then map_option (\<lambda>x. m\<lparr>mrp_TaskID := x\<rparr>) (set_string v (mrp_TaskID m))
        else if n = ''height'' then map_option (\<lambda>x. m\<lparr>mrp_Height := x\<rparr>) (set_uint v (mrp_Height m))
        else if n = ''space_id'' then map_option (\<lambda>x. m\<lparr>mrp_SpaceID := x\<rparr>) (set_string v (mrp_SpaceID m))
        else if n = ''challenge'' then map_option (\<lambda>x. m\<lparr>mrp_Challenge := x\<rparr>) (set_string v (mrp_Challenge m))
        else map_option (\<lambda>x. m\<lparr>mrp_Index := x\<rparr>) (set_uint v (mrp_Index m)))"

definition RequestProof_Bytes :: "('u, 'g1, 'g2) frac_lib \<Rightarrow> 'u request_proof \<Rightarrow> bytes" where
  "RequestProof_Bytes L req = json_Marshal (json_request_proof (RequestProof_Msg L req))"

definition RequestProof_SetBytes :: "('u, 'g1, 'g2) frac_lib \<Rightarrow> bytes \<Rightarrow> proto_error + 'u request_proof" where
  "RequestProof_SetBytes L data =
     (case json_Unmarshal set_request_proof data
             \<lparr>mrp_TaskID = [], mrp_Height = 0, mrp_SpaceID = [], mrp_Challenge = [], mrp_Index = 0\<rparr> of
        None \<Rightarrow> Inl ErrJSON | Some msg \<Rightarrow> RequestProof_SetMsg L msg)"

section \<open>ReportProof\<close>

text \<open>
  A proof of space and the result of the space keeper for it, whose \<open>Proof\<close> is nil when its \<open>Error\<close> is not.
\<close>

record 'g1 proof_of_space =
  pos_Challenge :: bytes
  pos_PoolPublicKey :: 'g1
  pos_PuzzleHash :: "bytes option"
  pos_PlotPublicKey :: 'g1
  pos_KSize :: byte
  pos_Proof :: bytes

record 'g1 workspace_proof2 =
  wp2_SpaceID :: string
  wp2_Proof :: "'g1 proof_of_space option"
  wp2_PublicKey :: 'g1
  wp2_Ordinal :: int
  wp2_Error :: "string option"

definition UnknownOrdinal :: int where "UnknownOrdinal = -1"

record msg_proof =
  mp_SpaceID :: string
  mp_Challenge :: string
  mp_PoolPublicKey :: string
  mp_PlotPublicKey :: string
  mp_KSize :: byte
  mp_Proof :: string

definition Proof_Msg :: "('u, 'g1, 'g2) frac_lib \<Rightarrow> 'g1 workspace_proof2 \<Rightarrow> proto_error + msg_proof" where
  "Proof_Msg L p =
     (case wp2_Proof p of None \<Rightarrow> Inl ProtoPanicNil
      | Some pos \<Rightarrow>
        Inr \<lparr>mp_SpaceID = wp2_SpaceID p, mp_Challenge = hex_EncodeToString (pos_Challenge pos),
             mp_PoolPublicKey = hex_EncodeToString (G1_Bytes L (pos_PoolPublicKey pos)),
             mp_PlotPublicKey = hex_EncodeToString (G1_Bytes L (pos_PlotPublicKey pos)),
             mp_KSize = pos_KSize pos, mp_Proof = hex_EncodeToString (pos_Proof pos)\<rparr>)"

definition NewProof :: "('u, 'g1, 'g2) frac_lib \<Rightarrow> msg_proof option \<Rightarrow> proto_error + 'g1 workspace_proof2" where
  "NewProof L ptr =
     (case ptr of None \<Rightarrow> Inl ProtoPanicNil
      | Some msg \<Rightarrow>
        bind_sum (parse_hash L (mp_Challenge msg)) (\<lambda>challenge.
        bind_sum (newG1ElementFromString L (mp_PoolPublicKey msg)) (\<lambda>poolPublicKey.
        bind_sum (newG1ElementFromString L (mp_PlotPublicKey msg)) (\<lambda>plotPublicKey.
        bind_sum (parse_hex (mp_Proof msg)) (\<lambda>prf.
          Inr \<lparr>wp2_SpaceID = mp_SpaceID msg,
               wp2_Proof = Some \<lparr>pos_Challenge = challenge, pos_PoolPublicKey = poolPublicKey, pos_PuzzleHash = None,
                 pos_PlotPublicKey = plotPublicKey, pos_KSize = mp_KSize msg, pos_Proof = prf\<rparr>,
               wp2_PublicKey = plotPublicKey, wp2_Ordinal = UnknownOrdinal, wp2_Error = None\<rparr>)))))"

record ('u, 'g1) report_proof =
  rr_TaskID :: 'u
  rr_Proof :: "'g1 workspace_proof2"

record msg_report_proof =
  mrr_TaskID :: string
  mrr_Proof :: "msg_proof option"

definition ReportProof_Msg :: "('u, 'g1, 'g2) frac_lib \<Rightarrow> ('u, 'g1) report_proof \<Rightarrow> proto_error + msg_report_proof" where
  "ReportProof_Msg L resp =
     bind_sum (Proof_Msg L (rr_Proof resp)) (\<lambda>m. Inr \<lparr>mrr_TaskID = uuid_String L (rr_TaskID resp), mrr_Proof = Some m\<rparr>)"

definition ReportProof_SetMsg :: "('u, 'g1, 'g2) frac_lib \<Rightarrow> msg_report_proof \<Rightarrow> proto_error + ('u, 'g1) report_proof" where
  "ReportProof_SetMsg L msg =
     bind_sum (parse_uuid L (mrr_TaskID msg)) (\<lambda>tid.
     bind_sum (NewProof L (mrr_Proof msg)) (\<lambda>p. Inr \<lparr>rr_TaskID = tid, rr_Proof = p\<rparr>))"

definition json_proof :: "msg_proof \<Rightarrow> json" where
  "json_proof m =
     JObject [(''space_id'', JString (mp_SpaceID m)), (''challenge'', JString (mp_Challenge m)),
       (''pool_public_key'', JString (mp_PoolPublicKey m)), (''plot_public_key'', JString (mp_PlotPublicKey m)),
       (''k_size'', uint_json (mp_KSize m)), (''proof'', JString (mp_Proof m))]"

definition set_proof :: "json \<Rightarrow> msg_proof \<Rightarrow> msg_proof option" where
  "set_proof = set_struct [''space_id'', ''challenge'', ''pool_public_key'', ''plot_public_key'', ''k_size'', ''proof'']
     (\<lambda>n v m.
        if n = ''space_id'' then map_option (\<lambda>x. m\<lparr>mp_SpaceID := x\<rparr>) (set_string v (mp_SpaceID m))
        else if n = ''challenge'' then map_option (\<lambda>x. m\<lparr>mp_Challenge := x\<rparr>) (set_string v (mp_Challenge m))
        else if n = ''pool_public_key'' then map_option (\<lambda>x. m\<lparr>mp_PoolPublicKey := x\<rparr>) (set_string v (mp_PoolPublicKey m))
        else if n = ''plot_public_key'' then map_option (\<lambda>x. m\<lparr>mp_PlotPublicKey := x\<rparr>) (set_string v (mp_PlotPublicKey m))
        else if n = ''k_size'' then map_option (\<lambda>x. m\<lparr>mp_KSize := x\<rparr>) (set_uint v (mp_KSize m))
        else map_option (\<lambda>x. m\<lparr>mp_Proof := x\<rparr>) (set_string v (mp_Proof m)))"

definition zero_proof :: msg_proof where
  "zero_proof = \<lparr>mp_SpaceID = [], mp_Challenge = [], mp_PoolPublicKey = [], mp_PlotPublicKey = [], mp_KSize = 0, mp_Proof = []\<rparr>"

definition json_report_proof :: "msg_report_proof \<Rightarrow> json" where
  "json_report_proof m =
     JObject [(''task_id'', JString (mrr_TaskID m)), (''proof'', json_ptr json_proof (mrr_Proof m))]"

definition set_report_proof :: "json \<Rightarrow> msg_report_proof \<Rightarrow> msg_report_proof option" where
  "set_report_proof = set_struct [''task_id'', ''proof'']
     (\<lambda>n v m.
        if n = ''task_id'' then map_option (\<lambda>x. m\<lparr>mrr_TaskID := x\<rparr>) (set_string v (mrr_TaskID m))
        else map_option (\<lambda>x. m\<lparr>mrr_Proof := x\<rparr>) (set_ptr set_proof zero_proof v (mrr_Proof m)))"

definition ReportProof_Bytes :: "('u, 'g1, 'g2) frac_lib \<Rightarrow> ('u, 'g1) report_proof \<Rightarrow> proto_error + bytes" where
  "ReportProof_Bytes L resp = bind_sum (ReportProof_Msg L resp) (\<lambda>m. Inr (json_Marshal (json_report_proof m)))"

definition ReportProof_SetBytes :: "('u, 'g1, 'g2) frac_lib \<Rightarrow> bytes \<Rightarrow> proto_error + ('u, 'g1) report_proof" where
  "ReportProof_SetBytes L data =
     (case json_Unmarshal set_report_proof data \<lparr>mrr_TaskID = [], mrr_Proof = None\<rparr> of
        None \<Rightarrow> Inl ErrJSON | Some msg \<Rightarrow> ReportProof_SetMsg L msg)"

section \<open>Signatures\<close>

record 'u request_signature =
  sq_TaskID :: 'u
  sq_Height :: u64
  sq_SpaceID :: string
  sq_Hash :: bytes

record msg_request_signature =
  msq_TaskID :: string
  msq_Height :: u64
  msq_SpaceID :: string
  msq_Hash :: string

definition RequestSignature_Msg :: "('u, 'g1, 'g2) frac_lib \<Rightarrow> 'u request_signature \<Rightarrow> msg_request_signature" where
  "RequestSignature_Msg L req =
     \<lparr>msq_TaskID = uuid_String L (sq_TaskID req), msq_Height = sq_Height req, msq_SpaceID = sq_SpaceID req,
      msq_Hash = hex_EncodeToString (sq_Hash req)\<rparr>"

definition RequestSignature_SetMsg :: "('u, 'g1, 'g2) frac_lib \<Rightarrow> msg_request_signature \<Rightarrow> proto_error + 'u request_signature" where
  "RequestSignature_SetMsg L msg =
     bind_sum (parse_uuid L (msq_TaskID msg)) (\<lambda>tid.
     bind_sum (parse_hash L (msq_Hash msg)) (\<lambda>hash.
       Inr \<lparr>sq_TaskID = tid, sq_Height = msq_Height msg, sq_SpaceID = msq_SpaceID msg, sq_Hash = hash\<rparr>))"

definition json_request_signature :: "msg_request_signature \<Rightarrow> json" where
  "json_request_signature m =
     JObject [(''task_id'', JString (msq_TaskID m)), (''height'', uint_json (msq_Height m)),
       (''space_id'', JString (msq_SpaceID m)), (''hash'', JString (msq_Hash m))]"

definition set_request_signature :: "json \<Rightarrow> msg_request_signature \<Rightarrow> msg_request_signature option" where
  "set_request_signature = set_struct [''task_id'', ''height'', ''space_id'', ''hash'']
     (\<lambda>n v m.
        if n = ''task_id'' then map_option (\<lambda>x. m\<lparr>msq_TaskID := x\<rparr>) (set_string v (msq_TaskID m))
        else if n = ''height'' then map_option (\<lambda>x. m\<lparr>msq_Height := x\<rparr>) (set_uint v (msq_Height m))
        else if n = ''space_id'' then map_option (\<lambda>x. m\<lparr>msq_SpaceID := x\<rparr>) (set_string v (msq_SpaceID m))
        else map_option (\<lambda>x. m\<lparr>msq_Hash := x\<rparr>) (set_string v (msq_Hash m)))"

definition RequestSignature_Bytes :: "('u, 'g1, 'g2) frac_lib \<Rightarrow> 'u request_signature \<Rightarrow> bytes" where
  "RequestSignature_Bytes L req = json_Marshal (json_request_signature (RequestSignature_Msg L req))"

definition RequestSignature_SetBytes :: "('u, 'g1, 'g2) frac_lib \<Rightarrow> bytes \<Rightarrow> proto_error + 'u request_signature" where
  "RequestSignature_SetBytes L data =
     (case json_Unmarshal set_request_signature data \<lparr>msq_TaskID = [], msq_Height = 0, msq_SpaceID = [], msq_Hash = []\<rparr> of
        None \<Rightarrow> Inl ErrJSON | Some msg \<Rightarrow> RequestSignature_SetMsg L msg)"

record ('u, 'g2) report_signature =
  ss_TaskID :: 'u
  ss_SpaceID :: string
  ss_Hash :: bytes
  ss_Signature :: 'g2

record msg_report_signature =
  mss_TaskID :: string
  mss_SpaceID :: string
  mss_Hash :: string
  mss_Signature :: string

definition ReportSignature_Msg :: "('u, 'g1, 'g2) frac_lib \<Rightarrow> ('u, 'g2) report_signature \<Rightarrow> msg_report_signature" where
  "ReportSignature_Msg L resp =
     \<lparr>mss_TaskID = uuid_String L (ss_TaskID resp), mss_SpaceID = ss_SpaceID resp, mss_Hash = hex_EncodeToString (ss_Hash resp),
      mss_Signature = hex_EncodeToString (G2_Bytes L (ss_Signature resp))\<rparr>"

definition ReportSignature_SetMsg :: "('u, 'g1, 'g2) frac_lib \<Rightarrow> msg_report_signature \<Rightarrow> proto_error + ('u, 'g2) report_signature" where
  "ReportSignature_SetMsg L msg =
     bind_sum (parse_uuid L (mss_TaskID msg)) (\<lambda>tid.
     bind_sum (parse_hash L (mss_Hash msg)) (\<lambda>hash.
     bind_sum (newG2ElementFromString L (mss_Signature msg)) (\<lambda>sig.
       Inr \<lparr>ss_TaskID = tid, ss_SpaceID = mss_SpaceID msg, ss_Hash = hash, ss_Signature = sig\<rparr>)))"

definition json_report_signature :: "msg_report_signature \<Rightarrow> json" where
  "json_report_signature m =
     JObject [(''task_id'', JString (mss_TaskID m)), (''space_id'', JString (mss_SpaceID m)),
       (''hash'', JString (mss_Hash m)), (''signature'', JString (mss_Signature m))]"

definition set_report_signature :: "json \<Rightarrow> msg_report_signature \<Rightarrow> msg_report_signature option" where
  "set_report_signature = set_struct [''task_id'', ''space_id'', ''hash'', ''signature'']
     (\<lambda>n v m.
        if n = ''task_id'' then map_option (\<lambda>x. m\<lparr>mss_TaskID := x\<rparr>) (set_string v (mss_TaskID m))
        else if n = ''space_id'' then map_option (\<lambda>x. m\<lparr>mss_SpaceID := x\<rparr>) (set_string v (mss_SpaceID m))
        else if n = ''hash'' then map_option (\<lambda>x. m\<lparr>mss_Hash := x\<rparr>) (set_string v (mss_Hash m))
        else map_option (\<lambda>x. m\<lparr>mss_Signature := x\<rparr>) (set_string v (mss_Signature m)))"

definition ReportSignature_Bytes :: "('u, 'g1, 'g2) frac_lib \<Rightarrow> ('u, 'g2) report_signature \<Rightarrow> bytes" where
  "ReportSignature_Bytes L resp = json_Marshal (json_report_signature (ReportSignature_Msg L resp))"

definition ReportSignature_SetBytes :: "('u, 'g1, 'g2) frac_lib \<Rightarrow> bytes \<Rightarrow> proto_error + ('u, 'g2) report_signature" where
  "ReportSignature_SetBytes L data =
     (case json_Unmarshal set_report_signature data \<lparr>mss_TaskID = [], mss_SpaceID = [], mss_Hash = [], mss_Signature = []\<rparr> of
        None \<Rightarrow> Inl ErrJSON | Some msg \<Rightarrow> ReportSignature_SetMsg L msg)"

section \<open>Messages\<close>

datatype ('u, 'g1, 'g2) message =
    RequestQualities "'u request_qualities" | ReportQualities "('u, 'g1) report_qualities"
  | RequestProof "'u request_proof" | ReportProof "('u, 'g1) report_proof"
  | RequestSignature "'u request_signature" | ReportSignature "('u, 'g2) report_signature"

definition MsgTypeReserved :: u16 where "MsgTypeReserved = 0"
definition MsgTypeRequestQualities :: u16 where "MsgTypeRequestQualities = 1"
definition MsgTypeReportQualities :: u16 where "MsgTypeReportQualities = 2"
definition MsgTypeRequestProof :: u16 where "MsgTypeRequestProof = 3"
definition MsgTypeReportProof :: u16 where "MsgTypeReportProof = 4"
definition MsgTypeRequestSignature :: u16 where "MsgTypeRequestSignature = 5"
definition MsgTypeReportSignature :: u16 where "MsgTypeReportSignature = 6"

lemmas msg_types = MsgTypeReserved_def MsgTypeRequestQualities_def MsgTypeReportQualities_def MsgTypeRequestProof_def
  MsgTypeReportProof_def MsgTypeRequestSignature_def MsgTypeReportSignature_def

definition msgTypeByteSize :: nat where "msgTypeByteSize = 2"

definition msgTypeToBytes :: "u16 \<Rightarrow> bytes" where
  "msgTypeToBytes t = be_PutUint16 t"

definition msgTypeFromBytes :: "bytes \<Rightarrow> proto_error + u16" where
  "msgTypeFromBytes bs = (if length bs < msgTypeByteSize then Inl ErrMsgTypeBytes else Inr (be_Uint16 bs))"

fun MsgType :: "('u, 'g1, 'g2) message \<Rightarrow> u16" where
  "MsgType (RequestQualities _) = MsgTypeRequestQualities"
| "MsgType (ReportQualities _) = MsgTypeReportQualities"
| "MsgType (RequestProof _) = MsgTypeRequestProof"
| "MsgType (ReportProof _) = MsgTypeReportProof"
| "MsgType (RequestSignature _) = MsgTypeRequestSignature"
| "MsgType (ReportSignature _) = MsgTypeReportSignature"

fun message_ID :: "('u, 'g1, 'g2) message \<Rightarrow> 'u" where
  "message_ID (RequestQualities m) = rq_TaskID m"
| "message_ID (ReportQualities m) = rs_TaskID m"
| "message_ID (RequestProof m) = rp_TaskID m"
| "message_ID (ReportProof m) = rr_TaskID m"
| "message_ID (RequestSignature m) = sq_TaskID m"
| "message_ID (ReportSignature m) = ss_TaskID m"

fun message_Bytes :: "('u, 'g1, 'g2) frac_lib \<Rightarrow> ('u, 'g1, 'g2) message \<Rightarrow> proto_error + bytes" where
  "message_Bytes L (RequestQualities m) = Inr (RequestQualities_Bytes L m)"
| "message_Bytes L (ReportQualities m) = Inr (ReportQualities_Bytes L m)"
| "message_Bytes L (RequestProof m) = Inr (RequestProof_Bytes L m)"
| "message_Bytes L (ReportProof m) = ReportProof_Bytes L m"
| "message_Bytes L (RequestSignature m) = Inr (RequestSignature_Bytes L m)"
| "message_Bytes L (ReportSignature m) = Inr (ReportSignature_Bytes L m)"

definition EncodeMessage :: "('u, 'g1, 'g2) frac_lib \<Rightarrow> ('u, 'g1, 'g2) message \<Rightarrow> proto_error + bytes" where
  "EncodeMessage L msg = bind_sum (message_Bytes L msg) (\<lambda>msgBytes. Inr (msgTypeToBytes (MsgType msg) @ msgBytes))"

text \<open>The source returns a message beside an error, too; its callers drop it.\<close>

definition DecodeMessage :: "('u, 'g1, 'g2) frac_lib \<Rightarrow> bytes \<Rightarrow> proto_error + ('u, 'g1, 'g2) message" where
  "DecodeMessage L data =
     bind_sum (msgTypeFromBytes data) (\<lambda>t.
       let body = drop msgTypeByteSize data in
       if t = MsgTypeRequestQualities then map_sum id RequestQualities (RequestQualities_SetBytes L body)
       else if t = MsgTypeReportQualities then map_sum id ReportQualities (ReportQualities_SetBytes L body)
       else if t = MsgTypeRequestProof then map_sum id RequestProof (RequestProof_SetBytes L body)
       else if t = MsgTypeReportProof then map_sum id ReportProof (ReportProof_SetBytes L body)
       else if t = MsgTypeRequestSignature then map_sum id RequestSignature (RequestSignature_SetBytes L body)
       else if t = MsgTypeReportSignature then map_sum id ReportSignature (ReportSignature_SetBytes L body)
       else Inl (ErrUnknownMsgType t))"

section \<open>Round trips\<close>

lemma ascii_hex [simp]: "ascii (hex_EncodeToString bs)"
proof -
  have "list_all (\<lambda>c. code c < 128) hextable" by code_simp
  with set_hex_EncodeToString [of bs] show ?thesis unfolding ascii_def list_all_iff by blast
qed

lemma parse_hex_hex [simp]: "parse_hex (hex_EncodeToString bs) = Inr bs"
  by (simp add: parse_hex_def)

lemma frac_lib_okD:
  assumes "frac_lib_ok L"
  shows "parse_uuid L (uuid_String L u) = Inr u" "ascii (uuid_String L u)"
    "hash_ok h \<Longrightarrow> parse_hash L (Hash_String L h) = Inr h" "hash_ok h \<Longrightarrow> ascii (Hash_String L h)"
    "hash_ok h \<Longrightarrow> parse_hash L (hex_EncodeToString h) = Inr h"
    "newG1ElementFromString L (hex_EncodeToString (G1_Bytes L g)) = Inr g"
    "newG2ElementFromString L (hex_EncodeToString (G2_Bytes L g2)) = Inr g2"
  using assms
  by (simp_all add: frac_lib_ok_def parse_uuid_def parse_hash_def newG1ElementFromString_def newG2ElementFromString_def)

lemma ascii_names:
  "ascii ''task_id''" "ascii ''challenge''" "ascii ''parent_target''" "ascii ''parent_slot''" "ascii ''height''"
  "ascii ''space_id''" "ascii ''public_key''" "ascii ''pool_public_key''" "ascii ''index''" "ascii ''k_size''"
  "ascii ''quality''" "ascii ''plot_id''" "ascii ''slot''" "ascii ''qualities''" "ascii ''plot_public_key''" "ascii ''proof''"
  "ascii ''hash''" "ascii ''signature''"
  by simp_all

lemma depth_simps [simp]: "0 < maxNestingDepth" "Suc 0 < maxNestingDepth" "Suc (Suc 0) < maxNestingDepth"
  by (simp_all add: maxNestingDepth_def)

lemmas struct_simps = set_struct_def field_of_def set_slice_def set_ptr_def json_ptr_def

text \<open>The conditions under which a message survives: what its text cannot express has its default value.\<close>

definition quality_ok :: "'g1 quality \<Rightarrow> bool" where
  "quality_ok q \<longleftrightarrow> ascii (wsq_SpaceID q) \<and> hash_ok (wsq_PlotID q) \<and> wsq_Error q = None"

definition proof_ok :: "'g1 workspace_proof2 \<Rightarrow> bool" where
  "proof_ok p \<longleftrightarrow> ascii (wp2_SpaceID p) \<and> wp2_Ordinal p = UnknownOrdinal \<and> wp2_Error p = None \<and>
     (\<exists>pos. wp2_Proof p = Some pos \<and> hash_ok (pos_Challenge pos) \<and> pos_PuzzleHash pos = None \<and> wp2_PublicKey p = pos_PlotPublicKey pos)"

fun message_ok :: "('u, 'g1, 'g2) message \<Rightarrow> bool" where
  "message_ok (RequestQualities m) \<longleftrightarrow> hash_ok (rq_Challenge m) \<and> 0 \<le> rq_ParentTarget m"
| "message_ok (ReportQualities m) \<longleftrightarrow> list_all quality_ok (rs_Qualities m)"
| "message_ok (RequestProof m) \<longleftrightarrow> ascii (rp_SpaceID m) \<and> hash_ok (rp_Challenge m)"
| "message_ok (ReportProof m) \<longleftrightarrow> proof_ok (rr_Proof m)"
| "message_ok (RequestSignature m) \<longleftrightarrow> ascii (sq_SpaceID m) \<and> hash_ok (sq_Hash m)"
| "message_ok (ReportSignature m) \<longleftrightarrow> ascii (ss_SpaceID m) \<and> hash_ok (ss_Hash m)"

lemma RequestQualities_roundtrip:
  assumes "frac_lib_ok L" "message_ok (RequestQualities m)"
  shows "RequestQualities_SetBytes L (RequestQualities_Bytes L m) = Inr m"
proof -
  note L = frac_lib_okD [OF assms(1)]
  let ?m = "RequestQualities_Msg L m"
  have "json_ok 0 (json_request_qualities ?m)"
    using assms(2) L by (simp add: json_request_qualities_def RequestQualities_Msg_def ascii_names del: ascii_simps(2))
  moreover have "set_request_qualities (json_request_qualities n) m0 = Some n" for n m0
    by (simp add: set_request_qualities_def json_request_qualities_def struct_simps)
  moreover have "RequestQualities_SetMsg L ?m = Inr m"
    using assms(2) L by (simp add: RequestQualities_SetMsg_def RequestQualities_Msg_def big_roundtrip)
  ultimately show ?thesis by (simp add: RequestQualities_SetBytes_def RequestQualities_Bytes_def json_roundtrip)
qed

lemma ReportQualities_roundtrip:
  assumes "frac_lib_ok L" "message_ok (ReportQualities m)"
  shows "ReportQualities_SetBytes L (ReportQualities_Bytes L m) = Inr m"
proof -
  note L = frac_lib_okD [OF assms(1)]
  let ?m = "ReportQualities_Msg L m"
  have q: "json_ok d (json_quality (Quality_Msg L q))" if "quality_ok q" "d < maxNestingDepth" for d q
    using that by (simp add: json_quality_def Quality_Msg_def quality_ok_def ascii_names del: ascii_simps(2))
  have "json_ok 0 (json_report_qualities ?m)"
    using assms(2) L q
    by (auto simp: json_report_qualities_def ReportQualities_Msg_def json_ptr_def ascii_names list_all_iff simp del: ascii_simps(2))
  moreover have s: "set_quality (json_quality n) m0 = Some n" for n m0
    by (simp add: set_quality_def json_quality_def struct_simps)
  have ptr: "set_ptr set_quality zero_quality (json_ptr json_quality (Some n)) old = Some (Some n)" for n old
    using s by (simp add: set_ptr_def json_ptr_def) (simp add: json_quality_def)
  have "set_elems (set_ptr set_quality zero_quality) (map (json_ptr json_quality) (map Some ns)) olds = Some (map Some ns)" for ns olds
    by (induction ns arbitrary: olds) (simp_all add: ptr)
  note el = this
  have "set_report_qualities (json_report_qualities ?m) m0 = Some ?m" for m0
    using el [of "map (Quality_Msg L) (rs_Qualities m)"]
    by (simp add: set_report_qualities_def json_report_qualities_def set_struct_def field_of_def set_slice_def
        ReportQualities_Msg_def comp_def)
  moreover have n: "NewQuality L (Some (Quality_Msg L q)) = Inr q" if "quality_ok q" for q
    using that L by (simp add: NewQuality_def Quality_Msg_def quality_ok_def)
  have "new_qualities L (map (\<lambda>q. Some (Quality_Msg L q)) qs) = Inr qs" if "list_all quality_ok qs" for qs
    using that by (induction qs) (simp_all add: n)
  then have "ReportQualities_SetMsg L ?m = Inr m"
    using assms(2) L by (simp add: ReportQualities_SetMsg_def ReportQualities_Msg_def)
  ultimately show ?thesis by (simp add: ReportQualities_SetBytes_def ReportQualities_Bytes_def json_roundtrip)
qed

lemma RequestProof_roundtrip:
  assumes "frac_lib_ok L" "message_ok (RequestProof m)"
  shows "RequestProof_SetBytes L (RequestProof_Bytes L m) = Inr m"
proof -
  note L = frac_lib_okD [OF assms(1)]
  let ?m = "RequestProof_Msg L m"
  have "json_ok 0 (json_request_proof ?m)"
    using assms(2) L by (simp add: json_request_proof_def RequestProof_Msg_def ascii_names del: ascii_simps(2))
  moreover have "set_request_proof (json_request_proof n) m0 = Some n" for n m0
    by (simp add: set_request_proof_def json_request_proof_def struct_simps)
  moreover have "RequestProof_SetMsg L ?m = Inr m"
    using assms(2) L by (simp add: RequestProof_SetMsg_def RequestProof_Msg_def)
  ultimately show ?thesis by (simp add: RequestProof_SetBytes_def RequestProof_Bytes_def json_roundtrip)
qed

lemma ReportProof_roundtrip:
  assumes "frac_lib_ok L" "message_ok (ReportProof m)"
  shows "\<exists>bs. ReportProof_Bytes L m = Inr bs \<and> ReportProof_SetBytes L bs = Inr m"
proof -
  note L = frac_lib_okD [OF assms(1)]
  obtain n where n: "Proof_Msg L (rr_Proof m) = Inr n" "NewProof L (Some n) = Inr (rr_Proof m)" "ascii (mp_SpaceID n)"
    "ascii (mp_Challenge n)" "ascii (mp_PoolPublicKey n)" "ascii (mp_PlotPublicKey n)" "ascii (mp_Proof n)"
    using assms(2) L by (auto simp: proof_ok_def Proof_Msg_def NewProof_def)
  let ?m = "\<lparr>mrr_TaskID = uuid_String L (rr_TaskID m), mrr_Proof = Some n\<rparr>"
  have "json_ok 0 (json_report_proof ?m)"
    using L n by (simp add: json_report_proof_def json_ptr_def json_proof_def ascii_names del: ascii_simps(2))
  moreover have "set_proof (json_proof n) m0 = Some n" for n m0
    by (simp add: set_proof_def json_proof_def struct_simps)
  then have "set_report_proof (json_report_proof ?m) m0 = Some ?m" for m0
    by (simp add: set_report_proof_def json_report_proof_def struct_simps) (simp add: json_proof_def)
  moreover have "ReportProof_Msg L m = Inr ?m" "ReportProof_SetMsg L ?m = Inr m"
    using n L by (simp_all add: ReportProof_Msg_def ReportProof_SetMsg_def)
  ultimately show ?thesis by (simp add: ReportProof_SetBytes_def ReportProof_Bytes_def json_roundtrip)
qed

lemma RequestSignature_roundtrip:
  assumes "frac_lib_ok L" "message_ok (RequestSignature m)"
  shows "RequestSignature_SetBytes L (RequestSignature_Bytes L m) = Inr m"
proof -
  note L = frac_lib_okD [OF assms(1)]
  let ?m = "RequestSignature_Msg L m"
  have "json_ok 0 (json_request_signature ?m)"
    using assms(2) L by (simp add: json_request_signature_def RequestSignature_Msg_def ascii_names del: ascii_simps(2))
  moreover have "set_request_signature (json_request_signature n) m0 = Some n" for n m0
    by (simp add: set_request_signature_def json_request_signature_def struct_simps)
  moreover have "RequestSignature_SetMsg L ?m = Inr m"
    using assms(2) L by (simp add: RequestSignature_SetMsg_def RequestSignature_Msg_def)
  ultimately show ?thesis by (simp add: RequestSignature_SetBytes_def RequestSignature_Bytes_def json_roundtrip)
qed

lemma ReportSignature_roundtrip:
  assumes "frac_lib_ok L" "message_ok (ReportSignature m)"
  shows "ReportSignature_SetBytes L (ReportSignature_Bytes L m) = Inr m"
proof -
  note L = frac_lib_okD [OF assms(1)]
  let ?m = "ReportSignature_Msg L m"
  have "json_ok 0 (json_report_signature ?m)"
    using assms(2) L by (simp add: json_report_signature_def ReportSignature_Msg_def ascii_names del: ascii_simps(2))
  moreover have "set_report_signature (json_report_signature n) m0 = Some n" for n m0
    by (simp add: set_report_signature_def json_report_signature_def struct_simps)
  moreover have "ReportSignature_SetMsg L ?m = Inr m"
    using assms(2) L by (simp add: ReportSignature_SetMsg_def ReportSignature_Msg_def)
  ultimately show ?thesis by (simp add: ReportSignature_SetBytes_def ReportSignature_Bytes_def json_roundtrip)
qed

lemma decode_typed:
  "msgTypeFromBytes (msgTypeToBytes t @ body) = Inr t" "length (msgTypeToBytes t) = msgTypeByteSize"
  by (simp_all add: msgTypeFromBytes_def msgTypeToBytes_def msgTypeByteSize_def)

lemma message_roundtrip:
  assumes "frac_lib_ok L" "message_ok msg"
  shows "\<exists>data. EncodeMessage L msg = Inr data \<and> DecodeMessage L data = Inr msg"
proof (cases msg)
  case (ReportProof m)
  with ReportProof_roundtrip [OF assms(1), of m] assms(2) show ?thesis
    by (auto simp: EncodeMessage_def DecodeMessage_def decode_typed Let_def msg_types)
qed (use assms(2) in \<open>simp_all add: EncodeMessage_def DecodeMessage_def decode_typed Let_def msg_types
      RequestQualities_roundtrip [OF assms(1)] ReportQualities_roundtrip [OF assms(1)] RequestProof_roundtrip [OF assms(1)]
      RequestSignature_roundtrip [OF assms(1)] ReportSignature_roundtrip [OF assms(1)]\<close>)

end
