(* ===== verification/Fractal_Conn.thy ===== *)
theory Fractal_Conn
  imports Fractal_Protocol "HOL-Library.Sublist"
begin

text \<open>
  A connection of \<open>fractal/connection\<close> with the reader and the writer of messages on top of it
  (\<open>fractal/reader.go\<close>, \<open>fractal/writer.go\<close>). Packets are written to a byte stream, each after its size in
  four bytes; a packet of size zero keeps the connection alive. The sending side is a step relation, the
  receiving side a function of the bytes that have arrived.
\<close>

section \<open>Options\<close>

record options =
  keepaliveTimeout :: int
  keepaliveInterval :: int
  maxRecvMsgSize :: u32
  maxSendMsgSize :: u32
  copyMsg :: bool
  recvQueueSize :: nat
  sendQueueSize :: nat
  prioritySendQueueSize :: nat
  alivenessChannelSize :: nat
  dialNetwork :: string
  dialAddress :: string
  dialTimeout :: int

definition go_Second :: int where "go_Second = 1000000000"

definition defaultOptions :: options where
  "defaultOptions =
     \<lparr>keepaliveTimeout = 60 * go_Second, keepaliveInterval = 29 * go_Second, maxRecvMsgSize = 2 * 1024 * 1024,
      maxSendMsgSize = - 1, copyMsg = True, recvQueueSize = 10, sendQueueSize = 10, prioritySendQueueSize = 10,
      alivenessChannelSize = 10, dialNetwork = ''tcp'', dialAddress = [], dialTimeout = 20 * go_Second\<rparr>"

type_synonym conn_option = "options \<Rightarrow> options"

definition KeepaliveTimeout :: "int \<Rightarrow> conn_option" where "KeepaliveTimeout t o1 = o1\<lparr>keepaliveTimeout := t\<rparr>"
definition KeepaliveInterval :: "int \<Rightarrow> conn_option" where "KeepaliveInterval t o1 = o1\<lparr>keepaliveInterval := t\<rparr>"
definition MaxRecvMsgSize :: "u32 \<Rightarrow> conn_option" where "MaxRecvMsgSize n o1 = o1\<lparr>maxRecvMsgSize := n\<rparr>"
definition MaxSendMsgSize :: "u32 \<Rightarrow> conn_option" where "MaxSendMsgSize n o1 = o1\<lparr>maxSendMsgSize := n\<rparr>"
definition CopyMsg :: "bool \<Rightarrow> conn_option" where "CopyMsg b o1 = o1\<lparr>copyMsg := b\<rparr>"
definition DialNetwork :: "string \<Rightarrow> conn_option" where "DialNetwork n o1 = o1\<lparr>dialNetwork := n\<rparr>"
definition DialAddress :: "string \<Rightarrow> conn_option" where "DialAddress a o1 = o1\<lparr>dialAddress := a\<rparr>"
definition DialTimeout :: "int \<Rightarrow> conn_option" where "DialTimeout t o1 = o1\<lparr>dialTimeout := t\<rparr>"

definition apply_options :: "conn_option list \<Rightarrow> options" where
  "apply_options opt = fold (\<lambda>o1 opts. o1 opts) opt defaultOptions"

section \<open>Packets\<close>

definition msgSizeToBytes :: "u32 \<Rightarrow> bytes" where "msgSizeToBytes sz = be_PutUint32 sz"
definition bytesToMsgSize :: "bytes \<Rightarrow> u32" where "bytesToMsgSize data = be_Uint32 data"

text \<open>What \<open>sendRoutine\<close> writes for one packet.\<close>

definition packet_bytes :: "bytes \<Rightarrow> bytes" where
  "packet_bytes data =
     (let sz = word_of_nat (length data) in
      if sz = 0 then msgSizeToBytes sz else msgSizeToBytes sz @ data)"

section \<open>The sending side\<close>

text \<open>
  \<open>sendRoutine\<close> first looks for a packet in the queue for priority, and waits for any packet when there
  is none (\<open>SInner\<close>). \<open>cn_sent\<close> are the packets it has written completely; after an error or when the
  context is done the connection is closed.
\<close>

datatype send_pc = SOuter | SInner

record conn =
  cn_prio :: "bytes list"
  cn_norm :: "bytes list"
  cn_out :: bytes
  cn_sent :: "bytes list"
  cn_pc :: send_pc
  cn_closed :: bool

definition newConn :: conn where
  "newConn = \<lparr>cn_prio = [], cn_norm = [], cn_out = [], cn_sent = [], cn_pc = SOuter, cn_closed = False\<rparr>"

datatype conn_error = ErrRecvMsgTooLarge | RecvEOF | ErrClosedPipe | ErrMsgOversize

text \<open>A send on a channel succeeds, fails because the channel is closed, or waits for room.\<close>

datatype 'a send_result = Sent 'a | SendErr conn_error | SendBlocked

definition safeSendBytes :: "options \<Rightarrow> bool \<Rightarrow> bytes \<Rightarrow> conn \<Rightarrow> conn send_result" where
  "safeSendBytes opts priority d c =
     (if cn_closed c then SendErr ErrClosedPipe
      else if priority then
        (if length (cn_prio c) < prioritySendQueueSize opts then Sent (c\<lparr>cn_prio := cn_prio c @ [d]\<rparr>) else SendBlocked)
      else (if length (cn_norm c) < sendQueueSize opts then Sent (c\<lparr>cn_norm := cn_norm c @ [d]\<rparr>) else SendBlocked))"

definition checkSend :: "options \<Rightarrow> bool \<Rightarrow> bytes \<Rightarrow> conn \<Rightarrow> conn send_result" where
  "checkSend opts priority d c =
     (if maxSendMsgSize opts < word_of_nat (length d) then SendErr ErrMsgOversize
      else safeSendBytes opts priority d c)"

text \<open>The keepalive sends an empty packet; when it cannot, the connection is closed.\<close>

definition sendKeepalivePacket :: "options \<Rightarrow> conn \<Rightarrow> conn option" where
  "sendKeepalivePacket opts c =
     (case safeSendBytes opts True [] c of
        Sent c' \<Rightarrow> Some c' | SendErr err \<Rightarrow> Some (c\<lparr>cn_closed := True\<rparr>) | SendBlocked \<Rightarrow> None)"

inductive take_packet :: "conn \<Rightarrow> bytes \<Rightarrow> conn \<Rightarrow> bool" where
  take_prio: "cn_prio c = d # ds \<Longrightarrow> take_packet c d (c\<lparr>cn_prio := ds\<rparr>)"
| take_norm: "cn_pc c = SInner \<Longrightarrow> cn_norm c = d # ds \<Longrightarrow> take_packet c d (c\<lparr>cn_norm := ds\<rparr>)"

inductive conn_step :: "options \<Rightarrow> conn \<Rightarrow> conn \<Rightarrow> bool" for opts where
  step_keepalive: "sendKeepalivePacket opts c = Some c' \<Longrightarrow> conn_step opts c c'"
| step_default: "\<not> cn_closed c \<Longrightarrow> cn_pc c = SOuter \<Longrightarrow> cn_prio c = [] \<Longrightarrow> conn_step opts c (c\<lparr>cn_pc := SInner\<rparr>)"
| step_write: "\<not> cn_closed c \<Longrightarrow> take_packet c d c1 \<Longrightarrow>
    conn_step opts c (c1\<lparr>cn_out := cn_out c @ packet_bytes d, cn_sent := cn_sent c @ [d], cn_pc := SOuter\<rparr>)"
| step_write_error: "\<not> cn_closed c \<Longrightarrow> take_packet c d c1 \<Longrightarrow> k < length (packet_bytes d) \<Longrightarrow>
    conn_step opts c (c1\<lparr>cn_out := cn_out c @ take k (packet_bytes d), cn_closed := True\<rparr>)"
| step_done: "conn_step opts c (c\<lparr>cn_closed := True\<rparr>)"

inductive_cases conn_stepE: "conn_step opts c c'"
inductive_cases take_packetE: "take_packet c d c'"

section \<open>The writers\<close>

text \<open>
  A writer knows the message types it may send, and which of them have priority; requests for proofs and
  signatures, and their answers, do. \<open>ms_accepted\<close> are all messages its callers have handed over.
\<close>

type_synonym priorities = "(u16 \<times> bool) list"

definition NewRemoteRequestWriter_priorities :: priorities where
  "NewRemoteRequestWriter_priorities =
     [(MsgTypeRequestQualities, False), (MsgTypeRequestProof, True), (MsgTypeRequestSignature, True)]"

definition NewRemoteReportWriter_priorities :: priorities where
  "NewRemoteReportWriter_priorities =
     [(MsgTypeReportQualities, False), (MsgTypeReportProof, True), (MsgTypeReportSignature, True)]"

record ('u, 'g1, 'g2) sender =
  ms_conn :: conn
  ms_queue :: "('u, 'g1, 'g2) message list"
  ms_accepted :: "('u, 'g1, 'g2) message list"
  ms_stopped :: bool

definition NewMessageSender :: "('u, 'g1, 'g2) sender" where
  "NewMessageSender = \<lparr>ms_conn = newConn, ms_queue = [], ms_accepted = [], ms_stopped = False\<rparr>"

definition SafeSendChannel :: "('u, 'g1, 'g2) message \<Rightarrow> ('u, 'g1, 'g2) sender \<Rightarrow> ('u, 'g1, 'g2) sender send_result" where
  "SafeSendChannel m s =
     (if ms_stopped s then SendErr ErrClosedPipe
      else if length (ms_queue s) < 10 then Sent (s\<lparr>ms_queue := ms_queue s @ [m], ms_accepted := ms_accepted s @ [m]\<rparr>)
      else SendBlocked)"

definition sendRemoteMessage ::
  "('u, 'g1, 'g2) frac_lib \<Rightarrow> options \<Rightarrow> ('u, 'g1, 'g2) message \<Rightarrow> bool \<Rightarrow> conn \<Rightarrow> proto_error + conn send_result" where
  "sendRemoteMessage L opts m priority c =
     bind_sum (EncodeMessage L m) (\<lambda>d. Inr (checkSend opts priority d c))"

text \<open>
  One round of the sender's \<open>messageProcessor\<close>: the next state, or None when the round waits or the program
  panics. After an error the message is lost and the sender is asked to stop.
\<close>

definition sender_messageProcessor ::
  "('u, 'g1, 'g2) frac_lib \<Rightarrow> options \<Rightarrow> priorities \<Rightarrow> ('u, 'g1, 'g2) sender \<Rightarrow> ('u, 'g1, 'g2) sender option" where
  "sender_messageProcessor L opts prs s =
     (if ms_stopped s then None
      else case ms_queue s of [] \<Rightarrow> None
      | m # ms \<Rightarrow>
        (let s1 = s\<lparr>ms_queue := ms\<rparr> in
         case map_of prs (MsgType m) of
           None \<Rightarrow> Some s1
         | Some priority \<Rightarrow>
           (case sendRemoteMessage L opts m priority (ms_conn s) of
              Inl err \<Rightarrow> if err = ProtoPanicNil then None else Some s1
            | Inr (Sent c) \<Rightarrow> Some (s1\<lparr>ms_conn := c\<rparr>)
            | Inr (SendErr err) \<Rightarrow> Some s1
            | Inr SendBlocked \<Rightarrow> None)))"

inductive sender_step ::
  "('u, 'g1, 'g2) frac_lib \<Rightarrow> options \<Rightarrow> priorities \<Rightarrow> ('u, 'g1, 'g2) sender \<Rightarrow> ('u, 'g1, 'g2) sender \<Rightarrow> bool"
  for L opts prs where
  snd_write: "SafeSendChannel m s = Sent s' \<Longrightarrow> sender_step L opts prs s s'"
| snd_process: "sender_messageProcessor L opts prs s = Some s' \<Longrightarrow> sender_step L opts prs s s'"
| snd_conn: "conn_step opts (ms_conn s) c \<Longrightarrow> sender_step L opts prs s (s\<lparr>ms_conn := c\<rparr>)"
| snd_stop: "sender_step L opts prs s (s\<lparr>ms_stopped := True\<rparr>)"

inductive sender_reach ::
  "('u, 'g1, 'g2) frac_lib \<Rightarrow> options \<Rightarrow> priorities \<Rightarrow> ('u, 'g1, 'g2) sender \<Rightarrow> bool"
  for L opts prs where
  reach_new: "sender_reach L opts prs NewMessageSender"
| reach_step: "sender_reach L opts prs s \<Longrightarrow> sender_step L opts prs s s' \<Longrightarrow> sender_reach L opts prs s'"

inductive_cases sender_stepE: "sender_step L opts prs s s'"

section \<open>The receiving side\<close>

text \<open>
  \<open>receiveRoutine\<close> on the bytes that have arrived: the packets it delivers (a control packet is only
  noted by the keepalive) and why it stops; a partial packet at the end is still being read.
\<close>

function receiveRoutine :: "options \<Rightarrow> bytes \<Rightarrow> bytes list \<times> conn_error" where
  "receiveRoutine opts input =
     (if length input < 4 then ([], RecvEOF)
      else
        let sz = bytesToMsgSize (take 4 input); rest = drop 4 input in
        if sz = 0 then receiveRoutine opts rest
        else if sz > maxRecvMsgSize opts then ([], ErrRecvMsgTooLarge)
        else if length rest < unat sz then ([], RecvEOF)
        else let (ds, err) = receiveRoutine opts (drop (unat sz) rest) in (take (unat sz) rest # ds, err))"
  by pat_completeness auto
termination
  by (relation "measure (\<lambda>(opts, input). length input)") auto

declare receiveRoutine.simps [simp del]

text \<open>
  \<open>messageProcessor\<close> of a reader: it stops at the first packet that does not decode, and drops messages
  it does not expect.
\<close>

fun receiver_messageProcessor ::
  "('u, 'g1, 'g2) frac_lib \<Rightarrow> priorities \<Rightarrow> bytes list \<Rightarrow> ('u, 'g1, 'g2) message list \<times> proto_error option" where
  "receiver_messageProcessor L prs [] = ([], None)"
| "receiver_messageProcessor L prs (d # ds) =
     (case DecodeMessage L d of Inl err \<Rightarrow> ([], Some err)
      | Inr m \<Rightarrow>
        (let (ms, err) = receiver_messageProcessor L prs ds in
         (if map_of prs (MsgType m) \<noteq> None then m # ms else ms, err)))"

definition received ::
  "('u, 'g1, 'g2) frac_lib \<Rightarrow> options \<Rightarrow> priorities \<Rightarrow> bytes \<Rightarrow> ('u, 'g1, 'g2) message list \<times> proto_error option" where
  "received L opts prs input = receiver_messageProcessor L prs (fst (receiveRoutine opts input))"

section \<open>Packets are delivered as sent\<close>

lemma msg_size_bytes:
  "length (msgSizeToBytes w) = 4" "bytesToMsgSize (msgSizeToBytes w) = w"
  using be_Uint32_PutUint32 [of w "[]"] by (simp_all add: bytesToMsgSize_def msgSizeToBytes_def be32.enc_width)

definition deliverable :: "options \<Rightarrow> bytes \<Rightarrow> bool" where
  "deliverable opts d \<longleftrightarrow> length d \<le> unat (maxRecvMsgSize opts)"

lemma deliverableD:
  assumes "deliverable opts d"
  shows "unat (word_of_nat (length d) :: u32) = length d" "\<not> maxRecvMsgSize opts < word_of_nat (length d)"
    "(word_of_nat (length d) :: u32) = 0 \<longleftrightarrow> d = []"
proof -
  have "length d < 2 ^ LENGTH(32)"
    using assms unat_lt2p [of "maxRecvMsgSize opts"] by (simp add: deliverable_def)
  then show u: "unat (word_of_nat (length d) :: u32) = length d" by (intro unat_of_nat_bound) simp
  show "\<not> maxRecvMsgSize opts < word_of_nat (length d)"
    using assms u by (simp add: deliverable_def word_less_nat_alt)
  show "(word_of_nat (length d) :: u32) = 0 \<longleftrightarrow> d = []"
    by (simp only: unat_eq_zero [symmetric, of "word_of_nat (length d) :: u32"] u length_0_conv)
qed

lemma packet_bytes_simp:
  "deliverable opts d \<Longrightarrow> packet_bytes d = msgSizeToBytes (word_of_nat (length d)) @ d"
  by (simp add: packet_bytes_def Let_def deliverableD(3))

lemma packet_bytes_receive:
  assumes "deliverable opts d"
  shows "fst (receiveRoutine opts (packet_bytes d @ r)) =
    (if d = [] then fst (receiveRoutine opts r) else d # fst (receiveRoutine opts r))"
  using assms
  by (subst receiveRoutine.simps)
    (simp add: packet_bytes_simp [OF assms] msg_size_bytes deliverableD [OF assms] Let_def case_prod_unfold)

text \<open>A cut packet delivers nothing.\<close>

lemma packet_prefix_receive:
  assumes "deliverable opts d" "k < length (packet_bytes d)"
  shows "fst (receiveRoutine opts (take k (packet_bytes d))) = []"
proof (cases "k < 4")
  case True
  then show ?thesis by (subst receiveRoutine.simps) simp
next
  case False
  have "k - 4 < length d" "d \<noteq> []"
    using False assms(2) by (auto simp: packet_bytes_simp [OF assms(1)] msg_size_bytes)
  with False show ?thesis
    by (subst receiveRoutine.simps)
      (simp add: packet_bytes_simp [OF assms(1)] msg_size_bytes deliverableD [OF assms(1)] Let_def)
qed

abbreviation payloads :: "bytes list \<Rightarrow> bytes list" where
  "payloads ds \<equiv> filter (\<lambda>d. d \<noteq> []) ds"

lemma receive_nil [simp]: "fst (receiveRoutine opts []) = []"
  by (subst receiveRoutine.simps) simp

text \<open>Whatever part of a stream of packets has arrived, a part of the packets is delivered.\<close>

lemma stream_prefix_receive:
  assumes "list_all (deliverable opts) ds"
    "\<And>k. fst (receiveRoutine opts (take k r)) = []"
  shows "\<exists>j. fst (receiveRoutine opts (take k (concat (map packet_bytes ds) @ r))) = payloads (take j ds) \<and>
    (length (concat (map packet_bytes ds)) \<le> k \<longrightarrow> length ds \<le> j)"
  using assms(1)
proof (induction ds arbitrary: k)
  case Nil
  then show ?case using assms(2) by simp
next
  case (Cons d ds)
  have d: "deliverable opts d" using Cons.prems by simp
  let ?r = "concat (map packet_bytes ds) @ r"
  show ?case
  proof (cases "k < length (packet_bytes d)")
    case True
    with packet_prefix_receive [OF d True] show ?thesis by (intro exI [of _ 0]) simp
  next
    case False
    obtain j where j: "fst (receiveRoutine opts (take (k - length (packet_bytes d)) ?r)) = payloads (take j ds)"
      "length (concat (map packet_bytes ds)) \<le> k - length (packet_bytes d) \<longrightarrow> length ds \<le> j"
      using Cons.IH [of "k - length (packet_bytes d)"] Cons.prems by auto
    have "take k (concat (map packet_bytes (d # ds)) @ r) = packet_bytes d @ take (k - length (packet_bytes d)) ?r"
      using False by simp
    with j packet_bytes_receive [OF d] False show ?thesis by (intro exI [of _ "Suc j"]) auto
  qed
qed

section \<open>Messages arrive as they were written\<close>

text \<open>The messages in a list of packets, leaving out what does not decode.\<close>

definition decs :: "('u, 'g1, 'g2) frac_lib \<Rightarrow> bytes list \<Rightarrow> ('u, 'g1, 'g2) message list" where
  "decs L ds = concat (map (\<lambda>d. case DecodeMessage L d of Inl err \<Rightarrow> [] | Inr m \<Rightarrow> [m]) ds)"

lemma decs_simps [simp]:
  "decs L [] = []" "decs L (ds @ es) = decs L ds @ decs L es"
  "decs L (d # ds) = (case DecodeMessage L d of Inl err \<Rightarrow> decs L ds | Inr m \<Rightarrow> m # decs L ds)"
  by (simp_all add: decs_def split: sum.split)

lemma decode_keepalive [simp]: "DecodeMessage L [] = Inl ErrMsgTypeBytes"
  by (simp add: DecodeMessage_def msgTypeFromBytes_def msgTypeByteSize_def)

abbreviation with_priority :: "priorities \<Rightarrow> bool \<Rightarrow> ('u, 'g1, 'g2) message \<Rightarrow> bool" where
  "with_priority prs b m \<equiv> map_of prs (MsgType m) = Some b"

text \<open>A packet on its way is a keepalive or a message with the priority of its queue that the receiver can take.\<close>

definition packet_ok ::
  "('u, 'g1, 'g2) frac_lib \<Rightarrow> options \<Rightarrow> priorities \<Rightarrow> bool set \<Rightarrow> bytes \<Rightarrow> bool" where
  "packet_ok L ropts prs B d \<longleftrightarrow> deliverable ropts d \<and>
     (d \<noteq> [] \<longrightarrow> (\<exists>m b. DecodeMessage L d = Inr m \<and> b \<in> B \<and> with_priority prs b m))"

definition fits :: "('u, 'g1, 'g2) frac_lib \<Rightarrow> options \<Rightarrow> options \<Rightarrow> ('u, 'g1, 'g2) message \<Rightarrow> bool" where
  "fits L opts ropts m \<longleftrightarrow> message_ok m \<and>
     (case EncodeMessage L m of Inl err \<Rightarrow> False
      | Inr d \<Rightarrow> length d \<le> unat (maxSendMsgSize opts) \<and> deliverable ropts d)"

definition queue_of :: "bool \<Rightarrow> conn \<Rightarrow> bytes list" where
  "queue_of b c = (if b then cn_prio c else cn_norm c)"

lemma queue_of_update [simp]:
  "queue_of b (c\<lparr>cn_out := x\<rparr>) = queue_of b c" "queue_of b (c\<lparr>cn_sent := y\<rparr>) = queue_of b c"
  "queue_of b (c\<lparr>cn_pc := p\<rparr>) = queue_of b c" "queue_of b (c\<lparr>cn_closed := z\<rparr>) = queue_of b c"
  by (simp_all add: queue_of_def)

text \<open>
  The invariant of a writer: what it has written is its packets, and after an error a cut packet. Of each
  priority the messages sent, waiting in the connection and waiting in the writer are all that were handed
  over; once the connection is closed those sent are a part from the beginning.
\<close>

definition sender_inv ::
  "('u, 'g1, 'g2) frac_lib \<Rightarrow> options \<Rightarrow> priorities \<Rightarrow> ('u, 'g1, 'g2) sender \<Rightarrow> bool" where
  "sender_inv L ropts prs s \<longleftrightarrow>
     (let c = ms_conn s in
      list_all (packet_ok L ropts prs UNIV) (cn_sent c) \<and>
      (\<forall>b. list_all (packet_ok L ropts prs {b}) (queue_of b c)) \<and>
      (\<exists>r. cn_out c = concat (map packet_bytes (cn_sent c)) @ r \<and> (\<forall>k. fst (receiveRoutine ropts (take k r)) = []) \<and>
           (\<not> cn_closed c \<longrightarrow> r = [])) \<and>
      (\<forall>b. if cn_closed c
           then prefix (filter (with_priority prs b) (decs L (cn_sent c))) (filter (with_priority prs b) (ms_accepted s))
           else filter (with_priority prs b) (decs L (cn_sent c)) @ decs L (queue_of b c) @
                  filter (with_priority prs b) (ms_queue s) = filter (with_priority prs b) (ms_accepted s)))"

lemma sender_inv_new: "sender_inv L ropts prs NewMessageSender"
  by (simp add: sender_inv_def NewMessageSender_def newConn_def queue_of_def)

lemma sender_inv_accept:
  "sender_inv L ropts prs s \<Longrightarrow> SafeSendChannel m s = Sent s' \<Longrightarrow> sender_inv L ropts prs s'"
  by (auto simp: SafeSendChannel_def sender_inv_def Let_def split: if_splits)

lemma sender_inv_open:
  "sender_inv L ropts prs s \<Longrightarrow> \<not> cn_closed (ms_conn s) \<Longrightarrow>
     filter (with_priority prs b) (decs L (cn_sent (ms_conn s))) @ decs L (queue_of b (ms_conn s)) @
       filter (with_priority prs b) (ms_queue s) = filter (with_priority prs b) (ms_accepted s)"
  by (simp add: sender_inv_def Let_def)

lemma sender_inv_sent:
  "sender_inv L ropts prs s \<Longrightarrow>
     prefix (filter (with_priority prs b) (decs L (cn_sent (ms_conn s)))) (filter (with_priority prs b) (ms_accepted s))"
  by (cases "cn_closed (ms_conn s)") (simp add: sender_inv_def Let_def, metis sender_inv_open prefixI)

lemma sender_inv_close:
  assumes "sender_inv L ropts prs s" "cn_sent c = cn_sent (ms_conn s)" "cn_closed c"
    "\<And>b. set (queue_of b c) \<subseteq> set (queue_of b (ms_conn s))"
    "\<not> cn_closed (ms_conn s) \<Longrightarrow> cn_out c = cn_out (ms_conn s) @ r \<and> (\<forall>k. fst (receiveRoutine ropts (take k r)) = [])"
    "cn_closed (ms_conn s) \<Longrightarrow> cn_out c = cn_out (ms_conn s)"
  shows "sender_inv L ropts prs (s\<lparr>ms_conn := c\<rparr>)"
proof -
  note sender_inv_sent [OF assms(1)]
  moreover have "\<exists>r. cn_out c = concat (map packet_bytes (cn_sent c)) @ r \<and> (\<forall>k. fst (receiveRoutine ropts (take k r)) = [])"
    using assms by (cases "cn_closed (ms_conn s)") (auto simp: sender_inv_def Let_def)
  moreover have "list_all (packet_ok L ropts prs {b}) (queue_of b c)" for b
    using assms(1) assms(4) [of b] by (auto simp: sender_inv_def Let_def list_all_iff)
  ultimately show ?thesis using assms(1-3) by (simp add: sender_inv_def Let_def)
qed

lemma packet_ok_dec:
  assumes "packet_ok L ropts prs {b} d"
  shows "filter (with_priority prs b) (decs L [d]) = decs L [d]"
    "b' \<noteq> b \<Longrightarrow> filter (with_priority prs b') (decs L [d]) = []" "packet_ok L ropts prs UNIV d"
  using assms by (cases "d = []"; auto simp: packet_ok_def)+

lemma sender_inv_write:
  assumes "sender_inv L ropts prs s" "\<not> cn_closed (ms_conn s)" "take_packet (ms_conn s) d c1"
  shows "sender_inv L ropts prs
    (s\<lparr>ms_conn := c1\<lparr>cn_out := cn_out (ms_conn s) @ packet_bytes d, cn_sent := cn_sent (ms_conn s) @ [d], cn_pc := SOuter\<rparr>\<rparr>)"
proof -
  obtain b where b: "queue_of b (ms_conn s) = d # queue_of b c1" "queue_of (\<not> b) c1 = queue_of (\<not> b) (ms_conn s)"
    "cn_closed c1 = cn_closed (ms_conn s)"
    using assms(3)
  proof (cases rule: take_packet.cases)
    case (take_prio ds)
    then show ?thesis by (intro that [of True]) (simp_all add: queue_of_def)
  next
    case (take_norm ds)
    then show ?thesis by (intro that [of False]) (simp_all add: queue_of_def)
  qed
  have q: "list_all (packet_ok L ropts prs {b'}) (queue_of b' (ms_conn s))" for b'
    using assms(1) by (simp add: sender_inv_def Let_def)
  have ok: "packet_ok L ropts prs {b} d" using q [of b] b(1) by simp
  have other: "b' = (\<not> b)" if "b' \<noteq> b" for b' using that by (cases b) auto
  have qs: "list_all (packet_ok L ropts prs {b'}) (queue_of b' c1) \<and>
      filter (with_priority prs b') (decs L [d]) @ decs L (queue_of b' c1) = decs L (queue_of b' (ms_conn s))" for b'
  proof (cases "b' = b")
    case True
    have "decs L (queue_of b (ms_conn s)) = decs L [d] @ decs L (queue_of b c1)"
      using decs_simps(2) [of L "[d]" "queue_of b c1"] b(1) by (simp del: decs_simps)
    then show ?thesis using True q [of b] b(1) packet_ok_dec(1) [OF ok] by (simp del: decs_simps)
  next
    case False
    then show ?thesis using q [of b'] b(2) packet_ok_dec(2) [OF ok False] other [OF False] by (simp del: decs_simps)
  qed
  then have "filter (with_priority prs b') (decs L (cn_sent (ms_conn s))) @ filter (with_priority prs b') (decs L [d]) @
      decs L (queue_of b' c1) @ filter (with_priority prs b') (ms_queue s) = filter (with_priority prs b') (ms_accepted s)" for b'
    using sender_inv_open [OF assms(1,2), of b'] by (metis append_assoc)
  then show ?thesis
    using assms(1,2) b(3) qs packet_ok_dec(3) [OF ok]
    by (simp add: sender_inv_def Let_def del: decs_simps(3))
qed

lemma sender_inv_process:
  assumes "frac_lib_ok L" "sender_inv L ropts prs s" "\<forall>m\<in>set (ms_accepted s). fits L opts ropts m"
    "sender_messageProcessor L opts prs s = Some s'"
  shows "sender_inv L ropts prs s'"
proof (cases "cn_closed (ms_conn s)")
  case True
  then show ?thesis
    using assms(2,4)
    by (auto simp: sender_messageProcessor_def sender_inv_def Let_def sendRemoteMessage_def checkSend_def safeSendBytes_def
        split: if_splits list.splits option.splits sum.splits send_result.splits)
next
  case False
  obtain m ms where m: "ms_queue s = m # ms" using assms(4) by (auto simp: sender_messageProcessor_def split: if_splits list.splits)
  show ?thesis
  proof (cases "map_of prs (MsgType m)")
    case None
    with assms(2,4) m show ?thesis by (auto simp: sender_messageProcessor_def sender_inv_def Let_def split: if_splits)
  next
    case (Some b)
    then have "m \<in> set (filter (with_priority prs b) (ms_accepted s))"
      using m by (simp flip: sender_inv_open [OF assms(2) False])
    then have "fits L opts ropts m" using assms(3) by simp
    then obtain d where d: "EncodeMessage L m = Inr d" "DecodeMessage L d = Inr m" "deliverable ropts d"
      "length d \<le> unat (maxSendMsgSize opts)"
      using message_roundtrip [OF assms(1), of m] by (auto simp: fits_def)
    have "checkSend opts b d (ms_conn s) = safeSendBytes opts b d (ms_conn s)"
      using d(4) deliverableD(1) [OF d(3)] by (simp add: checkSend_def word_less_nat_alt)
    then obtain c where c: "safeSendBytes opts b d (ms_conn s) = Sent c" "s' = s\<lparr>ms_queue := ms, ms_conn := c\<rparr>"
      using assms(4) m Some d(1) False
      by (auto simp: sender_messageProcessor_def sendRemoteMessage_def safeSendBytes_def Let_def
          split: if_splits send_result.splits)
    have q: "queue_of b' c = queue_of b' (ms_conn s) @ (if b' = b then [d] else [])" for b'
      using c(1) by (auto simp: safeSendBytes_def queue_of_def split: if_splits)
    have u: "cn_sent c = cn_sent (ms_conn s)" "cn_out c = cn_out (ms_conn s)" "cn_closed c = cn_closed (ms_conn s)"
      using c(1) by (auto simp: safeSendBytes_def split: if_splits)
    have ok: "packet_ok L ropts prs {b} d" using d Some by (auto simp: packet_ok_def)
    have "filter (with_priority prs b') (decs L (cn_sent c)) @ decs L (queue_of b' c) @ filter (with_priority prs b') ms =
        filter (with_priority prs b') (ms_accepted s)" for b'
      using sender_inv_open [OF assms(2) False, of b'] m Some d(2) by (auto simp: q u)
    then show ?thesis using assms(2) False ok c(2) by (simp add: sender_inv_def Let_def q u)
  qed
qed

lemma sender_inv_conn:
  assumes "sender_inv L ropts prs s" "conn_step opts (ms_conn s) c"
  shows "sender_inv L ropts prs (s\<lparr>ms_conn := c\<rparr>)"
  using assms(2)
proof (cases rule: conn_step.cases)
  case step_keepalive
  show ?thesis
  proof (cases "cn_closed (ms_conn s)")
    case True
    with step_keepalive show ?thesis
      by (intro sender_inv_close [OF assms(1)]) (auto simp: sendKeepalivePacket_def safeSendBytes_def queue_of_def)
  next
    case False
    then have "c = (ms_conn s)\<lparr>cn_prio := cn_prio (ms_conn s) @ [[]]\<rparr>"
      using step_keepalive by (auto simp: sendKeepalivePacket_def safeSendBytes_def split: if_splits)
    then have "queue_of b c = queue_of b (ms_conn s) @ (if b then [[]] else [])" "cn_sent c = cn_sent (ms_conn s)"
      "cn_out c = cn_out (ms_conn s)" "cn_closed c = cn_closed (ms_conn s)" for b
      by (simp_all add: queue_of_def)
    with assms(1) False show ?thesis by (simp add: sender_inv_def Let_def packet_ok_def deliverable_def)
  qed
next
  case step_default
  with assms(1) show ?thesis by (simp add: sender_inv_def Let_def)
next
  case (step_write d c1)
  with sender_inv_write [OF assms(1)] show ?thesis by simp
next
  case (step_write_error d c1 k)
  have t: "cn_sent c1 = cn_sent (ms_conn s)" "set (queue_of b c1) \<subseteq> set (queue_of b (ms_conn s))"
    "d \<in> set (queue_of True (ms_conn s)) \<union> set (queue_of False (ms_conn s))" for b
    using step_write_error(3) by (cases b; force elim: take_packetE simp: queue_of_def)+
  moreover have "list_all (packet_ok L ropts prs {b}) (queue_of b (ms_conn s))" for b
    using assms(1) by (simp add: sender_inv_def Let_def)
  ultimately have "deliverable ropts d" by (auto simp: packet_ok_def list_all_iff)
  then have "fst (receiveRoutine ropts (take j (take k (packet_bytes d)))) = []" for j
    using packet_prefix_receive [of ropts d "min j k"] step_write_error(4) by (simp add: min_def)
  then show ?thesis
    using step_write_error t(1,2) by (intro sender_inv_close [OF assms(1), where r = "take k (packet_bytes d)"]) simp_all
next
  case step_done
  then show ?thesis by (intro sender_inv_close [OF assms(1), where r = "[]"]) simp_all
qed

lemma sender_step_accepted:
  "sender_step L opts prs s s' \<Longrightarrow> set (ms_accepted s) \<subseteq> set (ms_accepted s')"
  by (auto elim!: sender_stepE simp: SafeSendChannel_def sender_messageProcessor_def Let_def
      split: if_splits list.splits option.splits sum.splits send_result.splits)

lemma sender_reach_inv:
  assumes "frac_lib_ok L" "sender_reach L opts prs s" "\<forall>m\<in>set (ms_accepted s). fits L opts ropts m"
  shows "sender_inv L ropts prs s"
  using assms(2,3)
proof (induction rule: sender_reach.induct)
  case (reach_step s s')
  then have f: "\<forall>m\<in>set (ms_accepted s). fits L opts ropts m" using sender_step_accepted by blast
  with reach_step have i: "sender_inv L ropts prs s" by blast
  from reach_step.hyps(2) show ?case
  proof (cases rule: sender_step.cases)
    case snd_stop
    with i show ?thesis by (simp add: sender_inv_def Let_def)
  qed (use i f assms(1) sender_inv_accept sender_inv_process sender_inv_conn in blast)+
qed (rule sender_inv_new)

lemma receiver_decs:
  assumes "list_all (packet_ok L ropts prs UNIV) ds"
  shows "receiver_messageProcessor L prs (payloads ds) = (decs L ds, None)"
  using assms by (induction ds) (auto simp: packet_ok_def)

text \<open>
  Whatever bytes of a writer have arrived: the reader delivers, of each priority, the messages handed over
  from the first on, and all of them when everything has arrived and nothing waits.
\<close>

lemma messages_delivered:
  assumes "frac_lib_ok L" "sender_reach L opts prs s" "\<forall>m\<in>set (ms_accepted s). fits L opts ropts m"
  shows "\<exists>R. received L ropts prs (take k (cn_out (ms_conn s))) = (R, None) \<and>
    (\<forall>b. prefix (filter (with_priority prs b) R) (filter (with_priority prs b) (ms_accepted s))) \<and>
    (\<not> cn_closed (ms_conn s) \<and> ms_queue s = [] \<and> cn_prio (ms_conn s) = [] \<and> cn_norm (ms_conn s) = [] \<and>
       length (cn_out (ms_conn s)) \<le> k \<longrightarrow>
       (\<forall>b. filter (with_priority prs b) R = filter (with_priority prs b) (ms_accepted s)))"
proof -
  note i = sender_reach_inv [OF assms]
  let ?c = "ms_conn s"
  obtain r where r: "cn_out ?c = concat (map packet_bytes (cn_sent ?c)) @ r" "\<And>k. fst (receiveRoutine ropts (take k r)) = []"
    using i by (auto simp: sender_inv_def Let_def)
  have ok: "list_all (packet_ok L ropts prs UNIV) (cn_sent ?c)" using i by (simp add: sender_inv_def Let_def)
  then have "list_all (deliverable ropts) (cn_sent ?c)" by (auto simp: packet_ok_def list_all_iff)
  from stream_prefix_receive [OF this r(2), of k] obtain j where
    j: "fst (receiveRoutine ropts (take k (cn_out ?c))) = payloads (take j (cn_sent ?c))"
    "length (concat (map packet_bytes (cn_sent ?c))) \<le> k \<longrightarrow> length (cn_sent ?c) \<le> j"
    by (auto simp: r(1))
  have "list_all (packet_ok L ropts prs UNIV) (take j (cn_sent ?c))"
    using ok by (auto simp: list_all_iff dest: in_set_takeD)
  then have R: "received L ropts prs (take k (cn_out ?c)) = (decs L (take j (cn_sent ?c)), None)"
    by (simp add: received_def j(1) receiver_decs)
  have "prefix (decs L (take j (cn_sent ?c))) (decs L (cn_sent ?c))"
    by (metis append_take_drop_id decs_simps(2) prefixI)
  then have "prefix (filter (with_priority prs b) (decs L (take j (cn_sent ?c)))) (filter (with_priority prs b) (ms_accepted s))" for b
    using sender_inv_sent [OF i, of b] filter_mono_prefix prefix_order.trans by blast
  moreover have "filter (with_priority prs b) (decs L (take j (cn_sent ?c))) = filter (with_priority prs b) (ms_accepted s)"
    if "\<not> cn_closed ?c \<and> ms_queue s = [] \<and> cn_prio ?c = [] \<and> cn_norm ?c = [] \<and> length (cn_out ?c) \<le> k" for b
  proof -
    have "length (cn_sent ?c) \<le> j" using that j(2) by (simp add: r(1))
    then show ?thesis using that sender_inv_open [OF i, of b] by (cases b) (simp_all add: queue_of_def)
  qed
  ultimately show ?thesis using R by (intro exI [of _ "decs L (take j (cn_sent ?c))"]) blast
qed

end
