(* ===== verification/Fractal_Collector.thy ===== *)
theory Fractal_Collector
  imports Fractal_Protocol
begin

text \<open>
  The collector of \<open>fractal/collector.go\<close> that holds plots itself: it answers a request for qualities by
  trying the slots after the parent's one by one as time passes, and requests for proofs and signatures from
  its keeper. The chain's arithmetic and the keeper are parameters.
\<close>

section \<open>Parameters\<close>

record ('q, 'u, 'g1, 'g2) collector_lib =
  HashValChia :: "bytes \<Rightarrow> u64 \<Rightarrow> u64 \<Rightarrow> bytes"
  Q1FactorChia :: "byte \<Rightarrow> 'q"
  GetQuality :: "'q \<Rightarrow> bytes \<Rightarrow> int"
  CalcNextRequiredDifficulty :: "int \<Rightarrow> int \<Rightarrow> int \<Rightarrow> int option"
  poc_PoCSlot :: u64
  sk_GetQualities :: "bytes \<Rightarrow> string + 'g1 workspace_quality list"
  sk_GetProof :: "string \<Rightarrow> bytes \<Rightarrow> u32 \<Rightarrow> string + 'g1 workspace_proof2"
  sk_SignHash :: "string \<Rightarrow> bytes \<Rightarrow> string + 'g2"

definition fractal_allowAhead :: u64 where "fractal_allowAhead = 10"

section \<open>Qualities\<close>

definition getValidChiaQualities :: "'g1 workspace_quality list \<Rightarrow> 'g1 workspace_quality list" where
  "getValidChiaQualities chiaQualities = filter (\<lambda>q. wsq_Error q = None) chiaQualities"

definition getMASSQualities ::
  "('q, 'u, 'g1, 'g2) collector_lib \<Rightarrow> 'g1 workspace_quality list \<Rightarrow> u64 \<Rightarrow> u64 \<Rightarrow> int list" where
  "getMASSQualities C chiaQualities slot height =
     map (\<lambda>q. GetQuality C (Q1FactorChia C (wsq_KSize q)) (HashValChia C (wsq_Quality q) slot height)) chiaQualities"

text \<open>
  \<open>calcTarget\<close> of \<open>onRequestQualities\<close>: the target at a slot, from the parent's time and target. Its error
  is dropped, and a nil target with it is dereferenced by the comparison.
\<close>

definition calcTarget :: "('q, 'u, 'g1, 'g2) collector_lib \<Rightarrow> 'u request_qualities \<Rightarrow> u64 \<Rightarrow> int option" where
  "calcTarget C req slot =
     CalcNextRequiredDifficulty C (sint (rq_ParentSlot req * poc_PoCSlot C)) (rq_ParentTarget req)
       (sint (slot * poc_PoCSlot C))"

text \<open>The inner loop of \<open>trySlots\<close>, which keeps the chia quality at the index of each quality over the target.\<close>

definition satisfiedQualities ::
  "('q, 'u, 'g1, 'g2) collector_lib \<Rightarrow> 'u request_qualities \<Rightarrow> 'g1 workspace_quality list \<Rightarrow> u64
     \<Rightarrow> 'g1 workspace_quality list option" where
  "satisfiedQualities C req chiaQualities slot =
     (let qualities = getMASSQualities C chiaQualities slot (rq_Height req) in
      if qualities = [] then Some []
      else case calcTarget C req slot of None \<Rightarrow> None
      | Some currentTarget \<Rightarrow>
        Some (concat (map (\<lambda>(j, q). if q > currentTarget then [chiaQualities ! j] else [])
          (List.enumerate 0 qualities))))"

definition reportQualities ::
  "'u request_qualities \<Rightarrow> 'g1 workspace_quality list \<Rightarrow> u64 \<Rightarrow> ('u, 'g1, 'g2) message list" where
  "reportQualities req wsqList slot =
     (if wsqList = [] then []
      else [ReportQualities \<lparr>rs_TaskID = rq_TaskID req,
              rs_Qualities = map (\<lambda>q. workspace_quality.extend q (quality.fields slot)) wsqList\<rparr>])"

section \<open>Trying the slots\<close>

text \<open>
  The reports made so far, and how the search stands: it waits for the next tick with a next slot, its
  context is done, or the program has panicked.
\<close>

datatype ('u, 'g1, 'g2) search =
    Searching u64 "('u, 'g1, 'g2) message list"
  | SearchDone "('u, 'g1, 'g2) message list"
  | SearchPanic

partial_function (option) collector_slots ::
  "('q, 'u, 'g1, 'g2) collector_lib \<Rightarrow> 'u request_qualities \<Rightarrow> 'g1 workspace_quality list \<Rightarrow> (u64 \<Rightarrow> bool)
     \<Rightarrow> u64 \<Rightarrow> u64 \<Rightarrow> u64 \<Rightarrow> ('u, 'g1, 'g2) message list \<Rightarrow> ('u, 'g1, 'g2) search option" where
  "collector_slots C req qs doneCh limit i workSlot out =
     (if \<not> i \<le> limit then Some (Searching workSlot out)
      else if doneCh i then Some (SearchDone out)
      else case satisfiedQualities C req qs workSlot of
        None \<Rightarrow> Some SearchPanic
      | Some sat \<Rightarrow>
        collector_slots C req qs doneCh limit (i + 1) (workSlot + 1) (out @ reportQualities req sat workSlot))"

text \<open>A tick comes with the time and with what the polls of the context during its loop find.\<close>

datatype collector_event = CDone | CTick int "u64 \<Rightarrow> bool"

definition fractal_nowSlot :: "('q, 'u, 'g1, 'g2) collector_lib \<Rightarrow> int \<Rightarrow> u64" where
  "fractal_nowSlot C now = word_of_int now div poc_PoCSlot C"

fun trySlots ::
  "('q, 'u, 'g1, 'g2) collector_lib \<Rightarrow> 'u request_qualities \<Rightarrow> 'g1 workspace_quality list \<Rightarrow> collector_event list
     \<Rightarrow> u64 \<Rightarrow> ('u, 'g1, 'g2) message list \<Rightarrow> ('u, 'g1, 'g2) search option" where
  "trySlots C req qs [] workSlot out = Some (Searching workSlot out)"
| "trySlots C req qs (CDone # es) workSlot out = Some (SearchDone out)"
| "trySlots C req qs (CTick now doneCh # es) workSlot out =
     (if workSlot > fractal_nowSlot C now + fractal_allowAhead then trySlots C req qs es workSlot out
      else case collector_slots C req qs doneCh (fractal_nowSlot C now + fractal_allowAhead) workSlot workSlot out of
        Some (Searching workSlot' out') \<Rightarrow> trySlots C req qs es workSlot' out'
      | r \<Rightarrow> r)"

definition onRequestQualities ::
  "('q, 'u, 'g1, 'g2) collector_lib \<Rightarrow> 'u request_qualities \<Rightarrow> collector_event list \<Rightarrow> ('u, 'g1, 'g2) search option" where
  "onRequestQualities C req events =
     (case sk_GetQualities C (rq_Challenge req) of
        Inl err \<Rightarrow> Some (SearchDone [])
      | Inr skChiaQualities \<Rightarrow>
        (let chiaQualities = getValidChiaQualities skChiaQualities in
         if chiaQualities = [] then Some (SearchDone [])
         else trySlots C req chiaQualities events (rq_ParentSlot req + 1) []))"

section \<open>Proofs and signatures\<close>

definition onRequestProof :: "('q, 'u, 'g1, 'g2) collector_lib \<Rightarrow> 'u request_proof \<Rightarrow> ('u, 'g1, 'g2) message list" where
  "onRequestProof C req =
     (case sk_GetProof C (rp_SpaceID req) (rp_Challenge req) (rp_Index req) of
        Inl err \<Rightarrow> []
      | Inr wsp \<Rightarrow> [ReportProof \<lparr>rr_TaskID = rp_TaskID req, rr_Proof = wsp\<rparr>])"

definition onRequestSignature ::
  "('q, 'u, 'g1, 'g2) collector_lib \<Rightarrow> 'u request_signature \<Rightarrow> ('u, 'g1, 'g2) message list" where
  "onRequestSignature C req =
     (case sk_SignHash C (sq_SpaceID req) (sq_Hash req) of
        Inl err \<Rightarrow> []
      | Inr sig \<Rightarrow> [ReportSignature \<lparr>ss_TaskID = sq_TaskID req, ss_SpaceID = sq_SpaceID req, ss_Hash = sq_Hash req,
                      ss_Signature = sig\<rparr>])"

section \<open>Dispatching requests\<close>

text \<open>
  \<open>requestProcessor\<close> starts one routine for each request it takes. Those for qualities have a context of
  their own, which the next one cancels.
\<close>

record ('u, 'g1, 'g2) local_collector =
  lc_id :: 'u
  lc_requestCh :: "('u, 'g1, 'g2) message list"
  lc_searches :: "('u request_qualities \<times> bool) list"
  lc_answers :: "('u, 'g1, 'g2) message list"
  lc_closed :: bool

definition NewLocalCollector :: "'u \<Rightarrow> ('u, 'g1, 'g2) local_collector" where
  "NewLocalCollector cid = \<lparr>lc_id = cid, lc_requestCh = [], lc_searches = [], lc_answers = [], lc_closed = False\<rparr>"

text \<open>Inl is the error of a closed channel; None means that the caller waits.\<close>

definition lc_safeSendChannel ::
  "('u, 'g1, 'g2) message \<Rightarrow> ('u, 'g1, 'g2) local_collector \<Rightarrow> (unit + ('u, 'g1, 'g2) local_collector) option" where
  "lc_safeSendChannel req lc =
     (if lc_closed lc then Some (Inl ())
      else if length (lc_requestCh lc) < 10 then Some (Inr (lc\<lparr>lc_requestCh := lc_requestCh lc @ [req]\<rparr>))
      else None)"

definition lc_requestProcessor ::
  "('q, 'u, 'g1, 'g2) collector_lib \<Rightarrow> ('u, 'g1, 'g2) local_collector \<Rightarrow> ('u, 'g1, 'g2) local_collector option" where
  "lc_requestProcessor C lc =
     (case lc_requestCh lc of [] \<Rightarrow> None
      | m # ms \<Rightarrow>
        (let lc1 = lc\<lparr>lc_requestCh := ms\<rparr> in
         case m of
           RequestQualities req \<Rightarrow>
             Some (lc1\<lparr>lc_searches := map (\<lambda>(r, _). (r, False)) (lc_searches lc) @ [(req, True)]\<rparr>)
         | RequestProof req \<Rightarrow> Some (lc1\<lparr>lc_answers := lc_answers lc @ onRequestProof C req\<rparr>)
         | RequestSignature req \<Rightarrow> Some (lc1\<lparr>lc_answers := lc_answers lc @ onRequestSignature C req\<rparr>)
         | _ \<Rightarrow> Some lc1))"

section \<open>Every slot is tried once, in order\<close>

text \<open>The report for one slot: the spaces whose quality is over the target.\<close>

definition slot_report ::
  "('q, 'u, 'g1, 'g2) collector_lib \<Rightarrow> 'u request_qualities \<Rightarrow> 'g1 workspace_quality list \<Rightarrow> u64
     \<Rightarrow> ('u, 'g1, 'g2) message list" where
  "slot_report C req qs slot =
     reportQualities req
       (filter (\<lambda>q. GetQuality C (Q1FactorChia C (wsq_KSize q)) (HashValChia C (wsq_Quality q) slot (rq_Height req)) >
          the (calcTarget C req slot)) qs) slot"

lemma concat_enumerate_filter:
  "concat (map (\<lambda>(j, y). if P y then [(ys @ xs) ! j] else []) (List.enumerate (length ys) (map f xs))) =
    filter (\<lambda>x. P (f x)) xs"
proof (induction xs arbitrary: ys)
  case (Cons x xs)
  from Cons.IH [of "ys @ [x]", unfolded append_assoc append_Cons append_Nil] show ?case by simp
qed simp

lemma satisfiedQualities_filter:
  assumes "calcTarget C req slot = Some t"
  shows "satisfiedQualities C req qs slot =
    Some (filter (\<lambda>q. GetQuality C (Q1FactorChia C (wsq_KSize q)) (HashValChia C (wsq_Quality q) slot (rq_Height req)) > t) qs)"
  using concat_enumerate_filter [where P = "\<lambda>y. t < y" and ys = "[]" and xs = qs, unfolded append_Nil list.size]
  by (simp add: satisfiedQualities_def Let_def getMASSQualities_def assms)

definition slot_range :: "u64 \<Rightarrow> nat \<Rightarrow> u64 list" where
  "slot_range a n = map word_of_nat [unat a ..< n]"

definition slot_reports ::
  "('q, 'u, 'g1, 'g2) collector_lib \<Rightarrow> 'u request_qualities \<Rightarrow> 'g1 workspace_quality list \<Rightarrow> u64 \<Rightarrow> nat
     \<Rightarrow> ('u, 'g1, 'g2) message list" where
  "slot_reports C req qs a n = concat (map (slot_report C req qs) (slot_range a n))"

lemma unat_plus_one: "w \<noteq> - 1 \<Longrightarrow> unat (w + 1) = Suc (unat w)" for w :: "'a::len word"
  using unatSuc [of w] by (simp add: add.commute eq_neg_iff_add_eq_0)

lemma slot_reports_Suc:
  "unat a \<le> unat w \<Longrightarrow> slot_reports C req qs a (Suc (unat w)) = slot_reports C req qs a (unat w) @ slot_report C req qs w"
  by (simp add: slot_reports_def slot_range_def)

text \<open>The loop of one tick ends, because the bound is never the greatest slot.\<close>

definition tick_result ::
  "('q, 'u, 'g1, 'g2) collector_lib \<Rightarrow> 'u request_qualities \<Rightarrow> 'g1 workspace_quality list \<Rightarrow> u64 \<Rightarrow> u64
     \<Rightarrow> (u64 \<Rightarrow> bool) \<Rightarrow> ('u, 'g1, 'g2) search \<Rightarrow> bool" where
  "tick_result C req qs a limit doneCh r \<longleftrightarrow>
     r = Searching (limit + 1) (slot_reports C req qs a (Suc (unat limit))) \<or>
     (\<exists>n s. r = SearchDone (slot_reports C req qs a n) \<and> n \<le> Suc (unat limit) \<and> doneCh s)"

lemma collector_slots_result:
  assumes "\<And>s. \<exists>t. calcTarget C req s = Some t" "limit \<noteq> - 1" "unat a \<le> unat i" "unat i \<le> Suc (unat limit)"
  shows "\<exists>r. collector_slots C req qs doneCh limit i i (slot_reports C req qs a (unat i)) = Some r \<and>
    tick_result C req qs a limit doneCh r"
  using assms(3,4)
proof (induction "Suc (unat limit) - unat i" arbitrary: i)
  case 0
  have "i = limit + 1" using 0 unat_plus_one [OF assms(2)] by (intro word_unat_eq_iff [THEN iffD2]) simp
  moreover have "\<not> i \<le> limit" using 0 by (simp add: word_le_nat_alt)
  ultimately show ?case
    using unat_plus_one [OF assms(2)] by (subst collector_slots.simps) (simp add: tick_result_def)
next
  case (Suc d)
  then have le: "i \<le> limit" by (simp add: word_le_nat_alt)
  then have "i \<noteq> - 1" using assms(2) by (metis word_order.extremum_uniqueI)
  then have u: "unat (i + 1) = Suc (unat i)" by (rule unat_plus_one)
  obtain t where t: "calcTarget C req i = Some t" using assms(1) by blast
  have "collector_slots C req qs doneCh limit i i (slot_reports C req qs a (unat i)) =
    (if doneCh i then Some (SearchDone (slot_reports C req qs a (unat i)))
     else collector_slots C req qs doneCh limit (i + 1) (i + 1) (slot_reports C req qs a (unat (i + 1))))"
    using le Suc.prems(1) t
    by (subst collector_slots.simps) (simp add: satisfiedQualities_filter [OF t] u slot_reports_Suc slot_report_def)
  moreover have "\<exists>r. collector_slots C req qs doneCh limit (i + 1) (i + 1) (slot_reports C req qs a (unat (i + 1))) = Some r \<and>
    tick_result C req qs a limit doneCh r"
    using Suc.hyps(2) Suc.prems(1) le by (intro Suc.hyps(1)) (auto simp: u word_le_nat_alt)
  moreover have "unat i \<le> Suc (unat limit)" using le by (simp add: word_le_nat_alt)
  ultimately show ?case by (auto simp: tick_result_def)
qed

text \<open>The bound of a tick, and the slot after the last one tried when the ticks have passed.\<close>

definition tick_limit :: "('q, 'u, 'g1, 'g2) collector_lib \<Rightarrow> int \<Rightarrow> u64" where
  "tick_limit C now = fractal_nowSlot C now + fractal_allowAhead"

definition next_slot_after :: "('q, 'u, 'g1, 'g2) collector_lib \<Rightarrow> collector_event list \<Rightarrow> nat \<Rightarrow> nat" where
  "next_slot_after C es n =
     fold (\<lambda>e m. case e of CDone \<Rightarrow> m | CTick now d \<Rightarrow> max m (Suc (unat (tick_limit C now)))) es n"

lemma tick_limit_bound: "1 < poc_PoCSlot C \<Longrightarrow> tick_limit C now \<noteq> - 1"
proof
  assume p: "1 < poc_PoCSlot C" and m: "tick_limit C now = - 1"
  have "unat (fractal_nowSlot C now) \<le> unat (word_of_int now :: u64) div 2"
    using p by (simp add: fractal_nowSlot_def unat_div_distrib word_less_nat_alt div_le_mono2)
  also have "\<dots> < 2 ^ 63" using unat_lt2p [of "word_of_int now :: u64"] by simp
  finally have "unat (tick_limit C now) < 2 ^ 63 + 10"
    using unat_plus_if' [of "fractal_nowSlot C now" 10]
    by (simp add: tick_limit_def fractal_allowAhead_def split: if_splits)
  moreover have "unat (- 1 :: u64) = 18446744073709551615" by (simp add: unsigned_minus_1_eq_mask mask_eq_exp_minus_1)
  ultimately show False using m by simp
qed

definition not_done :: "collector_event \<Rightarrow> bool" where
  "not_done e \<longleftrightarrow> (case e of CDone \<Rightarrow> False | CTick now d \<Rightarrow> d = (\<lambda>_. False))"

text \<open>
  Whenever the search stops, the reports made are those of the slots from the first on, each once and in
  order; while it is not cancelled, up to the bound of the latest tick.
\<close>

lemma trySlots_result:
  assumes "\<And>s. \<exists>t. calcTarget C req s = Some t" "1 < poc_PoCSlot C" "unat a \<le> unat w"
  shows "\<exists>n. (trySlots C req qs es w (slot_reports C req qs a (unat w)) = Some (SearchDone (slot_reports C req qs a n)) \<and>
       \<not> list_all not_done es) \<or>
     (trySlots C req qs es w (slot_reports C req qs a (unat w)) = Some (Searching (word_of_nat n) (slot_reports C req qs a n)) \<and>
       n = next_slot_after C es (unat w))"
  using assms(3)
proof (induction es arbitrary: w)
  case Nil
  then show ?case by (simp add: next_slot_after_def)
next
  case (Cons e es)
  show ?case
  proof (cases e)
    case CDone
    then show ?thesis by (auto simp: not_done_def)
  next
    case (CTick now d)
    let ?l = "tick_limit C now"
    show ?thesis
    proof (cases "w > ?l")
      case True
      then have "max (unat w) (Suc (unat ?l)) = unat w" by (simp add: word_less_nat_alt)
      then have "next_slot_after C (e # es) (unat w) = next_slot_after C es (unat w)"
        by (simp add: next_slot_after_def CTick)
      with Cons.IH [OF Cons.prems] True CTick show ?thesis by (auto simp: tick_limit_def)
    next
      case False
      then have wl: "unat w \<le> unat ?l" by (simp add: word_le_nat_alt linorder_not_less)
      have l: "unat (?l + 1) = Suc (unat ?l)" by (rule unat_plus_one [OF tick_limit_bound [OF assms(2)]])
      have n: "next_slot_after C (e # es) (unat w) = next_slot_after C es (unat (?l + 1))"
        using wl by (simp add: next_slot_after_def CTick max_def l)
      obtain r where r: "collector_slots C req qs d ?l w w (slot_reports C req qs a (unat w)) = Some r"
        "tick_result C req qs a ?l d r"
        using collector_slots_result [OF assms(1) tick_limit_bound [OF assms(2)] Cons.prems, of now qs d] wl by auto
      have "trySlots C req qs (e # es) w (slot_reports C req qs a (unat w)) =
          (case r of Searching w' out' \<Rightarrow> trySlots C req qs es w' out' | _ \<Rightarrow> Some r)"
        using False r(1) by (simp add: CTick tick_limit_def split: search.splits)
      then show ?thesis
        using r(2) Cons.IH [of "?l + 1"] Cons.prems wl n l
        by (auto simp: tick_result_def not_done_def CTick)
    qed
  qed
qed

end
