(* ===== verification/Fractal_Superior.thy ===== *)
theory Fractal_Superior
  imports Fractal_Conn Fractal_Collector
begin

text \<open>
  The superiors of \<open>fractal/superior.go\<close>, which pass requests to their collectors and reports to the task
  that waits for them, and the pool of remote collectors (\<open>fractal/pool.go\<close>). The cache of tasks is a type
  of another package, known by its operations.
\<close>

section \<open>Parameters\<close>

record ('u, 'c) task_cache =
  uuid_Nil :: 'u
  NewCCache :: 'c
  ccache_Add :: "'u \<Rightarrow> nat \<Rightarrow> 'c \<Rightarrow> 'c"
  ccache_Get :: "'u \<Rightarrow> 'c \<Rightarrow> nat option \<times> 'c"
  ccache_Remove :: "'u \<Rightarrow> 'c \<Rightarrow> 'c"

abbreviation found :: "('u, 'c) task_cache \<Rightarrow> 'u \<Rightarrow> 'c \<Rightarrow> nat option" where
  "found O1 k c \<equiv> fst (ccache_Get O1 k c)"

text \<open>A cache returns what was added, or nothing once the entry was removed or evicted for a newer one.\<close>

definition task_cache_ok :: "('u, 'c) task_cache \<Rightarrow> bool" where
  "task_cache_ok O1 \<longleftrightarrow>
     (\<forall>k. found O1 k (NewCCache O1) = None) \<and>
     (\<forall>k v c. found O1 k (ccache_Add O1 k v c) = Some v) \<and>
     (\<forall>k v c k' w. k' \<noteq> k \<longrightarrow> found O1 k' (ccache_Add O1 k v c) = Some w \<longrightarrow> found O1 k' c = Some w) \<and>
     (\<forall>k c k'. found O1 k' (snd (ccache_Get O1 k c)) = found O1 k' c) \<and>
     (\<forall>k c k'. found O1 k' (ccache_Remove O1 k c) = (if k' = k then None else found O1 k' c))"

section \<open>Collectors of a superior\<close>

text \<open>
  \<open>bs_jobs\<close> are the requests that a broadcast has given to the pool of routines and that have not run, in
  no particular order; \<open>bs_requests\<close> are those made to collectors.
\<close>

record ('u, 'g1, 'g2) base_superior =
  bs_collectors :: "'u list"
  bs_jobs :: "('u \<times> ('u, 'g1, 'g2) message) list"
  bs_requests :: "('u \<times> ('u, 'g1, 'g2) message) list"

definition newBaseSuperior :: "('u, 'g1, 'g2) base_superior" where
  "newBaseSuperior = \<lparr>bs_collectors = [], bs_jobs = [], bs_requests = []\<rparr>"

definition base_Subscribe :: "'u \<Rightarrow> ('u, 'g1, 'g2) base_superior \<Rightarrow> ('u, 'g1, 'g2) base_superior" where
  "base_Subscribe c b = b\<lparr>bs_collectors := List.insert c (bs_collectors b)\<rparr>"

definition base_Unsubscribe :: "'u \<Rightarrow> ('u, 'g1, 'g2) base_superior \<Rightarrow> ('u, 'g1, 'g2) base_superior" where
  "base_Unsubscribe c b = b\<lparr>bs_collectors := removeAll c (bs_collectors b)\<rparr>"

text \<open>Only requests are passed on; another message is an error that is logged.\<close>

definition base_sendRequest ::
  "'u \<Rightarrow> ('u, 'g1, 'g2) message \<Rightarrow> ('u, 'g1, 'g2) base_superior \<Rightarrow> ('u, 'g1, 'g2) base_superior" where
  "base_sendRequest c msg b =
     (if MsgType msg \<in> {MsgTypeRequestQualities, MsgTypeRequestProof, MsgTypeRequestSignature}
      then b\<lparr>bs_requests := bs_requests b @ [(c, msg)]\<rparr> else b)"

definition base_Send ::
  "'u \<Rightarrow> ('u, 'g1, 'g2) message \<Rightarrow> ('u, 'g1, 'g2) base_superior \<Rightarrow> ('u, 'g1, 'g2) base_superior" where
  "base_Send c msg b = (if c \<in> set (bs_collectors b) then base_sendRequest c msg b else b)"

definition base_Broadcast ::
  "('u, 'g1, 'g2) message \<Rightarrow> ('u, 'g1, 'g2) base_superior \<Rightarrow> ('u, 'g1, 'g2) base_superior" where
  "base_Broadcast msg b = b\<lparr>bs_jobs := bs_jobs b @ map (\<lambda>c. (c, msg)) (bs_collectors b)\<rparr>"

text \<open>A routine of the pool takes any of the waiting jobs.\<close>

definition run_job :: "nat \<Rightarrow> ('u, 'g1, 'g2) base_superior \<Rightarrow> ('u, 'g1, 'g2) base_superior option" where
  "run_job i b =
     (if i < length (bs_jobs b)
      then (case bs_jobs b ! i of (c, msg) \<Rightarrow>
        Some (base_sendRequest c msg (b\<lparr>bs_jobs := take i (bs_jobs b) @ drop (Suc i) (bs_jobs b)\<rparr>)))
      else None)"

section \<open>The local superior\<close>

text \<open>
  A task has a channel, an address in \<open>ls_chans\<close>, for the reports made to it; \<open>ch_task\<close> is the request's
  identifier. \<open>ls_lock\<close> is the report whose sender waits for room while it holds \<open>taskCacheLock\<close>.
\<close>

record ('u, 'g1, 'g2) task_chan =
  ch_task :: 'u
  ch_queue :: "('u \<times> ('u, 'g1, 'g2) message) list"
  ch_closed :: bool

record ('u, 'g1, 'g2, 'c) local_superior =
  ls_base :: "('u, 'g1, 'g2) base_superior"
  ls_taskCache :: 'c
  ls_chans :: "('u, 'g1, 'g2) task_chan list"
  ls_latestTask :: "('u, 'g1, 'g2) message option"
  ls_lock :: "(nat \<times> 'u \<times> ('u, 'g1, 'g2) message) option"

datatype superior_error = ErrMissingHandler u16 | ErrUnexpectedType u16 | SupPanicClosed

text \<open>An operation ends with an error or a new state, or waits for the lock (None).\<close>

type_synonym 's superior_result = "(superior_error + 's) option"

definition NewLocalSuperior :: "('u, 'c) task_cache \<Rightarrow> ('u, 'g1, 'g2, 'c) local_superior" where
  "NewLocalSuperior O1 = \<lparr>ls_base = newBaseSuperior, ls_taskCache = NewCCache O1, ls_chans = [], ls_latestTask = None,
     ls_lock = None\<rparr>"

definition ls_Subscribe :: "'u \<Rightarrow> ('u, 'g1, 'g2, 'c) local_superior \<Rightarrow> ('u, 'g1, 'g2, 'c) local_superior" where
  "ls_Subscribe c s =
     (let b = base_Subscribe c (ls_base s) in
      s\<lparr>ls_base := (case ls_latestTask s of None \<Rightarrow> b | Some task \<Rightarrow> base_Send c task b)\<rparr>)"

text \<open>\<open>AddTask\<close> returns the address of the new channel.\<close>

definition AddTask ::
  "('u, 'c) task_cache \<Rightarrow> 'u \<Rightarrow> ('u, 'g1, 'g2) message \<Rightarrow> ('u, 'g1, 'g2, 'c) local_superior
     \<Rightarrow> (nat \<times> ('u, 'g1, 'g2, 'c) local_superior) option" where
  "AddTask O1 collectorID req s =
     (if ls_lock s \<noteq> None then None
      else
        let ch = length (ls_chans s);
            s1 = s\<lparr>ls_chans := ls_chans s @ [\<lparr>ch_task = message_ID req, ch_queue = [], ch_closed = False\<rparr>],
                   ls_taskCache := ccache_Add O1 (message_ID req) ch (ls_taskCache s)\<rparr>
        in Some (ch,
             if collectorID = uuid_Nil O1
             then s1\<lparr>ls_latestTask := Some req, ls_base := base_Broadcast req (ls_base s1)\<rparr>
             else s1\<lparr>ls_base := base_Send collectorID req (ls_base s1)\<rparr>))"

definition RemoveTask ::
  "('u, 'c) task_cache \<Rightarrow> 'u \<Rightarrow> ('u, 'g1, 'g2, 'c) local_superior \<Rightarrow> ('u, 'g1, 'g2, 'c) local_superior superior_result" where
  "RemoveTask O1 k s =
     (if ls_lock s \<noteq> None then None
      else case ccache_Get O1 k (ls_taskCache s) of
        (None, c) \<Rightarrow> Some (Inr (s\<lparr>ls_taskCache := c\<rparr>))
      | (Some ch, c) \<Rightarrow>
        if ch_closed (ls_chans s ! ch) then Some (Inl SupPanicClosed)
        else Some (Inr (s\<lparr>ls_chans := (ls_chans s)[ch := (ls_chans s ! ch)\<lparr>ch_closed := True\<rparr>],
               ls_taskCache := ccache_Remove O1 k c,
               ls_latestTask := (case ls_latestTask s of None \<Rightarrow> None
                 | Some task \<Rightarrow> if message_ID task = k then None else Some task)\<rparr>)))"

definition task_chan_cap :: nat where "task_chan_cap = 10"

text \<open>The send on a task's channel: it panics when that is closed and waits, with the lock, when it is full.\<close>

definition chan_send ::
  "nat \<Rightarrow> 'u \<Rightarrow> ('u, 'g1, 'g2) message \<Rightarrow> ('u, 'g1, 'g2, 'c) local_superior \<Rightarrow> superior_error + ('u, 'g1, 'g2, 'c) local_superior" where
  "chan_send ch cid msg s =
     (let q = ls_chans s ! ch in
      if ch_closed q then Inl SupPanicClosed
      else if length (ch_queue q) < task_chan_cap
      then Inr (s\<lparr>ls_chans := (ls_chans s)[ch := q\<lparr>ch_queue := ch_queue q @ [(cid, msg)]\<rparr>], ls_lock := None\<rparr>)
      else Inr (s\<lparr>ls_lock := Some (ch, cid, msg)\<rparr>))"

definition submitCollectorMsg ::
  "('u, 'c) task_cache \<Rightarrow> 'u \<Rightarrow> ('u, 'g1, 'g2) message \<Rightarrow> ('u, 'g1, 'g2, 'c) local_superior
     \<Rightarrow> ('u, 'g1, 'g2, 'c) local_superior superior_result" where
  "submitCollectorMsg O1 cid msg s =
     (if ls_lock s \<noteq> None then None
      else case ccache_Get O1 (message_ID msg) (ls_taskCache s) of
        (None, c) \<Rightarrow> Some (Inr (s\<lparr>ls_taskCache := c\<rparr>))
      | (Some ch, c) \<Rightarrow> Some (chan_send ch cid msg (s\<lparr>ls_taskCache := c\<rparr>)))"

definition onTypeMsg ::
  "('u, 'c) task_cache \<Rightarrow> 'u \<Rightarrow> ('u, 'g1, 'g2) message \<Rightarrow> u16 \<Rightarrow> ('u, 'g1, 'g2, 'c) local_superior
     \<Rightarrow> ('u, 'g1, 'g2, 'c) local_superior superior_result" where
  "onTypeMsg O1 cid resp t s =
     (if MsgType resp \<noteq> t then Some (Inl (ErrUnexpectedType (MsgType resp)))
      else submitCollectorMsg O1 cid resp s)"

text \<open>\<open>onReport\<close> looks up the handler, \<open>onReportQualities\<close>, \<open>onReportProof\<close> or \<open>onReportSignature\<close>, by type.\<close>

definition report_types :: "u16 list" where
  "report_types = [MsgTypeReportQualities, MsgTypeReportProof, MsgTypeReportSignature]"

definition ls_onReport ::
  "('u, 'c) task_cache \<Rightarrow> 'u \<Rightarrow> ('u, 'g1, 'g2) message \<Rightarrow> ('u, 'g1, 'g2, 'c) local_superior
     \<Rightarrow> ('u, 'g1, 'g2, 'c) local_superior superior_result" where
  "ls_onReport O1 cid msg s =
     (case map_of (map (\<lambda>t. (t, onTypeMsg O1 cid msg t)) report_types) (MsgType msg) of
        None \<Rightarrow> Some (Inl (ErrMissingHandler (MsgType msg)))
      | Some handler \<Rightarrow> handler s)"

text \<open>\<open>reportProcessor\<close> of a remote collector, for one message it has read.\<close>

definition rc_reportProcessor ::
  "('u, 'c) task_cache \<Rightarrow> 'u \<Rightarrow> ('u, 'g1, 'g2) message \<Rightarrow> ('u, 'g1, 'g2, 'c) local_superior
     \<Rightarrow> ('u, 'g1, 'g2, 'c) local_superior superior_result" where
  "rc_reportProcessor O1 cid msg s =
     (if MsgType msg \<in> set report_types
      then (case ls_onReport O1 cid msg s of Some (Inl SupPanicClosed) \<Rightarrow> Some (Inl SupPanicClosed)
            | Some (Inl err) \<Rightarrow> Some (Inr s) | r \<Rightarrow> r)
      else Some (Inr s))"

section \<open>The steps of a superior\<close>

definition chan_recv :: "nat \<Rightarrow> ('u, 'g1, 'g2, 'c) local_superior \<Rightarrow> ('u, 'g1, 'g2, 'c) local_superior option" where
  "chan_recv ch s =
     (if ch < length (ls_chans s) \<and> ch_queue (ls_chans s ! ch) \<noteq> []
      then Some (s\<lparr>ls_chans := (ls_chans s)[ch := (ls_chans s ! ch)\<lparr>ch_queue := tl (ch_queue (ls_chans s ! ch))\<rparr>]\<rparr>)
      else None)"

inductive ls_step ::
  "('u, 'c) task_cache \<Rightarrow> ('u, 'g1, 'g2, 'c) local_superior \<Rightarrow> ('u, 'g1, 'g2, 'c) local_superior \<Rightarrow> bool" for O1 where
  ls_subscribe: "ls_step O1 s (ls_Subscribe c s)"
| ls_unsubscribe: "ls_step O1 s (s\<lparr>ls_base := base_Unsubscribe c (ls_base s)\<rparr>)"
| ls_job: "run_job i (ls_base s) = Some b \<Longrightarrow> ls_step O1 s (s\<lparr>ls_base := b\<rparr>)"
| ls_add: "AddTask O1 c req s = Some (ch, s') \<Longrightarrow> ls_step O1 s s'"
| ls_remove: "RemoveTask O1 k s = Some (Inr s') \<Longrightarrow> ls_step O1 s s'"
| ls_report: "ls_onReport O1 cid msg s = Some (Inr s') \<Longrightarrow> ls_step O1 s s'"
| ls_resume: "ls_lock s = Some (ch, cid, msg) \<Longrightarrow> chan_send ch cid msg s = Inr s' \<Longrightarrow> ls_step O1 s s'"
| ls_cancel: "ls_step O1 s (s\<lparr>ls_lock := None\<rparr>)"
| ls_read: "chan_recv ch s = Some s' \<Longrightarrow> ls_step O1 s s'"

inductive ls_reach :: "('u, 'c) task_cache \<Rightarrow> ('u, 'g1, 'g2, 'c) local_superior \<Rightarrow> bool" for O1 where
  ls_new: "ls_reach O1 (NewLocalSuperior O1)"
| ls_next: "ls_reach O1 s \<Longrightarrow> ls_step O1 s s' \<Longrightarrow> ls_reach O1 s'"

section \<open>Reports reach their task and no other\<close>

definition chan_ok :: "('u, 'g1, 'g2) task_chan \<Rightarrow> bool" where
  "chan_ok q \<longleftrightarrow> length (ch_queue q) \<le> task_chan_cap \<and>
     list_all (\<lambda>(cid, m). message_ID m = ch_task q \<and> MsgType m \<in> set report_types) (ch_queue q)"

definition ls_inv :: "('u, 'c) task_cache \<Rightarrow> ('u, 'g1, 'g2, 'c) local_superior \<Rightarrow> bool" where
  "ls_inv O1 s \<longleftrightarrow>
     list_all chan_ok (ls_chans s) \<and>
     (\<forall>k ch. found O1 k (ls_taskCache s) = Some ch \<longrightarrow>
        ch < length (ls_chans s) \<and> \<not> ch_closed (ls_chans s ! ch) \<and> ch_task (ls_chans s ! ch) = k) \<and>
     (\<forall>ch cid m. ls_lock s = Some (ch, cid, m) \<longrightarrow>
        found O1 (message_ID m) (ls_taskCache s) = Some ch \<and> MsgType m \<in> set report_types)"

lemma task_cache_okD:
  assumes "task_cache_ok O1"
  shows "found O1 k (NewCCache O1) = None" "found O1 k (ccache_Add O1 k v c) = Some v"
    "found O1 k' (ccache_Add O1 k v c) = Some w \<Longrightarrow> k' = k \<and> w = v \<or> k' \<noteq> k \<and> found O1 k' c = Some w"
    "found O1 k' (snd (ccache_Get O1 k c)) = found O1 k' c"
    "found O1 k' (ccache_Remove O1 k c) = (if k' = k then None else found O1 k' c)"
proof -
  note ok = assms [unfolded task_cache_ok_def]
  show "k' = k \<and> w = v \<or> k' \<noteq> k \<and> found O1 k' c = Some w" if "found O1 k' (ccache_Add O1 k v c) = Some w"
  proof (cases "k' = k")
    case True
    with that ok show ?thesis by simp
  next
    case False
    with that ok show ?thesis by blast
  qed
  show "found O1 k (NewCCache O1) = None" "found O1 k (ccache_Add O1 k v c) = Some v"
    "found O1 k' (snd (ccache_Get O1 k c)) = found O1 k' c"
    "found O1 k' (ccache_Remove O1 k c) = (if k' = k then None else found O1 k' c)"
    using ok by blast+
qed

lemma ls_inv_new: "task_cache_ok O1 \<Longrightarrow> ls_inv O1 (NewLocalSuperior O1)"
  by (simp add: ls_inv_def NewLocalSuperior_def task_cache_okD(1))

lemma ls_inv_base: "ls_inv O1 s \<Longrightarrow> ls_inv O1 (s\<lparr>ls_base := b\<rparr>)"
  by (simp add: ls_inv_def)

lemma ls_inv_touch: "task_cache_ok O1 \<Longrightarrow> ls_inv O1 s \<Longrightarrow> ls_inv O1 (s\<lparr>ls_taskCache := snd (ccache_Get O1 k (ls_taskCache s))\<rparr>)"
  by (simp add: ls_inv_def task_cache_okD(4))

text \<open>These operations take the lock.\<close>

lemma lock_free:
  "AddTask O1 c req s = Some r \<Longrightarrow> ls_lock s = None"
  "RemoveTask O1 k s = Some r' \<Longrightarrow> ls_lock s = None"
  "submitCollectorMsg O1 cid m s = Some r' \<Longrightarrow> ls_lock s = None"
  by (rule ccontr; simp add: AddTask_def RemoveTask_def submitCollectorMsg_def)+

lemma ls_inv_AddTask:
  assumes "task_cache_ok O1" "ls_inv O1 s" "AddTask O1 c req s = Some (ch, s')"
  shows "ls_inv O1 s'"
proof -
  have "list_all chan_ok (ls_chans s')" "ls_lock s' = None"
    using assms(2,3) lock_free(1) [OF assms(3)] by (auto simp: AddTask_def Let_def ls_inv_def chan_ok_def split: if_splits)
  moreover have "ls_taskCache s' = ccache_Add O1 (message_ID req) (length (ls_chans s)) (ls_taskCache s)"
    "ls_chans s' = ls_chans s @ [\<lparr>ch_task = message_ID req, ch_queue = [], ch_closed = False\<rparr>]"
    using assms(3) by (auto simp: AddTask_def Let_def split: if_splits)
  moreover have "ch < length (ls_chans s) \<and> \<not> ch_closed (ls_chans s ! ch) \<and> ch_task (ls_chans s ! ch) = k"
    if "found O1 k (ls_taskCache s) = Some ch" for k ch
    using assms(2) that by (simp add: ls_inv_def)
  ultimately show ?thesis
    using task_cache_okD(3) [OF assms(1)] by (fastforce simp: ls_inv_def nth_append)
qed

lemma ls_inv_update:
  assumes "ls_inv O1 s" "chan_ok q" "ch < length (ls_chans s)" "ch_task q = ch_task (ls_chans s ! ch)"
    "ch_closed q = ch_closed (ls_chans s ! ch)"
  shows "ls_inv O1 (s\<lparr>ls_chans := (ls_chans s)[ch := q]\<rparr>)"
  using assms by (auto simp: ls_inv_def nth_list_update list_all_iff dest: set_update_subset_insert [THEN subsetD])

lemma ls_inv_unlock: "ls_inv O1 s \<Longrightarrow> ls_inv O1 (s\<lparr>ls_lock := None\<rparr>)"
  by (simp add: ls_inv_def)

text \<open>The channel of a task that is in the cache is open, and a report for the task may be put into it.\<close>

lemma chan_send_ok:
  assumes "ls_inv O1 s" "found O1 (message_ID m) (ls_taskCache s) = Some ch" "MsgType m \<in> set report_types"
  shows "\<exists>s'. chan_send ch cid m s = Inr s' \<and> ls_inv O1 s'"
proof -
  let ?q = "ls_chans s ! ch"
  have q: "ch < length (ls_chans s)" "\<not> ch_closed ?q" "ch_task ?q = message_ID m" "chan_ok ?q"
    using assms(1,2) by (auto simp: ls_inv_def list_all_length)
  show ?thesis
  proof (cases "length (ch_queue ?q) < task_chan_cap")
    case True
    with q assms(3) have "ls_inv O1 (s\<lparr>ls_chans := (ls_chans s)[ch := ?q\<lparr>ch_queue := ch_queue ?q @ [(cid, m)]\<rparr>]\<rparr>)"
      by (intro ls_inv_update [OF assms(1)]) (simp_all add: chan_ok_def)
    from ls_inv_unlock [OF this] True q show ?thesis by (simp add: chan_send_def Let_def)
  next
    case False
    have "ls_inv O1 (s\<lparr>ls_lock := Some (ch, cid, m)\<rparr>)" using assms by (simp add: ls_inv_def)
    with False q show ?thesis by (simp add: chan_send_def Let_def)
  qed
qed

lemma RemoveTask_ok:
  assumes "task_cache_ok O1" "ls_inv O1 s" "ls_lock s = None"
  shows "\<exists>s'. RemoveTask O1 k s = Some (Inr s') \<and> ls_inv O1 s'"
proof (cases "found O1 k (ls_taskCache s)")
  case None
  with assms ls_inv_touch [OF assms(1,2), of k] show ?thesis
    by (auto simp: RemoveTask_def split: prod.splits)
next
  case (Some ch)
  let ?q = "ls_chans s ! ch"
  let ?c = "snd (ccache_Get O1 k (ls_taskCache s))"
  have other: "found O1 k' (ccache_Remove O1 k ?c) = Some ch' \<Longrightarrow> k' \<noteq> k \<and> found O1 k' (ls_taskCache s) = Some ch'" for k' ch'
    by (simp add: task_cache_okD(4,5) [OF assms(1)] split: if_splits)
  have q: "ch < length (ls_chans s)" "\<not> ch_closed ?q" "ch_task ?q = k" "chan_ok ?q"
    using assms(2) Some by (auto simp: ls_inv_def list_all_length)
  let ?cs = "(ls_chans s)[ch := ?q\<lparr>ch_closed := True\<rparr>]"
  have "list_all chan_ok ?cs"
    using assms(2) q by (auto simp: ls_inv_def chan_ok_def list_all_length nth_list_update)
  moreover have "ch' < length (ls_chans s) \<and> \<not> ch_closed (?cs ! ch') \<and> ch_task (?cs ! ch') = k'"
    if "found O1 k' (ccache_Remove O1 k ?c) = Some ch'" for k' ch'
  proof -
    have "ch' < length (ls_chans s)" "\<not> ch_closed (ls_chans s ! ch')" "ch_task (ls_chans s ! ch') = k'" "ch' \<noteq> ch"
      using other [OF that] assms(2) q(3) by (auto simp: ls_inv_def)
    then show ?thesis by simp
  qed
  ultimately have "ls_inv O1 (s\<lparr>ls_chans := ?cs, ls_taskCache := ccache_Remove O1 k ?c, ls_latestTask := l\<rparr>)" for l
    using assms(3) by (simp add: ls_inv_def)
  with Some q(2) assms(3) show ?thesis by (auto simp: RemoveTask_def split: prod.splits)
qed

lemma ls_onReport_eq:
  "ls_onReport O1 cid m s =
     (if MsgType m \<in> set report_types then submitCollectorMsg O1 cid m s else Some (Inl (ErrMissingHandler (MsgType m))))"
  by (auto simp: ls_onReport_def report_types_def onTypeMsg_def)

lemma onReport_ok:
  assumes "task_cache_ok O1" "ls_inv O1 s" "ls_lock s = None" "MsgType m \<in> set report_types"
  shows "\<exists>s'. ls_onReport O1 cid m s = Some (Inr s') \<and> ls_inv O1 s'"
proof -
  obtain r c where g: "ccache_Get O1 (message_ID m) (ls_taskCache s) = (r, c)" by force
  have i: "ls_inv O1 (s\<lparr>ls_taskCache := c\<rparr>)" using ls_inv_touch [OF assms(1,2), of "message_ID m"] g by simp
  have "found O1 (message_ID m) c = r" using task_cache_okD(4) [OF assms(1), of "message_ID m" "message_ID m"] g by (metis fst_conv snd_conv)
  then show ?thesis
    using i g assms(3,4) chan_send_ok [OF i _ assms(4), of _ cid]
    by (cases r) (simp_all add: ls_onReport_eq submitCollectorMsg_def)
qed

lemma ls_step_inv:
  assumes "task_cache_ok O1" "ls_step O1 s s'" "ls_inv O1 s"
  shows "ls_inv O1 s'"
  using assms(2)
proof (cases rule: ls_step.cases)
  case (ls_subscribe c)
  with assms(3) show ?thesis by (simp add: ls_Subscribe_def Let_def ls_inv_base)
next
  case (ls_remove k)
  then have "ls_lock s = None" by (intro lock_free(2))
  with ls_remove RemoveTask_ok [OF assms(1,3), of k] show ?thesis by auto
next
  case (ls_report cid msg)
  then have "ls_lock s = None" "MsgType msg \<in> set report_types"
    by (auto simp: ls_onReport_eq split: if_splits intro: lock_free(3))
  with ls_report onReport_ok [OF assms(1,3), of msg cid] show ?thesis by auto
next
  case (ls_resume ch cid msg)
  with assms(3) chan_send_ok [OF assms(3), of msg ch cid] show ?thesis by (auto simp: ls_inv_def)
next
  case (ls_read ch)
  let ?q = "ls_chans s ! ch"
  have ch: "ch < length (ls_chans s)" "ch_queue ?q \<noteq> []" "s' = s\<lparr>ls_chans := (ls_chans s)[ch := ?q\<lparr>ch_queue := tl (ch_queue ?q)\<rparr>]\<rparr>"
    using ls_read by (simp_all add: chan_recv_def split: if_splits)
  have "chan_ok ?q" using assms(3) ch(1) by (simp add: ls_inv_def list_all_length)
  then have "chan_ok (?q\<lparr>ch_queue := tl (ch_queue ?q)\<rparr>)" using ch(2) by (cases "ch_queue ?q") (simp_all add: chan_ok_def)
  with ch ls_inv_update [OF assms(3)] show ?thesis by simp
qed (use assms ls_inv_base ls_inv_AddTask ls_inv_unlock in auto)

lemma ls_reach_inv:
  assumes "task_cache_ok O1" "ls_reach O1 s"
  shows "ls_inv O1 s"
  using assms(2) by (induction rule: ls_reach.induct) (auto simp: ls_inv_new [OF assms(1)] intro: ls_step_inv [OF assms(1)])

text \<open>
  A sender that waits for room keeps the lock: no task is added or removed and no other report is taken,
  until the channel is read or the sender's context is done.
\<close>

lemma full_channel_blocks:
  assumes "ls_inv O1 s" "ls_lock s = Some (ch, cid, m)" "length (ch_queue (ls_chans s ! ch)) = task_chan_cap"
  shows "AddTask O1 c req s = None" "RemoveTask O1 k s = None" "submitCollectorMsg O1 cid' m' s = None"
    "chan_send ch cid m s = Inr s"
proof -
  have "\<not> ch_closed (ls_chans s ! ch)" using assms(1,2) by (auto simp: ls_inv_def)
  moreover have "s\<lparr>ls_lock := Some (ch, cid, m)\<rparr> = s" using assms(2) by simp
  ultimately show "chan_send ch cid m s = Inr s" using assms(3) by (simp add: chan_send_def)
qed (simp_all add: AddTask_def RemoveTask_def submitCollectorMsg_def assms(2))

section \<open>The remote superior\<close>

text \<open>It broadcasts the requests it reads and writes the reports of its collectors to its connection.\<close>

record ('u, 'g1, 'g2) remote_superior =
  rs_base :: "('u, 'g1, 'g2) base_superior"
  rs_latestTask :: "('u, 'g1, 'g2) message option"
  rs_writer :: "('u, 'g1, 'g2) sender"

definition NewRemoteSuperior :: "('u, 'g1, 'g2) sender \<Rightarrow> ('u, 'g1, 'g2) remote_superior" where
  "NewRemoteSuperior w = \<lparr>rs_base = newBaseSuperior, rs_latestTask = None, rs_writer = w\<rparr>"

definition rs_Subscribe :: "'u \<Rightarrow> ('u, 'g1, 'g2) remote_superior \<Rightarrow> ('u, 'g1, 'g2) remote_superior" where
  "rs_Subscribe c s =
     (let b = base_Subscribe c (rs_base s) in
      s\<lparr>rs_base := (case rs_latestTask s of None \<Rightarrow> b | Some task \<Rightarrow> base_Send c task b)\<rparr>)"

definition rs_requestProcessor :: "('u, 'g1, 'g2) message \<Rightarrow> ('u, 'g1, 'g2) remote_superior \<Rightarrow> ('u, 'g1, 'g2) remote_superior" where
  "rs_requestProcessor msg s =
     (let s1 = (if MsgType msg = MsgTypeRequestQualities then s\<lparr>rs_latestTask := Some msg\<rparr> else s) in
      s1\<lparr>rs_base := base_Broadcast msg (rs_base s1)\<rparr>)"

definition checkMsgType :: "('u, 'g1, 'g2) message \<Rightarrow> u16 \<Rightarrow> superior_error option" where
  "checkMsgType resp t = (if MsgType resp \<noteq> t then Some (ErrUnexpectedType (MsgType resp)) else None)"

definition rs_onType :: "('u, 'g1, 'g2) message \<Rightarrow> u16 \<Rightarrow> ('u, 'g1, 'g2) remote_superior
    \<Rightarrow> superior_error + ('u, 'g1, 'g2) remote_superior send_result" where
  "rs_onType resp t s =
     (case checkMsgType resp t of Some err \<Rightarrow> Inl err
      | None \<Rightarrow> Inr (case SafeSendChannel resp (rs_writer s) of
          Sent w \<Rightarrow> Sent (s\<lparr>rs_writer := w\<rparr>) | SendErr err \<Rightarrow> SendErr err | SendBlocked \<Rightarrow> SendBlocked))"

definition rs_onReport :: "('u, 'g1, 'g2) message \<Rightarrow> ('u, 'g1, 'g2) remote_superior
    \<Rightarrow> superior_error + ('u, 'g1, 'g2) remote_superior send_result" where
  "rs_onReport msg s =
     (case map_of (map (\<lambda>t. (t, rs_onType msg t)) report_types) (MsgType msg) of
        None \<Rightarrow> Inl (ErrMissingHandler (MsgType msg))
      | Some handler \<Rightarrow> handler s)"

text \<open>A report that the remote superior takes is the next message of its writer.\<close>

lemma rs_onReport_accepted:
  "rs_onReport m s = Inr (Sent s') \<Longrightarrow>
     ms_accepted (rs_writer s') = ms_accepted (rs_writer s) @ [m] \<and> MsgType m \<in> set report_types"
  by (auto simp: rs_onReport_def rs_onType_def checkMsgType_def report_types_def SafeSendChannel_def
      split: if_splits send_result.splits)

section \<open>The pool of remote collectors\<close>

record collectorPoolOptions =
  maxCollector :: u32
  listenAddress :: string
  listenNetwork :: string

definition defaultCollectorPoolOptions :: collectorPoolOptions where
  "defaultCollectorPoolOptions = \<lparr>maxCollector = 2000, listenAddress = [], listenNetwork = ''tcp''\<rparr>"

definition CollectorPoolMaxCollector :: "u32 \<Rightarrow> collectorPoolOptions \<Rightarrow> collectorPoolOptions" where
  "CollectorPoolMaxCollector m o1 = (if m > 0 then o1\<lparr>maxCollector := m\<rparr> else o1)"

definition CollectorPoolListenAddress :: "string \<Rightarrow> collectorPoolOptions \<Rightarrow> collectorPoolOptions" where
  "CollectorPoolListenAddress a o1 = o1\<lparr>listenAddress := a\<rparr>"

text \<open>\<open>cp_cancelled\<close> are the collectors whose canceller has been called, a connection being one that is refused.\<close>

record 'u collector_pool =
  cp_opts :: collectorPoolOptions
  cp_collectors :: "'u list"
  cp_cancellers :: "'u list"
  cp_cancelled :: "'u list"

definition NewCollectorPool :: "(collectorPoolOptions \<Rightarrow> collectorPoolOptions) list \<Rightarrow> 'u collector_pool" where
  "NewCollectorPool opt =
     \<lparr>cp_opts = fold (\<lambda>o1 opts. o1 opts) opt defaultCollectorPoolOptions, cp_collectors = [], cp_cancellers = [], cp_cancelled = []\<rparr>"

definition pool_Count :: "'u collector_pool \<Rightarrow> u32" where
  "pool_Count p = word_of_nat (length (cp_collectors p))"

definition addCollector :: "'u \<Rightarrow> 'u collector_pool \<Rightarrow> string + 'u collector_pool" where
  "addCollector c p =
     (if c \<in> set (cp_collectors p) then Inl ''collector already exists''
      else Inr (p\<lparr>cp_collectors := c # cp_collectors p, cp_cancellers := c # cp_cancellers p\<rparr>))"

definition removeCollector :: "'u \<Rightarrow> 'u collector_pool \<Rightarrow> 'u collector_pool" where
  "removeCollector c p =
     (if c \<notin> set (cp_collectors p) then p
      else
        let p1 = (if c \<in> set (cp_cancellers p) then p\<lparr>cp_cancelled := c # cp_cancelled p\<rparr> else p) in
        p1\<lparr>cp_collectors := removeAll c (cp_collectors p1), cp_cancellers := removeAll c (cp_cancellers p1)\<rparr>)"

text \<open>\<open>listenRoutine\<close> for one connection, with the identifier its collector gets.\<close>

definition pool_accept :: "'u \<Rightarrow> 'u collector_pool \<Rightarrow> 'u collector_pool" where
  "pool_accept c p =
     (if pool_Count p \<ge> maxCollector (cp_opts p) then p\<lparr>cp_cancelled := c # cp_cancelled p\<rparr>
      else case addCollector c p of Inl err \<Rightarrow> p | Inr p' \<Rightarrow> p')"

inductive pool_reach :: "(collectorPoolOptions \<Rightarrow> collectorPoolOptions) list \<Rightarrow> 'u collector_pool \<Rightarrow> bool" for opt where
  pool_new: "pool_reach opt (NewCollectorPool opt)"
| pool_accepts: "pool_reach opt p \<Longrightarrow> pool_reach opt (pool_accept c p)"
| pool_removes: "pool_reach opt p \<Longrightarrow> pool_reach opt (removeCollector c p)"

definition pool_inv :: "'u collector_pool \<Rightarrow> bool" where
  "pool_inv p \<longleftrightarrow> distinct (cp_collectors p) \<and> cp_cancellers p = cp_collectors p \<and>
     length (cp_collectors p) \<le> unat (maxCollector (cp_opts p))"

text \<open>A pool never has more collectors than its limit, and a canceller for each.\<close>

lemma pool_reach_inv: "pool_reach opt p \<Longrightarrow> pool_inv p"
proof (induction rule: pool_reach.induct)
  case (pool_accepts p c)
  have "length (cp_collectors p) < unat (maxCollector (cp_opts p))" if "\<not> pool_Count p \<ge> maxCollector (cp_opts p)"
  proof -
    have "length (cp_collectors p) < 2 ^ LENGTH(32)"
      using pool_accepts.IH unat_lt2p [of "maxCollector (cp_opts p)"] by (simp add: pool_inv_def)
    then show ?thesis
      using that unat_of_nat_bound [of "length (cp_collectors p)", where 'a = 32]
      by (simp add: pool_Count_def word_le_nat_alt)
  qed
  with pool_accepts.IH show ?case by (auto simp: pool_accept_def pool_inv_def addCollector_def)
next
  case (pool_removes p c)
  then show ?case
    by (auto simp: removeCollector_def pool_inv_def Let_def distinct_removeAll intro: order_trans [OF length_removeAll_less_eq])
qed (simp add: NewCollectorPool_def pool_inv_def)

end
