(* ===== verification/Chia_Miner.thy ===== *)
theory Chia_Miner
  imports Poc_Miner Fractal_Superior
begin

text \<open>
  The search of the second miner, \<open>getBestProof\<close> of \<open>poc/engine.v2/pocminer/miner/strategy.go\<close>: it asks all
  collectors of its local superior for qualities, keeps the best of those reported, and once the slot of the
  best has come asks its collector for the proof. \<open>runStaleMonitor\<close> of this miner is that of the first one. What
  arrives on the channels of its tasks is an argument, as are the ticks with the time and what the stale
  monitor has received by then.
\<close>

section \<open>Types\<close>

datatype chia_error = MinerErr miner_error | ErrRequestTimeout string | ChiaPanicType | ChiaPanicNil

record 'g1 chia_template =
  ct_Height :: u64
  ct_Timestamp :: int
  ct_Previous :: bytes
  ct_Challenge :: bytes
  ct_GetTarget :: "int \<Rightarrow> int"
  ct_PassBinding :: "'g1 workspace_quality \<Rightarrow> bool"

record ('u, 'g1) best_quality =
  b_WorkSpaceQuality :: "'g1 workspace_quality option"
  b_Quality :: int
  b_Slot :: u64
  b_SpaceID :: string
  b_Index :: u32
  b_Collector :: 'u

record 'g1 chia_proof_template =
  cpt_chiaQuality :: "'g1 workspace_quality option"
  cpt_proof :: "'g1 workspace_proof2"
  cpt_time :: int
  cpt_quality :: int

definition chia_allowAhead :: int where "chia_allowAhead = 5"

section \<open>The search\<close>

definition quality_request :: "('q, 'u, 'g1, 'g2) collector_lib \<Rightarrow> 'u \<Rightarrow> 'g1 chia_template \<Rightarrow> 'u request_qualities" where
  "quality_request C tid tpl =
     \<lparr>rq_TaskID = tid, rq_Challenge = ct_Challenge tpl,
      rq_ParentTarget = ct_GetTarget tpl (ct_Timestamp tpl + uint (poc_PoCSlot C) * 10),
      rq_ParentSlot = word_of_int (time_Unix (ct_Timestamp tpl)) div poc_PoCSlot C - 1, rq_Height = ct_Height tpl\<rparr>"

definition proof_request :: "'u \<Rightarrow> 'g1 chia_template \<Rightarrow> ('u, 'g1) best_quality \<Rightarrow> 'u request_proof" where
  "proof_request tid tpl b =
     \<lparr>rp_TaskID = tid, rp_Height = ct_Height tpl, rp_SpaceID = b_SpaceID b, rp_Challenge = ct_Challenge tpl, rp_Index = b_Index b\<rparr>"

definition no_best :: "'u \<Rightarrow> ('u, 'g1) best_quality" where
  "no_best nil = \<lparr>b_WorkSpaceQuality = None, b_Quality = -1, b_Slot = -1, b_SpaceID = [], b_Index = 0, b_Collector = nil\<rparr>"

definition mass_quality :: "('q, 'u, 'g1, 'g2) collector_lib \<Rightarrow> 'g1 chia_template \<Rightarrow> 'g1 quality \<Rightarrow> int" where
  "mass_quality C tpl pq =
     GetQuality C (Q1FactorChia C (wsq_KSize pq)) (HashValChia C (wsq_Quality pq) (q_Slot pq) (ct_Height tpl))"

definition slot_time :: "('q, 'u, 'g1, 'g2) collector_lib \<Rightarrow> u64 \<Rightarrow> int" where
  "slot_time C slot = sint (slot * poc_PoCSlot C) * 1000000000"

text \<open>The loop body for one reported quality.\<close>

definition consider_quality ::
  "('q, 'u, 'g1, 'g2) collector_lib \<Rightarrow> 'g1 chia_template \<Rightarrow> 'u \<times> 'g1 quality \<Rightarrow> ('u, 'g1) best_quality \<Rightarrow> ('u, 'g1) best_quality" where
  "consider_quality C tpl r b =
     (let (cid, pq) = r; quality = mass_quality C tpl pq; target = ct_GetTarget tpl (slot_time C (q_Slot pq)) in
      if quality \<le> target then b
      else if q_Slot pq < b_Slot b \<or> (q_Slot pq = b_Slot b \<and> quality > b_Quality b) then
        (if \<not> ct_PassBinding tpl (workspace_quality.truncate pq) then b
         else \<lparr>b_WorkSpaceQuality = Some (workspace_quality.truncate pq), b_Quality = quality, b_Slot = q_Slot pq,
               b_SpaceID = wsq_SpaceID pq, b_Index = wsq_Index pq, b_Collector = cid\<rparr>)
      else b)"

datatype ('u, 'g1, 'g2) search_event =
    SearchQuit
  | SearchReport 'u "('u, 'g1, 'g2) message"
  | SearchTick int "monitor_event list"

fun best_loop ::
  "('q, 'u, 'g1, 'g2) collector_lib \<Rightarrow> 'u \<Rightarrow> 'g1 chia_template \<Rightarrow> (monitor_event list \<Rightarrow> bool) \<Rightarrow> ('u, 'g1, 'g2) search_event list
     \<Rightarrow> ('u, 'g1) best_quality \<Rightarrow> (chia_error + ('u, 'g1) best_quality) option" where
  "best_loop C nil tpl staled [] b = None"
| "best_loop C nil tpl staled (SearchQuit # es) b = Some (Inl (MinerErr errQuitSolveBlock))"
| "best_loop C nil tpl staled (SearchReport cid msg # es) b =
     (case msg of
        ReportQualities newQualities \<Rightarrow>
          best_loop C nil tpl staled es (fold (\<lambda>pq. consider_quality C tpl (cid, pq)) (rs_Qualities newQualities) b)
      | _ \<Rightarrow> Some (Inl ChiaPanicType))"
| "best_loop C nil tpl staled (SearchTick now seen # es) b =
     (if staled seen then Some (Inl (MinerErr errQuitSolveBlock))
      else if b_Collector b \<noteq> nil \<and> time_Unix (now + chia_allowAhead) \<ge> sint (b_Slot b * poc_PoCSlot C) then Some (Inr b)
      else best_loop C nil tpl staled es b)"

text \<open>The answer to a request: it may not come within five seconds.\<close>

datatype ('u, 'g1, 'g2) answer = NoAnswer | Answer 'u "('u, 'g1, 'g2) message"

definition await_proof :: "('u, 'g1, 'g2) answer \<Rightarrow> chia_error + 'g1 workspace_proof2" where
  "await_proof a =
     (case a of NoAnswer \<Rightarrow> Inl (ErrRequestTimeout ''request_proof timeout'')
      | Answer cid msg \<Rightarrow> (case msg of ReportProof r \<Rightarrow> Inr (rr_Proof r) | _ \<Rightarrow> Inl ChiaPanicType))"

definition getBestProof ::
  "('q, 'u, 'g1, 'g2) collector_lib \<Rightarrow> 'u \<Rightarrow> 'u \<Rightarrow> 'u \<Rightarrow> 'g1 chia_template \<Rightarrow> block_node \<Rightarrow> (u64 \<Rightarrow> string option)
     \<Rightarrow> ('u request_qualities \<Rightarrow> ('u, 'g1, 'g2) search_event list) \<Rightarrow> ('u \<Rightarrow> 'u request_proof \<Rightarrow> ('u, 'g1, 'g2) answer)
     \<Rightarrow> (chia_error + 'g1 chia_proof_template \<times> 'u) option" where
  "getBestProof C nil tid1 tid2 tpl node waiter events answers =
     (case runStaleMonitor node waiter (ct_Previous tpl) of
        Inl err \<Rightarrow> Some (Inl (MinerErr err))
      | Inr staled \<Rightarrow>
        (case best_loop C nil tpl staled (events (quality_request C tid1 tpl)) (no_best nil) of
           None \<Rightarrow> None
         | Some (Inl err) \<Rightarrow> Some (Inl err)
         | Some (Inr b) \<Rightarrow>
           if b_Collector b = nil then Some (Inl (MinerErr errNoValidProof))
           else
             (case await_proof (answers (b_Collector b) (proof_request tid2 tpl b)) of
                Inl err \<Rightarrow> Some (Inl err)
              | Inr pf \<Rightarrow>
                Some (Inr (\<lparr>cpt_chiaQuality = b_WorkSpaceQuality b, cpt_proof = pf, cpt_time = slot_time C (b_Slot b),
                            cpt_quality = b_Quality b\<rparr>, b_Collector b)))))"

section \<open>The best of the reported qualities\<close>

text \<open>A quality counts if it exceeds the target of its slot and its plot is bound.\<close>

definition counts :: "('q, 'u, 'g1, 'g2) collector_lib \<Rightarrow> 'g1 chia_template \<Rightarrow> 'g1 quality \<Rightarrow> bool" where
  "counts C tpl pq \<longleftrightarrow> mass_quality C tpl pq > ct_GetTarget tpl (slot_time C (q_Slot pq)) \<and>
     ct_PassBinding tpl (workspace_quality.truncate pq)"

text \<open>An earlier slot is better, and in the same slot a greater quality.\<close>

definition better :: "('q, 'u, 'g1, 'g2) collector_lib \<Rightarrow> 'g1 chia_template \<Rightarrow> 'g1 quality \<Rightarrow> 'g1 quality \<Rightarrow> bool" where
  "better C tpl p q \<longleftrightarrow> q_Slot p < q_Slot q \<or> (q_Slot p = q_Slot q \<and> mass_quality C tpl p > mass_quality C tpl q)"

definition best_of :: "('q, 'u, 'g1, 'g2) collector_lib \<Rightarrow> 'g1 chia_template \<Rightarrow> ('u \<times> 'g1 quality) list \<Rightarrow> nat \<Rightarrow> bool" where
  "best_of C tpl rs i \<longleftrightarrow> i < length rs \<and> counts C tpl (snd (rs ! i)) \<and>
     (\<forall>j<length rs. counts C tpl (snd (rs ! j)) \<longrightarrow> \<not> better C tpl (snd (rs ! j)) (snd (rs ! i))) \<and>
     (\<forall>j<i. counts C tpl (snd (rs ! j)) \<longrightarrow> better C tpl (snd (rs ! i)) (snd (rs ! j)))"

definition as_best :: "('q, 'u, 'g1, 'g2) collector_lib \<Rightarrow> 'g1 chia_template \<Rightarrow> 'u \<times> 'g1 quality \<Rightarrow> ('u, 'g1) best_quality" where
  "as_best C tpl r =
     \<lparr>b_WorkSpaceQuality = Some (workspace_quality.truncate (snd r)), b_Quality = mass_quality C tpl (snd r), b_Slot = q_Slot (snd r),
      b_SpaceID = wsq_SpaceID (snd r), b_Index = wsq_Index (snd r), b_Collector = fst r\<rparr>"

lemma consider_as_best:
  "consider_quality C tpl r (as_best C tpl r') =
     (if counts C tpl (snd r) \<and> better C tpl (snd r) (snd r') then as_best C tpl r else as_best C tpl r')"
  by (auto simp: consider_quality_def as_best_def counts_def better_def Let_def split: prod.split)

lemma consider_no_best:
  assumes "\<forall>t. 0 \<le> ct_GetTarget tpl t"
  shows "consider_quality C tpl r (no_best nil) = (if counts C tpl (snd r) then as_best C tpl r else no_best nil)"
proof -
  have "q_Slot (snd r) < - 1 \<or> (q_Slot (snd r) = - 1 \<and> mass_quality C tpl (snd r) > - 1)"
    if "mass_quality C tpl (snd r) > ct_GetTarget tpl (slot_time C (q_Slot (snd r)))"
    using that assms [rule_format, of "slot_time C (q_Slot (snd r))"] by (auto simp: order_less_le)
  then show ?thesis
    by (auto simp: consider_quality_def no_best_def as_best_def counts_def Let_def split: prod.split)
qed

lemma better_le: "better C tpl r p \<Longrightarrow> \<not> better C tpl q p \<Longrightarrow> better C tpl r q"
  by (auto simp: better_def not_less)

lemma better_asym: "better C tpl p q \<Longrightarrow> \<not> better C tpl q p"
  by (auto simp: better_def)

lemma better_irrefl: "\<not> better C tpl p p"
  by (simp add: better_def)

lemma consider_all:
  assumes "\<forall>t. 0 \<le> ct_GetTarget tpl t"
  shows "(\<exists>i. best_of C tpl rs i \<and> fold (consider_quality C tpl) rs (no_best nil) = as_best C tpl (rs ! i)) \<or>
    ((\<forall>r\<in>set rs. \<not> counts C tpl (snd r)) \<and> fold (consider_quality C tpl) rs (no_best nil) = no_best nil)"
proof (induction rs rule: rev_induct)
  case (snoc r rs)
  let ?n = "length rs"
  from snoc show ?case
  proof (elim disjE exE conjE)
    fix i
    assume i: "best_of C tpl rs i" "fold (consider_quality C tpl) rs (no_best nil) = as_best C tpl (rs ! i)"
    then have l: "i < ?n" by (simp add: best_of_def)
    show ?thesis
    proof (cases "counts C tpl (snd r) \<and> better C tpl (snd r) (snd (rs ! i))")
      case True
      then have b: "better C tpl (snd r) (snd (rs ! j))" if "j < ?n" "counts C tpl (snd (rs ! j))" for j
        using i(1) that better_le [of C tpl "snd r" "snd (rs ! i)"] by (simp add: best_of_def)
      then have "best_of C tpl (rs @ [r]) ?n"
        using True by (auto simp: best_of_def nth_append less_Suc_eq better_irrefl dest: b better_asym)
      with True i(2) show ?thesis by (intro disjI1 exI [of _ ?n]) (simp add: consider_as_best nth_append)
    next
      case False
      then have "best_of C tpl (rs @ [r]) i" using i(1) l by (auto simp: best_of_def nth_append less_Suc_eq)
      with False i(2) l show ?thesis by (intro disjI1 exI [of _ i]) (auto simp: consider_as_best nth_append)
    qed
  next
    assume n: "\<forall>r\<in>set rs. \<not> counts C tpl (snd r)" "fold (consider_quality C tpl) rs (no_best nil) = no_best nil"
    show ?thesis
    proof (cases "counts C tpl (snd r)")
      case True
      then have "best_of C tpl (rs @ [r]) ?n" using n(1) better_irrefl by (auto simp: best_of_def nth_append less_Suc_eq)
      with True n(2) show ?thesis
        by (intro disjI1 exI [of _ ?n]) (simp add: consider_no_best [OF assms] nth_append)
    qed (use n in \<open>auto simp: consider_no_best [OF assms]\<close>)
  qed
qed simp

section \<open>What the search returns\<close>

text \<open>The qualities that have been reported, each with its collector.\<close>

fun event_reports :: "('u, 'g1, 'g2) search_event \<Rightarrow> ('u \<times> 'g1 quality) list" where
  "event_reports (SearchReport cid (ReportQualities r)) = map (\<lambda>pq. (cid, pq)) (rs_Qualities r)"
| "event_reports e = []"

definition reported :: "('u, 'g1, 'g2) search_event list \<Rightarrow> ('u \<times> 'g1 quality) list" where
  "reported es = concat (map event_reports es)"

lemma reported_snoc [simp]: "reported [] = []" "reported (e # es) = event_reports e @ reported es"
  by (simp_all add: reported_def)

lemma fold_report:
  "fold (\<lambda>pq. consider_quality C tpl (cid, pq)) qs b = fold (consider_quality C tpl) (map (\<lambda>pq. (cid, pq)) qs) b"
  by (induction qs arbitrary: b) simp_all

lemma best_loop_result:
  assumes "best_loop C nil tpl staled es b0 = Some (Inr b)"
  shows "\<exists>es1 now seen es2. es = es1 @ SearchTick now seen # es2 \<and> \<not> staled seen \<and> b_Collector b \<noteq> nil \<and>
    sint (b_Slot b * poc_PoCSlot C) \<le> time_Unix (now + chia_allowAhead) \<and>
    b = fold (consider_quality C tpl) (reported es1) b0"
  using assms
proof (induction C nil tpl staled es b0 rule: best_loop.induct)
  case (3 C nil tpl staled cid msg es b0)
  then obtain r where r: "msg = ReportQualities r" by (cases msg) auto
  have "best_loop C nil tpl staled es (fold (\<lambda>pq. consider_quality C tpl (cid, pq)) (rs_Qualities r) b0) = Some (Inr b)"
    using "3.prems" r by simp
  from "3.IH" [OF r this] obtain es1 now seen es2 where e: "es = es1 @ SearchTick now seen # es2" "\<not> staled seen" "b_Collector b \<noteq> nil"
    "sint (b_Slot b * poc_PoCSlot C) \<le> time_Unix (now + chia_allowAhead)"
    "b = fold (consider_quality C tpl) (reported es1) (fold (\<lambda>pq. consider_quality C tpl (cid, pq)) (rs_Qualities r) b0)"
    by blast
  with r show ?case
    by (intro exI [of _ "SearchReport cid msg # es1"] exI [of _ now] exI [of _ seen] exI [of _ es2]) (simp add: fold_report)
next
  case (4 C nil tpl staled now seen es b0)
  show ?case
  proof (cases "b_Collector b0 \<noteq> nil \<and> time_Unix (now + chia_allowAhead) \<ge> sint (b_Slot b0 * poc_PoCSlot C)")
    case True
    with "4.prems" show ?thesis
      by (intro exI [of _ "[]"] exI [of _ now] exI [of _ seen] exI [of _ es]) (auto split: if_splits)
  next
    case False
    then have "\<not> staled seen" "best_loop C nil tpl staled es b0 = Some (Inr b)"
      using "4.prems" by (auto split: if_splits)
    from "4.IH" [OF this(1) False this(2)] obtain es1 now' seen' es2 where e: "es = es1 @ SearchTick now' seen' # es2" "\<not> staled seen'" "b_Collector b \<noteq> nil"
      "sint (b_Slot b * poc_PoCSlot C) \<le> time_Unix (now' + chia_allowAhead)" "b = fold (consider_quality C tpl) (reported es1) b0"
      by blast
    then show ?thesis
      by (intro exI [of _ "SearchTick now seen # es1"] exI [of _ now'] exI [of _ seen'] exI [of _ es2]) simp
  qed
qed simp_all

text \<open>
  The proof that \<open>getBestProof\<close> returns was asked of the collector that first reported the best quality so far,
  when its slot had come.
\<close>

lemma getBestProof_result:
  assumes "\<forall>t. 0 \<le> ct_GetTarget tpl t"
    "getBestProof C nil tid1 tid2 tpl node waiter events answers = Some (Inr (pt, cid))"
  shows "\<exists>es1 now seen es2 i pq r cid'. events (quality_request C tid1 tpl) = es1 @ SearchTick now seen # es2 \<and>
    best_of C tpl (reported es1) i \<and> reported es1 ! i = (cid, pq) \<and>
    sint (q_Slot pq * poc_PoCSlot C) \<le> time_Unix (now + chia_allowAhead) \<and>
    answers cid (proof_request tid2 tpl (as_best C tpl (cid, pq))) = Answer cid' (ReportProof r) \<and> cpt_proof pt = rr_Proof r \<and>
    cpt_time pt = slot_time C (q_Slot pq) \<and> cpt_quality pt = mass_quality C tpl pq \<and>
    cpt_chiaQuality pt = Some (workspace_quality.truncate pq)"
proof -
  let ?es = "events (quality_request C tid1 tpl)"
  obtain staled b pf where b: "best_loop C nil tpl staled ?es (no_best nil) = Some (Inr b)" "b_Collector b \<noteq> nil"
    "await_proof (answers (b_Collector b) (proof_request tid2 tpl b)) = Inr pf" "cid = b_Collector b"
    "pt = \<lparr>cpt_chiaQuality = b_WorkSpaceQuality b, cpt_proof = pf, cpt_time = slot_time C (b_Slot b), cpt_quality = b_Quality b\<rparr>"
    using assms(2) by (auto simp: getBestProof_def split: sum.splits option.splits if_splits)
  obtain es1 now seen es2 where e: "?es = es1 @ SearchTick now seen # es2"
    "sint (b_Slot b * poc_PoCSlot C) \<le> time_Unix (now + chia_allowAhead)"
    "b = fold (consider_quality C tpl) (reported es1) (no_best nil)"
    using best_loop_result [OF b(1)] by blast
  have "b \<noteq> no_best nil" using b(2) by (auto simp: no_best_def)
  then obtain i where i: "best_of C tpl (reported es1) i" "b = as_best C tpl (reported es1 ! i)"
    using consider_all [OF assms(1), of C "reported es1" nil] e(3) by auto
  obtain c pq where r: "reported es1 ! i = (c, pq)" by force
  obtain cid' rp where a: "answers (b_Collector b) (proof_request tid2 tpl b) = Answer cid' (ReportProof rp)" "pf = rr_Proof rp"
    using b(3) by (auto simp: await_proof_def split: answer.splits message.splits)
  have "c = cid" using i(2) r b(4) by (simp add: as_best_def)
  then have q: "b = as_best C tpl (cid, pq)" "reported es1 ! i = (cid, pq)" using i(2) r by simp_all
  then have "b_Slot b = q_Slot pq" "b_Quality b = mass_quality C tpl pq" "b_WorkSpaceQuality b = Some (workspace_quality.truncate pq)"
    "b_Collector b = cid" by (simp_all add: as_best_def)
  then have p: "answers cid (proof_request tid2 tpl (as_best C tpl (cid, pq))) = Answer cid' (ReportProof rp)" "cpt_proof pt = rr_Proof rp"
    "cpt_time pt = slot_time C (q_Slot pq)" "cpt_quality pt = mass_quality C tpl pq" "cpt_chiaQuality pt = Some (workspace_quality.truncate pq)"
    "sint (q_Slot pq * poc_PoCSlot C) \<le> time_Unix (now + chia_allowAhead)"
    using a b(5) e(2) q(1) by simp_all
  from e(1) i(1) q(2) p show ?thesis by blast
qed

text \<open>A report of another kind for the same task, which the superior passes on, makes the search panic.\<close>

lemma other_report_panics:
  "MsgType msg \<noteq> MsgTypeReportQualities \<Longrightarrow> best_loop C nil tpl staled (SearchReport cid msg # es) b = Some (Inl ChiaPanicType)"
  by (cases msg) (simp_all add: msg_types)

end
