(* ===== verification/Sample_Fractal.thy ===== *)
theory Sample_Fractal
  imports Chia_Miner
begin

text \<open>
  A concrete instance of the parameters of the fractal protocol: identifiers, hashes and curve elements
  are byte strings and their texts hexadecimal; the cache of tasks is an association list.
\<close>

definition hex_parse :: "string \<Rightarrow> string + bytes" where
  "hex_parse s = map_sum (\<lambda>_. ''hex'') id (hex_DecodeString s)"

definition sample_frac :: "(bytes, bytes, bytes) frac_lib" where
  "sample_frac =
     \<lparr>uuid_String = hex_EncodeToString, uuid_Parse = hex_parse, Hash_String = hex_EncodeToString,
      DecodeStringToHash = hex_parse, G1_Bytes = id, NewG1ElementFromBytes = Inr, G2_Bytes = id, NewG2ElementFromBytes = Inr\<rparr>"

lemma sample_frac_ok: "frac_lib_ok sample_frac"
  by (simp add: frac_lib_ok_def sample_frac_def hex_parse_def)

definition sample_sig :: "(bytes, bytes, bytes) message" where
  "sample_sig = ReportSignature \<lparr>ss_TaskID = [1, 2], ss_SpaceID = ''a'', ss_Hash = replicate 32 0, ss_Signature = [7]\<rparr>"

definition sample_quals :: "(bytes, bytes, bytes) message" where
  "sample_quals = ReportQualities \<lparr>rs_TaskID = [1, 2], rs_Qualities = []\<rparr>"

lemma sample_messages_ok: "message_ok sample_sig" "message_ok sample_quals"
  by (simp_all add: sample_sig_def sample_quals_def hash_ok_def)

lemma length_json_Marshal: "length (json_Marshal v) = length (json_text v)"
  by (simp add: json_Marshal_def bytes_of_string_def)

definition encoded_length :: "('u, 'g1, 'g2) frac_lib \<Rightarrow> ('u, 'g1, 'g2) message \<Rightarrow> nat option" where
  "encoded_length L m = (case EncodeMessage L m of Inl err \<Rightarrow> None | Inr d \<Rightarrow> Some (length d))"

lemma sample_encode_length:
  "encoded_length sample_frac sample_sig = Some 126" "encoded_length sample_frac sample_quals = Some 35"
  by code_simp+

lemma encoded_lengthD:
  "encoded_length L m = Some n \<Longrightarrow> \<exists>d. EncodeMessage L m = Inr d \<and> length d = n"
  by (simp add: encoded_length_def split: sum.splits)

lemma sample_fits: "fits sample_frac defaultOptions defaultOptions sample_sig" "fits sample_frac defaultOptions defaultOptions sample_quals"
proof -
  have "unat (- 1 :: u32) = 4294967295" by (simp add: unsigned_minus_1_eq_mask mask_eq_exp_minus_1)
  with sample_messages_ok encoded_lengthD [OF sample_encode_length(1)] encoded_lengthD [OF sample_encode_length(2)]
  show "fits sample_frac defaultOptions defaultOptions sample_sig" "fits sample_frac defaultOptions defaultOptions sample_quals"
    by (auto simp: fits_def deliverable_def defaultOptions_def)
qed

lemma conn_reach:
  "sender_reach L opts prs s \<Longrightarrow> conn_step opts (ms_conn s) c \<Longrightarrow> s' = s\<lparr>ms_conn := c\<rparr> \<Longrightarrow> sender_reach L opts prs s'"
  by (auto intro: reach_step snd_conn)

lemma conn_step_prio:
  "conn_step opts \<lparr>cn_prio = d # pr, cn_norm = nm, cn_out = out, cn_sent = sent, cn_pc = pc, cn_closed = False\<rparr>
     \<lparr>cn_prio = pr, cn_norm = nm, cn_out = out @ packet_bytes d, cn_sent = sent @ [d], cn_pc = SOuter, cn_closed = False\<rparr>"
  using step_write [OF _ take_prio, of "\<lparr>cn_prio = d # pr, cn_norm = nm, cn_out = out, cn_sent = sent, cn_pc = pc, cn_closed = False\<rparr>" d pr opts]
  by simp

lemma conn_step_norm:
  "conn_step opts \<lparr>cn_prio = pr, cn_norm = d # nm, cn_out = out, cn_sent = sent, cn_pc = SInner, cn_closed = False\<rparr>
     \<lparr>cn_prio = pr, cn_norm = nm, cn_out = out @ packet_bytes d, cn_sent = sent @ [d], cn_pc = SOuter, cn_closed = False\<rparr>"
  using step_write [OF _ take_norm, of "\<lparr>cn_prio = pr, cn_norm = d # nm, cn_out = out, cn_sent = sent, cn_pc = SInner, cn_closed = False\<rparr>" d nm opts]
  by simp

text \<open>A writer that has sent the qualities, and the signature before them, although it was handed over later.\<close>

lemma sample_sender_reach:
  assumes "EncodeMessage sample_frac sample_sig = Inr d1" "EncodeMessage sample_frac sample_quals = Inr d2"
    "length d1 = 126" "length d2 = 35"
  shows "sender_reach sample_frac defaultOptions NewRemoteReportWriter_priorities
    \<lparr>ms_conn = \<lparr>cn_prio = [], cn_norm = [], cn_out = packet_bytes d1 @ packet_bytes d2, cn_sent = [d1, d2], cn_pc = SOuter, cn_closed = False\<rparr>,
     ms_queue = [], ms_accepted = [sample_quals, sample_sig], ms_stopped = False\<rparr>"
proof -
  let ?L = sample_frac and ?o = defaultOptions and ?p = NewRemoteReportWriter_priorities
  let ?c = "\<lambda>pr nm out sent pc. \<lparr>cn_prio = pr, cn_norm = nm, cn_out = out, cn_sent = sent, cn_pc = pc, cn_closed = False\<rparr>"
  let ?s = "\<lambda>c q. \<lparr>ms_conn = c, ms_queue = q, ms_accepted = [sample_quals, sample_sig], ms_stopped = False\<rparr>"
  have pr: "map_of ?p (MsgType sample_sig) = Some True" "map_of ?p (MsgType sample_quals) = Some False"
    by (simp_all add: NewRemoteReportWriter_priorities_def sample_sig_def sample_quals_def msg_types)
  have m: "\<not> (- 1 :: u32) < w" for w by (simp add: linorder_not_less)
  have "sender_reach ?L ?o ?p \<lparr>ms_conn = newConn, ms_queue = [sample_quals], ms_accepted = [sample_quals], ms_stopped = False\<rparr>"
    by (rule reach_step [OF reach_new], rule snd_write [of sample_quals]) (simp add: SafeSendChannel_def NewMessageSender_def)
  then have "sender_reach ?L ?o ?p (?s (?c [] [] [] [] SOuter) [sample_quals, sample_sig])"
    by (rule reach_step, intro snd_write [of sample_sig]) (simp add: SafeSendChannel_def newConn_def)
  then have "sender_reach ?L ?o ?p (?s (?c [] [d2] [] [] SOuter) [sample_sig])"
    by (rule reach_step, intro snd_process)
      (simp add: sender_messageProcessor_def pr sendRemoteMessage_def assms checkSend_def safeSendBytes_def defaultOptions_def m Let_def)
  then have "sender_reach ?L ?o ?p (?s (?c [d1] [d2] [] [] SOuter) [])"
    by (rule reach_step, intro snd_process)
      (simp add: sender_messageProcessor_def pr sendRemoteMessage_def assms checkSend_def safeSendBytes_def defaultOptions_def m Let_def)
  then have "sender_reach ?L ?o ?p (?s (?c [] [d2] (packet_bytes d1) [d1] SOuter) [])"
    by (rule conn_reach [where c = "?c [] [d2] (packet_bytes d1) [d1] SOuter"]) 
      (use conn_step_prio [of _ d1 "[]" "[d2]" "[]" "[]"] in simp_all)
  then have "sender_reach ?L ?o ?p (?s (?c [] [d2] (packet_bytes d1) [d1] SInner) [])"
    by (rule conn_reach [where c = "?c [] [d2] (packet_bytes d1) [d1] SInner"])
      (simp_all add: step_default [of "?c [] [d2] (packet_bytes d1) [d1] SOuter", simplified])
  then show ?thesis
    by (rule conn_reach [where c = "?c [] [] (packet_bytes d1 @ packet_bytes d2) [d1, d2] SOuter"]) 
      (use conn_step_norm [of _ "[]" d2 "[]" "packet_bytes d1" "[d1]"] in simp_all)
qed

section \<open>Tasks\<close>

definition sample_cache :: "(bytes, (bytes \<times> nat) list) task_cache" where
  "sample_cache = \<lparr>uuid_Nil = [], NewCCache = [], ccache_Add = (\<lambda>k v c. take 100 ((k, v) # filter (\<lambda>e. fst e \<noteq> k) c)),
     ccache_Get = (\<lambda>k c. (map_of c k, c)), ccache_Remove = (\<lambda>k c. filter (\<lambda>e. fst e \<noteq> k) c)\<rparr>"

lemma map_of_filter_neq: "map_of (filter (\<lambda>e. fst e \<noteq> k) c) k' = (if k' = k then None else map_of c k')"
  by (induction c) auto

lemma map_of_take: "map_of (take n c) k = Some v \<Longrightarrow> map_of c k = Some v"
  by (induction c arbitrary: n) (auto simp: take_Cons split: nat.splits if_splits)

lemma sample_cache_add:
  "k' \<noteq> k \<Longrightarrow> map_of (take 100 ((k, v) # filter (\<lambda>e. fst e \<noteq> k) c)) k' = Some w \<Longrightarrow> map_of c k' = Some w"
  using map_of_take [of 99 "filter (\<lambda>e. fst e \<noteq> k) c" k' w] by (simp add: map_of_filter_neq)

lemma sample_cache_ok: "task_cache_ok sample_cache"
  unfolding task_cache_ok_def
proof (intro conjI allI impI)
  fix k k' v c w
  assume "k' \<noteq> k" "found sample_cache k' (ccache_Add sample_cache k v c) = Some w"
  then show "found sample_cache k' c = Some w"
    unfolding sample_cache_def task_cache.simps fst_conv by (rule sample_cache_add)
qed (simp_all add: sample_cache_def map_of_filter_neq)

section \<open>A collector\<close>

definition sample_collector :: "(nat, bytes, bytes, bytes) collector_lib" where
  "sample_collector =
     \<lparr>HashValChia = (\<lambda>q s h. q), Q1FactorChia = (\<lambda>k. unat k), GetQuality = (\<lambda>q h. int q),
      CalcNextRequiredDifficulty = (\<lambda>t target t'. Some target), poc_PoCSlot = 3,
      sk_GetQualities = (\<lambda>c. Inr []), sk_GetProof = (\<lambda>i c n. Inl ''none''), sk_SignHash = (\<lambda>i h. Inl ''none'')\<rparr>"

definition sample_request :: "bytes request_qualities" where
  "sample_request = \<lparr>rq_TaskID = [1], rq_Challenge = replicate 32 0, rq_ParentTarget = 30, rq_ParentSlot = 100, rq_Height = 5\<rparr>"

definition sample_quality :: "byte \<Rightarrow> bytes workspace_quality" where
  "sample_quality k = \<lparr>wsq_SpaceID = ''a'', wsq_PublicKey = [], wsq_PoolPublicKey = [], wsq_Index = 0, wsq_KSize = k,
     wsq_Quality = [], wsq_Error = None, wsq_PlotID = []\<rparr>"

section \<open>The second miner\<close>

definition sample_chia_tpl :: "bytes chia_template" where
  "sample_chia_tpl = \<lparr>ct_Height = 5, ct_Timestamp = 303000000000, ct_Previous = [3], ct_Challenge = replicate 32 0,
     ct_GetTarget = (\<lambda>t. 30), ct_PassBinding = (\<lambda>q. True)\<rparr>"

definition sample_node :: block_node where
  "sample_node = \<lparr>bn_Hash = [3], bn_Height = 4, bn_CapSum = 0, bn_Timestamp = 0, bn_Quality = 0\<rparr>"

definition reported_quality :: "byte \<Rightarrow> u64 \<Rightarrow> bytes quality" where
  "reported_quality k s = \<lparr>wsq_SpaceID = ''a'', wsq_PublicKey = [], wsq_PoolPublicKey = [], wsq_Index = 0, wsq_KSize = k,
     wsq_Quality = [], wsq_Error = None, wsq_PlotID = [], q_Slot = s\<rparr>"

lemma q_Slot_reported_quality [simp]: "q_Slot (reported_quality k s) = s"
  by (simp add: reported_quality_def)

definition sample_events :: "(bytes, bytes, bytes) search_event list" where
  "sample_events =
     [SearchReport [9] (ReportQualities \<lparr>rs_TaskID = [1], rs_Qualities = [reported_quality 35 102]\<rparr>),
      SearchReport [8] (ReportQualities \<lparr>rs_TaskID = [1], rs_Qualities = [reported_quality 33 101]\<rparr>),
      SearchTick 303000000000 []]"

definition sample_answers :: "bytes \<Rightarrow> bytes request_proof \<Rightarrow> (bytes, bytes, bytes) answer" where
  "sample_answers c r = Answer c (ReportProof \<lparr>rr_TaskID = rp_TaskID r,
     rr_Proof = \<lparr>wp2_SpaceID = ''a'', wp2_Proof = None, wp2_PublicKey = [], wp2_Ordinal = 0, wp2_Error = None\<rparr>\<rparr>)"

lemma sample_chia_returns:
  "\<exists>pt. getBestProof sample_collector [] [1] [2] sample_chia_tpl sample_node (\<lambda>_. None) (\<lambda>_. sample_events) sample_answers = Some (Inr (pt, [8]))"
  by (simp add: getBestProof_def runStaleMonitor_def sample_node_def sample_chia_tpl_def sample_events_def consider_quality_def
      no_best_def mass_quality_def sample_collector_def reported_quality_def await_proof_def sample_answers_def chia_allowAhead_def
      time_Unix_def)

end
