(* ===== verification/Fractal_Properties.thy ===== *)
theory Fractal_Properties
  imports Sample_Fractal Chia_Miner
begin

text \<open>The properties of the fractal protocol and of the miner that uses it.\<close>

section \<open>Messages\<close>

text \<open>
  C37. Round trip of messages. Every message whose hashes have 32 bytes, whose names are ASCII and whose
  fields that have no JSON counterpart are at their defaults is encoded, to two bytes for its type and
  a JSON text, and decoding these bytes gives the message back.
\<close>

theorem DecodeMessage_EncodeMessage:
  assumes "frac_lib_ok L" "message_ok msg"
  shows "\<exists>data. EncodeMessage L msg = Inr data \<and> DecodeMessage L data = Inr msg \<and>
    take 2 data = be_PutUint16 (MsgType msg)"
proof -
  obtain data where d: "EncodeMessage L msg = Inr data" "DecodeMessage L data = Inr msg"
    using message_roundtrip [OF assms] by blast
  then obtain body where "data = msgTypeToBytes (MsgType msg) @ body" by (auto simp: EncodeMessage_def split: sum.splits)
  with decode_typed(2) [of "MsgType msg"] have "take 2 data = be_PutUint16 (MsgType msg)"
    by (simp add: msgTypeToBytes_def msgTypeByteSize_def)
  with d show ?thesis by blast
qed

theorem DecodeMessage_EncodeMessage_witness:
  "\<exists>data. EncodeMessage sample_frac sample_sig = Inr data \<and> DecodeMessage sample_frac data = Inr sample_sig \<and> take 2 data = [0, 6]"
proof -
  have "be_PutUint16 (MsgType sample_sig) = [0, 6]"
    by (simp add: sample_sig_def msg_types be_PutUint16_def) code_simp
  with DecodeMessage_EncodeMessage [OF sample_frac_ok sample_messages_ok(1)] show ?thesis by simp
qed

text \<open>
  C17. A peer can crash the program. The JSON text of a report of a proof that leaves out the proof, or of
  a report of qualities with a null among them, makes \<open>DecodeMessage\<close> dereference a nil pointer; and so does
  \<open>EncodeMessage\<close> for a report whose keeper returned a proof without its proof of space.
\<close>

theorem nil_messages_panic:
  assumes "frac_lib_ok L" "wp2_Proof p = None"
  shows "DecodeMessage L (msgTypeToBytes MsgTypeReportProof @ json_Marshal (JObject [(''task_id'', JString (uuid_String L u))]))
      = Inl ProtoPanicNil \<and>
    DecodeMessage L (msgTypeToBytes MsgTypeReportQualities @
        json_Marshal (JObject [(''task_id'', JString (uuid_String L u)), (''qualities'', JArray [JNull])])) = Inl ProtoPanicNil \<and>
    EncodeMessage L (ReportProof \<lparr>rr_TaskID = u, rr_Proof = p\<rparr>) = Inl ProtoPanicNil"
proof -
  note L = frac_lib_okD [OF assms(1)]
  let ?p = "JObject [(''task_id'', JString (uuid_String L u))]"
  let ?q = "JObject [(''task_id'', JString (uuid_String L u)), (''qualities'', JArray [JNull])]"
  have "json_ok 0 ?p" "json_ok 0 ?q" using L(2) [of u] by (simp_all add: ascii_names del: ascii_simps(2))
  then have "ReportProof_SetBytes L (json_Marshal ?p) = Inl ProtoPanicNil" "ReportQualities_SetBytes L (json_Marshal ?q) = Inl ProtoPanicNil"
    using L(1) [of u]
    by (simp_all add: ReportProof_SetBytes_def ReportQualities_SetBytes_def json_roundtrip set_report_proof_def set_report_qualities_def
        struct_simps ReportProof_SetMsg_def ReportQualities_SetMsg_def NewProof_def NewQuality_def)
  then show ?thesis
    using assms(2)
    by (simp add: DecodeMessage_def EncodeMessage_def decode_typed Let_def msg_types ReportProof_Bytes_def ReportProof_Msg_def Proof_Msg_def)
qed

theorem nil_messages_panic_witness:
  "DecodeMessage sample_frac (msgTypeToBytes MsgTypeReportProof @ json_Marshal (JObject [(''task_id'', JString ''0102'')])) = Inl ProtoPanicNil"
proof -
  have "uuid_String sample_frac [1, 2] = ''0102''" by (simp add: sample_frac_def) code_simp
  with nil_messages_panic [OF sample_frac_ok, of "\<lparr>wp2_SpaceID = [], wp2_Proof = None, wp2_PublicKey = [], wp2_Ordinal = 0, wp2_Error = None\<rparr>" "[1, 2]"]
  show ?thesis by simp
qed

section \<open>Connections\<close>



section \<open>Collectors and superiors\<close>

text \<open>
  C39. A collector tries every slot once. Whatever ticks and cancellation \<open>trySlots\<close> sees, it ends the ticks
  (it never runs into the end of the slot numbers), and what it has reported is, for the slots after the
  parent's up to some slot, one after the other, the spaces whose quality exceeds the slot's target, and no
  report where there is none. If it is not cancelled, that slot is the bound of the latest tick that passed:
  ten slots beyond the clock.
\<close>

theorem trySlots_reports_each_slot:
  assumes "\<forall>s. calcTarget C req s \<noteq> None" "1 < poc_PoCSlot C"
  shows "\<exists>n. (trySlots C req qs es (rq_ParentSlot req + 1) [] = Some (SearchDone (slot_reports C req qs (rq_ParentSlot req + 1) n)) \<and>
       \<not> list_all not_done es) \<or>
     (trySlots C req qs es (rq_ParentSlot req + 1) [] =
        Some (Searching (word_of_nat n) (slot_reports C req qs (rq_ParentSlot req + 1) n)) \<and>
       n = next_slot_after C es (unat (rq_ParentSlot req + 1)))"
proof -
  have "slot_reports C req qs a (unat a) = []" for a by (simp add: slot_reports_def slot_range_def)
  with trySlots_result [of C req "rq_ParentSlot req + 1" "rq_ParentSlot req + 1" qs es] assms show ?thesis by auto
qed

theorem trySlots_reports_each_slot_witness:
  "trySlots sample_collector sample_request [sample_quality 25, sample_quality 35] [CTick 280 (\<lambda>_. False), CTick 283 (\<lambda>_. False)] 101 [] =
    Some (Searching 105 (slot_reports sample_collector sample_request [sample_quality 25, sample_quality 35] 101 105)) \<and>
   slot_reports sample_collector sample_request [sample_quality 25, sample_quality 35] 101 105 =
     map (\<lambda>s. ReportQualities \<lparr>rs_TaskID = [1], rs_Qualities = [workspace_quality.extend (sample_quality 35) (quality.fields s)]\<rparr>) [101, 102, 103, 104]"
proof -
  let ?es = "[CTick 280 (\<lambda>_. False), CTick 283 (\<lambda>_. False)]"
  have "next_slot_after sample_collector ?es 101 = 105"
    by (simp add: next_slot_after_def tick_limit_def fractal_nowSlot_def sample_collector_def fractal_allowAhead_def)
  moreover have "list_all not_done ?es" by (simp add: not_done_def)
  ultimately have "trySlots sample_collector sample_request [sample_quality 25, sample_quality 35] ?es 101 [] =
    Some (Searching 105 (slot_reports sample_collector sample_request [sample_quality 25, sample_quality 35] 101 105))"
    using trySlots_reports_each_slot [of sample_collector sample_request "[sample_quality 25, sample_quality 35]" ?es]
    by (simp add: sample_request_def calcTarget_def sample_collector_def)
  moreover have "[101 ..< 105] = [101, 102, 103, 104 :: nat]" by (simp add: upt_rec)
  ultimately show ?thesis
    by (simp add: slot_reports_def slot_range_def slot_report_def reportQualities_def calcTarget_def sample_collector_def
        sample_request_def sample_quality_def)
qed



section \<open>The search over collectors\<close>

text \<open>
  C7. The second miner takes the best quality of all collectors. If \<open>getBestProof\<close> returns, it was at a tick before
  which, among the reported qualities that exceed the target of their slot and whose plot is bound, the one
  it takes is of the earliest slot, in that slot the greatest, and of equal ones the first; the clock had
  reached that slot, up to nanoseconds. The proof is the answer of the collector that reported it to a request for
  that very plot and index, and its time is that of the slot.
\<close>

theorem getBestProof_takes_best:
  assumes "\<forall>t. 0 \<le> ct_GetTarget tpl t"
    "getBestProof C nil tid1 tid2 tpl node waiter events answers = Some (Inr (pt, cid))"
  shows "\<exists>es1 now seen es2 i pq r cid'. events (quality_request C tid1 tpl) = es1 @ SearchTick now seen # es2 \<and>
    best_of C tpl (reported es1) i \<and> reported es1 ! i = (cid, pq) \<and>
    sint (q_Slot pq * poc_PoCSlot C) \<le> time_Unix (now + 5) \<and>
    answers cid \<lparr>rp_TaskID = tid2, rp_Height = ct_Height tpl, rp_SpaceID = wsq_SpaceID pq, rp_Challenge = ct_Challenge tpl,
      rp_Index = wsq_Index pq\<rparr> = Answer cid' (ReportProof r) \<and> cpt_proof pt = rr_Proof r \<and>
    cpt_time pt = slot_time C (q_Slot pq) \<and> cpt_quality pt = mass_quality C tpl pq"
proof -
  have "proof_request tid2 tpl (as_best C tpl (c, pq)) = \<lparr>rp_TaskID = tid2, rp_Height = ct_Height tpl, rp_SpaceID = wsq_SpaceID pq,
      rp_Challenge = ct_Challenge tpl, rp_Index = wsq_Index pq\<rparr>" for c pq
    by (simp add: proof_request_def as_best_def)
  with getBestProof_result [OF assms] show ?thesis unfolding chia_allowAhead_def by metis
qed

theorem getBestProof_takes_best_witness:
  "\<exists>pt i pq. getBestProof sample_collector [] [1] [2] sample_chia_tpl sample_node (\<lambda>_. None) (\<lambda>_. sample_events) sample_answers = Some (Inr (pt, [8])) \<and>
     best_of sample_collector sample_chia_tpl (reported (take 2 sample_events)) i \<and> reported (take 2 sample_events) ! i = ([8], pq) \<and> q_Slot pq = 101"
proof -
  obtain pt where r: "getBestProof sample_collector [] [1] [2] sample_chia_tpl sample_node (\<lambda>_. None) (\<lambda>_. sample_events) sample_answers = Some (Inr (pt, [8]))"
    using sample_chia_returns by blast
  have "\<forall>t. 0 \<le> ct_GetTarget sample_chia_tpl t" by (simp add: sample_chia_tpl_def)
  from getBestProof_takes_best [OF this r] obtain es1 now seen es2 i pq where
    e: "sample_events = es1 @ SearchTick now seen # es2" "best_of sample_collector sample_chia_tpl (reported es1) i" "reported es1 ! i = ([8], pq)"
    by blast
  have "es1 = take 2 sample_events" using e(1) by (auto simp: sample_events_def append_eq_Cons_conv Cons_eq_append_conv)
  moreover from this have "q_Slot pq = 101"
    using e(2,3) by (auto simp: sample_events_def best_of_def less_Suc_eq nth_Cons' split: if_splits)
  ultimately show ?thesis using r e(2,3) by blast
qed

end
