(* ===== verification/Go_Fields.thy ===== *)
theory Go_Fields
  imports Go_Text
begin

text \<open>
  \<open>strings.Fields\<close> and \<open>strings.TrimSpace\<close> of Go, on strings of bytes in UTF-8: white space are the characters
  of \<open>unicode.IsSpace\<close>. As UTF-8 marks the first byte of a character, looking for their bytes at every
  position finds them at the same places as reading the string character by character.
\<close>

definition go_spaces :: "string list" where
  "go_spaces =
     [[CHR 0x20], [CHR 0x09], [CHR 0x0A], [CHR 0x0B], [CHR 0x0C], [CHR 0x0D], [CHR 0xC2, CHR 0x85], [CHR 0xC2, CHR 0xA0],
      [CHR 0xE1, CHR 0x9A, CHR 0x80]] @
     map (\<lambda>c. [CHR 0xE2, CHR 0x80, c])
       [CHR 0x80, CHR 0x81, CHR 0x82, CHR 0x83, CHR 0x84, CHR 0x85, CHR 0x86, CHR 0x87, CHR 0x88, CHR 0x89, CHR 0x8A,
        CHR 0xA8, CHR 0xA9, CHR 0xAF] @
     [[CHR 0xE2, CHR 0x81, CHR 0x9F], [CHR 0xE3, CHR 0x80, CHR 0x80]]"

definition space_len :: "string \<Rightarrow> nat" where
  "space_len s = (case find (\<lambda>p. take (length p) s = p) go_spaces of None \<Rightarrow> 0 | Some p \<Rightarrow> length p)"

function fields :: "string \<Rightarrow> string \<Rightarrow> string list" where
  "fields cur [] = (if cur = [] then [] else [cur])"
| "fields cur (c # cs) =
     (let k = space_len (c # cs) in
      if k > 0 then (if cur = [] then [] else [cur]) @ fields [] (drop k (c # cs))
      else fields (cur @ [c]) cs)"
  by pat_completeness auto
termination
  by (relation "measure (\<lambda>(cur, s). length s)") auto

definition strings_Fields :: "string \<Rightarrow> string list" where
  "strings_Fields s = fields [] s"

function trim_left :: "string \<Rightarrow> string" where
  "trim_left s = (if s \<noteq> [] \<and> space_len s > 0 then trim_left (drop (space_len s) s) else s)"
  by pat_completeness auto
termination
  by (relation "measure length") auto

declare trim_left.simps [simp del]

definition space_suffix :: "string \<Rightarrow> string option" where
  "space_suffix s = find (\<lambda>p. length p \<le> length s \<and> drop (length s - length p) s = p) go_spaces"

lemma find_SomeD: "find P xs = Some x \<Longrightarrow> x \<in> set xs \<and> P x"
  by (induction xs) (auto split: if_splits)

lemma go_spaces_nonempty: "p \<in> set go_spaces \<Longrightarrow> p \<noteq> []"
  by (auto simp: go_spaces_def)

lemma space_suffixD:
  "space_suffix s = Some p \<Longrightarrow> p \<in> set go_spaces \<and> length p \<le> length s \<and> drop (length s - length p) s = p"
  unfolding space_suffix_def by (drule find_SomeD) simp

function trim_right :: "string \<Rightarrow> string" where
  "trim_right s = (case space_suffix s of None \<Rightarrow> s | Some p \<Rightarrow> trim_right (take (length s - length p) s))"
  by pat_completeness auto
termination
proof (relation "measure length")
  fix s p
  assume "space_suffix s = Some p"
  then have "p \<noteq> []" "length p \<le> length s" using space_suffixD go_spaces_nonempty by blast+
  then show "(take (length s - length p) s, s) \<in> measure length" by (cases p) simp_all
qed simp

declare trim_right.simps [simp del]

definition strings_TrimSpace :: "string \<Rightarrow> string" where
  "strings_TrimSpace s = trim_right (trim_left s)"

section \<open>White space separates fields\<close>

definition is_cont :: "char \<Rightarrow> bool" where
  "is_cont c \<longleftrightarrow> 128 \<le> (of_char c :: nat) \<and> (of_char c :: nat) < 192"

lemma go_spaces_utf8: "p \<in> set go_spaces \<Longrightarrow> \<not> is_cont (hd p) \<and> list_all is_cont (tl p)"
  by (auto simp: go_spaces_def is_cont_def)

lemma space_len_append:
  assumes "s \<noteq> []" "r = [] \<or> \<not> is_cont (hd r)"
  shows "space_len (s @ r) = space_len s"
proof -
  have "take (length q) (s @ r) = q \<longleftrightarrow> take (length q) s = q" if "q \<in> set go_spaces" for q
  proof (cases "length q \<le> length s")
    case False
    then have "take (length q) s \<noteq> q" by (metis length_take min_def nat_le_linear)
    moreover have "take (length q) (s @ r) \<noteq> q"
    proof
      assume e: "take (length q) (s @ r) = q"
      then have "r \<noteq> []" using False by auto
      then obtain x xs where r: "r = x # xs" by (cases r) auto
      obtain y ys where s: "s = y # ys" using assms(1) by (cases s) auto
      have "q = s @ take (length q - length s) r" using e False by simp
      then have "x \<in> set (tl q)" using False by (simp add: r s take_Cons split: nat.splits)
      with go_spaces_utf8 [OF that] assms(2) r show False by (auto simp: list_all_iff)
    qed
    ultimately show ?thesis by simp
  qed simp
  then have "find (\<lambda>q. take (length q) (s @ r) = q) go_spaces = find (\<lambda>q. take (length q) s = q) go_spaces"
    by (intro find_cong) auto
  then show ?thesis by (simp add: space_len_def)
qed

lemma go_spaces_prefix_free: "p \<in> set go_spaces \<Longrightarrow> q \<in> set go_spaces \<Longrightarrow> take (length q) p = q \<Longrightarrow> q = p"
proof -
  have "list_all (\<lambda>p. list_all (\<lambda>q. take (length q) p = q \<longrightarrow> q = p) go_spaces) go_spaces" by code_simp
  then show "p \<in> set go_spaces \<Longrightarrow> q \<in> set go_spaces \<Longrightarrow> take (length q) p = q \<Longrightarrow> q = p" by (simp add: list_all_iff)
qed

lemma find_unique:
  assumes "x \<in> set xs" "P x" "\<And>y. y \<in> set xs \<Longrightarrow> P y \<Longrightarrow> y = x"
  shows "find P xs = Some x"
proof (cases "find P xs")
  case None
  with assms(1,2) show ?thesis by (simp add: find_None_iff)
next
  case (Some y)
  with find_SomeD [OF Some] assms(3) [of y] show ?thesis by simp
qed

lemma space_len_space:
  assumes "p \<in> set go_spaces"
  shows "space_len (p @ r) = length p"
proof -
  have "q = p" if q: "q \<in> set go_spaces" "take (length q) (p @ r) = q" for q
  proof (cases "length q \<le> length p")
    case True
    with q(2) have "take (length q) p = q" by simp
    with go_spaces_prefix_free [OF assms q(1)] show ?thesis by simp
  next
    case False
    with q(2) have "take (length p) q = p" by (metis append_eq_conv_conj nat_le_linear take_append take_all_iff)
    with go_spaces_prefix_free [OF q(1) assms] show ?thesis by simp
  qed
  then have "find (\<lambda>q. take (length q) (p @ r) = q) go_spaces = Some p"
    using assms by (intro find_unique) simp_all
  then show ?thesis by (simp add: space_len_def)
qed

lemma fields_space:
  assumes "p \<in> set go_spaces"
  shows "fields cur (s @ p @ r) = fields cur s @ fields [] r"
proof (induction cur s rule: fields.induct)
  case (1 cur)
  obtain c cs where p: "p = c # cs" using go_spaces_nonempty [OF assms] by (cases p) auto
  then show ?case using space_len_space [OF assms, of r] by (simp add: Let_def)
next
  case (2 cur c cs)
  have "space_len (c # cs @ p @ r) = space_len (c # cs)"
    using space_len_append [of "c # cs" "p @ r"] go_spaces_utf8 [OF assms] go_spaces_nonempty [OF assms] by simp
  moreover have "space_len (c # cs) \<le> length (c # cs)"
    using find_SomeD [of "\<lambda>p. take (length p) (c # cs) = p" go_spaces]
    by (auto simp: space_len_def split: option.split) (metis length_take min.cobounded1 length_Cons)
  moreover from this have "drop (space_len (c # cs)) (c # cs @ p @ r) = drop (space_len (c # cs)) (c # cs) @ p @ r"
    using drop_append [of "space_len (c # cs)" "c # cs" "p @ r"] by simp
  ultimately show ?case using 2 by (simp add: Let_def)
qed

lemma fields_trim_left: "fields [] (trim_left s) = fields [] s"
proof (induction s rule: trim_left.induct)
  case (1 s)
  show ?case
  proof (cases s)
    case (Cons c cs)
    with 1 show ?thesis by (subst trim_left.simps) (simp add: Let_def)
  qed (simp add: trim_left.simps)
qed

lemma fields_trim_right: "fields [] (trim_right s) = fields [] s"
proof (induction s rule: trim_right.induct)
  case (1 s)
  show ?case
  proof (cases "space_suffix s")
    case (Some p)
    then have p: "p \<in> set go_spaces" "length p \<le> length s" "drop (length s - length p) s = p"
      using space_suffixD by blast+
    have "fields [] s = fields [] (take (length s - length p) s @ p @ [])"
      using p(3) append_take_drop_id [of "length s - length p" s] by simp
    also have "\<dots> = fields [] (take (length s - length p) s)" by (simp only: fields_space [OF p(1)]) simp
    finally show ?thesis using 1 Some by (simp add: trim_right.simps [of s])
  qed (simp add: trim_right.simps)
qed

lemma Fields_TrimSpace: "strings_Fields (strings_TrimSpace s) = strings_Fields s"
  by (simp add: strings_Fields_def strings_TrimSpace_def fields_trim_left fields_trim_right)

lemma Fields_Join:
  assumes "\<forall>w\<in>set ws. strings_Fields w = [w]"
  shows "strings_Fields (strings_Join ws '' '') = ws"
  using assms
proof (induction ws "'' ''" rule: strings_Join.induct)
  case (3 x y ys)
  have "strings_Fields (x @ '' '' @ strings_Join (y # ys) '' '') = strings_Fields x @ strings_Fields (strings_Join (y # ys) '' '')"
    unfolding strings_Fields_def by (rule fields_space) (simp add: go_spaces_def)
  with 3 show ?case by simp
qed (simp_all add: strings_Fields_def)

end
