(* ===== verification/Mnemonic.thy ===== *)
theory Mnemonic
  imports Go_Big Go_Fields
begin

unbundle bit_operations_syntax

text \<open>
  Mnemonics: \<open>poc/wallet/keystore/mnemonic.go\<close>. Entropy of 16 to 32 bytes, followed by as many bits of its hash
  as it has groups of four bytes, is written as words of a list of 2048. The list and the hash are
  parameters; the big integers of the source are natural numbers here.
\<close>

section \<open>Definitions\<close>

datatype mn_error =
    ErrInvalidMnemonic | ErrInvalidMnemonicWord | ErrEntropyLengthInvalid | ErrChecksumIncorrect | ErrRandRead | MnPanicIndex | MnPanicNil

definition wordLengthChecksumMasksMapping :: "(nat \<times> nat) list" where
  "wordLengthChecksumMasksMapping = [(12, 15), (15, 31), (18, 63), (21, 127), (24, 255)]"

definition wordLengthChecksumShiftMapping :: "(nat \<times> nat) list" where
  "wordLengthChecksumShiftMapping = [(12, 16), (15, 8), (18, 4), (21, 2)]"

text \<open>\<open>SetWordList\<close> fills the map from words to their indices.\<close>

definition SetWordList :: "string list \<Rightarrow> string \<rightharpoonup> nat" where
  "SetWordList wl = fold (\<lambda>(i, v) wordMap. wordMap(v \<mapsto> i)) (List.enumerate 0 wl) Map.empty"

text \<open>The length of entropy in bits, which as that of a slice is not negative.\<close>

definition validateEntropyBitSize :: "nat \<Rightarrow> mn_error option" where
  "validateEntropyBitSize bitSize =
     (if bitSize mod 32 \<noteq> 0 \<or> bitSize < 128 \<or> bitSize > 256 then Some ErrEntropyLengthInvalid else None)"

definition NewEntropy :: "(nat \<Rightarrow> bytes option) \<Rightarrow> nat \<Rightarrow> mn_error + bytes" where
  "NewEntropy rand_Read bitSize =
     (case validateEntropyBitSize bitSize of Some err \<Rightarrow> Inl err
      | None \<Rightarrow> (case rand_Read (bitSize div 8) of None \<Rightarrow> Inl ErrRandRead | Some entropy \<Rightarrow> Inr entropy))"

definition padByteSlice :: "bytes \<Rightarrow> nat \<Rightarrow> bytes" where
  "padByteSlice bs n = (if n \<le> length bs then bs else replicate (n - length bs) 0 @ bs)"

definition computeChecksum :: "(bytes \<Rightarrow> bytes) \<Rightarrow> bytes \<Rightarrow> bytes" where
  "computeChecksum sha256 data = sha256 data"

text \<open>The loop of \<open>addChecksum\<close>; the shifted bit is zero once it leaves the byte.\<close>

function checksum_loop :: "byte \<Rightarrow> nat \<Rightarrow> nat \<Rightarrow> nat \<Rightarrow> nat" where
  "checksum_loop firstChecksumByte checksumBitLength i dataBigInt =
     (if i < checksumBitLength then
        let d = dataBigInt * 2 in
        checksum_loop firstChecksumByte checksumBitLength (i + 1)
          (if i \<le> 7 \<and> firstChecksumByte AND push_bit (7 - i) 1 > 0 then d OR 1 else d)
      else dataBigInt)"
  by pat_completeness auto
termination
  by (relation "measure (\<lambda>(f, c, i, d). c - i)") auto

declare checksum_loop.simps [simp del]

definition addChecksum :: "(bytes \<Rightarrow> bytes) \<Rightarrow> bytes \<Rightarrow> bytes" where
  "addChecksum sha256 data =
     (let hash = computeChecksum sha256 data;
          firstChecksumByte = hash ! 0;
          checksumBitLength = length data div 4
      in nat_bytes (checksum_loop firstChecksumByte checksumBitLength 0 (bytes_val data)))"

text \<open>The loop of \<open>NewMnemonic\<close>, which fills the slots of the sentence from the last one.\<close>

fun mnemonic_words :: "string list \<Rightarrow> nat \<Rightarrow> nat \<Rightarrow> string list \<Rightarrow> mn_error + string list" where
  "mnemonic_words wl 0 entropyInt words = Inr words"
| "mnemonic_words wl (Suc i) entropyInt words =
     (let word = entropyInt AND 2047;
          wordBytes = padByteSlice (nat_bytes word) 2;
          idx = unat (be_Uint16 wordBytes)
      in if idx < length wl then mnemonic_words wl i (entropyInt div 2048) (wl ! idx # words)
         else Inl MnPanicIndex)"

definition NewMnemonic :: "string list \<Rightarrow> (bytes \<Rightarrow> bytes) \<Rightarrow> bytes \<Rightarrow> mn_error + string" where
  "NewMnemonic wl sha256 entropy =
     (let entropyBitLength = length entropy * 8;
          checksumBitLength = entropyBitLength div 32;
          sentenceLength = (entropyBitLength + checksumBitLength) div 11
      in case validateEntropyBitSize entropyBitLength of
           Some err \<Rightarrow> Inl err
         | None \<Rightarrow>
           (case mnemonic_words wl sentenceLength (bytes_val (addChecksum sha256 entropy)) [] of
              Inl err \<Rightarrow> Inl err | Inr words \<Rightarrow> Inr (strings_Join words '' '')))"

definition splitMnemonicWords :: "string \<Rightarrow> string list option" where
  "splitMnemonicWords mnemonic =
     (let words = strings_Fields mnemonic; numOfWords = length words in
      if numOfWords mod 3 \<noteq> 0 \<or> numOfWords < 12 \<or> numOfWords > 24 then None else Some words)"

fun decode_words :: "(string \<rightharpoonup> nat) \<Rightarrow> string list \<Rightarrow> nat \<Rightarrow> mn_error + nat" where
  "decode_words wordMap [] b = Inr b"
| "decode_words wordMap (v # vs) b =
     (case wordMap v of None \<Rightarrow> Inl ErrInvalidMnemonicWord
      | Some index \<Rightarrow> decode_words wordMap vs ((b * 2048) OR bytes_val (be_PutUint16 (word_of_nat index))))"

definition EntropyFromMnemonic :: "string list \<Rightarrow> (bytes \<Rightarrow> bytes) \<Rightarrow> string \<Rightarrow> mn_error + bytes" where
  "EntropyFromMnemonic wl sha256 mnemonic =
     (case splitMnemonicWords mnemonic of None \<Rightarrow> Inl ErrInvalidMnemonic
      | Some mnemonicSlice \<Rightarrow>
        (case decode_words (SetWordList wl) mnemonicSlice 0 of Inl err \<Rightarrow> Inl err
         | Inr b \<Rightarrow>
           (case map_of wordLengthChecksumMasksMapping (length mnemonicSlice) of None \<Rightarrow> Inl MnPanicNil
            | Some checksumMask \<Rightarrow>
              let checksum = b AND checksumMask;
                  entropy = padByteSlice (nat_bytes (b div (checksumMask + 1))) (length mnemonicSlice div 3 * 4);
                  entropyChecksum = unat (computeChecksum sha256 entropy ! 0);
                  shifted = (if length mnemonicSlice \<noteq> 24
                    then map_option (\<lambda>checksumShift. entropyChecksum div checksumShift)
                      (map_of wordLengthChecksumShiftMapping (length mnemonicSlice))
                    else Some entropyChecksum)
              in case shifted of None \<Rightarrow> Inl MnPanicNil
                 | Some c \<Rightarrow> if checksum \<noteq> c then Inl ErrChecksumIncorrect else Inr entropy)))"

definition IsMnemonicValid :: "string list \<Rightarrow> string \<Rightarrow> bool" where
  "IsMnemonicValid wl mnemonic \<longleftrightarrow>
     (let words = strings_Fields mnemonic; wordCount = length words in
      \<not> (wordCount mod 3 \<noteq> 0 \<or> wordCount < 12 \<or> wordCount > 24) \<and>
      list_all (\<lambda>word. SetWordList wl word \<noteq> None) words)"

definition MnemonicToByteArray :: "string list \<Rightarrow> (bytes \<Rightarrow> bytes) \<Rightarrow> string \<Rightarrow> bool list \<Rightarrow> mn_error + bytes" where
  "MnemonicToByteArray wl sha256 mnemonic raw =
     (let mnemonicSlice = strings_Fields (strings_TrimSpace mnemonic);
          entropyBitSize = length mnemonicSlice * 11;
          checksumBitSize = entropyBitSize mod 32;
          fullByteSize = (entropyBitSize - checksumBitSize) div 8 + 1;
          checksumByteSize = fullByteSize - fullByteSize mod 4
      in if \<not> IsMnemonicValid wl mnemonic then Inl ErrInvalidMnemonic
         else
           let checksummedEntropy =
                 foldl (\<lambda>e v. e * 2048 + (case SetWordList wl v of None \<Rightarrow> 0 | Some i \<Rightarrow> i)) 0 mnemonicSlice;
               rawEntropy = checksummedEntropy div 2 ^ checksumBitSize;
               rawEntropyBytes = padByteSlice (nat_bytes rawEntropy) checksumByteSize;
               checksummedEntropyBytes = padByteSlice (nat_bytes checksummedEntropy) fullByteSize;
               newChecksummedEntropyBytes = padByteSlice (addChecksum sha256 rawEntropyBytes) fullByteSize
           in if checksummedEntropyBytes \<noteq> newChecksummedEntropyBytes then Inl ErrChecksumIncorrect
              else if raw \<noteq> [] \<and> raw ! 0 then Inr rawEntropyBytes
              else Inr checksummedEntropyBytes)"

definition NewSeed :: "(bytes \<Rightarrow> bytes \<Rightarrow> bytes) \<Rightarrow> bytes \<Rightarrow> bytes \<Rightarrow> bytes" where
  "NewSeed pbkdf2_Key mnemonic password = pbkdf2_Key mnemonic (map (\<lambda>c. word_of_nat (of_char c)) ''mnemonic'' @ password)"

definition NewSeedWithErrorChecking ::
  "string list \<Rightarrow> (bytes \<Rightarrow> bytes) \<Rightarrow> (bytes \<Rightarrow> bytes \<Rightarrow> bytes) \<Rightarrow> string \<Rightarrow> bytes \<Rightarrow> mn_error + bytes" where
  "NewSeedWithErrorChecking wl sha256 pbkdf2_Key mnemonic password =
     (case MnemonicToByteArray wl sha256 mnemonic [] of Inl err \<Rightarrow> Inl err
      | Inr _ \<Rightarrow> Inr (NewSeed pbkdf2_Key (map (\<lambda>c. word_of_nat (of_char c)) mnemonic) password))"

section \<open>Words and numbers\<close>

definition wordlist_ok :: "string list \<Rightarrow> bool" where
  "wordlist_ok wl \<longleftrightarrow> length wl = 2048 \<and> distinct wl \<and> list_all (\<lambda>w. strings_Fields w = [w]) wl"

lemma SetWordList_snoc: "SetWordList (wl @ [v]) = (SetWordList wl)(v \<mapsto> length wl)"
  by (simp add: SetWordList_def enumerate_append_eq)

lemma SetWordList_SomeD: "SetWordList wl w = Some i \<Longrightarrow> i < length wl \<and> wl ! i = w"
proof (induction wl arbitrary: i rule: rev_induct)
  case (snoc v wl)
  then show ?case by (auto simp: SetWordList_snoc nth_append split: if_splits)
qed (simp add: SetWordList_def)

lemma SetWordList_nth: "distinct wl \<Longrightarrow> i < length wl \<Longrightarrow> SetWordList wl (wl ! i) = Some i"
proof (induction wl rule: rev_induct)
  case (snoc v wl)
  then show ?case by (cases "i < length wl") (auto simp: SetWordList_snoc nth_append)
qed simp

text \<open>Numbers in base 2048.\<close>

fun digits :: "nat \<Rightarrow> nat \<Rightarrow> nat list" where
  "digits 0 n = []"
| "digits (Suc k) n = digits k (n div 2048) @ [n mod 2048]"

definition word_val :: "nat list \<Rightarrow> nat" where
  "word_val is = foldl (\<lambda>b i. b * 2048 + i) 0 is"

lemma word_val_snoc [simp]: "word_val [] = 0" "word_val (is @ [i]) = word_val is * 2048 + i"
  by (simp_all add: word_val_def)

lemma length_digits [simp]: "length (digits k n) = k"
  by (induction k arbitrary: n) simp_all

lemma digits_less: "i \<in> set (digits k n) \<Longrightarrow> i < 2048"
  by (induction k arbitrary: n) auto

lemma word_val_digits: "n < 2048 ^ k \<Longrightarrow> word_val (digits k n) = n"
proof (induction k arbitrary: n)
  case (Suc k)
  then have "n div 2048 < 2048 ^ k" by (simp add: less_mult_imp_div_less mult.commute)
  with Suc.IH show ?case by simp
qed simp

lemma digits_word_val: "\<forall>i\<in>set is. i < 2048 \<Longrightarrow> digits (length is) (word_val is) = is"
  by (induction "is" rule: rev_induct) simp_all

lemma word_val_bound: "\<forall>i\<in>set is. i < 2048 \<Longrightarrow> word_val is < 2048 ^ length is"
proof (induction "is" rule: rev_induct)
  case (snoc i "is")
  then have "word_val is + 1 \<le> 2048 ^ length is" "i < 2048" by auto
  then have "(word_val is + 1) * 2048 \<le> 2048 ^ length is * 2048" by (intro mult_le_mono1)
  with \<open>i < 2048\<close> show ?case by simp
qed simp

section \<open>Bytes\<close>

lemma bytes_val_pad [simp]: "bytes_val (padByteSlice bs n) = bytes_val bs"
  by (simp add: padByteSlice_def)

lemma length_pad: "length bs \<le> n \<Longrightarrow> length (padByteSlice bs n) = n"
  by (simp add: padByteSlice_def)

lemma pad_bytes_val: "padByteSlice (nat_bytes (bytes_val bs)) (length bs) = bs"
  using length_nat_bytes [OF bytes_val_bound [of bs]] by (intro bytes_val_inj) (simp_all add: length_pad)

lemma pad_eq_iff: "padByteSlice (nat_bytes m) k = padByteSlice (nat_bytes n) k \<longleftrightarrow> m = n"
  by (metis bytes_val_pad bytes_val_nat_bytes)

lemma and_2047: "n AND 2047 = n mod 2048" for n :: nat
  using take_bit_eq_mask [of 11 n] by (simp add: take_bit_eq_mod mask_eq_exp_minus_1)

lemma or_2048: "i < 2048 \<Longrightarrow> (b * 2048) OR i = b * 2048 + i" for b i :: nat
proof -
  assume i: "i < 2048"
  have "\<not> bit i n" if "11 \<le> n" for n
  proof -
    have "i < 2 ^ n" using i power_increasing [OF that, of "2::nat"] by simp
    then show ?thesis by (simp add: bit_iff_odd)
  qed
  moreover have "\<not> bit (b * 2048) n" if "n < 11" for n
    using that bit_push_bit_iff [of 11 b n] by (simp add: push_bit_eq_mult)
  ultimately have "\<not> (bit (b * 2048) n \<and> bit i n)" for n by (meson not_less)
  then show "(b * 2048) OR i = b * 2048 + i"
    by (intro disjunctive_add_eq_or [symmetric] bit_eqI) (simp add: bit_and_iff)
qed

lemma word_bytes: "w < 65536 \<Longrightarrow> unat (be_Uint16 (padByteSlice (nat_bytes w) 2)) = w"
proof -
  assume w: "w < 65536"
  let ?p = "padByteSlice (nat_bytes w) 2"
  have "length ?p = 2" using length_nat_bytes [of w 2] w by (intro length_pad) simp
  moreover have "le_get (rev ?p) = w" using bytes_val_le_get [of ?p] by simp
  ultimately show ?thesis using w by (simp add: be_Uint16_def unat_of_nat_bound)
qed

lemma index_bytes: "i < 65536 \<Longrightarrow> bytes_val (be_PutUint16 (word_of_nat i)) = i"
  by (simp add: be_PutUint16_def bytes_val_le_get le_get_put unat_of_nat_bound)

lemma checksum_bit:
  fixes f :: byte
  assumes "k < 8"
  shows "f AND push_bit k 1 > 0 \<longleftrightarrow> unat f div 2 ^ k mod 2 = 1"
proof -
  have "f AND push_bit k 1 > 0 \<longleftrightarrow> bit f k"
    using and_exp_eq_0_iff_not_bit [of f k] by (simp add: push_bit_eq_mult word_gt_0)
  also have "\<dots> \<longleftrightarrow> bit (unat f) k" using assms by (simp add: bit_unsigned_iff)
  finally show ?thesis by (simp add: bit_iff_odd odd_iff_mod_2_eq_one)
qed

lemma checksum_loop_val:
  assumes "i \<le> c" "c \<le> 8"
  shows "checksum_loop f c i n = n * 2 ^ (c - i) + unat f mod 2 ^ (8 - i) div 2 ^ (8 - c)"
  using assms(1)
proof (induction "c - i" arbitrary: i n)
  case 0
  then show ?case by (subst checksum_loop.simps) simp
next
  case (Suc d)
  then have i: "i < c" by simp
  define b where "b = unat f div 2 ^ (7 - i) mod 2"
  have b: "(if i \<le> 7 \<and> f AND push_bit (7 - i) 1 > 0 then n * 2 OR 1 else n * 2) = n * 2 + b"
    using i assms(2) checksum_bit [of "7 - i" f] or_one_eq [of "n * 2"] by (simp add: b_def)
  have "checksum_loop f c i n = checksum_loop f c (i + 1) (n * 2 + b)"
    using i b by (subst checksum_loop.simps) (simp add: Let_def)
  also have "\<dots> = (n * 2 + b) * 2 ^ (c - (i + 1)) + unat f mod 2 ^ (8 - (i + 1)) div 2 ^ (8 - c)"
    using Suc.hyps(2) i by (intro Suc.hyps(1)) simp_all
  also have "\<dots> = n * 2 ^ (c - i) + unat f mod 2 ^ (8 - i) div 2 ^ (8 - c)"
  proof -
    have p: "8 - i = Suc (7 - i)" "c - i = Suc (c - (i + 1))" using i assms(2) by simp_all
    have "unat f mod 2 ^ (8 - i) = unat f mod 2 ^ (7 - i) + 2 ^ (7 - i) * b"
      unfolding p(1) b_def using mod_mult2_eq [of "unat f" "2 ^ (7 - i)" 2] by (simp add: mult.commute)
    moreover have "2 ^ (7 - i) * b = 2 ^ (8 - c) * (b * 2 ^ (c - (i + 1)))"
      using i assms(2) by (simp flip: power_add mult.assoc add: mult.commute [of _ b])
    ultimately have "unat f mod 2 ^ (8 - i) div 2 ^ (8 - c) = b * 2 ^ (c - (i + 1)) + unat f mod 2 ^ (7 - i) div 2 ^ (8 - c)"
      by (simp only: div_mult_self2 power_not_zero zero_neq_numeral not_False_eq_True)
    then show ?thesis by (simp add: p(2) algebra_simps)
  qed
  finally show ?case .
qed

text \<open>The checksum of entropy of \<open>4 * c\<close> bytes.\<close>

definition checksum_val :: "(bytes \<Rightarrow> bytes) \<Rightarrow> nat \<Rightarrow> bytes \<Rightarrow> nat" where
  "checksum_val sha256 c entropy = unat (sha256 entropy ! 0) div 2 ^ (8 - c)"

lemma addChecksum_val:
  "length e = 4 * c \<Longrightarrow> c \<le> 8 \<Longrightarrow> addChecksum sha256 e = nat_bytes (bytes_val e * 2 ^ c + checksum_val sha256 c e)"
  using unat_lt2p [of "sha256 e ! 0"]
  by (simp add: addChecksum_def computeChecksum_def Let_def checksum_loop_val checksum_val_def)

lemma checksum_val_less: "c \<le> 8 \<Longrightarrow> checksum_val sha256 c e < 2 ^ c"
proof -
  assume c: "c \<le> 8"
  have "unat (sha256 e ! 0) < 2 ^ c * 2 ^ (8 - c)"
    using unat_lt2p [of "sha256 e ! 0"] c by (simp flip: power_add)
  then show ?thesis by (simp add: checksum_val_def less_mult_imp_div_less)
qed

section \<open>Encoding and decoding\<close>

definition sentence :: "string list \<Rightarrow> nat list \<Rightarrow> string list" where
  "sentence wl is = map (\<lambda>i. wl ! i) is"

lemma mnemonic_words_val:
  "length wl = 2048 \<Longrightarrow> mnemonic_words wl k n ws = Inr (sentence wl (digits k n) @ ws)"
proof (induction k arbitrary: n ws)
  case (Suc k)
  then show ?case using word_bytes [of "n mod 2048"] by (simp add: and_2047 sentence_def Let_def)
qed (simp add: sentence_def)

lemma NewMnemonic_val:
  assumes "length wl = 2048" "length e = 4 * c" "c \<in> {4..8}"
  shows "NewMnemonic wl sha256 e =
    Inr (strings_Join (sentence wl (digits (3 * c) (bytes_val e * 2 ^ c + checksum_val sha256 c e))) '' '')"
proof -
  have "validateEntropyBitSize (length e * 8) = None" "(length e * 8 + length e * 8 div 32) div 11 = 3 * c"
    using assms(2,3) by (simp_all add: validateEntropyBitSize_def)
  with assms show ?thesis by (simp add: NewMnemonic_def Let_def mnemonic_words_val addChecksum_val)
qed

lemma decode_words_val:
  assumes "wordlist_ok wl" "\<forall>i\<in>set is. i < 2048"
  shows "decode_words (SetWordList wl) (sentence wl is) b = Inr (foldl (\<lambda>b i. b * 2048 + i) b is)"
  using assms(2)
proof (induction "is" arbitrary: b)
  case (Cons i "is")
  then have "SetWordList wl (wl ! i) = Some i" using assms(1) by (intro SetWordList_nth) (auto simp: wordlist_ok_def)
  with Cons show ?case by (simp add: sentence_def index_bytes or_2048)
qed (simp add: sentence_def)

lemma decode_words_unknown:
  "w \<in> set ws \<Longrightarrow> wordMap w = None \<Longrightarrow> decode_words wordMap ws b = Inl ErrInvalidMnemonicWord"
  by (induction ws arbitrary: b) (auto split: option.split)

text \<open>What the checksum says of a sentence of \<open>3 * c\<close> indices: the entropy, or that it is wrong.\<close>

definition sentence_entropy :: "(bytes \<Rightarrow> bytes) \<Rightarrow> nat \<Rightarrow> nat list \<Rightarrow> mn_error + bytes" where
  "sentence_entropy sha256 c is =
     (let n = word_val is; e = padByteSlice (nat_bytes (n div 2 ^ c)) (4 * c) in
      if n mod 2 ^ c = checksum_val sha256 c e then Inr e else Inl ErrChecksumIncorrect)"

lemma checksum_sizes: "c \<in> {4..8} \<Longrightarrow> c = 4 \<or> c = 5 \<or> c = 6 \<or> c = 7 \<or> c = 8" for c :: nat
  by auto

lemma checksum_tables:
  assumes "c \<in> {4..8}"
  shows "map_of wordLengthChecksumMasksMapping (3 * c) = Some (2 ^ c - 1)"
    "c \<noteq> 8 \<Longrightarrow> map_of wordLengthChecksumShiftMapping (3 * c) = Some (2 ^ (8 - c))"
proof -
  from checksum_sizes [OF assms] show "map_of wordLengthChecksumMasksMapping (3 * c) = Some (2 ^ c - 1)"
    "c \<noteq> 8 \<Longrightarrow> map_of wordLengthChecksumShiftMapping (3 * c) = Some (2 ^ (8 - c))"
    by (auto simp: wordLengthChecksumMasksMapping_def wordLengthChecksumShiftMapping_def)
qed

text \<open>A sentence of \<open>3 * c\<close> words has room for \<open>4 * c\<close> bytes and \<open>c\<close> bits.\<close>

lemma base_power: "(2048 :: nat) ^ (3 * c) = 256 ^ (4 * c) * 2 ^ c"
proof -
  have "(2048 :: nat) ^ (3 * c) = 2 ^ (32 * c + c)" using power_mult [of "2 :: nat" 11 "3 * c"] by simp
  moreover have "(256 :: nat) ^ (4 * c) = 2 ^ (32 * c)" using power_mult [of "2 :: nat" 8 "4 * c"] by simp
  ultimately show ?thesis by (simp only: power_add)
qed

lemma and_checksum_mask: "n AND (2 ^ c - 1) = n mod 2 ^ c" for n :: nat
  using take_bit_eq_mask [of c n] by (simp add: take_bit_eq_mod mask_eq_exp_minus_1)

lemma EntropyFromMnemonic_val:
  assumes "wordlist_ok wl" "\<forall>i\<in>set is. i < 2048" "length is = 3 * c" "c \<in> {4..8}" "strings_Fields m = sentence wl is"
  shows "EntropyFromMnemonic wl sha256 m = sentence_entropy sha256 c is"
proof -
  have l: "length (sentence wl is) = 3 * c" using assms(3) by (simp add: sentence_def)
  then have "splitMnemonicWords m = Some (sentence wl is)"
    using assms(4,5) by (simp add: splitMnemonicWords_def)
  moreover have "decode_words (SetWordList wl) (sentence wl is) 0 = Inr (word_val is)"
    using decode_words_val [OF assms(1,2)] by (simp add: word_val_def)
  moreover have "(if 3 * c \<noteq> 24 then map_option (\<lambda>s. x div s) (map_of wordLengthChecksumShiftMapping (3 * c)) else Some x) = Some (x div 2 ^ (8 - c))" for x
    using checksum_tables(2) [OF assms(4)] by auto
  moreover have "(2 :: nat) ^ c - 1 + 1 = 2 ^ c" by simp
  ultimately show ?thesis
    by (simp only: EntropyFromMnemonic_def option.case sum.case l checksum_tables(1) [OF assms(4)] Let_def and_checksum_mask
        computeChecksum_def sentence_entropy_def checksum_val_def) (simp add: mult.commute)
qed

lemma MnemonicToByteArray_val:
  assumes "wordlist_ok wl" "\<forall>i\<in>set is. i < 2048" "length is = 3 * c" "c \<in> {4..8}" "strings_Fields m = sentence wl is"
  shows "MnemonicToByteArray wl sha256 m [True] = sentence_entropy sha256 c is"
proof -
  have idx: "SetWordList wl (wl ! i) = Some i" if "i \<in> set is" for i
    using assms(1,2) that by (intro SetWordList_nth) (auto simp: wordlist_ok_def)
  have l: "length (sentence wl is) = 3 * c" using assms(3) by (simp add: sentence_def)
  have v: "IsMnemonicValid wl m"
    using assms(4,5) l idx by (auto simp: IsMnemonicValid_def sentence_def list_all_iff)
  have n: "foldl (\<lambda>e v. e * 2048 + (case SetWordList wl v of None \<Rightarrow> 0 | Some i \<Rightarrow> i)) b (sentence wl is) =
      foldl (\<lambda>b i. b * 2048 + i) b is" for b
    using idx by (induction "is" arbitrary: b) (auto simp: sentence_def)
  have c: "3 * c * 11 mod 32 = c" "(3 * c * 11 - c) div 8 + 1 = 4 * c + 1" "4 * c + 1 - (4 * c + 1) mod 4 = 4 * c"
    using checksum_sizes [OF assms(4)] by auto
  let ?e = "padByteSlice (nat_bytes (word_val is div 2 ^ c)) (4 * c)"
  have "word_val is < 2048 ^ (3 * c)" using word_val_bound [OF assms(2)] assms(3) by simp
  also note base_power
  finally have "word_val is div 2 ^ c < 256 ^ (4 * c)" by (rule less_mult_imp_div_less)
  then have "length ?e = 4 * c" by (intro length_pad length_nat_bytes)
  then have a: "addChecksum sha256 ?e = nat_bytes (word_val is div 2 ^ c * 2 ^ c + checksum_val sha256 c ?e)"
    using addChecksum_val [of ?e c sha256] assms(4) by simp
  have "word_val is = word_val is div 2 ^ c * 2 ^ c + x \<longleftrightarrow> word_val is mod 2 ^ c = x" for x
    using div_mult_mod_eq [of "word_val is" "2 ^ c"] by arith
  then show ?thesis
    using v
    by (simp only: MnemonicToByteArray_def Let_def Fields_TrimSpace assms(5) l c n [of 0] word_val_def [symmetric] a pad_eq_iff
        sentence_entropy_def) simp
qed

lemma word_val_bound_entropy:
  fixes n x :: nat
  assumes "n < 256 ^ (4 * c)" "x < 2 ^ c"
  shows "n * 2 ^ c + x < 2048 ^ (3 * c)"
proof -
  have "n * 2 ^ c + x < (n + 1) * 2 ^ c" using assms(2) by simp
  also have "\<dots> \<le> 256 ^ (4 * c) * 2 ^ c" using assms(1) by (intro mult_le_mono1) simp
  also note base_power [symmetric]
  finally show ?thesis .
qed

lemma validateEntropyBitSize_None:
  "validateEntropyBitSize (length e * 8) = None \<longleftrightarrow> (\<exists>c. c \<in> {4..8} \<and> length e = 4 * c)"
proof
  assume "validateEntropyBitSize (length e * 8) = None"
  then have "length e * 8 mod 32 = 0" "128 \<le> length e * 8" "length e * 8 \<le> 256"
    by (simp_all add: validateEntropyBitSize_def split: if_splits)
  then show "\<exists>c. c \<in> {4..8} \<and> length e = 4 * c" by (intro exI [of _ "length e div 4"]) auto
qed (auto simp: validateEntropyBitSize_def)

text \<open>Entropy is read back from its mnemonic.\<close>

lemma mnemonic_entropy:
  assumes "wordlist_ok wl" "validateEntropyBitSize (length e * 8) = None"
  shows "\<exists>m. NewMnemonic wl sha256 e = Inr m \<and> EntropyFromMnemonic wl sha256 m = Inr e \<and>
    MnemonicToByteArray wl sha256 m [True] = Inr e"
proof -
  obtain c where c: "c \<in> {4..8}" "length e = 4 * c" using assms(2) validateEntropyBitSize_None by blast
  define n where "n = bytes_val e * 2 ^ c + checksum_val sha256 c e"
  have x: "checksum_val sha256 c e < 2 ^ c" using c(1) by (intro checksum_val_less) simp
  have "n < 2048 ^ (3 * c)" unfolding n_def using bytes_val_bound [of e] c(2) x by (intro word_val_bound_entropy) simp_all
  then have w: "word_val (digits (3 * c) n) = n" by (rule word_val_digits)
  have l: "\<forall>i\<in>set (digits (3 * c) n). i < 2048" using digits_less by blast
  let ?m = "strings_Join (sentence wl (digits (3 * c) n)) '' ''"
  have "\<forall>w\<in>set (sentence wl (digits (3 * c) n)). strings_Fields w = [w]"
    using assms(1) l by (auto simp: sentence_def wordlist_ok_def list_all_length)
  then have f: "strings_Fields ?m = sentence wl (digits (3 * c) n)" by (rule Fields_Join)
  have "n div 2 ^ c = bytes_val e" "n mod 2 ^ c = checksum_val sha256 c e" using x by (simp_all add: n_def)
  then have "sentence_entropy sha256 c (digits (3 * c) n) = Inr e"
    using c(2) pad_bytes_val [of e] by (simp add: sentence_entropy_def w)
  with EntropyFromMnemonic_val [OF assms(1) l _ c(1) f] MnemonicToByteArray_val [OF assms(1) l _ c(1) f]
    NewMnemonic_val [of wl e c sha256] assms(1) c
  show ?thesis by (simp add: wordlist_ok_def n_def)
qed

text \<open>A sentence whose number of words is right and whose words are known is one of indices.\<close>

lemma known_sentence:
  assumes "wordlist_ok wl" "splitMnemonicWords m = Some ws" "\<forall>w\<in>set ws. SetWordList wl w \<noteq> None"
  obtains "is" c where "\<forall>i\<in>set is. i < 2048" "length is = 3 * c" "c \<in> {4..8}" "strings_Fields m = sentence wl is"
proof (rule that)
  let ?is = "map (\<lambda>w. the (SetWordList wl w)) ws"
  let ?c = "length ws div 3"
  have i: "the (SetWordList wl w) < length wl \<and> wl ! the (SetWordList wl w) = w" if "w \<in> set ws" for w
    using assms(3) that SetWordList_SomeD by fastforce
  then show "\<forall>i\<in>set ?is. i < 2048" using assms(1) by (auto simp: wordlist_ok_def)
  have ws: "strings_Fields m = ws" "length ws mod 3 = 0" "12 \<le> length ws" "length ws \<le> 24"
    using assms(2) by (auto simp: splitMnemonicWords_def Let_def split: if_splits)
  then show "length ?is = 3 * ?c" "?c \<in> {4..8}" by auto
  show "strings_Fields m = sentence wl ?is" using ws(1) i by (simp add: sentence_def map_idI)
qed

text \<open>Both decoders agree, but for the name of the error for an unknown word.\<close>

lemma decoders_agree:
  assumes "wordlist_ok wl"
  shows "MnemonicToByteArray wl sha256 m [True] =
    (if EntropyFromMnemonic wl sha256 m = Inl ErrInvalidMnemonicWord then Inl ErrInvalidMnemonic else EntropyFromMnemonic wl sha256 m)"
proof (cases "splitMnemonicWords m")
  case None
  then show ?thesis
    by (auto simp: EntropyFromMnemonic_def MnemonicToByteArray_def IsMnemonicValid_def splitMnemonicWords_def Let_def split: if_splits)
next
  case (Some ws)
  show ?thesis
  proof (cases "\<forall>w\<in>set ws. SetWordList wl w \<noteq> None")
    case True
    then obtain "is" c where i: "\<forall>i\<in>set is. i < 2048" "length is = 3 * c" "c \<in> {4..8}" "strings_Fields m = sentence wl is"
      using known_sentence [OF assms Some] by blast
    show ?thesis
      by (simp add: EntropyFromMnemonic_val [OF assms i] MnemonicToByteArray_val [OF assms i] sentence_entropy_def Let_def)
  next
    case False
    then obtain w where "w \<in> set ws" "SetWordList wl w = None" by blast
    moreover have "strings_Fields m = ws" using Some by (auto simp: splitMnemonicWords_def Let_def split: if_splits)
    ultimately show ?thesis
      using Some decode_words_unknown [of w ws "SetWordList wl" 0]
      by (auto simp: EntropyFromMnemonic_def MnemonicToByteArray_def IsMnemonicValid_def Let_def list_all_iff)
  qed
qed

text \<open>An accepted mnemonic is the one of its entropy, up to blanks.\<close>

lemma entropy_mnemonic:
  assumes "wordlist_ok wl" "EntropyFromMnemonic wl sha256 m = Inr e"
  shows "NewMnemonic wl sha256 e = Inr (strings_Join (strings_Fields m) '' '')"
proof -
  obtain ws where s: "splitMnemonicWords m = Some ws"
    using assms(2) by (auto simp: EntropyFromMnemonic_def split: option.splits)
  have "\<forall>w\<in>set ws. SetWordList wl w \<noteq> None"
    using assms(2) s decode_words_unknown [of _ ws "SetWordList wl" 0] by (fastforce simp: EntropyFromMnemonic_def)
  with known_sentence [OF assms(1) s] obtain "is" c where
    i: "\<forall>i\<in>set is. i < 2048" "length is = 3 * c" "c \<in> {4..8}" "strings_Fields m = sentence wl is" by blast
  have e: "e = padByteSlice (nat_bytes (word_val is div 2 ^ c)) (4 * c)" "word_val is mod 2 ^ c = checksum_val sha256 c e"
    using assms(2) EntropyFromMnemonic_val [OF assms(1) i, of sha256] by (auto simp: sentence_entropy_def Let_def split: if_splits)
  have "word_val is < 2048 ^ (3 * c)" using word_val_bound [OF i(1)] i(2) by simp
  also note base_power
  finally have "word_val is div 2 ^ c < 256 ^ (4 * c)" by (rule less_mult_imp_div_less)
  then have "length e = 4 * c" unfolding e(1) by (intro length_pad length_nat_bytes)
  moreover have "bytes_val e * 2 ^ c + checksum_val sha256 c e = word_val is"
    using e(2) div_mult_mod_eq [of "word_val is" "2 ^ c"] by (simp add: e(1))
  ultimately show ?thesis
    using NewMnemonic_val [of wl e c sha256] assms(1) i digits_word_val [OF i(1)] by (simp add: wordlist_ok_def)
qed

end
