(* ===== verification/English_Words.thy ===== *)
theory English_Words
  imports Mnemonic
begin

text \<open>
  The default list of words, \<open>poc/wallet/keystore/wordlists/english.go\<close>, by first letters. It is sorted, so its
  words differ, and they are of small letters.
\<close>

definition english_a :: "string list" where
  "english_a = [''abandon'', ''ability'', ''able'', ''about'', ''above'', ''absent'', ''absorb'', ''abstract'',
     ''absurd'', ''abuse'', ''access'', ''accident'', ''account'', ''accuse'', ''achieve'', ''acid'',
     ''acoustic'', ''acquire'', ''across'', ''act'', ''action'', ''actor'', ''actress'', ''actual'',
     ''adapt'', ''add'', ''addict'', ''address'', ''adjust'', ''admit'', ''adult'', ''advance'', ''advice'',
     ''aerobic'', ''affair'', ''afford'', ''afraid'', ''again'', ''age'', ''agent'', ''agree'', ''ahead'',
     ''aim'', ''air'', ''airport'', ''aisle'', ''alarm'', ''album'', ''alcohol'', ''alert'', ''alien'',
     ''all'', ''alley'', ''allow'', ''almost'', ''alone'', ''alpha'', ''already'', ''also'', ''alter'',
     ''always'', ''amateur'', ''amazing'', ''among'', ''amount'', ''amused'', ''analyst'', ''anchor'',
     ''ancient'', ''anger'', ''angle'', ''angry'', ''animal'', ''ankle'', ''announce'', ''annual'',
     ''another'', ''answer'', ''antenna'', ''antique'', ''anxiety'', ''any'', ''apart'', ''apology'',
     ''appear'', ''apple'', ''approve'', ''april'', ''arch'', ''arctic'', ''area'', ''arena'', ''argue'',
     ''arm'', ''armed'', ''armor'', ''army'', ''around'', ''arrange'', ''arrest'', ''arrive'', ''arrow'',
     ''art'', ''artefact'', ''artist'', ''artwork'', ''ask'', ''aspect'', ''assault'', ''asset'', ''assist'',
     ''assume'', ''asthma'', ''athlete'', ''atom'', ''attack'', ''attend'', ''attitude'', ''attract'',
     ''auction'', ''audit'', ''august'', ''aunt'', ''author'', ''auto'', ''autumn'', ''average'',
     ''avocado'', ''avoid'', ''awake'', ''aware'', ''away'', ''awesome'', ''awful'', ''awkward'', ''axis'']"

definition english_b :: "string list" where
  "english_b = [''baby'', ''bachelor'', ''bacon'', ''badge'', ''bag'', ''balance'', ''balcony'', ''ball'', ''bamboo'',
     ''banana'', ''banner'', ''bar'', ''barely'', ''bargain'', ''barrel'', ''base'', ''basic'', ''basket'',
     ''battle'', ''beach'', ''bean'', ''beauty'', ''because'', ''become'', ''beef'', ''before'', ''begin'',
     ''behave'', ''behind'', ''believe'', ''below'', ''belt'', ''bench'', ''benefit'', ''best'', ''betray'',
     ''better'', ''between'', ''beyond'', ''bicycle'', ''bid'', ''bike'', ''bind'', ''biology'', ''bird'',
     ''birth'', ''bitter'', ''black'', ''blade'', ''blame'', ''blanket'', ''blast'', ''bleak'', ''bless'',
     ''blind'', ''blood'', ''blossom'', ''blouse'', ''blue'', ''blur'', ''blush'', ''board'', ''boat'',
     ''body'', ''boil'', ''bomb'', ''bone'', ''bonus'', ''book'', ''boost'', ''border'', ''boring'',
     ''borrow'', ''boss'', ''bottom'', ''bounce'', ''box'', ''boy'', ''bracket'', ''brain'', ''brand'',
     ''brass'', ''brave'', ''bread'', ''breeze'', ''brick'', ''bridge'', ''brief'', ''bright'', ''bring'',
     ''brisk'', ''broccoli'', ''broken'', ''bronze'', ''broom'', ''brother'', ''brown'', ''brush'',
     ''bubble'', ''buddy'', ''budget'', ''buffalo'', ''build'', ''bulb'', ''bulk'', ''bullet'', ''bundle'',
     ''bunker'', ''burden'', ''burger'', ''burst'', ''bus'', ''business'', ''busy'', ''butter'', ''buyer'',
     ''buzz'']"

definition english_c :: "string list" where
  "english_c = [''cabbage'', ''cabin'', ''cable'', ''cactus'', ''cage'', ''cake'', ''call'', ''calm'', ''camera'',
     ''camp'', ''can'', ''canal'', ''cancel'', ''candy'', ''cannon'', ''canoe'', ''canvas'', ''canyon'',
     ''capable'', ''capital'', ''captain'', ''car'', ''carbon'', ''card'', ''cargo'', ''carpet'', ''carry'',
     ''cart'', ''case'', ''cash'', ''casino'', ''castle'', ''casual'', ''cat'', ''catalog'', ''catch'',
     ''category'', ''cattle'', ''caught'', ''cause'', ''caution'', ''cave'', ''ceiling'', ''celery'',
     ''cement'', ''census'', ''century'', ''cereal'', ''certain'', ''chair'', ''chalk'', ''champion'',
     ''change'', ''chaos'', ''chapter'', ''charge'', ''chase'', ''chat'', ''cheap'', ''check'', ''cheese'',
     ''chef'', ''cherry'', ''chest'', ''chicken'', ''chief'', ''child'', ''chimney'', ''choice'', ''choose'',
     ''chronic'', ''chuckle'', ''chunk'', ''churn'', ''cigar'', ''cinnamon'', ''circle'', ''citizen'',
     ''city'', ''civil'', ''claim'', ''clap'', ''clarify'', ''claw'', ''clay'', ''clean'', ''clerk'',
     ''clever'', ''click'', ''client'', ''cliff'', ''climb'', ''clinic'', ''clip'', ''clock'', ''clog'',
     ''close'', ''cloth'', ''cloud'', ''clown'', ''club'', ''clump'', ''cluster'', ''clutch'', ''coach'',
     ''coast'', ''coconut'', ''code'', ''coffee'', ''coil'', ''coin'', ''collect'', ''color'', ''column'',
     ''combine'', ''come'', ''comfort'', ''comic'', ''common'', ''company'', ''concert'', ''conduct'',
     ''confirm'', ''congress'', ''connect'', ''consider'', ''control'', ''convince'', ''cook'', ''cool'',
     ''copper'', ''copy'', ''coral'', ''core'', ''corn'', ''correct'', ''cost'', ''cotton'', ''couch'',
     ''country'', ''couple'', ''course'', ''cousin'', ''cover'', ''coyote'', ''crack'', ''cradle'',
     ''craft'', ''cram'', ''crane'', ''crash'', ''crater'', ''crawl'', ''crazy'', ''cream'', ''credit'',
     ''creek'', ''crew'', ''cricket'', ''crime'', ''crisp'', ''critic'', ''crop'', ''cross'', ''crouch'',
     ''crowd'', ''crucial'', ''cruel'', ''cruise'', ''crumble'', ''crunch'', ''crush'', ''cry'', ''crystal'',
     ''cube'', ''culture'', ''cup'', ''cupboard'', ''curious'', ''current'', ''curtain'', ''curve'',
     ''cushion'', ''custom'', ''cute'', ''cycle'']"

definition english_d :: "string list" where
  "english_d = [''dad'', ''damage'', ''damp'', ''dance'', ''danger'', ''daring'', ''dash'', ''daughter'', ''dawn'',
     ''day'', ''deal'', ''debate'', ''debris'', ''decade'', ''december'', ''decide'', ''decline'',
     ''decorate'', ''decrease'', ''deer'', ''defense'', ''define'', ''defy'', ''degree'', ''delay'',
     ''deliver'', ''demand'', ''demise'', ''denial'', ''dentist'', ''deny'', ''depart'', ''depend'',
     ''deposit'', ''depth'', ''deputy'', ''derive'', ''describe'', ''desert'', ''design'', ''desk'',
     ''despair'', ''destroy'', ''detail'', ''detect'', ''develop'', ''device'', ''devote'', ''diagram'',
     ''dial'', ''diamond'', ''diary'', ''dice'', ''diesel'', ''diet'', ''differ'', ''digital'', ''dignity'',
     ''dilemma'', ''dinner'', ''dinosaur'', ''direct'', ''dirt'', ''disagree'', ''discover'', ''disease'',
     ''dish'', ''dismiss'', ''disorder'', ''display'', ''distance'', ''divert'', ''divide'', ''divorce'',
     ''dizzy'', ''doctor'', ''document'', ''dog'', ''doll'', ''dolphin'', ''domain'', ''donate'', ''donkey'',
     ''donor'', ''door'', ''dose'', ''double'', ''dove'', ''draft'', ''dragon'', ''drama'', ''drastic'',
     ''draw'', ''dream'', ''dress'', ''drift'', ''drill'', ''drink'', ''drip'', ''drive'', ''drop'',
     ''drum'', ''dry'', ''duck'', ''dumb'', ''dune'', ''during'', ''dust'', ''dutch'', ''duty'', ''dwarf'',
     ''dynamic'']"

definition english_e :: "string list" where
  "english_e = [''eager'', ''eagle'', ''early'', ''earn'', ''earth'', ''easily'', ''east'', ''easy'', ''echo'',
     ''ecology'', ''economy'', ''edge'', ''edit'', ''educate'', ''effort'', ''egg'', ''eight'', ''either'',
     ''elbow'', ''elder'', ''electric'', ''elegant'', ''element'', ''elephant'', ''elevator'', ''elite'',
     ''else'', ''embark'', ''embody'', ''embrace'', ''emerge'', ''emotion'', ''employ'', ''empower'',
     ''empty'', ''enable'', ''enact'', ''end'', ''endless'', ''endorse'', ''enemy'', ''energy'', ''enforce'',
     ''engage'', ''engine'', ''enhance'', ''enjoy'', ''enlist'', ''enough'', ''enrich'', ''enroll'',
     ''ensure'', ''enter'', ''entire'', ''entry'', ''envelope'', ''episode'', ''equal'', ''equip'', ''era'',
     ''erase'', ''erode'', ''erosion'', ''error'', ''erupt'', ''escape'', ''essay'', ''essence'', ''estate'',
     ''eternal'', ''ethics'', ''evidence'', ''evil'', ''evoke'', ''evolve'', ''exact'', ''example'',
     ''excess'', ''exchange'', ''excite'', ''exclude'', ''excuse'', ''execute'', ''exercise'', ''exhaust'',
     ''exhibit'', ''exile'', ''exist'', ''exit'', ''exotic'', ''expand'', ''expect'', ''expire'',
     ''explain'', ''expose'', ''express'', ''extend'', ''extra'', ''eye'', ''eyebrow'']"

definition english_f :: "string list" where
  "english_f = [''fabric'', ''face'', ''faculty'', ''fade'', ''faint'', ''faith'', ''fall'', ''false'', ''fame'',
     ''family'', ''famous'', ''fan'', ''fancy'', ''fantasy'', ''farm'', ''fashion'', ''fat'', ''fatal'',
     ''father'', ''fatigue'', ''fault'', ''favorite'', ''feature'', ''february'', ''federal'', ''fee'',
     ''feed'', ''feel'', ''female'', ''fence'', ''festival'', ''fetch'', ''fever'', ''few'', ''fiber'',
     ''fiction'', ''field'', ''figure'', ''file'', ''film'', ''filter'', ''final'', ''find'', ''fine'',
     ''finger'', ''finish'', ''fire'', ''firm'', ''first'', ''fiscal'', ''fish'', ''fit'', ''fitness'',
     ''fix'', ''flag'', ''flame'', ''flash'', ''flat'', ''flavor'', ''flee'', ''flight'', ''flip'',
     ''float'', ''flock'', ''floor'', ''flower'', ''fluid'', ''flush'', ''fly'', ''foam'', ''focus'',
     ''fog'', ''foil'', ''fold'', ''follow'', ''food'', ''foot'', ''force'', ''forest'', ''forget'',
     ''fork'', ''fortune'', ''forum'', ''forward'', ''fossil'', ''foster'', ''found'', ''fox'', ''fragile'',
     ''frame'', ''frequent'', ''fresh'', ''friend'', ''fringe'', ''frog'', ''front'', ''frost'', ''frown'',
     ''frozen'', ''fruit'', ''fuel'', ''fun'', ''funny'', ''furnace'', ''fury'', ''future'']"

definition english_g :: "string list" where
  "english_g = [''gadget'', ''gain'', ''galaxy'', ''gallery'', ''game'', ''gap'', ''garage'', ''garbage'', ''garden'',
     ''garlic'', ''garment'', ''gas'', ''gasp'', ''gate'', ''gather'', ''gauge'', ''gaze'', ''general'',
     ''genius'', ''genre'', ''gentle'', ''genuine'', ''gesture'', ''ghost'', ''giant'', ''gift'', ''giggle'',
     ''ginger'', ''giraffe'', ''girl'', ''give'', ''glad'', ''glance'', ''glare'', ''glass'', ''glide'',
     ''glimpse'', ''globe'', ''gloom'', ''glory'', ''glove'', ''glow'', ''glue'', ''goat'', ''goddess'',
     ''gold'', ''good'', ''goose'', ''gorilla'', ''gospel'', ''gossip'', ''govern'', ''gown'', ''grab'',
     ''grace'', ''grain'', ''grant'', ''grape'', ''grass'', ''gravity'', ''great'', ''green'', ''grid'',
     ''grief'', ''grit'', ''grocery'', ''group'', ''grow'', ''grunt'', ''guard'', ''guess'', ''guide'',
     ''guilt'', ''guitar'', ''gun'', ''gym'']"

definition english_h :: "string list" where
  "english_h = [''habit'', ''hair'', ''half'', ''hammer'', ''hamster'', ''hand'', ''happy'', ''harbor'', ''hard'',
     ''harsh'', ''harvest'', ''hat'', ''have'', ''hawk'', ''hazard'', ''head'', ''health'', ''heart'',
     ''heavy'', ''hedgehog'', ''height'', ''hello'', ''helmet'', ''help'', ''hen'', ''hero'', ''hidden'',
     ''high'', ''hill'', ''hint'', ''hip'', ''hire'', ''history'', ''hobby'', ''hockey'', ''hold'', ''hole'',
     ''holiday'', ''hollow'', ''home'', ''honey'', ''hood'', ''hope'', ''horn'', ''horror'', ''horse'',
     ''hospital'', ''host'', ''hotel'', ''hour'', ''hover'', ''hub'', ''huge'', ''human'', ''humble'',
     ''humor'', ''hundred'', ''hungry'', ''hunt'', ''hurdle'', ''hurry'', ''hurt'', ''husband'', ''hybrid'']"

definition english_i :: "string list" where
  "english_i = [''ice'', ''icon'', ''idea'', ''identify'', ''idle'', ''ignore'', ''ill'', ''illegal'', ''illness'',
     ''image'', ''imitate'', ''immense'', ''immune'', ''impact'', ''impose'', ''improve'', ''impulse'',
     ''inch'', ''include'', ''income'', ''increase'', ''index'', ''indicate'', ''indoor'', ''industry'',
     ''infant'', ''inflict'', ''inform'', ''inhale'', ''inherit'', ''initial'', ''inject'', ''injury'',
     ''inmate'', ''inner'', ''innocent'', ''input'', ''inquiry'', ''insane'', ''insect'', ''inside'',
     ''inspire'', ''install'', ''intact'', ''interest'', ''into'', ''invest'', ''invite'', ''involve'',
     ''iron'', ''island'', ''isolate'', ''issue'', ''item'', ''ivory'']"

definition english_j :: "string list" where
  "english_j = [''jacket'', ''jaguar'', ''jar'', ''jazz'', ''jealous'', ''jeans'', ''jelly'', ''jewel'', ''job'',
     ''join'', ''joke'', ''journey'', ''joy'', ''judge'', ''juice'', ''jump'', ''jungle'', ''junior'',
     ''junk'', ''just'']"

definition english_k :: "string list" where
  "english_k = [''kangaroo'', ''keen'', ''keep'', ''ketchup'', ''key'', ''kick'', ''kid'', ''kidney'', ''kind'',
     ''kingdom'', ''kiss'', ''kit'', ''kitchen'', ''kite'', ''kitten'', ''kiwi'', ''knee'', ''knife'',
     ''knock'', ''know'']"

definition english_l :: "string list" where
  "english_l = [''lab'', ''label'', ''labor'', ''ladder'', ''lady'', ''lake'', ''lamp'', ''language'', ''laptop'',
     ''large'', ''later'', ''latin'', ''laugh'', ''laundry'', ''lava'', ''law'', ''lawn'', ''lawsuit'',
     ''layer'', ''lazy'', ''leader'', ''leaf'', ''learn'', ''leave'', ''lecture'', ''left'', ''leg'',
     ''legal'', ''legend'', ''leisure'', ''lemon'', ''lend'', ''length'', ''lens'', ''leopard'', ''lesson'',
     ''letter'', ''level'', ''liar'', ''liberty'', ''library'', ''license'', ''life'', ''lift'', ''light'',
     ''like'', ''limb'', ''limit'', ''link'', ''lion'', ''liquid'', ''list'', ''little'', ''live'',
     ''lizard'', ''load'', ''loan'', ''lobster'', ''local'', ''lock'', ''logic'', ''lonely'', ''long'',
     ''loop'', ''lottery'', ''loud'', ''lounge'', ''love'', ''loyal'', ''lucky'', ''luggage'', ''lumber'',
     ''lunar'', ''lunch'', ''luxury'', ''lyrics'']"

definition english_m :: "string list" where
  "english_m = [''machine'', ''mad'', ''magic'', ''magnet'', ''maid'', ''mail'', ''main'', ''major'', ''make'',
     ''mammal'', ''man'', ''manage'', ''mandate'', ''mango'', ''mansion'', ''manual'', ''maple'', ''marble'',
     ''march'', ''margin'', ''marine'', ''market'', ''marriage'', ''mask'', ''mass'', ''master'', ''match'',
     ''material'', ''math'', ''matrix'', ''matter'', ''maximum'', ''maze'', ''meadow'', ''mean'',
     ''measure'', ''meat'', ''mechanic'', ''medal'', ''media'', ''melody'', ''melt'', ''member'', ''memory'',
     ''mention'', ''menu'', ''mercy'', ''merge'', ''merit'', ''merry'', ''mesh'', ''message'', ''metal'',
     ''method'', ''middle'', ''midnight'', ''milk'', ''million'', ''mimic'', ''mind'', ''minimum'',
     ''minor'', ''minute'', ''miracle'', ''mirror'', ''misery'', ''miss'', ''mistake'', ''mix'', ''mixed'',
     ''mixture'', ''mobile'', ''model'', ''modify'', ''mom'', ''moment'', ''monitor'', ''monkey'',
     ''monster'', ''month'', ''moon'', ''moral'', ''more'', ''morning'', ''mosquito'', ''mother'',
     ''motion'', ''motor'', ''mountain'', ''mouse'', ''move'', ''movie'', ''much'', ''muffin'', ''mule'',
     ''multiply'', ''muscle'', ''museum'', ''mushroom'', ''music'', ''must'', ''mutual'', ''myself'',
     ''mystery'', ''myth'']"

definition english_n :: "string list" where
  "english_n = [''naive'', ''name'', ''napkin'', ''narrow'', ''nasty'', ''nation'', ''nature'', ''near'', ''neck'',
     ''need'', ''negative'', ''neglect'', ''neither'', ''nephew'', ''nerve'', ''nest'', ''net'', ''network'',
     ''neutral'', ''never'', ''news'', ''next'', ''nice'', ''night'', ''noble'', ''noise'', ''nominee'',
     ''noodle'', ''normal'', ''north'', ''nose'', ''notable'', ''note'', ''nothing'', ''notice'', ''novel'',
     ''now'', ''nuclear'', ''number'', ''nurse'', ''nut'']"

definition english_o :: "string list" where
  "english_o = [''oak'', ''obey'', ''object'', ''oblige'', ''obscure'', ''observe'', ''obtain'', ''obvious'', ''occur'',
     ''ocean'', ''october'', ''odor'', ''off'', ''offer'', ''office'', ''often'', ''oil'', ''okay'', ''old'',
     ''olive'', ''olympic'', ''omit'', ''once'', ''one'', ''onion'', ''online'', ''only'', ''open'',
     ''opera'', ''opinion'', ''oppose'', ''option'', ''orange'', ''orbit'', ''orchard'', ''order'',
     ''ordinary'', ''organ'', ''orient'', ''original'', ''orphan'', ''ostrich'', ''other'', ''outdoor'',
     ''outer'', ''output'', ''outside'', ''oval'', ''oven'', ''over'', ''own'', ''owner'', ''oxygen'',
     ''oyster'', ''ozone'']"

definition english_p :: "string list" where
  "english_p = [''pact'', ''paddle'', ''page'', ''pair'', ''palace'', ''palm'', ''panda'', ''panel'', ''panic'',
     ''panther'', ''paper'', ''parade'', ''parent'', ''park'', ''parrot'', ''party'', ''pass'', ''patch'',
     ''path'', ''patient'', ''patrol'', ''pattern'', ''pause'', ''pave'', ''payment'', ''peace'', ''peanut'',
     ''pear'', ''peasant'', ''pelican'', ''pen'', ''penalty'', ''pencil'', ''people'', ''pepper'',
     ''perfect'', ''permit'', ''person'', ''pet'', ''phone'', ''photo'', ''phrase'', ''physical'', ''piano'',
     ''picnic'', ''picture'', ''piece'', ''pig'', ''pigeon'', ''pill'', ''pilot'', ''pink'', ''pioneer'',
     ''pipe'', ''pistol'', ''pitch'', ''pizza'', ''place'', ''planet'', ''plastic'', ''plate'', ''play'',
     ''please'', ''pledge'', ''pluck'', ''plug'', ''plunge'', ''poem'', ''poet'', ''point'', ''polar'',
     ''pole'', ''police'', ''pond'', ''pony'', ''pool'', ''popular'', ''portion'', ''position'',
     ''possible'', ''post'', ''potato'', ''pottery'', ''poverty'', ''powder'', ''power'', ''practice'',
     ''praise'', ''predict'', ''prefer'', ''prepare'', ''present'', ''pretty'', ''prevent'', ''price'',
     ''pride'', ''primary'', ''print'', ''priority'', ''prison'', ''private'', ''prize'', ''problem'',
     ''process'', ''produce'', ''profit'', ''program'', ''project'', ''promote'', ''proof'', ''property'',
     ''prosper'', ''protect'', ''proud'', ''provide'', ''public'', ''pudding'', ''pull'', ''pulp'',
     ''pulse'', ''pumpkin'', ''punch'', ''pupil'', ''puppy'', ''purchase'', ''purity'', ''purpose'',
     ''purse'', ''push'', ''put'', ''puzzle'', ''pyramid'']"

definition english_q :: "string list" where
  "english_q = [''quality'', ''quantum'', ''quarter'', ''question'', ''quick'', ''quit'', ''quiz'', ''quote'']"

definition english_r :: "string list" where
  "english_r = [''rabbit'', ''raccoon'', ''race'', ''rack'', ''radar'', ''radio'', ''rail'', ''rain'', ''raise'',
     ''rally'', ''ramp'', ''ranch'', ''random'', ''range'', ''rapid'', ''rare'', ''rate'', ''rather'',
     ''raven'', ''raw'', ''razor'', ''ready'', ''real'', ''reason'', ''rebel'', ''rebuild'', ''recall'',
     ''receive'', ''recipe'', ''record'', ''recycle'', ''reduce'', ''reflect'', ''reform'', ''refuse'',
     ''region'', ''regret'', ''regular'', ''reject'', ''relax'', ''release'', ''relief'', ''rely'',
     ''remain'', ''remember'', ''remind'', ''remove'', ''render'', ''renew'', ''rent'', ''reopen'',
     ''repair'', ''repeat'', ''replace'', ''report'', ''require'', ''rescue'', ''resemble'', ''resist'',
     ''resource'', ''response'', ''result'', ''retire'', ''retreat'', ''return'', ''reunion'', ''reveal'',
     ''review'', ''reward'', ''rhythm'', ''rib'', ''ribbon'', ''rice'', ''rich'', ''ride'', ''ridge'',
     ''rifle'', ''right'', ''rigid'', ''ring'', ''riot'', ''ripple'', ''risk'', ''ritual'', ''rival'',
     ''river'', ''road'', ''roast'', ''robot'', ''robust'', ''rocket'', ''romance'', ''roof'', ''rookie'',
     ''room'', ''rose'', ''rotate'', ''rough'', ''round'', ''route'', ''royal'', ''rubber'', ''rude'',
     ''rug'', ''rule'', ''run'', ''runway'', ''rural'']"

definition english_s :: "string list" where
  "english_s = [''sad'', ''saddle'', ''sadness'', ''safe'', ''sail'', ''salad'', ''salmon'', ''salon'', ''salt'',
     ''salute'', ''same'', ''sample'', ''sand'', ''satisfy'', ''satoshi'', ''sauce'', ''sausage'', ''save'',
     ''say'', ''scale'', ''scan'', ''scare'', ''scatter'', ''scene'', ''scheme'', ''school'', ''science'',
     ''scissors'', ''scorpion'', ''scout'', ''scrap'', ''screen'', ''script'', ''scrub'', ''sea'',
     ''search'', ''season'', ''seat'', ''second'', ''secret'', ''section'', ''security'', ''seed'', ''seek'',
     ''segment'', ''select'', ''sell'', ''seminar'', ''senior'', ''sense'', ''sentence'', ''series'',
     ''service'', ''session'', ''settle'', ''setup'', ''seven'', ''shadow'', ''shaft'', ''shallow'',
     ''share'', ''shed'', ''shell'', ''sheriff'', ''shield'', ''shift'', ''shine'', ''ship'', ''shiver'',
     ''shock'', ''shoe'', ''shoot'', ''shop'', ''short'', ''shoulder'', ''shove'', ''shrimp'', ''shrug'',
     ''shuffle'', ''shy'', ''sibling'', ''sick'', ''side'', ''siege'', ''sight'', ''sign'', ''silent'',
     ''silk'', ''silly'', ''silver'', ''similar'', ''simple'', ''since'', ''sing'', ''siren'', ''sister'',
     ''situate'', ''six'', ''size'', ''skate'', ''sketch'', ''ski'', ''skill'', ''skin'', ''skirt'',
     ''skull'', ''slab'', ''slam'', ''sleep'', ''slender'', ''slice'', ''slide'', ''slight'', ''slim'',
     ''slogan'', ''slot'', ''slow'', ''slush'', ''small'', ''smart'', ''smile'', ''smoke'', ''smooth'',
     ''snack'', ''snake'', ''snap'', ''sniff'', ''snow'', ''soap'', ''soccer'', ''social'', ''sock'',
     ''soda'', ''soft'', ''solar'', ''soldier'', ''solid'', ''solution'', ''solve'', ''someone'', ''song'',
     ''soon'', ''sorry'', ''sort'', ''soul'', ''sound'', ''soup'', ''source'', ''south'', ''space'',
     ''spare'', ''spatial'', ''spawn'', ''speak'', ''special'', ''speed'', ''spell'', ''spend'', ''sphere'',
     ''spice'', ''spider'', ''spike'', ''spin'', ''spirit'', ''split'', ''spoil'', ''sponsor'', ''spoon'',
     ''sport'', ''spot'', ''spray'', ''spread'', ''spring'', ''spy'', ''square'', ''squeeze'', ''squirrel'',
     ''stable'', ''stadium'', ''staff'', ''stage'', ''stairs'', ''stamp'', ''stand'', ''start'', ''state'',
     ''stay'', ''steak'', ''steel'', ''stem'', ''step'', ''stereo'', ''stick'', ''still'', ''sting'',
     ''stock'', ''stomach'', ''stone'', ''stool'', ''story'', ''stove'', ''strategy'', ''street'',
     ''strike'', ''strong'', ''struggle'', ''student'', ''stuff'', ''stumble'', ''style'', ''subject'',
     ''submit'', ''subway'', ''success'', ''such'', ''sudden'', ''suffer'', ''sugar'', ''suggest'', ''suit'',
     ''summer'', ''sun'', ''sunny'', ''sunset'', ''super'', ''supply'', ''supreme'', ''sure'', ''surface'',
     ''surge'', ''surprise'', ''surround'', ''survey'', ''suspect'', ''sustain'', ''swallow'', ''swamp'',
     ''swap'', ''swarm'', ''swear'', ''sweet'', ''swift'', ''swim'', ''swing'', ''switch'', ''sword'',
     ''symbol'', ''symptom'', ''syrup'', ''system'']"

definition english_t :: "string list" where
  "english_t = [''table'', ''tackle'', ''tag'', ''tail'', ''talent'', ''talk'', ''tank'', ''tape'', ''target'',
     ''task'', ''taste'', ''tattoo'', ''taxi'', ''teach'', ''team'', ''tell'', ''ten'', ''tenant'',
     ''tennis'', ''tent'', ''term'', ''test'', ''text'', ''thank'', ''that'', ''theme'', ''then'',
     ''theory'', ''there'', ''they'', ''thing'', ''this'', ''thought'', ''three'', ''thrive'', ''throw'',
     ''thumb'', ''thunder'', ''ticket'', ''tide'', ''tiger'', ''tilt'', ''timber'', ''time'', ''tiny'',
     ''tip'', ''tired'', ''tissue'', ''title'', ''toast'', ''tobacco'', ''today'', ''toddler'', ''toe'',
     ''together'', ''toilet'', ''token'', ''tomato'', ''tomorrow'', ''tone'', ''tongue'', ''tonight'',
     ''tool'', ''tooth'', ''top'', ''topic'', ''topple'', ''torch'', ''tornado'', ''tortoise'', ''toss'',
     ''total'', ''tourist'', ''toward'', ''tower'', ''town'', ''toy'', ''track'', ''trade'', ''traffic'',
     ''tragic'', ''train'', ''transfer'', ''trap'', ''trash'', ''travel'', ''tray'', ''treat'', ''tree'',
     ''trend'', ''trial'', ''tribe'', ''trick'', ''trigger'', ''trim'', ''trip'', ''trophy'', ''trouble'',
     ''truck'', ''true'', ''truly'', ''trumpet'', ''trust'', ''truth'', ''try'', ''tube'', ''tuition'',
     ''tumble'', ''tuna'', ''tunnel'', ''turkey'', ''turn'', ''turtle'', ''twelve'', ''twenty'', ''twice'',
     ''twin'', ''twist'', ''two'', ''type'', ''typical'']"

definition english_u :: "string list" where
  "english_u = [''ugly'', ''umbrella'', ''unable'', ''unaware'', ''uncle'', ''uncover'', ''under'', ''undo'',
     ''unfair'', ''unfold'', ''unhappy'', ''uniform'', ''unique'', ''unit'', ''universe'', ''unknown'',
     ''unlock'', ''until'', ''unusual'', ''unveil'', ''update'', ''upgrade'', ''uphold'', ''upon'',
     ''upper'', ''upset'', ''urban'', ''urge'', ''usage'', ''use'', ''used'', ''useful'', ''useless'',
     ''usual'', ''utility'']"

definition english_v :: "string list" where
  "english_v = [''vacant'', ''vacuum'', ''vague'', ''valid'', ''valley'', ''valve'', ''van'', ''vanish'', ''vapor'',
     ''various'', ''vast'', ''vault'', ''vehicle'', ''velvet'', ''vendor'', ''venture'', ''venue'', ''verb'',
     ''verify'', ''version'', ''very'', ''vessel'', ''veteran'', ''viable'', ''vibrant'', ''vicious'',
     ''victory'', ''video'', ''view'', ''village'', ''vintage'', ''violin'', ''virtual'', ''virus'',
     ''visa'', ''visit'', ''visual'', ''vital'', ''vivid'', ''vocal'', ''voice'', ''void'', ''volcano'',
     ''volume'', ''vote'', ''voyage'']"

definition english_w :: "string list" where
  "english_w = [''wage'', ''wagon'', ''wait'', ''walk'', ''wall'', ''walnut'', ''want'', ''warfare'', ''warm'',
     ''warrior'', ''wash'', ''wasp'', ''waste'', ''water'', ''wave'', ''way'', ''wealth'', ''weapon'',
     ''wear'', ''weasel'', ''weather'', ''web'', ''wedding'', ''weekend'', ''weird'', ''welcome'', ''west'',
     ''wet'', ''whale'', ''what'', ''wheat'', ''wheel'', ''when'', ''where'', ''whip'', ''whisper'',
     ''wide'', ''width'', ''wife'', ''wild'', ''will'', ''win'', ''window'', ''wine'', ''wing'', ''wink'',
     ''winner'', ''winter'', ''wire'', ''wisdom'', ''wise'', ''wish'', ''witness'', ''wolf'', ''woman'',
     ''wonder'', ''wood'', ''wool'', ''word'', ''work'', ''world'', ''worry'', ''worth'', ''wrap'',
     ''wreck'', ''wrestle'', ''wrist'', ''write'', ''wrong'']"

definition english_y :: "string list" where
  "english_y = [''yard'', ''year'', ''yellow'', ''you'', ''young'', ''youth'']"

definition english_z :: "string list" where
  "english_z = [''zebra'', ''zero'', ''zone'', ''zoo'']"

definition english_groups :: "(char \<times> string list) list" where
  "english_groups = [(CHR ''a'', english_a), (CHR ''b'', english_b), (CHR ''c'', english_c), (CHR ''d'', english_d), (CHR ''e'', english_e), (CHR ''f'', english_f), (CHR ''g'', english_g), (CHR ''h'', english_h), (CHR ''i'', english_i), (CHR ''j'', english_j), (CHR ''k'', english_k), (CHR ''l'', english_l), (CHR ''m'', english_m), (CHR ''n'', english_n), (CHR ''o'', english_o), (CHR ''p'', english_p), (CHR ''q'', english_q), (CHR ''r'', english_r), (CHR ''s'', english_s), (CHR ''t'', english_t), (CHR ''u'', english_u), (CHR ''v'', english_v), (CHR ''w'', english_w), (CHR ''y'', english_y), (CHR ''z'', english_z)]"

definition English :: "string list" where
  "English = concat (map snd english_groups)"

text \<open>The order of letters and the letters themselves, by the bits of their codes.\<close>

fun letter_less :: "char \<Rightarrow> char \<Rightarrow> bool" where
  "letter_less (Char a0 a1 a2 a3 a4 a5 a6 a7) (Char b0 b1 b2 b3 b4 b5 b6 b7) \<longleftrightarrow>
     (if a4 = b4 then if a3 = b3 then if a2 = b2 then if a1 = b1 then \<not> a0 \<and> b0 else b1 else b2 else b3 else b4)"

fun ascii_letter :: "char \<Rightarrow> bool" where
  "ascii_letter (Char a0 a1 a2 a3 a4 a5 a6 a7) \<longleftrightarrow> a6 \<and> \<not> a7"

fun lexlt :: "string \<Rightarrow> string \<Rightarrow> bool" where
  "lexlt [] ys = (ys \<noteq> [])"
| "lexlt (x # xs) [] = False"
| "lexlt (x # xs) (y # ys) = (if x = y then lexlt xs ys else letter_less x y)"

fun group_ok :: "char \<Rightarrow> string list \<Rightarrow> bool" where
  "group_ok c [] = True"
| "group_ok c (w # ws) =
     (w \<noteq> [] \<and> hd w = c \<and> list_all ascii_letter w \<and> (case ws of [] \<Rightarrow> True | v # _ \<Rightarrow> lexlt w v) \<and> group_ok c ws)"

lemma english_a_ok: "group_ok CHR ''a'' english_a"
  by code_simp

lemma english_b_ok: "group_ok CHR ''b'' english_b"
  by code_simp

lemma english_c_ok: "group_ok CHR ''c'' english_c"
  by code_simp

lemma english_d_ok: "group_ok CHR ''d'' english_d"
  by code_simp

lemma english_e_ok: "group_ok CHR ''e'' english_e"
  by code_simp

lemma english_f_ok: "group_ok CHR ''f'' english_f"
  by code_simp

lemma english_g_ok: "group_ok CHR ''g'' english_g"
  by code_simp

lemma english_h_ok: "group_ok CHR ''h'' english_h"
  by code_simp

lemma english_i_ok: "group_ok CHR ''i'' english_i"
  by code_simp

lemma english_j_ok: "group_ok CHR ''j'' english_j"
  by code_simp

lemma english_k_ok: "group_ok CHR ''k'' english_k"
  by code_simp

lemma english_l_ok: "group_ok CHR ''l'' english_l"
  by code_simp

lemma english_m_ok: "group_ok CHR ''m'' english_m"
  by code_simp

lemma english_n_ok: "group_ok CHR ''n'' english_n"
  by code_simp

lemma english_o_ok: "group_ok CHR ''o'' english_o"
  by code_simp

lemma english_p_ok: "group_ok CHR ''p'' english_p"
  by code_simp

lemma english_q_ok: "group_ok CHR ''q'' english_q"
  by code_simp

lemma english_r_ok: "group_ok CHR ''r'' english_r"
  by code_simp

lemma english_s_ok: "group_ok CHR ''s'' english_s"
  by code_simp

lemma english_t_ok: "group_ok CHR ''t'' english_t"
  by code_simp

lemma english_u_ok: "group_ok CHR ''u'' english_u"
  by code_simp

lemma english_v_ok: "group_ok CHR ''v'' english_v"
  by code_simp

lemma english_w_ok: "group_ok CHR ''w'' english_w"
  by code_simp

lemma english_y_ok: "group_ok CHR ''y'' english_y"
  by code_simp

lemma english_z_ok: "group_ok CHR ''z'' english_z"
  by code_simp

section \<open>The list is as the mnemonics need it\<close>

fun letter_value :: "char \<Rightarrow> nat" where
  "letter_value (Char a0 a1 a2 a3 a4 a5 a6 a7) = of_bool a0 + 2 * of_bool a1 + 4 * of_bool a2 + 8 * of_bool a3 + 16 * of_bool a4"

lemma letter_less_value: "letter_less x y \<longleftrightarrow> letter_value x < letter_value y"
  by (cases x; cases y) (auto simp: of_bool_def)

lemma lexlt_irrefl: "\<not> lexlt x x"
  by (induction x) simp_all

lemma lexlt_trans: "lexlt x y \<Longrightarrow> lexlt y z \<Longrightarrow> lexlt x z"
proof (induction x y arbitrary: z rule: lexlt.induct)
  case (1 ys)
  then show ?case by (cases z; cases ys) simp_all
next
  case (3 x xs y ys)
  then show ?case by (cases z) (auto simp: letter_less_value split: if_splits)
qed simp

lemma group_ok_lexlt: "group_ok c (w # ws) \<Longrightarrow> v \<in> set ws \<Longrightarrow> lexlt w v"
proof (induction ws arbitrary: w)
  case (Cons u us)
  then show ?case by (cases "v = u") (auto intro: lexlt_trans)
qed simp

lemma group_ok_distinct: "group_ok c ws \<Longrightarrow> distinct ws"
proof (induction ws)
  case (Cons w ws)
  then have "w \<notin> set ws" using group_ok_lexlt [OF Cons.prems] lexlt_irrefl by blast
  with Cons show ?case by simp
qed simp

lemma group_ok_words: "group_ok c ws \<Longrightarrow> w \<in> set ws \<Longrightarrow> w \<noteq> [] \<and> hd w = c \<and> list_all ascii_letter w"
  by (induction ws) auto

lemma groups_distinct:
  assumes "distinct (map fst gs)" "\<forall>(c, ws)\<in>set gs. group_ok c ws"
  shows "distinct (concat (map snd gs))"
  using assms
proof (induction gs)
  case (Cons g gs)
  obtain c ws where g: "g = (c, ws)" by force
  have "w \<notin> set (concat (map snd gs))" if w: "w \<in> set ws" for w
  proof
    assume "w \<in> set (concat (map snd gs))"
    then obtain c' ws' where g': "(c', ws') \<in> set gs" "w \<in> set ws'" by auto
    have "hd w = c" "hd w = c'" using group_ok_words w g' Cons.prems(2) g by fastforce+
    with Cons.prems(1) g g'(1) show False by force
  qed
  with Cons g group_ok_distinct [of c ws] show ?case by auto
qed simp

lemma space_len_letter: "ascii_letter c \<Longrightarrow> space_len (c # cs) = 0"
proof -
  assume "ascii_letter c"
  moreover have "list_all (\<lambda>p. p \<noteq> [] \<and> \<not> ascii_letter (hd p)) go_spaces" by code_simp
  ultimately have "find (\<lambda>p. take (length p) (c # cs) = p) go_spaces = None"
    by (auto simp: find_None_iff list_all_iff) (metis hd_take list.sel(1) length_greater_0_conv)
  then show ?thesis by (simp add: space_len_def)
qed

lemma fields_letters: "list_all ascii_letter w \<Longrightarrow> cur @ w \<noteq> [] \<Longrightarrow> fields cur w = [cur @ w]"
  by (induction w arbitrary: cur) (simp_all add: space_len_letter)

lemma english_groups_ok: "\<forall>(c, ws)\<in>set english_groups. group_ok c ws"
  by (simp add: english_groups_def english_a_ok english_b_ok english_c_ok english_d_ok english_e_ok english_f_ok english_g_ok english_h_ok english_i_ok english_j_ok english_k_ok english_l_ok english_m_ok english_n_ok english_o_ok english_p_ok english_q_ok english_r_ok english_s_ok english_t_ok english_u_ok english_v_ok english_w_ok english_y_ok english_z_ok)

lemma English_ok: "wordlist_ok English"
proof -
  have "length English = 2048" by code_simp
  moreover have "distinct (map fst english_groups)" by (simp add: english_groups_def)
  then have "distinct English" unfolding English_def by (intro groups_distinct english_groups_ok)
  moreover have "strings_Fields w = [w]" if w: "w \<in> set English" for w
  proof -
    obtain c ws where "(c, ws) \<in> set english_groups" "w \<in> set ws" using w by (auto simp: English_def)
    then have "w \<noteq> []" "list_all ascii_letter w" using english_groups_ok group_ok_words by fastforce+
    then show ?thesis by (simp add: strings_Fields_def fields_letters)
  qed
  ultimately show ?thesis by (simp add: wordlist_ok_def list_all_iff)
qed

end
