(* ===== verification/Mnemonic_Properties.thy ===== *)
theory Mnemonic_Properties
  imports English_Words
begin

text \<open>The property of the mnemonics of the wallet.\<close>

text \<open>
  C8. Mnemonics and entropy correspond. Over a list of 2048 different words, entropy of a supported length
  has a mnemonic from which \<open>EntropyFromMnemonic\<close> gives it back, and any other length is refused. Conversely a
  sentence is accepted only if it is, up to blanks, the mnemonic of the entropy it gives; so no two
  sentences mean the same entropy, and each wrong checksum is found. The second decoder, \<open>MnemonicToByteArray\<close>,
  agrees with the first, except that it reports an unknown word as an invalid mnemonic.
\<close>

theorem mnemonics_correspond:
  assumes "wordlist_ok wl"
  shows "(validateEntropyBitSize (length e * 8) = None \<longrightarrow>
       (\<exists>m'. NewMnemonic wl sha256 e = Inr m' \<and> EntropyFromMnemonic wl sha256 m' = Inr e)) \<and>
    (validateEntropyBitSize (length e * 8) \<noteq> None \<longrightarrow> NewMnemonic wl sha256 e = Inl ErrEntropyLengthInvalid) \<and>
    (EntropyFromMnemonic wl sha256 m = Inr e \<longrightarrow> NewMnemonic wl sha256 e = Inr (strings_Join (strings_Fields m) '' '')) \<and>
    MnemonicToByteArray wl sha256 m [True] =
      (if EntropyFromMnemonic wl sha256 m = Inl ErrInvalidMnemonicWord then Inl ErrInvalidMnemonic
       else EntropyFromMnemonic wl sha256 m)"
proof -
  have "validateEntropyBitSize (length e * 8) \<noteq> None \<longrightarrow> NewMnemonic wl sha256 e = Inl ErrEntropyLengthInvalid"
    by (simp add: NewMnemonic_def validateEntropyBitSize_def)
  with mnemonic_entropy [OF assms, of e sha256] entropy_mnemonic [OF assms, of sha256 m e] decoders_agree [OF assms, of sha256 m]
  show ?thesis by blast
qed

theorem mnemonics_correspond_witness:
  "NewMnemonic English (\<lambda>_. replicate 32 0) (replicate 16 0) = Inr (strings_Join (replicate 12 ''abandon'') '' '') \<and>
   EntropyFromMnemonic English (\<lambda>_. replicate 32 0) (strings_Join (replicate 12 ''abandon'') '' '') = Inr (replicate 16 0)"
proof -
  let ?e = "replicate 16 0 :: bytes"
  have "English ! 0 = ''abandon''" by (simp add: English_def english_groups_def english_a_def)
  moreover have "digits n 0 = replicate n 0" for n by (induction n) (simp_all add: replicate_append_same)
  moreover have "bytes_val ?e = 0" using bytes_val_zeros [of 16 "[]"] by simp
  ultimately have n: "NewMnemonic English (\<lambda>_. replicate 32 0) ?e = Inr (strings_Join (replicate 12 ''abandon'') '' '')"
    using NewMnemonic_val [of English ?e 4 "\<lambda>_. replicate 32 0"] English_ok
    by (simp add: wordlist_ok_def checksum_val_def sentence_def)
  then show ?thesis
    using mnemonics_correspond [OF English_ok, of ?e "\<lambda>_. replicate 32 0"] by (auto simp: validateEntropyBitSize_def)
qed

end
