(* ===== verification/HD_Keychain.thy ===== *)
theory HD_Keychain
  imports Go_Big "HOL-Library.Sublist"
begin

text \<open>
  Hierarchical deterministic keys: \<open>poc/wallet/keystore/hdkeychain/extendedkey.go\<close>. An extended key holds slices,
  and some operations share the slices of one key with another or overwrite them; so the slices are references
  into a store of byte arrays. Disjoint parts of one array that are never appended to are different arrays here.
  An operation that fills the cached public key of its receiver returns the receiver.

  The curve, the hashes, the base 58 codec and the network parameters are code of other packages and
  parameters here; \<open>hd_lib_ok\<close> says what is relied on. Scalars are natural numbers, as \<open>big.Int\<close> holds no
  negative one here.
\<close>

section \<open>Definitions\<close>

datatype hd_error =
    ErrDeriveHardFromPublic | ErrDeriveBeyondMaxDepth | ErrNotPrivExtKey | ErrInvalidChild | ErrUnusableSeed
  | ErrInvalidSeedLen | ErrBadChecksum | ErrInvalidKeyLen | ErrHDLib string | HDPanicIndex

type_synonym point = "int \<times> int"

record hd_net =
  HDPrivateKeyID :: bytes
  HDPublicKeyID :: bytes
  HDCoinType :: u32

record PrivateKey =
  pv_D :: nat
  pv_PublicKey :: point

record hd_lib =
  S256_N :: nat
  ScalarBaseMult :: "bytes \<Rightarrow> point"
  S256_Add :: "point \<Rightarrow> point \<Rightarrow> point"
  pk_SerializeCompressed :: "point \<Rightarrow> bytes"
  ParsePubKey :: "bytes \<Rightarrow> string + point"
  PrivKeyFromBytes :: "bytes \<Rightarrow> PrivateKey"
  hmac_sha512 :: "bytes \<Rightarrow> bytes \<Rightarrow> bytes"
  Hash160 :: "bytes \<Rightarrow> bytes"
  DoubleHashB :: "bytes \<Rightarrow> bytes"
  base58_Encode :: "bytes \<Rightarrow> string"
  base58_Decode :: "string \<Rightarrow> bytes"
  HDPrivateKeyToPublicKeyID :: "bytes \<Rightarrow> string + bytes"
  NewAddressPubKeyHash :: "bytes \<Rightarrow> hd_net \<Rightarrow> string + string"

definition RecommendedSeedLen :: byte where "RecommendedSeedLen = 32"
definition HardenedKeyStart :: u32 where "HardenedKeyStart = 0x80000000"
definition MinSeedBytes :: nat where "MinSeedBytes = 16"
definition MaxSeedBytes :: nat where "MaxSeedBytes = 64"
definition serializedKeyLen :: nat where "serializedKeyLen = 4 + 1 + 4 + 4 + 32 + 33"
definition maxUint8 :: byte where "maxUint8 = 255"

definition masterKey :: bytes where
  "masterKey = map (\<lambda>c. word_of_nat (of_char c)) ''Bitcoin seed''"

text \<open>The store of byte arrays and slices, of which \<open>None\<close> is nil.\<close>

type_synonym heap = "bytes list"
type_synonym slice = "nat option"

definition slice_bytes :: "heap \<Rightarrow> slice \<Rightarrow> bytes" where
  "slice_bytes h s = (case s of None \<Rightarrow> [] | Some a \<Rightarrow> if a < length h then h ! a else [])"

definition new_slice :: "heap \<Rightarrow> bytes \<Rightarrow> heap \<times> slice" where
  "new_slice h bs = (h @ [bs], Some (length h))"

record ExtendedKey =
  ek_key :: slice
  ek_pubKey :: slice
  ek_chainCode :: slice
  ek_depth :: byte
  ek_parentFP :: slice
  ek_childNum :: u32
  ek_version :: bytes
  ek_isPrivate :: bool

definition NewExtendedKey ::
  "bytes \<Rightarrow> slice \<Rightarrow> slice \<Rightarrow> slice \<Rightarrow> byte \<Rightarrow> u32 \<Rightarrow> bool \<Rightarrow> ExtendedKey" where
  "NewExtendedKey version key chainCode parentFP depth childNum isPrivate =
     \<lparr>ek_key = key, ek_pubKey = None, ek_chainCode = chainCode, ek_depth = depth, ek_parentFP = parentFP,
      ek_childNum = childNum, ek_version = version, ek_isPrivate = isPrivate\<rparr>"

definition pubKeyBytes :: "hd_lib \<Rightarrow> heap \<Rightarrow> ExtendedKey \<Rightarrow> heap \<times> ExtendedKey \<times> slice" where
  "pubKeyBytes L h k =
     (if \<not> ek_isPrivate k then (h, k, ek_key k)
      else if length (slice_bytes h (ek_pubKey k)) = 0 then
        let pk = ScalarBaseMult L (slice_bytes h (ek_key k));
            (h', s) = new_slice h (pk_SerializeCompressed L pk)
        in (h', k\<lparr>ek_pubKey := s\<rparr>, s)
      else (h, k, ek_pubKey k))"

definition IsPrivate :: "ExtendedKey \<Rightarrow> bool" where "IsPrivate k = ek_isPrivate k"
definition ek_Depth :: "ExtendedKey \<Rightarrow> byte" where "ek_Depth k = ek_depth k"

definition ParentFingerprint :: "heap \<Rightarrow> ExtendedKey \<Rightarrow> hd_error + u32" where
  "ParentFingerprint h k =
     (let bs = slice_bytes h (ek_parentFP k) in if length bs < 4 then Inl HDPanicIndex else Inr (be_Uint32 bs))"

text \<open>The bytes that \<open>Child\<close> hashes for the index \<open>i\<close>.\<close>

definition child_data :: "hd_lib \<Rightarrow> heap \<Rightarrow> ExtendedKey \<Rightarrow> u32 \<Rightarrow> heap \<times> ExtendedKey \<times> bytes" where
  "child_data L h k i =
     (let isChildHardened = (i \<ge> HardenedKeyStart);
          keyLen = 33;
          data = replicate (keyLen + 4) 0
      in if isChildHardened then
           (h, k, copy_at (copy_at data 1 (slice_bytes h (ek_key k))) keyLen (be_PutUint32 i))
         else
           let (h', k', pub) = pubKeyBytes L h k in
           (h', k', copy_at (copy_at data 0 (slice_bytes h' pub)) keyLen (be_PutUint32 i)))"

text \<open>The key that \<open>Child\<close> makes of the left half of the hash.\<close>

definition child_key :: "hd_lib \<Rightarrow> bool \<Rightarrow> bytes \<Rightarrow> bytes \<Rightarrow> hd_error + bytes" where
  "child_key L isPrivate key il =
     (if isPrivate then
        let keyNum = bytes_val key; ilNum = (bytes_val il + keyNum) mod S256_N L in Inr (nat_bytes ilNum)
      else
        let (ilx, ily) = ScalarBaseMult L il in
        if ilx = 0 \<or> ily = 0 then Inl ErrInvalidChild
        else (case ParsePubKey L key of
                Inl err \<Rightarrow> Inl (ErrHDLib err)
              | Inr pubKey \<Rightarrow> Inr (pk_SerializeCompressed L (S256_Add L (ilx, ily) pubKey))))"

definition Child :: "hd_lib \<Rightarrow> heap \<Rightarrow> ExtendedKey \<Rightarrow> u32 \<Rightarrow> heap \<times> ExtendedKey \<times> (hd_error + ExtendedKey)" where
  "Child L h k i =
     (if ek_depth k = maxUint8 then (h, k, Inl ErrDeriveBeyondMaxDepth)
      else if \<not> ek_isPrivate k \<and> i \<ge> HardenedKeyStart then (h, k, Inl ErrDeriveHardFromPublic)
      else
        let (h1, k1, data) = child_data L h k i;
            ilr = hmac_sha512 L (slice_bytes h1 (ek_chainCode k1)) data;
            il = take (length ilr div 2) ilr;
            childChainCode = drop (length ilr div 2) ilr;
            ilNum = bytes_val il
        in if ilNum \<ge> S256_N L \<or> ilNum = 0 then (h1, k1, Inl ErrInvalidChild)
           else case child_key L (ek_isPrivate k1) (slice_bytes h1 (ek_key k1)) il of
                  Inl err \<Rightarrow> (h1, k1, Inl err)
                | Inr childKey \<Rightarrow>
                  let (h2, k2, pub) = pubKeyBytes L h1 k1;
                      (h3, key) = new_slice h2 childKey;
                      (h4, chain) = new_slice h3 childChainCode;
                      (h5, parentFP) = new_slice h4 (take 4 (Hash160 L (slice_bytes h2 pub)))
                  in (h5, k2, Inr (NewExtendedKey (ek_version k2) key chain parentFP (ek_depth k2 + 1) i (ek_isPrivate k2))))"

text \<open>A neutered key shares the cached public key, the chain code and the fingerprint of the private one.\<close>

definition Neuter :: "hd_lib \<Rightarrow> heap \<Rightarrow> ExtendedKey \<Rightarrow> heap \<times> ExtendedKey \<times> (hd_error + ExtendedKey)" where
  "Neuter L h k =
     (if \<not> ek_isPrivate k then (h, k, Inr k)
      else case HDPrivateKeyToPublicKeyID L (ek_version k) of
             Inl err \<Rightarrow> (h, k, Inl (ErrHDLib err))
           | Inr version \<Rightarrow>
             let (h', k', pub) = pubKeyBytes L h k in
             (h', k', Inr (NewExtendedKey version pub (ek_chainCode k') (ek_parentFP k') (ek_depth k') (ek_childNum k') False)))"

definition ECPubKey :: "hd_lib \<Rightarrow> heap \<Rightarrow> ExtendedKey \<Rightarrow> heap \<times> ExtendedKey \<times> (hd_error + point)" where
  "ECPubKey L h k =
     (let (h', k', pub) = pubKeyBytes L h k in
      (h', k', case ParsePubKey L (slice_bytes h' pub) of Inl err \<Rightarrow> Inl (ErrHDLib err) | Inr p \<Rightarrow> Inr p))"

definition ECPrivKey :: "hd_lib \<Rightarrow> heap \<Rightarrow> ExtendedKey \<Rightarrow> hd_error + PrivateKey" where
  "ECPrivKey L h k =
     (if \<not> ek_isPrivate k then Inl ErrNotPrivExtKey else Inr (PrivKeyFromBytes L (slice_bytes h (ek_key k))))"

definition ek_Address :: "hd_lib \<Rightarrow> heap \<Rightarrow> ExtendedKey \<Rightarrow> hd_net \<Rightarrow> heap \<times> ExtendedKey \<times> (hd_error + string)" where
  "ek_Address L h k net =
     (let (h', k', pub) = pubKeyBytes L h k;
          pkHash = Hash160 L (slice_bytes h' pub)
      in (h', k', case NewAddressPubKeyHash L pkHash net of Inl err \<Rightarrow> Inl (ErrHDLib err) | Inr a \<Rightarrow> Inr a))"

definition paddedAppend :: "nat \<Rightarrow> bytes \<Rightarrow> bytes \<Rightarrow> bytes" where
  "paddedAppend sz dst src = dst @ replicate (sz - length src) 0 @ src"

definition ek_String :: "hd_lib \<Rightarrow> heap \<Rightarrow> ExtendedKey \<Rightarrow> heap \<times> ExtendedKey \<times> string" where
  "ek_String L h k =
     (if length (slice_bytes h (ek_key k)) = 0 then (h, k, ''zeroed extended key'')
      else
        let childNumBytes = be_PutUint32 (ek_childNum k);
            serializedBytes = ek_version k @ [ek_depth k] @ slice_bytes h (ek_parentFP k) @ childNumBytes @
              slice_bytes h (ek_chainCode k);
            (h', k', serialized) =
              (if ek_isPrivate k then (h, k, paddedAppend 32 (serializedBytes @ [0]) (slice_bytes h (ek_key k)))
               else let (h', k', pub) = pubKeyBytes L h k in (h', k', serializedBytes @ slice_bytes h' pub));
            checkSum = take 4 (DoubleHashB L serialized)
        in (h', k', base58_Encode L (serialized @ checkSum)))"

definition IsForNet :: "ExtendedKey \<Rightarrow> hd_net \<Rightarrow> bool" where
  "IsForNet k net \<longleftrightarrow> ek_version k = HDPrivateKeyID net \<or> ek_version k = HDPublicKeyID net"

definition SetNet :: "ExtendedKey \<Rightarrow> hd_net \<Rightarrow> ExtendedKey" where
  "SetNet k net =
     (if ek_isPrivate k then k\<lparr>ek_version := HDPrivateKeyID net\<rparr> else k\<lparr>ek_version := HDPublicKeyID net\<rparr>)"

definition zero_slice :: "heap \<Rightarrow> slice \<Rightarrow> heap" where
  "zero_slice h b = (case b of None \<Rightarrow> h | Some a \<Rightarrow> if a < length h then h[a := replicate (length (h ! a)) 0] else h)"

definition ek_Zero :: "heap \<Rightarrow> ExtendedKey \<Rightarrow> heap \<times> ExtendedKey" where
  "ek_Zero h k =
     (zero_slice (zero_slice (zero_slice (zero_slice h (ek_key k)) (ek_pubKey k)) (ek_chainCode k)) (ek_parentFP k),
      k\<lparr>ek_version := [], ek_key := None, ek_depth := 0, ek_childNum := 0, ek_isPrivate := False\<rparr>)"

definition NewMaster :: "hd_lib \<Rightarrow> heap \<Rightarrow> bytes \<Rightarrow> hd_net \<Rightarrow> heap \<times> (hd_error + ExtendedKey)" where
  "NewMaster L h seed net =
     (if length seed < MinSeedBytes \<or> length seed > MaxSeedBytes then (h, Inl ErrInvalidSeedLen)
      else
        let lr = hmac_sha512 L masterKey seed;
            secretKey = take (length lr div 2) lr;
            chainCode = drop (length lr div 2) lr;
            secretKeyNum = bytes_val secretKey
        in if secretKeyNum \<ge> S256_N L \<or> secretKeyNum = 0 then (h, Inl ErrUnusableSeed)
           else
             let (h1, key) = new_slice h secretKey;
                 (h2, chain) = new_slice h1 chainCode;
                 (h3, parentFP) = new_slice h2 [0, 0, 0, 0]
             in (h3, Inr (NewExtendedKey (HDPrivateKeyID net) key chain parentFP 0 0 True)))"

definition NewKeyFromString :: "hd_lib \<Rightarrow> heap \<Rightarrow> string \<Rightarrow> heap \<times> (hd_error + ExtendedKey)" where
  "NewKeyFromString L h key =
     (let decoded = base58_Decode L key in
      if length decoded \<noteq> serializedKeyLen + 4 then (h, Inl ErrInvalidKeyLen)
      else
        let payload = take (length decoded - 4) decoded;
            checkSum = drop (length decoded - 4) decoded;
            expectedCheckSum = take 4 (DoubleHashB L payload)
        in if checkSum \<noteq> expectedCheckSum then (h, Inl ErrBadChecksum)
           else
             let version = take 4 payload;
                 depth = payload ! 4;
                 parentFP = read_at payload 5 4;
                 childNum = be_Uint32 (read_at payload 9 4);
                 chainCode = read_at payload 13 32;
                 keyData = read_at payload 45 33;
                 isPrivate = (keyData ! 0 = 0);
                 checked =
                   (if isPrivate then
                      let keyData = drop 1 keyData; keyNum = bytes_val keyData in
                      if keyNum \<ge> S256_N L \<or> keyNum = 0 then Inl ErrUnusableSeed else Inr keyData
                    else (case ParsePubKey L keyData of Inl err \<Rightarrow> Inl (ErrHDLib err) | Inr _ \<Rightarrow> Inr keyData))
             in case checked of
                  Inl err \<Rightarrow> (h, Inl err)
                | Inr keyData \<Rightarrow>
                  let (h1, k) = new_slice h keyData;
                      (h2, chain) = new_slice h1 chainCode;
                      (h3, fp) = new_slice h2 parentFP
                  in (h3, Inr (NewExtendedKey version k chain fp depth childNum isPrivate)))"

definition hd_GenerateSeed :: "(nat \<Rightarrow> string + bytes) \<Rightarrow> byte \<Rightarrow> hd_error + bytes" where
  "hd_GenerateSeed rand_Read len =
     (if unat len < MinSeedBytes \<or> unat len > MaxSeedBytes then Inl ErrInvalidSeedLen
      else case rand_Read (unat len) of Inl err \<Rightarrow> Inl (ErrHDLib err) | Inr buf \<Rightarrow> Inr buf)"

definition ek_PrivKey :: "ExtendedKey \<Rightarrow> hd_error + slice" where
  "ek_PrivKey k = (if \<not> ek_isPrivate k then Inl ErrNotPrivExtKey else Inr (ek_key k))"

definition ek_PublicKey :: "hd_lib \<Rightarrow> heap \<Rightarrow> ExtendedKey \<Rightarrow> heap \<times> ExtendedKey \<times> slice" where
  "ek_PublicKey L h k = pubKeyBytes L h k"

definition ChainCode :: "ExtendedKey \<Rightarrow> slice" where "ChainCode k = ek_chainCode k"

section \<open>The libraries\<close>

text \<open>
  What is relied on: the multiples of the base point form a group whose order is \<open>N\<close>, no multiple but the
  neutral one has a zero coordinate, a serialized point is parsed back, and the lengths of hashes and of
  serialized points.
\<close>

definition hd_lib_ok :: "hd_lib \<Rightarrow> bool" where
  "hd_lib_ok L \<longleftrightarrow>
     1 < S256_N L \<and> S256_N L \<le> 256 ^ 32 \<and>
     (\<forall>a b. bytes_val a mod S256_N L = bytes_val b mod S256_N L \<longrightarrow> ScalarBaseMult L a = ScalarBaseMult L b) \<and>
     (\<forall>a b c. (bytes_val a + bytes_val b) mod S256_N L = bytes_val c mod S256_N L \<longrightarrow>
        S256_Add L (ScalarBaseMult L a) (ScalarBaseMult L b) = ScalarBaseMult L c) \<and>
     (\<forall>a. bytes_val a mod S256_N L \<noteq> 0 \<longrightarrow>
        fst (ScalarBaseMult L a) \<noteq> 0 \<and> snd (ScalarBaseMult L a) \<noteq> 0 \<and>
        ParsePubKey L (pk_SerializeCompressed L (ScalarBaseMult L a)) = Inr (ScalarBaseMult L a)) \<and>
     (\<forall>p. length (pk_SerializeCompressed L p) = 33) \<and>
     (\<forall>b p. length b = 33 \<and> ParsePubKey L b = Inr p \<longrightarrow> b ! 0 \<noteq> 0) \<and>
     (\<forall>b. PrivKeyFromBytes L b = \<lparr>pv_D = bytes_val b, pv_PublicKey = ScalarBaseMult L b\<rparr>) \<and>
     (\<forall>k d. length (hmac_sha512 L k d) = 64) \<and> (\<forall>b. length (Hash160 L b) = 20) \<and> (\<forall>b. length (DoubleHashB L b) = 32) \<and>
     (\<forall>b. base58_Decode L (base58_Encode L b) = b) \<and>
     (\<forall>v v'. HDPrivateKeyToPublicKeyID L v = Inr v' \<longrightarrow> length v' = 4)"

lemma hd_lib_okD:
  assumes "hd_lib_ok L"
  shows "1 < S256_N L" "S256_N L \<le> 256 ^ 32"
    "bytes_val a mod S256_N L = bytes_val b mod S256_N L \<Longrightarrow> ScalarBaseMult L a = ScalarBaseMult L b"
    "(bytes_val a + bytes_val b) mod S256_N L = bytes_val c mod S256_N L \<Longrightarrow>
       S256_Add L (ScalarBaseMult L a) (ScalarBaseMult L b) = ScalarBaseMult L c"
    "bytes_val a mod S256_N L \<noteq> 0 \<Longrightarrow> fst (ScalarBaseMult L a) \<noteq> 0 \<and> snd (ScalarBaseMult L a) \<noteq> 0"
    "bytes_val a mod S256_N L \<noteq> 0 \<Longrightarrow>
       ParsePubKey L (pk_SerializeCompressed L (ScalarBaseMult L a)) = Inr (ScalarBaseMult L a)"
    "length (pk_SerializeCompressed L p) = 33"
    "length b = 33 \<Longrightarrow> ParsePubKey L b = Inr p \<Longrightarrow> b ! 0 \<noteq> 0"
    "PrivKeyFromBytes L b = \<lparr>pv_D = bytes_val b, pv_PublicKey = ScalarBaseMult L b\<rparr>"
    "length (hmac_sha512 L c d) = 64" "length (Hash160 L b) = 20" "length (DoubleHashB L b) = 32"
    "base58_Decode L (base58_Encode L b) = b"
    "HDPrivateKeyToPublicKeyID L v = Inr v' \<Longrightarrow> length v' = 4"
  using assms unfolding hd_lib_ok_def by blast+

section \<open>The values of keys\<close>

text \<open>
  What a key is, without the store and the cache, and the operations on such values. The lemmas of this
  section show that the operations of the source compute them, whatever the store and the cache are.
\<close>

record hd_node =
  nd_key :: bytes
  nd_chain :: bytes
  nd_depth :: byte
  nd_fp :: bytes
  nd_num :: u32
  nd_version :: bytes
  nd_priv :: bool

definition view :: "heap \<Rightarrow> ExtendedKey \<Rightarrow> hd_node" where
  "view h k = \<lparr>nd_key = slice_bytes h (ek_key k), nd_chain = slice_bytes h (ek_chainCode k), nd_depth = ek_depth k,
     nd_fp = slice_bytes h (ek_parentFP k), nd_num = ek_childNum k, nd_version = ek_version k, nd_priv = ek_isPrivate k\<rparr>"

definition node_pub :: "hd_lib \<Rightarrow> hd_node \<Rightarrow> bytes" where
  "node_pub L n = (if nd_priv n then pk_SerializeCompressed L (ScalarBaseMult L (nd_key n)) else nd_key n)"

definition node_data :: "hd_lib \<Rightarrow> hd_node \<Rightarrow> u32 \<Rightarrow> bytes" where
  "node_data L n i =
     copy_at (if i \<ge> HardenedKeyStart then copy_at (replicate 37 0) 1 (nd_key n) else copy_at (replicate 37 0) 0 (node_pub L n))
       33 (be_PutUint32 i)"

definition node_child :: "hd_lib \<Rightarrow> hd_node \<Rightarrow> u32 \<Rightarrow> hd_error + hd_node" where
  "node_child L n i =
     (if nd_depth n = maxUint8 then Inl ErrDeriveBeyondMaxDepth
      else if \<not> nd_priv n \<and> i \<ge> HardenedKeyStart then Inl ErrDeriveHardFromPublic
      else
        let ilr = hmac_sha512 L (nd_chain n) (node_data L n i);
            il = take (length ilr div 2) ilr
        in if bytes_val il \<ge> S256_N L \<or> bytes_val il = 0 then Inl ErrInvalidChild
           else case child_key L (nd_priv n) (nd_key n) il of
                  Inl err \<Rightarrow> Inl err
                | Inr key \<Rightarrow> Inr \<lparr>nd_key = key, nd_chain = drop (length ilr div 2) ilr, nd_depth = nd_depth n + 1,
                    nd_fp = take 4 (Hash160 L (node_pub L n)), nd_num = i, nd_version = nd_version n, nd_priv = nd_priv n\<rparr>)"

definition node_neuter :: "hd_lib \<Rightarrow> hd_node \<Rightarrow> hd_error + hd_node" where
  "node_neuter L n =
     (if \<not> nd_priv n then Inr n
      else case HDPrivateKeyToPublicKeyID L (nd_version n) of
             Inl err \<Rightarrow> Inl (ErrHDLib err)
           | Inr v \<Rightarrow> Inr (n\<lparr>nd_key := node_pub L n, nd_version := v, nd_priv := False\<rparr>))"

text \<open>Slices that are in the store, and a cache that holds the public key.\<close>

definition slice_ok :: "heap \<Rightarrow> slice \<Rightarrow> bool" where
  "slice_ok h s \<longleftrightarrow> (case s of None \<Rightarrow> True | Some a \<Rightarrow> a < length h)"

definition ek_ok :: "hd_lib \<Rightarrow> heap \<Rightarrow> ExtendedKey \<Rightarrow> bool" where
  "ek_ok L h k \<longleftrightarrow>
     slice_ok h (ek_key k) \<and> slice_ok h (ek_pubKey k) \<and> slice_ok h (ek_chainCode k) \<and> slice_ok h (ek_parentFP k) \<and>
     (ek_isPrivate k \<and> slice_bytes h (ek_pubKey k) \<noteq> [] \<longrightarrow> slice_bytes h (ek_pubKey k) = node_pub L (view h k))"

text \<open>All slices of a key lie above \<open>n\<close>: the key shares nothing with what was allocated before.\<close>

definition ek_above :: "nat \<Rightarrow> ExtendedKey \<Rightarrow> bool" where
  "ek_above n k \<longleftrightarrow>
     (\<forall>a. ek_key k = Some a \<or> ek_pubKey k = Some a \<or> ek_chainCode k = Some a \<or> ek_parentFP k = Some a \<longrightarrow> n \<le> a)"

lemma slice_bytes_prefix: "slice_ok h s \<Longrightarrow> prefix h h' \<Longrightarrow> slice_bytes h' s = slice_bytes h s"
  by (auto simp: slice_ok_def slice_bytes_def prefix_def nth_append split: option.splits)

lemma slice_ok_prefix: "slice_ok h s \<Longrightarrow> prefix h h' \<Longrightarrow> slice_ok h' s"
  using prefix_length_le by (fastforce simp: slice_ok_def split: option.splits)

lemma new_slice_simps [simp]:
  "slice_bytes (h @ [bs]) (Some (length h)) = bs" "slice_ok (h @ [bs]) (Some (length h))" "slice_ok h None"
  by (simp_all add: slice_bytes_def slice_ok_def)

lemma view_prefix:
  assumes "ek_ok L h k" "prefix h h'"
  shows "view h' k = view h k" "ek_ok L h' k"
proof -
  have "slice_bytes h' s = slice_bytes h s" if "slice_ok h s" for s
    using that assms(2) by (rule slice_bytes_prefix)
  moreover have "slice_ok h' s" if "slice_ok h s" for s using that assms(2) by (rule slice_ok_prefix)
  ultimately show "view h' k = view h k" "ek_ok L h' k"
    using assms(1) unfolding ek_ok_def view_def by auto
qed

lemma view_NewExtendedKey:
  "view h (NewExtendedKey v key chain fp d i p) = \<lparr>nd_key = slice_bytes h key, nd_chain = slice_bytes h chain,
     nd_depth = d, nd_fp = slice_bytes h fp, nd_num = i, nd_version = v, nd_priv = p\<rparr>"
  by (simp add: view_def NewExtendedKey_def)

lemma pubKeyBytes_correct:
  assumes "ek_ok L h k" "pubKeyBytes L h k = (h', k', s)"
  shows "prefix h h' \<and> ek_ok L h' k' \<and> view h' k' = view h k \<and> slice_bytes h' s = node_pub L (view h k) \<and> slice_ok h' s"
    "k' = k\<lparr>ek_pubKey := ek_pubKey k'\<rparr>"
    "s = (if ek_isPrivate k then ek_pubKey k' else ek_key k)"
    "ek_above n k \<Longrightarrow> n \<le> length h \<Longrightarrow> ek_above n k'"
proof -
  consider (pub) "\<not> ek_isPrivate k" | (cached) "ek_isPrivate k" "slice_bytes h (ek_pubKey k) \<noteq> []"
    | (new) "ek_isPrivate k" "slice_bytes h (ek_pubKey k) = []" by blast
  then show "prefix h h' \<and> ek_ok L h' k' \<and> view h' k' = view h k \<and> slice_bytes h' s = node_pub L (view h k) \<and> slice_ok h' s"
  proof cases
    case pub
    with assms show ?thesis by (auto simp: pubKeyBytes_def node_pub_def view_def ek_ok_def)
  next
    case cached
    with assms show ?thesis by (auto simp: pubKeyBytes_def ek_ok_def)
  next
    case new
    let ?b = "pk_SerializeCompressed L (ScalarBaseMult L (slice_bytes h (ek_key k)))"
    have e: "h' = h @ [?b]" "k' = k\<lparr>ek_pubKey := Some (length h)\<rparr>" "s = Some (length h)"
      using new assms(2) by (auto simp: pubKeyBytes_def new_slice_def Let_def)
    have v: "view h' k' = view h k" using view_prefix(1) [OF assms(1), of h'] e by (simp add: view_def)
    have b: "?b = node_pub L (view h k)" using new by (simp add: node_pub_def view_def)
    have "ek_ok L h' k" using view_prefix(2) [OF assms(1), of h'] e by simp
    then have "ek_ok L h' k'" using v b unfolding ek_ok_def by (simp add: e)
    then show ?thesis using v b e by simp
  qed
  show "k' = k\<lparr>ek_pubKey := ek_pubKey k'\<rparr>" "s = (if ek_isPrivate k then ek_pubKey k' else ek_key k)"
    using assms(2) by (auto simp: pubKeyBytes_def new_slice_def Let_def split: if_splits)
  show "ek_above n k \<Longrightarrow> n \<le> length h \<Longrightarrow> ek_above n k'"
    using assms(2) by (auto simp: pubKeyBytes_def new_slice_def Let_def ek_above_def split: if_splits)
qed

lemma child_data_correct:
  assumes "ek_ok L h k" "child_data L h k i = (h', k', data)"
  shows "prefix h h' \<and> ek_ok L h' k' \<and> view h' k' = view h k \<and> data = node_data L (view h k) i"
    "k' = k\<lparr>ek_pubKey := ek_pubKey k'\<rparr>"
    "ek_above n k \<Longrightarrow> n \<le> length h \<Longrightarrow> ek_above n k'"
proof -
  obtain h1 k1 s where p: "pubKeyBytes L h k = (h1, k1, s)" by (cases "pubKeyBytes L h k")
  note c = pubKeyBytes_correct [OF assms(1) p]
  have d: "(h', k', data) =
    (if i \<ge> HardenedKeyStart then (h, k, copy_at (copy_at (replicate 37 0) 1 (slice_bytes h (ek_key k))) 33 (be_PutUint32 i))
     else (h1, k1, copy_at (copy_at (replicate 37 0) 0 (slice_bytes h1 s)) 33 (be_PutUint32 i)))"
    using assms(2) by (auto simp: child_data_def p split: if_splits)
  have "nd_key (view h k) = slice_bytes h (ek_key k)" by (simp add: view_def)
  with c(1) d assms(1) show "prefix h h' \<and> ek_ok L h' k' \<and> view h' k' = view h k \<and> data = node_data L (view h k) i"
    by (simp add: node_data_def split: if_splits)
  show "k' = k\<lparr>ek_pubKey := ek_pubKey k'\<rparr>" using d c(2) by (simp split: if_splits)
  show "ek_above n k \<Longrightarrow> n \<le> length h \<Longrightarrow> ek_above n k'" using d c(4) by (simp split: if_splits)
qed

text \<open>A key made of three new arrays.\<close>

definition new_key :: "heap \<Rightarrow> bytes \<Rightarrow> bytes \<Rightarrow> bytes \<Rightarrow> bytes \<Rightarrow> byte \<Rightarrow> u32 \<Rightarrow> bool \<Rightarrow> heap \<times> ExtendedKey" where
  "new_key h v key chain fp d i p =
     (let (h1, key') = new_slice h key; (h2, chain') = new_slice h1 chain; (h3, fp') = new_slice h2 fp
      in (h3, NewExtendedKey v key' chain' fp' d i p))"

lemma new_key_correct:
  assumes "new_key h v key chain fp d i p = (h', c)"
  shows "prefix h h'" "ek_ok L h' c" "ek_above (length h) c"
    "view h' c = \<lparr>nd_key = key, nd_chain = chain, nd_depth = d, nd_fp = fp, nd_num = i, nd_version = v, nd_priv = p\<rparr>"
proof -
  have e: "h' = h @ [key, chain, fp]"
    "c = NewExtendedKey v (Some (length h)) (Some (length h + 1)) (Some (length h + 2)) d i p"
    using assms by (auto simp: new_key_def new_slice_def)
  then show "prefix h h'" "ek_ok L h' c" "ek_above (length h) c"
    "view h' c = \<lparr>nd_key = key, nd_chain = chain, nd_depth = d, nd_fp = fp, nd_num = i, nd_version = v, nd_priv = p\<rparr>"
    by (simp_all add: ek_ok_def ek_above_def slice_ok_def slice_bytes_def view_def NewExtendedKey_def nth_append)
qed

lemma Child_new_key:
  "Child L h k i =
     (if ek_depth k = maxUint8 then (h, k, Inl ErrDeriveBeyondMaxDepth)
      else if \<not> ek_isPrivate k \<and> i \<ge> HardenedKeyStart then (h, k, Inl ErrDeriveHardFromPublic)
      else
        let (h1, k1, data) = child_data L h k i;
            ilr = hmac_sha512 L (slice_bytes h1 (ek_chainCode k1)) data;
            il = take (length ilr div 2) ilr
        in if bytes_val il \<ge> S256_N L \<or> bytes_val il = 0 then (h1, k1, Inl ErrInvalidChild)
           else case child_key L (ek_isPrivate k1) (slice_bytes h1 (ek_key k1)) il of
                  Inl err \<Rightarrow> (h1, k1, Inl err)
                | Inr key \<Rightarrow>
                  let (h2, k2, pub) = pubKeyBytes L h1 k1;
                      (h3, c) = new_key h2 (ek_version k2) key (drop (length ilr div 2) ilr)
                        (take 4 (Hash160 L (slice_bytes h2 pub))) (ek_depth k2 + 1) i (ek_isPrivate k2)
                  in (h3, k2, Inr c))"
  by (simp add: Child_def new_key_def new_slice_def Let_def split: prod.split sum.split)

lemma Child_correct:
  assumes ok: "ek_ok L h k" and c: "Child L h k i = (h', k', r)"
  shows "prefix h h' \<and> ek_ok L h' k' \<and> view h' k' = view h k \<and> map_sum id (view h') r = node_child L (view h k) i \<and>
      (case r of Inl _ \<Rightarrow> True
       | Inr c \<Rightarrow> ek_ok L h' c \<and> ek_above (length h) c \<and> (\<exists>m. ek_ok L (take m h') k' \<and> ek_above m c)) \<and>
      (ek_above n k \<and> n \<le> length h \<longrightarrow> ek_above n k')"
proof (cases "ek_depth k = maxUint8 \<or> \<not> ek_isPrivate k \<and> i \<ge> HardenedKeyStart")
  case True
  with ok c show ?thesis by (auto simp: Child_def node_child_def view_def)
next
  case False
  then have guard: "(ek_depth k = maxUint8) = False" "(\<not> ek_isPrivate k \<and> i \<ge> HardenedKeyStart) = False" by auto
  obtain h1 k1 data where d: "child_data L h k i = (h1, k1, data)" by (cases "child_data L h k i")
  note d' = child_data_correct [OF ok d]
  define n0 where "n0 = view h k"
  have v1: "view h1 k1 = n0" "data = node_data L n0 i" "ek_ok L h1 k1" "prefix h h1" using d'(1) by (simp_all add: n0_def)
  have f: "slice_bytes h1 (ek_chainCode k1) = nd_chain n0" "slice_bytes h1 (ek_key k1) = nd_key n0" "ek_isPrivate k1 = nd_priv n0"
    "ek_version k1 = nd_version n0" "ek_depth k1 = nd_depth n0"
    unfolding v1(1) [symmetric] by (simp_all add: view_def)
  have f0: "ek_depth k = nd_depth n0" "ek_isPrivate k = nd_priv n0" by (simp_all add: n0_def view_def)
  define ilr where "ilr = hmac_sha512 L (nd_chain n0) (node_data L n0 i)"
  define il where "il = take (length ilr div 2) ilr"
  have C: "Child L h k i =
    (if bytes_val il \<ge> S256_N L \<or> bytes_val il = 0 then (h1, k1, Inl ErrInvalidChild)
     else case child_key L (nd_priv n0) (nd_key n0) il of
            Inl err \<Rightarrow> (h1, k1, Inl err)
          | Inr key \<Rightarrow>
            let (h2, k2, pub) = pubKeyBytes L h1 k1;
                (h3, c) = new_key h2 (ek_version k2) key (drop (length ilr div 2) ilr)
                  (take 4 (Hash160 L (slice_bytes h2 pub))) (ek_depth k2 + 1) i (ek_isPrivate k2)
            in (h3, k2, Inr c))"
    unfolding Child_new_key d guard if_False Let_def prod.case f v1(2) ilr_def il_def by (rule refl)
  have N: "node_child L n0 i =
    (if bytes_val il \<ge> S256_N L \<or> bytes_val il = 0 then Inl ErrInvalidChild
     else case child_key L (nd_priv n0) (nd_key n0) il of
            Inl err \<Rightarrow> Inl err
          | Inr key \<Rightarrow> Inr \<lparr>nd_key = key, nd_chain = drop (length ilr div 2) ilr, nd_depth = nd_depth n0 + 1,
              nd_fp = take 4 (Hash160 L (node_pub L n0)), nd_num = i, nd_version = nd_version n0, nd_priv = nd_priv n0\<rparr>)"
    unfolding node_child_def f0 [symmetric] guard if_False Let_def ilr_def il_def by (rule refl)
  show ?thesis
  proof (cases "bytes_val il \<ge> S256_N L \<or> bytes_val il = 0")
    case True
    with C N c d' show ?thesis by (simp flip: n0_def)
  next
    case nz: False
    show ?thesis
    proof (cases "child_key L (nd_priv n0) (nd_key n0) il")
      case (Inl err)
      with nz C N c d' show ?thesis by (simp flip: n0_def)
    next
      case (Inr key)
      obtain h2 k2 pub where p: "pubKeyBytes L h1 k1 = (h2, k2, pub)" by (cases "pubKeyBytes L h1 k1")
      note p' = pubKeyBytes_correct [OF v1(3) p]
      have g: "ek_version k2 = nd_version n0" "ek_depth k2 = nd_depth n0" "ek_isPrivate k2 = nd_priv n0"
        using f by (subst p'(2), simp)+
      obtain h3 c where nk: "new_key h2 (nd_version n0) key (drop (length ilr div 2) ilr)
          (take 4 (Hash160 L (node_pub L n0))) (nd_depth n0 + 1) i (nd_priv n0) = (h3, c)"
        by (metis surj_pair)
      note nk' = new_key_correct [OF nk]
      have r: "h' = h3" "k' = k2" "r = Inr c"
        using c C nz Inr p nk p'(1) v1(1) by (simp_all add: g Let_def)
      have h: "prefix h1 h2" "ek_ok L h2 k2" "view h2 k2 = n0" using p'(1) v1(1) by simp_all
      have "length h \<le> length h2" using v1(4) h(1) prefix_length_le order_trans by blast
      then have "ek_above (length h) c" using nk'(3) by (auto simp: ek_above_def intro: order_trans)
      moreover have "ek_above n k \<and> n \<le> length h \<longrightarrow> ek_above n k2"
        using d'(3) p'(4) prefix_length_le [OF v1(4)] by fastforce
      moreover have "ek_ok L (take (length h2) h3) k2 \<and> ek_above (length h2) c"
        using nk'(1,3) h(2) by (auto simp: prefix_def)
      moreover have "prefix h h3" using v1(4) h(1) nk'(1) prefix_order.order_trans by blast
      ultimately show ?thesis
        using N nz Inr nk' view_prefix [OF h(2) nk'(1)] h(3) r by (auto simp flip: n0_def)
    qed
  qed
qed

end
