(* ===== verification/HD_Derivation.thy ===== *)
theory HD_Derivation
  imports HD_Keychain
begin

text \<open>
  What the operations on extended keys promise: public derivation is the shadow of private derivation, a key
  is read back from its text, derivation is that of BIP 32 but for keys with leading zeros, and which keys
  \<open>Zero\<close> clears.
\<close>

section \<open>Neutering\<close>

lemma Neuter_correct:
  assumes "ek_ok L h k" "Neuter L h k = (h', k', r)"
  shows "prefix h h' \<and> ek_ok L h' k' \<and> view h' k' = view h k \<and> map_sum id (view h') r = node_neuter L (view h k) \<and>
    (case r of Inl _ \<Rightarrow> True | Inr c \<Rightarrow> ek_ok L h' c)"
proof (cases "ek_isPrivate k")
  case True
  obtain h1 k1 s where p: "pubKeyBytes L h k = (h1, k1, s)" by (cases "pubKeyBytes L h k")
  note c = pubKeyBytes_correct [OF assms(1) p]
  show ?thesis
  proof (cases "HDPrivateKeyToPublicKeyID L (ek_version k)")
    case (Inl err)
    with True assms show ?thesis by (auto simp: Neuter_def node_neuter_def view_def)
  next
    case (Inr v)
    define kp where "kp = NewExtendedKey v s (ek_chainCode k1) (ek_parentFP k1) (ek_depth k1) (ek_childNum k1) False"
    have r: "h' = h1" "k' = k1" "r = Inr kp" using True Inr p assms(2) by (auto simp: Neuter_def kp_def)
    have "ek_ok L h1 k1" "slice_ok h1 s" using c(1) by simp_all
    then have ok: "ek_ok L h1 kp" by (simp add: ek_ok_def kp_def NewExtendedKey_def)
    have "view h1 kp = (view h1 k1)\<lparr>nd_key := slice_bytes h1 s, nd_version := v, nd_priv := False\<rparr>"
      by (simp add: kp_def view_NewExtendedKey) (simp add: view_def)
    then have "node_neuter L (view h k) = Inr (view h1 kp)"
      using c(1) True Inr by (simp add: node_neuter_def) (simp add: view_def)
    with c(1) r ok show ?thesis by simp
  qed
next
  case False
  with assms show ?thesis by (auto simp: Neuter_def node_neuter_def view_def)
qed

lemma node_child_neuter:
  assumes L: "hd_lib_ok L" and n: "nd_priv n" "bytes_val (nd_key n) mod S256_N L \<noteq> 0" "\<not> i \<ge> HardenedKeyStart"
    and m: "node_neuter L n = Inr m"
  shows "(case node_child L n i of Inl err \<Rightarrow> Inl err | Inr c \<Rightarrow> node_neuter L c) = node_child L m i"
proof -
  obtain v where v: "HDPrivateKeyToPublicKeyID L (nd_version n) = Inr v"
    and m': "m = n\<lparr>nd_key := node_pub L n, nd_version := v, nd_priv := False\<rparr>"
    using m n(1) by (auto simp: node_neuter_def split: sum.splits)
  have pub: "node_pub L m = node_pub L n" by (simp add: node_pub_def m')
  then have data: "node_data L m i = node_data L n i" using n(3) by (simp add: node_data_def)
  define ilr where "ilr = hmac_sha512 L (nd_chain n) (node_data L n i)"
  define il where "il = take (length ilr div 2) ilr"
  show ?thesis
  proof (cases "nd_depth n = maxUint8 \<or> bytes_val il \<ge> S256_N L \<or> bytes_val il = 0")
    case True
    with n(1,3) show ?thesis by (auto simp: node_child_def m' data [unfolded m'] ilr_def il_def Let_def)
  next
    case False
    then have "bytes_val il mod S256_N L \<noteq> 0" by simp
    then have nz: "fst (ScalarBaseMult L il) \<noteq> 0" "snd (ScalarBaseMult L il) \<noteq> 0" using hd_lib_okD(5) [OF L] by blast+
    define key where "key = nat_bytes ((bytes_val il + bytes_val (nd_key n)) mod S256_N L)"
    have "S256_Add L (ScalarBaseMult L il) (ScalarBaseMult L (nd_key n)) = ScalarBaseMult L key"
      by (rule hd_lib_okD(4) [OF L]) (simp add: key_def)
    then have pubkey: "child_key L False (node_pub L n) il = Inr (pk_SerializeCompressed L (ScalarBaseMult L key))"
      using nz hd_lib_okD(6) [OF L n(2)] n(1) by (simp add: child_key_def node_pub_def case_prod_beta)
    have privkey: "child_key L True (nd_key n) il = Inr key" by (simp add: child_key_def key_def)
    have "node_child L n i = Inr \<lparr>nd_key = key, nd_chain = drop (length ilr div 2) ilr, nd_depth = nd_depth n + 1,
        nd_fp = take 4 (Hash160 L (node_pub L n)), nd_num = i, nd_version = nd_version n, nd_priv = True\<rparr>"
      using False n privkey by (simp add: node_child_def ilr_def il_def Let_def)
    moreover have "node_child L m i = Inr \<lparr>nd_key = pk_SerializeCompressed L (ScalarBaseMult L key),
        nd_chain = drop (length ilr div 2) ilr, nd_depth = nd_depth n + 1,
        nd_fp = take 4 (Hash160 L (node_pub L n)), nd_num = i, nd_version = v, nd_priv = False\<rparr>"
      using False n(3) pubkey pub data by (simp add: node_child_def m' ilr_def il_def Let_def)
    ultimately show ?thesis using v by (simp add: node_neuter_def node_pub_def)
  qed
qed

lemma node_child_fields:
  assumes "node_child L n i = Inr c"
  shows "nd_priv c = nd_priv n" "nd_version c = nd_version n" "nd_num c = i" "nd_depth c = nd_depth n + 1"
    "nd_priv n \<Longrightarrow> 1 < S256_N L \<Longrightarrow> bytes_val (nd_key c) < S256_N L"
  using assms by (auto simp: node_child_def child_key_def Let_def split: if_splits sum.splits)

section \<open>Well-formed keys\<close>

definition node_wf :: "hd_lib \<Rightarrow> hd_node \<Rightarrow> bool" where
  "node_wf L n \<longleftrightarrow>
     length (nd_version n) = 4 \<and> length (nd_fp n) = 4 \<and> length (nd_chain n) = 32 \<and>
     (if nd_priv n then 0 < bytes_val (nd_key n) \<and> bytes_val (nd_key n) < S256_N L \<and> length (nd_key n) \<le> 32
      else length (nd_key n) = 33 \<and> (\<exists>p. ParsePubKey L (nd_key n) = Inr p))"

text \<open>Derivation keeps keys well-formed, except that it may yield the scalar zero or the neutral point.\<close>

lemma node_wf_child:
  assumes L: "hd_lib_ok L" and n: "node_wf L n" and c: "node_child L n i = Inr c"
    and nz: "if nd_priv c then bytes_val (nd_key c) \<noteq> 0 else \<exists>p. ParsePubKey L (nd_key c) = Inr p"
  shows "node_wf L c"
proof -
  obtain il key where k: "child_key L (nd_priv n) (nd_key n) il = Inr key"
    and c': "nd_key c = key" "length (nd_chain c) = 32" "length (nd_fp c) = 4" "nd_version c = nd_version n" "nd_priv c = nd_priv n"
    using c hd_lib_okD(10,11) [OF L] by (auto simp: node_child_def Let_def split: if_splits sum.splits)
  have "length key \<le> 32 \<and> bytes_val key < S256_N L" if "nd_priv n"
  proof -
    have "bytes_val key < S256_N L" using k that hd_lib_okD(1) [OF L] by (auto simp: child_key_def Let_def)
    moreover have "key = nat_bytes (bytes_val key)" using k that by (auto simp: child_key_def Let_def)
    ultimately show ?thesis using length_nat_bytes [of "bytes_val key" 32] hd_lib_okD(2) [OF L] by simp
  qed
  moreover have "length key = 33" if "\<not> nd_priv n"
  proof -
    have "key \<in> range (pk_SerializeCompressed L)"
      using k that by (auto simp: child_key_def Let_def split: if_splits sum.splits prod.splits)
    then show ?thesis using hd_lib_okD(7) [OF L] by (auto simp del: split_paired_All)
  qed
  ultimately show ?thesis using n nz c' by (auto simp: node_wf_def)
qed

lemma node_wf_neuter:
  assumes L: "hd_lib_ok L" and n: "node_wf L n" and m: "node_neuter L n = Inr m"
  shows "node_wf L m"
proof (cases "nd_priv n")
  case True
  then have "bytes_val (nd_key n) mod S256_N L \<noteq> 0" using n by (simp add: node_wf_def)
  note p = hd_lib_okD(6) [OF L this]
  obtain v where "HDPrivateKeyToPublicKeyID L (nd_version n) = Inr v"
    "m = n\<lparr>nd_key := pk_SerializeCompressed L (ScalarBaseMult L (nd_key n)), nd_version := v, nd_priv := False\<rparr>"
    using m True by (auto simp: node_neuter_def node_pub_def split: sum.splits)
  then show ?thesis using n p hd_lib_okD(7) [OF L] hd_lib_okD(14) [OF L] by (simp add: node_wf_def)
qed (use n m in \<open>simp add: node_neuter_def\<close>)

lemma NewMaster_correct:
  assumes "NewMaster L h seed net = (h', r)"
  shows "prefix h h'" "r = Inr k \<Longrightarrow> ek_ok L h' k \<and> ek_above (length h) k"
    "hd_lib_ok L \<Longrightarrow> length (HDPrivateKeyID net) = 4 \<Longrightarrow> r = Inr k \<Longrightarrow>
       node_wf L (view h' k) \<and> nd_priv (view h' k) \<and> length (nd_key (view h' k)) = 32 \<and> nd_version (view h' k) = HDPrivateKeyID net"
proof -
  define lr where "lr = hmac_sha512 L masterKey seed"
  have new: "h' = h \<and> (\<exists>e. r = Inl e) \<or> (\<exists>k. r = Inr k \<and> 0 < bytes_val (take (length lr div 2) lr) \<and>
      bytes_val (take (length lr div 2) lr) < S256_N L \<and>
      new_key h (HDPrivateKeyID net) (take (length lr div 2) lr) (drop (length lr div 2) lr) [0, 0, 0, 0] 0 0 True = (h', k))"
    using assms by (auto simp: NewMaster_def new_key_def new_slice_def lr_def Let_def split: if_splits)
  then show "prefix h h'" "r = Inr k \<Longrightarrow> ek_ok L h' k \<and> ek_above (length h) k"
    using new_key_correct [of h] by auto
  show "node_wf L (view h' k) \<and> nd_priv (view h' k) \<and> length (nd_key (view h' k)) = 32 \<and> nd_version (view h' k) = HDPrivateKeyID net"
    if "hd_lib_ok L" "length (HDPrivateKeyID net) = 4" "r = Inr k"
  proof -
    have "length lr = 64" using hd_lib_okD(10) [OF that(1)] by (simp add: lr_def)
    moreover have "0 < bytes_val (take (length lr div 2) lr)" "bytes_val (take (length lr div 2) lr) < S256_N L"
      "new_key h (HDPrivateKeyID net) (take (length lr div 2) lr) (drop (length lr div 2) lr) [0, 0, 0, 0] 0 0 True = (h', k)"
      using new that(3) by auto
    ultimately show ?thesis using that(2) new_key_correct(4) by (simp add: node_wf_def)
  qed
qed

section \<open>Texts\<close>

definition node_serialized :: "hd_node \<Rightarrow> bytes" where
  "node_serialized n = nd_version n @ [nd_depth n] @ nd_fp n @ be_PutUint32 (nd_num n) @ nd_chain n @
     (if nd_priv n then 0 # paddedAppend 32 [] (nd_key n) else nd_key n)"

definition node_string :: "hd_lib \<Rightarrow> hd_node \<Rightarrow> string" where
  "node_string L n =
     (if nd_key n = [] then ''zeroed extended key''
      else base58_Encode L (node_serialized n @ take 4 (DoubleHashB L (node_serialized n))))"

lemma String_correct: "ek_String L h k = (h, k, node_string L (view h k))"
  by (simp add: ek_String_def node_string_def node_serialized_def view_def paddedAppend_def pubKeyBytes_def)

text \<open>The key a text stands for.\<close>

definition parse_key :: "hd_lib \<Rightarrow> bytes \<Rightarrow> hd_error + bytes" where
  "parse_key L kd =
     (if kd ! 0 = 0 then
        (if bytes_val (drop 1 kd) \<ge> S256_N L \<or> bytes_val (drop 1 kd) = 0 then Inl ErrUnusableSeed else Inr (drop 1 kd))
      else (case ParsePubKey L kd of Inl err \<Rightarrow> Inl (ErrHDLib err) | Inr _ \<Rightarrow> Inr kd))"

definition node_parse :: "hd_lib \<Rightarrow> string \<Rightarrow> hd_error + hd_node" where
  "node_parse L s =
     (let d = base58_Decode L s; payload = take 78 d; kd = read_at payload 45 33 in
      if length d \<noteq> 82 then Inl ErrInvalidKeyLen
      else if drop 78 d \<noteq> take 4 (DoubleHashB L payload) then Inl ErrBadChecksum
      else case parse_key L kd of
             Inl err \<Rightarrow> Inl err
           | Inr key \<Rightarrow>
             Inr \<lparr>nd_key = key, nd_chain = read_at payload 13 32, nd_depth = payload ! 4, nd_fp = read_at payload 5 4,
               nd_num = be_Uint32 (read_at payload 9 4), nd_version = take 4 payload, nd_priv = (kd ! 0 = 0)\<rparr>)"

lemma NewKeyFromString_new_key:
  "NewKeyFromString L h s =
     (let d = base58_Decode L s; payload = take 78 d; kd = read_at payload 45 33 in
      if length d \<noteq> 82 then (h, Inl ErrInvalidKeyLen)
      else if drop 78 d \<noteq> take 4 (DoubleHashB L payload) then (h, Inl ErrBadChecksum)
      else case parse_key L kd of
             Inl err \<Rightarrow> (h, Inl err)
           | Inr key \<Rightarrow>
             let (h', k) = new_key h (take 4 payload) key (read_at payload 13 32) (read_at payload 5 4) (payload ! 4)
               (be_Uint32 (read_at payload 9 4)) (kd ! 0 = 0)
             in (h', Inr k))"
  by (simp add: NewKeyFromString_def serializedKeyLen_def parse_key_def new_key_def new_slice_def Let_def
      split: sum.split cong: if_cong)

lemma NewKeyFromString_correct:
  assumes "NewKeyFromString L h s = (h', r)"
  shows "prefix h h' \<and> map_sum id (view h') r = node_parse L s \<and>
    (case r of Inl _ \<Rightarrow> True | Inr k \<Rightarrow> ek_ok L h' k \<and> ek_above (length h) k)"
proof (cases "node_parse L s")
  case (Inl e)
  then have "r = Inl e \<and> h' = h"
    using assms by (auto simp: NewKeyFromString_new_key node_parse_def Let_def split: if_splits sum.splits prod.splits)
  with Inl show ?thesis by simp
next
  case (Inr n)
  let ?p = "take 78 (base58_Decode L s)" and ?kd = "read_at (take 78 (base58_Decode L s)) 45 33"
  from Inr assms obtain k where "r = Inr k" "new_key h (take 4 ?p) (nd_key n) (read_at ?p 13 32) (read_at ?p 5 4) (?p ! 4)
      (be_Uint32 (read_at ?p 9 4)) (?kd ! 0 = 0) = (h', k)"
    by (auto simp: NewKeyFromString_new_key node_parse_def Let_def split: if_splits sum.splits prod.splits)
  moreover from Inr have "n = \<lparr>nd_key = nd_key n, nd_chain = read_at ?p 13 32, nd_depth = ?p ! 4, nd_fp = read_at ?p 5 4,
      nd_num = be_Uint32 (read_at ?p 9 4), nd_version = take 4 ?p, nd_priv = (?kd ! 0 = 0)\<rparr>"
    by (auto simp: node_parse_def Let_def split: if_splits sum.splits)
  ultimately show ?thesis using Inr new_key_correct [of h] by auto
qed

text \<open>The text of a key is read back, with the scalar padded to 32 bytes.\<close>

definition node_padded :: "hd_node \<Rightarrow> hd_node" where
  "node_padded n = (if nd_priv n then n\<lparr>nd_key := paddedAppend 32 [] (nd_key n)\<rparr> else n)"

lemma padded_simps [simp]:
  "bytes_val (paddedAppend k [] b) = bytes_val b"
  "length b \<le> k \<Longrightarrow> length (paddedAppend k [] b) = k"
  "length b = k \<Longrightarrow> paddedAppend k [] b = b"
  by (simp_all add: paddedAppend_def)

lemma read_at_skip: "length xs \<le> p \<Longrightarrow> read_at (xs @ ys) p n = read_at ys (p - length xs) n"
  by (simp add: read_at_def)

lemma read_at_here: "length xs = n \<Longrightarrow> read_at (xs @ ys) 0 n = xs"
  by (simp add: read_at_def)

definition node_keydata :: "hd_node \<Rightarrow> bytes" where
  "node_keydata n = (if nd_priv n then 0 # paddedAppend 32 [] (nd_key n) else nd_key n)"

lemma node_serialized_fields:
  assumes "node_wf L n"
  shows "length (node_serialized n) = 78" "take 4 (node_serialized n) = nd_version n" "node_serialized n ! 4 = nd_depth n"
    "read_at (node_serialized n) 5 4 = nd_fp n" "read_at (node_serialized n) 9 4 = be_PutUint32 (nd_num n)"
    "read_at (node_serialized n) 13 32 = nd_chain n" "read_at (node_serialized n) 45 33 = node_keydata n"
proof -
  have l: "length (nd_version n) = 4" "length (nd_fp n) = 4" "length (nd_chain n) = 32" "length (node_keydata n) = 33"
    "length (be_PutUint32 (nd_num n)) = 4"
    using assms by (simp_all add: node_wf_def node_keydata_def be32.enc_width split: if_splits)
  have s: "node_serialized n = nd_version n @ [nd_depth n] @ nd_fp n @ be_PutUint32 (nd_num n) @ nd_chain n @ node_keydata n"
    by (simp add: node_serialized_def node_keydata_def)
  show "length (node_serialized n) = 78" "take 4 (node_serialized n) = nd_version n" "node_serialized n ! 4 = nd_depth n"
    using l by (simp_all add: s nth_append)
  show "read_at (node_serialized n) 5 4 = nd_fp n" "read_at (node_serialized n) 9 4 = be_PutUint32 (nd_num n)"
    "read_at (node_serialized n) 13 32 = nd_chain n"
    unfolding s using l by (simp_all add: read_at_skip read_at_here del: append_Cons append_Nil)
  show "read_at (node_serialized n) 45 33 = node_keydata n"
    unfolding s using l read_at_here [of "node_keydata n" 33 "[]"] by (simp add: read_at_skip del: append_Cons append_Nil)
qed

lemma parse_key_keydata:
  assumes "hd_lib_ok L" "node_wf L n"
  shows "parse_key L (node_keydata n) = Inr (nd_key (node_padded n))" "node_keydata n ! 0 = 0 \<longleftrightarrow> nd_priv n"
proof -
  show z: "node_keydata n ! 0 = 0 \<longleftrightarrow> nd_priv n"
    using assms(2) hd_lib_okD(8) [OF assms(1)] by (auto simp: node_keydata_def node_wf_def)
  show "parse_key L (node_keydata n) = Inr (nd_key (node_padded n))"
    using assms(2) z by (auto simp: parse_key_def node_keydata_def node_padded_def node_wf_def)
qed

theorem node_string_roundtrip:
  assumes L: "hd_lib_ok L" and n: "node_wf L n"
  shows "node_parse L (node_string L n) = Inr (node_padded n)"
proof -
  note f = node_serialized_fields [OF n]
  define d where "d = node_serialized n @ take 4 (DoubleHashB L (node_serialized n))"
  have "nd_key n \<noteq> []" using n by (auto simp: node_wf_def split: if_splits)
  then have "base58_Decode L (node_string L n) = d" using hd_lib_okD(13) [OF L] by (simp add: node_string_def d_def)
  moreover have "length d = 82" "take 78 d = node_serialized n" "drop 78 d = take 4 (DoubleHashB L (node_serialized n))"
    using f(1) hd_lib_okD(12) [OF L] by (simp_all add: d_def)
  moreover have "be_Uint32 (be_PutUint32 (nd_num n)) = nd_num n" by (rule be32.dec_enc)
  ultimately show ?thesis
    using f parse_key_keydata [OF L n] by (simp add: node_parse_def Let_def node_padded_def)
qed

text \<open>A text that is accepted is that of a well-formed key with the same serialization.\<close>

theorem node_parse_string:
  assumes L: "hd_lib_ok L" and p: "node_parse L s = Inr n"
  shows "node_wf L n" "node_padded n = n" "node_string L n = base58_Encode L (base58_Decode L s)"
proof -
  define d where "d = base58_Decode L s"
  define payload where "payload = take 78 d"
  define kd where "kd = read_at payload 45 33"
  have l: "length d = 82" "drop 78 d = take 4 (DoubleHashB L payload)" and k: "parse_key L kd = Inr (nd_key n)"
    and n: "n = \<lparr>nd_key = nd_key n, nd_chain = read_at payload 13 32, nd_depth = payload ! 4, nd_fp = read_at payload 5 4,
      nd_num = be_Uint32 (read_at payload 9 4), nd_version = take 4 payload, nd_priv = (kd ! 0 = 0)\<rparr>"
    using p by (auto simp: node_parse_def Let_def kd_def payload_def d_def split: if_splits sum.splits)
  have lp: "length payload = 78" and lk: "length kd = 33" using l(1) by (simp_all add: payload_def kd_def)
  have f: "nd_chain n = read_at payload 13 32" "nd_depth n = payload ! 4" "nd_fp n = read_at payload 5 4"
    "nd_num n = be_Uint32 (read_at payload 9 4)" "nd_version n = take 4 payload" "nd_priv n \<longleftrightarrow> kd ! 0 = 0"
    by (subst n, simp)+
  have key: "if nd_priv n then kd = 0 # nd_key n \<and> 0 < bytes_val (nd_key n) \<and> bytes_val (nd_key n) < S256_N L
      else nd_key n = kd \<and> (\<exists>p. ParsePubKey L kd = Inr p)"
    using k lk f(6) by (cases kd) (auto simp: parse_key_def split: if_splits sum.splits)
  then show wf: "node_wf L n" using lp lk f by (auto simp: node_wf_def)
  have pad: "node_keydata n = kd" using key lk by (auto simp: node_keydata_def)
  show "node_padded n = n" using key lk by (auto simp: node_padded_def)
  have "node_serialized n = take 4 payload @ [payload ! 4] @ read_at payload 5 4 @ read_at payload 9 4 @ read_at payload 13 32 @ kd"
  proof -
    have "be_PutUint32 (be_Uint32 b) = b" if "length b = 4" for b
      using that le_put_get [of "rev b"] le_get_bound [of "rev b"] by (simp add: be_PutUint32_def be_Uint32_def unat_of_nat_bound)
    then show ?thesis using pad lp by (simp add: node_serialized_def node_keydata_def f)
  qed
  also have "\<dots> = payload"
    using lp by (intro nth_equalityI) (auto simp: kd_def read_at_def nth_append nth_Cons' not_less)
  finally have "node_serialized n @ take 4 (DoubleHashB L (node_serialized n)) = d"
    using l(2) append_take_drop_id [of 78 d] by (simp add: payload_def)
  moreover have "nd_key n \<noteq> []" using wf by (auto simp: node_wf_def split: if_splits)
  ultimately show "node_string L n = base58_Encode L (base58_Decode L s)" by (simp add: node_string_def d_def)
qed

section \<open>BIP 32\<close>

text \<open>
  The derivation functions of BIP 32, as that document has them: on scalars and points, with the scalar
  written in 32 bytes.
\<close>

definition ser256 :: "nat \<Rightarrow> bytes" where
  "ser256 n = rev (le_put 32 n)"

definition CKDpriv_data :: "hd_lib \<Rightarrow> nat \<Rightarrow> u32 \<Rightarrow> bytes" where
  "CKDpriv_data L k i =
     (if i \<ge> HardenedKeyStart then 0 # ser256 k else pk_SerializeCompressed L (ScalarBaseMult L (ser256 k))) @ be_PutUint32 i"

definition CKDpriv :: "hd_lib \<Rightarrow> nat \<times> bytes \<Rightarrow> u32 \<Rightarrow> (nat \<times> bytes) option" where
  "CKDpriv L = (\<lambda>(k, c) i.
     let I = hmac_sha512 L c (CKDpriv_data L k i);
         il = bytes_val (take 32 I);
         ki = (il + k) mod S256_N L
     in if il \<ge> S256_N L \<or> ki = 0 then None else Some (ki, drop 32 I))"

lemma ser256_val: "n < 256 ^ 32 \<Longrightarrow> bytes_val (ser256 n) = n" "length (ser256 n) = 32"
  by (simp_all add: ser256_def bytes_val_le_get le_get_put)

lemma ser256_unique: "length b = 32 \<Longrightarrow> ser256 (bytes_val b) = b"
  using bytes_val_bound [of b] by (intro bytes_val_inj) (simp_all add: ser256_val)

lemma ser256_padded: "length b \<le> 32 \<Longrightarrow> ser256 (bytes_val b) = paddedAppend 32 [] b"
  using ser256_unique [of "paddedAppend 32 [] b"] by simp

lemma copy_at_replicate:
  "p + length src \<le> n \<Longrightarrow> copy_at (replicate n 0) p src = replicate p 0 @ src @ replicate (n - p - length src) 0"
  by (simp add: copy_at_def)

lemma node_data_normal:
  assumes "hd_lib_ok L" "node_wf L n" "\<not> i \<ge> HardenedKeyStart"
  shows "node_data L n i = node_pub L n @ be_PutUint32 i"
proof -
  have "length (node_pub L n) = 33" using assms(2) hd_lib_okD(7) [OF assms(1)] by (auto simp: node_pub_def node_wf_def)
  then show ?thesis using assms(3) by (simp add: node_data_def copy_at_replicate) (simp add: copy_at_def be32.enc_width)
qed

lemma node_data_hardened:
  assumes "length (nd_key n) \<le> 32" "i \<ge> HardenedKeyStart"
  shows "node_data L n i = 0 # nd_key n @ replicate (32 - length (nd_key n)) 0 @ be_PutUint32 i"
proof -
  let ?c = "0 # nd_key n @ replicate (36 - length (nd_key n)) 0"
  have "copy_at (replicate 37 0) 1 (nd_key n) = ?c" using assms(1) by (simp add: copy_at_replicate)
  moreover have "length ?c = 37" "take 33 ?c = 0 # nd_key n @ replicate (32 - length (nd_key n)) 0"
    using assms(1) by (simp_all add: take_Cons')
  ultimately show ?thesis using assms(2) by (simp add: node_data_def copy_at_def be32.enc_width)
qed

lemma node_data_BIP32:
  assumes L: "hd_lib_ok L" and n: "node_wf L n" "nd_priv n" and i: "i \<ge> HardenedKeyStart \<Longrightarrow> length (nd_key n) = 32"
  shows "node_data L n i = CKDpriv_data L (bytes_val (nd_key n)) i"
proof (cases "i \<ge> HardenedKeyStart")
  case True
  with i show ?thesis by (simp add: node_data_hardened CKDpriv_data_def ser256_unique)
next
  case False
  have "bytes_val (nd_key n) < 256 ^ 32" using n hd_lib_okD(2) [OF L] by (simp add: node_wf_def)
  then have "ScalarBaseMult L (ser256 (bytes_val (nd_key n))) = ScalarBaseMult L (nd_key n)"
    by (intro hd_lib_okD(3) [OF L]) (simp add: ser256_val)
  with False n show ?thesis by (simp add: node_data_normal [OF L n(1)] CKDpriv_data_def node_pub_def)
qed

text \<open>
  Derivation is that of BIP 32 when the key has all its 32 bytes, but for two cases of negligible
  probability: a left half of zero is refused although it is allowed, and a child with the scalar zero is
  returned although it is invalid.
\<close>

lemma node_child_BIP32:
  assumes L: "hd_lib_ok L" and n: "node_wf L n" "nd_priv n" "nd_depth n \<noteq> maxUint8"
    and i: "i \<ge> HardenedKeyStart \<Longrightarrow> length (nd_key n) = 32"
    and il: "bytes_val (take 32 (hmac_sha512 L (nd_chain n) (node_data L n i))) \<noteq> 0"
  shows "(case node_child L n i of
      Inl err \<Rightarrow> err = ErrInvalidChild \<and> CKDpriv L (bytes_val (nd_key n), nd_chain n) i = None
    | Inr c \<Rightarrow> CKDpriv L (bytes_val (nd_key n), nd_chain n) i =
        (if bytes_val (nd_key c) = 0 then None else Some (bytes_val (nd_key c), nd_chain c)))"
proof -
  define I where "I = hmac_sha512 L (nd_chain n) (node_data L n i)"
  have "length I div 2 = 32" using hd_lib_okD(10) [OF L] by (simp add: I_def)
  then have N: "node_child L n i = (if bytes_val (take 32 I) \<ge> S256_N L then Inl ErrInvalidChild
    else Inr \<lparr>nd_key = nat_bytes ((bytes_val (take 32 I) + bytes_val (nd_key n)) mod S256_N L), nd_chain = drop 32 I,
      nd_depth = nd_depth n + 1, nd_fp = take 4 (Hash160 L (node_pub L n)), nd_num = i, nd_version = nd_version n, nd_priv = True\<rparr>)"
    using n(2,3) il by (simp add: node_child_def I_def child_key_def Let_def)
  have "CKDpriv L (bytes_val (nd_key n), nd_chain n) i =
    (if bytes_val (take 32 I) \<ge> S256_N L \<or> (bytes_val (take 32 I) + bytes_val (nd_key n)) mod S256_N L = 0 then None
     else Some ((bytes_val (take 32 I) + bytes_val (nd_key n)) mod S256_N L, drop 32 I))"
    using node_data_BIP32 [OF L n(1,2) i] by (simp add: CKDpriv_def I_def Let_def)
  with N show ?thesis by simp
qed

text \<open>A key that \<open>Child\<close> made has no leading zeros; below \<open>2 ^ 248\<close> it is short, and then other bytes are hashed.\<close>

lemma hd_nat_bytes: "n \<noteq> 0 \<Longrightarrow> nat_bytes n \<noteq> [] \<and> hd (nat_bytes n) \<noteq> 0"
proof (induction n rule: nat_bytes.induct)
  case (1 n)
  show ?case
  proof (cases "n div 256 = 0")
    case True
    then have "n < 256" by (simp add: div_eq_0_iff)
    then have "(word_of_nat n :: byte) \<noteq> 0" using "1.prems" unat_of_nat_bound [of n, where 'a = 8] by force
    with True "1.prems" show ?thesis by (simp add: nat_bytes.simps [of n] nat_bytes.simps [of 0])
  next
    case False
    with "1.IH" [OF "1.prems"] "1.prems" show ?thesis by (subst (1 2) nat_bytes.simps) simp
  qed
qed

lemma node_child_minimal: "node_child L n i = Inr c \<Longrightarrow> nd_priv c \<Longrightarrow> \<exists>m. nd_key c = nat_bytes m"
  by (auto simp: node_child_def child_key_def Let_def split: if_splits sum.splits prod.splits)

lemma short_key_data:
  assumes "length key < 32" "key \<noteq> []" "hd key \<noteq> 0" "nd_key n = key" "i \<ge> HardenedKeyStart"
  shows "node_data L n i \<noteq> CKDpriv_data L (bytes_val key) i"
proof
  assume "node_data L n i = CKDpriv_data L (bytes_val key) i"
  then have "key @ replicate (32 - length key) 0 = replicate (32 - length key) 0 @ key"
    using assms by (simp add: node_data_hardened CKDpriv_data_def ser256_padded paddedAppend_def)
  moreover have "hd (key @ replicate (32 - length key) 0) \<noteq> 0" using assms(2,3) by simp
  ultimately show False using assms(1) by (simp add: hd_append)
qed

section \<open>Clearing\<close>

lemma length_zero_slice [simp]: "length (zero_slice h s) = length h"
  by (auto simp: zero_slice_def split: option.split)

lemma slice_bytes_zero:
  "slice_bytes (zero_slice h s) t = (if t = s then replicate (length (slice_bytes h t)) 0 else slice_bytes h t)"
  by (auto simp: zero_slice_def slice_bytes_def split: option.splits)

text \<open>What is read through a slice after \<open>Zero\<close>: zeros through the slices of the key, and what was there otherwise.\<close>

definition ek_slices :: "ExtendedKey \<Rightarrow> slice set" where
  "ek_slices k = {ek_key k, ek_pubKey k, ek_chainCode k, ek_parentFP k}"

lemma Zero_slices:
  assumes "ek_Zero h k = (h', k')"
  shows "length h' = length h"
    "slice_bytes h' t = (if t \<in> ek_slices k then replicate (length (slice_bytes h t)) 0 else slice_bytes h t)"
  using assms by (auto simp: ek_Zero_def slice_bytes_zero ek_slices_def)

lemma nth_zero_slice: "s = None \<or> (\<exists>a. s = Some a \<and> n \<le> a) \<Longrightarrow> j < n \<Longrightarrow> zero_slice h s ! j = h ! j"
  by (auto simp: zero_slice_def)

text \<open>Clearing a key whose slices were allocated after \<open>h0\<close> leaves \<open>h0\<close> as it is.\<close>

lemma Zero_above:
  assumes "ek_Zero h k = (h', k')" "ek_above (length h0) k" "prefix h0 h"
  shows "prefix h0 h'"
proof -
  have s: "s = None \<or> (\<exists>a. s = Some a \<and> length h0 \<le> a)" if "s \<in> ek_slices k" for s
    using assms(2) that by (cases s) (auto simp: ek_above_def ek_slices_def)
  have z: "zero_slice x s ! j = x ! j" if "s \<in> ek_slices k" "j < length h0" for x s j
    using s [OF that(1)] that(2) by (rule nth_zero_slice)
  have "h' ! j = h ! j" if "j < length h0" for j
    using assms(1) that by (auto simp: ek_Zero_def ek_slices_def z)
  moreover have "length h0 \<le> length h'" "length h' = length h"
    using prefix_length_le [OF assms(3)] Zero_slices(1) [OF assms(1)] by simp_all
  ultimately have "take (length h0) h' = h0"
    using assms(3) by (intro nth_equalityI) (auto simp: prefix_def nth_append)
  then show ?thesis by (metis take_is_prefix)
qed

end
