(* ===== verification/HD_Properties.thy ===== *)
theory HD_Properties
  imports HD_Derivation
begin

text \<open>
  The properties of extended keys, and a small library that satisfies what is relied on: the integers modulo a
  number for the curve, and constant hashes.
\<close>

section \<open>A sample library\<close>

definition sample_N :: nat where "sample_N = 65521"

definition sample_mult :: "bytes \<Rightarrow> point" where
  "sample_mult b = (int (bytes_val b mod sample_N), int (bytes_val b mod sample_N))"

definition sample_hd :: hd_lib where
  "sample_hd = \<lparr>S256_N = sample_N, ScalarBaseMult = sample_mult,
     S256_Add = (\<lambda>(x, _) (y, _). ((x + y) mod int sample_N, (x + y) mod int sample_N)),
     pk_SerializeCompressed = (\<lambda>(x, _). 2 # ser256 (nat x)),
     ParsePubKey = (\<lambda>b. if length b = 33 \<and> b ! 0 = 2 then Inr (int (bytes_val (tl b)), int (bytes_val (tl b))) else Inl ''invalid public key''),
     PrivKeyFromBytes = (\<lambda>b. \<lparr>pv_D = bytes_val b, pv_PublicKey = sample_mult b\<rparr>),
     hmac_sha512 = (\<lambda>_ _. replicate 31 0 @ [5] @ replicate 32 7),
     Hash160 = (\<lambda>_. replicate 20 1), DoubleHashB = (\<lambda>_. replicate 32 2),
     base58_Encode = map (\<lambda>b. char_of (unat b)), base58_Decode = map (\<lambda>c. word_of_nat (of_char c)),
     HDPrivateKeyToPublicKeyID = (\<lambda>v. if length v = 4 then Inr [4, 136, 178, 30] else Inl ''unknown hd private extended key bytes''),
     NewAddressPubKeyHash = (\<lambda>b _. Inr ''address'')\<rparr>"

lemma sample_hd_simps [simp]:
  "S256_N sample_hd = sample_N" "ScalarBaseMult sample_hd = sample_mult"
  "pk_SerializeCompressed sample_hd (x, y) = 2 # ser256 (nat x)"
  "hmac_sha512 sample_hd k d = replicate 31 0 @ [5] @ replicate 32 7"
  "HDPrivateKeyToPublicKeyID sample_hd v = (if length v = 4 then Inr [4, 136, 178, 30] else Inl ''unknown hd private extended key bytes'')"
  by (simp_all add: sample_hd_def)

lemma sample_hd_ok: "hd_lib_ok sample_hd"
proof -
  have small: "bytes_val a mod sample_N < 256 ^ 32" for a
    using mod_less_divisor [of sample_N "bytes_val a"] by (simp add: sample_N_def)
  have add: "S256_Add sample_hd (sample_mult a) (sample_mult b) = sample_mult c"
    if "(bytes_val a + bytes_val b) mod sample_N = bytes_val c mod sample_N" for a b c
    using arg_cong [OF that, of int] by (simp add: sample_hd_def sample_mult_def of_nat_mod mod_add_eq)
  have parse: "ParsePubKey sample_hd (2 # ser256 (bytes_val a mod sample_N)) = Inr (sample_mult a)" for a
    by (simp add: sample_hd_def sample_mult_def ser256_val(1) [OF small] ser256_val(2))
  have char: "word_of_nat (of_char (char_of (unat b) :: char)) = b" for b :: byte
    using unat_byte_lt [of b] by simp
  show ?thesis
    unfolding hd_lib_ok_def
  proof (intro conjI allI impI)
    show "base58_Decode sample_hd (base58_Encode sample_hd b) = b" for b
      by (simp add: sample_hd_def comp_def char)
    show "length (pk_SerializeCompressed sample_hd p) = 33" for p by (cases p) (simp add: ser256_val)
    show "b ! 0 \<noteq> 0" if "length b = 33 \<and> ParsePubKey sample_hd b = Inr p" for b p
      using that by (auto simp: sample_hd_def split: if_splits)
    show "ParsePubKey sample_hd (pk_SerializeCompressed sample_hd (ScalarBaseMult sample_hd a)) = Inr (ScalarBaseMult sample_hd a)" for a
      using parse [of a] by (simp add: sample_mult_def)
    show "ScalarBaseMult sample_hd a = ScalarBaseMult sample_hd b" if "bytes_val a mod S256_N sample_hd = bytes_val b mod S256_N sample_hd" for a b
      using that by (simp add: sample_mult_def)
    show "length v' = 4" if "HDPrivateKeyToPublicKeyID sample_hd v = Inr v'" for v v'
      using that by (auto split: if_splits)
    show "fst (ScalarBaseMult sample_hd a) \<noteq> 0" "snd (ScalarBaseMult sample_hd a) \<noteq> 0" if "bytes_val a mod S256_N sample_hd \<noteq> 0" for a
      using that by (simp_all add: sample_mult_def)
  qed (auto simp: add sample_N_def, simp_all add: sample_hd_def sample_mult_def split: if_splits)
qed

text \<open>A private key with the scalar 3, and its store.\<close>

definition sample_heap :: heap where
  "sample_heap = [ser256 3, replicate 32 9, replicate 4 0]"

definition sample_key :: ExtendedKey where
  "sample_key = NewExtendedKey [4, 136, 173, 228] (Some 0) (Some 1) (Some 2) 0 0 True"

lemma sample_key_ok: "ek_ok L sample_heap sample_key"
  by (simp add: ek_ok_def slice_ok_def slice_bytes_def sample_heap_def sample_key_def NewExtendedKey_def)

lemma sample_view:
  "view sample_heap sample_key = \<lparr>nd_key = ser256 3, nd_chain = replicate 32 9, nd_depth = 0, nd_fp = replicate 4 0,
     nd_num = 0, nd_version = [4, 136, 173, 228], nd_priv = True\<rparr>"
  by (simp add: view_def slice_bytes_def sample_heap_def sample_key_def NewExtendedKey_def)

lemma sample_key_wf: "node_wf sample_hd (view sample_heap sample_key)"
  by (simp add: sample_view node_wf_def ser256_val sample_N_def)

lemma sample_hmac: "bytes_val (take 32 (hmac_sha512 sample_hd k d)) = 5" "length (hmac_sha512 sample_hd k d) = 64"
  using bytes_val_zeros [of 31 "[5]"] by (simp_all add: bytes_val_def)

lemma sample_child:
  "node_child sample_hd (view sample_heap sample_key) i =
     Inr \<lparr>nd_key = nat_bytes 8, nd_chain = replicate 32 7, nd_depth = 1, nd_fp = take 4 (Hash160 sample_hd (node_pub sample_hd (view sample_heap sample_key))),
       nd_num = i, nd_version = [4, 136, 173, 228], nd_priv = True\<rparr>"
proof -
  have "bytes_val (ser256 3) = 3" by (rule ser256_val) simp
  then have "child_key sample_hd True (ser256 3) (take 32 (hmac_sha512 sample_hd c d)) = Inr (nat_bytes 8)" for c d
    unfolding child_key_def Let_def if_True sample_hmac(1) by (simp add: sample_N_def)
  moreover have "drop 32 (hmac_sha512 sample_hd c d) = replicate 32 7" for c d by simp
  moreover have "S256_N sample_hd \<le> 5 \<longleftrightarrow> False" by (simp add: sample_N_def)
  moreover have "(64 :: nat) div 2 = 32" by simp
  ultimately show ?thesis
    unfolding node_child_def sample_view hd_node.simps Let_def sample_hmac(2)
    by (simp only: sample_hmac(1) maxUint8_def if_False sum.case HOL.simp_thms) simp
qed

section \<open>Properties\<close>

text \<open>
  C9. Public derivation is the shadow of private derivation. For a private extended key and an index that is
  not hardened, deriving a child of the neutered key gives what neutering the private child gives, or fails
  with the same error; and the public key that the public child holds is the one that belongs to the private
  key of the private child. So a wallet that is locked hands out the addresses that it can sign for once
  it is unlocked.
\<close>

theorem Child_commutes_with_Neuter:
  assumes "hd_lib_ok L" "ek_ok L h k" "ek_isPrivate k" "node_wf L (view h k)" "i < HardenedKeyStart"
    and "Neuter L h k = (h1, k1, Inr kp)" "Child L h1 k1 i = (h2, k2, r)" "Child L h2 kp i = (h3, kp', rp)"
  shows "case r of
      Inl err \<Rightarrow> rp = Inl err
    | Inr c \<Rightarrow> \<exists>h4 c' cn cp. Neuter L h3 c = (h4, c', Inr cn) \<and> rp = Inr cp \<and> view h4 cn = view h4 cp \<and>
        (bytes_val (nd_key (view h2 c)) \<noteq> 0 \<longrightarrow>
          (\<exists>pv. ECPrivKey L h2 c = Inr pv \<and> snd (snd (ECPubKey L h3 cp)) = Inr (pv_PublicKey pv)))"
proof -
  define n where "n = view h k"
  note N = Neuter_correct [OF assms(2,6)]
  have n1: "ek_ok L h1 k1" "view h1 k1 = n" "ek_ok L h1 kp" "node_neuter L n = Inr (view h1 kp)" using N by (simp_all add: n_def)
  note C = Child_correct [OF n1(1) assms(7)]
  have c1: "prefix h1 h2" "map_sum id (view h2) r = node_child L n i" using C n1(2) by simp_all
  have kp: "ek_ok L h2 kp" "view h2 kp = view h1 kp" using view_prefix [OF n1(3) c1(1)] by simp_all
  note CP = Child_correct [OF kp(1) assms(8)]
  have c2: "prefix h2 h3" "map_sum id (view h3) rp = node_child L (view h1 kp) i" using CP kp(2) by simp_all
  have nz: "bytes_val (nd_key n) mod S256_N L \<noteq> 0" "nd_priv n"
    using assms(3,4) by (simp_all add: node_wf_def n_def) (simp_all add: view_def)
  have com: "(case node_child L n i of Inl err \<Rightarrow> Inl err | Inr c \<Rightarrow> node_neuter L c) = node_child L (view h1 kp) i"
    using nz assms(5) by (intro node_child_neuter [OF assms(1) nz(2,1)] n1(4)) simp
  show ?thesis
  proof (cases r)
    case (Inl err)
    with com c1(2) c2(2) show ?thesis by (cases rp) (auto simp flip: c1(2) c2(2))
  next
    case (Inr c)
    then have c: "ek_ok L h2 c" "node_child L n i = Inr (view h2 c)" using C c1(2) by simp_all
    note fields = node_child_fields [OF c(2)]
    have p: "nd_priv (view h2 c)" using fields(1) nz(2) by simp
    have c3: "ek_ok L h3 c" "view h3 c = view h2 c" using view_prefix [OF c(1) c2(1)] by simp_all
    obtain h4 c' rn where nt: "Neuter L h3 c = (h4, c', rn)" by (cases "Neuter L h3 c")
    note NC = Neuter_correct [OF c3(1) nt]
    have same: "map_sum id (view h4) rn = map_sum id (view h3) rp" using NC com c(2) c2(2) c3(2) by simp
    obtain v where v: "HDPrivateKeyToPublicKeyID L (nd_version n) = Inr v"
      using n1(4) nz(2) by (auto simp: node_neuter_def split: sum.splits)
    have "\<exists>m. node_neuter L (view h2 c) = Inr m" using v p fields(2) by (simp add: node_neuter_def)
    then obtain cn where cn: "rn = Inr cn" using NC c3(2) by (cases rn) auto
    with same obtain cp where cp: "rp = Inr cp" "view h3 cp = view h4 cn" by (cases rp) auto
    have "ek_ok L h3 cp" using CP cp(1) by simp
    then have "view h4 cp = view h4 cn" using view_prefix(1) [of L h3 cp h4] NC cp(2) by simp
    moreover have "snd (snd (ECPubKey L h3 cp)) = Inr (pv_PublicKey (PrivKeyFromBytes L (slice_bytes h2 (ek_key c))))"
      if nzc: "bytes_val (nd_key (view h2 c)) \<noteq> 0"
    proof -
      have cnv: "node_neuter L (view h2 c) = Inr (view h3 cp)" using NC cn c3(2) cp(2) by simp
      have e: "\<not> ek_isPrivate cp" "slice_bytes h3 (ek_key cp) = node_pub L (view h2 c)"
        using cnv p by (auto simp: node_neuter_def view_def split: sum.splits)
      have "bytes_val (nd_key (view h2 c)) mod S256_N L \<noteq> 0"
        using fields(5) [OF nz(2) hd_lib_okD(1) [OF assms(1)]] nzc by simp
      from hd_lib_okD(6) [OF assms(1) this] e p show ?thesis
        by (simp add: ECPubKey_def pubKeyBytes_def node_pub_def hd_lib_okD(9) [OF assms(1)]) (simp add: view_def)
    qed
    moreover have "ECPrivKey L h2 c = Inr (PrivKeyFromBytes L (slice_bytes h2 (ek_key c)))"
      using p by (simp add: ECPrivKey_def view_def)
    ultimately show ?thesis using Inr nt cn cp(1) by auto
  qed
qed

theorem Child_commutes_with_Neuter_witness:
  "\<exists>h1 k1 kp h2 k2 c h3 kp' cp h4 c' cn pv.
     Neuter sample_hd sample_heap sample_key = (h1, k1, Inr kp) \<and> Child sample_hd h1 k1 1 = (h2, k2, Inr c) \<and>
     Child sample_hd h2 kp 1 = (h3, kp', Inr cp) \<and> Neuter sample_hd h3 c = (h4, c', Inr cn) \<and> view h4 cn = view h4 cp \<and>
     nd_key (view h2 c) = [8] \<and> ECPrivKey sample_hd h2 c = Inr pv \<and> snd (snd (ECPubKey sample_hd h3 cp)) = Inr (pv_PublicKey pv)"
proof -
  obtain h1 k1 r1 where N: "Neuter sample_hd sample_heap sample_key = (h1, k1, r1)" by (cases "Neuter sample_hd sample_heap sample_key")
  have "\<exists>m. node_neuter sample_hd (view sample_heap sample_key) = Inr m" by (simp add: node_neuter_def sample_view)
  then obtain kp where kp: "r1 = Inr kp" using Neuter_correct [OF sample_key_ok N] by (cases r1) auto
  have k1: "ek_ok sample_hd h1 k1" "view h1 k1 = view sample_heap sample_key" using Neuter_correct [OF sample_key_ok N] by simp_all
  obtain h2 k2 r2 where C: "Child sample_hd h1 k1 1 = (h2, k2, r2)" by (cases "Child sample_hd h1 k1 1")
  have "map_sum id (view h2) r2 = node_child sample_hd (view sample_heap sample_key) 1" using Child_correct [OF k1(1) C] k1(2) by simp
  then obtain c where c: "r2 = Inr c" "nd_key (view h2 c) = nat_bytes 8" using sample_child by (cases r2) auto
  have b: "nat_bytes 8 = [8]" by (simp add: nat_bytes.simps [of 8] nat_bytes.simps [of 0])
  obtain h3 kp' rp where P: "Child sample_hd h2 kp 1 = (h3, kp', rp)" by (cases "Child sample_hd h2 kp 1")
  have "ek_isPrivate sample_key" "(1 :: u32) < HardenedKeyStart" by (simp_all add: sample_key_def NewExtendedKey_def HardenedKeyStart_def)
  from Child_commutes_with_Neuter [OF sample_hd_ok sample_key_ok this(1) sample_key_wf this(2) N [unfolded kp] C P] c b
  show ?thesis using N kp C P by (fastforce simp: bytes_val_def)
qed

text \<open>
  C10. A key is read back from its text. For a well-formed extended key, \<open>NewKeyFromString\<close> accepts what \<open>String\<close>
  writes and gives the same key, whose scalar now has all its 32 bytes; it has the same children
  that are not hardened. Conversely a text that is accepted stands for a well-formed key, and the text of that
  key decodes to the same bytes.
\<close>

lemma node_child_padded:
  assumes "hd_lib_ok L" "i < HardenedKeyStart"
  shows "node_child L (node_padded n) i = node_child L n i"
proof (cases "nd_priv n")
  case True
  have "ScalarBaseMult L (paddedAppend 32 [] (nd_key n)) = ScalarBaseMult L (nd_key n)" by (intro hd_lib_okD(3) [OF assms(1)]) simp
  then have "node_pub L (node_padded n) = node_pub L n" by (simp add: node_pub_def node_padded_def)
  moreover from this assms(2) have "node_data L (node_padded n) i = node_data L n i" by (simp add: node_data_def not_le [symmetric])
  moreover have "child_key L True (nd_key (node_padded n)) il = child_key L True (nd_key n) il" for il
    using True by (simp add: child_key_def node_padded_def)
  moreover have "nd_priv (node_padded n) = True" "nd_chain (node_padded n) = nd_chain n" "nd_depth (node_padded n) = nd_depth n"
    "nd_version (node_padded n) = nd_version n" "nd_priv n = True"
    using True by (simp_all add: node_padded_def)
  ultimately show ?thesis by (simp only: node_child_def)
qed (simp add: node_padded_def)

theorem extended_key_text:
  assumes "hd_lib_ok L"
  shows "(ek_ok L h k \<and> node_wf L (view h k) \<longrightarrow>
      (\<exists>h' k'. NewKeyFromString L h (snd (snd (ek_String L h k))) = (h', Inr k') \<and> ek_ok L h' k' \<and>
         view h' k' = node_padded (view h k) \<and>
         (\<forall>i < HardenedKeyStart. map_sum id (view (fst (Child L h' k' i))) (snd (snd (Child L h' k' i))) =
            map_sum id (view (fst (Child L h k i))) (snd (snd (Child L h k i)))))) \<and>
    (\<forall>h' k'. NewKeyFromString L h s = (h', Inr k') \<longrightarrow>
      ek_ok L h' k' \<and> node_wf L (view h' k') \<and> base58_Decode L (snd (snd (ek_String L h' k'))) = base58_Decode L s)"
proof (intro conjI allI impI)
  assume ok: "ek_ok L h k \<and> node_wf L (view h k)"
  obtain h' r where N: "NewKeyFromString L h (snd (snd (ek_String L h k))) = (h', r)"
    by (cases "NewKeyFromString L h (snd (snd (ek_String L h k)))")
  note c = NewKeyFromString_correct [OF N]
  have "node_parse L (snd (snd (ek_String L h k))) = Inr (node_padded (view h k))"
    using node_string_roundtrip [OF assms] ok by (simp add: String_correct)
  with c obtain k' where k': "r = Inr k'" "view h' k' = node_padded (view h k)" "ek_ok L h' k'" by (cases r) auto
  have child: "map_sum id (view (fst (Child L g q i))) (snd (snd (Child L g q i))) = node_child L (view g q) i" if "ek_ok L g q" for g q i
    using Child_correct [OF that, of i] by (cases "Child L g q i") simp
  have "map_sum id (view (fst (Child L h' k' i))) (snd (snd (Child L h' k' i))) =
      map_sum id (view (fst (Child L h k i))) (snd (snd (Child L h k i)))" if "i < HardenedKeyStart" for i
    using child [OF k'(3)] child [of h k] ok node_child_padded [OF assms that] k'(2) by simp
  with N k' show "\<exists>h' k'. NewKeyFromString L h (snd (snd (ek_String L h k))) = (h', Inr k') \<and> ek_ok L h' k' \<and>
         view h' k' = node_padded (view h k) \<and>
         (\<forall>i < HardenedKeyStart. map_sum id (view (fst (Child L h' k' i))) (snd (snd (Child L h' k' i))) =
            map_sum id (view (fst (Child L h k i))) (snd (snd (Child L h k i))))" by auto
next
  fix h' k' assume N: "NewKeyFromString L h s = (h', Inr k')"
  from NewKeyFromString_correct [OF N] have k': "ek_ok L h' k'" "node_parse L s = Inr (view h' k')" by simp_all
  note p = node_parse_string [OF assms k'(2)]
  show "ek_ok L h' k'" "node_wf L (view h' k')" by (rule k' p)+
  show "base58_Decode L (snd (snd (ek_String L h' k'))) = base58_Decode L s"
    using p(3) by (simp add: String_correct hd_lib_okD(13) [OF assms])
qed

theorem extended_key_text_witness:
  "\<exists>h' k'. NewKeyFromString sample_hd sample_heap (snd (snd (ek_String sample_hd sample_heap sample_key))) = (h', Inr k') \<and>
     view h' k' = view sample_heap sample_key"
proof -
  have "node_padded (view sample_heap sample_key) = view sample_heap sample_key"
    by (simp add: node_padded_def sample_view ser256_val)
  then show ?thesis
    using extended_key_text [OF sample_hd_ok, of sample_heap sample_key] sample_key_ok sample_key_wf by fastforce
qed

text \<open>
  C11. Derivation is that of BIP 32, unless the parent's scalar lost its leading zeros. For a well-formed
  private key and an index for which the left half of the hash is not zero, \<open>Child\<close> gives the child of BIP 32 or,
  where there is none, an error or the scalar zero; for a hardened index this needs that the key has its 32
  bytes. But a key that is itself a child has no leading zero bytes: if one is missing, the bytes hashed for a
  hardened child are not those of BIP 32, whereas the same key read back from its text hashes those.
\<close>

theorem Child_implements_BIP32:
  assumes "hd_lib_ok L" "ek_ok L h k" "node_wf L (view h k)" "ek_isPrivate k" "ek_depth k \<noteq> maxUint8"
    and "Child L h k i = (h', k', r)"
  shows "((i \<ge> HardenedKeyStart \<longrightarrow> length (nd_key (view h k)) = 32) \<and>
      bytes_val (take 32 (hmac_sha512 L (nd_chain (view h k)) (snd (snd (child_data L h k i))))) \<noteq> 0 \<longrightarrow>
      (case r of
         Inl err \<Rightarrow> err = ErrInvalidChild \<and> CKDpriv L (bytes_val (nd_key (view h k)), nd_chain (view h k)) i = None
       | Inr c \<Rightarrow> CKDpriv L (bytes_val (nd_key (view h k)), nd_chain (view h k)) i =
           (if bytes_val (nd_key (view h' c)) = 0 then None else Some (bytes_val (nd_key (view h' c)), nd_chain (view h' c))))) \<and>
    (\<forall>c j. r = Inr c \<and> 0 < bytes_val (nd_key (view h' c)) \<and> bytes_val (nd_key (view h' c)) < 2 ^ 248 \<and> j \<ge> HardenedKeyStart \<longrightarrow>
      snd (snd (child_data L h' c j)) \<noteq> CKDpriv_data L (bytes_val (nd_key (view h' c))) j \<and>
      (\<exists>h'' c''. NewKeyFromString L h' (snd (snd (ek_String L h' c))) = (h'', Inr c'') \<and>
        snd (snd (child_data L h'' c'' j)) = CKDpriv_data L (bytes_val (nd_key (view h' c))) j))"
proof -
  define n where "n = view h k"
  have n: "nd_priv n" "nd_depth n \<noteq> maxUint8" "node_wf L n" using assms(3-5) by (simp_all add: n_def) (simp_all add: view_def)
  have data: "snd (snd (child_data L g q j)) = node_data L (view g q) j" if "ek_ok L g q" for g q j
    using child_data_correct(1) [OF that, of j] by (cases "child_data L g q j") simp
  note C = Child_correct [OF assms(2,6)]
  have r: "map_sum id (view h') r = node_child L n i" using C by (simp add: n_def)
  have "case r of
         Inl err \<Rightarrow> err = ErrInvalidChild \<and> CKDpriv L (bytes_val (nd_key n), nd_chain n) i = None
       | Inr c \<Rightarrow> CKDpriv L (bytes_val (nd_key n), nd_chain n) i =
           (if bytes_val (nd_key (view h' c)) = 0 then None else Some (bytes_val (nd_key (view h' c)), nd_chain (view h' c)))"
    if "i \<ge> HardenedKeyStart \<longrightarrow> length (nd_key n) = 32" "bytes_val (take 32 (hmac_sha512 L (nd_chain n) (node_data L n i))) \<noteq> 0"
    using node_child_BIP32 [OF assms(1) n(3,1,2) _ that(2)] that(1) unfolding r [symmetric] by (cases r) auto
  moreover have "snd (snd (child_data L h' c j)) \<noteq> CKDpriv_data L (bytes_val (nd_key (view h' c))) j \<and>
      (\<exists>h'' c''. NewKeyFromString L h' (snd (snd (ek_String L h' c))) = (h'', Inr c'') \<and>
        snd (snd (child_data L h'' c'' j)) = CKDpriv_data L (bytes_val (nd_key (view h' c))) j)"
    if c: "r = Inr c" "0 < bytes_val (nd_key (view h' c))" "bytes_val (nd_key (view h' c)) < 2 ^ 248" and j: "j \<ge> HardenedKeyStart" for c j
  proof -
    define m where "m = view h' c"
    have nc: "node_child L n i = Inr m" "ek_ok L h' c" using C c(1) by (simp_all add: n_def m_def)
    have p: "nd_priv m" using node_child_fields(1) [OF nc(1)] n(1) by simp
    have wf: "node_wf L m" using node_wf_child [OF assms(1) n(3) nc(1)] p c(2) by (simp add: m_def)
    obtain x where x: "nd_key m = nat_bytes x" using node_child_minimal [OF nc(1) p] by blast
    then have x': "x \<noteq> 0" "x < 256 ^ 31" using c(2,3) by (simp_all flip: m_def)
    have "length (nd_key m) < 32" using length_nat_bytes [OF x'(2)] x by simp
    then have "node_data L m j \<noteq> CKDpriv_data L (bytes_val (nd_key m)) j"
      using hd_nat_bytes [OF x'(1)] x j by (intro short_key_data) simp_all
    moreover obtain h'' r'' where N: "NewKeyFromString L h' (snd (snd (ek_String L h' c))) = (h'', r'')"
      by (cases "NewKeyFromString L h' (snd (snd (ek_String L h' c)))")
    moreover have "node_parse L (snd (snd (ek_String L h' c))) = Inr (node_padded m)"
      using node_string_roundtrip [OF assms(1) wf] by (simp add: String_correct m_def)
    with NewKeyFromString_correct [OF N] obtain c'' where c'': "r'' = Inr c''" "view h'' c'' = node_padded m" "ek_ok L h'' c''"
      by (cases r'') auto
    moreover have "node_data L (node_padded m) j = CKDpriv_data L (bytes_val (nd_key m)) j"
    proof -
      have "length (nd_key (node_padded m)) = 32" "bytes_val (nd_key (node_padded m)) = bytes_val (nd_key m)" "nd_priv (node_padded m)"
        using wf p by (simp_all add: node_padded_def node_wf_def)
      moreover have "node_wf L (node_padded m)" using wf p by (simp add: node_wf_def node_padded_def)
      ultimately show ?thesis using node_data_BIP32 [OF assms(1), of "node_padded m" j] by simp
    qed
    ultimately show ?thesis using data [OF nc(2)] data [OF c''(3)] by (simp flip: m_def)
  qed
  ultimately show ?thesis unfolding data [OF assms(2)] n_def [symmetric] by blast
qed

theorem Child_implements_BIP32_witness:
  "\<exists>h' k' c. Child sample_hd sample_heap sample_key HardenedKeyStart = (h', k', Inr c) \<and>
     CKDpriv sample_hd (3, replicate 32 9) HardenedKeyStart = Some (8, replicate 32 7) \<and>
     snd (snd (child_data sample_hd h' c HardenedKeyStart)) \<noteq> CKDpriv_data sample_hd 8 HardenedKeyStart"
proof -
  obtain h' k' r where C: "Child sample_hd sample_heap sample_key HardenedKeyStart = (h', k', r)"
    by (cases "Child sample_hd sample_heap sample_key HardenedKeyStart")
  have "map_sum id (view h') r = node_child sample_hd (view sample_heap sample_key) HardenedKeyStart"
    using Child_correct [OF sample_key_ok C] by simp
  then obtain c where c: "r = Inr c" "nd_key (view h' c) = nat_bytes 8" "nd_chain (view h' c) = replicate 32 7"
    using sample_child by (cases r) auto
  have v: "nd_key (view sample_heap sample_key) = ser256 3" "nd_chain (view sample_heap sample_key) = replicate 32 9"
    by (simp_all add: sample_view)
  have s: "length (ser256 3) = 32" "bytes_val (ser256 3) = 3" by (simp_all add: ser256_val)
  have k: "ek_isPrivate sample_key" "ek_depth sample_key \<noteq> maxUint8"
    by (simp_all add: sample_key_def NewExtendedKey_def maxUint8_def)
  note t = Child_implements_BIP32 [OF sample_hd_ok sample_key_ok sample_key_wf k C, unfolded v s c(1) sum.case sample_hmac(1) c(2,3) bytes_val_nat_bytes]
  from t show ?thesis using C c(1,2) by (auto simp del: sample_hd_simps)
qed

text \<open>
  \<open>Zero\<close> clears the neutered key too, which shares its arrays with the private one, but not the children.
\<close>

lemma Zero_clears_neutered:
  assumes "ek_ok L h k" "ek_isPrivate k" "Neuter L h k = (h1, k1, Inr kp)" "ek_Zero h1 k1 = (h2, k2)"
  shows "nd_key (view h2 kp) = replicate (length (node_pub L (view h k))) 0"
    "nd_chain (view h2 kp) = replicate (length (nd_chain (view h k))) 0"
proof -
  obtain g q s where p: "pubKeyBytes L h k = (g, q, s)" by (cases "pubKeyBytes L h k")
  note c = pubKeyBytes_correct [OF assms(1) p]
  have e: "h1 = g" "k1 = q" "ek_key kp = s" "ek_chainCode kp = ek_chainCode q"
    using assms(2,3) p by (auto simp: Neuter_def NewExtendedKey_def split: sum.splits)
  have s: "s = ek_pubKey q" using c(3) assms(2) by simp
  have z: "slice_bytes h2 t = replicate (length (slice_bytes g t)) 0" if "t \<in> ek_slices q" for t
    using Zero_slices(2) [OF assms(4), of t] that by (simp add: e)
  have v: "view g q = view h k" using c(1) by simp
  show "nd_key (view h2 kp) = replicate (length (node_pub L (view h k))) 0"
    using z [of s] c(1) s e by (simp add: view_def ek_slices_def)
  show "nd_chain (view h2 kp) = replicate (length (nd_chain (view h k))) 0"
    using z [of "ek_chainCode q"] arg_cong [OF v, of nd_chain] e by (simp add: ek_slices_def) (simp add: view_def)
qed

lemma Zero_keeps_children:
  assumes "ek_ok L h k" "Child L h k i = (h1, k1, Inr c)" "ek_Zero h1 k1 = (h2, k2)"
  shows "view h2 c = view h1 c"
proof -
  from Child_correct [OF assms(1,2)] obtain m where m: "ek_ok L (take m h1) k1" "ek_above m c" and c: "ek_ok L h1 c" by auto
  have lt: "a < m" if "Some a \<in> ek_slices k1" for a
    using m(1) that by (auto simp: ek_ok_def ek_slices_def slice_ok_def split: option.splits)
  have "slice_bytes h2 t = slice_bytes h1 t" if "t \<in> ek_slices c" for t
  proof (cases t)
    case (Some a)
    then have "m \<le> a" using m(2) that by (auto simp: ek_above_def ek_slices_def)
    then have "t \<notin> ek_slices k1" using lt Some by (meson not_le)
    then show ?thesis using Zero_slices(2) [OF assms(3)] by simp
  qed (simp add: slice_bytes_def)
  then show ?thesis by (simp add: view_def ek_slices_def)
qed

end
