(* ===== verification/Ldb_Bucket.thy ===== *)
theory Ldb_Bucket
  imports Go_Text "HOL-Library.Sublist"
begin

text \<open>
  The wallet's database: buckets in buckets, kept in one ordered key-value store
  (\<open>poc/wallet/db/db.go\<close>, \<open>dbutil.go\<close>, \<open>ldb/leveldb.go\<close>). A bucket of depth \<open>d\<close> with the names \<open>n1, ..., nd\<close> has the
  index entry \<open>b_d_n1_..._nd\<close> and keeps its entries under \<open>d_n1_..._nd_key\<close>. Byte slices are strings here, as the
  source converts one to the other without change.

  The store is a parameter; \<open>kv_ok\<close> says what is relied on of a transaction of goleveldb. Its operations may
  fail for reasons of their own.
\<close>

section \<open>Definitions\<close>

datatype wdb_error =
    ErrBucketExist | ErrBucketNotFound | ErrInvalidBucketName | ErrIllegalKey | ErrIllegalValue | ErrNotSupported
  | ErrIllegalBucketPath | ErrInvalidArgument | ErrDbUnknownType | ErrOpenDBFailed | ErrCreateDBFailed | ErrStore string

datatype kv_error = KvNotFound | KvFailed string

record 'd kv =
  kv_Get :: "'d \<Rightarrow> string \<Rightarrow> kv_error + string"
  kv_Put :: "'d \<Rightarrow> string \<Rightarrow> string \<Rightarrow> 'd \<times> string option"
  kv_Delete :: "'d \<Rightarrow> string \<Rightarrow> 'd \<times> string option"
  kv_Write :: "'d \<Rightarrow> string list \<Rightarrow> 'd \<times> string option"
  kv_Iterate :: "'d \<Rightarrow> string \<Rightarrow> (string \<times> string) list \<times> string option"

definition bucketNameBucket :: string where "bucketNameBucket = ''b''"
definition bucketPathSep :: char where "bucketPathSep = CHR ''_''"
definition topLevelBucketDepth :: string where "topLevelBucketDepth = ''1''"
definition maxBucketNameLen :: nat where "maxBucketNameLen = 256"

definition joinBucketPath :: "string list \<Rightarrow> string" where
  "joinBucketPath arr = strings_Join arr [bucketPathSep]"

record LDBBucket =
  bk_name :: string
  bk_path :: string
  bk_pathLen :: nat
  bk_depth :: int

definition new_bucket :: "string \<Rightarrow> string \<Rightarrow> int \<Rightarrow> LDBBucket" where
  "new_bucket name path depth = \<lparr>bk_name = name, bk_path = path, bk_pathLen = length path, bk_depth = depth\<rparr>"

definition isValidBucketName :: "string \<Rightarrow> bool" where
  "isValidBucketName name \<longleftrightarrow> length name > 0 \<and> length name \<le> maxBucketNameLen \<and> bucketPathSep \<notin> set name"

text \<open>Transactions.\<close>

definition TopLevelBucket :: "'d kv \<Rightarrow> 'd \<Rightarrow> string \<Rightarrow> LDBBucket option" where
  "TopLevelBucket K tr name =
     (let bucketPath = joinBucketPath [topLevelBucketDepth, name];
          key = joinBucketPath [bucketNameBucket, bucketPath]
      in case kv_Get K tr key of Inl _ \<Rightarrow> None | Inr _ \<Rightarrow> Some (new_bucket name bucketPath 1))"

text \<open>The loop over index entries: a key of \<open>n\<close> components whose last one is the value.\<close>

fun names_loop :: "nat \<Rightarrow> (string \<times> string) list \<Rightarrow> string list \<Rightarrow> wdb_error + string list" where
  "names_loop n [] names = Inr names"
| "names_loop n ((key, value) # es) names =
     (let ss = strings_Split key bucketPathSep in
      if length ss \<noteq> n \<or> ss ! (n - 1) \<noteq> value then Inl ErrIllegalValue
      else names_loop n es (names @ [value]))"

definition iter_names :: "nat \<Rightarrow> (string \<times> string) list \<times> string option \<Rightarrow> wdb_error + string list" where
  "iter_names n it =
     (case names_loop n (fst it) [] of
        Inl err \<Rightarrow> Inl err
      | Inr names \<Rightarrow> (case snd it of Some e \<Rightarrow> Inl (ErrStore e) | None \<Rightarrow> Inr names))"

definition tx_BucketNames :: "'d kv \<Rightarrow> 'd \<Rightarrow> wdb_error + string list" where
  "tx_BucketNames K tr =
     (let pre = joinBucketPath [bucketNameBucket, topLevelBucketDepth, []]
      in iter_names 3 (kv_Iterate K tr pre))"

text \<open>The handle by which a bucket is found again, with its paths.\<close>

type_synonym bucket_meta = "string list"

definition meta_Depth :: "bucket_meta \<Rightarrow> int" where
  "meta_Depth paths = (case Atoi (paths ! 0) of Some d \<Rightarrow> d | None \<Rightarrow> 0)"

definition meta_Name :: "bucket_meta \<Rightarrow> string" where
  "meta_Name paths = paths ! nat (meta_Depth paths)"

definition GetBucketMeta :: "LDBBucket \<Rightarrow> bucket_meta" where
  "GetBucketMeta b = strings_Split (bk_path b) bucketPathSep"

definition FetchBucket :: "'d kv \<Rightarrow> 'd \<Rightarrow> bucket_meta option \<Rightarrow> LDBBucket option" where
  "FetchBucket K tr meta =
     (case meta of None \<Rightarrow> None
      | Some paths \<Rightarrow>
        let path = joinBucketPath paths;
            key = joinBucketPath [bucketNameBucket, path]
        in case kv_Get K tr key of Inl _ \<Rightarrow> None | Inr _ \<Rightarrow> Some (new_bucket (meta_Name paths) path (meta_Depth paths)))"

definition CreateTopLevelBucket :: "'d kv \<Rightarrow> 'd \<Rightarrow> string \<Rightarrow> 'd \<times> (wdb_error + LDBBucket)" where
  "CreateTopLevelBucket K tr name =
     (if \<not> isValidBucketName name then (tr, Inl ErrInvalidBucketName)
      else
        let bucketPath = joinBucketPath [topLevelBucketDepth, name];
            key = joinBucketPath [bucketNameBucket, bucketPath]
        in case kv_Get K tr key of
             Inl (KvFailed e) \<Rightarrow> (tr, Inl (ErrStore e))
           | _ \<Rightarrow> (case kv_Put K tr key name of
                     (tr', Some e) \<Rightarrow> (tr', Inl (ErrStore e))
                   | (tr', None) \<Rightarrow> (tr', Inr (new_bucket name bucketPath 1))))"

definition DeleteTopLevelBucket :: "string \<Rightarrow> wdb_error option" where
  "DeleteTopLevelBucket name = Some ErrNotSupported"

text \<open>Buckets.\<close>

definition subBucket :: "LDBBucket \<Rightarrow> string \<Rightarrow> wdb_error + LDBBucket" where
  "subBucket b name =
     (if \<not> isValidBucketName name then Inl ErrInvalidBucketName
      else
        let depth = bk_depth b + 1;
            ss = strings_Split (bk_path b) bucketPathSep
        in if length ss < 2 then Inl ErrIllegalBucketPath
           else Inr (new_bucket name (joinBucketPath (ss[0 := Itoa depth] @ [name])) depth))"

definition NewBucket :: "'d kv \<Rightarrow> 'd \<Rightarrow> LDBBucket \<Rightarrow> string \<Rightarrow> 'd \<times> (wdb_error + LDBBucket)" where
  "NewBucket K tr b name =
     (case subBucket b name of
        Inl err \<Rightarrow> (tr, Inl err)
      | Inr sub \<Rightarrow>
        let key = joinBucketPath [bucketNameBucket, bk_path sub]
        in case kv_Get K tr key of
             Inr _ \<Rightarrow> (tr, Inl ErrBucketExist)
           | Inl (KvFailed e) \<Rightarrow> (tr, Inl (ErrStore e))
           | Inl KvNotFound \<Rightarrow>
             (case kv_Put K tr key name of
                (tr', Some e) \<Rightarrow> (tr', Inl (ErrStore e))
              | (tr', None) \<Rightarrow> (tr', Inr sub)))"

definition Bucket :: "'d kv \<Rightarrow> 'd \<Rightarrow> LDBBucket \<Rightarrow> string \<Rightarrow> LDBBucket option" where
  "Bucket K tr b name =
     (case subBucket b name of
        Inl _ \<Rightarrow> None
      | Inr sub \<Rightarrow>
        (case kv_Get K tr (joinBucketPath [bucketNameBucket, bk_path sub]) of
           Inl _ \<Rightarrow> None
         | Inr value \<Rightarrow> if value \<noteq> name then None else Some sub))"

definition BucketNames :: "'d kv \<Rightarrow> 'd \<Rightarrow> LDBBucket \<Rightarrow> wdb_error + string list" where
  "BucketNames K tr b =
     (let ss = strings_Split (bk_path b) bucketPathSep in
      if length ss < 2 then Inl ErrIllegalBucketPath
      else
        let pre = joinBucketPath [bucketNameBucket, joinBucketPath (ss[0 := Itoa (bk_depth b + 1)] @ [[]])]
        in iter_names (nat (bk_depth b) + 3) (kv_Iterate K tr pre))"

text \<open>
  \<open>deleteBucket\<close> with the loop over its sub-buckets. The entries to delete are collected, while the names of
  buckets are deleted at once. The recursion takes fuel; \<open>None\<close> means that it ran out.
\<close>

fun deleteBucket :: "nat \<Rightarrow> 'd kv \<Rightarrow> 'd \<Rightarrow> LDBBucket \<Rightarrow> string list \<Rightarrow> ('d \<times> string list \<times> wdb_error option) option"
  and delete_subs :: "nat \<Rightarrow> 'd kv \<Rightarrow> 'd \<Rightarrow> LDBBucket \<Rightarrow> string list \<Rightarrow> string list \<Rightarrow> ('d \<times> string list \<times> wdb_error option) option" where
  "deleteBucket 0 K tr b batch = None"
| "deleteBucket (Suc fuel) K tr b batch =
     (if bk_depth b = 1 then Some (tr, batch, Some ErrNotSupported)
      else case BucketNames K tr b of
             Inl err \<Rightarrow> Some (tr, batch, Some err)
           | Inr subnames \<Rightarrow>
             (case delete_subs fuel K tr b subnames batch of
                None \<Rightarrow> None
              | Some (tr1, batch1, Some err) \<Rightarrow> Some (tr1, batch1, Some err)
              | Some (tr1, batch1, None) \<Rightarrow>
                let (es, e) = kv_Iterate K tr1 (joinBucketPath [bk_path b, []]);
                    batch2 = batch1 @ map fst es
                in case e of
                     Some e \<Rightarrow> Some (tr1, batch2, Some (ErrStore e))
                   | None \<Rightarrow>
                     let (tr2, e) = kv_Delete K tr1 (joinBucketPath [bucketNameBucket, bk_path b])
                     in Some (tr2, batch2, map_option ErrStore e)))"
| "delete_subs fuel K tr b [] batch = Some (tr, batch, None)"
| "delete_subs 0 K tr b (subname # subnames) batch = None"
| "delete_subs (Suc fuel) K tr b (subname # subnames) batch =
     (case Bucket K tr b subname of
        None \<Rightarrow> delete_subs fuel K tr b subnames batch
      | Some sub \<Rightarrow>
        (case deleteBucket fuel K tr sub batch of
           None \<Rightarrow> None
         | Some (tr1, batch1, Some err) \<Rightarrow> Some (tr1, batch1, Some err)
         | Some (tr1, batch1, None) \<Rightarrow> delete_subs fuel K tr1 b subnames batch1))"

definition DeleteBucket :: "nat \<Rightarrow> 'd kv \<Rightarrow> 'd \<Rightarrow> LDBBucket \<Rightarrow> string \<Rightarrow> ('d \<times> wdb_error option) option" where
  "DeleteBucket fuel K tr b name =
     (case Bucket K tr b name of
        None \<Rightarrow> Some (tr, None)
      | Some sub \<Rightarrow>
        (case deleteBucket fuel K tr sub [] of
           None \<Rightarrow> None
         | Some (tr1, batch, Some err) \<Rightarrow> Some (tr1, Some err)
         | Some (tr1, batch, None) \<Rightarrow>
           let (tr2, e) = kv_Write K tr1 batch in Some (tr2, map_option ErrStore e)))"

definition innerKey :: "LDBBucket \<Rightarrow> string \<Rightarrow> bool \<Rightarrow> wdb_error + string" where
  "innerKey b key asPrefix =
     (if \<not> asPrefix \<and> length key = 0 then Inl ErrIllegalKey else Inr (bk_path b @ [bucketPathSep] @ key))"

definition bucket_Put :: "'d kv \<Rightarrow> 'd \<Rightarrow> LDBBucket \<Rightarrow> string \<Rightarrow> string \<Rightarrow> 'd \<times> wdb_error option" where
  "bucket_Put K tr b key value =
     (if length value = 0 then (tr, Some ErrIllegalValue)
      else case innerKey b key False of
             Inl err \<Rightarrow> (tr, Some err)
           | Inr key \<Rightarrow> let (tr', e) = kv_Put K tr key value in (tr', map_option ErrStore e))"

text \<open>A missing key is answered with nil and no error, \<open>Inr None\<close>.\<close>

definition bucket_Get :: "'d kv \<Rightarrow> 'd \<Rightarrow> LDBBucket \<Rightarrow> string \<Rightarrow> wdb_error + string option" where
  "bucket_Get K tr b key =
     (case innerKey b key False of
        Inl _ \<Rightarrow> Inr None
      | Inr key \<Rightarrow>
        (case kv_Get K tr key of
           Inl KvNotFound \<Rightarrow> Inr None
         | Inl (KvFailed e) \<Rightarrow> Inl (ErrStore e)
         | Inr value \<Rightarrow> Inr (Some value)))"

definition bucket_Delete :: "'d kv \<Rightarrow> 'd \<Rightarrow> LDBBucket \<Rightarrow> string \<Rightarrow> 'd \<times> wdb_error option" where
  "bucket_Delete K tr b key =
     (case innerKey b key False of
        Inl _ \<Rightarrow> (tr, None)
      | Inr key \<Rightarrow> let (tr', e) = kv_Delete K tr key in (tr', map_option ErrStore e))"

definition bucket_Clear :: "'d kv \<Rightarrow> 'd \<Rightarrow> LDBBucket \<Rightarrow> 'd \<times> wdb_error option" where
  "bucket_Clear K tr b =
     (let (es, e) = kv_Iterate K tr (joinBucketPath [bk_path b, []]) in
      case e of
        Some e \<Rightarrow> (tr, Some (ErrStore e))
      | None \<Rightarrow> let (tr', e) = kv_Write K tr (map fst es) in (tr', map_option ErrStore e))"

definition bucket_GetByPrefix :: "'d kv \<Rightarrow> 'd \<Rightarrow> LDBBucket \<Rightarrow> string \<Rightarrow> wdb_error + (string \<times> string) list" where
  "bucket_GetByPrefix K tr b pre =
     (case innerKey b pre True of
        Inl _ \<Rightarrow> Inr []
      | Inr innerPrefix \<Rightarrow>
        (let (es, e) = kv_Iterate K tr innerPrefix in
         case e of
           Some e \<Rightarrow> Inl (ErrStore e)
         | None \<Rightarrow> Inr (map (\<lambda>(k, v). (drop (bk_pathLen b + 1) k, v)) es)))"

text \<open>\<open>dbutil.go\<close>.\<close>

definition GetOrCreateBucket :: "'d kv \<Rightarrow> 'd \<Rightarrow> LDBBucket option \<Rightarrow> string \<Rightarrow> 'd \<times> (wdb_error + LDBBucket)" where
  "GetOrCreateBucket K tr bucket name =
     (case bucket of None \<Rightarrow> (tr, Inl ErrInvalidArgument)
      | Some bucket \<Rightarrow> (case Bucket K tr bucket name of Some b \<Rightarrow> (tr, Inr b) | None \<Rightarrow> NewBucket K tr bucket name))"

definition GetOrCreateTopLevelBucket :: "'d kv \<Rightarrow> 'd \<Rightarrow> string \<Rightarrow> 'd \<times> (wdb_error + LDBBucket)" where
  "GetOrCreateTopLevelBucket K tr name =
     (case TopLevelBucket K tr name of Some b \<Rightarrow> (tr, Inr b) | None \<Rightarrow> CreateTopLevelBucket K tr name)"

end
