(* ===== verification/Ldb_Abs.thy ===== *)
theory Ldb_Abs
  imports Ldb_Bucket
begin

text \<open>
  What the buckets are: a map from paths of names to maps from keys to values. Each operation of the source does to
  the store what it should do to that map.
\<close>

section \<open>Keys\<close>

definition apath_ok :: "string list \<Rightarrow> bool" where
  "apath_ok p \<longleftrightarrow> p \<noteq> [] \<and> list_all isValidBucketName p"

definition path_str :: "string list \<Rightarrow> string" where
  "path_str p = joinBucketPath (Itoa (int (length p)) # p)"

definition index_key :: "string list \<Rightarrow> string" where
  "index_key p = joinBucketPath [bucketNameBucket, path_str p]"

definition data_key :: "string list \<Rightarrow> string \<Rightarrow> string" where
  "data_key p k = path_str p @ bucketPathSep # k"

definition bk_for :: "string list \<Rightarrow> LDBBucket" where
  "bk_for p = new_bucket (last p) (path_str p) (int (length p))"

lemma strings_Join_snoc: "xs \<noteq> [] \<Longrightarrow> strings_Join (xs @ [x]) sep = strings_Join xs sep @ sep @ x"
proof (induction xs sep rule: strings_Join.induct)
  case (3 x y ys sep)
  then show ?case by (cases ys) simp_all
qed simp_all

lemma strings_Split_Join_append:
  "xs \<noteq> [] \<Longrightarrow> list_all (\<lambda>x. sep \<notin> set x) xs \<Longrightarrow>
     strings_Split (strings_Join xs [sep] @ sep # r) sep = xs @ strings_Split r sep"
proof (induction xs "[sep]" rule: strings_Join.induct)
  case (3 x y ys)
  then show ?case by (simp add: strings_Split_append)
qed (simp_all add: strings_Split_append)

lemma Itoa_no_path_sep: "bucketPathSep \<notin> set (Itoa i)"
  using set_Itoa [of i] by (auto simp: bucketPathSep_def)

lemma names_no_sep: "list_all isValidBucketName p \<Longrightarrow> list_all (\<lambda>x. bucketPathSep \<notin> set x) (Itoa i # p)"
  by (auto simp: isValidBucketName_def list_all_iff Itoa_no_path_sep)

lemma path_no_sep: "apath_ok p \<Longrightarrow> list_all (\<lambda>x. bucketPathSep \<notin> set x) (Itoa i # p)"
  unfolding apath_ok_def by (rule names_no_sep) simp

lemma Split_path_str: "apath_ok p \<Longrightarrow> strings_Split (path_str p) bucketPathSep = Itoa (int (length p)) # p"
  using path_no_sep [of p "int (length p)"] unfolding path_str_def joinBucketPath_def
  by (intro strings_Split_Join) (auto simp: list_all_iff)

lemma Split_data_key:
  "apath_ok p \<Longrightarrow> strings_Split (data_key p k) bucketPathSep = Itoa (int (length p)) # p @ strings_Split k bucketPathSep"
  using strings_Split_Join_append [OF _ path_no_sep] by (simp add: data_key_def path_str_def joinBucketPath_def)

lemma data_key_eq: "apath_ok p \<Longrightarrow> apath_ok q \<Longrightarrow> data_key p k = data_key q j \<longleftrightarrow> p = q \<and> k = j"
proof
  assume p: "apath_ok p" "apath_ok q" and eq: "data_key p k = data_key q j"
  have "Itoa (int (length p)) # p @ strings_Split k bucketPathSep = Itoa (int (length q)) # q @ strings_Split j bucketPathSep"
    using arg_cong [OF eq, of "\<lambda>s. strings_Split s bucketPathSep"] by (simp only: Split_data_key p)
  then have "length p = length q" "p @ strings_Split k bucketPathSep = q @ strings_Split j bucketPathSep"
    by (simp_all add: Itoa_inj)
  then have "p = q" by simp
  with eq show "p = q \<and> k = j" by (simp add: data_key_def)
qed simp

lemma index_key_str: "index_key p = CHR ''b'' # bucketPathSep # path_str p"
  by (simp add: index_key_def joinBucketPath_def bucketNameBucket_def)

lemma Split_index_key: "apath_ok p \<Longrightarrow> strings_Split (index_key p) bucketPathSep = ''b'' # Itoa (int (length p)) # p"
  using strings_Split_append [of bucketPathSep "''b''" "path_str p"] Split_path_str [of p]
  by (simp add: index_key_str) (simp add: bucketPathSep_def)

lemma index_key_eq: "apath_ok p \<Longrightarrow> apath_ok q \<Longrightarrow> index_key p = index_key q \<longleftrightarrow> p = q"
  using Split_index_key by (metis list.inject)

lemma path_str_head: "p \<noteq> [] \<Longrightarrow> \<exists>c cs. path_str p = c # cs \<and> is_digit c"
proof -
  assume "p \<noteq> []"
  then obtain x xs where p: "p = x # xs" by (cases p) auto
  obtain d ds where "nat_to_dec (length p) = d # ds" using nat_to_dec_nonempty by (cases "nat_to_dec (length p)") blast+
  moreover from this have "is_digit d" using nat_to_dec_digits [of "length p"] by simp
  ultimately have "Itoa (int (length p)) = d # ds" "is_digit d" by (simp_all add: Itoa_def)
  then show ?thesis by (simp add: path_str_def joinBucketPath_def p)
qed

lemma index_not_data: "apath_ok q \<Longrightarrow> \<not> prefix (path_str q) (index_key p)" "apath_ok q \<Longrightarrow> index_key p \<noteq> data_key q k"
proof -
  assume q: "apath_ok q"
  obtain c cs where c: "path_str q = c # cs" "is_digit c" using path_str_head [of q] q by (auto simp: apath_ok_def)
  then have "c \<noteq> CHR ''b''" by (auto simp: is_digit_def)
  then show "\<not> prefix (path_str q) (index_key p)" "index_key p \<noteq> data_key q k"
    by (simp_all add: index_key_str data_key_def c(1))
qed

lemma prefix_data_key:
  assumes "apath_ok p" "apath_ok q"
  shows "prefix (data_key p pre) (data_key q k) \<longleftrightarrow> p = q \<and> prefix pre k"
proof
  assume "prefix (data_key p pre) (data_key q k)"
  then obtain r where "data_key q k = data_key p (pre @ r)" by (auto simp: prefix_def data_key_def)
  with assms show "p = q \<and> prefix pre k" by (auto simp: data_key_eq)
qed (auto simp: data_key_def)

section \<open>Handles\<close>

lemma bk_for_simps [simp]:
  "bk_path (bk_for p) = path_str p" "bk_depth (bk_for p) = int (length p)" "bk_pathLen (bk_for p) = length (path_str p)" "bk_name (bk_for p) = last p"
  by (simp_all add: bk_for_def new_bucket_def)

lemma apath_ok_snoc: "apath_ok p \<Longrightarrow> apath_ok (p @ [n]) \<longleftrightarrow> isValidBucketName n"
  by (simp add: apath_ok_def)

lemma subBucket_for:
  assumes "apath_ok p"
  shows "subBucket (bk_for p) name = (if isValidBucketName name then Inr (bk_for (p @ [name])) else Inl ErrInvalidBucketName)"
  using assms Split_path_str [OF assms]
  by (cases p) (simp_all add: subBucket_def apath_ok_def bk_for_def new_bucket_def path_str_def Let_def)

lemma index_of_for: "joinBucketPath [bucketNameBucket, bk_path (bk_for p)] = index_key p"
  by (simp add: index_key_def)

lemma entries_of_for: "joinBucketPath [bk_path (bk_for p), []] = data_key p []"
  by (simp add: joinBucketPath_def data_key_def)

lemma innerKey_for: "innerKey (bk_for p) k b = (if \<not> b \<and> k = [] then Inl ErrIllegalKey else Inr (data_key p k))"
  by (simp add: innerKey_def data_key_def)

lemma children_prefix:
  assumes "apath_ok p"
  shows "joinBucketPath [bucketNameBucket, joinBucketPath ((strings_Split (path_str p) bucketPathSep)[0 := Itoa (int (length p) + 1)] @ [[]])] =
    CHR ''b'' # bucketPathSep # joinBucketPath (Itoa (int (length p) + 1) # p) @ [bucketPathSep]"
  using strings_Join_snoc [of "Itoa (int (length p) + 1) # p" "[]"]
  by (simp add: Split_path_str [OF assms] joinBucketPath_def bucketNameBucket_def)

lemma child_index:
  assumes "list_all isValidBucketName p" "apath_ok q"
  shows "prefix (CHR ''b'' # bucketPathSep # joinBucketPath (Itoa (int (length p) + 1) # p) @ [bucketPathSep]) (index_key q) \<longleftrightarrow>
    (\<exists>n. q = p @ [n])"
proof -
  let ?J = "joinBucketPath (Itoa (int (length p) + 1) # p)"
  have child: "path_str (p @ [n]) = ?J @ bucketPathSep # n" for n
    using strings_Join_snoc [of "Itoa (int (length p) + 1) # p" n] by (simp add: path_str_def joinBucketPath_def add.commute)
  show ?thesis
  proof
    assume "prefix (CHR ''b'' # bucketPathSep # ?J @ [bucketPathSep]) (index_key q)"
    then obtain r where r: "path_str q = ?J @ bucketPathSep # r" by (auto simp: index_key_str prefix_def)
    have "strings_Split (?J @ bucketPathSep # r) bucketPathSep = (Itoa (int (length p) + 1) # p) @ strings_Split r bucketPathSep"
      unfolding joinBucketPath_def by (rule strings_Split_Join_append) (use names_no_sep [OF assms(1)] in simp_all)
    then have "Itoa (int (length q)) # q = Itoa (int (length p) + 1) # p @ strings_Split r bucketPathSep"
      using Split_path_str [OF assms(2)] r by simp
    then have i: "Itoa (int (length q)) = Itoa (int (length p) + 1)" and q: "q = p @ strings_Split r bucketPathSep" by blast+
    from i have "length q = length p + 1" unfolding Itoa_inj by linarith
    with q have "length (strings_Split r bucketPathSep) = 1" by (metis add_left_cancel length_append)
    then show "\<exists>n. q = p @ [n]" using q by (cases "strings_Split r bucketPathSep") auto
  next
    assume "\<exists>n. q = p @ [n]"
    then show "prefix (CHR ''b'' # bucketPathSep # ?J @ [bucketPathSep]) (index_key q)" by (auto simp: index_key_str child)
  qed
qed

section \<open>The store\<close>

text \<open>
  What is relied on of the store: \<open>content\<close> is what it holds. An operation that fails changes nothing; an
  iterator that ends without error has visited each key with the prefix once.
\<close>

definition kv_reads :: "'d kv \<Rightarrow> ('d \<Rightarrow> string \<rightharpoonup> string) \<Rightarrow> bool" where
  "kv_reads K content \<longleftrightarrow>
     (\<forall>d k v. kv_Get K d k = Inr v \<longrightarrow> content d k = Some v) \<and> (\<forall>d k. kv_Get K d k = Inl KvNotFound \<longrightarrow> content d k = None)"

definition kv_writes :: "'d kv \<Rightarrow> ('d \<Rightarrow> string \<rightharpoonup> string) \<Rightarrow> bool" where
  "kv_writes K content \<longleftrightarrow>
     (\<forall>d k v d' e. kv_Put K d k v = (d', e) \<longrightarrow> content d' = (if e = None then (content d)(k \<mapsto> v) else content d)) \<and>
     (\<forall>d k d' e. kv_Delete K d k = (d', e) \<longrightarrow> content d' = (if e = None then (content d)(k := None) else content d)) \<and>
     (\<forall>d ks d' e. kv_Write K d ks = (d', e) \<longrightarrow> content d' = (if e = None then content d |` (- set ks) else content d))"

definition kv_iterates :: "'d kv \<Rightarrow> ('d \<Rightarrow> string \<rightharpoonup> string) \<Rightarrow> bool" where
  "kv_iterates K content \<longleftrightarrow>
     (\<forall>d p es e. kv_Iterate K d p = (es, e) \<longrightarrow> distinct (map fst es) \<and>
        (\<forall>k v. (k, v) \<in> set es \<longrightarrow> content d k = Some v \<and> prefix p k) \<and>
        (e = None \<longrightarrow> (\<forall>k v. content d k = Some v \<and> prefix p k \<longrightarrow> (k, v) \<in> set es)))"

definition kv_ok :: "'d kv \<Rightarrow> ('d \<Rightarrow> string \<rightharpoonup> string) \<Rightarrow> bool" where
  "kv_ok K content \<longleftrightarrow> kv_reads K content \<and> kv_writes K content \<and> kv_iterates K content"

lemma kv_okD:
  assumes "kv_ok K content"
  shows "kv_Get K d k = Inr v \<Longrightarrow> content d k = Some v" "kv_Get K d k = Inl KvNotFound \<Longrightarrow> content d k = None"
    "kv_Put K d k v = (d', e) \<Longrightarrow> content d' = (if e = None then (content d)(k \<mapsto> v) else content d)"
    "kv_Delete K d k = (d', e) \<Longrightarrow> content d' = (if e = None then (content d)(k := None) else content d)"
    "kv_Write K d ks = (d', e) \<Longrightarrow> content d' = (if e = None then content d |` (- set ks) else content d)"
    "kv_Iterate K d p = (es, e) \<Longrightarrow> distinct (map fst es)"
    "kv_Iterate K d p = (es, e) \<Longrightarrow> (key, v) \<in> set es \<Longrightarrow> content d key = Some v \<and> prefix p key"
    "kv_Iterate K d p = (es, None) \<Longrightarrow> (key, v) \<in> set es \<longleftrightarrow> content d key = Some v \<and> prefix p key"
proof -
  have k: "kv_reads K content" "kv_writes K content" "kv_iterates K content" using assms by (simp_all add: kv_ok_def)
  show "kv_Get K d k = Inr v \<Longrightarrow> content d k = Some v" "kv_Get K d k = Inl KvNotFound \<Longrightarrow> content d k = None"
    using k(1) by (simp_all add: kv_reads_def)
  show "kv_Put K d k v = (d', e) \<Longrightarrow> content d' = (if e = None then (content d)(k \<mapsto> v) else content d)"
    "kv_Delete K d k = (d', e) \<Longrightarrow> content d' = (if e = None then (content d)(k := None) else content d)"
    "kv_Write K d ks = (d', e) \<Longrightarrow> content d' = (if e = None then content d |` (- set ks) else content d)"
    using k(2) unfolding kv_writes_def by meson+
  have it: "distinct (map fst es) \<and> (\<forall>k v. (k, v) \<in> set es \<longrightarrow> content d k = Some v \<and> prefix p k) \<and>
      (e = None \<longrightarrow> (\<forall>k v. content d k = Some v \<and> prefix p k \<longrightarrow> (k, v) \<in> set es))"
    if "kv_Iterate K d p = (es, e)" for d p es e
    using k(3) that unfolding kv_iterates_def by blast
  show "kv_Iterate K d p = (es, e) \<Longrightarrow> distinct (map fst es)"
    "kv_Iterate K d p = (es, e) \<Longrightarrow> (key, v) \<in> set es \<Longrightarrow> content d key = Some v \<and> prefix p key"
    "kv_Iterate K d p = (es, None) \<Longrightarrow> (key, v) \<in> set es \<longleftrightarrow> content d key = Some v \<and> prefix p key"
    using it [of d p es e] it [of d p es None] by blast+
qed

lemma iterated_keys:
  assumes "kv_ok K content" "kv_Iterate K d p = (es, None)"
  shows "k \<in> set (map fst es) \<longleftrightarrow> content d k \<noteq> None \<and> prefix p k"
proof -
  have "k \<in> set (map fst es) \<longleftrightarrow> (\<exists>v. (k, v) \<in> set es)" by force
  then show ?thesis by (simp add: kv_okD(8) [OF assms])
qed

section \<open>The map of buckets\<close>

definition wdb_abs :: "(string \<rightharpoonup> string) \<Rightarrow> string list \<rightharpoonup> (string \<rightharpoonup> string)" where
  "wdb_abs c = (\<lambda>p. if apath_ok p \<and> c (index_key p) \<noteq> None then Some (\<lambda>k. c (data_key p k)) else None)"

text \<open>Each entry is an index entry or belongs to a bucket, and each bucket and entry is in a bucket that exists.\<close>

definition index_entry :: "(string \<rightharpoonup> string) \<Rightarrow> string \<Rightarrow> string \<Rightarrow> bool" where
  "index_entry c k v \<longleftrightarrow> (\<exists>p. apath_ok p \<and> k = index_key p \<and> v = last p \<and> (length p > 1 \<longrightarrow> c (index_key (butlast p)) \<noteq> None))"

definition data_entry :: "(string \<rightharpoonup> string) \<Rightarrow> string \<Rightarrow> string \<Rightarrow> bool" where
  "data_entry c k v \<longleftrightarrow> (\<exists>p j. apath_ok p \<and> k = data_key p j \<and> j \<noteq> [] \<and> v \<noteq> [] \<and> c (index_key p) \<noteq> None)"

definition wdb_ok :: "(string \<rightharpoonup> string) \<Rightarrow> bool" where
  "wdb_ok c \<longleftrightarrow> (\<forall>k v. c k = Some v \<longrightarrow> index_entry c k v \<or> data_entry c k v)"

lemma wdb_okD:
  assumes "wdb_ok c" "apath_ok p"
  shows "c (index_key p) = Some v \<Longrightarrow> v = last p \<and> (length p > 1 \<longrightarrow> c (index_key (butlast p)) \<noteq> None)"
    "c (data_key p j) = Some v \<Longrightarrow> j \<noteq> [] \<and> v \<noteq> [] \<and> c (index_key p) \<noteq> None"
proof -
  have e: "index_entry c k v \<or> data_entry c k v" if "c k = Some v" for k v using assms(1) that by (simp add: wdb_ok_def)
  show "v = last p \<and> (length p > 1 \<longrightarrow> c (index_key (butlast p)) \<noteq> None)" if i: "c (index_key p) = Some v"
  proof -
    have "\<not> data_entry c (index_key p) v" using index_not_data(2) by (auto simp: data_entry_def)
    then obtain q where "apath_ok q" "index_key p = index_key q" "v = last q" "length q > 1 \<longrightarrow> c (index_key (butlast q)) \<noteq> None"
      using e [OF i] by (auto simp: index_entry_def)
    then show ?thesis using index_key_eq [OF assms(2)] by blast
  qed
  show "j \<noteq> [] \<and> v \<noteq> [] \<and> c (index_key p) \<noteq> None" if d: "c (data_key p j) = Some v"
  proof -
    have "\<not> index_entry c (data_key p j) v"
    proof
      assume "index_entry c (data_key p j) v"
      then obtain q where "data_key p j = index_key q" unfolding index_entry_def by blast
      with index_not_data(2) [OF assms(2), of q j] show False by simp
    qed
    then obtain q i where "apath_ok q" "data_key p j = data_key q i" "i \<noteq> []" "v \<noteq> []" "c (index_key q) \<noteq> None"
      using e [OF d] unfolding data_entry_def by blast
    moreover from this have "q = p" "i = j" using data_key_eq [OF assms(2), of q j i] by simp_all
    ultimately show ?thesis by simp
  qed
qed

lemma wdb_absD:
  assumes "wdb_abs c p = Some m"
  shows "apath_ok p" "c (index_key p) \<noteq> None" "m = (\<lambda>k. c (data_key p k))"
  using assms by (auto simp: wdb_abs_def split: if_splits)

lemma wdb_put:
  assumes "wdb_ok c" "wdb_abs c p = Some m" "k \<noteq> []" "v \<noteq> []"
  shows "wdb_ok (c(data_key p k \<mapsto> v))" "wdb_abs (c(data_key p k \<mapsto> v)) = (wdb_abs c)(p \<mapsto> m(k \<mapsto> v))"
proof -
  note m = wdb_absD [OF assms(2)]
  have i: "index_key q \<noteq> data_key p k" for q using m(1) by (rule index_not_data)
  show "wdb_ok (c(data_key p k \<mapsto> v))"
    unfolding wdb_ok_def
  proof (intro allI impI)
    fix k' v' assume k': "(c(data_key p k \<mapsto> v)) k' = Some v'"
    have same: "(c(data_key p k \<mapsto> v)) (index_key q) = c (index_key q)" for q using i by simp
    show "index_entry (c(data_key p k \<mapsto> v)) k' v' \<or> data_entry (c(data_key p k \<mapsto> v)) k' v'"
    proof (cases "k' = data_key p k")
      case True
      then have "data_entry (c(data_key p k \<mapsto> v)) k' v'" using k' assms(3,4) m(1,2) unfolding data_entry_def same by auto
      then show ?thesis ..
    next
      case False
      then have "index_entry c k' v' \<or> data_entry c k' v'" using assms(1) k' by (simp add: wdb_ok_def)
      then show ?thesis unfolding index_entry_def data_entry_def same .
    qed
  qed
  show "wdb_abs (c(data_key p k \<mapsto> v)) = (wdb_abs c)(p \<mapsto> m(k \<mapsto> v))"
    using m i by (auto simp: wdb_abs_def fun_eq_iff data_key_eq)
qed

text \<open>Removing entries, and removing a bucket with all that is in it.\<close>

lemma wdb_remove:
  assumes "wdb_ok c" "\<And>p. apath_ok p \<Longrightarrow> index_key p \<notin> S"
  shows "wdb_ok (c |` (- S))"
    "wdb_abs (c |` (- S)) = (\<lambda>p. map_option (\<lambda>m k. if data_key p k \<in> S then None else m k) (wdb_abs c p))"
proof -
  have i: "index_key (butlast p) \<notin> S" if "apath_ok p" "length p > 1" for p
  proof -
    have "apath_ok (butlast p)" using that by (cases p rule: rev_cases) (auto simp: apath_ok_def)
    then show ?thesis by (rule assms(2))
  qed
  show "wdb_ok (c |` (- S))"
    unfolding wdb_ok_def
  proof (intro allI impI)
    fix k v assume "(c |` (- S)) k = Some v"
    then have "c k = Some v" by (auto simp: restrict_map_def split: if_splits)
    then have "index_entry c k v \<or> data_entry c k v" using assms(1) by (simp add: wdb_ok_def)
    then show "index_entry (c |` (- S)) k v \<or> data_entry (c |` (- S)) k v"
      unfolding index_entry_def data_entry_def using assms(2) i by (fastforce simp: restrict_map_def)
  qed
  show "wdb_abs (c |` (- S)) = (\<lambda>p. map_option (\<lambda>m k. if data_key p k \<in> S then None else m k) (wdb_abs c p))"
    using assms(2) by (auto simp: wdb_abs_def fun_eq_iff restrict_map_def)
qed

lemma wdb_new:
  assumes "wdb_ok c" "apath_ok q" "c (index_key q) = None" "length q > 1 \<longrightarrow> c (index_key (butlast q)) \<noteq> None"
  shows "wdb_ok (c(index_key q \<mapsto> last q))" "wdb_abs (c(index_key q \<mapsto> last q)) = (wdb_abs c)(q \<mapsto> Map.empty)"
proof -
  show "wdb_ok (c(index_key q \<mapsto> last q))"
    unfolding wdb_ok_def
  proof (intro allI impI)
    fix k v assume k: "(c(index_key q \<mapsto> last q)) k = Some v"
    show "index_entry (c(index_key q \<mapsto> last q)) k v \<or> data_entry (c(index_key q \<mapsto> last q)) k v"
    proof (cases "k = index_key q")
      case True
      then have "index_entry (c(index_key q \<mapsto> last q)) k v" using k assms(2,4) unfolding index_entry_def by auto
      then show ?thesis ..
    next
      case False
      then have "index_entry c k v \<or> data_entry c k v" using assms(1) k by (simp add: wdb_ok_def)
      then show ?thesis unfolding index_entry_def data_entry_def by fastforce
    qed
  qed
  have "c (data_key q j) = None" for j using wdb_okD(2) [OF assms(1,2), of j] assms(3) by (cases "c (data_key q j)") auto
  then show "wdb_abs (c(index_key q \<mapsto> last q)) = (wdb_abs c)(q \<mapsto> Map.empty)"
    using assms(2) index_not_data(2) [THEN not_sym] by (auto simp: wdb_abs_def fun_eq_iff index_key_eq)
qed

section \<open>Operations on entries\<close>

lemma Get_correct:
  assumes "kv_ok K content" "wdb_ok (content d)" "wdb_abs (content d) p = Some m"
  shows "bucket_Get K d (bk_for p) k = Inr r \<Longrightarrow> r = m k"
proof -
  note m = wdb_absD [OF assms(3)]
  have "m [] = None" using wdb_okD(2) [OF assms(2) m(1), of "[]"] m(3) by (cases "m []") auto
  then show "bucket_Get K d (bk_for p) k = Inr r \<Longrightarrow> r = m k"
    using kv_okD(1,2) [OF assms(1), of d "data_key p k"] m(3)
    by (auto simp: bucket_Get_def innerKey_for split: if_splits sum.splits kv_error.splits)
qed

lemma Put_correct:
  assumes "kv_ok K content" "wdb_ok (content d)" "wdb_abs (content d) p = Some m" "bucket_Put K d (bk_for p) k v = (d', e)"
  shows "if e = None then k \<noteq> [] \<and> v \<noteq> [] \<and> wdb_ok (content d') \<and> wdb_abs (content d') = (wdb_abs (content d))(p \<mapsto> m(k \<mapsto> v))
    else content d' = content d"
proof (cases "k = [] \<or> v = []")
  case True
  then have "(\<exists>x. e = Some x) \<and> d' = d" using assms(4) by (cases "v = []") (auto simp: bucket_Put_def innerKey_for)
  then show ?thesis by auto
next
  case False
  then obtain e' where "kv_Put K d (data_key p k) v = (d', e')" "e = map_option ErrStore e'"
    using assms(4) by (auto simp: bucket_Put_def innerKey_for split: prod.splits)
  with kv_okD(3) [OF assms(1) this(1)] wdb_put [OF assms(2,3)] False show ?thesis by auto
qed

lemma Delete_correct:
  assumes "kv_ok K content" "wdb_ok (content d)" "wdb_abs (content d) p = Some m" "bucket_Delete K d (bk_for p) k = (d', e)"
  shows "if e = None then wdb_ok (content d') \<and> wdb_abs (content d') = (wdb_abs (content d))(p \<mapsto> m(k := None)) else content d' = content d"
proof -
  note m = wdb_absD [OF assms(3)]
  show ?thesis
  proof (cases "k = []")
    case True
    have "m [] = None" using wdb_okD(2) [OF assms(2) m(1), of "[]"] m(3) by (cases "m []") auto
    then have "m(k := None) = m" using True by auto
    moreover have "d' = d" "e = None" using True assms(4) by (simp_all add: bucket_Delete_def innerKey_for)
    ultimately show ?thesis using assms(2,3) by (simp add: fun_upd_idem)
  next
    case False
    then obtain e' where d: "kv_Delete K d (data_key p k) = (d', e')" "e = map_option ErrStore e'"
      using assms(4) by (auto simp: bucket_Delete_def innerKey_for split: prod.splits)
    have r: "(content d)(data_key p k := None) = content d |` (- {data_key p k})" by (auto simp: restrict_map_def)
    have "(\<lambda>q. map_option (\<lambda>m j. if data_key q j \<in> {data_key p k} then None else m j) (wdb_abs (content d) q)) =
        (wdb_abs (content d))(p \<mapsto> m(k := None))"
    proof
      fix q
      show "map_option (\<lambda>m j. if data_key q j \<in> {data_key p k} then None else m j) (wdb_abs (content d) q) =
          ((wdb_abs (content d))(p \<mapsto> m(k := None))) q"
      proof (cases "wdb_abs (content d) q")
        case None
        then show ?thesis using assms(3) by auto
      next
        case (Some mq)
        then show ?thesis using assms(3) m(1) wdb_absD(1) [OF Some] by (auto simp: data_key_eq fun_eq_iff)
      qed
    qed
    then show ?thesis
      using d kv_okD(4) [OF assms(1) d(1)] wdb_remove [OF assms(2), of "{data_key p k}"] index_not_data(2) [OF m(1)]
      by (auto simp: r)
  qed
qed

lemma Clear_correct:
  assumes "kv_ok K content" "wdb_ok (content d)" "wdb_abs (content d) p = Some m" "bucket_Clear K d (bk_for p) = (d', e)"
  shows "if e = None then wdb_ok (content d') \<and> wdb_abs (content d') = (wdb_abs (content d))(p \<mapsto> Map.empty) else content d' = content d"
proof -
  note m = wdb_absD [OF assms(3)]
  obtain es e1 where it: "kv_Iterate K d (data_key p []) = (es, e1)" by (cases "kv_Iterate K d (data_key p [])")
  show ?thesis
  proof (cases e1)
    case (Some x)
    with it assms(4) show ?thesis by (auto simp: bucket_Clear_def entries_of_for [simplified])
  next
    case None
    let ?S = "set (map fst es)"
    note S = iterated_keys [OF assms(1) it [unfolded None]]
    obtain e2 where w: "kv_Write K d (map fst es) = (d', e2)" "e = map_option ErrStore e2"
      using assms(4) it None by (auto simp: bucket_Clear_def entries_of_for [simplified] split: prod.splits)
    have noidx: "index_key q \<notin> ?S" for q
      using S index_not_data(1) [OF m(1), of q] by (auto simp: data_key_def dest: append_prefixD)
    have "(\<lambda>q. map_option (\<lambda>m j. if data_key q j \<in> ?S then None else m j) (wdb_abs (content d) q)) =
        (wdb_abs (content d))(p \<mapsto> Map.empty)"
    proof
      fix q
      show "map_option (\<lambda>m j. if data_key q j \<in> ?S then None else m j) (wdb_abs (content d) q) =
          ((wdb_abs (content d))(p \<mapsto> Map.empty)) q"
      proof (cases "wdb_abs (content d) q")
        case None
        then show ?thesis using assms(3) by auto
      next
        case (Some mq)
        note q = wdb_absD [OF Some]
        show ?thesis using Some S q m(1) by (auto simp: prefix_data_key fun_eq_iff)
      qed
    qed
    then show ?thesis
      using w kv_okD(5) [OF assms(1) w(1)] wdb_remove [OF assms(2), of ?S] noidx by auto
  qed
qed

lemma GetByPrefix_correct:
  assumes "kv_ok K content" "wdb_abs (content d) p = Some m" "bucket_GetByPrefix K d (bk_for p) pre = Inr r"
  shows "distinct (map fst r)" "(k, v) \<in> set r \<longleftrightarrow> m k = Some v \<and> prefix pre k"
proof -
  note m = wdb_absD [OF assms(2)]
  obtain es where it: "kv_Iterate K d (data_key p pre) = (es, None)"
    and r: "r = map (\<lambda>(k, v). (drop (length (path_str p) + 1) k, v)) es"
    using assms(3) by (auto simp: bucket_GetByPrefix_def innerKey_for split: prod.splits option.splits)
  note es = kv_okD(8) [OF assms(1) it]
  have key: "\<exists>j. k = data_key p j \<and> prefix pre j" if "(k, v) \<in> set es" for k v
    using es [of k v] that by (auto simp: prefix_def data_key_def)
  have dk: "drop (length (path_str p) + 1) (data_key p j) = j" for j by (simp add: data_key_def)
  have "inj_on (drop (length (path_str p) + 1)) (set (map fst es))"
  proof (rule inj_onI)
    fix x y assume "x \<in> set (map fst es)" "y \<in> set (map fst es)" and eq: "drop (length (path_str p) + 1) x = drop (length (path_str p) + 1) y"
    then obtain i j where "x = data_key p i" "y = data_key p j" using key by fastforce
    with eq show "x = y" by (simp only: dk)
  qed
  moreover have "map fst r = map (drop (length (path_str p) + 1)) (map fst es)" by (simp add: r case_prod_beta)
  ultimately show "distinct (map fst r)" using kv_okD(6) [OF assms(1) it] by (simp only: distinct_map simp_thms)
  have "(k, v) \<in> set r \<longleftrightarrow> (data_key p k, v) \<in> set es"
  proof
    assume "(k, v) \<in> set r"
    then obtain x where x: "(x, v) \<in> set es" "k = drop (length (path_str p) + 1) x" by (auto simp: r)
    with key [OF x(1)] dk show "(data_key p k, v) \<in> set es" by auto
  next
    assume "(data_key p k, v) \<in> set es"
    then have "(drop (length (path_str p) + 1) (data_key p k), v) \<in> set r" by (force simp: r)
    then show "(k, v) \<in> set r" by (simp only: dk)
  qed
  then show "(k, v) \<in> set r \<longleftrightarrow> m k = Some v \<and> prefix pre k"
    using es [of "data_key p k" v] m prefix_data_key [OF m(1) m(1), of pre k] by simp
qed

section \<open>Operations on buckets\<close>

definition wdb_keys :: "(string \<rightharpoonup> string) \<Rightarrow> bool" where
  "wdb_keys c \<longleftrightarrow> (\<forall>k v. c k = Some v \<longrightarrow> (\<exists>p. apath_ok p \<and> k = index_key p \<and> v = last p) \<or> (\<exists>p j. apath_ok p \<and> k = data_key p j))"

lemma wdb_ok_keys: "wdb_ok c \<Longrightarrow> wdb_keys c"
  unfolding wdb_ok_def wdb_keys_def index_entry_def data_entry_def by blast

lemma names_loop_all:
  "\<forall>(k, v) \<in> set es. length (strings_Split k bucketPathSep) = n \<and> strings_Split k bucketPathSep ! (n - 1) = v \<Longrightarrow>
     names_loop n es names = Inr (names @ map snd es)"
  by (induction n es names rule: names_loop.induct) auto

definition child_prefix :: "string list \<Rightarrow> string" where
  "child_prefix p = CHR ''b'' # bucketPathSep # joinBucketPath (Itoa (int (length p) + 1) # p) @ [bucketPathSep]"

text \<open>The index entries with the prefix of a bucket are those of its sub-buckets.\<close>

lemma child_entries:
  assumes "kv_ok K content" "wdb_keys (content d)" "list_all isValidBucketName p" "kv_Iterate K d (child_prefix p) = (es, e)"
  shows "(k, v) \<in> set es \<Longrightarrow> k = index_key (p @ [v]) \<and> isValidBucketName v"
    "iter_names (length p + 3) (es, e) = (case e of Some x \<Rightarrow> Inl (ErrStore x) | None \<Rightarrow> Inr (map snd es))"
proof -
  show child: "k = index_key (p @ [v]) \<and> isValidBucketName v" if kv: "(k, v) \<in> set es" for k v
  proof -
    have c: "content d k = Some v" "prefix (child_prefix p) k" using kv_okD(7) [OF assms(1,4) kv] by simp_all
    then obtain x where x: "k = CHR ''b'' # x" by (auto simp: child_prefix_def prefix_def)
    have "k \<noteq> data_key q j" if q: "apath_ok q" for q j
    proof -
      obtain y ys where "path_str q = y # ys" "is_digit y" using path_str_head [of q] q by (auto simp: apath_ok_def)
      then show ?thesis by (auto simp: x data_key_def is_digit_def)
    qed
    then obtain q where q: "apath_ok q" "k = index_key q" "v = last q"
      using c(1) assms(2) unfolding wdb_keys_def by blast
    then obtain n where "q = p @ [n]" using c(2) child_index [OF assms(3) q(1)] by (auto simp: child_prefix_def)
    with q show ?thesis by (auto simp: apath_ok_def)
  qed
  have "length (strings_Split k bucketPathSep) = length p + 3 \<and> strings_Split k bucketPathSep ! (length p + 3 - 1) = v"
    if "(k, v) \<in> set es" for k v
  proof -
    have "apath_ok (p @ [v])" "k = index_key (p @ [v])" using child [OF that] assms(3) by (simp_all add: apath_ok_def)
    then show ?thesis using Split_index_key [of "p @ [v]"] by (simp add: nth_append)
  qed
  then have "names_loop (length p + 3) es [] = Inr ([] @ map snd es)" by (intro names_loop_all) blast
  then show "iter_names (length p + 3) (es, e) = (case e of Some x \<Rightarrow> Inl (ErrStore x) | None \<Rightarrow> Inr (map snd es))"
    by (simp add: iter_names_def)
qed

lemma child_names:
  assumes "kv_ok K content" "wdb_keys (content d)" "list_all isValidBucketName p" "kv_Iterate K d (child_prefix p) = (es, None)"
  shows "distinct (map snd es)" "set (map snd es) = {n. isValidBucketName n \<and> content d (index_key (p @ [n])) \<noteq> None}"
proof -
  note c = child_entries(1) [OF assms]
  have "inj_on snd (set es)"
  proof (rule inj_onI)
    fix x y assume "x \<in> set es" "y \<in> set es" "snd x = snd y"
    then show "x = y" using c [of "fst x" "snd x"] c [of "fst y" "snd y"] by (metis prod.collapse)
  qed
  moreover have "distinct es" using kv_okD(6) [OF assms(1,4)] by (simp add: distinct_map)
  ultimately show "distinct (map snd es)" by (simp add: distinct_map)
  show "set (map snd es) = {n. isValidBucketName n \<and> content d (index_key (p @ [n])) \<noteq> None}"
  proof (intro set_eqI iffI)
    fix n assume "n \<in> set (map snd es)"
    then obtain k where k: "(k, n) \<in> set es" by auto
    with c [OF k] kv_okD(7) [OF assms(1,4) k] show "n \<in> {n. isValidBucketName n \<and> content d (index_key (p @ [n])) \<noteq> None}" by auto
  next
    fix n assume "n \<in> {n. isValidBucketName n \<and> content d (index_key (p @ [n])) \<noteq> None}"
    then obtain v where v: "isValidBucketName n" "content d (index_key (p @ [n])) = Some v" by auto
    have ok: "apath_ok (p @ [n])" using v(1) assms(3) by (simp add: apath_ok_def)
    have "v = n"
      using assms(2) v(2) ok index_not_data(2) [of _ "p @ [n]"] unfolding wdb_keys_def by (metis index_key_eq last_snoc)
    moreover have "prefix (child_prefix p) (index_key (p @ [n]))"
      using child_index [OF assms(3) ok] by (auto simp: child_prefix_def)
    ultimately have "(index_key (p @ [n]), n) \<in> set es" using v(2) kv_okD(8) [OF assms(1,4)] by blast
    then show "n \<in> set (map snd es)" by force
  qed
qed

lemma BucketNames_for:
  assumes "apath_ok p"
  shows "BucketNames K d (bk_for p) = iter_names (length p + 3) (kv_Iterate K d (child_prefix p))"
proof -
  have "\<not> length (strings_Split (path_str p) bucketPathSep) < 2"
    using assms by (cases p) (simp_all add: Split_path_str apath_ok_def)
  then show ?thesis unfolding BucketNames_def Let_def bk_for_simps children_prefix [OF assms] child_prefix_def by simp
qed

lemma BucketNames_correct:
  assumes "kv_ok K content" "wdb_keys (content d)" "apath_ok p"
  shows "BucketNames K d (bk_for p) = Inr names \<Longrightarrow>
      distinct names \<and> set names = {n. isValidBucketName n \<and> content d (index_key (p @ [n])) \<noteq> None}"
    "BucketNames K d (bk_for p) = Inl err \<Longrightarrow> \<exists>e. err = ErrStore e"
proof -
  obtain es e where it: "kv_Iterate K d (child_prefix p) = (es, e)" by (cases "kv_Iterate K d (child_prefix p)")
  have v: "list_all isValidBucketName p" using assms(3) by (simp add: apath_ok_def)
  note n = BucketNames_for [OF assms(3), of K d, unfolded it child_entries(2) [OF assms(1,2) v it]]
  show "BucketNames K d (bk_for p) = Inr names \<Longrightarrow>
      distinct names \<and> set names = {n. isValidBucketName n \<and> content d (index_key (p @ [n])) \<noteq> None}"
    using n it child_names [OF assms(1,2) v] by (auto split: option.splits)
  show "BucketNames K d (bk_for p) = Inl err \<Longrightarrow> \<exists>e. err = ErrStore e" using n by (auto split: option.splits)
qed

lemma Itoa_one: "Itoa 1 = topLevelBucketDepth"
  by code_simp

lemma tx_BucketNames_correct:
  assumes "kv_ok K content" "wdb_keys (content d)" "tx_BucketNames K d = Inr names"
  shows "distinct names \<and> set names = {n. isValidBucketName n \<and> content d (index_key [n]) \<noteq> None}"
proof -
  obtain es e where it: "kv_Iterate K d (child_prefix []) = (es, e)" by (cases "kv_Iterate K d (child_prefix [])")
  have "joinBucketPath [bucketNameBucket, topLevelBucketDepth, []] = child_prefix []"
    by (simp add: joinBucketPath_def child_prefix_def bucketNameBucket_def Itoa_one)
  then have "tx_BucketNames K d = (case e of Some x \<Rightarrow> Inl (ErrStore x) | None \<Rightarrow> Inr (map snd es))"
    using child_entries(2) [OF assms(1,2) _ it] it by (simp add: tx_BucketNames_def)
  then show ?thesis using assms(3) it child_names [OF assms(1,2), of "[]"] by (auto split: option.splits)
qed

lemma index_value:
  assumes "wdb_keys c" "apath_ok q" "c (index_key q) = Some v"
  shows "v = last q"
proof -
  have "\<exists>p. apath_ok p \<and> index_key q = index_key p \<and> v = last p"
    using assms(1,3) index_not_data(2) [of _ q] unfolding wdb_keys_def by metis
  then show ?thesis using index_key_eq [OF assms(2)] by blast
qed

lemma Bucket_for:
  assumes "apath_ok p"
  shows "Bucket K d (bk_for p) n =
    (if isValidBucketName n \<and> kv_Get K d (index_key (p @ [n])) = Inr n then Some (bk_for (p @ [n])) else None)"
  using assms by (auto simp: Bucket_def subBucket_for index_key_def split: sum.splits)

lemma Bucket_correct:
  assumes "kv_ok K content" "wdb_keys (content d)" "apath_ok p"
  shows "Bucket K d (bk_for p) n = Some b \<Longrightarrow> b = bk_for (p @ [n]) \<and> wdb_abs (content d) (p @ [n]) \<noteq> None"
    "(\<forall>k e. kv_Get K d k \<noteq> Inl (KvFailed e)) \<Longrightarrow> wdb_abs (content d) (p @ [n]) \<noteq> None \<Longrightarrow> Bucket K d (bk_for p) n = Some (bk_for (p @ [n]))"
proof -
  show "Bucket K d (bk_for p) n = Some b \<Longrightarrow> b = bk_for (p @ [n]) \<and> wdb_abs (content d) (p @ [n]) \<noteq> None"
    using assms(3) kv_okD(1) [OF assms(1), of d "index_key (p @ [n])"]
    by (auto simp: Bucket_for wdb_abs_def apath_ok_snoc split: if_splits)
  assume g: "\<forall>k e. kv_Get K d k \<noteq> Inl (KvFailed e)" and e: "wdb_abs (content d) (p @ [n]) \<noteq> None"
  then obtain v where q: "apath_ok (p @ [n])" "content d (index_key (p @ [n])) = Some v"
    by (auto simp: wdb_abs_def split: if_splits)
  have "v = n" using index_value [OF assms(2) q] by simp
  moreover have "kv_Get K d (index_key (p @ [n])) = Inr v"
  proof (cases "kv_Get K d (index_key (p @ [n]))")
    case (Inl x)
    then have "x = KvNotFound" using g by (cases x) auto
    with Inl kv_okD(2) [OF assms(1)] q(2) show ?thesis by fastforce
  next
    case (Inr w)
    then show ?thesis using kv_okD(1) [OF assms(1)] q(2) by fastforce
  qed
  ultimately show "Bucket K d (bk_for p) n = Some (bk_for (p @ [n]))"
    using assms(3) q(1) by (simp add: Bucket_for apath_ok_snoc)
qed

lemma NewBucket_correct:
  assumes "kv_ok K content" "wdb_ok (content d)" "wdb_abs (content d) p = Some m" "NewBucket K d (bk_for p) n = (d', r)"
  shows "case r of
      Inl err \<Rightarrow> content d' = content d \<and> (err = ErrBucketExist \<longrightarrow> wdb_abs (content d) (p @ [n]) \<noteq> None)
    | Inr b \<Rightarrow> b = bk_for (p @ [n]) \<and> wdb_abs (content d) (p @ [n]) = None \<and> wdb_ok (content d') \<and>
        wdb_abs (content d') = (wdb_abs (content d))(p @ [n] \<mapsto> Map.empty)"
proof (cases "isValidBucketName n")
  case False
  with assms(4) wdb_absD(1) [OF assms(3)] show ?thesis by (auto simp: NewBucket_def subBucket_for)
next
  case True
  note m = wdb_absD [OF assms(3)]
  have q: "apath_ok (p @ [n])" using True m(1) by (simp add: apath_ok_snoc)
  have N: "NewBucket K d (bk_for p) n = (case kv_Get K d (index_key (p @ [n])) of
             Inr _ \<Rightarrow> (d, Inl ErrBucketExist)
           | Inl (KvFailed e) \<Rightarrow> (d, Inl (ErrStore e))
           | Inl KvNotFound \<Rightarrow>
             (case kv_Put K d (index_key (p @ [n])) n of
                (tr', Some e) \<Rightarrow> (tr', Inl (ErrStore e))
              | (tr', None) \<Rightarrow> (tr', Inr (bk_for (p @ [n])))))"
    unfolding NewBucket_def subBucket_for [OF m(1)] index_key_def Let_def by (simp only: True if_True sum.case bk_for_simps)
  show ?thesis
  proof (cases "kv_Get K d (index_key (p @ [n]))")
    case (Inr v)
    then show ?thesis using N assms(4) kv_okD(1) [OF assms(1) Inr] q by (auto simp: wdb_abs_def)
  next
    case (Inl x)
    show ?thesis
    proof (cases x)
      case (KvFailed e)
      with Inl N assms(4) show ?thesis by auto
    next
      case KvNotFound
      then have none: "content d (index_key (p @ [n])) = None" using Inl kv_okD(2) [OF assms(1)] by blast
      obtain e where put: "kv_Put K d (index_key (p @ [n])) n = (d', e)"
        and r: "r = (case e of Some e \<Rightarrow> Inl (ErrStore e) | None \<Rightarrow> Inr (bk_for (p @ [n])))"
        using N Inl KvNotFound assms(4) by (auto split: prod.splits option.splits)
      have new: "wdb_ok ((content d)(index_key (p @ [n]) \<mapsto> n))"
        "wdb_abs ((content d)(index_key (p @ [n]) \<mapsto> n)) = (wdb_abs (content d))(p @ [n] \<mapsto> Map.empty)"
        using wdb_new [OF assms(2) q none] m(2) by simp_all
      have "wdb_abs (content d) (p @ [n]) = None" using none by (simp add: wdb_abs_def)
      then show ?thesis using r kv_okD(3) [OF assms(1) put] new by (cases e) auto
    qed
  qed
qed

text \<open>Buckets at the top, and buckets found again.\<close>

lemma top_path: "joinBucketPath [topLevelBucketDepth, n] = path_str [n]"
  by (simp add: joinBucketPath_def path_str_def Itoa_one)

lemma top_bucket: "new_bucket n (path_str [n]) 1 = bk_for [n]"
  by (simp add: bk_for_def)

lemma TopLevelBucket_correct:
  assumes "kv_ok K content" "isValidBucketName n" "TopLevelBucket K d n = Some b"
  shows "b = bk_for [n] \<and> wdb_abs (content d) [n] \<noteq> None"
proof -
  obtain v where "kv_Get K d (index_key [n]) = Inr v" "b = bk_for [n]"
    using assms(3) unfolding TopLevelBucket_def Let_def top_path top_bucket index_key_def by (auto split: sum.splits)
  then show ?thesis using kv_okD(1) [OF assms(1)] assms(2) by (auto simp: wdb_abs_def apath_ok_def)
qed

lemma FetchBucket_correct:
  assumes "kv_ok K content" "apath_ok p" "length p < 2 ^ 63" "FetchBucket K d (Some (GetBucketMeta (bk_for p))) = Some b"
  shows "b = bk_for p \<and> wdb_abs (content d) p \<noteq> None"
proof -
  have paths: "GetBucketMeta (bk_for p) = Itoa (int (length p)) # p" by (simp add: GetBucketMeta_def Split_path_str [OF assms(2)])
  have "Atoi (Itoa (int (length p))) = Some (int (length p))" using assms(3) by (intro Atoi_Itoa) simp_all
  then have d: "meta_Depth (Itoa (int (length p)) # p) = int (length p)" by (simp add: meta_Depth_def)
  then have n: "meta_Name (Itoa (int (length p)) # p) = last p"
    using assms(2) by (simp add: meta_Name_def apath_ok_def last_conv_nth nth_Cons')
  have "joinBucketPath (Itoa (int (length p)) # p) = path_str p" by (simp add: path_str_def)
  then obtain v where "kv_Get K d (index_key p) = Inr v" "b = bk_for p"
    using assms(4) unfolding FetchBucket_def paths option.case Let_def d n index_key_def bk_for_def [symmetric]
    by (auto simp: bk_for_def split: sum.splits)
  then show ?thesis using kv_okD(1) [OF assms(1)] assms(2) by (auto simp: wdb_abs_def)
qed

lemma CreateTopLevelBucket_for:
  "CreateTopLevelBucket K d n =
     (if \<not> isValidBucketName n then (d, Inl ErrInvalidBucketName)
      else case kv_Get K d (index_key [n]) of
             Inl (KvFailed e) \<Rightarrow> (d, Inl (ErrStore e))
           | _ \<Rightarrow> (case kv_Put K d (index_key [n]) n of
                     (d', Some e) \<Rightarrow> (d', Inl (ErrStore e))
                   | (d', None) \<Rightarrow> (d', Inr (bk_for [n]))))"
  unfolding CreateTopLevelBucket_def Let_def top_path top_bucket index_key_def by (rule refl)

lemma CreateTopLevelBucket_correct:
  assumes "kv_ok K content" "wdb_ok (content d)" "CreateTopLevelBucket K d n = (d', r)"
  shows "case r of
      Inl err \<Rightarrow> content d' = content d
    | Inr b \<Rightarrow> b = bk_for [n] \<and> wdb_ok (content d') \<and>
        wdb_abs (content d') = (if wdb_abs (content d) [n] = None then (wdb_abs (content d))([n] \<mapsto> Map.empty) else wdb_abs (content d))"
proof (cases "isValidBucketName n \<and> (\<forall>e. kv_Get K d (index_key [n]) \<noteq> Inl (KvFailed e))")
  case False
  with assms(3) show ?thesis unfolding CreateTopLevelBucket_for by (auto split: sum.splits kv_error.splits if_splits)
next
  case True
  then have q: "apath_ok [n]" by (simp add: apath_ok_def)
  obtain e where put: "kv_Put K d (index_key [n]) n = (d', e)"
    and r: "r = (case e of Some e \<Rightarrow> Inl (ErrStore e) | None \<Rightarrow> Inr (bk_for [n]))"
    using True assms(3) unfolding CreateTopLevelBucket_for
    by (auto split: sum.splits kv_error.splits prod.splits option.splits if_splits)
  note c = kv_okD(3) [OF assms(1) put]
  show ?thesis
  proof (cases "content d (index_key [n])")
    case None
    then have "wdb_abs (content d) [n] = None" by (simp add: wdb_abs_def)
    then show ?thesis using r c wdb_new [OF assms(2) q None] by (cases e) auto
  next
    case (Some v)
    then have "v = n" using index_value [OF wdb_ok_keys [OF assms(2)] q] by simp
    with Some have "(content d)(index_key [n] \<mapsto> n) = content d" by auto
    moreover have "wdb_abs (content d) [n] \<noteq> None" using Some q by (simp add: wdb_abs_def)
    ultimately show ?thesis using r c assms(2) by (cases e) auto
  qed
qed

end
