(* ===== verification/Ldb_Delete.thy ===== *)
theory Ldb_Delete
  imports Ldb_Abs
begin

text \<open>
  Deleting a bucket: \<open>deleteBucket\<close> goes through the sub-buckets, deletes their names at once and collects the
  entries, which the caller then deletes together.
\<close>

section \<open>Subtrees\<close>

definition tree_index :: "string list \<Rightarrow> string set" where
  "tree_index p = {index_key q | q. apath_ok q \<and> prefix p q}"

definition tree_data :: "string list \<Rightarrow> string set" where
  "tree_data p = {data_key q j | q j. apath_ok q \<and> prefix p q}"

definition tree_ok :: "(string \<rightharpoonup> string) \<Rightarrow> string list \<Rightarrow> bool" where
  "tree_ok c p \<longleftrightarrow>
     (\<forall>q. apath_ok q \<and> prefix p q \<and> q \<noteq> p \<and> c (index_key q) \<noteq> None \<longrightarrow> c (index_key (butlast q)) \<noteq> None) \<and>
     (\<forall>q j. apath_ok q \<and> prefix p q \<and> c (data_key q j) \<noteq> None \<longrightarrow> c (index_key q) \<noteq> None)"

lemma prefix_child: "prefix p q \<longleftrightarrow> q = p \<or> (\<exists>n. prefix (p @ [n]) q)"
proof
  assume "prefix p q"
  then obtain r where "q = p @ r" by (auto simp: prefix_def)
  then show "q = p \<or> (\<exists>n. prefix (p @ [n]) q)" by (cases r) auto
qed (auto dest: append_prefixD)

lemma prefix_same_child: "prefix (p @ [n]) q \<Longrightarrow> prefix (p @ [m]) q \<Longrightarrow> n = m"
  by (auto simp: prefix_def)

lemma apath_ok_prefix: "apath_ok q \<Longrightarrow> prefix p q \<Longrightarrow> p \<noteq> [] \<Longrightarrow> apath_ok p"
  by (auto simp: apath_ok_def prefix_def)

lemma tree_ok_child: "tree_ok c p \<Longrightarrow> tree_ok c (p @ [n])"
proof -
  have "prefix p q" "q \<noteq> p" if "prefix (p @ [n]) q" for q using that by (auto simp: prefix_def)
  then show "tree_ok c p \<Longrightarrow> tree_ok c (p @ [n])" unfolding tree_ok_def by meson
qed

lemma wdb_ok_tree: "wdb_ok c \<Longrightarrow> p \<noteq> [] \<Longrightarrow> tree_ok c p"
proof -
  assume c: "wdb_ok c" and p: "p \<noteq> []"
  have "c (index_key (butlast q)) \<noteq> None" if "apath_ok q" "prefix p q" "q \<noteq> p" "c (index_key q) \<noteq> None" for q
  proof -
    have "length q > 1" using that(2,3) p by (cases p) (auto simp: prefix_def)
    then show ?thesis using wdb_okD(1) [OF c that(1)] that(4) by auto
  qed
  moreover have "c (index_key q) \<noteq> None" if "apath_ok q" "c (data_key q j) \<noteq> None" for q j
    using wdb_okD(2) [OF c that(1)] that(2) by auto
  ultimately show ?thesis unfolding tree_ok_def by blast
qed

text \<open>What is below a sub-bucket has that sub-bucket.\<close>

lemma tree_ancestor:
  assumes "tree_ok c p" "apath_ok q" "prefix (p @ [n]) q" "c (index_key q) \<noteq> None"
  shows "c (index_key (p @ [n])) \<noteq> None"
  using assms(2-4)
proof (induction q rule: rev_induct)
  case (snoc x q)
  show ?case
  proof (cases "p @ [n] = q @ [x]")
    case False
    then have pre: "prefix (p @ [n]) q" using snoc.prems(2) by (auto simp: prefix_snoc)
    then have "apath_ok q" using snoc.prems(1) by (auto simp: apath_ok_def prefix_def)
    moreover have "c (index_key (butlast (q @ [x]))) \<noteq> None"
    proof -
      have "prefix p (q @ [x])" "q @ [x] \<noteq> p" using snoc.prems(2) by (auto simp: prefix_def)
      then show ?thesis using assms(1) snoc.prems(1,3) unfolding tree_ok_def by blast
    qed
    ultimately show ?thesis using snoc.IH pre by simp
  qed (use snoc.prems in simp)
qed simp

lemma tree_children:
  "tree_index p = (if apath_ok p then {index_key p} else {}) \<union> (\<Union>n. tree_index (p @ [n]))"
  "tree_data p = (if apath_ok p then range (data_key p) else {}) \<union> (\<Union>n. tree_data (p @ [n]))"
proof -
  have "prefix p q \<longleftrightarrow> q = p \<or> (\<exists>n. prefix (p @ [n]) q)" for q by (rule prefix_child)
  then show "tree_index p = (if apath_ok p then {index_key p} else {}) \<union> (\<Union>n. tree_index (p @ [n]))"
    "tree_data p = (if apath_ok p then range (data_key p) else {}) \<union> (\<Union>n. tree_data (p @ [n]))"
    unfolding tree_index_def tree_data_def by (simp_all only: set_eq_iff) (auto, metis+)
qed

lemma tree_disjoint:
  "n \<noteq> m \<Longrightarrow> tree_index (p @ [n]) \<inter> tree_index (p @ [m]) = {}"
  "tree_index p \<inter> tree_data q = {}"
  using index_not_data(2) by (auto simp: tree_index_def tree_data_def index_key_eq dest: prefix_same_child)

lemma tree_ok_restrict:
  assumes "tree_ok c p" "p \<noteq> []" "S \<inter> tree_index p = {}" "\<And>q j. apath_ok q \<Longrightarrow> data_key q j \<notin> S"
  shows "tree_ok (c |` (- S)) p"
proof -
  have i: "(c |` (- S)) (index_key q) = c (index_key q)" if "apath_ok q" "prefix p q" for q
    using that assms(3) by (auto simp: restrict_map_def tree_index_def)
  have d: "(c |` (- S)) (data_key q j) = c (data_key q j)" if "apath_ok q" for q j
    using that assms(4) by (auto simp: restrict_map_def)
  have "apath_ok (butlast q) \<and> prefix p (butlast q)" if "apath_ok q" "prefix p q" "q \<noteq> p" for q
    using that assms(2) by (cases q rule: rev_cases) (auto simp: prefix_snoc intro: apath_ok_prefix)
  then show ?thesis using assms(1) i d unfolding tree_ok_def by metis
qed

lemma wdb_keys_restrict: "wdb_keys c \<Longrightarrow> wdb_keys (c |` S)"
  by (auto simp: wdb_keys_def restrict_map_def split: if_splits)

text \<open>Without the names and entries of a subtree the store has the buckets outside it.\<close>

lemma wdb_prune:
  assumes "wdb_ok c" "r \<noteq> []"
  shows "wdb_ok (c |` (- (tree_index r \<union> tree_data r)))"
    "wdb_abs (c |` (- (tree_index r \<union> tree_data r))) = wdb_abs c |` {q. \<not> prefix r q}"
proof -
  let ?c = "c |` (- (tree_index r \<union> tree_data r))"
  have i: "?c (index_key q) = (if prefix r q then None else c (index_key q))" if "apath_ok q" for q
    using that index_not_data(2) by (auto simp: restrict_map_def tree_index_def tree_data_def index_key_eq)
  have d: "?c (data_key q j) = (if prefix r q then None else c (data_key q j))" if "apath_ok q" for q j
    using that index_not_data(2) [OF that] by (auto simp: restrict_map_def tree_index_def tree_data_def data_key_eq dest: sym)
  show "wdb_ok ?c"
    unfolding wdb_ok_def
  proof (intro allI impI)
    fix k v assume k: "?c k = Some v"
    then have ck: "c k = Some v" by (auto simp: restrict_map_def split: if_splits)
    then consider (idx) "index_entry c k v" | (dat) "data_entry c k v" using assms(1) by (auto simp: wdb_ok_def)
    then show "index_entry ?c k v \<or> data_entry ?c k v"
    proof cases
      case idx
      then obtain p where p: "apath_ok p" "k = index_key p" "v = last p" "length p > 1 \<longrightarrow> c (index_key (butlast p)) \<noteq> None"
        by (auto simp: index_entry_def)
      have "\<not> prefix r p" using k i [OF p(1)] p(2) by (auto split: if_splits)
      then have "\<not> prefix r (butlast p)" using prefixeq_butlast prefix_order.order_trans by blast
      moreover have "apath_ok (butlast p)" if "length p > 1"
        using that p(1) by (cases p rule: rev_cases) (auto simp: apath_ok_def)
      ultimately have "length p > 1 \<longrightarrow> ?c (index_key (butlast p)) \<noteq> None" using p(4) i by simp
      with p(1-3) show ?thesis unfolding index_entry_def by blast
    next
      case dat
      then obtain p j where p: "apath_ok p" "k = data_key p j" "j \<noteq> []" "v \<noteq> []" "c (index_key p) \<noteq> None"
        by (auto simp: data_entry_def)
      then have "\<not> prefix r p" using k d [OF p(1), of j] by (auto split: if_splits)
      then have "?c (index_key p) \<noteq> None" using p(5) i [OF p(1)] by simp
      with p(1-4) show ?thesis unfolding data_entry_def by blast
    qed
  qed
  show "wdb_abs ?c = wdb_abs c |` {q. \<not> prefix r q}"
  proof
    fix q
    show "wdb_abs ?c q = (wdb_abs c |` {q. \<not> prefix r q}) q"
    proof (cases "apath_ok q")
      case True
      then have "wdb_abs ?c q = (if ?c (index_key q) \<noteq> None then Some (\<lambda>k. ?c (data_key q k)) else None)" by (simp add: wdb_abs_def)
      also have "\<dots> = (wdb_abs c |` {q. \<not> prefix r q}) q"
        unfolding i [OF True] d [OF True] using True by (simp add: wdb_abs_def restrict_map_def)
      finally show ?thesis .
    qed (simp add: wdb_abs_def restrict_map_def)
  qed
qed

section \<open>Deletion\<close>

definition kv_reliable :: "'d kv \<Rightarrow> bool" where
  "kv_reliable K \<longleftrightarrow> (\<forall>d k e. kv_Get K d k \<noteq> Inl (KvFailed e))"

lemma data_not_index: "data_key q j \<in> tree_index p \<Longrightarrow> apath_ok q \<Longrightarrow> False"
  using tree_disjoint(2) [of p q] by (auto simp: tree_data_def)

lemma restrict_all [simp]: "c |` UNIV = c"
  by (simp add: restrict_map_def)

lemma restrict_twice: "c |` (- A) |` (- B) = c |` (- (A \<union> B))"
  by (simp add: restrict_map_def fun_eq_iff)

text \<open>The sub-buckets whose index entries are found are all that have something in them.\<close>

lemma children_listed:
  assumes "tree_ok c p" "names = {n. isValidBucketName n \<and> c (index_key (p @ [n])) \<noteq> None}"
    and "apath_ok q" "prefix (p @ [n]) q" "c (index_key q) \<noteq> None"
  shows "n \<in> names"
proof -
  have "isValidBucketName n" using apath_ok_prefix [OF assms(3,4)] by (simp add: apath_ok_def)
  with tree_ancestor [OF assms(1,3-5)] assms(2) show ?thesis by blast
qed

lemma tree_by_children:
  assumes p: "apath_ok p" "tree_ok c p" and names: "names = {n. isValidBucketName n \<and> c (index_key (p @ [n])) \<noteq> None}"
  shows "c |` (- (\<Union>n\<in>names. tree_index (p @ [n]))) |` (- {index_key p}) = c |` (- tree_index p)"
    "tree_data p \<inter> dom c = (range (data_key p) \<union> (\<Union>n\<in>names. tree_data (p @ [n]))) \<inter> dom c"
proof -
  note listed = children_listed [OF p(2) names]
  let ?I = "\<Union>n\<in>names. tree_index (p @ [n])" and ?D = "\<Union>n\<in>names. tree_data (p @ [n])"
  show "c |` (- ?I) |` (- {index_key p}) = c |` (- tree_index p)"
  proof
    fix k
    have "(k \<in> ?I \<or> k = index_key p) \<longleftrightarrow> k \<in> tree_index p" if c: "c k \<noteq> None"
    proof
      show "k \<in> tree_index p" if "k \<in> ?I \<or> k = index_key p" using that tree_children(1) [of p] p(1) by auto
      assume "k \<in> tree_index p"
      then obtain q where q: "k = index_key q" "apath_ok q" "prefix p q" by (auto simp: tree_index_def)
      then show "k \<in> ?I \<or> k = index_key p" using prefix_child [of p q] listed c unfolding tree_index_def by blast
    qed
    then show "(c |` (- ?I) |` (- {index_key p})) k = (c |` (- tree_index p)) k"
      by (cases "c k") (auto simp: restrict_map_def)
  qed
  show "tree_data p \<inter> dom c = (range (data_key p) \<union> ?D) \<inter> dom c"
  proof (intro set_eqI iffI)
    fix k assume "k \<in> tree_data p \<inter> dom c"
    then obtain q j where q: "k = data_key q j" "apath_ok q" "prefix p q" "c k \<noteq> None" by (auto simp: tree_data_def)
    then have "c (index_key q) \<noteq> None" using p(2) unfolding tree_ok_def by blast
    then show "k \<in> (range (data_key p) \<union> ?D) \<inter> dom c"
      using q prefix_child [of p q] listed unfolding tree_data_def by blast
  qed (use tree_children(2) [of p] p(1) in auto)
qed

text \<open>The entries that are iterated after the sub-buckets are done are those of the bucket.\<close>

lemma own_entries:
  assumes "kv_ok K content" "apath_ok p" "content d1 = c |` (- (\<Union>n\<in>names. tree_index (p @ [n])))"
    and it: "kv_Iterate K d1 (data_key p []) = (es, None)"
  shows "set (map fst es) = range (data_key p) \<inter> dom c"
proof (intro set_eqI iffI)
  fix k assume "k \<in> set (map fst es)"
  then have "content d1 k \<noteq> None" "prefix (data_key p []) k" using iterated_keys [OF assms(1) it] by blast+
  then show "k \<in> range (data_key p) \<inter> dom c"
    unfolding assms(3) by (auto simp: restrict_map_def prefix_def data_key_def split: if_splits)
next
  fix k assume "k \<in> range (data_key p) \<inter> dom c"
  then obtain j where k: "k = data_key p j" "c k \<noteq> None" by auto
  have "k \<notin> (\<Union>n\<in>names. tree_index (p @ [n]))" using k(1) assms(2) data_not_index by blast
  then have "content d1 k \<noteq> None" using k(2) by (simp add: assms(3) restrict_map_def)
  moreover have "prefix (data_key p []) k" using prefix_data_key [OF assms(2,2), of "[]" j] k(1) by simp
  ultimately show "k \<in> set (map fst es)" using iterated_keys [OF assms(1) it] by blast
qed

text \<open>What the two functions do when they succeed.\<close>

definition deleted :: "('d \<Rightarrow> string \<rightharpoonup> string) \<Rightarrow> 'd \<Rightarrow> string list \<Rightarrow> 'd \<Rightarrow> string list \<Rightarrow> string set \<Rightarrow> string set \<Rightarrow> bool" where
  "deleted content d batch d' batch' I D \<longleftrightarrow>
     content d' = content d |` (- I) \<and> set batch' = set batch \<union> (D \<inter> dom (content d))"

definition subs_ok :: "(string \<rightharpoonup> string) \<Rightarrow> string list \<Rightarrow> string list \<Rightarrow> bool" where
  "subs_ok c p ns \<longleftrightarrow> distinct ns \<and>
     (\<forall>n\<in>set ns. isValidBucketName n \<and> tree_ok c (p @ [n]) \<and> c (index_key (p @ [n])) \<noteq> None)"

lemma subs_ok_deleted:
  assumes "subs_ok (content d) p (n # ns)" "apath_ok p" "content d1 = content d |` (- tree_index (p @ [n]))"
  shows "subs_ok (content d1) p ns"
proof -
  have "isValidBucketName m \<and> tree_ok (content d1) (p @ [m]) \<and> content d1 (index_key (p @ [m])) \<noteq> None" if m: "m \<in> set ns" for m
  proof -
    have "m \<noteq> n" using m assms(1) by (auto simp: subs_ok_def)
    then have "tree_index (p @ [n]) \<inter> tree_index (p @ [m]) = {}" by (rule tree_disjoint(1) [OF not_sym])
    moreover have m': "isValidBucketName m" "tree_ok (content d) (p @ [m])" "content d (index_key (p @ [m])) \<noteq> None"
      using assms(1) m by (auto simp: subs_ok_def)
    moreover have "index_key (p @ [m]) \<in> tree_index (p @ [m])" using m'(1) assms(2) by (auto simp: tree_index_def apath_ok_snoc)
    ultimately show ?thesis
      unfolding assms(3) using tree_ok_restrict [of "content d" "p @ [m]" "tree_index (p @ [n])"] data_not_index
      by (auto simp: restrict_map_def)
  qed
  then show ?thesis using assms(1) by (simp add: subs_ok_def)
qed

lemma sub_found:
  assumes "kv_ok K content" "kv_reliable K" "apath_ok p" "wdb_keys (content d)" "subs_ok (content d) p (n # ns)"
  shows "Bucket K d (bk_for p) n = Some (bk_for (p @ [n]))" "apath_ok (p @ [n])" "tree_ok (content d) (p @ [n])"
proof -
  show n: "apath_ok (p @ [n])" "tree_ok (content d) (p @ [n])" using assms(3,5) by (simp_all add: apath_ok_snoc subs_ok_def)
  then have "wdb_abs (content d) (p @ [n]) \<noteq> None" using assms(5) by (simp add: wdb_abs_def subs_ok_def)
  then show "Bucket K d (bk_for p) n = Some (bk_for (p @ [n]))"
    using Bucket_correct(2) [OF assms(1,4,3)] assms(2) by (simp add: kv_reliable_def)
qed

lemma deleted_first:
  assumes "deleted content d batch d1 b1 (tree_index (p @ [n])) (tree_data (p @ [n]))"
    "deleted content d1 b1 d' batch' (\<Union>n\<in>set ns. tree_index (p @ [n])) (\<Union>n\<in>set ns. tree_data (p @ [n]))"
  shows "deleted content d batch d' batch' (\<Union>n\<in>set (n # ns). tree_index (p @ [n])) (\<Union>n\<in>set (n # ns). tree_data (p @ [n]))"
proof -
  have "(\<Union>n\<in>set ns. tree_data (p @ [n])) \<inter> dom (content d1) = (\<Union>n\<in>set ns. tree_data (p @ [n])) \<inter> dom (content d)"
    using assms(1) tree_disjoint(2) [of "p @ [n]"] by (auto simp: deleted_def dom_def restrict_map_def split: if_splits)
  then show ?thesis using assms by (auto simp: deleted_def restrict_twice)
qed

lemma deleteBucket_Some:
  assumes "deleteBucket (Suc fuel) K d (bk_for p) batch = Some (d', batch', None)"
  obtains ns d1 b1 es where "BucketNames K d (bk_for p) = Inr ns" "delete_subs fuel K d (bk_for p) ns batch = Some (d1, b1, None)"
    "kv_Iterate K d1 (data_key p []) = (es, None)" "batch' = b1 @ map fst es" "kv_Delete K d1 (index_key p) = (d', None)"
  using assms unfolding deleteBucket.simps entries_of_for index_of_for
  by (auto simp: Let_def split: if_splits sum.splits option.splits prod.splits)

lemma delete_effect:
  assumes K: "kv_ok K content" "kv_reliable K" and p: "apath_ok p" "wdb_keys (content d)"
  shows "tree_ok (content d) p \<Longrightarrow> deleteBucket fuel K d (bk_for p) batch = Some (d', batch', None) \<Longrightarrow>
      deleted content d batch d' batch' (tree_index p) (tree_data p)"
    "subs_ok (content d) p ns \<Longrightarrow> delete_subs fuel K d (bk_for p) ns batch = Some (d', batch', None) \<Longrightarrow>
      deleted content d batch d' batch' (\<Union>n\<in>set ns. tree_index (p @ [n])) (\<Union>n\<in>set ns. tree_data (p @ [n]))"
  using p
proof (induction fuel arbitrary: d p ns batch d' batch')
  case 0
  { case 1 then show ?case by simp }
  { case 2 then show ?case by (cases ns) (simp_all add: deleted_def) }
next
  case (Suc fuel)
  { case 1
    from deleteBucket_Some [OF 1(2)] obtain ns d1 b1 es where ns: "BucketNames K d (bk_for p) = Inr ns"
        "delete_subs fuel K d (bk_for p) ns batch = Some (d1, b1, None)"
      and it: "kv_Iterate K d1 (data_key p []) = (es, None)" and b: "batch' = b1 @ map fst es"
      and kd: "kv_Delete K d1 (index_key p) = (d', None)" .
    note names = BucketNames_correct(1) [OF K(1) 1(4,3) ns(1)]
    then have "subs_ok (content d) p ns" using tree_ok_child [OF 1(1)] by (auto simp: subs_ok_def)
    from Suc.IH(2) [OF this ns(2) 1(3,4)] have d1: "content d1 = content d |` (- (\<Union>n\<in>set ns. tree_index (p @ [n])))"
      "set b1 = set batch \<union> ((\<Union>n\<in>set ns. tree_data (p @ [n])) \<inter> dom (content d))" by (simp_all add: deleted_def)
    have "content d' = content d1 |` (- {index_key p})" using kv_okD(4) [OF K(1) kd] by (auto simp: restrict_map_def)
    then show ?case
      using tree_by_children [OF 1(3,1) conjunct2 [OF names]] own_entries [OF K(1) 1(3) d1(1) it] d1 b
      by (auto simp: deleted_def) }
  { case 2
    show ?case
    proof (cases ns)
      case Nil
      with 2 show ?thesis by (simp add: deleted_def)
    next
      case (Cons n ns')
      note sub = sub_found [OF K 2(3,4) 2(1) [unfolded Cons]]
      obtain d1 b1 where d1: "deleteBucket fuel K d (bk_for (p @ [n])) batch = Some (d1, b1, None)"
        "delete_subs fuel K d1 (bk_for p) ns' b1 = Some (d', batch', None)"
        using 2(2) Cons sub(1) by (auto split: option.splits)
      note e1 = Suc.IH(1) [OF sub(3) d1(1) sub(2) 2(4)]
      then have c1: "content d1 = content d |` (- tree_index (p @ [n]))" by (simp add: deleted_def)
      have "wdb_keys (content d1)" using 2(4) c1 wdb_keys_restrict by metis
      from Suc.IH(2) [OF subs_ok_deleted [OF 2(1) [unfolded Cons] 2(3) c1] d1(2) 2(3) this] e1
      show ?thesis unfolding Cons by (rule deleted_first [rotated])
    qed }
qed

section \<open>Deletion ends\<close>

definition tree_paths :: "(string \<rightharpoonup> string) \<Rightarrow> string list \<Rightarrow> string list set" where
  "tree_paths c p = {q. apath_ok q \<and> prefix p q \<and> c (index_key q) \<noteq> None}"

lemma finite_tree_paths: "finite (dom c) \<Longrightarrow> finite (tree_paths c p)"
proof (rule inj_on_finite)
  show "inj_on index_key (tree_paths c p)" by (auto simp: tree_paths_def inj_on_def index_key_eq)
  show "index_key ` tree_paths c p \<subseteq> dom c" by (auto simp: tree_paths_def)
qed

lemma tree_paths_restrict: "finite (dom c) \<Longrightarrow> card (tree_paths (c |` S) p) \<le> card (tree_paths c p)"
  by (rule card_mono [OF finite_tree_paths]) (auto simp: tree_paths_def restrict_map_def split: if_splits)

lemma tree_paths_children:
  assumes "finite (dom c)" "apath_ok p" "c (index_key p) \<noteq> None" "distinct ns"
  shows "1 + (\<Sum>n\<leftarrow>ns. card (tree_paths c (p @ [n]))) \<le> card (tree_paths c p)"
proof -
  let ?T = "\<lambda>n. tree_paths c (p @ [n])"
  have "(\<Sum>n\<leftarrow>ns. card (?T n)) = (\<Sum>n\<in>set ns. card (?T n))" using assms(4) by (rule sum_list_distinct_conv_sum_set)
  also have "\<dots> = card (\<Union>n\<in>set ns. ?T n)"
    using finite_tree_paths [OF assms(1)] by (intro card_UN_disjoint [symmetric]) (auto simp: tree_paths_def dest: prefix_same_child)
  finally have "1 + (\<Sum>n\<leftarrow>ns. card (?T n)) = card (insert p (\<Union>n\<in>set ns. ?T n))"
    using finite_tree_paths [OF assms(1)] by (subst card_insert_disjoint) (auto simp: tree_paths_def)
  also have "\<dots> \<le> card (tree_paths c p)"
    using assms(2,3) finite_tree_paths [OF assms(1)] by (intro card_mono) (auto simp: tree_paths_def dest: append_prefixD)
  finally show ?thesis .
qed

lemma delete_returns:
  assumes K: "kv_ok K content" "kv_reliable K" and p: "apath_ok p" "wdb_keys (content d)" "finite (dom (content d))"
  shows "tree_ok (content d) p \<Longrightarrow> content d (index_key p) \<noteq> None \<Longrightarrow> 2 * card (tree_paths (content d) p) \<le> fuel + 1 \<Longrightarrow>
      deleteBucket fuel K d (bk_for p) batch \<noteq> None"
    "subs_ok (content d) p ns \<Longrightarrow> (\<Sum>n\<leftarrow>ns. 2 * card (tree_paths (content d) (p @ [n]))) \<le> fuel \<Longrightarrow>
      delete_subs fuel K d (bk_for p) ns batch \<noteq> None"
  using p
proof (induction fuel arbitrary: d p ns batch)
  case 0
  { case 1
    then show ?case using tree_paths_children [of "content d" p "[]"] by simp }
  { case 2
    have "1 \<le> card (tree_paths (content d) (p @ [n]))" if "n \<in> set ns" for n
      using that 2 tree_paths_children [of "content d" "p @ [n]" "[]"] by (auto simp: subs_ok_def apath_ok_snoc)
    then show ?case using 2(2) by (cases ns) fastforce+ }
next
  case (Suc fuel)
  { case 1
    have "delete_subs fuel K d (bk_for p) ns batch \<noteq> None" if ns: "BucketNames K d (bk_for p) = Inr ns" for ns
    proof (rule Suc.IH(2) [OF _ _ 1(4-6)])
      note names = BucketNames_correct(1) [OF K(1) 1(5,4) ns]
      then show "subs_ok (content d) p ns" using tree_ok_child [OF 1(1)] by (auto simp: subs_ok_def)
      have "1 + (\<Sum>n\<leftarrow>ns. card (tree_paths (content d) (p @ [n]))) \<le> card (tree_paths (content d) p)"
        using names 1 by (intro tree_paths_children) auto
      then show "(\<Sum>n\<leftarrow>ns. 2 * card (tree_paths (content d) (p @ [n]))) \<le> fuel" using 1(3) by (simp add: sum_list_const_mult)
    qed
    then show ?case by (auto simp: Let_def split: sum.splits option.splits prod.splits) }
  { case 2
    show ?case
    proof (cases ns)
      case (Cons n ns')
      note sub = sub_found [OF K 2(3,4) 2(1) [unfolded Cons]]
      have "content d (index_key (p @ [n])) \<noteq> None" using 2(1) Cons by (simp add: subs_ok_def)
      moreover from this have one: "1 \<le> card (tree_paths (content d) (p @ [n]))"
        using tree_paths_children [OF 2(5) sub(2), of "[]"] by simp
      ultimately have del: "deleteBucket fuel K d (bk_for (p @ [n])) batch \<noteq> None"
        using 2(2) Cons by (intro Suc.IH(1) [OF sub(3) _ _ sub(2) 2(4,5)]) simp_all
      have "delete_subs fuel K d1 (bk_for p) ns' b1 \<noteq> None" if d1: "deleteBucket fuel K d (bk_for (p @ [n])) batch = Some (d1, b1, None)" for d1 b1
      proof (rule Suc.IH(2))
        have c1: "content d1 = content d |` (- tree_index (p @ [n]))"
          using delete_effect(1) [OF K sub(2) 2(4) sub(3) d1] by (simp add: deleted_def)
        show "subs_ok (content d1) p ns'" by (rule subs_ok_deleted [OF 2(1) [unfolded Cons] 2(3) c1])
        have "(\<Sum>n\<leftarrow>ns'. 2 * card (tree_paths (content d1) (p @ [n]))) \<le> (\<Sum>n\<leftarrow>ns'. 2 * card (tree_paths (content d) (p @ [n])))"
          unfolding c1 by (intro sum_list_mono mult_le_mono2 tree_paths_restrict 2(5))
        then show "(\<Sum>n\<leftarrow>ns'. 2 * card (tree_paths (content d1) (p @ [n]))) \<le> fuel" using 2(2) Cons one by simp
        show "apath_ok p" by (rule 2(3))
        show "wdb_keys (content d1)" unfolding c1 by (rule wdb_keys_restrict [OF 2(4)])
        show "finite (dom (content d1))" using 2(5) by (simp add: c1)
      qed
      then show ?thesis using Cons sub(1) del by (auto split: option.splits)
    qed simp }
qed

text \<open>\<open>DeleteBucket\<close> removes the bucket with all that is in it, and nothing else.\<close>

lemma DeleteBucket_correct:
  assumes K: "kv_ok K content" "kv_reliable K" and c: "wdb_ok (content d)" "wdb_abs (content d) p = Some m"
  shows "DeleteBucket fuel K d (bk_for p) n = Some (d', None) \<Longrightarrow>
      wdb_ok (content d') \<and> wdb_abs (content d') = wdb_abs (content d) |` {q. \<not> prefix (p @ [n]) q}"
    "finite (dom (content d)) \<Longrightarrow> 2 * card (dom (content d)) \<le> fuel \<Longrightarrow> DeleteBucket fuel K d (bk_for p) n \<noteq> None"
proof -
  note p = wdb_absD(1) [OF c(2)]
  note keys = wdb_ok_keys [OF c(1)]
  have tree: "tree_ok (content d) (p @ [n])" using wdb_ok_tree [OF c(1)] by simp
  show "wdb_ok (content d') \<and> wdb_abs (content d') = wdb_abs (content d) |` {q. \<not> prefix (p @ [n]) q}"
    if del: "DeleteBucket fuel K d (bk_for p) n = Some (d', None)"
  proof (cases "Bucket K d (bk_for p) n")
    case None
    then have none: "wdb_abs (content d) (p @ [n]) = None"
      using Bucket_correct(2) [OF K(1) keys p, of n] K(2) by (cases "wdb_abs (content d) (p @ [n])") (simp_all add: kv_reliable_def)
    have "wdb_abs (content d) q = None" if "prefix (p @ [n]) q" for q
    proof (rule ccontr)
      assume "wdb_abs (content d) q \<noteq> None"
      then have q: "apath_ok q" "content d (index_key q) \<noteq> None" by (auto simp: wdb_abs_def split: if_splits)
      have "content d (index_key (p @ [n])) \<noteq> None"
        using tree_ancestor [OF wdb_ok_tree [OF c(1)] q(1) that q(2)] p by (simp add: apath_ok_def)
      with none apath_ok_prefix [OF q(1) that] show False by (simp add: wdb_abs_def split: if_splits)
    qed
    then have "wdb_abs (content d) |` {q. \<not> prefix (p @ [n]) q} = wdb_abs (content d)" by (auto simp: restrict_map_def fun_eq_iff)
    with None del c(1) show ?thesis by (simp add: DeleteBucket_def)
  next
    case (Some b)
    then have b: "b = bk_for (p @ [n])" "apath_ok (p @ [n])"
      using Bucket_correct(1) [OF K(1) keys p Some] by (auto simp: wdb_abs_def split: if_splits)
    obtain d1 batch where d1: "deleteBucket fuel K d (bk_for (p @ [n])) [] = Some (d1, batch, None)" "kv_Write K d1 batch = (d', None)"
      using del Some b(1) by (auto simp: DeleteBucket_def Let_def split: option.splits prod.splits)
    have "deleted content d [] d1 batch (tree_index (p @ [n])) (tree_data (p @ [n]))"
      by (rule delete_effect(1) [OF K b(2) keys tree d1(1)])
    then have "content d' = content d |` (- (tree_index (p @ [n]) \<union> tree_data (p @ [n])))"
      using kv_okD(5) [OF K(1) d1(2)] by (auto simp: deleted_def restrict_map_def fun_eq_iff dom_def)
    then show ?thesis using wdb_prune [OF c(1), of "p @ [n]"] by simp
  qed
  show "DeleteBucket fuel K d (bk_for p) n \<noteq> None" if fin: "finite (dom (content d))" "2 * card (dom (content d)) \<le> fuel"
  proof (cases "Bucket K d (bk_for p) n")
    case (Some b)
    then have b: "b = bk_for (p @ [n])" "apath_ok (p @ [n])" "content d (index_key (p @ [n])) \<noteq> None"
      using Bucket_correct(1) [OF K(1) keys p Some] by (auto simp: wdb_abs_def split: if_splits)
    have "card (tree_paths (content d) (p @ [n])) \<le> card (dom (content d))"
      using fin(1) by (intro card_inj_on_le [of index_key]) (auto simp: tree_paths_def inj_on_def index_key_eq)
    then have "deleteBucket fuel K d (bk_for (p @ [n])) [] \<noteq> None"
      using delete_returns(1) [OF K b(2) keys fin(1) tree b(3)] fin(2) by simp
    with Some b(1) show ?thesis by (auto simp: DeleteBucket_def Let_def split: option.splits prod.splits)
  qed (simp add: DeleteBucket_def)
qed

end
