(* ===== verification/Ldb_Properties.thy ===== *)
theory Ldb_Properties
  imports Ldb_Delete "HOL-Library.AList"
begin

text \<open>
  The property of the wallet's database: sequences of operations on buckets, and a small store.
\<close>

section \<open>Sequences of operations\<close>

text \<open>
  The operations of a transaction, each on a bucket that is found by its path. A sequence stops at the first
  error, after which the transaction is rolled back.
\<close>

datatype wdb_op =
    OpCreateTop string | OpNew "string list" string | OpPut "string list" string string
  | OpDelete "string list" string | OpClear "string list" | OpDeleteBucket "string list" string

definition with_bucket :: "'d kv \<Rightarrow> 'd \<Rightarrow> string list \<Rightarrow> (LDBBucket \<Rightarrow> ('d \<times> wdb_error option) option) \<Rightarrow> ('d \<times> wdb_error option) option" where
  "with_bucket K d p f = (case FetchBucket K d (Some (GetBucketMeta (bk_for p))) of None \<Rightarrow> Some (d, Some ErrBucketNotFound) | Some b \<Rightarrow> f b)"

definition dropped :: "'d \<times> (wdb_error + LDBBucket) \<Rightarrow> ('d \<times> wdb_error option) option" where
  "dropped r = Some (fst r, case snd r of Inl err \<Rightarrow> Some err | Inr _ \<Rightarrow> None)"

fun exec_op :: "nat \<Rightarrow> 'd kv \<Rightarrow> wdb_op \<Rightarrow> 'd \<Rightarrow> ('d \<times> wdb_error option) option" where
  "exec_op fuel K (OpCreateTop n) d = dropped (CreateTopLevelBucket K d n)"
| "exec_op fuel K (OpNew p n) d = with_bucket K d p (\<lambda>b. dropped (NewBucket K d b n))"
| "exec_op fuel K (OpPut p k v) d = with_bucket K d p (\<lambda>b. Some (bucket_Put K d b k v))"
| "exec_op fuel K (OpDelete p k) d = with_bucket K d p (\<lambda>b. Some (bucket_Delete K d b k))"
| "exec_op fuel K (OpClear p) d = with_bucket K d p (\<lambda>b. Some (bucket_Clear K d b))"
| "exec_op fuel K (OpDeleteBucket p n) d = with_bucket K d p (\<lambda>b. DeleteBucket fuel K d b n)"

fun exec_ops :: "nat \<Rightarrow> 'd kv \<Rightarrow> wdb_op list \<Rightarrow> 'd \<Rightarrow> ('d \<times> wdb_error option) option" where
  "exec_ops fuel K [] d = Some (d, None)"
| "exec_ops fuel K (x # xs) d =
     (case exec_op fuel K x d of
        Some (d', None) \<Rightarrow> exec_ops fuel K xs d'
      | r \<Rightarrow> r)"

text \<open>The same on maps of maps.\<close>

fun map_op :: "wdb_op \<Rightarrow> (string list \<rightharpoonup> (string \<rightharpoonup> string)) \<Rightarrow> string list \<rightharpoonup> (string \<rightharpoonup> string)" where
  "map_op (OpCreateTop n) a = (if a [n] = None then a([n] \<mapsto> Map.empty) else a)"
| "map_op (OpNew p n) a = a(p @ [n] \<mapsto> Map.empty)"
| "map_op (OpPut p k v) a = a(p \<mapsto> (the (a p))(k \<mapsto> v))"
| "map_op (OpDelete p k) a = a(p \<mapsto> (the (a p))(k := None))"
| "map_op (OpClear p) a = a(p \<mapsto> Map.empty)"
| "map_op (OpDeleteBucket p n) a = a |` {q. \<not> prefix (p @ [n]) q}"

fun op_path_ok :: "wdb_op \<Rightarrow> bool" where
  "op_path_ok (OpCreateTop n) = True"
| "op_path_ok (OpNew p n) = (apath_ok p \<and> length p < 2 ^ 63)"
| "op_path_ok (OpPut p k v) = (apath_ok p \<and> length p < 2 ^ 63)"
| "op_path_ok (OpDelete p k) = (apath_ok p \<and> length p < 2 ^ 63)"
| "op_path_ok (OpClear p) = (apath_ok p \<and> length p < 2 ^ 63)"
| "op_path_ok (OpDeleteBucket p n) = (apath_ok p \<and> length p < 2 ^ 63)"

lemma with_bucket_found:
  assumes "kv_ok K content" "with_bucket K d p f = Some (d', None)" "apath_ok p \<and> length p < 2 ^ 63"
  shows "\<exists>m. wdb_abs (content d) p = Some m \<and> f (bk_for p) = Some (d', None)"
proof (cases "FetchBucket K d (Some (GetBucketMeta (bk_for p)))")
  case (Some b)
  from FetchBucket_correct [OF assms(1) conjunct1 [OF assms(3)] conjunct2 [OF assms(3)] Some] assms(2) Some
  show ?thesis by (auto simp: with_bucket_def)
qed (use assms(2) in \<open>simp add: with_bucket_def\<close>)

lemma exec_op_correct:
  assumes K: "kv_ok K content" "kv_reliable K" and c: "wdb_ok (content d)" and x: "op_path_ok x" "exec_op fuel K x d = Some (d', None)"
  shows "wdb_ok (content d') \<and> wdb_abs (content d') = map_op x (wdb_abs (content d))"
proof (cases x)
  case (OpCreateTop n)
  then obtain b where "CreateTopLevelBucket K d n = (d', Inr b)"
    using x(2) by (cases "CreateTopLevelBucket K d n") (auto simp: dropped_def split: sum.splits)
  then show ?thesis using CreateTopLevelBucket_correct [OF K(1) c] OpCreateTop by fastforce
next
  case (OpNew p n)
  note w = x [unfolded OpNew exec_op.simps op_path_ok.simps]
  obtain m where m: "wdb_abs (content d) p = Some m" "dropped (NewBucket K d (bk_for p) n) = Some (d', None)"
    using with_bucket_found [OF K(1) w(2,1)] by blast
  then obtain b where "NewBucket K d (bk_for p) n = (d', Inr b)"
    by (cases "NewBucket K d (bk_for p) n") (auto simp: dropped_def split: sum.splits)
  then show ?thesis using NewBucket_correct [OF K(1) c m(1)] OpNew by fastforce
next
  case (OpPut p k v)
  note w = x [unfolded OpPut exec_op.simps op_path_ok.simps]
  obtain m where m: "wdb_abs (content d) p = Some m" "Some (bucket_Put K d (bk_for p) k v) = Some (d', None)"
    using with_bucket_found [OF K(1) w(2,1)] by blast
  then show ?thesis using Put_correct [OF K(1) c m(1), of k v d' None] OpPut by simp
next
  case (OpDelete p k)
  note w = x [unfolded OpDelete exec_op.simps op_path_ok.simps]
  obtain m where m: "wdb_abs (content d) p = Some m" "Some (bucket_Delete K d (bk_for p) k) = Some (d', None)"
    using with_bucket_found [OF K(1) w(2,1)] by blast
  then show ?thesis using Delete_correct [OF K(1) c m(1), of k d' None] OpDelete by simp
next
  case (OpClear p)
  note w = x [unfolded OpClear exec_op.simps op_path_ok.simps]
  obtain m where m: "wdb_abs (content d) p = Some m" "Some (bucket_Clear K d (bk_for p)) = Some (d', None)"
    using with_bucket_found [OF K(1) w(2,1)] by blast
  then show ?thesis using Clear_correct [OF K(1) c m(1), of d' None] OpClear by simp
next
  case (OpDeleteBucket p n)
  note w = x [unfolded OpDeleteBucket exec_op.simps op_path_ok.simps]
  obtain m where m: "wdb_abs (content d) p = Some m" "DeleteBucket fuel K d (bk_for p) n = Some (d', None)"
    using with_bucket_found [OF K(1) w(2,1)] by blast
  then show ?thesis using DeleteBucket_correct(1) [OF K c m] OpDeleteBucket by simp
qed

lemma exec_ops_correct:
  assumes K: "kv_ok K content" "kv_reliable K"
  shows "wdb_ok (content d) \<Longrightarrow> list_all op_path_ok xs \<Longrightarrow> exec_ops fuel K xs d = Some (d', None) \<Longrightarrow>
    wdb_ok (content d') \<and> wdb_abs (content d') = fold map_op xs (wdb_abs (content d))"
proof (induction xs arbitrary: d)
  case (Cons x xs)
  then obtain d1 where d1: "exec_op fuel K x d = Some (d1, None)" "exec_ops fuel K xs d1 = Some (d', None)"
    by (auto split: option.splits prod.splits)
  have "wdb_ok (content d1) \<and> wdb_abs (content d1) = map_op x (wdb_abs (content d))"
    using exec_op_correct [OF K Cons.prems(1) _ d1(1)] Cons.prems(2) by simp
  then show ?case using Cons.IH [OF _ _ d1(2)] Cons.prems(2) by simp
qed simp

section \<open>A small store\<close>

definition sample_kv :: "(string \<times> string) list kv" where
  "sample_kv = \<lparr>kv_Get = (\<lambda>d k. case map_of d k of None \<Rightarrow> Inl KvNotFound | Some v \<Rightarrow> Inr v),
     kv_Put = (\<lambda>d k v. (AList.update k v d, None)), kv_Delete = (\<lambda>d k. (AList.delete k d, None)),
     kv_Write = (\<lambda>d ks. (filter (\<lambda>(k, v). k \<notin> set ks) d, None)),
     kv_Iterate = (\<lambda>d p. (filter (\<lambda>(k, v). prefix p k) (AList.clearjunk d), None))\<rparr>"

lemma map_of_filter_keys: "map_of (filter (\<lambda>(k, v). k \<notin> S) d) = map_of d |` (- S)"
  by (induction d) (auto simp: restrict_map_def fun_eq_iff)

lemma sample_kv_ok: "kv_ok sample_kv map_of" "kv_reliable sample_kv"
proof -
  have "kv_reads sample_kv map_of" by (auto simp: kv_reads_def sample_kv_def split: option.splits)
  moreover have "kv_writes sample_kv map_of"
    by (auto simp: kv_writes_def sample_kv_def update_conv' delete_conv' map_of_filter_keys)
  moreover have "kv_iterates sample_kv map_of"
  proof -
    have d: "distinct (map fst (AList.clearjunk d))" for d :: "(string \<times> string) list" by (rule distinct_clearjunk)
    have "(k, v) \<in> set (AList.clearjunk d) \<longleftrightarrow> map_of d k = Some v" for k v and d :: "(string \<times> string) list"
      using map_of_eq_Some_iff [OF d, of d k v] by (simp add: map_of_clearjunk)
    then show ?thesis unfolding kv_iterates_def sample_kv_def
      using d by (auto simp: distinct_map_filter)
  qed
  ultimately show "kv_ok sample_kv map_of" by (simp add: kv_ok_def)
  show "kv_reliable sample_kv" by (auto simp: kv_reliable_def sample_kv_def split: option.splits)
qed

section \<open>Property\<close>

text \<open>
  C16. The database is a map of buckets to maps. However buckets are created, filled, cleared and deleted, in any
  order and at any depth: as long as no operation fails, the store holds, for each bucket that was created and
  not deleted since, what the same operations on a map of maps give, and reading an entry, the entries with a
  prefix and the names of the sub-buckets answers accordingly. So no key or name, whatever it
  contains, makes buckets interfere. Deleting a bucket ends: as many calls as twice the number of entries are enough.
\<close>

theorem buckets_refine_maps:
  assumes "kv_ok K content" "kv_reliable K" "wdb_ok (content d)" "list_all op_path_ok xs" "exec_ops fuel K xs d = Some (d', None)"
    and "fold map_op xs (wdb_abs (content d)) p = Some m"
  shows "wdb_ok (content d') \<and>
    (bucket_Get K d' (bk_for p) k = Inr r \<longrightarrow> r = m k) \<and>
    (bucket_GetByPrefix K d' (bk_for p) pre = Inr es \<longrightarrow> distinct (map fst es) \<and> (\<forall>j v. (j, v) \<in> set es \<longleftrightarrow> m j = Some v \<and> prefix pre j)) \<and>
    (BucketNames K d' (bk_for p) = Inr ns \<longrightarrow>
      distinct ns \<and> set ns = {n. fold map_op xs (wdb_abs (content d)) (p @ [n]) \<noteq> None}) \<and>
    (finite (dom (content d')) \<and> 2 * card (dom (content d')) \<le> fuel' \<longrightarrow> DeleteBucket fuel' K d' (bk_for p) n \<noteq> None)"
proof -
  have c: "wdb_ok (content d')" "wdb_abs (content d') = fold map_op xs (wdb_abs (content d))"
    using exec_ops_correct [OF assms(1-5)] by simp_all
  then have m: "wdb_abs (content d') p = Some m" using assms(6) by simp
  have p: "apath_ok p" by (rule wdb_absD(1) [OF m])
  have "{n. isValidBucketName n \<and> content d' (index_key (p @ [n])) \<noteq> None} = {n. wdb_abs (content d') (p @ [n]) \<noteq> None}"
    using p by (auto simp: wdb_abs_def apath_ok_snoc)
  then have "distinct ns \<and> set ns = {n. wdb_abs (content d') (p @ [n]) \<noteq> None}" if "BucketNames K d' (bk_for p) = Inr ns"
    using BucketNames_correct(1) [OF assms(1) wdb_ok_keys [OF c(1)] p that] by simp
  then show ?thesis
    using c Get_correct [OF assms(1) c(1) m] GetByPrefix_correct [OF assms(1) m] DeleteBucket_correct(2) [OF assms(1,2) c(1) m]
    by simp
qed

definition sample_ops :: "wdb_op list" where
  "sample_ops = [OpCreateTop ''a'', OpNew [''a''] ''b'', OpNew [''a''] ''c'', OpPut [''a''] ''b_k'' ''1'',
     OpPut [''a'', ''b''] ''k'' ''2'', OpDeleteBucket [''a''] ''c'']"

definition sample_db :: "(string \<times> string) list" where
  "sample_db = [(''b_1_a'', ''a''), (''b_2_a_b'', ''b''), (''1_a_b_k'', ''1''), (''2_a_b_k'', ''2'')]"

text \<open>The buckets that the operations find, and what they do.\<close>

lemma sample_fetches:
  "FetchBucket sample_kv [(''b_1_a'', ''a'')] (Some (GetBucketMeta (bk_for [''a'']))) = Some (bk_for [''a''])"
  "FetchBucket sample_kv [(''b_1_a'', ''a''), (''b_2_a_b'', ''b'')] (Some (GetBucketMeta (bk_for [''a'']))) = Some (bk_for [''a''])"
  "FetchBucket sample_kv [(''b_1_a'', ''a''), (''b_2_a_b'', ''b''), (''b_2_a_c'', ''c'')] (Some (GetBucketMeta (bk_for [''a'']))) = Some (bk_for [''a''])"
  "FetchBucket sample_kv [(''b_1_a'', ''a''), (''b_2_a_b'', ''b''), (''b_2_a_c'', ''c''), (''1_a_b_k'', ''1'')] (Some (GetBucketMeta (bk_for [''a'', ''b'']))) = Some (bk_for [''a'', ''b''])"
  "FetchBucket sample_kv [(''b_1_a'', ''a''), (''b_2_a_b'', ''b''), (''b_2_a_c'', ''c''), (''1_a_b_k'', ''1''), (''2_a_b_k'', ''2'')] (Some (GetBucketMeta (bk_for [''a'']))) = Some (bk_for [''a''])"
  by code_simp+

lemma sample_create:
  "CreateTopLevelBucket sample_kv [] ''a'' = ([(''b_1_a'', ''a'')], Inr (bk_for [''a'']))"
  by code_simp

lemma sample_new_b:
  "NewBucket sample_kv [(''b_1_a'', ''a'')] (bk_for [''a'']) ''b'' = ([(''b_1_a'', ''a''), (''b_2_a_b'', ''b'')], Inr (bk_for [''a'', ''b'']))"
  by code_simp

lemma sample_new_c:
  "NewBucket sample_kv [(''b_1_a'', ''a''), (''b_2_a_b'', ''b'')] (bk_for [''a'']) ''c'' = ([(''b_1_a'', ''a''), (''b_2_a_b'', ''b''), (''b_2_a_c'', ''c'')], Inr (bk_for [''a'', ''c'']))"
  by code_simp

lemma sample_put_a:
  "bucket_Put sample_kv [(''b_1_a'', ''a''), (''b_2_a_b'', ''b''), (''b_2_a_c'', ''c'')] (bk_for [''a'']) ''b_k'' ''1'' = ([(''b_1_a'', ''a''), (''b_2_a_b'', ''b''), (''b_2_a_c'', ''c''), (''1_a_b_k'', ''1'')], None)"
  by code_simp

lemma sample_put_b:
  "bucket_Put sample_kv [(''b_1_a'', ''a''), (''b_2_a_b'', ''b''), (''b_2_a_c'', ''c''), (''1_a_b_k'', ''1'')] (bk_for [''a'', ''b'']) ''k'' ''2'' = ([(''b_1_a'', ''a''), (''b_2_a_b'', ''b''), (''b_2_a_c'', ''c''), (''1_a_b_k'', ''1''), (''2_a_b_k'', ''2'')], None)"
  by code_simp

lemma sample_delete_c:
  "DeleteBucket 3 sample_kv [(''b_1_a'', ''a''), (''b_2_a_b'', ''b''), (''b_2_a_c'', ''c''), (''1_a_b_k'', ''1''), (''2_a_b_k'', ''2'')] (bk_for [''a'']) ''c'' = Some (sample_db, None)"
  by code_simp

lemmas sample_steps = sample_create sample_new_b sample_new_c sample_put_a sample_put_b sample_delete_c

theorem buckets_refine_maps_witness:
  "exec_ops 3 sample_kv sample_ops [] = Some (sample_db, None) \<and> wdb_ok (map_of sample_db) \<and>
   (\<exists>r ns. bucket_Get sample_kv sample_db (bk_for [''a'']) ''b_k'' = Inr r \<and> r = Some ''1'' \<and>
     BucketNames sample_kv sample_db (bk_for [''a'']) = Inr ns \<and> set ns = {''b''})"
proof -
  have run: "exec_ops 3 sample_kv sample_ops [] = Some (sample_db, None)"
    by (simp add: sample_ops_def sample_steps sample_fetches with_bucket_def dropped_def)
  have empty: "wdb_ok (map_of ([] :: (string \<times> string) list))" by (simp add: wdb_ok_def)
  have ops: "list_all op_path_ok sample_ops"
    by (simp add: sample_ops_def apath_ok_def isValidBucketName_def bucketPathSep_def maxBucketNameLen_def)
  have init: "wdb_abs (map_of ([] :: (string \<times> string) list)) = Map.empty" by (simp add: wdb_abs_def fun_eq_iff)
  have maps: "fold map_op sample_ops (wdb_abs (map_of [])) [''a''] = Some [''b_k'' \<mapsto> ''1'']"
    "{n. fold map_op sample_ops (wdb_abs (map_of [])) ([''a''] @ [n]) \<noteq> None} = {''b''}"
    unfolding init by (auto simp: sample_ops_def restrict_map_def)
  have get: "bucket_Get sample_kv sample_db (bk_for [''a'']) ''b_k'' = Inr (Some ''1'')" by code_simp
  have names: "BucketNames sample_kv sample_db (bk_for [''a'']) = Inr [''b'']" by code_simp
  note t = buckets_refine_maps [OF sample_kv_ok empty ops run maps(1), unfolded maps(2)]
  from t run get names show ?thesis by fastforce
qed

end
