(* ===== verification/Spec2Isabelle.thy ===== *)
theory Spec2Isabelle
  imports Keeper_Properties Miner_Properties Fractal_Properties Mnemonic_Properties HD_Properties Ldb_Properties
begin

text \<open>
  A verification of the MassNet miner (\<open>src/\<close>), a proof-of-capacity miner in Go: it fills disks with
  plots, finds in them the proofs that a challenge of the chain asks for, and turns a good proof into
  a signed block. The theories model the program's own logic part by part, as HOL functions on
  explicit states, and prove the properties C1 to C40. This theory holds those of the plot
  database; \<open>Keeper_Properties\<close>, \<open>Miner_Properties\<close>, \<open>Fractal_Properties\<close>, \<open>Mnemonic_Properties\<close>, \<open>HD_Properties\<close>, \<open>Ldb_Properties\<close> hold the others.

  \<^bold>\<open>The program and its theories.\<close>

  \<^item> \<^emph>\<open>Common ground.\<close> \<open>Miner_Prelude\<close>: machine words, byte order codecs, positioned reads and writes on
    files. \<open>Go_Text\<close>: the parts of Go's \<open>strconv\<close>, \<open>strings\<close>, \<open>encoding/hex\<close> that the program uses.
  \<^item> \<^emph>\<open>Plot database\<close> (\<open>poc/engine/massdb\<close>, \<open>massdb.v1\<close>). \<open>MassDB_Base\<close>: errors, constants, and the record
    \<open>pocutil\<close> of mass-core's functions. \<open>Mem_Cache\<close>: \<open>cache.go\<close>. \<open>Hash_Map\<close>: the two tables of records in
    \<open>hashmap.go\<close>, \<open>hashmapA\<close> and \<open>hashmap\<close> with \<open>HashMapA_Get/Set\<close>, \<open>HashMapB_Get/Set\<close>, creation and loading of
    their files. \<open>Plot_Windows\<close>: the loop over windows of a table that both passes of a plot share.
    \<open>Pre_Plot\<close> and \<open>Plot_Work\<close>: the two passes of \<open>plot.go\<close>. \<open>MassDB_V1\<close>: the record \<open>massdbv1\<close>, its operations
    (\<open>massdb.v1.go\<close>), and plotting, stopping and deleting as a step relation \<open>mdb_step\<close>.
  \<^item> \<^emph>\<open>Space keeper\<close> (\<open>poc/engine/engine.go\<close>, \<open>poc/engine/spacekeeper\<close>, \<open>capacity\<close>). \<open>Engine\<close>: states, flags,
    actions, the proof pipe. \<open>Space_Queue\<close>: space identifiers, priorities as float32, the queue of the
    plotter. \<open>Work_Space\<close>: work spaces and their maps. \<open>Space_Keeper\<close>: the record \<open>spacekeeper\<close>, the actions
    \<open>PlotWS\<close>, \<open>MineWS\<close>, \<open>StopWS\<close>, \<open>RemoveWS\<close>, \<open>DeleteWS\<close>, the queries, the steps of the plotter. \<open>Keeper_Inv\<close>: the
    invariant of the index, \<open>index_ok\<close>, and what an action touches (locale \<open>keeper_action\<close>). \<open>Keeper_Sys\<close>: the
    plotter goroutine and callers as a step relation \<open>keeper_step\<close> with invariant \<open>sys_inv\<close>.
    \<open>Keeper_Queries\<close>: proofs. \<open>Space_Index\<close>: the initial index from the files of a directory. \<open>Space_Config\<close>,
    \<open>Config_Fill\<close>, \<open>Config_Keep\<close>, \<open>Config_Size\<close>: the configuration functions and what they keep and reach.
    \<open>Keeper_Start\<close>: registry, constructor and \<open>OnStart\<close>.
  \<^item> \<^emph>\<open>Configuration file\<close> (\<open>config\<close>). \<open>Miner_Config\<close>: \<open>DecodeProofList\<close> and \<open>CheckConfig\<close>.
  \<^item> \<^emph>\<open>Miner\<close> (\<open>poc/engine/pocminer\<close>). \<open>Poc_Miner\<close>: the registry, the record \<open>poc_miner\<close>, the search
    \<open>syncGetBestProof\<close> with its loops over ticks and slots, the stale monitor, \<open>solveBlock\<close>, \<open>submitBlock\<close>
    and the loop \<open>generateBlocks\<close>. \<open>Slot_Search\<close>: what the search finds. \<open>Miner_Loop\<close>: the interface between
    miner and space keeper (locale \<open>proof_keeper\<close>, interpreted by the keeper above) and mined heights.
  \<^item> \<^emph>\<open>Fractal protocol\<close> (\<open>fractal\<close>), by which a superior that mines uses the plots of its collectors.
    \<open>Go_Json\<close>: Go's \<open>encoding/json\<close>, as far as the messages need it. \<open>Fractal_Protocol\<close>: the six messages, their
    structs and \<open>EncodeMessage\<close>/\<open>DecodeMessage\<close>. \<open>Fractal_Conn\<close>: options, packets, the two queues and the send
    routine as the step relation \<open>conn_step\<close>, the writers (\<open>sender_step\<close>), the receive routine and the readers.
    \<open>Fractal_Collector\<close>: the local collector with its search \<open>trySlots\<close>. \<open>Fractal_Superior\<close>: the local superior
    with its tasks (\<open>ls_step\<close>), the remote superior, and the pool of collectors. \<open>Chia_Miner\<close>: the search \<open>getBestProof\<close>
    of the second miner (\<open>poc/engine.v2/pocminer\<close>) over the collectors of a local superior.
  \<^item> \<^emph>\<open>Mnemonics of the wallet\<close> (\<open>poc/wallet/keystore/mnemonic.go\<close>). \<open>Go_Big\<close>: \<open>big.Int\<close> as bytes.
    \<open>Go_Fields\<close>: \<open>strings.Fields\<close>. \<open>Mnemonic\<close>: entropy as words with a checksum, and back, by the two
    decoders of the source. \<open>English_Words\<close>: the default list of words.
  \<^item> \<^emph>\<open>Extended keys of the wallet\<close> (\<open>poc/wallet/keystore/hdkeychain\<close>). \<open>HD_Keychain\<close>: keys whose slices refer to a
    store of byte arrays, every operation of the package, and that the operations compute what they should of the
    values of keys, whatever the store and the cached public keys are. \<open>HD_Derivation\<close>: neutering, texts, the
    functions of BIP 32, and what \<open>Zero\<close> clears.
  \<^item> \<^emph>\<open>Database of the wallet\<close> (\<open>poc/wallet/db\<close>, \<open>ldb\<close>). \<open>Ldb_Bucket\<close>: buckets in buckets over one key-value store, by the
    operations of a transaction. \<open>Ldb_Abs\<close>: their map of maps \<open>wdb_abs\<close>, the invariant \<open>wdb_ok\<close> of the store, and the
    effect of each operation. \<open>Ldb_Delete\<close>: the recursive deletion of a bucket.
  \<^item> \<^emph>\<open>Instances.\<close> \<open>Sample_Instance\<close>, \<open>Sample_Keeper\<close>, \<open>Sample_Miner\<close>, \<open>Sample_Fractal\<close>: concrete functions for everything that
    is a parameter, at which the witnesses evaluate the theorems.

  The parts interact as in the code: the miner calls the keeper's \<open>GetProofs\<close> and \<open>SignHash\<close>; the keeper
  calls the operations of the database of each work space and runs one plot at a time in its plotter
  goroutine; a plot reads and writes the two table files through the cache. A collector answers the
  requests of a superior through a connection at whose other end the superior's reader decodes them.

  \<^bold>\<open>Interfaces.\<close> Each is a locale, interpreted on the model: \<open>field_codec\<close> (a value at a fixed width in bytes),
  \<open>record_store\<close> (a table with get and set: the two hash maps), \<open>window_pass\<close> and \<open>progressing_pass\<close> (the passes
  of a plot over their windows), \<open>keeper_action\<close> (what an action of the keeper may touch), \<open>filler\<close> (the loops
  that choose work spaces) and \<open>proof_keeper\<close> (what the miner relies on).

  \<^bold>\<open>Conventions.\<close> An error is the left of a sum, or a \<open>Some\<close> beside a state, as the Go function returns it; a
  panic is an error of its own or a \<open>None\<close> where a function cannot fail otherwise. Pointers that are
  shared are indices into a heap of work spaces. Integers have Go's width; \<open>go_int\<close> wraps a 64-bit \<open>int\<close>.
  Locks are not modelled where a function holds one from start to end: it is then one step. Goroutines
  that interleave are step relations, and properties of them hold in every reachable state. What
  happens outside (files that fail, memory, the clock, channels of other parties) is an argument, a
  function of an environment record, and holds for all values unless a property says otherwise.
  Functions of mass-core and other packages are fields of the records \<open>pocutil\<close>, \<open>prque\<close>, \<open>sk_env\<close>,
  \<open>miner_lib\<close>, \<open>frac_lib\<close>, \<open>collector_lib\<close>, \<open>task_cache\<close>,
  \<open>hd_lib\<close> and \<open>kv\<close>; what is assumed of them are the predicates \<open>pocutil_ok\<close>, \<open>pubkey_ok\<close>, \<open>prque_ok\<close>, \<open>range_ok\<close>,
  \<open>wallet_ok\<close>, \<open>goroutine_ok\<close>, \<open>sizes_ok\<close>, \<open>targets_ok\<close>, \<open>frac_lib_ok\<close>, \<open>task_cache_ok\<close>, \<open>hd_lib_ok\<close>, \<open>kv_ok\<close>, \<open>kv_reliable\<close>.

  \<^bold>\<open>What is shown.\<close>

  \<^item> C1 to C6: a plot from scratch ends in a database that is ready and whose every answer is empty or a
    space proof; the first pass leaves, for every key, a preimage of it when there is one and zero otherwise, and
    the second a space proof for every value that has one; a plot that stops leaves a consistent database.
    Two defects are proved too: a first pass that was interrupted does not end when it is resumed, and records
    that cross the end of the read buffer are read misaligned.
  \<^item> C12 to C15: proofs are sound, plotting is exclusive, and stopping behaves.
  \<^item> C18 to C22, C29, C31, C32: the running keeper keeps its invariant and never panics; multi-actions are
    framed; queues group and order work spaces; proofs are complete; two defects of its channel.
  \<^item> C23 to C28, C30: configuration chooses what a reference choice would, within the target, ends, keeps
    the index; names and lists parse back.
  \<^item> C33 to C36: the miner finds the first good slot, and finds it in time; its blocks carry verified
    proofs and signatures of the right key; no height is mined twice.
  \<^item> C17, C37 to C40: messages survive encoding, and three that crash the program do not; connections
    deliver, of each priority, what was written and in order; collectors try each slot once; reports
    reach their task and no other, over channels that are open.
  \<^item> C7: the second miner takes the best of the qualities that all its collectors report.
  \<^item> C8: mnemonics and entropy correspond to each other, and both decoders agree.
  \<^item> C9 to C11: public derivation of keys is the shadow of private derivation, extended keys are read back from
    their texts, and derivation is that of BIP 32 but for parents with leading zeros.
  \<^item> C16: the database of the wallet is a map of buckets to maps under any sequence of operations.
  \<^item> Without a number: the tables are stores, their files load as they were written, the cache flushes what it
    holds, paths are distinct, databases are found by their backend, and stopping twice panics.

  \<^bold>\<open>Fuel and bounds.\<close> \<open>run_windows\<close> and the generating loops of the configuration take fuel, which is the
  number of turns; \<open>None\<close> means that it ran out. C1 and C2 prove that more than the volume of the table is
  enough, and C26 as many turns as the target has bytes; C5 holds for every fuel. \<open>slot_loop\<close> and
  \<open>collector_slots\<close> are partial functions; \<open>slot_loop_total\<close> and \<open>collector_slots_result\<close> show that they return. Loops that wait for events take the list
  of events and return \<open>None\<close> while they wait.

  \<^bold>\<open>Not modelled.\<close> Of the second engine for Chia plots (\<open>poc/engine.v2\<close>) the space keeper and the databases,
  which have the structure of the first over a library in C++ (a collector asks that keeper), and the miner around
  its search. The keystore's accounts and
  encryption, which are calls of cryptographic libraries, and the wallet database's files, drivers and its variant for RocksDB. The word lists of other
  languages than English.
  Generated code, the API and the command line, which pass calls on. Mocked components. The shutdown
  of goroutines (\<open>OnStop\<close> of the keeper, the monitor of its plotter, \<open>waitStop\<close> of the fractal components),
  dialling and reconnecting, and \<open>LoadConfig\<close>.
\<close>

section \<open>Plotting\<close>

text \<open>
  C1. A plot from scratch. Creating a database where there is none, starting the plot and letting
  it run in an environment with memory and without failures ends (with as much fuel as the table has
  records), with a database that is ready and whose every answer is empty or a space proof. Opening
  its files again gives such a database too.
\<close>

theorem plot_from_scratch:
  assumes "pubkey_ok U" "pocutil_ok U bl" "buffer_aligned (RecordSize U bl) (2 ^ bl)" "7 \<le> bl"
    and "plot_env_ok E1" "plot_env_ok E2" "2 ^ bl < fuel"
    and "fs (fst (getPath U rootPath ordinal pk bl)) = None" "fs (snd (getPath U rootPath ordinal pk bl)) = None"
  shows "\<exists>fs1 mdb mdb1 fs2 mdb2 mdb3.
    CreateDB U no_faults fs (db_args rootPath ordinal pk bl) = (fs1, Inr mdb) \<and>
    MassDBV1_Plot mdb = (mdb1, PlotSpawned) \<and>
    executePlot U no_faults E1 E2 fuel fs1 mdb1 = Some ((fs2, mdb2), None) \<and> db_plotted U mdb2 \<and>
    OpenDB U no_faults fs2 (db_args rootPath ordinal pk bl) = Inr mdb3 \<and> db_plotted U mdb3"
proof -
  obtain fs1 mdb hmA where cr: "CreateDB U no_faults fs (db_args rootPath ordinal pk bl) = (fs1, Inr mdb)"
    and c: "db_consistent U mdb" and d: "on_disk U no_faults fs1 mdb"
    and A: "HashMapA mdb = Some hmA" "ReadCheckpoint hmA = 0" "hm_bl hmA = bl"
    and fl: "plotting mdb = 0" "mdb_wg mdb = 0" "mdb_pubKeyHash mdb = PubKeyHash U pk"
    and P: "getPath U rootPath ordinal pk bl = (filePathA mdb, filePathB mdb)" "filePathA mdb \<noteq> filePathB mdb"
    using CreateDB_ready [where fs = fs, OF assms(1-3,8,9)] by blast
  define mdb1 where "mdb1 = mdb\<lparr>plotting := 1, stopPlotCh := ChOpen, mdb_wg := 1\<rparr>"
  have plot: "MassDBV1_Plot mdb = (mdb1, PlotSpawned)"
    using A(1) fl by (simp add: MassDBV1_Plot_def mdb1_def Let_def)
  have m1: "db_consistent U mdb1" "on_disk U no_faults fs1 mdb1" "HashMapA mdb1 = Some hmA"
    "filePathA mdb1 = filePathA mdb" "filePathB mdb1 = filePathB mdb" "mdb_pubKeyHash mdb1 = PubKeyHash U pk"
    using c d A(1) fl by (simp_all add: mdb1_def)
  have V: "128 \<le> (2::nat) ^ bl" using power_increasing [OF assms(4), of "2 :: nat"] by simp
  obtain fs2 mdb2 where run: "executePlot U no_faults E1 E2 fuel fs1 mdb1 = Some ((fs2, mdb2), None)"
      "db_plotted U mdb2"
    using executePlot_ends [OF m1(1,3) _ assms(5,6), of fuel no_faults fs1] V assms(7) A by auto
  have d2: "on_disk U no_faults fs2 mdb2" "filePathA mdb2 = filePathA mdb" "filePathB mdb2 = filePathB mdb"
    "mdb_pubKeyHash mdb2 = PubKeyHash U pk"
    using executePlot_on_disk [OF m1(1) _ m1(2) _ run(1)] m1 A P(2) by auto
  from OpenDB_plotted [OF d2(1) _ d2(4) run(2), of rootPath ordinal bl] P d2(2,3)
  obtain mdb3 where "OpenDB U no_faults fs2 (db_args rootPath ordinal pk bl) = Inr mdb3" "db_plotted U mdb3"
    by auto
  with cr plot run show ?thesis by blast
qed

theorem plot_from_scratch_witness:
  "\<exists>fs1 mdb mdb1 fs2 mdb2 mdb3.
    CreateDB sampleU no_faults Map.empty (db_args ''/plots'' 3 5 7) = (fs1, Inr mdb) \<and>
    MassDBV1_Plot mdb = (mdb1, PlotSpawned) \<and>
    executePlot sampleU no_faults sampleE sampleE 129 fs1 mdb1 = Some ((fs2, mdb2), None) \<and>
    db_plotted sampleU mdb2 \<and>
    OpenDB sampleU no_faults fs2 (db_args ''/plots'' 3 5 7) = Inr mdb3 \<and> db_plotted sampleU mdb3"
  by (rule plot_from_scratch) simp_all

text \<open>
  C2. \<open>prePlotWork\<close> started at an even checkpoint, with the records below it final, ends and leaves
  table A complete: the record of every key is a preimage of it under \<open>P\<close> when it has one, and zero
  otherwise. The checkpoint in the file is then the volume.
\<close>

theorem prePlot_fills_tableA:
  assumes "hmA_wf U hm" "tableA_upto U hm (unat (ReadCheckpoint hm))" "even (unat (ReadCheckpoint hm))"
    "unat (ReadCheckpoint hm) \<le> hm_V hm" "plot_env_ok E" "50 \<le> hm_V hm" "hm_V hm < fuel"
  shows "\<exists>hm' cache'. prePlotWork U E fuel hm cache = Some ((hm', cache'), None) \<and>
    ReadCheckpoint hm' = hm_volume hm \<and>
    (\<forall>y. unat y < hm_V hm \<longrightarrow>
      (\<exists>v. HashMapA_Get U hm' y = Inr v \<and>
        (if preimages U (hm_bl hm) (hm_pkHash hm) y = {} then v = replicate (hm_recordSize hm) 0
         else \<exists>x \<in> preimages U (hm_bl hm) (hm_pkHash hm) y. v = le_put (hm_recordSize hm) x)))"
proof -
  obtain hm' cache' where run: "prePlotWork U E fuel hm cache = Some ((hm', cache'), None)"
    using prePlotWork_ends [OF assms] by blast
  have s: "hmA_wf U hm'" "same_table hm' hm" "tableA_upto U hm' (unat (ReadCheckpoint hm'))"
    "ReadCheckpoint hm' = hm_volume hm"
    using prePlotWork_safe [OF assms(1-4) run] by auto
  note same = same_table_simps [OF s(2)]
  have "tableA_upto U hm' (hm_V hm')"
    using s unat_volume [of U hm'] same(2) by (simp add: hmA_wf_def)
  from tableA_meaning [OF s(1) this] run s(4) show ?thesis unfolding same(1,3,4) by blast
qed

theorem prePlot_fills_tableA_witness:
  "\<exists>hm' cache'. prePlotWork sampleU sampleE 129 sampleA (NewMemCache 0) = Some ((hm', cache'), None) \<and>
    ReadCheckpoint hm' = hm_volume sampleA \<and>
    (\<forall>y. unat y < hm_V sampleA \<longrightarrow>
      (\<exists>v. HashMapA_Get sampleU hm' y = Inr v \<and>
        (if preimages sampleU (hm_bl sampleA) (hm_pkHash sampleA) y = {} then v = replicate (hm_recordSize sampleA) 0
         else \<exists>x \<in> preimages sampleU (hm_bl sampleA) (hm_pkHash sampleA) y. v = le_put (hm_recordSize sampleA) x)))"
  by (rule prePlot_fills_tableA) simp_all

text \<open>
  C3. \<open>plotWork\<close> on a complete table A ends, marks the plot as done, and leaves a space proof
  for \<open>z\<close> in table B whenever some pair of neighbouring nonzero records of table A maps to \<open>z\<close>.
\<close>

theorem plotWork_fills_tableB:
  assumes "plotB_ok U hmA hmB" "tableA_upto U hmA (hm_V hmA)"
    "tableB_upto U hmA hmB (2 * unat (ReadCheckpoint hmB))" "unat (ReadCheckpoint hmB) \<le> hm_V hmA div 2"
    "plot_env_ok E" "100 \<le> hm_V hmA" "hm_V hmA < fuel"
  shows "\<exists>hmB' cache'. plotWork U E fuel hmA hmB cache = Some ((hmB', cache'), None) \<and>
    fst (HashMapB_Progress hmB') \<and>
    (\<forall>y z b. y < hm_V hmA div 2 \<longrightarrow> unat z < hm_V hmA \<longrightarrow>
      (unat z, b) \<in> set (pair_events U (hm_bl hmA) (hm_pkHash hmA) (hm_recordSize hmA)
        (record_of hmA (2 * hm_recordSize hmA) y)) \<longrightarrow>
      (\<exists>x xp. HashMapB_Get hmB' z = Inr (x, xp) \<and> space_proof U (hm_bl hmA) (hm_pkHash hmA) x xp z))"
proof -
  obtain hmB' cache' where run: "plotWork U E fuel hmA hmB cache = Some ((hmB', cache'), None)"
    using plotWork_ends [OF assms(1,3,4,5,6,7)] by blast
  have s: "plotB_ok U hmA hmB'" "tableB_upto U hmA hmB' (2 * unat (ReadCheckpoint hmB'))"
    "unat (ReadCheckpoint hmB') = hm_V hmA div 2" "fst (HashMapB_Progress hmB')"
    using plotWork_safe [OF assms(1,3,4) run] by auto
  have tB: "tableB_upto U hmA hmB' (hm_V hmA)"
    using s(2,3) plotB_ok_simps(10) [OF assms(1)] by simp
  have "\<exists>x xp. HashMapB_Get hmB' z = Inr (x, xp) \<and> space_proof U (hm_bl hmA) (hm_pkHash hmA) x xp z"
    if "y < hm_V hmA div 2" "unat z < hm_V hmA"
      "(unat z, b) \<in> set (pair_events U (hm_bl hmA) (hm_pkHash hmA) (hm_recordSize hmA)
        (record_of hmA (2 * hm_recordSize hmA) y))" for y z b
    using that by (intro tableB_complete [OF s(1) assms(2) tB]) (auto simp: eventsB_def)
  with run s(4) show ?thesis by blast
qed

lemma sample_plotB:
  "\<exists>hmA. plotB_ok sampleU hmA sampleB \<and> tableA_upto sampleU hmA (hm_V hmA) \<and> hm_bl hmA = 7 \<and>
     tableB_upto sampleU hmA sampleB 0"
proof -
  obtain hm' cache' where run: "prePlotWork sampleU sampleE 129 sampleA (NewMemCache 0) = Some ((hm', cache'), None)"
    using prePlotWork_ends [of sampleU sampleA sampleE 129 "NewMemCache 0"] by auto
  then have A: "HashMapA (sample_mdb\<lparr>HashMapA := Some hm'\<rparr>) = Some hm'"
    "db_consistent sampleU (sample_mdb\<lparr>HashMapA := Some hm'\<rparr>)" "same_table hm' sampleA"
    "ReadCheckpoint hm' = hm_volume hm'"
    using db_consistent_prePlot [of sampleU sample_mdb sampleA, OF _ _ _ run] by simp_all
  from db_consistent_plotB [OF A(2,1,4)] same_table_simps(1) [OF A(3)] show ?thesis by auto
qed

theorem plotWork_fills_tableB_witness:
  "\<exists>hmA hmB' cache'. plotWork sampleU sampleE 129 hmA sampleB (NewMemCache 0) = Some ((hmB', cache'), None) \<and>
    fst (HashMapB_Progress hmB') \<and>
    (\<forall>y z b. y < hm_V hmA div 2 \<longrightarrow> unat z < hm_V hmA \<longrightarrow>
      (unat z, b) \<in> set (pair_events sampleU (hm_bl hmA) (hm_pkHash hmA) (hm_recordSize hmA)
        (record_of hmA (2 * hm_recordSize hmA) y)) \<longrightarrow>
      (\<exists>x xp. HashMapB_Get hmB' z = Inr (x, xp) \<and> space_proof sampleU (hm_bl hmA) (hm_pkHash hmA) x xp z))"
proof -
  obtain hmA where "plotB_ok sampleU hmA sampleB" "tableA_upto sampleU hmA (hm_V hmA)" "hm_bl hmA = 7"
    "tableB_upto sampleU hmA sampleB 0"
    using sample_plotB by blast
  then have "\<exists>hmB' cache'. plotWork sampleU sampleE 129 hmA sampleB (NewMemCache 0) = Some ((hmB', cache'), None) \<and>
    fst (HashMapB_Progress hmB') \<and>
    (\<forall>y z b. y < hm_V hmA div 2 \<longrightarrow> unat z < hm_V hmA \<longrightarrow>
      (unat z, b) \<in> set (pair_events sampleU (hm_bl hmA) (hm_pkHash hmA) (hm_recordSize hmA)
        (record_of hmA (2 * hm_recordSize hmA) y)) \<longrightarrow>
      (\<exists>x xp. HashMapB_Get hmB' z = Inr (x, xp) \<and> space_proof sampleU (hm_bl hmA) (hm_pkHash hmA) x xp z))"
    by (intro plotWork_fills_tableB) simp_all
  then show ?thesis by blast
qed



text \<open>
  C5. The checkpoint of a table that is being pre-plotted is one record past the start of the last
  window, while windows hold an even number of records: when the pre-plot is interrupted after a
  window and resumed from the stored checkpoint, it never ends (no amount of fuel is enough),
  although nothing fails and nobody stops it.
\<close>

theorem interrupted_prePlot_diverges:
  assumes "hmA_wf U hm" "50 \<le> hm_V hm" "unat p < hm_V hm" "even (unat p)" "plot_env_ok E"
    "prePlot_window (U, E0) i (hm, cache) p = ((hm', cache'), Inr q)"
  shows "prePlotWork U E fuel hm' cache2 = None"
proof -
  have hw: "hm_wf U hm" using assms(1) by (simp add: hmA_wf_def)
  have hm': "hm' = UpdateCheckpoint (hm\<lparr>hm_data := write_at (hm_data hm)
      (LenMetaInfo + unat p * hm_recordSize hm) (mc_data cache'), hm_checkpoint := p + 1\<rparr>)"
    using prePlot_window_cases [OF assms(1,3,6)] by simp
  then have wf: "hmA_wf U hm'"
    using assms(1) by (simp add: hmA_wf_update le_length_write_at del: length_write_at)
  have V: "hm_V hm' = hm_V hm" by (simp add: hm')
  have "even (hm_V hm)" using hm_V_bounds(2) [OF hw] by (metis dvd_triv_left)
  then have lt: "unat p + 1 < hm_V hm" using assms(3,4) by (metis Suc_eq_plus1 Suc_lessI even_Suc)
  have "unat (p + 1) = unat p + 1"
    using lt hm_V_bounds(1) [OF hw] unat_add_bound [of p 1] by simp
  moreover have "ReadCheckpoint hm' = p + 1"
    using hmA_wf_hdr [OF assms(1)]
    by (simp add: hm' ReadCheckpoint_UpdateCheckpoint le_length_write_at del: length_write_at)
  ultimately show ?thesis
    using assms(2,4,5) lt V by (intro prePlotWork_odd [OF wf]) simp_all
qed

theorem interrupted_prePlot_diverges_witness:
  "\<exists>hm' cache' q. prePlot_window (sampleU, sampleE) 0 (sampleA, NewMemCache 0) 0 = ((hm', cache'), Inr q) \<and>
    (\<forall>fuel. prePlotWork sampleU sampleE fuel hm' (NewMemCache 0) = None)"
proof -
  obtain hm' cache' q where
    w: "prePlot_window (sampleU, sampleE) 0 (sampleA, NewMemCache 0) 0 = ((hm', cache'), Inr q)"
    using prePlot_window_returns [of sampleU sampleA 0 sampleE 0 "NewMemCache 0"] by auto
  have "prePlotWork sampleU sampleE fuel hm' (NewMemCache 0) = None" for fuel
    by (rule interrupted_prePlot_diverges [OF _ _ _ _ _ w]) simp_all
  with w show ?thesis by blast
qed

text \<open>
  C6. For the record size of bit lengths 33 to 40 the read buffer of \<open>plotWork\<close> does not hold a
  whole number of record pairs: round 6710888 of the inner loop reads its ten bytes at offset
  67108864 of table A's data, whereas record pair 6710887 starts at offset 67108870.
\<close>

theorem plotWork_reads_misaligned:
  assumes "67108874 \<le> length dat" "length bs = 10"
  shows "fst (read_rounds minMapABufMem \<lparr>rd_buf = [], rd_rest = dat\<rparr> bs 6710888) = read_at dat 67108864 10"
  using read_rounds_misaligned [of 10 minMapABufMem dat bs] assms by (simp add: minMapABufMem_def)

theorem plotWork_reads_misaligned_witness:
  "fst (read_rounds minMapABufMem \<lparr>rd_buf = [], rd_rest = replicate 67108874 7\<rparr> (replicate 10 0) 6710888) =
    read_at (replicate 67108874 7) 67108864 10"
  by (rule plotWork_reads_misaligned) simp_all

section \<open>Tables, files and the database\<close>

text \<open>
  Table A is a store: after any sequence of \<open>Set\<close> calls with keys in range and values of the
  record size, \<open>Get\<close> answers the last value set for the key, and what it answered before for keys
  that were not set.
\<close>

lemma HashMapA_store:
  assumes "hmA_wf U hm" "hm_full (hm_recordSize hm) hm" "unat j < hm_V hm"
    and "\<And>k v. (k, v) \<in> set kvs \<Longrightarrow> unat k < hm_V hm \<and> length v = hm_recordSize hm"
  shows "HashMapA_Get U (fold (\<lambda>kv h. fst (HashMapA_Set U h (fst kv) (snd kv))) kvs hm) j =
    (case map_of (rev kvs) j of Some v \<Rightarrow> Inr v | None \<Rightarrow> HashMapA_Get U hm j)"
proof -
  have "storeA.set_all (U, hm) kvs = (U, fold (\<lambda>kv h. fst (HashMapA_Set U h (fst kv) (snd kv))) kvs hm)"
    by (induction kvs arbitrary: hm) (auto split: prod.splits)
  then show ?thesis
    using storeA.set_all_get [of "(U, hm)" kvs j] assms by (auto simp: storeA_valid_def split: option.splits)
qed

lemma sampleA_full:
  "\<exists>hm. hmA_wf sampleU hm \<and> hm_full (hm_recordSize hm) hm \<and> hm_bl hm = 7 \<and> hm_recordSize hm = 1"
proof -
  obtain hmA where "plotB_ok sampleU hmA sampleB" "hm_bl hmA = 7" using sample_plotB by blast
  then show ?thesis
    by (intro exI [of _ hmA]) (auto simp: plotB_ok_def hmA_wf_def hm_wf_def)
qed

lemma HashMapA_store_witness:
  "\<exists>hm. HashMapA_Get sampleU (fold (\<lambda>kv h. fst (HashMapA_Set sampleU h (fst kv) (snd kv)))
      [(3, [9]), (100, [8]), (3, [7])] hm) 3 = Inr [7]"
proof -
  obtain hm where "hmA_wf sampleU hm" "hm_full (hm_recordSize hm) hm" "hm_bl hm = 7" "hm_recordSize hm = 1"
    using sampleA_full by blast
  then have "HashMapA_Get sampleU (fold (\<lambda>kv h. fst (HashMapA_Set sampleU h (fst kv) (snd kv)))
      [(3, [9]), (100, [8]), (3, [7])] hm) 3 =
    (case map_of (rev [(3, [9]), (100, [8]), (3, [7])]) (3 :: u64) of Some v \<Rightarrow> Inr v
     | None \<Rightarrow> HashMapA_Get sampleU hm 3)"
    by (intro HashMapA_store) auto
  then show ?thesis by (intro exI [of _ hm]) simp
qed

text \<open>Table B is a store in the same sense, for pairs of records.\<close>

lemma HashMapB_store:
  assumes "hm_wf U hm" "hm_full (2 * hm_recordSize hm) hm" "unat j < hm_V hm"
    and "\<And>k x xp. (k, (x, xp)) \<in> set kvs \<Longrightarrow>
      unat k < hm_V hm \<and> length x = hm_recordSize hm \<and> length xp = hm_recordSize hm"
  shows "HashMapB_Get (fold (\<lambda>kv h. fst (HashMapB_Set h (fst kv) (fst (snd kv)) (snd (snd kv)))) kvs hm) j =
    (case map_of (rev kvs) j of Some v \<Rightarrow> Inr v | None \<Rightarrow> HashMapB_Get hm j)"
proof -
  have "storeB.set_all (U, hm) kvs =
      (U, fold (\<lambda>kv h. fst (HashMapB_Set h (fst kv) (fst (snd kv)) (snd (snd kv)))) kvs hm)"
    by (induction kvs arbitrary: hm) (auto split: prod.splits)
  then show ?thesis
    using storeB.set_all_get [of "(U, hm)" kvs j] assms by (auto simp: storeB_valid_def split: option.splits)
qed

lemma HashMapB_store_witness:
  "HashMapB_Get (fold (\<lambda>kv h. fst (HashMapB_Set h (fst kv) (fst (snd kv)) (snd (snd kv))))
      [(3, ([9], [1])), (100, ([8], [2])), (3, ([7], [4]))] (sampleB\<lparr>hm_data := replicate 4352 0\<rparr>)) 100 =
    Inr ([8], [2])"
proof -
  let ?hm = "sampleB\<lparr>hm_data := replicate 4352 0\<rparr>"
  have "hm_wf sampleU ?hm" by (rule hm_wf_data) simp_all
  moreover have "hm_full (2 * hm_recordSize ?hm) ?hm" by (simp add: hm_full_def LenMetaInfo_def)
  ultimately have "HashMapB_Get (fold (\<lambda>kv h. fst (HashMapB_Set h (fst kv) (fst (snd kv)) (snd (snd kv))))
      [(3, ([9], [1])), (100, ([8], [2])), (3, ([7], [4]))] ?hm) 100 =
    (case map_of (rev [(3, ([9], [1])), (100, ([8], [2])), (3, ([7], [4]))]) (100 :: u64) of
       Some v \<Rightarrow> Inr v | None \<Rightarrow> HashMapB_Get ?hm 100)"
    by (intro HashMapB_store [where U = sampleU]) auto
  then show ?thesis by simp
qed

text \<open>
  Round trip of the file header: a file made by \<open>createMapFile\<close> loads again, with the bit
  length, the key, the checkpoint 0 and the map type it was made with.
\<close>

theorem createMapFile_loads:
  assumes "pubkey_ok U" "createMapFile U F fs p mt bl pk = (fs', Inr d)" "\<not> stat_fails F p"
    "bl < 256" "mt = MapTypeHashMapA \<or> mt = MapTypeHashMapB"
  shows "\<exists>hm. loadHashMap U F fs' p = Inr (hm, mt) \<and> hm_data hm = d \<and> hm_bl hm = bl \<and>
    hm_volume hm = push_bit bl 1 \<and> hm_checkpoint hm = 0 \<and> hm_offset hm = LenMetaInfo \<and>
    hm_recordSize hm = RecordSize U bl \<and> hm_pk hm = pk \<and> hm_pkHash hm = PubKeyHash U pk"
  by (rule loadHashMap_created [OF assms])

theorem createMapFile_loads_witness:
  "\<exists>fs' d hm. createMapFile sampleU no_faults Map.empty ''f'' MapTypeHashMapB 24 9 = (fs', Inr d) \<and>
    loadHashMap sampleU no_faults fs' ''f'' = Inr (hm, MapTypeHashMapB) \<and> hm_bl hm = 24 \<and> hm_pk hm = 9"
proof -
  obtain d where d: "createMapFile sampleU no_faults Map.empty ''f'' MapTypeHashMapB 24 9 = ([''f'' \<mapsto> d], Inr d)"
    using createMapFile_fresh [of Map.empty "''f''" sampleU MapTypeHashMapB 24 9] by auto
  from createMapFile_loads [OF _ this] d show ?thesis by (auto simp: no_faults_def)
qed

text \<open>
  Flushing the cache: \<open>WriteToWriter\<close> of a whole nonempty cache either writes all of it, or
  returns an error after writing a prefix; without failures and without a stop it writes all of it.
\<close>

theorem WriteToWriter_flushes:
  assumes "cache_wf cache" "0 < mc_size cache"
  shows "(case WriteToWriter quit fault cache w 0 dst (MemCache_Len cache) of
      (w', n, None) \<Rightarrow> w' = write_at w dst (mc_data cache) \<and> n = mc_size cache
    | (w', n, Some e) \<Rightarrow> \<exists>k. w' = write_at w dst (take k (mc_data cache)))
    \<and> ((\<forall>c. \<not> quit c \<and> fault c = None) \<longrightarrow>
        snd (snd (WriteToWriter quit fault cache w 0 dst (MemCache_Len cache))) = None)"
proof -
  obtain w' n e where r: "WriteToWriter quit fault cache w 0 dst (MemCache_Len cache) = (w', n, e)"
    by (metis prod_cases3)
  have "flushed w dst (mc_data cache) (w', n, e)"
    using WriteToWriter_flushed [OF assms(1), of "MemCache_Len cache" w dst quit fault] r assms(2)
    by (simp add: MemCache_Len_def)
  moreover have "e = None" if "\<forall>c. \<not> quit c \<and> fault c = None"
    using WriteToWriter_complete [OF assms(1), of "MemCache_Len cache" quit fault w dst] r assms(2) that
    by (simp add: MemCache_Len_def)
  ultimately show ?thesis
    using assms(1) r by (auto simp: flushed_def cache_wf_def split: option.splits)
qed

theorem WriteToWriter_flushes_witness:
  "snd (snd (WriteToWriter (\<lambda>_. False) (\<lambda>_. None) \<lparr>mc_size = 2, mc_data = [3, 4]\<rparr> [9] 0 1
     (MemCache_Len \<lparr>mc_size = 2, mc_data = [3, 4]\<rparr>))) = None"
  using WriteToWriter_flushes [where cache = "\<lparr>mc_size = 2, mc_data = [3, 4]\<rparr>"
      and quit = "\<lambda>_. False" and fault = "\<lambda>_. None" and w = "[9]" and dst = 1]
  by (simp add: cache_wf_def)

text \<open>
  Databases of different ordinal, key or bit length have different files, and no file of
  table A is a file of table B.
\<close>

theorem getPath_distinct:
  assumes "pubkey_ok U"
  shows "(snd (getPath U rootPath ordinal pk bl) = snd (getPath U rootPath ordinal' pk' bl') \<longleftrightarrow>
      ordinal = ordinal' \<and> pk = pk' \<and> bl = bl') \<and>
    fst (getPath U rootPath ordinal pk bl) \<noteq> snd (getPath U rootPath ordinal' pk' bl')"
  using getPath_inj [OF assms, of rootPath ordinal pk bl ordinal' pk' bl']
    getPath_AB [of U rootPath ordinal pk bl ordinal' pk' bl'] by auto

theorem getPath_distinct_witness:
  "snd (getPath sampleU ''/d'' 1 5 24) \<noteq> snd (getPath sampleU ''/d'' 2 5 24)"
  using getPath_distinct [OF sampleU_pubkey, of "''/d''" 1 5 24 2 5 24] by simp





text \<open>
  C14. \<open>Plot\<close> on a finished database (no table A) sets \<open>plotting\<close> and starts nothing that would
  clear it: from then on, whatever is called, \<open>Delete\<close> refuses with \<open>ErrAlreadyPlotting\<close> and \<open>Plot\<close>
  too.
\<close>

theorem plot_on_finished_db_sticks:
  assumes "HashMapA db = None" "plotting db = 0" "mdb_wg db = 0"
    "(mdb_step U F)\<^sup>*\<^sup>* (sys_of (fst (MassDBV1_Plot db))) s"
  shows "MassDBV1_Delete G fs (ps_db s) = (fs, Some ErrAlreadyPlotting) \<and>
    MassDBV1_Plot (ps_db s) = (ps_db s, PlotResult (Some ErrAlreadyPlotting))"
proof -
  have "plot_stuck (sys_of (fst (MassDBV1_Plot db)))"
    using assms(1-3) by (simp add: plot_stuck_def sys_of_def MassDBV1_Plot_def Let_def)
  from plot_stuck_steps [OF assms(4) this] show ?thesis
    by (simp add: plot_stuck_def MassDBV1_Delete_def MassDBV1_Plot_def)
qed

theorem plot_on_finished_db_sticks_witness:
  "MassDBV1_Delete no_faults Map.empty (fst (MassDBV1_Plot (sample_mdb\<lparr>HashMapA := None\<rparr>))) =
    (Map.empty, Some ErrAlreadyPlotting)"
  using plot_on_finished_db_sticks [of "sample_mdb\<lparr>HashMapA := None\<rparr>" sampleU no_faults
      "sys_of (fst (MassDBV1_Plot (sample_mdb\<lparr>HashMapA := None\<rparr>)))" no_faults Map.empty]
  by (simp add: sys_of_def)



text \<open>
  \<open>StopPlot\<close> is not idempotent: two calls while a plot runs both decide to close the channel,
  and the second close makes the process panic.
\<close>

theorem double_StopPlot_panics:
  assumes "HashMapA db = Some hmA" "plotting db = 0"
  shows "\<exists>s. (mdb_step U F)\<^sup>*\<^sup>* (sys_of db) s \<and> ps_panicked s"
proof -
  let ?s1 = "(sys_of db)\<lparr>ps_db := fst (MassDBV1_Plot db)\<rparr>"
  let ?s2 = "?s1\<lparr>ps_stops := ps_stops ?s1 + 1\<rparr>"
  let ?s3 = "?s2\<lparr>ps_stops := ps_stops ?s2 + 1\<rparr>"
  let ?s4 = "?s3\<lparr>ps_db := (ps_db ?s3)\<lparr>stopPlotCh := ChClosed\<rparr>, ps_stops := ps_stops ?s3 - 1\<rparr>"
  note defs = sys_of_def MassDBV1_Plot_def MassDBV1_StopPlot_def StopPlot_close_def Let_def
  have "mdb_step U F (sys_of db) ?s1"
    using assms by (intro step_plot [where res = PlotSpawned]) (simp_all add: defs)
  moreover have "mdb_step U F ?s1 ?s2" using assms by (intro step_stop) (simp_all add: defs)
  moreover have "mdb_step U F ?s2 ?s3" using assms by (intro step_stop) (simp_all add: defs)
  moreover have "mdb_step U F ?s3 ?s4" using assms by (intro step_close) (simp_all add: defs)
  moreover have "mdb_step U F ?s4 (?s4\<lparr>ps_panicked := True\<rparr>)"
    using assms by (intro step_panic) (simp_all add: defs)
  ultimately have "(mdb_step U F)\<^sup>*\<^sup>* (sys_of db) (?s4\<lparr>ps_panicked := True\<rparr>)"
    by (meson rtranclp.rtrancl_refl rtranclp.rtrancl_into_rtrancl)
  then show ?thesis by (intro exI [of _ "?s4\<lparr>ps_panicked := True\<rparr>"]) simp
qed

theorem double_StopPlot_panics_witness:
  "\<exists>s. (mdb_step sampleU no_faults)\<^sup>*\<^sup>* (sys_of sample_mdb) s \<and> ps_panicked s"
  by (rule double_StopPlot_panics) simp_all

text \<open>
  The backend registry is a function of the type: registering keeps one backend per type, the
  first registration of a type wins, and an unknown type is \<open>ErrInvalidDBType\<close>.
\<close>

lemma backend_registry:
  "distinct (map Typ (fold (\<lambda>b bs. AddDBBackend bs b) ins [])) \<and>
   massdb_OpenDB (fold (\<lambda>b bs. AddDBBackend bs b) ins []) t args w =
     (case find (\<lambda>b. Typ b = t) ins of Some b \<Rightarrow> backend_OpenDB b args w | None \<Rightarrow> (w, Inl ErrInvalidDBType))"
proof -
  have d: "distinct (map Typ (fold (\<lambda>b bs. AddDBBackend bs b) ins bs))" if "distinct (map Typ bs)" for bs
    using that by (induction ins arbitrary: bs) (simp_all add: AddDBBackend_distinct)
  have f: "find (\<lambda>b. Typ b = t) (fold (\<lambda>b bs. AddDBBackend bs b) ins bs) = find (\<lambda>b. Typ b = t) (bs @ ins)" for bs
    by (induction ins arbitrary: bs) (auto simp: find_AddDBBackend find_append split: option.splits)
  show ?thesis using d [of "[]"] f [of "[]"] by (simp add: massdb_OpenDB_def)
qed

end
